(* ===== verification/Prelude.thy ===== *)
theory Prelude
  imports Main "HOL-Library.Word" "HOL-Library.Monad_Syntax"
begin

text \<open>
  The prelude of the development: the machine types of the sources (\<open>include/types.h\<close>), the
  error codes (\<open>include/error.h\<close>), the rounding macros, the collections the component theories
  add their facts to, and the facts on words, lists and options that the components share.

  A fallible routine of the sources has one of two kinds of failure. An error code
  (\<open>return -E_X\<close>) is a value of \<open>err\<close> on the left of a sum, so a caller sees it and the state
  the callee left behind. A panic (\<open>panic\<close>, \<open>assert\<close>, \<open>panic_on\<close>, and the dereference of a null
  pointer, which the kernel turns into a panic) ends the run: it is the value
  \<^term>\<open>None\<close> of the option monad in which the routines are composed.
\<close>

unbundle bit_operations_syntax

section \<open>Machine types\<close>

type_synonym u8 = "8 word"
type_synonym u16 = "16 word"
type_synonym u32 = "32 word"

section \<open>Error codes\<close>

text \<open>\<open>include/error.h\<close>: the codes and the numbers the sources give them.\<close>

datatype err =
    E_UNSPECIFIED
  | E_BAD_ENV
  | E_INVAL
  | E_NO_MEM
  | E_NO_SYS
  | E_NO_FREE_ENV
  | E_IPC_NOT_RECV
  | E_NO_DISK
  | E_MAX_OPEN
  | E_NOT_FOUND
  | E_BAD_PATH
  | E_FILE_EXISTS
  | E_NOT_EXEC

primrec errno :: "err \<Rightarrow> u32" where
  "errno E_UNSPECIFIED = 1"
| "errno E_BAD_ENV = 2"
| "errno E_INVAL = 3"
| "errno E_NO_MEM = 4"
| "errno E_NO_SYS = 5"
| "errno E_NO_FREE_ENV = 6"
| "errno E_IPC_NOT_RECV = 7"
| "errno E_NO_DISK = 8"
| "errno E_MAX_OPEN = 9"
| "errno E_NOT_FOUND = 10"
| "errno E_BAD_PATH = 11"
| "errno E_FILE_EXISTS = 12"
| "errno E_NOT_EXEC = 13"

section \<open>Rounding\<close>

text \<open>\<open>include/types.h\<close>, \<open>ROUND\<close> and \<open>ROUNDDOWN\<close>: the sum wraps at 32 bits.\<close>

definition ROUND :: "u32 \<Rightarrow> u32 \<Rightarrow> u32" where
  "ROUND a n = (a + n - 1) AND NOT (n - 1)"

definition ROUNDDOWN :: "u32 \<Rightarrow> u32 \<Rightarrow> u32" where
  "ROUNDDOWN a n = a AND NOT (n - 1)"

section \<open>Collections\<close>

named_theorems mmu_defs \<open>definitions of the address-space constants of include/mmu.h\<close>
named_theorems kframe \<open>what a routine leaves unchanged\<close>

section \<open>Shared facts\<close>

subsection \<open>The option monad\<close>

lemma bind_SomeE [elim!]:
  assumes "Option.bind m f = Some y"
  obtains x where "m = Some x" and "f x = Some y"
  using assms by (cases m) auto

lemma bind_Some_iff:
  "(Option.bind m f = Some y) \<longleftrightarrow> (\<exists>x. m = Some x \<and> f x = Some y)"
  by (cases m) auto

lemma bind_None_iff:
  "(Option.bind m f = None) \<longleftrightarrow> m = None \<or> (\<exists>x. m = Some x \<and> f x = None)"
  by (cases m) auto

text \<open>A loop over a list whose body may panic.\<close>

primrec ofold :: "('x \<Rightarrow> 's \<Rightarrow> 's option) \<Rightarrow> 'x list \<Rightarrow> 's \<Rightarrow> 's option" where
  "ofold f [] s = Some s"
| "ofold f (x # xs) s = Option.bind (f x s) (ofold f xs)"

lemma ofold_append: "ofold f (xs @ ys) s = Option.bind (ofold f xs s) (ofold f ys)"
  by (induction xs arbitrary: s) (auto split: bind_splits)

lemma ofold_inv:
  assumes "\<And>x s. x \<in> set xs \<Longrightarrow> P s \<Longrightarrow> \<exists>s'. f x s = Some s' \<and> P s'" and "P s"
  shows "\<exists>s'. ofold f xs s = Some s' \<and> P s'"
  using assms
proof (induction xs arbitrary: s)
  case (Cons x xs)
  then obtain s1 where "f x s = Some s1" "P s1" by force
  with Cons show ?case by force
qed simp

lemma ofold_rel:
  assumes "\<And>x s s'. x \<in> set xs \<Longrightarrow> f x s = Some s' \<Longrightarrow> R s s'" and "\<And>s. R s s"
    and "\<And>s t u. R s t \<Longrightarrow> R t u \<Longrightarrow> R s u"
  shows "ofold f xs s = Some s' \<Longrightarrow> R s s'"
  using assms(1)
proof (induction xs arbitrary: s)
  case Nil
  then show ?case using assms(2) by simp
next
  case (Cons x xs)
  from Cons.prems(1) obtain s1 where s1: "f x s = Some s1" "ofold f xs s1 = Some s'" by auto
  have "R s1 s'" using s1(2) Cons.prems(2) by (intro Cons.IH) auto
  moreover have "R s s1" using s1(1) by (intro Cons.prems(2) [of x]) auto
  ultimately show ?case using assms(3) by blast
qed

subsection \<open>Bits of words\<close>

lemma unat_u32: "unat (x :: u32) < 4294967296"
  using unsigned_less [of x] by simp

lemma unat_drop: "unat (drop_bit n (x :: u32)) = unat x div 2 ^ n"
  by (simp only: unat_drop_bit_eq drop_bit_eq_div [where ?'a = nat])

lemma unat_take: "unat (take_bit n (x :: u32)) = unat x mod 2 ^ n"
  by (simp only: unsigned_take_bit_eq take_bit_eq_mod [where ?'a = nat])

lemma unat_inc: "unat (x :: 'a :: len word) < 2 ^ LENGTH('a) - 1 \<Longrightarrow> unat (x + 1) = unat x + 1"
  by (simp add: unat_word_ariths)

lemma unat_dec: "x \<noteq> 0 \<Longrightarrow> unat (x - 1 :: 'a :: len word) = unat x - 1"
  by (metis unat_minus_one)

lemma sint_small: "0 \<le> i \<Longrightarrow> i < 2 ^ 31 \<Longrightarrow> sint (word_of_int i :: u32) = i"
  by (simp add: sint_sbintrunc' signed_take_bit_int_eq_self_iff)

end
