(* ===== verification/Strings.thy ===== *)
theory Strings
  imports Prelude
begin

text \<open>
  The string and memory routines of \<open>lib/string.c\<close>, shared by the kernel and the user programs.
  Memory is a map from 32-bit addresses to bytes, pointers are 32-bit words and wrap as they do in
  the machine, words are stored little endian. A loop that may run forever (a string without a
  terminator, a pointer that wraps past the end) is a partial function, \<open>None\<close> when it does not end.

  The lemmas show that away from the end of the address space the word-at-a-time copies end and
  are the plain byte-wise operations, and that the string functions compute on the abstract string
  stored at an address.
\<close>

section \<open>Definitions\<close>

type_synonym bmem = "u32 \<Rightarrow> u8"

definition load_word :: "bmem \<Rightarrow> u32 \<Rightarrow> u32" where
  "load_word m a = ucast (m a) OR push_bit 8 (ucast (m (a + 1)))
     OR push_bit 16 (ucast (m (a + 2))) OR push_bit 24 (ucast (m (a + 3)))"

definition store_word :: "u32 \<Rightarrow> u32 \<Rightarrow> bmem \<Rightarrow> bmem" where
  "store_word a w m = m(a := ucast w, a + 1 := ucast (drop_bit 8 w),
     a + 2 := ucast (drop_bit 16 w), a + 3 := ucast (drop_bit 24 w))"

text \<open>The string of fewer than \<open>n\<close> characters at an address, without its terminator.\<close>

primrec path_at :: "nat \<Rightarrow> bmem \<Rightarrow> u32 \<Rightarrow> u8 list option" where
  "path_at 0 m a = None"
| "path_at (Suc n) m a = (if m a = 0 then Some [] else map_option (\<lambda>cs. m a # cs) (path_at n m (a + 1)))"

subsection \<open>memcpy\<close>

partial_function (option) copy_align :: "u32 \<Rightarrow> u32 \<Rightarrow> u32 \<Rightarrow> bmem \<Rightarrow> (u32 \<times> u32 \<times> bmem) option" where
  "copy_align dst src lim m =
     (if dst AND 3 \<noteq> 0 \<and> dst < lim then copy_align (dst + 1) (src + 1) lim (m(dst := m src))
      else Some (dst, src, m))"

partial_function (option) copy_words :: "u32 \<Rightarrow> u32 \<Rightarrow> u32 \<Rightarrow> bmem \<Rightarrow> (u32 \<times> u32 \<times> bmem) option" where
  "copy_words dst src lim m =
     (if dst + 4 \<le> lim then copy_words (dst + 4) (src + 4) lim (store_word dst (load_word m src) m)
      else Some (dst, src, m))"

partial_function (option) copy_bytes :: "u32 \<Rightarrow> u32 \<Rightarrow> u32 \<Rightarrow> bmem \<Rightarrow> bmem option" where
  "copy_bytes dst src lim m =
     (if dst < lim then copy_bytes (dst + 1) (src + 1) lim (m(dst := m src)) else Some m)"

definition memcpy :: "u32 \<Rightarrow> u32 \<Rightarrow> u32 \<Rightarrow> bmem \<Rightarrow> (u32 \<times> bmem) option" where
  "memcpy dst src n m = do {
     let dstaddr = dst;
     let lim = dst + n;
     if src AND 3 \<noteq> dst AND 3 then do {
       m \<leftarrow> copy_bytes dst src lim m;
       Some (dstaddr, m)
     }
     else do {
       (dst, src, m) \<leftarrow> copy_align dst src lim m;
       (dst, src, m) \<leftarrow> copy_words dst src lim m;
       m \<leftarrow> copy_bytes dst src lim m;
       Some (dstaddr, m)
     }
   }"

subsection \<open>memset\<close>

partial_function (option) set_align :: "u32 \<Rightarrow> u32 \<Rightarrow> u8 \<Rightarrow> bmem \<Rightarrow> (u32 \<times> bmem) option" where
  "set_align dst lim byte m =
     (if dst AND 3 \<noteq> 0 \<and> dst < lim then set_align (dst + 1) lim byte (m(dst := byte))
      else Some (dst, m))"

partial_function (option) set_words :: "u32 \<Rightarrow> u32 \<Rightarrow> u32 \<Rightarrow> bmem \<Rightarrow> (u32 \<times> bmem) option" where
  "set_words dst lim word m =
     (if dst + 4 \<le> lim then set_words (dst + 4) lim word (store_word dst word m) else Some (dst, m))"

partial_function (option) set_bytes :: "u32 \<Rightarrow> u32 \<Rightarrow> u8 \<Rightarrow> bmem \<Rightarrow> bmem option" where
  "set_bytes dst lim byte m =
     (if dst < lim then set_bytes (dst + 1) lim byte (m(dst := byte)) else Some m)"

definition memset :: "u32 \<Rightarrow> u32 \<Rightarrow> u32 \<Rightarrow> bmem \<Rightarrow> (u32 \<times> bmem) option" where
  "memset dst c n m = do {
     let dstaddr = dst;
     let lim = dst + n;
     let byte = (ucast (c AND 0xFF) :: u8);
     let w = (ucast byte :: u32);
     let word = w OR push_bit 8 w OR push_bit 16 w OR push_bit 24 w;
     (dst, m) \<leftarrow> set_align dst lim byte m;
     (dst, m) \<leftarrow> set_words dst lim word m;
     m \<leftarrow> set_bytes dst lim byte m;
     Some (dstaddr, m)
   }"

subsection \<open>Strings\<close>

partial_function (option) strlen_loop :: "bmem \<Rightarrow> u32 \<Rightarrow> u32 \<Rightarrow> u32 option" where
  "strlen_loop m s n = (if m s \<noteq> 0 then strlen_loop m (s + 1) (n + 1) else Some n)"

definition strlen :: "bmem \<Rightarrow> u32 \<Rightarrow> u32 option" where
  "strlen m s = strlen_loop m s 0"

partial_function (option) strcpy_loop :: "u32 \<Rightarrow> u32 \<Rightarrow> bmem \<Rightarrow> bmem option" where
  "strcpy_loop dst src m = (
     let c = m src; m = m(dst := c)
     in if c \<noteq> 0 then strcpy_loop (dst + 1) (src + 1) m else Some m)"

definition strcpy :: "u32 \<Rightarrow> u32 \<Rightarrow> bmem \<Rightarrow> (u32 \<times> bmem) option" where
  "strcpy dst src m = do { m \<leftarrow> strcpy_loop dst src m; Some (dst, m) }"

text \<open>\<open>char\<close> is signed: a character is sign extended before it is compared with an \<open>int\<close>.\<close>

partial_function (option) strchr :: "bmem \<Rightarrow> u32 \<Rightarrow> u32 \<Rightarrow> u32 option option" where
  "strchr m s c = (
     if m s \<noteq> 0 then if scast (m s) = c then Some (Some s) else strchr m (s + 1) c
     else Some None)"

partial_function (option) strcmp :: "bmem \<Rightarrow> u32 \<Rightarrow> u32 \<Rightarrow> int option" where
  "strcmp m p q = (
     if m p \<noteq> 0 \<and> m p = m q then strcmp m (p + 1) (q + 1)
     else if (scast (m p) :: u32) < scast (m q) then Some (- 1)
     else if (scast (m p) :: u32) > scast (m q) then Some 1
     else Some 0)"

section \<open>Words and bytes\<close>

lemma load_word_bytes:
  "(ucast (load_word m a) :: u8) = m a"
  "(ucast (drop_bit 8 (load_word m a)) :: u8) = m (a + 1)"
  "(ucast (drop_bit 16 (load_word m a)) :: u8) = m (a + 2)"
  "(ucast (drop_bit 24 (load_word m a)) :: u8) = m (a + 3)"
  by (rule bit_word_eqI; auto simp: load_word_def bit_simps dest: bit_imp_le_length)+

lemma store_load_word:
  "store_word d (load_word m s) m' = m'(d := m s, d + 1 := m (s + 1), d + 2 := m (s + 2), d + 3 := m (s + 3))"
  by (simp add: store_word_def load_word_bytes)

lemma load_store_same: "load_word (store_word a w m) a = w"
proof (rule bit_word_eqI)
  fix n :: nat
  assume "n < LENGTH(32)"
  then consider "n < 8" | "8 \<le> n" "n < 16" | "16 \<le> n" "n < 24" | "24 \<le> n" "n < 32" by fastforce
  then show "bit (load_word (store_word a w m) a) n = bit w n"
    by cases (auto simp: load_word_def store_word_def bit_simps less_diff_conv2)
qed

lemma aligned_unat: "a AND 3 = 0 \<Longrightarrow> unat (a :: u32) mod 4 = 0"
proof -
  assume a: "a AND 3 = 0"
  have m: "(3 :: u32) = mask 2" by (simp add: mask_eq_exp_minus_1)
  have "unat (a AND 3) = unat a mod 4" unfolding m take_bit_eq_mask [symmetric] by (simp add: unat_take)
  with a show ?thesis by simp
qed

lemma aligned_distinct:
  assumes "a AND 3 = 0" "b AND 3 = 0" "(a :: u32) \<noteq> b" "i < 4" "j < 4"
  shows "a + word_of_nat i \<noteq> b + word_of_nat j"
proof -
  have a: "unat a mod 4 = 0" "unat b mod 4 = 0" using assms by (simp_all add: aligned_unat)
  have u: "unat (x + word_of_nat k) = unat x + k" if "unat x mod 4 = 0" "k < 4" for x :: u32 and k
  proof -
    have "unat x + k < 4294967296" using that unat_u32 [of x] by presburger
    then show ?thesis by (simp add: unat_word_ariths unat_of_nat)
  qed
  have "unat a \<noteq> unat b" using assms(3) by (simp add: word_unat_eq_iff)
  then have "unat a + i \<noteq> unat b + j" using a assms(4,5) by presburger
  then show ?thesis using u [OF a(1) assms(4)] u [OF a(2) assms(5)] by metis
qed

lemma load_store_other:
  assumes "a AND 3 = 0" "b AND 3 = 0" "(a :: u32) \<noteq> b"
  shows "load_word (store_word b w m) a = load_word m a"
proof -
  have d: "a + word_of_nat i \<noteq> b + word_of_nat j" if "i < 4" "j < 4" for i j
    by (rule aligned_distinct [OF assms that])
  have "store_word b w m (a + word_of_nat i) = m (a + word_of_nat i)" if "i < 4" for i
    using d [OF that, of 0] d [OF that, of 1] d [OF that, of 2] d [OF that, of 3] by (simp add: store_word_def)
  from this [of 0] this [of 1] this [of 2] this [of 3] show ?thesis by (simp add: load_word_def)
qed

section \<open>memcpy is the byte-wise copy\<close>

text \<open>\<open>k\<close> bytes copied, and what the source range means for it.\<close>

definition copied :: "u32 \<Rightarrow> u32 \<Rightarrow> nat \<Rightarrow> bmem \<Rightarrow> bmem" where
  "copied dst src k m = (\<lambda>a. if unat (a - dst) < k then m (src + (a - dst)) else m a)"

text \<open>The two ranges lie inside the address space and do not overlap.\<close>

definition separate :: "u32 \<Rightarrow> u32 \<Rightarrow> nat \<Rightarrow> bool" where
  "separate dst src n \<longleftrightarrow> unat dst + n < 2 ^ 32 \<and> unat src + n < 2 ^ 32
     \<and> (unat dst + n \<le> unat src \<or> unat src + n \<le> unat dst)"

lemma unat_add: "unat (a :: u32) + k < 2 ^ 32 \<Longrightarrow> unat (a + word_of_nat k) = unat a + k"
  by (simp add: unat_word_ariths unat_of_nat)

lemma copied_0 [simp]: "copied dst src 0 m = m"
  by (simp add: copied_def)

lemma separate_ne: "separate dst src n \<Longrightarrow> i < n \<Longrightarrow> j < n \<Longrightarrow> src + word_of_nat i - dst = word_of_nat j \<Longrightarrow> False"
proof -
  assume a: "separate dst src n" "i < n" "j < n" "src + word_of_nat i - dst = word_of_nat j"
  then have "src + word_of_nat i = dst + word_of_nat j" by (simp add: algebra_simps)
  then have "unat (src + word_of_nat i) = unat (dst + word_of_nat j)" by simp
  then have "unat src + i = unat dst + j"
    using a unat_add [of src i] unat_add [of dst j] by (simp add: separate_def)
  with a show False by (auto simp: separate_def)
qed

lemma copied_Suc:
  assumes "separate dst src n" and "k < n"
  shows "(copied dst src k m)(dst + word_of_nat k := copied dst src k m (src + word_of_nat k))
    = copied dst src (Suc k) m"
proof -
  have k: "k < 2 ^ 32" using assms by (simp add: separate_def)
  have src: "copied dst src k m (src + word_of_nat k) = m (src + word_of_nat k)"
  proof -
    have "\<not> unat (src + word_of_nat k - dst) < k"
    proof
      assume lt: "unat (src + word_of_nat k - dst) < k"
      have "src + word_of_nat k - dst = word_of_nat (unat (src + word_of_nat k - dst))" by simp
      with assms lt separate_ne [OF assms(1,2), of "unat (src + word_of_nat k - dst)"] show False by simp
    qed
    then show ?thesis by (simp add: copied_def)
  qed
  have "unat (a - dst) = k \<longleftrightarrow> a = dst + word_of_nat k" for a
  proof
    assume "unat (a - dst) = k"
    moreover have "word_of_nat (unat (a - dst)) = a - dst" by simp
    ultimately have "a - dst = word_of_nat k" by simp
    then show "a = dst + word_of_nat k" by (simp add: algebra_simps)
  next
    assume "a = dst + word_of_nat k"
    then show "unat (a - dst) = k" using k by (simp add: unat_of_nat)
  qed
  then show ?thesis
    unfolding src by (auto simp: fun_eq_iff copied_def less_Suc_eq)
qed

text \<open>The loops, started after \<open>k\<close> bytes, each copy a number of further bytes.\<close>

lemma copied_plus4:
  assumes sep: "separate dst src n" and k: "k + 4 \<le> n"
  shows "store_word (dst + word_of_nat k) (load_word (copied dst src k m) (src + word_of_nat k)) (copied dst src k m)
    = copied dst src (k + 4) m"
proof -
  let ?c = "\<lambda>i. copied dst src (k + i) m"
  have rd: "?c 0 (src + word_of_nat (k + i)) = m (src + word_of_nat (k + i))" if "i < 4" for i
  proof -
    have "\<not> unat (src + word_of_nat (k + i) - dst) < k"
    proof
      assume lt: "unat (src + word_of_nat (k + i) - dst) < k"
      have "src + word_of_nat (k + i) - dst = word_of_nat (unat (src + word_of_nat (k + i) - dst))" by simp
      with separate_ne [OF sep, of "k + i" "unat (src + word_of_nat (k + i) - dst)"] lt k that show False by simp
    qed
    then show ?thesis by (simp add: copied_def)
  qed
  have rd': "?c i (src + word_of_nat (k + i)) = m (src + word_of_nat (k + i))" if "i < 4" for i
  proof -
    have "\<not> unat (src + word_of_nat (k + i) - dst) < k + i"
    proof
      assume lt: "unat (src + word_of_nat (k + i) - dst) < k + i"
      have "src + word_of_nat (k + i) - dst = word_of_nat (unat (src + word_of_nat (k + i) - dst))" by simp
      with separate_ne [OF sep, of "k + i" "unat (src + word_of_nat (k + i) - dst)"] lt k that show False by simp
    qed
    then show ?thesis by (simp add: copied_def)
  qed
  have step: "(?c i)(dst + word_of_nat (k + i) := m (src + word_of_nat (k + i))) = ?c (Suc i)" if "i < 4" for i
    using copied_Suc [OF sep, of "k + i" m] rd' [OF that] that k by simp
  show ?thesis
    unfolding store_load_word
    using step [of 0] step [of 1] step [of 2] step [of 3] rd [of 0] rd [of 1] rd [of 2] rd [of 3]
    by (simp add: algebra_simps eval_nat_numeral)
qed

lemma copy_bytes_copied:
  assumes "separate dst src n" and "k \<le> n"
  shows "copy_bytes (dst + word_of_nat k) (src + word_of_nat k) (dst + word_of_nat n) (copied dst src k m)
    = Some (copied dst src n m)"
  using assms(2)
proof (induction "n - k" arbitrary: k)
  case 0
  then have "k = n" by simp
  then show ?case by (simp add: copy_bytes.simps)
next
  case (Suc d)
  then have k: "k < n" by simp
  have "dst + word_of_nat k < dst + word_of_nat n"
    using assms(1) k by (simp add: word_less_nat_alt unat_add separate_def)
  then show ?case
    using Suc.hyps(1) [of "Suc k"] Suc.hyps(2) k copied_Suc [OF assms(1) k, of m]
    by (subst copy_bytes.simps) (simp add: algebra_simps)
qed

lemma copy_align_copied:
  assumes "separate dst src n" and "k \<le> n"
  shows "\<exists>k'. k \<le> k' \<and> k' \<le> n \<and>
    copy_align (dst + word_of_nat k) (src + word_of_nat k) (dst + word_of_nat n) (copied dst src k m)
      = Some (dst + word_of_nat k', src + word_of_nat k', copied dst src k' m)"
  using assms(2)
proof (induction "n - k" arbitrary: k)
  case 0
  then show ?case by (intro exI [of _ k]) (simp add: copy_align.simps)
next
  case (Suc d)
  then have k: "k < n" and d: "d = n - Suc k" by simp_all
  show ?case
  proof (cases "(dst + word_of_nat k) AND 3 = 0")
    case True
    then show ?thesis using k by (intro exI [of _ k]) (simp add: copy_align.simps)
  next
    case False
    have lt: "dst + word_of_nat k < dst + word_of_nat n"
      using assms(1) k by (simp add: word_less_nat_alt unat_add separate_def)
    have "copy_align (dst + word_of_nat k) (src + word_of_nat k) (dst + word_of_nat n) (copied dst src k m)
      = copy_align (dst + word_of_nat (Suc k)) (src + word_of_nat (Suc k)) (dst + word_of_nat n) (copied dst src (Suc k) m)"
      using False lt copied_Suc [OF assms(1) k, of m]
      by (subst copy_align.simps) (simp add: algebra_simps)
    moreover obtain k' where "Suc k \<le> k'" "k' \<le> n"
      "copy_align (dst + word_of_nat (Suc k)) (src + word_of_nat (Suc k)) (dst + word_of_nat n) (copied dst src (Suc k) m)
        = Some (dst + word_of_nat k', src + word_of_nat k', copied dst src k' m)"
      using Suc.hyps(1) [OF d] k by (metis Suc_leI)
    ultimately show ?thesis by (intro exI [of _ k']) simp
  qed
qed

lemma copy_words_copied:
  assumes "separate dst src n" and "unat dst + n + 4 < 2 ^ 32" and "k \<le> n"
  shows "\<exists>k'. k \<le> k' \<and> k' \<le> n \<and>
    copy_words (dst + word_of_nat k) (src + word_of_nat k) (dst + word_of_nat n) (copied dst src k m)
      = Some (dst + word_of_nat k', src + word_of_nat k', copied dst src k' m)"
  using assms(3)
proof (induction "n - k" arbitrary: k rule: less_induct)
  case less
  have le: "dst + word_of_nat k + 4 \<le> dst + word_of_nat n \<longleftrightarrow> k + 4 \<le> n"
  proof -
    have "dst + word_of_nat k + 4 = dst + word_of_nat (k + 4)" by simp
    then show ?thesis
      using assms(1,2) less.prems unat_add [of dst "k + 4"] unat_add [of dst n]
      by (simp only: word_le_nat_alt) (simp add: separate_def)
  qed
  show ?case
  proof (cases "k + 4 \<le> n")
    case True
    then have d: "n - (k + 4) < n - k" by simp
    have "copy_words (dst + word_of_nat k) (src + word_of_nat k) (dst + word_of_nat n) (copied dst src k m)
      = copy_words (dst + word_of_nat (k + 4)) (src + word_of_nat (k + 4)) (dst + word_of_nat n) (copied dst src (k + 4) m)"
      using le True copied_plus4 [OF assms(1) True, of m]
      by (subst copy_words.simps) (simp add: algebra_simps)
    moreover obtain k' where "k + 4 \<le> k'" "k' \<le> n"
      "copy_words (dst + word_of_nat (k + 4)) (src + word_of_nat (k + 4)) (dst + word_of_nat n) (copied dst src (k + 4) m)
        = Some (dst + word_of_nat k', src + word_of_nat k', copied dst src k' m)"
      using less.hyps [OF d True] by metis
    ultimately show ?thesis by (intro exI [of _ k']) simp
  next
    case False
    then show ?thesis using le less.prems by (intro exI [of _ k]) (simp add: copy_words.simps)
  qed
qed

lemma memcpy_copied:
  assumes sep: "separate dst src (unat n)" and top: "unat dst + unat n + 4 < 2 ^ 32"
  shows "memcpy dst src n m = Some (dst, copied dst src (unat n) m)"
proof -
  let ?n = "unat n"
  have lim: "dst + n = dst + word_of_nat ?n" by simp
  have bytes: "copy_bytes (dst + word_of_nat k) (src + word_of_nat k) (dst + n) (copied dst src k m)
      = Some (copied dst src ?n m)" if "k \<le> ?n" for k
    unfolding lim using sep that by (rule copy_bytes_copied)
  show ?thesis
  proof (cases "src AND 3 = dst AND 3")
    case False
    then show ?thesis using bytes [of 0] by (simp add: memcpy_def)
  next
    case True
    from copy_align_copied [OF sep, of 0 m] obtain k where k: "k \<le> ?n"
      "copy_align dst src (dst + n) m = Some (dst + word_of_nat k, src + word_of_nat k, copied dst src k m)"
      by (auto simp flip: lim)
    from copy_words_copied [OF sep top k(1), of m] obtain j where "j \<le> ?n"
      "copy_words (dst + word_of_nat k) (src + word_of_nat k) (dst + n) (copied dst src k m)
        = Some (dst + word_of_nat j, src + word_of_nat j, copied dst src j m)"
      by (auto simp flip: lim)
    with True k bytes show ?thesis by (simp add: memcpy_def)
  qed
qed

section \<open>memset fills the range\<close>

definition filled :: "u32 \<Rightarrow> nat \<Rightarrow> u8 \<Rightarrow> bmem \<Rightarrow> bmem" where
  "filled dst k c m = (\<lambda>a. if unat (a - dst) < k then c else m a)"

lemma offset_eq_iff: "k < 2 ^ 32 \<Longrightarrow> unat ((a :: u32) - dst) = k \<longleftrightarrow> a = dst + word_of_nat k"
proof
  assume "unat (a - dst) = k"
  moreover have "word_of_nat (unat (a - dst)) = a - dst" by simp
  ultimately have "a - dst = word_of_nat k" by simp
  then show "a = dst + word_of_nat k" by (simp add: algebra_simps)
next
  assume "k < 2 ^ 32" "a = dst + word_of_nat k"
  then show "unat (a - dst) = k" by (simp add: unat_of_nat)
qed

lemma filled_Suc:
  "k < 2 ^ 32 \<Longrightarrow> (filled dst k c m)(dst + word_of_nat k := c) = filled dst (Suc k) c m"
  using offset_eq_iff [of k] by (auto simp: fun_eq_iff filled_def less_Suc_eq)

lemma word_of_byte:
  fixes c :: u8
  defines "w \<equiv> (ucast c :: u32)"
  defines "x \<equiv> w OR push_bit 8 w OR push_bit 16 w OR push_bit 24 w"
  shows "(ucast x :: u8) = c" "(ucast (drop_bit 8 x) :: u8) = c" "(ucast (drop_bit 16 x) :: u8) = c"
    "(ucast (drop_bit 24 x) :: u8) = c"
  unfolding x_def w_def
  by (rule bit_word_eqI; auto simp: bit_simps dest: bit_imp_le_length)+

lemma filled_plus4:
  fixes c :: u8
  assumes "k + 4 < 2 ^ 32"
  defines "w \<equiv> (ucast c :: u32)"
  shows "store_word (dst + word_of_nat k) (w OR push_bit 8 w OR push_bit 16 w OR push_bit 24 w) (filled dst k c m)
    = filled dst (k + 4) c m"
proof -
  have step: "(filled dst (k + i) c m)(dst + word_of_nat (k + i) := c) = filled dst (k + Suc i) c m" if "i < 4" for i
    using filled_Suc [of "k + i" dst c m] assms(1) that by simp
  show ?thesis
    unfolding store_word_def word_of_byte w_def
    using step [of 0] step [of 1] step [of 2] step [of 3]
    by (simp add: algebra_simps eval_nat_numeral)
qed

lemma set_bytes_filled:
  assumes "unat dst + n < 2 ^ 32" and "k \<le> n"
  shows "set_bytes (dst + word_of_nat k) (dst + word_of_nat n) c (filled dst k c m) = Some (filled dst n c m)"
  using assms(2)
proof (induction "n - k" arbitrary: k)
  case 0
  then have "k = n" by simp
  then show ?case by (simp add: set_bytes.simps)
next
  case (Suc d)
  then have k: "k < n" by simp
  have "dst + word_of_nat k < dst + word_of_nat n"
    using assms(1) k by (simp add: word_less_nat_alt unat_add)
  then show ?case
    using Suc.hyps(1) [of "Suc k"] Suc.hyps(2) k assms(1) filled_Suc [of k dst c m]
    by (subst set_bytes.simps) (simp add: algebra_simps)
qed

lemma set_align_filled:
  assumes "unat dst + n < 2 ^ 32" and "k \<le> n"
  shows "\<exists>k'. k \<le> k' \<and> k' \<le> n \<and> set_align (dst + word_of_nat k) (dst + word_of_nat n) c (filled dst k c m)
    = Some (dst + word_of_nat k', filled dst k' c m)"
  using assms(2)
proof (induction "n - k" arbitrary: k)
  case 0
  then show ?case by (intro exI [of _ k]) (simp add: set_align.simps)
next
  case (Suc d)
  then have k: "k < n" and d: "d = n - Suc k" by simp_all
  show ?case
  proof (cases "(dst + word_of_nat k) AND 3 = 0")
    case True
    then show ?thesis using k by (intro exI [of _ k]) (simp add: set_align.simps)
  next
    case False
    have "dst + word_of_nat k < dst + word_of_nat n"
      using assms(1) k by (simp add: word_less_nat_alt unat_add)
    with False have "set_align (dst + word_of_nat k) (dst + word_of_nat n) c (filled dst k c m)
      = set_align (dst + word_of_nat (Suc k)) (dst + word_of_nat n) c (filled dst (Suc k) c m)"
      using k assms(1) filled_Suc [of k dst c m] by (subst set_align.simps) (simp add: algebra_simps)
    moreover obtain k' where "Suc k \<le> k'" "k' \<le> n"
      "set_align (dst + word_of_nat (Suc k)) (dst + word_of_nat n) c (filled dst (Suc k) c m)
        = Some (dst + word_of_nat k', filled dst k' c m)"
      using Suc.hyps(1) [OF d] k by (metis Suc_leI)
    ultimately show ?thesis by (intro exI [of _ k']) simp
  qed
qed

lemma set_words_filled:
  fixes c :: u8
  assumes "unat dst + n + 4 < 2 ^ 32" and "k \<le> n"
  defines "w \<equiv> (ucast c :: u32)"
  defines "word \<equiv> w OR push_bit 8 w OR push_bit 16 w OR push_bit 24 w"
  shows "\<exists>k'. k \<le> k' \<and> k' \<le> n \<and> set_words (dst + word_of_nat k) (dst + word_of_nat n) word (filled dst k c m)
    = Some (dst + word_of_nat k', filled dst k' c m)"
  using assms(2)
proof (induction "n - k" arbitrary: k rule: less_induct)
  case less
  have "dst + word_of_nat k + 4 = dst + word_of_nat (k + 4)" by simp
  then have le: "dst + word_of_nat k + 4 \<le> dst + word_of_nat n \<longleftrightarrow> k + 4 \<le> n"
    using assms(1) less.prems unat_add [of dst "k + 4"] unat_add [of dst n]
    by (simp only: word_le_nat_alt) simp
  show ?case
  proof (cases "k + 4 \<le> n")
    case True
    then have d: "n - (k + 4) < n - k" by simp
    have "k + 4 < 2 ^ 32" using True assms(1) by simp
    then have "store_word (dst + word_of_nat k) word (filled dst k c m) = filled dst (k + 4) c m"
      unfolding word_def w_def by (rule filled_plus4)
    then have "set_words (dst + word_of_nat k) (dst + word_of_nat n) word (filled dst k c m)
      = set_words (dst + word_of_nat (k + 4)) (dst + word_of_nat n) word (filled dst (k + 4) c m)"
      using le True by (subst set_words.simps) (simp add: algebra_simps)
    moreover obtain k' where "k + 4 \<le> k'" "k' \<le> n"
      "set_words (dst + word_of_nat (k + 4)) (dst + word_of_nat n) word (filled dst (k + 4) c m)
        = Some (dst + word_of_nat k', filled dst k' c m)"
      using less.hyps [OF d True] by metis
    ultimately show ?thesis by (intro exI [of _ k']) simp
  next
    case False
    then show ?thesis using le less.prems by (intro exI [of _ k]) (simp add: set_words.simps)
  qed
qed

lemma memset_filled:
  assumes top: "unat dst + unat n + 4 < 2 ^ 32"
  shows "memset dst c n m = Some (dst, filled dst (unat n) (ucast c) m)"
proof -
  let ?n = "unat n" and ?c = "ucast (c AND 0xFF) :: u8"
  have ff: "(0xFF :: u32) = mask 8" by (simp add: mask_eq_exp_minus_1)
  have c: "?c = ucast c"
    unfolding ff by (rule bit_word_eqI) (simp add: bit_simps)
  have lim: "dst + n = dst + word_of_nat ?n" by simp
  have f0: "filled dst 0 ?c m = m" by (simp add: filled_def)
  from set_align_filled [of dst ?n 0 ?c m] top f0 obtain k where k: "k \<le> ?n"
    "set_align dst (dst + n) ?c m = Some (dst + word_of_nat k, filled dst k ?c m)"
    by (auto simp flip: lim)
  from set_words_filled [OF top k(1), of ?c m] obtain j where "j \<le> ?n"
    "set_words (dst + word_of_nat k) (dst + n) (ucast ?c OR push_bit 8 (ucast ?c) OR push_bit 16 (ucast ?c)
       OR push_bit 24 (ucast ?c)) (filled dst k ?c m) = Some (dst + word_of_nat j, filled dst j ?c m)"
    by (auto simp flip: lim)
  with k set_bytes_filled [of dst ?n j ?c m] top show ?thesis
    unfolding memset_def Let_def by (simp add: c flip: lim)
qed

section \<open>Strings in memory\<close>

text \<open>The string of non-zero bytes stored at an address, with its terminator.\<close>

primrec cstr :: "bmem \<Rightarrow> u32 \<Rightarrow> u8 list \<Rightarrow> bool" where
  "cstr m s [] \<longleftrightarrow> m s = 0"
| "cstr m s (x # xs) \<longleftrightarrow> m s = x \<and> x \<noteq> 0 \<and> cstr m (s + 1) xs"

lemma strlen_loop_cstr: "cstr m s xs \<Longrightarrow> strlen_loop m s n = Some (n + word_of_nat (length xs))"
proof (induction xs arbitrary: s n)
  case Nil
  then show ?case by (simp add: strlen_loop.simps)
next
  case (Cons x xs)
  then show ?case by (subst strlen_loop.simps) (simp add: algebra_simps)
qed

lemma strchr_cstr:
  "cstr m s xs \<Longrightarrow> strchr m s c = Some (case filter (\<lambda>i. scast (xs ! i) = c) [0..<length xs] of
     [] \<Rightarrow> None | i # _ \<Rightarrow> Some (s + word_of_nat i))"
proof (induction xs arbitrary: s)
  case Nil
  then show ?case by (simp add: strchr.simps)
next
  case (Cons x xs)
  have upt: "[0..<length (x # xs)] = 0 # map Suc [0..<length xs]"
    by (simp add: upt_conv_Cons map_Suc_upt del: upt_Suc)
  have "filter (\<lambda>i. scast ((x # xs) ! i) = c) [0..<length (x # xs)]
      = (if scast x = c then [0] else []) @ map Suc (filter (\<lambda>i. scast (xs ! i) = c) [0..<length xs])"
    unfolding upt by (simp add: filter_map comp_def)
  then show ?case
    using Cons by (subst strchr.simps) (auto split: list.splits simp: algebra_simps)
qed

lemma scast_less_iff: "(scast (x :: u8) :: u32) < scast y \<longleftrightarrow> x < y" if "x \<noteq> y"
proof -
  have mono: "\<And>a b :: u8. a < b \<Longrightarrow> (scast a :: u32) < scast b"
  proof -
    fix a b :: u8
    assume "a < b"
    have u: "uint (scast c :: u32) = (if uint c < 128 then uint c else uint c + (2 ^ 32 - 256))" for c :: u8
    proof -
      have "uint (scast c :: u32) = sint c mod 2 ^ 32"
        unfolding scast_eq uint_word_of_int by simp
      moreover have "sint c = (uint c + 128) mod 256 - 128"
        by (simp add: sint_uint signed_take_bit_eq_take_bit_shift take_bit_eq_mod)
      moreover have "(uint c + 128) mod 256 = (if uint c < 128 then uint c + 128 else uint c - 128)"
        using uint_lt2p [of c] mod_pos_pos_trivial [of "uint c + 128" 256]
          mod_pos_pos_trivial [of "uint c - 128" 256] mod_add_self2 [of "uint c - 128" 256]
        by (auto simp: add.commute)
      moreover have "0 \<le> uint c" "uint c < 256" using uint_lt2p [of c] by simp_all
      moreover from this have "(uint c - 256) mod 4294967296 = uint c + 4294967040"
        using mod_add_self2 [of "uint c - 256" "4294967296"]
          mod_pos_pos_trivial [of "uint c - 256 + 4294967296" "4294967296"] by simp
      ultimately show ?thesis by (simp add: zmod_trivial_iff)
    qed
    show "(scast a :: u32) < scast b"
      using \<open>a < b\<close> by (simp add: word_less_def u)
  qed
  from that consider "x < y" | "y < x" by (meson linorder_neqE)
  then show ?thesis using mono [of x y] mono [of y x] by cases auto
qed

text \<open>The order of strings by unsigned bytes.\<close>

fun str_order :: "u8 list \<Rightarrow> u8 list \<Rightarrow> int" where
  "str_order [] [] = 0"
| "str_order [] (y # ys) = - 1"
| "str_order (x # xs) [] = 1"
| "str_order (x # xs) (y # ys) = (if x = y then str_order xs ys else if x < y then - 1 else 1)"

lemma str_order_eq_0: "str_order xs ys = 0 \<longleftrightarrow> xs = ys"
  by (induction xs ys rule: str_order.induct) auto

lemma str_order_swap: "str_order ys xs = - str_order xs ys"
  by (induction xs ys rule: str_order.induct) auto

lemma scast_pos: "x \<noteq> (0 :: u8) \<Longrightarrow> (0 :: u32) < scast x"
  using scast_less_iff [of 0 x] by (simp add: word_neq_0_conv)

lemma strcmp_cstr: "cstr m p xs \<Longrightarrow> cstr m q ys \<Longrightarrow> strcmp m p q = Some (str_order xs ys)"
proof (induction xs ys arbitrary: p q rule: str_order.induct)
  case 1
  then show ?case by (simp add: strcmp.simps)
next
  case (2 y ys)
  then show ?case using scast_pos [of y] by (simp add: strcmp.simps)
next
  case (3 x xs)
  then show ?case using scast_pos [of x] by (simp add: strcmp.simps)
next
  case (4 x xs y ys)
  show ?case
  proof (cases "x = y")
    case True
    with 4 show ?thesis by (subst strcmp.simps) simp
  next
    case False
    with 4 scast_less_iff [of x y] scast_less_iff [of y x] show ?thesis
      by (subst strcmp.simps) auto
  qed
qed

text \<open>Copying a string to a place that does not overlap it.\<close>

lemma cstr_cong: "(\<And>i. i \<le> length xs \<Longrightarrow> m' (s + word_of_nat i) = m (s + word_of_nat i)) \<Longrightarrow> cstr m' s xs = cstr m s xs"
proof (induction xs arbitrary: s)
  case Nil
  from Nil [of 0] show ?case by simp
next
  case (Cons x xs)
  have "cstr m' (s + 1) xs = cstr m (s + 1) xs"
    using Cons.prems [of "Suc _"] by (intro Cons.IH) (simp add: algebra_simps)
  with Cons.prems [of 0] show ?case by simp
qed

lemma strcpy_loop_cstr:
  "cstr m src xs \<Longrightarrow> (\<And>i j. i \<le> length xs \<Longrightarrow> j \<le> length xs \<Longrightarrow> dst + word_of_nat i \<noteq> src + word_of_nat j)
    \<Longrightarrow> length xs < 2 ^ 32 - 1
    \<Longrightarrow> \<exists>m'. strcpy_loop dst src m = Some m' \<and> cstr m' dst xs
      \<and> (\<forall>a. (\<forall>i\<le>length xs. a \<noteq> dst + word_of_nat i) \<longrightarrow> m' a = m a)"
proof (induction xs arbitrary: dst src m)
  case Nil
  then show ?case by (subst strcpy_loop.simps) auto
next
  case (Cons x xs)
  let ?m = "m(dst := x)"
  have shift: "dst + 1 + word_of_nat i = dst + word_of_nat (Suc i)" "src + 1 + word_of_nat i = src + word_of_nat (Suc i)" for i
    by (simp_all add: algebra_simps)
  have "cstr ?m (src + 1) xs = cstr m (src + 1) xs"
    using Cons.prems(2) [of 0 "Suc _"] by (intro cstr_cong) (auto simp: shift)
  then have str: "cstr ?m (src + 1) xs" using Cons.prems(1) by simp
  have "\<exists>m'. strcpy_loop (dst + 1) (src + 1) ?m = Some m' \<and> cstr m' (dst + 1) xs
      \<and> (\<forall>a. (\<forall>i\<le>length xs. a \<noteq> dst + 1 + word_of_nat i) \<longrightarrow> m' a = ?m a)"
  proof (rule Cons.IH [OF str])
    show "dst + 1 + word_of_nat i \<noteq> src + 1 + word_of_nat j" if "i \<le> length xs" "j \<le> length xs" for i j
      unfolding shift using Cons.prems(2) [of "Suc i" "Suc j"] that by simp
  qed (use Cons.prems(3) in simp)
  then obtain m' where m': "strcpy_loop (dst + 1) (src + 1) ?m = Some m'" "cstr m' (dst + 1) xs"
    "\<forall>a. (\<forall>i\<le>length xs. a \<noteq> dst + 1 + word_of_nat i) \<longrightarrow> m' a = ?m a"
    by blast
  have "dst \<noteq> dst + 1 + word_of_nat i" if "i \<le> length xs" for i
  proof
    assume "dst = dst + 1 + word_of_nat i"
    then have "word_of_nat (Suc i) = (0 :: u32)" by (simp add: algebra_simps)
    then have "unat (word_of_nat (Suc i) :: u32) = 0" by simp
    then show False using that Cons.prems(3) by (simp add: unat_of_nat del: of_nat_Suc)
  qed
  then have "m' dst = x" using m'(3) by simp
  moreover have "strcpy_loop dst src m = Some m'"
    using Cons.prems(1) m'(1) by (subst strcpy_loop.simps) simp
  moreover have "m' a = m a" if "\<forall>i\<le>length (x # xs). a \<noteq> dst + word_of_nat i" for a
    using that m'(3) that [rule_format, of 0] unfolding shift by (force simp del: of_nat_Suc)
  ultimately show ?case using Cons.prems(1) m'(2) by auto
qed

section \<open>Properties\<close>

text \<open>A memory with the strings \<open>a\<close> and \<open>b\<close> at the addresses \<open>0x10\<close> and \<open>0x20\<close>.\<close>

definition ab_mem :: bmem where
  "ab_mem = (\<lambda>a. if a = 0x10 then 0x61 else if a = 0x20 then 0x62 else 0)"

text \<open>
  C25 (memcpy_correct). For ranges that do not overlap and end at least a word before the end of the
  address space, \<open>memcpy\<close> ends and returns its destination, whatever the alignment of the two
  pointers: afterwards byte \<open>i\<close> of the destination is byte \<open>i\<close> of the source and no other byte has
  changed.
\<close>

theorem memcpy_correct:
  assumes "separate dst src (unat n)" and "unat dst + unat n + 4 < 2 ^ 32"
  shows "memcpy dst src n m = Some (dst, copied dst src (unat n) m)"
  using assms by (rule memcpy_copied)

theorem memcpy_correct_witness:
  "memcpy 0x42 0x0E 0x13 ab_mem = Some (0x42, copied 0x42 0x0E 19 ab_mem)"
  using memcpy_correct [of "0x42" "0x0E" "0x13" ab_mem] by (simp add: separate_def)

text \<open>
  Correctness of \<open>memset\<close>. On a range that ends at least a word before the end of the address space
  \<open>memset\<close> ends, returns its destination and sets exactly the bytes of the range to the low byte of
  its argument.
\<close>

theorem memset_correct:
  assumes "unat dst + unat n + 4 < 2 ^ 32"
  shows "memset dst c n m = Some (dst, \<lambda>a. if unat (a - dst) < unat n then ucast c else m a)"
  using memset_filled [OF assms] by (simp add: filled_def)

theorem memset_correct_witness:
  "memset 0x11 0x1FF 7 ab_mem = Some (0x11, \<lambda>a. if unat (a - 0x11) < 7 then ucast (0x1FF :: u32) else ab_mem a)"
  using memset_correct [of "0x11" 7 "0x1FF" ab_mem] by simp

text \<open>
  Lemma (strcmp_correct). On two terminated strings \<open>strcmp\<close> ends and gives 0 exactly when they are
  equal, and otherwise the sign of their order by unsigned bytes, although the characters it
  compares are signed.
\<close>

theorem strcmp_correct:
  assumes "cstr m p xs" and "cstr m q ys"
  shows "strcmp m p q = Some (str_order xs ys) \<and> (str_order xs ys = 0 \<longleftrightarrow> xs = ys)"
  using strcmp_cstr [OF assms] str_order_eq_0 by simp

theorem strcmp_correct_witness:
  "strcmp ab_mem 0x10 0x20 = Some (- 1) \<and> ((- 1 :: int) = 0 \<longleftrightarrow> [0x61 :: u8] = [0x62])"
  using strcmp_correct [of ab_mem "0x10" "[0x61]" "0x20" "[0x62]"] by (simp add: ab_mem_def)

text \<open>
  Lemma (strcpy_strlen). Copying a terminated string to a place that does not overlap it ends: the
  destination then holds that string, \<open>strlen\<close> of it is the number of its bytes, and no byte outside
  the destination has changed.
\<close>

theorem strcpy_strlen:
  assumes "cstr m src xs" and "length xs < 2 ^ 32 - 1"
    and "\<And>i j. i \<le> length xs \<Longrightarrow> j \<le> length xs \<Longrightarrow> dst + word_of_nat i \<noteq> src + word_of_nat j"
  shows "\<exists>m'. strcpy dst src m = Some (dst, m') \<and> cstr m' dst xs
    \<and> strlen m' dst = Some (word_of_nat (length xs))
    \<and> (\<forall>a. (\<forall>i\<le>length xs. a \<noteq> dst + word_of_nat i) \<longrightarrow> m' a = m a)"
proof -
  from strcpy_loop_cstr [OF assms(1,3,2)] obtain m' where "strcpy_loop dst src m = Some m'"
    "cstr m' dst xs" "\<forall>a. (\<forall>i\<le>length xs. a \<noteq> dst + word_of_nat i) \<longrightarrow> m' a = m a"
    by blast
  then show ?thesis
    by (intro exI [of _ m']) (simp add: strcpy_def strlen_def strlen_loop_cstr)
qed

theorem strcpy_strlen_witness:
  "\<exists>m'. strcpy 0x40 0x10 ab_mem = Some (0x40, m') \<and> cstr m' 0x40 [0x61]
    \<and> strlen m' 0x40 = Some (word_of_nat (length [0x61 :: u8]))
    \<and> (\<forall>a. (\<forall>i\<le>length [0x61 :: u8]. a \<noteq> 0x40 + word_of_nat i) \<longrightarrow> m' a = ab_mem a)"
  by (rule strcpy_strlen) (auto simp: ab_mem_def le_Suc_eq)

end
