(* ===== verification/Mmu.thy ===== *)
theory Mmu
  imports Prelude
begin

text \<open>
  Addresses and page table entries: the macros and constants of \<open>include/mmu.h\<close> and the page
  number conversions of \<open>include/pmap.h\<close>. An index the sources compute from an address
  (\<open>PDX\<close>, \<open>PTX\<close>, \<open>PPN\<close>, \<open>VPN\<close>) is a natural number; addresses, page table entries and
  permissions keep their 32 bits. A \<open>struct Page *\<close> is the index of the page in the array
  \<open>pages\<close>, that is its physical page number.
\<close>

section \<open>Definitions\<close>

definition BY2PG :: u32 where [mmu_defs]: "BY2PG = 4096"
definition PDMAP :: u32 where [mmu_defs]: "PDMAP = 4 * 1024 * 1024"
definition PGSHIFT :: nat where [mmu_defs]: "PGSHIFT = 12"
definition PDSHIFT :: nat where [mmu_defs]: "PDSHIFT = 22"

definition PDX :: "u32 \<Rightarrow> nat" where
  "PDX va = unat (drop_bit 22 va AND 0x03FF)"

definition PTX :: "u32 \<Rightarrow> nat" where
  "PTX va = unat (drop_bit 12 va AND 0x03FF)"

definition PTE_ADDR :: "u32 \<Rightarrow> u32" where
  "PTE_ADDR pte = pte AND NOT 0xFFF"

definition PPN :: "u32 \<Rightarrow> nat" where
  "PPN va = unat (drop_bit 12 va)"

definition VPN :: "u32 \<Rightarrow> nat" where
  "VPN va = unat (drop_bit 12 va)"

definition PTE_G :: u32 where [mmu_defs]: "PTE_G = 0x0100"
definition PTE_V :: u32 where [mmu_defs]: "PTE_V = 0x0200"
definition PTE_D :: u32 where [mmu_defs]: "PTE_D = 0x0400"
definition PTE_COW :: u32 where [mmu_defs]: "PTE_COW = 0x0001"
definition PTE_LIBRARY :: u32 where [mmu_defs]: "PTE_LIBRARY = 0x0004"

definition KSEG1 :: u32 where [mmu_defs]: "KSEG1 = 0xA0000000"
definition ULIM :: u32 where [mmu_defs]: "ULIM = 0x80000000"
definition UVPT :: u32 where [mmu_defs]: "UVPT = ULIM - PDMAP"
definition UPAGES :: u32 where [mmu_defs]: "UPAGES = UVPT - PDMAP"
definition UENVS :: u32 where [mmu_defs]: "UENVS = UPAGES - PDMAP"
definition UTOP :: u32 where [mmu_defs]: "UTOP = UENVS"
definition UXSTACKTOP :: u32 where [mmu_defs]: "UXSTACKTOP = UTOP"
definition USTACKTOP :: u32 where [mmu_defs]: "USTACKTOP = UTOP - 2 * BY2PG"
definition UTEXT :: u32 where [mmu_defs]: "UTEXT = PDMAP"
definition UCOW :: u32 where [mmu_defs]: "UCOW = UTEXT - BY2PG"
definition UTEMP :: u32 where [mmu_defs]: "UTEMP = UCOW - BY2PG"

text \<open>\<open>PADDR\<close> and \<open>KADDR\<close> panic outside the kernel segment and beyond the physical memory.\<close>

definition PADDR :: "u32 \<Rightarrow> u32 option" where
  "PADDR kva = (if kva < ULIM then None else Some (kva - ULIM))"

definition KADDR :: "nat \<Rightarrow> u32 \<Rightarrow> u32 option" where
  "KADDR npage pa = (if PPN pa \<ge> npage then None else Some (pa + ULIM))"

definition page2pa :: "nat \<Rightarrow> u32" where
  "page2pa pp = push_bit PGSHIFT (word_of_nat pp)"

definition pa2page :: "nat \<Rightarrow> u32 \<Rightarrow> nat option" where
  "pa2page npage pa = (if PPN pa \<ge> npage then None else Some (PPN pa))"

definition page2kva :: "nat \<Rightarrow> nat \<Rightarrow> u32 option" where
  "page2kva npage pp = KADDR npage (page2pa pp)"

text \<open>The test \<open>pte & PTE_V\<close>.\<close>

definition pte_valid :: "u32 \<Rightarrow> bool" where
  "pte_valid pte \<longleftrightarrow> pte AND PTE_V \<noteq> 0"

section \<open>Indices as quotients\<close>

lemma and_0x3FF: "(w :: u32) AND 0x3FF = take_bit 10 w"
  by (simp add: take_bit_eq_mask mask_eq_exp_minus_1)

lemma PPN_div: "PPN va = unat va div 4096"
  by (simp add: PPN_def unat_drop)

lemma VPN_div: "VPN va = unat va div 4096"
  by (simp add: VPN_def unat_drop)

lemma PTX_div: "PTX va = unat va div 4096 mod 1024"
  by (simp add: PTX_def and_0x3FF unat_take unat_drop)

lemma PDX_div: "PDX va = unat va div 4194304"
proof -
  have "unat va div 4194304 < 1024" using unat_u32 [of va] by simp
  then show ?thesis
    by (simp add: PDX_def and_0x3FF unat_take unat_drop)
qed

lemma PDX_less [simp]: "PDX va < 1024"
  using unat_u32 [of va] by (simp add: PDX_div)

lemma PTX_less [simp]: "PTX va < 1024"
  by (simp add: PTX_div)

lemma VPN_split: "VPN va = PDX va * 1024 + PTX va"
  by (simp add: VPN_div PDX_div PTX_div div_mult2_eq [of "unat va" 4096 1024, simplified])

lemma VPN_eq_iff: "VPN va = VPN va' \<longleftrightarrow> PDX va = PDX va' \<and> PTX va = PTX va'"
proof
  assume "VPN va = VPN va'"
  then have "(PDX va * 1024 + PTX va) div 1024 = (PDX va' * 1024 + PTX va') div 1024"
    and "(PDX va * 1024 + PTX va) mod 1024 = (PDX va' * 1024 + PTX va') mod 1024"
    by (simp_all only: VPN_split)
  then show "PDX va = PDX va' \<and> PTX va = PTX va'" by simp
qed (simp add: VPN_split)

lemma PDX_user: "va < UTOP \<longleftrightarrow> PDX va < PDX UTOP"
  by (simp add: PDX_div word_less_nat_alt mmu_defs)
    (simp add: less_mult_imp_div_less div_less_iff_less_mult)

section \<open>Physical pages and addresses\<close>

lemma unat_page2pa: "pp < 2 ^ 20 \<Longrightarrow> unat (page2pa pp) = pp * 4096"
  by (simp add: page2pa_def PGSHIFT_def push_bit_eq_mult unat_word_ariths unat_of_nat)

lemma PPN_page2pa [simp]: "pp < 2 ^ 20 \<Longrightarrow> PPN (page2pa pp) = pp"
  by (simp add: PPN_div unat_page2pa)

lemma pa2page_page2pa: "pp < npage \<Longrightarrow> npage \<le> 2 ^ 20 \<Longrightarrow> pa2page npage (page2pa pp) = Some pp"
  by (simp add: pa2page_def)

lemma mask_0xFFF: "(0xFFF :: u32) = mask 12"
  by (simp add: mask_eq_exp_minus_1)

lemma unat_PTE_ADDR: "unat (PTE_ADDR x) = unat x div 4096 * 4096"
proof -
  have "PTE_ADDR x = push_bit 12 (drop_bit 12 x)"
    unfolding PTE_ADDR_def mask_0xFFF by (intro bit_eqI) (auto simp: bit_simps)
  then show ?thesis
    using unat_u32 [of x] by (simp add: push_bit_eq_mult unat_word_ariths unat_drop)
qed

lemma PPN_PTE_ADDR [simp]: "PPN (PTE_ADDR x) = PPN x"
  by (simp add: PPN_div unat_PTE_ADDR)

lemma KADDR_PTE_ADDR [simp]:
  "KADDR n (PTE_ADDR x) = (if PPN x \<ge> n then None else Some (PTE_ADDR x + ULIM))"
  by (simp add: KADDR_def)

lemma PADDR_KADDR:
  "KADDR npage pa = Some kva \<Longrightarrow> npage \<le> 2 ^ 19 \<Longrightarrow> PADDR kva = Some pa"
proof -
  assume k: "KADDR npage pa = Some kva" and n: "npage \<le> 2 ^ 19"
  from k have kva: "kva = pa + ULIM" and p: "PPN pa < npage"
    by (auto simp: KADDR_def split: if_splits)
  from p n have "unat pa < 2 ^ 31"
    by (simp add: PPN_div)
  then have "unat kva = unat pa + 2 ^ 31"
    by (simp add: kva ULIM_def unat_word_ariths)
  then show ?thesis
    by (simp add: PADDR_def kva ULIM_def word_less_nat_alt)
qed

section \<open>Entries\<close>

lemma drop12_small: "x < 4096 \<Longrightarrow> drop_bit 12 (x :: u32) = 0"
  by (simp add: word_less_nat_alt unat_drop flip: unat_eq_0)

lemma PPN_pte [simp]:
  assumes "pp < 2 ^ 20" and "perm < 4096"
  shows "PPN (page2pa pp OR perm OR PTE_V) = pp"
proof -
  have "drop_bit 12 (page2pa pp) = word_of_nat pp"
    using assms(1) by (intro word_unat_eq_iff [THEN iffD2]) (simp add: unat_drop unat_page2pa unat_of_nat)
  with assms show ?thesis
    by (simp add: PPN_def drop12_small PTE_V_def unat_of_nat)
qed

lemma PPN_pde [simp]: "pp < 2 ^ 20 \<Longrightarrow> PPN (page2pa pp OR PTE_V OR PTE_D) = pp"
  using PPN_pte [of pp PTE_D] by (simp add: or.commute PTE_D_def)

lemma pte_valid_zero [simp]: "\<not> pte_valid 0"
  by (simp add: pte_valid_def)

lemma pte_valid_bit: "pte_valid x \<longleftrightarrow> bit x 9"
proof -
  have "PTE_V = push_bit 9 1" by (simp add: PTE_V_def)
  then show ?thesis
    by (metis and.commute bit_iff_and_push_bit_not_eq_0 pte_valid_def)
qed

lemma pte_valid_or_iff: "pte_valid (x OR y) \<longleftrightarrow> pte_valid x \<or> pte_valid y"
  by (simp add: pte_valid_bit bit_simps)

lemma pte_valid_or [simp]: "pte_valid (x OR PTE_V)"
  by (simp add: pte_valid_bit bit_simps) (simp add: PTE_V_def)

lemma pte_valid_pte [simp]: "pte_valid (x OR y OR PTE_V)"
  by (simp add: pte_valid_or_iff) (simp add: pte_valid_def PTE_V_def)

lemma pte_valid_or_D [simp]: "pte_valid (x OR PTE_V OR PTE_D)"
  by (simp add: pte_valid_bit bit_simps) (simp add: PTE_V_def)

end
