(* ===== verification/User_Space.thy ===== *)
theory User_Space
  imports Strings Mmu
begin

text \<open>
  The address spaces of several environments over shared physical memory, as the user library sees
  them: each environment has the page directory and the page table that it reads at \<open>UVPT\<close>, and two
  entries with the same frame are two views of the same memory. The memory system calls act on them
  as the kernel does; which frame the kernel hands out, or that it has none, is the argument
  \<open>palloc\<close>, asked for the \<open>n\<close>-th time. Code that reads an entry of \<open>vpt\<close> without looking at \<open>vpd\<close> reads what \<open>uptab\<close> holds
  there, also where the directory has no table: on the machine the refill of the TLB then allocates an empty page at \<open>UVPT\<close>,
  which reads as 0.
\<close>

section \<open>Definitions\<close>

record uworld =
  phys :: bmem
  updir :: "u32 \<Rightarrow> nat \<Rightarrow> u32"
  uptab :: "u32 \<Rightarrow> nat \<Rightarrow> u32"
  procs :: "u32 set"
  palloc :: "nat \<Rightarrow> u32 option"
  requests :: nat

definition is_mapped :: "u32 \<Rightarrow> u32 \<Rightarrow> 'a uworld_scheme \<Rightarrow> bool" where
  "is_mapped e va w \<longleftrightarrow> pte_valid (updir w e (PDX va)) \<and> pte_valid (uptab w e (VPN va))"

definition pa_of :: "u32 \<Rightarrow> u32 \<Rightarrow> 'a uworld_scheme \<Rightarrow> u32" where
  "pa_of e va w = PTE_ADDR (uptab w e (VPN va)) OR (va AND 0xFFF)"

text \<open>What an environment reads at an address, and plain stores to writable pages.\<close>

definition view :: "u32 \<Rightarrow> u32 \<Rightarrow> 'a uworld_scheme \<Rightarrow> u8 option" where
  "view e va w = (if is_mapped e va w then Some (phys w (pa_of e va w)) else None)"

definition put :: "u32 \<Rightarrow> u32 \<Rightarrow> u8 \<Rightarrow> 'a uworld_scheme \<Rightarrow> 'a uworld_scheme option" where
  "put e va b w = (
     if is_mapped e va w \<and> uptab w e (VPN va) AND PTE_D \<noteq> 0 then Some (w\<lparr>phys := (phys w)(pa_of e va w := b)\<rparr>)
     else None)"

definition illegal_va :: "u32 \<Rightarrow> bool" where
  "illegal_va va \<longleftrightarrow> va < UTEMP \<or> va \<ge> UTOP"

text \<open>A frame is asked for when an entry is made in a directory slot without a table.\<close>

definition need_table :: "u32 \<Rightarrow> u32 \<Rightarrow> 'a uworld_scheme \<Rightarrow> (err + unit) \<times> 'a uworld_scheme" where
  "need_table e va w = (
     if pte_valid (updir w e (PDX va)) then (Inr (), w)
     else case palloc w (requests w) of
       None \<Rightarrow> (Inl E_NO_MEM, w\<lparr>requests := requests w + 1\<rparr>)
     | Some t \<Rightarrow> (Inr (), w\<lparr>requests := requests w + 1,
         updir := (updir w)(e := (updir w e)(PDX va := PTE_ADDR t OR PTE_V OR PTE_D))\<rparr>))"

definition set_pte :: "u32 \<Rightarrow> u32 \<Rightarrow> u32 \<Rightarrow> 'a uworld_scheme \<Rightarrow> 'a uworld_scheme" where
  "set_pte e va pte w = w\<lparr>uptab := (uptab w)(e := (uptab w e)(VPN va := pte))\<rparr>"

definition u_mem_alloc :: "u32 \<Rightarrow> u32 \<Rightarrow> u32 \<Rightarrow> 'a uworld_scheme \<Rightarrow> (err + unit) \<times> 'a uworld_scheme" where
  "u_mem_alloc e va perm w = (
     if illegal_va va then (Inl E_INVAL, w)
     else if e \<notin> procs w then (Inl E_BAD_ENV, w)
     else case palloc w (requests w) of
       None \<Rightarrow> (Inl E_NO_MEM, w\<lparr>requests := requests w + 1\<rparr>)
     | Some fr \<Rightarrow>
         let w = w\<lparr>requests := requests w + 1, phys := (\<lambda>a. if PTE_ADDR a = PTE_ADDR fr then 0 else phys w a)\<rparr>
         in case need_table e va w of
              (Inl x, w) \<Rightarrow> (Inl x, w)
            | (Inr _, w) \<Rightarrow> (Inr (), set_pte e va (PTE_ADDR fr OR perm OR PTE_V) w))"

definition u_mem_map :: "u32 \<Rightarrow> u32 \<Rightarrow> u32 \<Rightarrow> u32 \<Rightarrow> u32 \<Rightarrow> 'a uworld_scheme \<Rightarrow> (err + unit) \<times> 'a uworld_scheme" where
  "u_mem_map e va e' va' perm w = (
     if illegal_va va \<or> illegal_va va' then (Inl E_INVAL, w)
     else if e \<notin> procs w \<or> e' \<notin> procs w then (Inl E_BAD_ENV, w)
     else if \<not> is_mapped e va w then (Inl E_INVAL, w)
     else case need_table e' va' w of
       (Inl x, w) \<Rightarrow> (Inl x, w)
     | (Inr _, w) \<Rightarrow> (Inr (), set_pte e' va' (PTE_ADDR (uptab w e (VPN va)) OR perm OR PTE_V) w))"

definition u_mem_unmap :: "u32 \<Rightarrow> u32 \<Rightarrow> 'a uworld_scheme \<Rightarrow> (err + unit) \<times> 'a uworld_scheme" where
  "u_mem_unmap e va w = (
     if illegal_va va then (Inl E_INVAL, w)
     else if e \<notin> procs w then (Inl E_BAD_ENV, w)
     else if is_mapped e va w then (Inr (), set_pte e va 0 w)
     else (Inr (), w))"

section \<open>Frames and pages\<close>

lemma PTE_ADDR_idem [simp]: "PTE_ADDR (PTE_ADDR a) = PTE_ADDR a"
  by (simp add: PTE_ADDR_def and.assoc)

lemma PTE_ADDR_or: "PTE_ADDR (x OR y) = PTE_ADDR x OR PTE_ADDR y"
  by (simp add: PTE_ADDR_def bit.conj_disj_distrib2)

lemma PTE_ADDR_small: "x < 4096 \<Longrightarrow> PTE_ADDR x = 0"
proof -
  assume "x < 4096"
  then have "unat x < 4096" by (simp add: word_less_nat_alt)
  then have "unat (PTE_ADDR x) = 0" by (simp add: unat_PTE_ADDR)
  then show ?thesis by (simp add: unat_eq_0)
qed

lemma PTE_ADDR_V [simp]: "PTE_ADDR PTE_V = 0" "PTE_ADDR PTE_D = 0" "PTE_ADDR PTE_COW = 0" "PTE_ADDR PTE_LIBRARY = 0"
  by (simp_all add: PTE_ADDR_def PTE_V_def PTE_D_def PTE_COW_def PTE_LIBRARY_def)

lemma PTE_ADDR_offset [simp]: "PTE_ADDR (va AND 0xFFF) = 0"
  by (simp add: PTE_ADDR_def and.assoc)

lemma PTE_ADDR_pte [simp]: "PTE_ADDR (PTE_ADDR fr OR perm OR PTE_V) = PTE_ADDR fr OR PTE_ADDR perm"
  by (simp add: PTE_ADDR_or)

lemma pa_split [simp]: "PTE_ADDR (PTE_ADDR fr OR (va AND 0xFFF)) = PTE_ADDR fr"
  by (simp add: PTE_ADDR_or)

lemma va_offset [simp]: "(PTE_ADDR fr OR (va AND 0xFFF)) AND 0xFFF = va AND 0xFFF"
  by (simp add: PTE_ADDR_def bit.conj_disj_distrib2 and.assoc)

text \<open>Within a page an address is determined by its offset.\<close>

lemma addr_eq_iff: "va = va' \<longleftrightarrow> VPN va = VPN va' \<and> va AND 0xFFF = va' AND (0xFFF :: u32)"
proof -
  have m: "(0xFFF :: u32) = mask 12" by (simp add: mask_eq_exp_minus_1)
  have "unat (x AND 0xFFF) = unat x mod 4096" for x :: u32
    unfolding m take_bit_eq_mask [symmetric] by (simp add: unat_take)
  then have "unat x = VPN x * 4096 + unat (x AND 0xFFF)" for x :: u32
    by (simp add: VPN_div)
  then show ?thesis by (metis word_unat_eq_iff)
qed

lemma pa_eq_iff: "PTE_ADDR fr OR (va AND 0xFFF) = PTE_ADDR fr' OR (va' AND 0xFFF)
    \<longleftrightarrow> PTE_ADDR fr = PTE_ADDR fr' \<and> va AND 0xFFF = va' AND (0xFFF :: u32)"
  by (metis pa_split va_offset)

section \<open>Memory calls\<close>

lemma need_table_ok:
  assumes "need_table e va w = (Inr (), w')"
  shows "pte_valid (updir w' e (PDX va))" and "uptab w' = uptab w" and "phys w' = phys w" and "procs w' = procs w"
    and "palloc w' = palloc w" and "\<And>e' i. pte_valid (updir w e' i) \<Longrightarrow> pte_valid (updir w' e' i)"
  using assms by (auto simp: need_table_def split: if_splits option.splits)

lemma need_table_present: "pte_valid (updir w e (PDX va)) \<Longrightarrow> need_table e va w = (Inr (), w)"
  by (simp add: need_table_def)

lemma need_table_total: "\<forall>n. palloc w n \<noteq> None \<Longrightarrow> \<exists>w'. need_table e va w = (Inr (), w')"
proof -
  assume "\<forall>n. palloc w n \<noteq> None"
  then obtain t where "palloc w (requests w) = Some t" by blast
  then show ?thesis by (simp add: need_table_def)
qed

lemma legal_UCOW [simp]: "\<not> illegal_va UCOW"
  by (simp add: illegal_va_def mmu_defs)

lemma u_mem_map_ok:
  assumes "\<not> illegal_va va" "\<not> illegal_va va'" "e \<in> procs w" "e' \<in> procs w" "is_mapped e va w" "\<forall>n. palloc w n \<noteq> None"
  obtains w' where "u_mem_map e va e' va' perm w = (Inr (), w')"
    and "uptab w' = (uptab w)(e' := (uptab w e')(VPN va' := PTE_ADDR (uptab w e (VPN va)) OR perm OR PTE_V))"
    and "pte_valid (updir w' e' (PDX va'))" and "phys w' = phys w" and "procs w' = procs w" and "palloc w' = palloc w"
    and "\<And>x i. pte_valid (updir w x i) \<Longrightarrow> pte_valid (updir w' x i)"
proof -
  from need_table_total [OF assms(6)] obtain w1 where w1: "need_table e' va' w = (Inr (), w1)" by blast
  note n = need_table_ok [OF w1]
  show thesis
    by (rule that [of "set_pte e' va' (PTE_ADDR (uptab w1 e (VPN va)) OR perm OR PTE_V) w1"])
      (use assms w1 n in \<open>simp_all add: u_mem_map_def set_pte_def\<close>)
qed

lemma PTE_ADDR_perm [simp]: "PTE_ADDR ((x AND 0xFFF) AND y) = 0"
  by (intro bit_eqI) (auto simp: PTE_ADDR_def bit_simps)

lemma low_flags [simp]:
  "(x AND 0xFFF) AND PTE_COW = x AND PTE_COW" "(x AND 0xFFF) AND PTE_D = x AND PTE_D"
  "(x AND 0xFFF) AND PTE_LIBRARY = x AND PTE_LIBRARY"
  by (simp_all add: and.assoc PTE_COW_def PTE_D_def PTE_LIBRARY_def)

lemma u_mem_alloc_ok:
  assumes "\<not> illegal_va va" "e \<in> procs w" "palloc w (requests w) = Some fr" "\<forall>n. palloc w n \<noteq> None"
  obtains w' where "u_mem_alloc e va perm w = (Inr (), w')"
    and "uptab w' = (uptab w)(e := (uptab w e)(VPN va := PTE_ADDR fr OR perm OR PTE_V))"
    and "pte_valid (updir w' e (PDX va))" and "phys w' = (\<lambda>a. if PTE_ADDR a = PTE_ADDR fr then 0 else phys w a)"
    and "procs w' = procs w" and "palloc w' = palloc w"
    and "\<And>x i. pte_valid (updir w x i) \<Longrightarrow> pte_valid (updir w' x i)"
proof -
  let ?w = "w\<lparr>requests := requests w + 1, phys := (\<lambda>a. if PTE_ADDR a = PTE_ADDR fr then 0 else phys w a)\<rparr>"
  have "\<forall>n. palloc ?w n \<noteq> None" using assms(4) by simp
  from need_table_total [OF this] obtain w1 where w1: "need_table e va ?w = (Inr (), w1)" by blast
  note n = need_table_ok [OF w1]
  show thesis
    by (rule that [of "set_pte e va (PTE_ADDR fr OR perm OR PTE_V) w1"])
      (use assms w1 n in \<open>simp_all add: u_mem_alloc_def set_pte_def\<close>)
qed

end
