(* ===== verification/Fd.thy ===== *)
theory Fd
  imports User_Space
begin

text \<open>
  File descriptors, \<open>user/lib/fd.c\<close>, and the creation of pipes, \<open>user/lib/pipe.c\<close>. Descriptor \<open>i\<close> is a
  page at \<open>INDEX2FD i\<close> that starts with a \<open>struct Fd\<close>, its data are mapped in the 4 MB from \<open>INDEX2DATA i\<close>;
  a descriptor is in use when its page is mapped. \<open>me\<close> is the running environment, and the devices
  of \<open>devtab\<close>, the tables of functions of \<open>struct Dev\<close>, are an argument. A function returns the \<open>int\<close> that the
  code returns, an error code as a negative number; \<open>None\<close> is an access to a page that is not mapped.

  The lemmas show which descriptor is allocated and that \<open>dup\<close> makes two descriptors share their pages.
\<close>

section \<open>Definitions\<close>

definition MAXFD :: int where "MAXFD = 32"
definition FILEBASE :: u32 where "FILEBASE = 0x60000000"
definition FDTABLE :: u32 where "FDTABLE = FILEBASE - PDMAP"

definition INDEX2FD :: "int \<Rightarrow> u32" where
  "INDEX2FD i = FDTABLE + word_of_int i * BY2PG"

definition INDEX2DATA :: "int \<Rightarrow> u32" where
  "INDEX2DATA i = FILEBASE + word_of_int i * PDMAP"

definition O_RDONLY :: u32 where "O_RDONLY = 0x0000"
definition O_WRONLY :: u32 where "O_WRONLY = 0x0001"
definition O_ACCMODE :: u32 where "O_ACCMODE = 0x0903"

lemmas fd_defs = MAXFD_def FILEBASE_def FDTABLE_def INDEX2FD_def INDEX2DATA_def

record dev =
  dev_id :: u32
  dev_read :: "u32 \<Rightarrow> u32 \<Rightarrow> u32 \<Rightarrow> u32 \<Rightarrow> uworld \<Rightarrow> (int \<times> uworld) option"
  dev_write :: "u32 \<Rightarrow> u32 \<Rightarrow> u32 \<Rightarrow> u32 \<Rightarrow> uworld \<Rightarrow> (int \<times> uworld) option"
  dev_close :: "u32 \<Rightarrow> uworld \<Rightarrow> (int \<times> uworld) option"
  dev_stat :: "u32 \<Rightarrow> u32 \<Rightarrow> uworld \<Rightarrow> (int \<times> uworld) option"

text \<open>Words in the memory of the running environment.\<close>

definition get32 :: "u32 \<Rightarrow> u32 \<Rightarrow> uworld \<Rightarrow> u32 option" where
  "get32 e va w = (if is_mapped e va w \<and> va AND 3 = 0 then Some (load_word (phys w) (pa_of e va w)) else None)"

definition put32 :: "u32 \<Rightarrow> u32 \<Rightarrow> u32 \<Rightarrow> uworld \<Rightarrow> uworld option" where
  "put32 e va x w = (
     if is_mapped e va w \<and> uptab w e (VPN va) AND PTE_D \<noteq> 0 \<and> va AND 3 = 0
     then Some (w\<lparr>phys := store_word (pa_of e va w) x (phys w)\<rparr>) else None)"

definition eret :: "err \<Rightarrow> int" where
  "eret e = - uint (errno e)"

definition dev_lookup :: "dev list \<Rightarrow> u32 \<Rightarrow> err + dev" where
  "dev_lookup devtab i = (case find (\<lambda>d. dev_id d = i) devtab of None \<Rightarrow> Inl E_INVAL | Some d \<Rightarrow> Inr d)"

primrec fd_scan :: "u32 \<Rightarrow> int list \<Rightarrow> uworld \<Rightarrow> err + u32" where
  "fd_scan me [] w = Inl E_MAX_OPEN"
| "fd_scan me (i # is) w = (
     let va = INDEX2FD i
     in if \<not> pte_valid (updir w me (unat (va div PDMAP))) then Inr va
        else if \<not> pte_valid (uptab w me (unat (va div BY2PG))) then Inr va
        else fd_scan me is w)"

definition fd_alloc :: "u32 \<Rightarrow> uworld \<Rightarrow> err + u32" where
  "fd_alloc me w = fd_scan me [0..MAXFD - 2] w"

definition fd_close :: "u32 \<Rightarrow> u32 \<Rightarrow> uworld \<Rightarrow> uworld" where
  "fd_close me fd w = snd (u_mem_unmap me fd w)"

definition fd_lookup :: "u32 \<Rightarrow> int \<Rightarrow> uworld \<Rightarrow> err + u32" where
  "fd_lookup me fdnum w = (
     if fdnum \<ge> MAXFD then Inl E_INVAL
     else
       let va = INDEX2FD fdnum
       in if pte_valid (uptab w me (unat (va div BY2PG))) then Inr va else Inl E_INVAL)"

definition fd2num :: "u32 \<Rightarrow> int" where
  "fd2num fd = uint ((fd - FDTABLE) div BY2PG)"

definition fd2data :: "u32 \<Rightarrow> u32" where
  "fd2data fd = INDEX2DATA (fd2num fd)"

definition num2fd :: "int \<Rightarrow> u32" where
  "num2fd fd = word_of_int fd * BY2PG + FDTABLE"

text \<open>\<open>fd_lookup\<close> followed by \<open>dev_lookup\<close>, as in every operation on an open descriptor.\<close>

definition fd_dev :: "dev list \<Rightarrow> u32 \<Rightarrow> int \<Rightarrow> uworld \<Rightarrow> (err + u32 \<times> dev) option" where
  "fd_dev devtab me fdnum w = (
     case fd_lookup me fdnum w of
       Inl e \<Rightarrow> Some (Inl e)
     | Inr fd \<Rightarrow> do {
         i \<leftarrow> get32 me fd w;
         Some (case dev_lookup devtab i of Inl e \<Rightarrow> Inl e | Inr d \<Rightarrow> Inr (fd, d))
       })"

definition close :: "dev list \<Rightarrow> u32 \<Rightarrow> int \<Rightarrow> uworld \<Rightarrow> (int \<times> uworld) option" where
  "close devtab me fdnum w = do {
     r \<leftarrow> fd_dev devtab me fdnum w;
     (case r of
        Inl e \<Rightarrow> Some (eret e, w)
      | Inr (fd, d) \<Rightarrow> do {
          (r, w) \<leftarrow> dev_close d fd w;
          Some (r, fd_close me fd w)
        })
   }"

definition close_all :: "dev list \<Rightarrow> u32 \<Rightarrow> uworld \<Rightarrow> uworld option" where
  "close_all devtab me = ofold (\<lambda>i w. map_option snd (close devtab me i w)) [0..MAXFD - 1]"

text \<open>The loop of \<open>dup\<close> over the offsets of the data pages.\<close>

primrec dup_pages :: "u32 \<Rightarrow> u32 \<Rightarrow> u32 \<Rightarrow> nat list \<Rightarrow> uworld \<Rightarrow> (err + unit) \<times> uworld" where
  "dup_pages me ova nva [] w = (Inr (), w)"
| "dup_pages me ova nva (k # ks) w = (
     let i = word_of_nat k * BY2PG;
         pte = uptab w me (VPN (ova + i))
     in if pte_valid pte then
          (case u_mem_map me (ova + i) me (nva + i) (pte AND (PTE_D OR PTE_LIBRARY)) w of
             (Inl e, w) \<Rightarrow> (Inl e, w)
           | (Inr _, w) \<Rightarrow> dup_pages me ova nva ks w)
        else dup_pages me ova nva ks w)"

definition dup_undo :: "u32 \<Rightarrow> u32 \<Rightarrow> u32 \<Rightarrow> uworld \<Rightarrow> uworld" where
  "dup_undo me newfd nva w =
     fold (\<lambda>k w. snd (u_mem_unmap me (nva + word_of_nat k * BY2PG) w)) [0..<1024] (snd (u_mem_unmap me newfd w))"

definition dup :: "dev list \<Rightarrow> u32 \<Rightarrow> int \<Rightarrow> int \<Rightarrow> uworld \<Rightarrow> (int \<times> uworld) option" where
  "dup devtab me oldfdnum newfdnum w = (
     case fd_lookup me oldfdnum w of
       Inl e \<Rightarrow> Some (eret e, w)
     | Inr oldfd \<Rightarrow> do {
         (_, w) \<leftarrow> close devtab me newfdnum w;
         let newfd = INDEX2FD newfdnum;
         let ova = fd2data oldfd;
         let nva = fd2data newfd;
         let (r, w) = (if updir w me (PDX ova) \<noteq> 0 then dup_pages me ova nva [0..<1024] w else (Inr (), w));
         (case r of
            Inl e \<Rightarrow> Some (eret e, dup_undo me newfd nva w)
          | Inr _ \<Rightarrow>
              Some (case u_mem_map me oldfd me newfd (uptab w me (VPN oldfd) AND (PTE_D OR PTE_LIBRARY)) w of
                 (Inl e, w) \<Rightarrow> (eret e, dup_undo me newfd nva w)
               | (Inr _, w) \<Rightarrow> (newfdnum, w)))
       })"

text \<open>The offsets of the fields of \<open>struct Fd\<close>.\<close>

definition fd_offset_of :: "u32 \<Rightarrow> u32" where "fd_offset_of fd = fd + 4"
definition fd_omode_of :: "u32 \<Rightarrow> u32" where "fd_omode_of fd = fd + 8"

definition advance :: "u32 \<Rightarrow> u32 \<Rightarrow> int \<Rightarrow> uworld \<Rightarrow> uworld option" where
  "advance me fd r w = (
     if r > 0 then do { off \<leftarrow> get32 me (fd_offset_of fd) w; put32 me (fd_offset_of fd) (off + word_of_int r) w } else Some w)"

definition read :: "dev list \<Rightarrow> u32 \<Rightarrow> int \<Rightarrow> u32 \<Rightarrow> u32 \<Rightarrow> uworld \<Rightarrow> (int \<times> uworld) option" where
  "read devtab me fdnum buf n w = do {
     r \<leftarrow> fd_dev devtab me fdnum w;
     (case r of
        Inl e \<Rightarrow> Some (eret e, w)
      | Inr (fd, d) \<Rightarrow> do {
          mode \<leftarrow> get32 me (fd_omode_of fd) w;
          if mode AND O_ACCMODE = O_WRONLY then Some (eret E_INVAL, w)
          else do {
            off \<leftarrow> get32 me (fd_offset_of fd) w;
            (r, w) \<leftarrow> dev_read d fd buf n off w;
            w \<leftarrow> advance me fd r w;
            Some (r, w)
          }
        })
   }"

text \<open>\<open>tot\<close> is compared with \<open>n\<close> as an unsigned number.\<close>

partial_function (option) readn_loop :: "dev list \<Rightarrow> u32 \<Rightarrow> int \<Rightarrow> u32 \<Rightarrow> u32 \<Rightarrow> u32 \<Rightarrow> uworld \<Rightarrow> (int \<times> uworld) option" where
  "readn_loop devtab me fdnum buf n tot w = (
     if tot < n then do {
       (m, w) \<leftarrow> read devtab me fdnum (buf + tot) (n - tot) w;
       if m < 0 then Some (m, w)
       else if m = 0 then Some (sint tot, w)
       else readn_loop devtab me fdnum buf n (tot + word_of_int m) w
     }
     else Some (sint tot, w))"

definition readn :: "dev list \<Rightarrow> u32 \<Rightarrow> int \<Rightarrow> u32 \<Rightarrow> u32 \<Rightarrow> uworld \<Rightarrow> (int \<times> uworld) option" where
  "readn devtab me fdnum buf n w = readn_loop devtab me fdnum buf n 0 w"

definition write_fd :: "dev list \<Rightarrow> u32 \<Rightarrow> int \<Rightarrow> u32 \<Rightarrow> u32 \<Rightarrow> uworld \<Rightarrow> (int \<times> uworld) option" where
  "write_fd devtab me fdnum buf n w = do {
     r \<leftarrow> fd_dev devtab me fdnum w;
     (case r of
        Inl e \<Rightarrow> Some (eret e, w)
      | Inr (fd, d) \<Rightarrow> do {
          mode \<leftarrow> get32 me (fd_omode_of fd) w;
          if mode AND O_ACCMODE = O_RDONLY then Some (eret E_INVAL, w)
          else do {
            off \<leftarrow> get32 me (fd_offset_of fd) w;
            (r, w) \<leftarrow> dev_write d fd buf n off w;
            w \<leftarrow> advance me fd r w;
            Some (r, w)
          }
        })
   }"

definition seek :: "u32 \<Rightarrow> int \<Rightarrow> u32 \<Rightarrow> uworld \<Rightarrow> (int \<times> uworld) option" where
  "seek me fdnum offset w = (
     case fd_lookup me fdnum w of
       Inl e \<Rightarrow> Some (eret e, w)
     | Inr fd \<Rightarrow> do { w \<leftarrow> put32 me (fd_offset_of fd) offset w; Some (0, w) })"

text \<open>\<open>stat\<close> is the address of a \<open>struct Stat\<close>, \<open>dev_ptr\<close> the address of each device's table.\<close>

definition fstat :: "dev list \<Rightarrow> (u32 \<Rightarrow> u32) \<Rightarrow> u32 \<Rightarrow> int \<Rightarrow> u32 \<Rightarrow> uworld \<Rightarrow> (int \<times> uworld) option" where
  "fstat devtab dev_ptr me fdnum stat w = do {
     r \<leftarrow> fd_dev devtab me fdnum w;
     (case r of
        Inl e \<Rightarrow> Some (eret e, w)
      | Inr (fd, d) \<Rightarrow> do {
          w \<leftarrow> put me stat 0 w;
          w \<leftarrow> put32 me (stat + 128) 0 w;
          w \<leftarrow> put32 me (stat + 132) 0 w;
          w \<leftarrow> put32 me (stat + 136) (dev_ptr (dev_id d)) w;
          dev_stat d fd stat w
        })
   }"

section \<open>Pipes\<close>

definition DEVPIPE_ID :: u32 where "DEVPIPE_ID = 112"

definition fd_page :: "u32 \<Rightarrow> uworld \<Rightarrow> (err + u32) \<times> uworld" where
  "fd_page me w = (
     case fd_alloc me w of
       Inl e \<Rightarrow> (Inl e, w)
     | Inr fd \<Rightarrow>
         (case u_mem_alloc me fd (PTE_D OR PTE_LIBRARY) w of
            (Inl e, w) \<Rightarrow> (Inl e, w)
          | (Inr _, w) \<Rightarrow> (Inr fd, w)))"

definition unmap_all :: "u32 \<Rightarrow> u32 list \<Rightarrow> uworld \<Rightarrow> uworld" where
  "unmap_all me vas w = fold (\<lambda>va w. snd (u_mem_unmap me va w)) vas w"

definition pipe :: "u32 \<Rightarrow> uworld \<Rightarrow> ((err + int \<times> int) \<times> uworld) option" where
  "pipe me w = (
     case fd_page me w of
       (Inl e, w) \<Rightarrow> Some (Inl e, w)
     | (Inr fd0, w) \<Rightarrow>
     (case fd_page me w of
       (Inl e, w) \<Rightarrow> Some (Inl e, unmap_all me [fd0] w)
     | (Inr fd1, w) \<Rightarrow>
         let va = fd2data fd0
         in (case u_mem_alloc me va (PTE_D OR PTE_LIBRARY) w of
              (Inl e, w) \<Rightarrow> Some (Inl e, unmap_all me [fd1, fd0] w)
            | (Inr _, w) \<Rightarrow>
            (case u_mem_map me va me (fd2data fd1) (PTE_D OR PTE_LIBRARY) w of
              (Inl e, w) \<Rightarrow> Some (Inl e, unmap_all me [va, fd1, fd0] w)
            | (Inr _, w) \<Rightarrow> do {
                w \<leftarrow> put32 me fd0 DEVPIPE_ID w;
                w \<leftarrow> put32 me (fd_omode_of fd0) O_RDONLY w;
                w \<leftarrow> put32 me fd1 DEVPIPE_ID w;
                w \<leftarrow> put32 me (fd_omode_of fd1) O_WRONLY w;
                Some (Inr (fd2num fd0, fd2num fd1), w)
              }))))"

definition pipe_close :: "u32 \<Rightarrow> u32 \<Rightarrow> uworld \<Rightarrow> (int \<times> uworld) option" where
  "pipe_close me fd w = Some (0, unmap_all me [fd, fd2data fd] w)"

definition pipe_stat :: "u32 \<Rightarrow> u32 \<Rightarrow> uworld \<Rightarrow> (int \<times> uworld) option" where
  "pipe_stat fd stat w = Some (0, w)"

section \<open>Consoles\<close>

definition DEVCONS_ID :: u32 where "DEVCONS_ID = 99"
definition O_RDWR :: u32 where "O_RDWR = 0x0002"

definition iscons :: "u32 \<Rightarrow> int \<Rightarrow> uworld \<Rightarrow> int option" where
  "iscons me fdnum w = (
     case fd_lookup me fdnum w of
       Inl e \<Rightarrow> Some (eret e)
     | Inr fd \<Rightarrow> do { i \<leftarrow> get32 me fd w; Some (if i = DEVCONS_ID then 1 else 0) })"

definition opencons :: "u32 \<Rightarrow> uworld \<Rightarrow> (int \<times> uworld) option" where
  "opencons me w = (
     case fd_page me w of
       (Inl e, w) \<Rightarrow> Some (eret e, w)
     | (Inr fd, w) \<Rightarrow> do {
         w \<leftarrow> put32 me fd DEVCONS_ID w;
         w \<leftarrow> put32 me (fd_omode_of fd) O_RDWR w;
         Some (fd2num fd, w)
       })"

text \<open>
  \<open>cgetc k\<close> is the answer to the \<open>k\<close>-th \<open>syscall_cgetc\<close>; waiting for a character forever is \<open>None\<close>.
  The echo of the character is not kept.
\<close>

partial_function (option) cons_wait :: "(nat \<Rightarrow> int) \<Rightarrow> nat \<Rightarrow> int option" where
  "cons_wait cgetc k = (if cgetc k = 0 then cons_wait cgetc (k + 1) else Some (cgetc k))"

definition cons_read :: "(nat \<Rightarrow> int) \<Rightarrow> u32 \<Rightarrow> u32 \<Rightarrow> u32 \<Rightarrow> u32 \<Rightarrow> u32 \<Rightarrow> uworld \<Rightarrow> (int \<times> uworld) option" where
  "cons_read cgetc me fd vbuf n offset w = (
     if n = 0 then Some (0, w)
     else do {
       c \<leftarrow> cons_wait cgetc 0;
       if c < 0 then Some (c, w)
       else if c = 4 then Some (0, w)
       else do { w \<leftarrow> put me vbuf (word_of_int c) w; Some (1, w) }
     })"

text \<open>\<open>print_cons\<close> is the answer of \<open>syscall_print_cons\<close>.\<close>

definition cons_write :: "(u32 \<Rightarrow> u32 \<Rightarrow> int) \<Rightarrow> u32 \<Rightarrow> u32 \<Rightarrow> u32 \<Rightarrow> u32 \<Rightarrow> uworld \<Rightarrow> (int \<times> uworld) option" where
  "cons_write print_cons fd buf n offset w = (
     let r = print_cons buf n in Some (if r < 0 then r else sint n, w))"

definition cons_close :: "u32 \<Rightarrow> uworld \<Rightarrow> (int \<times> uworld) option" where
  "cons_close fd w = Some (0, w)"

text \<open>The bytes of \<open>"<cons>"\<close> and the terminator are stored at \<open>st_name\<close>.\<close>

primrec put_bytes :: "u32 \<Rightarrow> u32 \<Rightarrow> u8 list \<Rightarrow> uworld \<Rightarrow> uworld option" where
  "put_bytes e va [] w = Some w"
| "put_bytes e va (b # bs) w = do { w \<leftarrow> put e va b w; put_bytes e (va + 1) bs w }"

definition cons_stat :: "u32 \<Rightarrow> u32 \<Rightarrow> u32 \<Rightarrow> uworld \<Rightarrow> (int \<times> uworld) option" where
  "cons_stat me fd stat w = do { w \<leftarrow> put_bytes me stat [60, 99, 111, 110, 115, 62, 0] w; Some (0, w) }"

section \<open>Addresses of descriptors\<close>

lemma unat_INDEX2FD: "n < 32 \<Longrightarrow> unat (INDEX2FD (int n)) = 0x5FC00000 + n * 4096"
  by (simp add: fd_defs PDMAP_def BY2PG_def unat_word_ariths unat_of_nat)

lemma unat_INDEX2DATA: "n < 32 \<Longrightarrow> unat (INDEX2DATA (int n)) = 0x60000000 + n * 4194304"
  by (simp add: fd_defs PDMAP_def unat_word_ariths unat_of_nat)

lemma fd_num_cases: "0 \<le> i \<Longrightarrow> i < 32 \<Longrightarrow> (\<And>n. n < 32 \<Longrightarrow> i = int n \<Longrightarrow> P) \<Longrightarrow> P"
  by (metis nat_less_iff zero_le_imp_eq_int of_nat_less_iff of_nat_numeral)

lemma va_div: "unat (va div PDMAP) = PDX va" "unat (va div BY2PG) = VPN va"
  by (simp_all add: PDX_div VPN_div PDMAP_def BY2PG_def unat_div)

lemma fd2num_INDEX2FD: "n < 32 \<Longrightarrow> fd2num (INDEX2FD (int n)) = int n"
proof -
  assume n: "n < 32"
  have "INDEX2FD (int n) - FDTABLE = word_of_nat (n * 4096)" by (simp add: INDEX2FD_def BY2PG_def)
  moreover have "unat (word_of_nat (n * 4096) :: u32) = n * 4096" using n by (simp only: unat_of_nat) simp
  ultimately have "unat ((INDEX2FD (int n) - FDTABLE) div BY2PG) = n" by (simp add: unat_div BY2PG_def)
  then show ?thesis by (simp add: fd2num_def uint_nat)
qed

lemma legal_fd: "n < 32 \<Longrightarrow> \<not> illegal_va (INDEX2FD (int n))"
  using unat_INDEX2FD [of n] by (simp add: illegal_va_def word_less_nat_alt word_le_nat_alt mmu_defs)

lemma fd_scan_find:
  "fd_scan me is w = (case find (\<lambda>i. \<not> is_mapped me (INDEX2FD i) w) is of None \<Rightarrow> Inl E_MAX_OPEN | Some i \<Rightarrow> Inr (INDEX2FD i))"
  by (induction "is") (simp_all add: Let_def va_div is_mapped_def)

text \<open>
  Lemma (fd_alloc_correct). \<open>fd_alloc\<close> gives the first of the descriptors 0 to 30 whose page is not mapped, and
  fails with \<open>E_MAX_OPEN\<close> exactly when all of these are mapped. Descriptor 31 is never given out.
\<close>

theorem fd_alloc_correct:
  "(\<forall>va. fd_alloc me w = Inr va \<longleftrightarrow> (\<exists>i. 0 \<le> i \<and> i < 31 \<and> va = INDEX2FD i \<and> \<not> is_mapped me (INDEX2FD i) w
      \<and> (\<forall>j. 0 \<le> j \<and> j < i \<longrightarrow> is_mapped me (INDEX2FD j) w)))
   \<and> (fd_alloc me w = Inl E_MAX_OPEN \<longleftrightarrow> (\<forall>i. 0 \<le> i \<and> i < 31 \<longrightarrow> is_mapped me (INDEX2FD i) w))"
proof -
  let ?P = "\<lambda>i. \<not> is_mapped me (INDEX2FD i) w"
  have r: "fd_alloc me w = (case find ?P [0..30] of None \<Rightarrow> Inl E_MAX_OPEN | Some i \<Rightarrow> Inr (INDEX2FD i))"
    by (simp add: fd_alloc_def fd_scan_find MAXFD_def)
  show ?thesis
  proof (cases "find ?P [0..30]")
    case None
    then have "\<forall>i. 0 \<le> i \<and> i < 31 \<longrightarrow> is_mapped me (INDEX2FD i) w" by (auto simp: find_None_iff)
    then show ?thesis using None r by auto
  next
    case (Some i)
    then obtain k where k: "k < length [0..30 :: int]" "?P ([0..30] ! k)" "i = [0..30] ! k" "\<And>j. j < k \<Longrightarrow> \<not> ?P ([0..30] ! j)"
      by (auto simp: find_Some_iff)
    then have i: "i = int k" "k < 31" by (auto simp: nth_upto)
    have below: "is_mapped me (INDEX2FD j) w" if "0 \<le> j" "j < i" for j
      using k(4) [of "nat j"] that i by (simp add: nth_upto)
    have un: "\<not> is_mapped me (INDEX2FD i) w" "0 \<le> i" "i < 31" using k i by simp_all
    have "i' = i" if "0 \<le> i'" "\<not> is_mapped me (INDEX2FD i') w" "\<forall>j. 0 \<le> j \<and> j < i' \<longrightarrow> is_mapped me (INDEX2FD j) w" for i'
      using that below un by (metis linorder_neqE_linordered_idom)
    note uniq = this
    have eq: "fd_alloc me w = Inr (INDEX2FD i)" using r Some by simp
    show ?thesis
      unfolding eq
    proof (intro conjI allI iffI)
      fix va assume "Inr (INDEX2FD i) = (Inr va :: err + u32)"
      then have "va = INDEX2FD i" by simp
      then show "\<exists>i. 0 \<le> i \<and> i < 31 \<and> va = INDEX2FD i \<and> \<not> is_mapped me (INDEX2FD i) w
          \<and> (\<forall>j. 0 \<le> j \<and> j < i \<longrightarrow> is_mapped me (INDEX2FD j) w)"
        using un below by blast
    next
      fix va assume "\<exists>i. 0 \<le> i \<and> i < 31 \<and> va = INDEX2FD i \<and> \<not> is_mapped me (INDEX2FD i) w
          \<and> (\<forall>j. 0 \<le> j \<and> j < i \<longrightarrow> is_mapped me (INDEX2FD j) w)"
      then show "Inr (INDEX2FD i) = (Inr va :: err + u32)" using uniq by blast
    next
      assume "\<forall>i. 0 \<le> i \<and> i < 31 \<longrightarrow> is_mapped me (INDEX2FD i) w"
      then show "Inr (INDEX2FD i) = (Inl E_MAX_OPEN :: err + u32)" using un by blast
    qed simp
  qed
qed

definition desk :: uworld where
  "desk = \<lparr>phys = (\<lambda>_. 0), updir = (\<lambda>_ i. if i = 383 then PTE_V else 0),
     uptab = (\<lambda>_ v. if v = 0x5FC00 then 0x7000 OR PTE_V OR PTE_D else 0),
     procs = {1}, palloc = (\<lambda>n. Some (0x100000 + 4096 * word_of_nat n)), requests = 0\<rparr>"

theorem fd_alloc_correct_witness:
  "fd_alloc 1 desk = Inr (INDEX2FD 1) \<and> fd_alloc 1 (desk\<lparr>updir := \<lambda>_ _. PTE_V, uptab := \<lambda>_ _. PTE_V\<rparr>) = Inl E_MAX_OPEN"
proof
  have m: "is_mapped 1 (INDEX2FD 0) desk" "\<not> is_mapped 1 (INDEX2FD 1) desk"
    by (simp_all add: is_mapped_def desk_def VPN_div PDX_div fd_defs mmu_defs pte_valid_def)
  have "\<forall>j. 0 \<le> j \<and> j < (1 :: int) \<longrightarrow> is_mapped 1 (INDEX2FD j) desk"
    using m(1) by (metis int_one_le_iff_zero_less linorder_not_less order_antisym)
  then show "fd_alloc 1 desk = Inr (INDEX2FD 1)"
    by (intro iffD2 [OF fd_alloc_correct [of 1 desk, THEN conjunct1, THEN spec]] exI [of _ 1] conjI)
      (use m in simp_all)
next
  show "fd_alloc 1 (desk\<lparr>updir := \<lambda>_ _. PTE_V, uptab := \<lambda>_ _. PTE_V\<rparr>) = Inl E_MAX_OPEN"
    using fd_alloc_correct [of 1 "desk\<lparr>updir := \<lambda>_ _. PTE_V, uptab := \<lambda>_ _. PTE_V\<rparr>"]
    by (simp add: is_mapped_def pte_valid_def PTE_V_def)
qed

section \<open>Duplication\<close>

lemma page_arith:
  assumes "n < 32" "k < 1024"
  shows "VPN (INDEX2DATA (int n) + word_of_nat k * BY2PG) = 0x60000 + n * 1024 + k"
    and "PDX (INDEX2DATA (int n) + word_of_nat k * BY2PG) = 0x180 + n"
    and "\<not> illegal_va (INDEX2DATA (int n) + word_of_nat k * BY2PG)"
proof -
  have u: "unat (INDEX2DATA (int n) + word_of_nat k * BY2PG) = 0x60000000 + n * 4194304 + k * 4096"
    using unat_INDEX2DATA [OF assms(1)] assms by (simp add: unat_word_ariths BY2PG_def unat_of_nat)
  then show "VPN (INDEX2DATA (int n) + word_of_nat k * BY2PG) = 0x60000 + n * 1024 + k"
    by (simp add: VPN_div)
  show "PDX (INDEX2DATA (int n) + word_of_nat k * BY2PG) = 0x180 + n"
    using u assms by (simp add: PDX_div)
  show "\<not> illegal_va (INDEX2DATA (int n) + word_of_nat k * BY2PG)"
    using u assms by (simp add: illegal_va_def word_less_nat_alt word_le_nat_alt mmu_defs)
qed

text \<open>What the loop of \<open>dup\<close> has done after the data pages \<open>ks\<close>: an entry of the new descriptor's data is that of the old one with its permissions.\<close>

definition dup_entry :: "u32 \<Rightarrow> u32" where
  "dup_entry pte = PTE_ADDR pte OR (pte AND (PTE_D OR PTE_LIBRARY)) OR PTE_V"

definition duped :: "u32 \<Rightarrow> nat \<Rightarrow> nat \<Rightarrow> nat set \<Rightarrow> uworld \<Rightarrow> uworld \<Rightarrow> bool" where
  "duped me a b K w u \<longleftrightarrow>
     (\<forall>e v. uptab u e v = (if e = me \<and> (\<exists>k\<in>K. v = b + k \<and> pte_valid (uptab w me (a + k))) then dup_entry (uptab w me (a + (v - b))) else uptab w e v))
     \<and> phys u = phys w \<and> procs u = procs w \<and> palloc u = palloc w
     \<and> (\<forall>e i. pte_valid (updir w e i) \<longrightarrow> pte_valid (updir u e i))
     \<and> ((\<exists>k\<in>K. pte_valid (uptab w me (a + k))) \<longrightarrow> pte_valid (updir u me (b div 1024)))"

lemma dup_pages_append:
  "dup_pages me ova nva (xs @ ys) w = (case dup_pages me ova nva xs w of (Inl e, u) \<Rightarrow> (Inl e, u) | (Inr _, u) \<Rightarrow> dup_pages me ova nva ys u)"
  by (induction xs arbitrary: w) (auto simp: Let_def split: prod.splits sum.splits)

lemma dup_entry_facts [simp]:
  "pte_valid (dup_entry pte)" "PTE_ADDR (dup_entry pte) = PTE_ADDR pte"
proof -
  show "pte_valid (dup_entry pte)" by (simp add: dup_entry_def)
  have "PTE_ADDR (pte AND (PTE_D OR PTE_LIBRARY)) = 0" by (simp add: PTE_ADDR_def PTE_D_def PTE_LIBRARY_def and.assoc)
  then show "PTE_ADDR (dup_entry pte) = PTE_ADDR pte" by (simp add: dup_entry_def)
qed

lemma data_pages_disjoint:
  assumes "(k :: nat) < 1024" "j < 1024" "n \<noteq> m"
  shows "0x60000 + n * 1024 + k \<noteq> 0x60000 + m * 1024 + j"
proof
  assume "0x60000 + n * 1024 + k = 0x60000 + m * 1024 + j"
  then have "(n * 1024 + k) div 1024 = (m * 1024 + j) div 1024" by simp
  with assms show False by simp
qed

lemma dup_pages_spec:
  assumes n: "n < 32" "m < 32" "n \<noteq> m" and me: "me \<in> procs w" and mem: "\<forall>n. palloc w n \<noteq> None"
    and dir: "pte_valid (updir w me (0x180 + n))"
  shows "k \<le> 1024 \<Longrightarrow> \<exists>u. dup_pages me (INDEX2DATA (int n)) (INDEX2DATA (int m)) [0..<k] w = (Inr (), u)
    \<and> duped me (0x60000 + n * 1024) (0x60000 + m * 1024) {..<k} w u"
proof (induction k)
  case 0
  then show ?case by (simp add: duped_def)
next
  case (Suc k)
  define a where "a = 0x60000 + n * 1024"
  define b where "b = 0x60000 + m * 1024"
  let ?ova = "INDEX2DATA (int n) + word_of_nat k * BY2PG" and ?nva = "INDEX2DATA (int m) + word_of_nat k * BY2PG"
  from Suc obtain u where u: "dup_pages me (INDEX2DATA (int n)) (INDEX2DATA (int m)) [0..<k] w = (Inr (), u)" "duped me a b {..<k} w u"
    by (auto simp: a_def b_def)
  have k: "k < 1024" using Suc.prems by simp
  note pa = page_arith [OF n(1) k, folded a_def] and pb = page_arith [OF n(2) k, folded b_def]
  have ne: "a + k \<noteq> b + j" if "j < 1024" for j unfolding a_def b_def by (rule data_pages_disjoint [OF k that n(3)])
  have fr: "phys u = phys w" "procs u = procs w" "palloc u = palloc w" "pte_valid (updir u me (0x180 + n))"
    using u(2) dir by (auto simp: duped_def)
  have step: "dup_pages me (INDEX2DATA (int n)) (INDEX2DATA (int m)) [0..<Suc k] w = dup_pages me (INDEX2DATA (int n)) (INDEX2DATA (int m)) [k] u"
    using u(1) by (simp add: dup_pages_append)
  have tab: "uptab u e v = (if e = me \<and> (\<exists>j\<in>{..<k}. v = b + j \<and> pte_valid (uptab w me (a + j))) then dup_entry (uptab w me (a + (v - b))) else uptab w e v)" for e v
    using u(2) unfolding duped_def by (elim conjE) blast
  have "\<not> (\<exists>j\<in>{..<k}. a + k = b + j \<and> pte_valid (uptab w me (a + j)))"
    using ne k by (meson lessThan_iff order.strict_trans)
  then have src: "uptab u me (a + k) = uptab w me (a + k)" by (simp only: tab if_False simp_thms)
  show ?case
  proof (cases "pte_valid (uptab w me (a + k))")
    case False
    then have "duped me a b {..<Suc k} w u"
      using u(2) unfolding duped_def lessThan_Suc by (metis insert_iff)
    moreover have "dup_pages me (INDEX2DATA (int n)) (INDEX2DATA (int m)) [0..<Suc k] w = (Inr (), u)"
      using False src pa step by (simp add: Let_def)
    ultimately show ?thesis unfolding a_def b_def by blast
  next
    case True
    have m: "is_mapped me ?ova u" using True src fr(4) pa by (simp add: is_mapped_def)
    have e: "me \<in> procs u" "\<forall>n. palloc u n \<noteq> None" using me mem fr by simp_all
    obtain x where x: "u_mem_map me ?ova me ?nva (uptab w me (a + k) AND (PTE_D OR PTE_LIBRARY)) u = (Inr (), x)"
      "uptab x = (uptab u)(me := (uptab u me)(VPN ?nva := PTE_ADDR (uptab u me (VPN ?ova)) OR uptab w me (a + k) AND (PTE_D OR PTE_LIBRARY) OR PTE_V))"
      "pte_valid (updir x me (PDX ?nva))"
      "phys x = phys u" "procs x = procs u" "palloc x = palloc u" "\<And>y i. pte_valid (updir u y i) \<Longrightarrow> pte_valid (updir x y i)"
      by (rule u_mem_map_ok [OF pa(3) pb(3) e(1) e(1) m e(2)]; rule that; assumption)
    have xt: "uptab x = (uptab u)(me := (uptab u me)(b + k := dup_entry (uptab w me (a + k))))"
      using x(2) src pa(1) pb(1) by (simp add: dup_entry_def)
    have "duped me a b {..<Suc k} w x"
      unfolding duped_def
    proof (intro conjI allI impI)
      fix e v
      show "uptab x e v = (if e = me \<and> (\<exists>j\<in>{..<Suc k}. v = b + j \<and> pte_valid (uptab w me (a + j))) then dup_entry (uptab w me (a + (v - b))) else uptab w e v)"
        using True by (auto simp: xt tab lessThan_Suc)
      show "pte_valid (updir x me (b div 1024))" using x(3) pb(2) by (simp add: b_def)
    qed (use u(2) x fr in \<open>auto simp: duped_def\<close>)
    moreover have "dup_pages me (INDEX2DATA (int n)) (INDEX2DATA (int m)) [0..<Suc k] w = (Inr (), x)"
      using x(1) True src pa step by (simp add: Let_def)
    ultimately show ?thesis unfolding a_def b_def by blast
  qed
qed

text \<open>Two pages of an environment that are the same memory with the same access.\<close>

definition shares :: "u32 \<Rightarrow> u32 \<Rightarrow> u32 \<Rightarrow> uworld \<Rightarrow> bool" where
  "shares me va va' w \<longleftrightarrow> is_mapped me va w \<and> is_mapped me va' w
     \<and> PTE_ADDR (uptab w me (VPN va)) = PTE_ADDR (uptab w me (VPN va'))
     \<and> uptab w me (VPN va) AND (PTE_D OR PTE_LIBRARY) = uptab w me (VPN va') AND (PTE_D OR PTE_LIBRARY)"

definition tables_ok :: "uworld \<Rightarrow> bool" where
  "tables_ok w \<longleftrightarrow> (\<forall>e i. updir w e i \<noteq> 0 \<longrightarrow> pte_valid (updir w e i))
     \<and> (\<forall>e i k. pte_valid (uptab w e (i * 1024 + k)) \<and> k < 1024 \<longrightarrow> pte_valid (updir w e i))"

lemma dup_entry_perm: "dup_entry pte AND (PTE_D OR PTE_LIBRARY) = pte AND (PTE_D OR PTE_LIBRARY)"
proof -
  have "PTE_ADDR pte AND (PTE_D OR PTE_LIBRARY) = 0" "PTE_V AND (PTE_D OR PTE_LIBRARY) = 0"
    by (simp_all add: PTE_ADDR_def PTE_D_def PTE_LIBRARY_def PTE_V_def and.assoc)
  then show ?thesis by (simp add: dup_entry_def bit.conj_disj_distrib2 and.assoc)
qed

lemma fd_pages:
  assumes "n < 32"
  shows "VPN (INDEX2FD (int n)) = 0x5FC00 + n" and "PDX (INDEX2FD (int n)) = 0x17F" and "fd2data (INDEX2FD (int n)) = INDEX2DATA (int n)"
proof -
  show "VPN (INDEX2FD (int n)) = 0x5FC00 + n" using unat_INDEX2FD [OF assms] by (simp add: VPN_div)
  have "(0x5FC00000 + n * 4096) div 4194304 = 0x17F" using assms by (simp add: div_nat_eqI)
  then show "PDX (INDEX2FD (int n)) = 0x17F" using unat_INDEX2FD [OF assms] by (simp add: PDX_div)
  show "fd2data (INDEX2FD (int n)) = INDEX2DATA (int n)" by (simp add: fd2data_def fd2num_INDEX2FD [OF assms])
qed

lemma tables_okD: "tables_ok w \<Longrightarrow> pte_valid (uptab w e (i * 1024 + k)) \<Longrightarrow> k < 1024 \<Longrightarrow> pte_valid (updir w e i)"
  unfolding tables_ok_def by blast

lemma dup_data:
  assumes "n < 32" "m < 32" "n \<noteq> m" "me \<in> procs w" "\<forall>n. palloc w n \<noteq> None" and tables: "tables_ok w"
  shows "\<exists>u. (if updir w me (0x180 + n) \<noteq> 0 then dup_pages me (INDEX2DATA (int n)) (INDEX2DATA (int m)) [0..<1024] w else (Inr (), w)) = (Inr (), u)
    \<and> duped me (0x60000 + n * 1024) (0x60000 + m * 1024) {..<1024} w u"
proof (cases "updir w me (0x180 + n) = 0")
  case True
  have "\<not> pte_valid (uptab w me (0x60000 + n * 1024 + k))" if "k < 1024" for k
    using tables_okD [OF tables, of me "0x180 + n" k] that True by (auto simp: pte_valid_def)
  then show ?thesis using True by (auto simp: duped_def)
next
  case False
  then have "pte_valid (updir w me (0x180 + n))" using tables by (simp add: tables_ok_def)
  from dup_pages_spec [OF assms(1-5) this order_refl] show ?thesis using False by simp
qed

lemma duped_entry:
  assumes "duped me a b K w u"
  shows "uptab u e v = (if e = me \<and> (\<exists>k\<in>K. v = b + k \<and> pte_valid (uptab w me (a + k))) then dup_entry (uptab w me (a + (v - b))) else uptab w e v)"
  using assms unfolding duped_def by (elim conjE) blast

lemma duped_outside: "duped me a b {..<1024} w u \<Longrightarrow> v < b \<or> b + 1024 \<le> v \<Longrightarrow> uptab u e v = uptab w e v"
  by (auto simp: duped_entry)

text \<open>
  The run of \<open>dup\<close> as a whole: the entries of the data pages and of the descriptor page are copied, and
  every directory entry a copied page needs is present.
\<close>

lemma dup_run:
  assumes nm: "n < 32" "m < 32" "n \<noteq> m" and me: "me \<in> procs w" and mem: "\<forall>n. palloc w n \<noteq> None" and tables: "tables_ok w"
    and old: "pte_valid (uptab w me (0x5FC00 + n))" and free: "\<not> pte_valid (uptab w me (0x5FC00 + m))"
  obtains u x where "dup devtab me (int n) (int m) w = Some (int m, x)" "duped me (0x60000 + n * 1024) (0x60000 + m * 1024) {..<1024} w u"
    "uptab x = (uptab u)(me := (uptab u me)(0x5FC00 + m := dup_entry (uptab w me (0x5FC00 + n))))"
    "phys x = phys w" "\<And>y i. pte_valid (updir u y i) \<Longrightarrow> pte_valid (updir x y i)" "pte_valid (updir u me 0x17F)"
proof -
  note pn = fd_pages [OF nm(1)] and pm = fd_pages [OF nm(2)]
  obtain u where u: "(if updir w me (0x180 + n) \<noteq> 0 then dup_pages me (INDEX2DATA (int n)) (INDEX2DATA (int m)) [0..<1024] w else (Inr (), w)) = (Inr (), u)"
    "duped me (0x60000 + n * 1024) (0x60000 + m * 1024) {..<1024} w u"
    using dup_data [OF nm me mem tables] by blast
  have fdn: "uptab u me (0x5FC00 + n) = uptab w me (0x5FC00 + n)" using duped_outside [OF u(2)] nm by simp
  have "pte_valid (updir w me 0x17F)" using tables_okD [OF tables, of me "0x17F" n] old nm(1) by simp
  then have dir: "pte_valid (updir u me 0x17F)" using u(2) by (simp add: duped_def)
  have mapd: "is_mapped me (INDEX2FD (int n)) u" using old fdn dir pn by (simp add: is_mapped_def)
  have e: "me \<in> procs u" "\<forall>n. palloc u n \<noteq> None" using u(2) me mem by (simp_all add: duped_def)
  obtain x where x: "u_mem_map me (INDEX2FD (int n)) me (INDEX2FD (int m)) (uptab u me (0x5FC00 + n) AND (PTE_D OR PTE_LIBRARY)) u = (Inr (), x)"
    "uptab x = (uptab u)(me := (uptab u me)(VPN (INDEX2FD (int m)) := PTE_ADDR (uptab u me (VPN (INDEX2FD (int n)))) OR uptab u me (0x5FC00 + n) AND (PTE_D OR PTE_LIBRARY) OR PTE_V))"
    "phys x = phys u" "\<And>y i. pte_valid (updir u y i) \<Longrightarrow> pte_valid (updir x y i)"
    by (rule u_mem_map_ok [OF legal_fd [OF nm(1)] legal_fd [OF nm(2)] e(1) e(1) mapd e(2)]; rule that; assumption)
  have look: "fd_lookup me (int n) w = Inr (INDEX2FD (int n))" "fd_lookup me (int m) w = Inl E_INVAL"
    using old free nm by (simp_all add: fd_lookup_def va_div MAXFD_def pn pm)
  have cl: "close devtab me (int m) w = Some (eret E_INVAL, w)" using look(2) by (simp add: close_def fd_dev_def)
  have "PDX (INDEX2DATA (int n)) = 0x180 + n" using page_arith(2) [OF nm(1), of 0] by simp
  then have "dup devtab me (int n) (int m) w = Some (int m, x)"
    using u(1) x(1) cl unfolding dup_def look(1) by (cases "updir w me (0x180 + n) = 0") (simp_all add: Let_def pn pm)
  moreover have "phys x = phys w" using x(3) u(2) by (simp add: duped_def)
  moreover have "uptab x = (uptab u)(me := (uptab u me)(0x5FC00 + m := dup_entry (uptab w me (0x5FC00 + n))))"
    using x(2) fdn pn(1) pm(1) by (simp add: dup_entry_def)
  ultimately show ?thesis using that u(2) x(4) dir by blast
qed

lemma duped_shares:
  assumes d: "duped me (0x60000 + n * 1024) (0x60000 + m * 1024) {..<1024} w u" and nm: "n < 32" "m < 32" "n \<noteq> m" and k: "k < 1024"
    and mp: "is_mapped me (INDEX2DATA (int n) + word_of_nat k * BY2PG) w"
    and x: "\<And>v. 0x60000 \<le> v \<Longrightarrow> uptab x me v = uptab u me v" "\<And>i. pte_valid (updir u me i) \<Longrightarrow> pte_valid (updir x me i)"
  shows "shares me (INDEX2DATA (int n) + word_of_nat k * BY2PG) (INDEX2DATA (int m) + word_of_nat k * BY2PG) x"
proof -
  note pa = page_arith [OF nm(1) k] and pb = page_arith [OF nm(2) k]
  have v: "pte_valid (uptab w me (0x60000 + n * 1024 + k))" "pte_valid (updir w me (0x180 + n))"
    using mp pa by (simp_all add: is_mapped_def)
  then have dirs: "pte_valid (updir x me (0x180 + n))" "pte_valid (updir x me (0x180 + m))"
    using d x(2) k by (auto simp: duped_def)
  have "n * 1024 + k < m * 1024 \<or> m * 1024 + 1024 \<le> n * 1024 + k" using k nm(3) by linarith
  then have "uptab x me (0x60000 + n * 1024 + k) = uptab w me (0x60000 + n * 1024 + k)"
    using duped_outside [OF d, of "0x60000 + n * 1024 + k"] by (auto simp: x(1))
  moreover have "uptab x me (0x60000 + m * 1024 + k) = dup_entry (uptab w me (0x60000 + n * 1024 + k))"
    using v(1) k by (auto simp: x(1) duped_entry [OF d])
  ultimately show ?thesis using v dirs by (simp add: shares_def is_mapped_def pa pb dup_entry_perm)
qed

text \<open>
  Lemma (dup_shares). When descriptor \<open>n\<close> is open and \<open>m\<close> is another one that is free, and frames do not run out,
  \<open>dup\<close> returns \<open>m\<close> and makes the two descriptors one open file: the page of descriptor \<open>m\<close> and
  each of its data pages is the same memory, with the same access, as that of \<open>n\<close>, so that offset and
  contents are shared. No memory is written and no entry outside the pages of \<open>m\<close> changes.
\<close>

theorem dup_shares:
  assumes nm: "n < 32" "m < 32" "n \<noteq> m" and me: "me \<in> procs w" and mem: "\<forall>n. palloc w n \<noteq> None" and tables: "tables_ok w"
    and old: "pte_valid (uptab w me (VPN (INDEX2FD (int n))))" and free: "\<not> pte_valid (uptab w me (VPN (INDEX2FD (int m))))"
  shows "\<exists>w'. dup devtab me (int n) (int m) w = Some (int m, w')
    \<and> shares me (INDEX2FD (int n)) (INDEX2FD (int m)) w'
    \<and> (\<forall>k<1024. is_mapped me (INDEX2DATA (int n) + word_of_nat k * BY2PG) w
         \<longrightarrow> shares me (INDEX2DATA (int n) + word_of_nat k * BY2PG) (INDEX2DATA (int m) + word_of_nat k * BY2PG) w')
    \<and> phys w' = phys w
    \<and> (\<forall>e v. e \<noteq> me \<or> v \<noteq> VPN (INDEX2FD (int m)) \<and> (v < 0x60000 + m * 1024 \<or> 0x60000 + m * 1024 + 1024 \<le> v)
         \<longrightarrow> uptab w' e v = uptab w e v)"
proof -
  note pn = fd_pages [OF nm(1)] and pm = fd_pages [OF nm(2)]
  obtain u x where d: "dup devtab me (int n) (int m) w = Some (int m, x)"
    and u: "duped me (0x60000 + n * 1024) (0x60000 + m * 1024) {..<1024} w u"
    and xt: "uptab x = (uptab u)(me := (uptab u me)(0x5FC00 + m := dup_entry (uptab w me (0x5FC00 + n))))"
    and ph: "phys x = phys w" and dirs: "\<And>y i. pte_valid (updir u y i) \<Longrightarrow> pte_valid (updir x y i)" "pte_valid (updir u me 0x17F)"
    by (rule dup_run [OF nm me mem tables old [unfolded pn] free [unfolded pm]]; rule that; assumption)
  have "shares me (INDEX2FD (int n)) (INDEX2FD (int m)) x"
    using old dirs nm duped_outside [OF u, of "0x5FC00 + n"] by (simp add: shares_def is_mapped_def pn pm xt dup_entry_perm)
  moreover have "shares me (INDEX2DATA (int n) + word_of_nat k * BY2PG) (INDEX2DATA (int m) + word_of_nat k * BY2PG) x"
    if "k < 1024" "is_mapped me (INDEX2DATA (int n) + word_of_nat k * BY2PG) w" for k
    by (rule duped_shares [OF u nm that _ dirs(1)]) (use nm in \<open>simp add: xt\<close>)
  moreover have "uptab x e v = uptab w e v"
    if "e \<noteq> me \<or> v \<noteq> 0x5FC00 + m \<and> (v < 0x60000 + m * 1024 \<or> 0x60000 + m * 1024 + 1024 \<le> v)" for e v
    using that duped_outside [OF u, of v e] duped_entry [OF u, of e v] by (auto simp: xt)
  ultimately show ?thesis using d ph unfolding pm(1) by blast
qed

theorem dup_shares_witness:
  "\<exists>w'. dup [] 1 (int 0) (int 1) desk = Some (int 1, w')
    \<and> shares 1 (INDEX2FD (int 0)) (INDEX2FD (int 1)) w'
    \<and> (\<forall>k<1024. is_mapped 1 (INDEX2DATA (int 0) + word_of_nat k * BY2PG) desk
         \<longrightarrow> shares 1 (INDEX2DATA (int 0) + word_of_nat k * BY2PG) (INDEX2DATA (int 1) + word_of_nat k * BY2PG) w')
    \<and> phys w' = phys desk
    \<and> (\<forall>e v. e \<noteq> 1 \<or> v \<noteq> VPN (INDEX2FD (int 1)) \<and> (v < 0x60000 + 1 * 1024 \<or> 0x60000 + 1 * 1024 + 1024 \<le> v)
         \<longrightarrow> uptab w' e v = uptab desk e v)"
proof (rule dup_shares)
  show "tables_ok desk"
    unfolding tables_ok_def
  proof (intro conjI allI impI)
    fix e i k
    assume a: "pte_valid (uptab desk e (i * 1024 + k)) \<and> k < 1024"
    then have "i * 1024 + k = 0x5FC00" by (auto simp: desk_def pte_valid_def split: if_splits)
    then have "(i * 1024 + k) div 1024 = 0x17F" by simp
    then have "i = 0x17F" using a by simp
    then show "pte_valid (updir desk e i)" by (simp add: desk_def pte_valid_def PTE_V_def)
  qed (simp add: desk_def pte_valid_def PTE_V_def split: if_splits)
qed (simp_all add: fd_pages(1) [of 0, simplified] fd_pages(1) [of 1, simplified], simp_all add: desk_def pte_valid_def PTE_V_def PTE_D_def)

end
