(* ===== verification/File.thy ===== *)
theory File
  imports Fd
begin

text \<open>
  The client side of the file system: \<open>user/lib/file.c\<close>, the device of open files, on the requests of
  \<open>user/lib/fsipc.c\<close> and the messages of \<open>user/lib/ipc.c\<close>. An open file is a descriptor page that the file server
  shares with its clients and that holds a \<open>struct Filefd\<close> or \<open>struct FatFileFd\<close>; its contents are mapped
  from \<open>fd2data\<close> on.

  A file server is the argument \<open>srv\<close>: given the number of the server, the code of a request, the frame
  of the page that comes with it and the memory, it answers a value, possibly a frame with permissions, and
  the memory it leaves; \<open>None\<close> is a server that does not answer. \<open>buf\<close> is the address of the page \<open>fsipcbuf\<close>.
  Paths are lists of bytes without the terminator.

  \<open>None\<close> is a call of \<open>user_panic\<close>, an access to a page that is not mapped or not writable, an access outside
  \<open>envs\<close> and a store behind the end of a local array.
\<close>

section \<open>Messages\<close>

type_synonym server = "u32 \<Rightarrow> u32 \<Rightarrow> u32 \<Rightarrow> uworld \<Rightarrow> (u32 \<times> (u32 \<times> u32) option \<times> uworld) option"

definition MAXPATHLEN :: nat where "MAXPATHLEN = 1024"
definition MAXFILESIZE :: u32 where "MAXFILESIZE = 1024 * BY2PG"
definition FSREQ_OPEN :: u32 where "FSREQ_OPEN = 1"
definition FSREQ_MAP :: u32 where "FSREQ_MAP = 2"
definition FSREQ_SET_SIZE :: u32 where "FSREQ_SET_SIZE = 3"
definition FSREQ_CLOSE :: u32 where "FSREQ_CLOSE = 4"
definition FSREQ_DIRTY :: u32 where "FSREQ_DIRTY = 5"
definition FSREQ_REMOVE :: u32 where "FSREQ_REMOVE = 6"
definition FSREQ_SYNC :: u32 where "FSREQ_SYNC = 7"
definition NORMAL_FS_NUMBER :: u32 where "NORMAL_FS_NUMBER = 1"
definition FAT32_FS_NUMBER :: u32 where "FAT32_FS_NUMBER = 2"
definition ROOTDIR_NAMELEN :: nat where "ROOTDIR_NAMELEN = 6"

definition FILEID2FSNO :: "u32 \<Rightarrow> u32" where
  "FILEID2FSNO fileid = (fileid mod 2048) div 1024 + 1"

text \<open>
  \<open>ipc_send\<close> to the server: it is repeated until the server receives and fails when the page is not
  mapped. The result is the frame the server gets.
\<close>

definition ipc_send :: "u32 \<Rightarrow> u32 \<Rightarrow> uworld \<Rightarrow> u32 option" where
  "ipc_send me srcva w = (if illegal_va srcva \<or> \<not> is_mapped me srcva w then None else Some (PTE_ADDR (uptab w me (VPN srcva))))"

text \<open>
  \<open>ipc_recv\<close> of a value and possibly a page: the page is mapped at \<open>dstva\<close>; when the kernel has no frame for
  the page table it delivers the value without the page. The result is the value and \<open>*perm\<close>.
\<close>

definition ipc_recv :: "u32 \<Rightarrow> u32 \<Rightarrow> u32 \<Rightarrow> (u32 \<times> u32) option \<Rightarrow> uworld \<Rightarrow> (u32 \<times> u32) \<times> uworld" where
  "ipc_recv me dstva v page w = (
     case page of
       None \<Rightarrow> ((v, PTE_V), w)
     | Some (fr, perm) \<Rightarrow>
         ((v, PTE_V OR perm),
          (case need_table me dstva w of
             (Inl e, w) \<Rightarrow> w
           | (Inr _, w) \<Rightarrow> set_pte me dstva (PTE_ADDR fr OR perm OR PTE_V) w)))"

text \<open>The servers are the environments 1 and 2 of \<open>envs\<close>; another number lies outside what the client may use.\<close>

definition fsipc :: "server \<Rightarrow> u32 \<Rightarrow> u32 \<Rightarrow> u32 \<Rightarrow> u32 \<Rightarrow> u32 \<Rightarrow> uworld \<Rightarrow> ((int \<times> u32) \<times> uworld) option" where
  "fsipc srv me type fsreq dstva whichfs w = (
     if whichfs \<noteq> NORMAL_FS_NUMBER \<and> whichfs \<noteq> FAT32_FS_NUMBER then None
     else do {
       fr \<leftarrow> ipc_send me fsreq w;
       if dstva \<noteq> 0 \<and> illegal_va dstva then None
       else do {
         (v, page, w) \<leftarrow> srv whichfs type fr w;
         let ((v, perm), w) = ipc_recv me dstva v page w;
         Some ((sint v, perm), w)
       }
     })"

section \<open>Requests\<close>

text \<open>
  \<open>getFsNumber\<close> copies the path into an array of 20 bytes. The error \<open>-E_NOT_FOUND\<close> is returned as a number, which
  the callers use as the number of a server.
\<close>

definition getFsNumber :: "u8 list \<Rightarrow> u32 option" where
  "getFsNumber path = (
     if length path \<ge> 20 then None
     else
       let tmpName = take ROOTDIR_NAMELEN path
       in Some (if tmpName = [47, 114, 111, 111, 116, 49] then NORMAL_FS_NUMBER
                else if tmpName = [47, 114, 111, 111, 116, 50] then FAT32_FS_NUMBER
                else - errno E_NOT_FOUND))"

definition fsipc_open :: "server \<Rightarrow> u32 \<Rightarrow> u32 \<Rightarrow> u8 list \<Rightarrow> u32 \<Rightarrow> u32 \<Rightarrow> uworld \<Rightarrow> (int \<times> uworld) option" where
  "fsipc_open srv me buf path omode fd w = (
     if length path \<ge> MAXPATHLEN then Some (eret E_BAD_PATH, w)
     else do {
       w \<leftarrow> put_bytes me buf (path @ [0]) w;
       w \<leftarrow> put32 me (buf + word_of_nat MAXPATHLEN) omode w;
       fsno \<leftarrow> getFsNumber path;
       ((r, perm), w) \<leftarrow> fsipc srv me FSREQ_OPEN buf fd fsno w;
       Some (r, w)
     })"

definition fsipc_map :: "server \<Rightarrow> u32 \<Rightarrow> u32 \<Rightarrow> u32 \<Rightarrow> u32 \<Rightarrow> u32 \<Rightarrow> uworld \<Rightarrow> (int \<times> uworld) option" where
  "fsipc_map srv me buf fileid offset dstva w = do {
     w \<leftarrow> put32 me buf fileid w;
     w \<leftarrow> put32 me (buf + 4) offset w;
     ((r, perm), w) \<leftarrow> fsipc srv me FSREQ_MAP buf dstva (FILEID2FSNO fileid) w;
     if r < 0 then Some (r, w)
     else if perm AND NOT (PTE_D OR PTE_LIBRARY) \<noteq> PTE_V then None
     else Some (0, w)
   }"

definition fsipc_set_size :: "server \<Rightarrow> u32 \<Rightarrow> u32 \<Rightarrow> u32 \<Rightarrow> u32 \<Rightarrow> uworld \<Rightarrow> (int \<times> uworld) option" where
  "fsipc_set_size srv me buf fileid sz w = do {
     w \<leftarrow> put32 me buf fileid w;
     w \<leftarrow> put32 me (buf + 4) sz w;
     ((r, perm), w) \<leftarrow> fsipc srv me FSREQ_SET_SIZE buf 0 (FILEID2FSNO fileid) w;
     Some (r, w)
   }"

definition fsipc_close :: "server \<Rightarrow> u32 \<Rightarrow> u32 \<Rightarrow> u32 \<Rightarrow> uworld \<Rightarrow> (int \<times> uworld) option" where
  "fsipc_close srv me buf fileid w = do {
     w \<leftarrow> put32 me buf fileid w;
     ((r, perm), w) \<leftarrow> fsipc srv me FSREQ_CLOSE buf 0 (FILEID2FSNO fileid) w;
     Some (r, w)
   }"

definition fsipc_dirty :: "server \<Rightarrow> u32 \<Rightarrow> u32 \<Rightarrow> u32 \<Rightarrow> u32 \<Rightarrow> uworld \<Rightarrow> (int \<times> uworld) option" where
  "fsipc_dirty srv me buf fileid offset w = do {
     w \<leftarrow> put32 me buf fileid w;
     w \<leftarrow> put32 me (buf + 4) offset w;
     ((r, perm), w) \<leftarrow> fsipc srv me FSREQ_DIRTY buf 0 (FILEID2FSNO fileid) w;
     Some (r, w)
   }"

definition fsipc_remove :: "server \<Rightarrow> u32 \<Rightarrow> u32 \<Rightarrow> u8 list \<Rightarrow> uworld \<Rightarrow> (int \<times> uworld) option" where
  "fsipc_remove srv me buf path w = (
     if path = [] \<or> length path > MAXPATHLEN then Some (eret E_BAD_PATH, w)
     else do {
       w \<leftarrow> put_bytes me buf (path @ [0]) w;
       fsno \<leftarrow> getFsNumber path;
       ((r, perm), w) \<leftarrow> fsipc srv me FSREQ_REMOVE buf 0 fsno w;
       Some (r, w)
     })"

definition fsipc_sync :: "server \<Rightarrow> u32 \<Rightarrow> u32 \<Rightarrow> uworld \<Rightarrow> (int \<times> uworld) option" where
  "fsipc_sync srv me buf w = do {
     ((r, perm), w) \<leftarrow> fsipc srv me FSREQ_SYNC buf 0 NORMAL_FS_NUMBER w;
     if r \<noteq> 0 then Some (r, w)
     else do {
       ((r, perm), w) \<leftarrow> fsipc srv me FSREQ_SYNC buf 0 FAT32_FS_NUMBER w;
       Some (if r \<noteq> 0 then r else 0, w)
     }
   }"

section \<open>Open files\<close>

definition DEVFILE_ID :: u32 where "DEVFILE_ID = 102"
definition NORMAL_DISK :: u32 where "NORMAL_DISK = 0"
definition FAT32_DISK :: u32 where "FAT32_DISK = 1"

text \<open>
  The fields of \<open>struct Filefd\<close> and \<open>struct FatFileFd\<close>: both have the id after the descriptor and then
  the file or directory entry, which is packed.
\<close>

definition ff_disktype :: "u32 \<Rightarrow> u32" where "ff_disktype fd = fd + 12"
definition ff_fileid :: "u32 \<Rightarrow> u32" where "ff_fileid fd = fd + 16"
definition ff_name :: "u32 \<Rightarrow> u32" where "ff_name fd = fd + 20"
definition ff_size :: "u32 \<Rightarrow> u32" where "ff_size fd = fd + 20 + 128"
definition ff_type :: "u32 \<Rightarrow> u32" where "ff_type fd = fd + 20 + 132"
definition fat_attr :: "u32 \<Rightarrow> u32" where "fat_attr fd = fd + 20 + 11"
definition fat_size :: "u32 \<Rightarrow> u32" where "fat_size fd = fd + 20 + 28"

lemmas ff_defs = ff_disktype_def ff_fileid_def ff_name_def ff_size_def ff_type_def fat_attr_def fat_size_def

definition getInfoFromFileFd :: "u32 \<Rightarrow> u32 \<Rightarrow> uworld \<Rightarrow> (u32 \<times> u32) option" where
  "getInfoFromFileFd me fd w = do { fileid \<leftarrow> get32 me (ff_fileid fd) w; size \<leftarrow> get32 me (ff_size fd) w; Some (size, fileid) }"

definition getInfoFromFatFileFd :: "u32 \<Rightarrow> u32 \<Rightarrow> uworld \<Rightarrow> (u32 \<times> u32) option" where
  "getInfoFromFatFileFd me fd w = do { fileid \<leftarrow> get32 me (ff_fileid fd) w; size \<leftarrow> get32 me (fat_size fd) w; Some (size, fileid) }"

definition getInfoFromFd :: "u32 \<Rightarrow> u32 \<Rightarrow> uworld \<Rightarrow> (u32 \<times> u32) option" where
  "getInfoFromFd me fd w = do {
     t \<leftarrow> get32 me (ff_disktype fd) w;
     if t = NORMAL_DISK then getInfoFromFileFd me fd w
     else if t = FAT32_DISK then getInfoFromFatFileFd me fd w
     else None
   }"

definition setInfoToFd :: "u32 \<Rightarrow> u32 \<Rightarrow> u32 \<Rightarrow> uworld \<Rightarrow> uworld option" where
  "setInfoToFd me fd sz w = do {
     t \<leftarrow> get32 me (ff_disktype fd) w;
     if t = NORMAL_DISK then put32 me (ff_size fd) sz w
     else if t = FAT32_DISK then put32 me (fat_size fd) sz w
     else None
   }"

text \<open>
  The values of \<open>i\<close> in \<open>for (i = from; i < to; i += BY2PG)\<close>; \<open>None\<close> when \<open>i\<close> wraps around before it reaches
  \<open>to\<close>, so that the loop has no end.
\<close>

definition page_steps :: "u32 \<Rightarrow> u32 \<Rightarrow> u32 list option" where
  "page_steps from to = (
     let k = (unat to - unat from + 4095) div 4096
     in if unat from + k * 4096 < 2 ^ 32 then Some (map (\<lambda>j. from + word_of_nat j * BY2PG) [0..<k]) else None)"

primrec map_pages :: "server \<Rightarrow> u32 \<Rightarrow> u32 \<Rightarrow> u32 \<Rightarrow> u32 \<Rightarrow> u32 list \<Rightarrow> uworld \<Rightarrow> (int \<times> uworld) option" where
  "map_pages srv me buf fileid va [] w = Some (0, w)"
| "map_pages srv me buf fileid va (i # is) w = do {
     (r, w) \<leftarrow> fsipc_map srv me buf fileid i (va + i) w;
     if r \<noteq> 0 then Some (r, w) else map_pages srv me buf fileid va is w
   }"

definition open_path :: "server \<Rightarrow> u32 \<Rightarrow> u32 \<Rightarrow> u8 list \<Rightarrow> u32 \<Rightarrow> uworld \<Rightarrow> (int \<times> uworld) option" where
  "open_path srv me buf path mode w = (
     case fd_alloc me w of
       Inl e \<Rightarrow> Some (eret e, w)
     | Inr fd \<Rightarrow> do {
         (r, w) \<leftarrow> fsipc_open srv me buf path mode fd w;
         if r \<noteq> 0 then Some (r, w)
         else do {
           let va = fd2data fd;
           (size, fileid) \<leftarrow> getInfoFromFd me fd w;
           steps \<leftarrow> page_steps 0 size;
           (r, w) \<leftarrow> map_pages srv me buf fileid va steps w;
           if r \<noteq> 0 then Some (r, w) else Some (fd2num fd, w)
         }
       })"

primrec dirty_pages :: "server \<Rightarrow> u32 \<Rightarrow> u32 \<Rightarrow> u32 \<Rightarrow> u32 list \<Rightarrow> uworld \<Rightarrow> uworld option" where
  "dirty_pages srv me buf fileid [] w = Some w"
| "dirty_pages srv me buf fileid (i # is) w = do {
     (r, w) \<leftarrow> fsipc_dirty srv me buf fileid i w;
     dirty_pages srv me buf fileid is w
   }"

primrec unmap_pages :: "u32 \<Rightarrow> u32 \<Rightarrow> u32 list \<Rightarrow> uworld \<Rightarrow> (err + unit) \<times> uworld" where
  "unmap_pages me va [] w = (Inr (), w)"
| "unmap_pages me va (i # is) w = (
     case u_mem_unmap me (va + i) w of
       (Inl e, w) \<Rightarrow> (Inl e, w)
     | (Inr _, w) \<Rightarrow> unmap_pages me va is w)"

definition file_close :: "server \<Rightarrow> u32 \<Rightarrow> u32 \<Rightarrow> u32 \<Rightarrow> uworld \<Rightarrow> (int \<times> uworld) option" where
  "file_close srv me buf fd w = do {
     (size, fileid) \<leftarrow> getInfoFromFd me fd w;
     let va = fd2data fd;
     steps \<leftarrow> page_steps 0 size;
     w \<leftarrow> dirty_pages srv me buf fileid steps w;
     (r, w) \<leftarrow> fsipc_close srv me buf fileid w;
     if r < 0 then Some (r, w)
     else if size = 0 then Some (0, w)
     else
       (case unmap_pages me va steps w of
          (Inl e, w) \<Rightarrow> Some (eret e, w)
        | (Inr _, w) \<Rightarrow> Some (0, w))
   }"

text \<open>
  \<open>memcpy\<close> on the addresses of the running environment, byte by byte upwards; that the words it copies where
  it can make no difference on separate ranges is shown for flat memory in \<open>Strings\<close>.
\<close>

primrec copy_up :: "u32 \<Rightarrow> u32 \<Rightarrow> u32 \<Rightarrow> nat \<Rightarrow> uworld \<Rightarrow> uworld option" where
  "copy_up me dst src 0 w = Some w"
| "copy_up me dst src (Suc n) w = do { b \<leftarrow> view me src w; w \<leftarrow> put me dst b w; copy_up me (dst + 1) (src + 1) n w }"

definition u_memcpy :: "u32 \<Rightarrow> u32 \<Rightarrow> u32 \<Rightarrow> u32 \<Rightarrow> uworld \<Rightarrow> uworld option" where
  "u_memcpy me dst src n w = (if dst < dst + n then copy_up me dst src (unat n) w else Some w)"

partial_function (option) u_strcpy :: "u32 \<Rightarrow> u32 \<Rightarrow> u32 \<Rightarrow> uworld \<Rightarrow> uworld option" where
  "u_strcpy me dst src w = do {
     b \<leftarrow> view me src w;
     w \<leftarrow> put me dst b w;
     if b = 0 then Some w else u_strcpy me (dst + 1) (src + 1) w
   }"

definition file_read :: "u32 \<Rightarrow> u32 \<Rightarrow> u32 \<Rightarrow> u32 \<Rightarrow> u32 \<Rightarrow> uworld \<Rightarrow> (int \<times> uworld) option" where
  "file_read me fd ubuf n offset w = do {
     (size, _) \<leftarrow> getInfoFromFd me fd w;
     if offset > size then Some (0, w)
     else do {
       let n = (if offset + n > size then size - offset else n);
       w \<leftarrow> u_memcpy me ubuf (fd2data fd + offset) n w;
       Some (sint n, w)
     }
   }"

definition read_map :: "u32 \<Rightarrow> int \<Rightarrow> u32 \<Rightarrow> uworld \<Rightarrow> (err + u32) option" where
  "read_map me fdnum offset w = (
     case fd_lookup me fdnum w of
       Inl e \<Rightarrow> Some (Inl e)
     | Inr fd \<Rightarrow> do {
         i \<leftarrow> get32 me fd w;
         if i \<noteq> DEVFILE_ID then Some (Inl E_INVAL)
         else
           let va = fd2data fd + offset
           in if offset \<ge> MAXFILESIZE then Some (Inl E_NO_DISK)
              else if \<not> pte_valid (updir w me (PDX va)) \<or> \<not> pte_valid (uptab w me (VPN va)) then Some (Inl E_NO_DISK)
              else Some (Inr va)
       })"

definition ftruncate :: "server \<Rightarrow> u32 \<Rightarrow> u32 \<Rightarrow> int \<Rightarrow> u32 \<Rightarrow> uworld \<Rightarrow> (int \<times> uworld) option" where
  "ftruncate srv me buf fdnum sz w = (
     if sz > MAXFILESIZE then Some (eret E_NO_DISK, w)
     else case fd_lookup me fdnum w of
       Inl e \<Rightarrow> Some (eret e, w)
     | Inr fd \<Rightarrow> do {
         i \<leftarrow> get32 me fd w;
         if i \<noteq> DEVFILE_ID then Some (eret E_INVAL, w)
         else do {
           (oldsize, fileid) \<leftarrow> getInfoFromFd me fd w;
           w \<leftarrow> setInfoToFd me fd sz w;
           (r, w) \<leftarrow> fsipc_set_size srv me buf fileid sz w;
           if r < 0 then Some (r, w)
           else do {
             let va = fd2data fd;
             up \<leftarrow> page_steps (ROUND oldsize BY2PG) (ROUND sz BY2PG);
             (r, w) \<leftarrow> map_pages srv me buf fileid va up w;
             if r < 0 then do { (_, w) \<leftarrow> fsipc_set_size srv me buf fileid oldsize w; Some (r, w) }
             else do {
               down \<leftarrow> page_steps (ROUND sz BY2PG) (ROUND oldsize BY2PG);
               (case unmap_pages me va down w of (Inl e, w) \<Rightarrow> None | (Inr _, w) \<Rightarrow> Some (0, w))
             }
           }
         }
       })"

definition file_write :: "server \<Rightarrow> u32 \<Rightarrow> u32 \<Rightarrow> u32 \<Rightarrow> u32 \<Rightarrow> u32 \<Rightarrow> u32 \<Rightarrow> uworld \<Rightarrow> (int \<times> uworld) option" where
  "file_write srv me buf fd ubuf n offset w = do {
     (size, _) \<leftarrow> getInfoFromFd me fd w;
     let tot = offset + n;
     if tot > MAXFILESIZE then Some (eret E_NO_DISK, w)
     else do {
       (r, w) \<leftarrow> (if tot > size then ftruncate srv me buf (fd2num fd) tot w else Some (0, w));
       if r < 0 then Some (r, w)
       else do {
         w \<leftarrow> u_memcpy me (fd2data fd + offset) ubuf n w;
         Some (sint n, w)
       }
     }
   }"

text \<open>The two branches of \<open>getStatFromFd\<close> read the structure of the other kind of disk.\<close>

definition getStatFromFd :: "u32 \<Rightarrow> u32 \<Rightarrow> u32 \<Rightarrow> uworld \<Rightarrow> uworld option" where
  "getStatFromFd me fd st w = do {
     t \<leftarrow> get32 me (ff_disktype fd) w;
     if t = NORMAL_DISK then do {
       w \<leftarrow> u_strcpy me st (ff_name fd) w;
       size \<leftarrow> get32 me (fat_size fd) w;
       w \<leftarrow> put32 me (st + 128) size w;
       attr \<leftarrow> view me (fat_attr fd) w;
       put32 me (st + 132) (if attr = 0x10 then 1 else 0) w
     }
     else if t = FAT32_DISK then do {
       w \<leftarrow> u_strcpy me st (ff_name fd) w;
       size \<leftarrow> get32 me (ff_size fd) w;
       w \<leftarrow> put32 me (st + 128) size w;
       type \<leftarrow> get32 me (ff_type fd) w;
       put32 me (st + 132) (if type = 1 then 1 else 0) w
     }
     else None
   }"

definition file_stat :: "u32 \<Rightarrow> u32 \<Rightarrow> u32 \<Rightarrow> uworld \<Rightarrow> (int \<times> uworld) option" where
  "file_stat me fd st w = do { w \<leftarrow> getStatFromFd me fd st w; Some (0, w) }"

definition devfile :: "server \<Rightarrow> u32 \<Rightarrow> u32 \<Rightarrow> dev" where
  "devfile srv me buf = \<lparr>dev_id = DEVFILE_ID, dev_read = file_read me, dev_write = file_write srv me buf,
     dev_close = file_close srv me buf, dev_stat = file_stat me\<rparr>"

text \<open>\<open>stat\<close> of \<open>user/lib/fd.c\<close>, which opens the path.\<close>

definition stat :: "server \<Rightarrow> dev list \<Rightarrow> (u32 \<Rightarrow> u32) \<Rightarrow> u32 \<Rightarrow> u32 \<Rightarrow> u8 list \<Rightarrow> u32 \<Rightarrow> uworld \<Rightarrow> (int \<times> uworld) option" where
  "stat srv devtab dev_ptr me buf path st w = do {
     (fd, w) \<leftarrow> open_path srv me buf path O_RDONLY w;
     if fd < 0 then Some (fd, w)
     else do {
       (r, w) \<leftarrow> fstat devtab dev_ptr me fd st w;
       (_, w) \<leftarrow> close devtab me fd w;
       Some (r, w)
     }
   }"

section \<open>Copying between mapped ranges\<close>

text \<open>The physical addresses of a range, and ranges that are mapped or writable as a whole.\<close>

definition pas :: "u32 \<Rightarrow> u32 \<Rightarrow> nat \<Rightarrow> uworld \<Rightarrow> u32 set" where
  "pas me va n w = (\<lambda>i. pa_of me (va + word_of_nat i) w) ` {..<n}"

definition readable :: "u32 \<Rightarrow> u32 \<Rightarrow> nat \<Rightarrow> uworld \<Rightarrow> bool" where
  "readable me va n w \<longleftrightarrow> (\<forall>i<n. is_mapped me (va + word_of_nat i) w)"

definition writable :: "u32 \<Rightarrow> u32 \<Rightarrow> nat \<Rightarrow> uworld \<Rightarrow> bool" where
  "writable me va n w \<longleftrightarrow> readable me va n w \<and> (\<forall>i<n. uptab w me (VPN (va + word_of_nat i)) AND PTE_D \<noteq> 0)
     \<and> inj_on (\<lambda>i. pa_of me (va + word_of_nat i) w) {..<n}"

lemma phys_only [simp]:
  "is_mapped e va (w\<lparr>phys := m\<rparr>) = is_mapped e va w" "pa_of e va (w\<lparr>phys := m\<rparr>) = pa_of e va w"
  "pas e va n (w\<lparr>phys := m\<rparr>) = pas e va n w" "readable e va n (w\<lparr>phys := m\<rparr>) = readable e va n w"
  "writable e va n (w\<lparr>phys := m\<rparr>) = writable e va n w"
  by (simp_all add: is_mapped_def pa_of_def pas_def readable_def writable_def)

lemma pas_mem: "i < n \<Longrightarrow> pa_of me (va + word_of_nat i) w \<in> pas me va n w"
  unfolding pas_def by blast

lemma pas_first: "pa_of me va w \<in> pas me va (Suc n) w"
  using pas_mem [of 0 "Suc n"] by simp

lemma shift_range:
  "pas me (va + 1) n w \<subseteq> pas me va (Suc n) w" "readable me va (Suc n) w \<Longrightarrow> readable me (va + 1) n w"
  "writable me va (Suc n) w \<Longrightarrow> writable me (va + 1) n w"
proof -
  have s: "va + 1 + word_of_nat i = va + word_of_nat (Suc i)" for i by simp
  show "pas me (va + 1) n w \<subseteq> pas me va (Suc n) w" unfolding pas_def s by blast
  show r: "readable me va (Suc n) w \<Longrightarrow> readable me (va + 1) n w" unfolding readable_def s by auto
  assume a: "writable me va (Suc n) w"
  let ?f = "\<lambda>i. pa_of me (va + word_of_nat i) w"
  have "inj_on ?f {..<Suc n}" using a by (simp add: writable_def)
  then have "inj_on ?f (Suc ` {..<n})" by (rule inj_on_subset) auto
  then have "inj_on (\<lambda>i. ?f (Suc i)) {..<n}" using comp_inj_on [of Suc "{..<n}" ?f] by (simp add: comp_def)
  moreover have "\<forall>i<n. uptab w me (VPN (va + word_of_nat (Suc i))) AND PTE_D \<noteq> 0" using a unfolding writable_def by blast
  ultimately show "writable me (va + 1) n w" using a r unfolding writable_def s by blast
qed

lemma copy_up_ok:
  assumes "readable me src n w" "writable me dst n w" "pas me src n w \<inter> pas me dst n w = {}"
  shows "\<exists>m. copy_up me dst src n w = Some (w\<lparr>phys := m\<rparr>)
    \<and> (\<forall>i<n. m (pa_of me (dst + word_of_nat i) w) = phys w (pa_of me (src + word_of_nat i) w))
    \<and> (\<forall>a. a \<notin> pas me dst n w \<longrightarrow> m a = phys w a)"
  using assms
proof (induction n arbitrary: dst src w)
  case 0
  then show ?case by (auto intro: exI [where x = "phys w"])
next
  case (Suc n)
  define m1 where "m1 = (phys w)(pa_of me dst w := phys w (pa_of me src w))"
  have step: "copy_up me dst src (Suc n) w = copy_up me (dst + 1) (src + 1) n (w\<lparr>phys := m1\<rparr>)"
    using Suc.prems(1,2) by (auto simp: view_def put_def m1_def writable_def readable_def)
  have "pas me (src + 1) n w \<inter> pas me (dst + 1) n w = {}" using Suc.prems(3) shift_range(1) by blast
  then obtain m where m: "copy_up me (dst + 1) (src + 1) n (w\<lparr>phys := m1\<rparr>) = Some (w\<lparr>phys := m\<rparr>)"
    "\<forall>i<n. m (pa_of me (dst + 1 + word_of_nat i) w) = m1 (pa_of me (src + 1 + word_of_nat i) w)"
    "\<forall>a. a \<notin> pas me (dst + 1) n w \<longrightarrow> m a = m1 a"
    using Suc.IH [of "src + 1" "w\<lparr>phys := m1\<rparr>" "dst + 1"] shift_range(2) [OF Suc.prems(1)] shift_range(3) [OF Suc.prems(2)] by auto
  have src: "pa_of me (src + word_of_nat (Suc i)) w \<noteq> pa_of me dst w" if "i < n" for i
    using Suc.prems(3) pas_first [of me dst w n] pas_mem [of "Suc i" "Suc n" me src w] that by (metis Suc_mono disjoint_iff)
  have first: "pa_of me dst w \<notin> pas me (dst + 1) n w"
  proof
    assume "pa_of me dst w \<in> pas me (dst + 1) n w"
    then obtain i where "i < n" "pa_of me (dst + word_of_nat 0) w = pa_of me (dst + word_of_nat (Suc i)) w"
      by (auto simp: pas_def add.assoc)
    then show False using Suc.prems(2) unfolding writable_def inj_on_def by (metis Suc_mono lessThan_iff nat.distinct(1) zero_less_Suc)
  qed
  have "m (pa_of me (dst + word_of_nat i) w) = phys w (pa_of me (src + word_of_nat i) w)" if "i < Suc n" for i
  proof (cases i)
    case 0
    then show ?thesis using m(3) first by (simp add: m1_def)
  next
    case (Suc j)
    then show ?thesis using m(2) [rule_format, of j] src [of j] that by (simp add: m1_def add.assoc)
  qed
  moreover have "m a = phys w a" if "a \<notin> pas me dst (Suc n) w" for a
  proof -
    have "a \<noteq> pa_of me dst w" using that pas_first by metis
    moreover have "a \<notin> pas me (dst + 1) n w" using that shift_range(1) by blast
    ultimately show ?thesis using m(3) by (simp add: m1_def)
  qed
  ultimately show ?case using step m(1) by auto
qed

lemma memcpy_copy_up:
  assumes "unat dst + unat n < 2 ^ 32"
  shows "u_memcpy me dst src n w = copy_up me dst src (unat n) w"
proof (cases "n = 0")
  case False
  then have "0 < unat n" by (simp add: unat_gt_0)
  then have "dst < dst + n" using assms by (simp add: word_less_nat_alt unat_word_ariths)
  then show ?thesis by (simp add: u_memcpy_def)
qed (simp add: u_memcpy_def)

text \<open>A word of the descriptor page depends on the frame of the page only.\<close>

lemma pa_of_frame:
  assumes "va AND 3 = 0" and "j < 4"
  shows "PTE_ADDR (pa_of me va w + word_of_nat j) = PTE_ADDR (uptab w me (VPN va))"
proof -
  let ?p = "pa_of me va w"
  have "(?p AND 0xFFF) AND 3 = (va AND 0xFFF) AND 3" by (simp add: pa_of_def)
  then have "?p AND 3 = va AND 3" by (simp add: and.assoc)
  then have a: "unat ?p mod 4 = 0" using assms(1) by (intro aligned_unat) simp
  have u: "unat (?p + word_of_nat j) = unat ?p + j"
  proof -
    have "unat ?p + j < 4294967296" using a assms(2) unat_u32 [of ?p] by presburger
    then show ?thesis by (simp add: unat_word_ariths unat_of_nat)
  qed
  obtain q where q: "unat ?p = 4 * q" using a by (auto simp: mod_eq_0_iff_dvd)
  have "(unat ?p + j) div 4 div 1024 = unat ?p div 4 div 1024" using assms(2) unfolding q by simp
  then have "(unat ?p + j) div 4096 = unat ?p div 4096" by (simp add: div_mult2_eq [symmetric])
  then have "PTE_ADDR (?p + word_of_nat j) = PTE_ADDR ?p"
    unfolding word_unat_eq_iff unat_PTE_ADDR u by (metis minus_mod_eq_div_mult)
  then show ?thesis by (simp add: pa_of_def)
qed

lemma get32_frame:
  assumes "\<And>a. PTE_ADDR a = PTE_ADDR (uptab w me (VPN va)) \<Longrightarrow> m a = phys w a"
  shows "get32 me va (w\<lparr>phys := m\<rparr>) = get32 me va w"
proof (cases "va AND 3 = 0")
  case True
  then have "m (pa_of me va w + word_of_nat j) = phys w (pa_of me va w + word_of_nat j)" if "j < 4" for j
    using assms pa_of_frame that by blast
  from this [of 0] this [of 1] this [of 2] this [of 3] show ?thesis by (simp add: get32_def load_word_def)
qed (simp add: get32_def)

lemma fd_fields_page:
  assumes "k < 32" and "j < 4096"
  shows "VPN (INDEX2FD (int k) + word_of_nat j) = VPN (INDEX2FD (int k))"
proof -
  have "unat (INDEX2FD (int k) + word_of_nat j) = 0x5FC00000 + k * 4096 + j"
    using assms unat_INDEX2FD [OF assms(1)] by (simp add: unat_word_ariths unat_of_nat)
  then show ?thesis using assms(2) unat_INDEX2FD [OF assms(1)] by (simp add: VPN_div)
qed

lemma info_frame:
  assumes k: "k < 32" and m: "\<And>a. PTE_ADDR a = PTE_ADDR (uptab w me (VPN (INDEX2FD (int k)))) \<Longrightarrow> m a = phys w a"
  shows "getInfoFromFd me (INDEX2FD (int k)) (w\<lparr>phys := m\<rparr>) = getInfoFromFd me (INDEX2FD (int k)) w"
proof -
  have g: "get32 me (INDEX2FD (int k) + word_of_nat j) (w\<lparr>phys := m\<rparr>) = get32 me (INDEX2FD (int k) + word_of_nat j) w" if "j < 4096" for j
    by (rule get32_frame) (simp add: m fd_fields_page [OF k that])
  from g [of 12] g [of 16] g [of 48] g [of 148] show ?thesis
    by (simp add: getInfoFromFd_def getInfoFromFileFd_def getInfoFromFatFileFd_def ff_defs add.assoc cong: if_cong)
qed

section \<open>Reading and writing\<close>

lemma unat_data:
  assumes "k < 32" and "unat offset \<le> unat MAXFILESIZE"
  shows "unat (fd2data (INDEX2FD (int k)) + offset) = 0x60000000 + k * 0x400000 + unat offset"
proof -
  have "unat offset \<le> 4194304" using assms(2) by (simp add: MAXFILESIZE_def BY2PG_def)
  then show ?thesis using assms(1) unat_INDEX2DATA [OF assms(1)] by (simp add: fd_pages(3) unat_word_ariths)
qed

lemma file_range:
  assumes "unat offset + unat n \<le> unat sz" and "sz \<le> MAXFILESIZE" and "k < 32"
  shows "\<not> sz < offset + n" "\<not> sz < offset" "sint n = int (unat n)" "\<not> MAXFILESIZE < offset + n"
    "unat (fd2data (INDEX2FD (int k)) + offset) + unat n < 2 ^ 32"
proof -
  have sz: "unat sz \<le> 4194304" using assms(2) by (simp add: word_le_nat_alt MAXFILESIZE_def BY2PG_def)
  then have u: "unat (offset + n) = unat offset + unat n" using assms(1) by (simp add: unat_word_ariths)
  then show le: "\<not> sz < offset + n" using assms(1) by (simp add: word_less_nat_alt)
  then show "\<not> MAXFILESIZE < offset + n" using assms(2) by order
  show "\<not> sz < offset" using assms(1) by (simp add: word_less_nat_alt)
  have "unat n \<le> 4194304" using assms(1) sz by simp
  then have "int (unat n) < 2147483648" by linarith
  then have "uint n < 2 ^ 31" by simp
  then show "sint n = int (unat n)" using sint_small [of "uint n"] by simp
  have "unat offset \<le> unat MAXFILESIZE" using assms(1) sz by (simp add: MAXFILESIZE_def BY2PG_def)
  from unat_data [OF assms(3) this] show "unat (fd2data (INDEX2FD (int k)) + offset) + unat n < 2 ^ 32"
    using assms(1,3) sz by simp
qed


text \<open>
  One open file of 8 bytes on the normal disk: the descriptor page in frame 7, its data in frame 8, the buffers in
  frame 9.
\<close>

definition one_file :: uworld where
  "one_file = \<lparr>phys = (\<lambda>a. if a = 0x7000 + 148 then 8 else if a = 0x9004 then 65 else 0), updir = (\<lambda>_ _. PTE_V),
     uptab = (\<lambda>_ v. if v = 0x5FC00 then 0x7000 OR PTE_V OR PTE_D else if v = 0x60000 then 0x8000 OR PTE_V OR PTE_D
       else if v = 0x500 then 0x9000 OR PTE_V OR PTE_D else 0),
     procs = {1}, palloc = (\<lambda>n. Some (0x100000 + 4096 * word_of_nat n)), requests = 0\<rparr>"

lemma one_file_addr:
  "INDEX2FD 0 = 0x5FC00000" "fd2data 0x5FC00000 = 0x60000000"
  using fd_pages(3) [of 0] by (simp_all add: fd_defs mmu_defs)

lemma below_two: "(\<forall>i<2. P i) \<longleftrightarrow> P 0 \<and> P (1 :: nat)" "{..<2 :: nat} = {0, 1}"
  by (auto simp: less_2_cases_iff)

lemma one_file_ranges:
  "readable 1 0x500004 2 one_file" "writable 1 0x500100 2 one_file" "writable 1 0x60000002 2 one_file"
  "pas 1 0x500004 2 one_file = {0x9004, 0x9005}" "pas 1 0x500100 2 one_file = {0x9100, 0x9101}"
  "pas 1 0x60000002 2 one_file = {0x8002, 0x8003}"
  by (simp_all add: readable_def writable_def pas_def is_mapped_def one_file_def pa_of_def VPN_div below_two
      inj_on_def pte_valid_def PTE_V_def PTE_D_def PTE_ADDR_def)

lemma one_file_info: "getInfoFromFd 1 0x5FC00000 one_file = Some (8, 0)"
  by (simp add: getInfoFromFd_def getInfoFromFileFd_def ff_defs get32_def is_mapped_def one_file_def VPN_div pa_of_def
      pte_valid_def PTE_V_def PTE_D_def PTE_ADDR_def load_word_def NORMAL_DISK_def)


section \<open>Opening\<close>

text \<open>
  What a client needs of its server: it leaves the client's page tables alone, its answer to an open request is 0 or an
  error, and its answer to a map request comes with a page unless it is an error.
\<close>

definition answers :: "server \<Rightarrow> u32 \<Rightarrow> bool" where
  "answers srv me \<longleftrightarrow> (\<forall>fs type fr w v page w'. srv fs type fr w = Some (v, page, w') \<longrightarrow>
     uptab w' me = uptab w me \<and> updir w' me = updir w me \<and> palloc w' = palloc w
     \<and> (type = FSREQ_OPEN \<longrightarrow> sint v \<le> 0) \<and> (type = FSREQ_MAP \<and> 0 \<le> sint v \<longrightarrow> page \<noteq> None))"

text \<open>No page of the environment goes away and memory does not run out.\<close>

definition grows :: "u32 \<Rightarrow> uworld \<Rightarrow> uworld \<Rightarrow> bool" where
  "grows me w w' \<longleftrightarrow> (\<forall>va. is_mapped me va w \<longrightarrow> is_mapped me va w') \<and> palloc w' = palloc w"

lemma eret_neg: "eret e < 0"
  by (cases e) (simp_all add: eret_def)

lemma grows_refl [simp]: "grows me w w"
  by (simp add: grows_def)

lemma grows_trans: "grows me w u \<Longrightarrow> grows me u v \<Longrightarrow> grows me w v"
  by (simp add: grows_def)

lemma put32_grows: "put32 e va x w = Some w' \<Longrightarrow> grows me w w'"
  by (auto simp: put32_def grows_def split: if_splits)

lemma put_bytes_grows: "put_bytes e va bs w = Some w' \<Longrightarrow> grows me w w'"
proof (induction bs arbitrary: va w)
  case (Cons b bs)
  then obtain u where u: "put e va b w = Some u" "put_bytes e (va + 1) bs u = Some w'" by (auto split: bind_splits)
  from u(1) have "grows me w u" by (auto simp: put_def grows_def split: if_splits)
  with Cons.IH [OF u(2)] show ?case by (metis grows_trans)
qed simp

lemma set_pte_grows: "pte_valid pte \<Longrightarrow> grows me w (set_pte me va pte w)"
  by (auto simp: set_pte_def grows_def is_mapped_def)

lemma ipc_recv_grows:
  assumes "ipc_recv me dstva v page w = (vp, w')"
  shows "grows me w w'" and "page \<noteq> None \<Longrightarrow> \<forall>n. palloc w n \<noteq> None \<Longrightarrow> is_mapped me dstva w'"
proof -
  have "grows me w w' \<and> (page \<noteq> None \<longrightarrow> (\<forall>n. palloc w n \<noteq> None) \<longrightarrow> is_mapped me dstva w')"
  proof (cases page)
    case (Some fp)
    obtain fr perm where fp: "fp = (fr, perm)" by (cases fp)
    have v: "pte_valid (PTE_ADDR fr OR perm OR PTE_V)" by simp
    show ?thesis
    proof (cases "need_table me dstva w")
      case (Pair r u)
      show ?thesis
      proof (cases r)
        case (Inl e)
        then have "w' = u" "grows me w u" "\<not> (\<forall>n. palloc w n \<noteq> None)"
          using Pair assms Some fp by (auto simp: ipc_recv_def need_table_def grows_def is_mapped_def split: if_splits option.splits)
        then show ?thesis by blast
      next
        case (Inr x)
        then have u: "need_table me dstva w = (Inr (), u)" using Pair by simp
        have "grows me w u" using need_table_ok [OF u] by (auto simp: grows_def is_mapped_def)
        moreover have w': "w' = set_pte me dstva (PTE_ADDR fr OR perm OR PTE_V) u" using u assms Some fp by (auto simp: ipc_recv_def)
        moreover have "is_mapped me dstva w'" using need_table_ok(1) [OF u] v by (simp add: w' set_pte_def is_mapped_def)
        ultimately show ?thesis using set_pte_grows [OF v] grows_trans by blast
      qed
    qed
  qed (use assms in \<open>auto simp: ipc_recv_def\<close>)
  then show "grows me w w'" and "page \<noteq> None \<Longrightarrow> \<forall>n. palloc w n \<noteq> None \<Longrightarrow> is_mapped me dstva w'" by auto
qed

lemma fsipc_grows:
  assumes "fsipc srv me type req dstva fs w = Some ((r, perm), w')" and a: "answers srv me"
  shows "grows me w w'" and "type = FSREQ_OPEN \<Longrightarrow> r \<le> 0"
    and "type = FSREQ_MAP \<Longrightarrow> 0 \<le> r \<Longrightarrow> \<forall>n. palloc w n \<noteq> None \<Longrightarrow> is_mapped me dstva w'"
proof -
  obtain fr v page u where s: "srv fs type fr w = Some (v, page, u)" "ipc_recv me dstva v page u = ((v, perm), w')" "r = sint v"
    using assms(1) by (auto simp: fsipc_def ipc_recv_def Let_def split: if_splits bind_splits prod.splits option.splits)
  have u: "uptab u me = uptab w me" "updir u me = updir w me" "palloc u = palloc w"
    and o: "type = FSREQ_OPEN \<longrightarrow> sint v \<le> 0" "type = FSREQ_MAP \<and> 0 \<le> sint v \<longrightarrow> page \<noteq> None"
    using a s(1) unfolding answers_def by blast+
  have "grows me w u" using u by (simp add: grows_def is_mapped_def)
  then show "grows me w w'" using ipc_recv_grows(1) [OF s(2)] grows_trans by blast
  show "type = FSREQ_OPEN \<Longrightarrow> r \<le> 0" using o s(3) by simp
  show "type = FSREQ_MAP \<Longrightarrow> 0 \<le> r \<Longrightarrow> \<forall>n. palloc w n \<noteq> None \<Longrightarrow> is_mapped me dstva w'"
    using ipc_recv_grows(2) [OF s(2)] o s(3) u(3) by simp
qed

lemma fsipc_map_grows:
  assumes "fsipc_map srv me buf fileid off dstva w = Some (r, w')" and a: "answers srv me"
  shows "grows me w w'" and "r = 0 \<Longrightarrow> \<forall>n. palloc w n \<noteq> None \<Longrightarrow> is_mapped me dstva w'"
proof -
  obtain u v r' perm where p: "put32 me buf fileid w = Some u" "put32 me (buf + 4) off u = Some v"
      "fsipc srv me FSREQ_MAP buf dstva (FILEID2FSNO fileid) v = Some ((r', perm), w')" "r' < 0 \<longrightarrow> r = r'"
    using assms(1) by (auto simp: fsipc_map_def split: bind_splits if_splits)
  have g: "grows me w v" using p(1,2) put32_grows grows_trans by blast
  show "grows me w w'" using g fsipc_grows(1) [OF p(3) a] grows_trans by blast
  have "palloc v = palloc w" using g by (simp add: grows_def)
  then show "r = 0 \<Longrightarrow> \<forall>n. palloc w n \<noteq> None \<Longrightarrow> is_mapped me dstva w'"
    using fsipc_grows(3) [OF p(3) a] p(4) by (cases "r' < 0") auto
qed

lemma map_pages_neg:
  assumes "map_pages srv me buf fileid va is w = Some (r, w')" and "answers srv me"
  shows "r \<le> 0"
  using assms(1)
proof (induction "is" arbitrary: w)
  case (Cons i "is")
  then show ?case by (auto simp: fsipc_map_def split: bind_splits if_splits)
qed simp

lemma fsipc_open_grows:
  assumes "fsipc_open srv me buf path mode fd w = Some (r, w')" and a: "answers srv me"
  shows "grows me w w'" and "r \<le> 0"
proof -
  have "grows me w w' \<and> r \<le> 0"
  proof (cases "length path \<ge> MAXPATHLEN")
    case True
    then show ?thesis using assms(1) eret_neg [of E_BAD_PATH] by (auto simp: fsipc_open_def)
  next
    case False
    then obtain u v fs perm where p: "put_bytes me buf (path @ [0]) w = Some u" "put32 me (buf + word_of_nat MAXPATHLEN) mode u = Some v"
        "fsipc srv me FSREQ_OPEN buf fd fs v = Some ((r, perm), w')"
      using assms(1) by (auto simp: fsipc_open_def split: bind_splits)
    have "grows me w v" using put_bytes_grows [OF p(1)] put32_grows [OF p(2)] grows_trans by blast
    then show ?thesis using fsipc_grows(1,2) [OF p(3) a] grows_trans by blast
  qed
  then show "grows me w w'" and "r \<le> 0" by simp_all
qed

lemma map_pages_grows:
  assumes "map_pages srv me buf fileid va is w = Some (0, w')" and a: "answers srv me" and "\<forall>n. palloc w n \<noteq> None"
  shows "grows me w w' \<and> (\<forall>i\<in>set is. is_mapped me (va + i) w')"
  using assms(1,3)
proof (induction "is" arbitrary: w)
  case (Cons i "is")
  then obtain r u where u: "fsipc_map srv me buf fileid i (va + i) w = Some (r, u)" "r = 0"
      "map_pages srv me buf fileid va is u = Some (0, w')"
    by (auto split: bind_splits if_splits)
  note g = fsipc_map_grows [OF u(1) a]
  have "grows me u w' \<and> (\<forall>i\<in>set is. is_mapped me (va + i) w')"
    using Cons.IH [OF u(3)] g(1) Cons.prems(2) by (simp add: grows_def)
  moreover have "is_mapped me (va + i) u" using g(2) u(2) Cons.prems(2) by blast
  ultimately show ?case using g(1) grows_trans by (auto simp: grows_def)
qed simp

lemma page_steps_mem:
  assumes "page_steps 0 sz = Some steps" and "i * 4096 < unat sz"
  shows "word_of_nat i * BY2PG \<in> set steps"
proof -
  have "i < (unat sz + 4095) div 4096" using assms(2) by linarith
  then show ?thesis using assms(1) by (auto simp: page_steps_def Let_def split: if_splits)
qed

text \<open>
  C10 (open_maps_file). When \<open>open\<close> returns a descriptor, it is the one \<open>fd_alloc\<close> chose, the server accepted the
  request to open the path, and every page of the file, up to the size in the descriptor, is mapped from \<open>fd2data\<close> on, so
  that \<open>file_read\<close> finds it; pages mapped before stay mapped. The kernel must not run out of frames for page
  tables, since it delivers a message without its page then.
\<close>

theorem open_maps_file:
  assumes "open_path srv me buf path mode w = Some (r, w')" and "0 \<le> r" and a: "answers srv me"
    and mem: "\<forall>n. palloc w n \<noteq> None"
  shows "\<exists>fd w1 sz fileid. fd_alloc me w = Inr fd \<and> r = fd2num fd \<and> fsipc_open srv me buf path mode fd w = Some (0, w1)
    \<and> getInfoFromFd me fd w1 = Some (sz, fileid)
    \<and> (\<forall>i. i * 4096 < unat sz \<longrightarrow> is_mapped me (fd2data fd + word_of_nat i * BY2PG) w')
    \<and> (\<forall>va. is_mapped me va w \<longrightarrow> is_mapped me va w')"
proof -
  obtain fd where fd: "fd_alloc me w = Inr fd"
    using assms(1,2) eret_neg by (cases "fd_alloc me w") (auto simp: open_path_def not_less [symmetric])
  obtain r1 w1 where o: "fsipc_open srv me buf path mode fd w = Some (r1, w1)"
    using assms(1) fd by (auto simp: open_path_def split: bind_splits)
  have r1: "r1 = 0" using fsipc_open_grows(2) [OF o a] assms(1,2) fd o by (auto simp: open_path_def split: if_splits)
  obtain sz fileid steps r2 where i: "getInfoFromFd me fd w1 = Some (sz, fileid)" "page_steps 0 sz = Some steps"
      "map_pages srv me buf fileid (fd2data fd) steps w1 = Some (r2, w')" "r = (if r2 \<noteq> 0 then r2 else fd2num fd)"
    using assms(1) fd o r1 by (auto simp: open_path_def split: bind_splits if_splits)
  have "r2 \<le> 0" using map_pages_neg [OF i(3) a] .
  then have r2: "r2 = 0" "r = fd2num fd" using i(4) assms(2) by (auto split: if_splits)
  have g1: "grows me w w1" using fsipc_open_grows(1) [OF o a] .
  then have "grows me w1 w' \<and> (\<forall>i\<in>set steps. is_mapped me (fd2data fd + i) w')"
    using map_pages_grows [OF _ a] i(3) r2(1) mem by (simp add: grows_def)
  then show ?thesis
    using fd r2(2) o r1 i(1) page_steps_mem [OF i(2)] grows_trans [OF g1] unfolding grows_def by blast
qed

text \<open>A server with one file of 4097 bytes, whose descriptor is frame 7 and whose contents are frame 16.\<close>

definition small_server :: server where
  "small_server fs type fr w = (
     if type = FSREQ_OPEN then Some (0, Some (0x7000, PTE_D OR PTE_LIBRARY), w)
     else if type = FSREQ_MAP then Some (0, Some (0x10000, PTE_D OR PTE_LIBRARY), w)
     else Some (0, None, w))"

lemma small_server_answers: "answers small_server me"
  by (auto simp: answers_def small_server_def FSREQ_OPEN_def FSREQ_MAP_def split: if_splits)

definition client_at :: "bmem \<Rightarrow> (nat \<Rightarrow> u32) \<Rightarrow> uworld" where
  "client_at m t = \<lparr>phys = m, updir = (\<lambda>_ _. PTE_V), uptab = (\<lambda>e. if e = 1 then t else (\<lambda>_. 0)), procs = {1},
     palloc = (\<lambda>n. Some (0x100000 + 4096 * word_of_nat n)), requests = 0\<rparr>"

definition client :: uworld where
  "client = client_at (\<lambda>a. if a = 0x7094 then 1 else if a = 0x7095 then 16 else 0) (\<lambda>v. if v = 0x500 then 0x9600 else 0)"

lemma client_at_simps [simp]:
  "uptab (client_at m t) 1 = t" "is_mapped 1 va (client_at m t) \<longleftrightarrow> pte_valid (t (VPN va))" "need_table 1 va (client_at m t) = (Inr (), client_at m t)"
  "set_pte 1 va pte (client_at m t) = client_at m (t(VPN va := pte))"
  "pa_of 1 va (client_at m t) = PTE_ADDR (t (VPN va)) OR (va AND 0xFFF)" "phys (client_at m t) = m"
  "(client_at m t)\<lparr>phys := m'\<rparr> = client_at m' t"
  by (auto simp: client_at_def is_mapped_def need_table_def set_pte_def pa_of_def pte_valid_def PTE_V_def)

lemma client_writes:
  "t (VPN va) = 0x9600 \<Longrightarrow> put 1 va b (client_at m t) = Some (client_at (m(0x9000 OR (va AND 0xFFF) := b)) t)"
  "t (VPN va) = 0x9600 \<Longrightarrow> va AND 3 = 0 \<Longrightarrow> put32 1 va x (client_at m t) = Some (client_at (store_word (0x9000 OR (va AND 0xFFF)) x m) t)"
  by (simp_all add: put_def put32_def pte_valid_def PTE_V_def PTE_D_def PTE_ADDR_def)

lemma client_alloc: "fd_alloc 1 client = Inr 0x5FC00000"
  by (simp add: fd_alloc_def MAXFD_def upto_rec1 [of 0] one_file_addr client_def pte_valid_def PTE_V_def mmu_defs)

lemmas client_eval = client_writes VPN_div getFsNumber_def fsipc_def ipc_send_def illegal_va_def mmu_defs small_server_def
  pte_valid_def ipc_recv_def MAXPATHLEN_def ROOTDIR_NAMELEN_def NORMAL_FS_NUMBER_def FAT32_FS_NUMBER_def PTE_ADDR_def

definition opened :: uworld where
  "opened = client_at (store_word 0x9400 0 ((phys client)(0x9000 := 47, 0x9001 := 114, 0x9002 := 111, 0x9003 := 111, 0x9004 := 116, 0x9005 := 49,
     0x9006 := 47, 0x9007 := 97, 0x9008 := 0))) ((\<lambda>v. if v = 0x500 then 0x9600 else 0)(0x5FC00 := 0x7604))"

lemma client_opened: "fsipc_open small_server 1 0x500000 [47, 114, 111, 111, 116, 49, 47, 97] 0 0x5FC00000 client = Some (0, opened)"
  by (simp add: fsipc_open_def client_eval client_def opened_def)

lemma opened_info: "getInfoFromFd 1 0x5FC00000 opened = Some (4097, 0)"
  by (simp add: opened_def client_def getInfoFromFd_def getInfoFromFileFd_def ff_defs get32_def load_word_def store_word_def
      NORMAL_DISK_def client_eval)

lemma opened_maps: "map_option fst (map_pages small_server 1 0x500000 0 0x60000000 [0, 0x1000] opened) = Some 0"
  by (simp add: opened_def client_def fsipc_map_def client_eval FILEID2FSNO_def FSREQ_MAP_def FSREQ_OPEN_def PTE_LIBRARY_def)

lemma client_opens: "map_option fst (open_path small_server 1 0x500000 [47, 114, 111, 111, 116, 49, 47, 97] 0 client) = Some 0"
proof -
  have "page_steps 0 4097 = Some [0, 0x1000]" by (simp add: page_steps_def upt_rec BY2PG_def)
  moreover obtain w' where "map_pages small_server 1 0x500000 0 0x60000000 [0, 0x1000] opened = Some (0, w')" using opened_maps by auto
  moreover have "fd2num 0x5FC00000 = 0" using fd2num_INDEX2FD [of 0] by (simp add: one_file_addr)
  ultimately show ?thesis by (simp add: open_path_def client_alloc client_opened opened_info one_file_addr Let_def del: map_pages.simps)
qed

theorem open_maps_file_witness:
  "\<exists>w'. open_path small_server 1 0x500000 [47, 114, 111, 111, 116, 49, 47, 97] 0 client = Some (0, w')
    \<and> (\<exists>fd w1 sz fileid. fd_alloc 1 client = Inr fd \<and> 0 = fd2num fd
      \<and> fsipc_open small_server 1 0x500000 [47, 114, 111, 111, 116, 49, 47, 97] 0 fd client = Some (0, w1)
      \<and> getInfoFromFd 1 fd w1 = Some (sz, fileid)
      \<and> (\<forall>i. i * 4096 < unat sz \<longrightarrow> is_mapped 1 (fd2data fd + word_of_nat i * BY2PG) w')
      \<and> (\<forall>va. is_mapped 1 va client \<longrightarrow> is_mapped 1 va w'))"
proof -
  from client_opens obtain w' where w': "open_path small_server 1 0x500000 [47, 114, 111, 111, 116, 49, 47, 97] 0 client = Some (0, w')"
    by auto
  have "\<forall>n. palloc client n \<noteq> None" by (simp add: client_def client_at_def)
  from open_maps_file [OF w' order_refl small_server_answers this] show ?thesis using w' by blast
qed

section \<open>The size of a file\<close>

text \<open>A string of \<open>n\<close> bytes before the terminator.\<close>

definition ustring :: "u32 \<Rightarrow> u32 \<Rightarrow> nat \<Rightarrow> uworld \<Rightarrow> bool" where
  "ustring me src n w \<longleftrightarrow> readable me src (Suc n) w \<and> (\<forall>i<n. phys w (pa_of me (src + word_of_nat i) w) \<noteq> 0)
     \<and> phys w (pa_of me (src + word_of_nat n) w) = 0"

lemma u_strcpy_copy_up:
  assumes "ustring me src n w" and "writable me dst (Suc n) w" and "pas me src (Suc n) w \<inter> pas me dst (Suc n) w = {}"
  shows "u_strcpy me dst src w = copy_up me dst src (Suc n) w"
  using assms
proof (induction n arbitrary: dst src w)
  case 0
  then show ?case by (subst u_strcpy.simps) (auto simp: view_def ustring_def readable_def split: bind_splits)
next
  case (Suc n)
  define w1 where "w1 = w\<lparr>phys := (phys w)(pa_of me dst w := phys w (pa_of me src w))\<rparr>"
  have m: "is_mapped me src w" "phys w (pa_of me src w) \<noteq> 0" using Suc.prems(1) by (auto simp: ustring_def readable_def)
  have p: "put me dst (phys w (pa_of me src w)) w = Some w1" using Suc.prems(2) by (auto simp: put_def w1_def writable_def readable_def)
  have ne: "pa_of me (src + 1 + word_of_nat i) w \<noteq> pa_of me dst w" if "i < Suc n" for i
    using Suc.prems(3) pas_first [of me dst w "Suc n"] pas_mem [of "Suc i" "Suc (Suc n)" me src w] that
    by (simp add: add.assoc) (metis disjoint_iff)
  have "ustring me (src + 1) n w1"
    using Suc.prems(1) shift_range(2) [of me src "Suc n" w] ne unfolding ustring_def w1_def by (auto simp: add.assoc)
  moreover have "writable me (dst + 1) (Suc n) w1" using shift_range(3) [OF Suc.prems(2)] by (simp add: w1_def)
  moreover have "pas me (src + 1) (Suc n) w1 \<inter> pas me (dst + 1) (Suc n) w1 = {}"
    using Suc.prems(3) shift_range(1) [of me src "Suc n" w] shift_range(1) [of me dst "Suc n" w] by (auto simp: w1_def)
  ultimately have "u_strcpy me (dst + 1) (src + 1) w1 = copy_up me (dst + 1) (src + 1) (Suc n) w1" by (rule Suc.IH)
  then show ?case using m p by (subst u_strcpy.simps) (simp add: view_def)
qed

lemma range_prefix:
  "pas me va n w \<subseteq> pas me va (n + m) w" "writable me va (n + m) w \<Longrightarrow> writable me va n w"
  by (auto simp: pas_def writable_def readable_def inj_on_def)

lemma frame_pas:
  assumes "writable me st n w" "i < n"
  shows "PTE_ADDR (uptab w me (VPN (st + word_of_nat i))) \<in> PTE_ADDR ` pas me st n w" "uptab w me (VPN (st + word_of_nat i)) AND PTE_D \<noteq> 0"
    "is_mapped me (st + word_of_nat i) w"
proof -
  have "PTE_ADDR (pa_of me (st + word_of_nat i) w) = PTE_ADDR (uptab w me (VPN (st + word_of_nat i)))" by (simp add: pa_of_def)
  then show "PTE_ADDR (uptab w me (VPN (st + word_of_nat i))) \<in> PTE_ADDR ` pas me st n w" using pas_mem [OF assms(2)] by (metis imageI)
qed (use assms in \<open>auto simp: writable_def readable_def\<close>)

lemma same_page_mapped: "VPN va = VPN va' \<Longrightarrow> is_mapped me va w \<longleftrightarrow> is_mapped me va' w"
  unfolding is_mapped_def by (metis VPN_eq_iff)

lemma aligned_iff: "(a :: u32) AND 3 = 0 \<longleftrightarrow> unat a mod 4 = 0"
proof -
  have m: "(3 :: u32) = mask 2" by (simp add: mask_eq_exp_minus_1)
  show ?thesis unfolding m take_bit_eq_mask [symmetric] word_unat_eq_iff by (simp add: unat_take)
qed

lemma aligned_add: "(a :: u32) AND 3 = 0 \<Longrightarrow> b AND 3 = 0 \<Longrightarrow> (a + b) AND 3 = 0"
  by (simp add: aligned_iff unat_word_ariths mod_mod_cancel mod_eq_0_iff_dvd)

lemma offsets_distinct: "(st + 128 :: u32) AND 0xFFF \<noteq> (st + 132) AND 0xFFF"
proof
  assume "(st + 128 :: u32) AND 0xFFF = (st + 132) AND 0xFFF"
  moreover have "(0xFFF :: u32) = mask 12" by (simp add: mask_eq_exp_minus_1)
  ultimately have "take_bit 12 (st + 128) = (take_bit 12 (st + 132) :: u32)" by (simp add: take_bit_eq_mask)
  then have "unat (st + 128) mod 4096 = unat (st + 132) mod 4096" unfolding word_unat_eq_iff by (simp add: unat_take)
  then have "(unat st + 128) mod 4096 = (unat st + 132) mod 4096" by (simp add: unat_word_ariths mod_mod_cancel)
  then have "4096 dvd (unat st + 132) - (unat st + 128)" by (subst mod_eq_dvd_iff_nat [symmetric]) simp_all
  then show False by simp
qed

lemma pa_aligned: "va AND 3 = 0 \<Longrightarrow> pa_of me va w AND 3 = 0"
proof -
  assume "va AND 3 = 0"
  moreover have "(pa_of me va w AND 0xFFF) AND 3 = (va AND 0xFFF) AND 3" by (simp add: pa_of_def)
  ultimately show ?thesis by (simp add: and.assoc)
qed

lemma name_apart:
  assumes page: "\<And>j. j < 4096 \<Longrightarrow> VPN (fd + word_of_nat j) = VPN fd" and n: "n < 128"
    and sub: "pas me st (Suc n) w \<subseteq> pas me st 140 w" and sep: "PTE_ADDR (uptab w me (VPN fd)) \<notin> PTE_ADDR ` pas me st 140 w"
  shows "pas me (ff_name fd) (Suc n) w \<inter> pas me st (Suc n) w = {}"
proof -
  have fr: "PTE_ADDR a = PTE_ADDR (uptab w me (VPN fd))" if a: "a \<in> pas me (ff_name fd) (Suc n) w" for a
  proof -
    obtain i where i: "i < Suc n" "a = pa_of me (fd + word_of_nat (20 + i)) w" 
      using a unfolding pas_def ff_defs by (auto simp: add.assoc)
    then have "VPN (fd + word_of_nat (20 + i)) = VPN fd" using n by (intro page) simp
    then show ?thesis unfolding i(2) pa_of_def by simp
  qed
  show "pas me (ff_name fd) (Suc n) w \<inter> pas me st (Suc n) w = {}"
  proof (intro equals0I)
    fix a
    assume f: "a \<in> pas me (ff_name fd) (Suc n) w \<inter> pas me st (Suc n) w"
    then have "PTE_ADDR a \<in> PTE_ADDR ` pas me st 140 w" using sub by blast
    then show False using f fr sep by simp
  qed
qed

text \<open>
  Lemma (stat_reads_other_layout). For a file on the normal disk \<open>file_stat\<close> succeeds but stores as size the word at the
  offset of the size of a FAT directory entry, which is the four bytes of the name from 28 on; the
  size of the file, at another offset, has no influence. For a name shorter than 28 bytes, padded with zeros, the size is 0.
\<close>

theorem stat_reads_other_layout:
  assumes k: "k < 32" and fd: "fd = INDEX2FD (int k)"
    and disk: "get32 me (ff_disktype fd) w = Some NORMAL_DISK" and x: "get32 me (fat_size fd) w = Some x"
    and name: "ustring me (ff_name fd) n w" "n < 128"
    and st: "writable me st 140 w" "st AND 3 = 0"
    and sep: "PTE_ADDR (uptab w me (VPN fd)) \<notin> PTE_ADDR ` pas me st 140 w"
  shows "\<exists>w'. file_stat me fd st w = Some (0, w') \<and> get32 me (st + 128) w' = Some x"
proof -
  have page: "VPN (fd + word_of_nat j) = VPN fd" if "j < 4096" for j unfolding fd using fd_fields_page [OF k that] .
  have wr: "writable me st (Suc n) w" using range_prefix(2) [of me st "Suc n" "139 - n" w] st(1) name(2) by simp
  have sub: "pas me st (Suc n) w \<subseteq> pas me st 140 w" using range_prefix(1) [of me st "Suc n" w "139 - n"] name(2) by simp
  note d = name_apart [OF page name(2) sub sep]
  from copy_up_ok [OF _ wr d] name(1) obtain m where
    m: "copy_up me st (ff_name fd) (Suc n) w = Some (w\<lparr>phys := m\<rparr>)" "\<forall>a. a \<notin> pas me st (Suc n) w \<longrightarrow> m a = phys w a"
    by (auto simp: ustring_def)
  have "m a = phys w a" if "PTE_ADDR a = PTE_ADDR (uptab w me (VPN fd))" for a using that sep sub m(2) by (metis imageI subsetD)
  then have gx: "get32 me (fat_size fd) (w\<lparr>phys := m\<rparr>) = Some x"
    using x page [of 48] get32_frame [of w me "fat_size fd" m] by (simp add: ff_defs add.assoc)
  have attr: "is_mapped me (fat_attr fd) w"
    using x page [of 48] page [of 31] same_page_mapped [of "fat_attr fd" "fat_size fd" me w] by (auto simp: get32_def ff_defs add.assoc split: if_splits)
  have al: "(st + 128) AND 3 = 0" "(st + 132) AND 3 = 0" using aligned_add [OF st(2)] by simp_all
  have f: "is_mapped me (st + 128) w" "is_mapped me (st + 132) w"
      "uptab w me (VPN (st + 128)) AND PTE_D \<noteq> 0" "uptab w me (VPN (st + 132)) AND PTE_D \<noteq> 0"
    using frame_pas(2,3) [OF st(1), of 128] frame_pas(2,3) [OF st(1), of 132] by simp_all
  let ?m = "store_word (pa_of me (st + 128) w) x m"
  have ne: "pa_of me (st + 128) w \<noteq> pa_of me (st + 132) w" using offsets_distinct [of st] by (simp add: pa_of_def pa_eq_iff)
  obtain y where "file_stat me fd st w = Some (0, w\<lparr>phys := store_word (pa_of me (st + 132) w) y ?m\<rparr>)"
    using disk m(1) gx attr f al u_strcpy_copy_up [OF name(1) wr d]
    by (simp add: file_stat_def getStatFromFd_def put32_def view_def del: copy_up.simps)
  moreover have "get32 me (st + 128) (w\<lparr>phys := store_word (pa_of me (st + 132) w) y ?m\<rparr>) = Some x" for y
    using f(1) al load_store_other [OF pa_aligned pa_aligned ne] by (simp add: get32_def load_store_same)
  ultimately show ?thesis by blast
qed

theorem stat_reads_other_layout_witness:
  "get32 1 (ff_size 0x5FC00000) one_file = Some 8
    \<and> (\<exists>w'. file_stat 1 0x5FC00000 0x500000 one_file = Some (0, w') \<and> get32 1 (0x500000 + 128) w' = Some 0)"
proof
  show "get32 1 (ff_size 0x5FC00000) one_file = Some 8"
    by (simp add: ff_defs get32_def is_mapped_def one_file_def VPN_div pa_of_def pte_valid_def PTE_V_def PTE_D_def PTE_ADDR_def load_word_def)
  have pg: "VPN (0x500000 + word_of_nat i) = 0x500" if "i < 140" for i
  proof -
    have "unat (0x500000 + word_of_nat i :: u32) = 0x500000 + i" using that by (simp add: unat_word_ariths unat_of_nat)
    then show ?thesis using that by (simp add: VPN_div)
  qed
  show "\<exists>w'. file_stat 1 0x5FC00000 0x500000 one_file = Some (0, w') \<and> get32 1 (0x500000 + 128) w' = Some 0"
  proof (rule stat_reads_other_layout [of 0 _ _ _ _ 0])
    have "inj_on (\<lambda>i. pa_of 1 (0x500000 + word_of_nat i) one_file) {..<140}"
    proof (rule inj_onI)
      fix i j :: nat
      assume ij: "i \<in> {..<140}" "j \<in> {..<140}" and "pa_of 1 (0x500000 + word_of_nat i) one_file = pa_of 1 (0x500000 + word_of_nat j) one_file"
      then have "(0x500000 + word_of_nat i) AND 0xFFF = (0x500000 + word_of_nat j) AND (0xFFF :: u32)" by (simp add: pa_of_def pa_eq_iff)
      then have "(word_of_nat i :: u32) = word_of_nat j"
        using ij pg addr_eq_iff [of "0x500000 + word_of_nat i" "0x500000 + word_of_nat j"] by simp
      then have "unat (word_of_nat i :: u32) = unat (word_of_nat j :: u32)" by simp
      then show "i = j" using ij by (simp add: unat_of_nat)
    qed
    then show "writable 1 0x500000 140 one_file"
      using pg by (auto simp: writable_def readable_def is_mapped_def one_file_def pte_valid_def PTE_V_def PTE_D_def)
    show "PTE_ADDR (uptab one_file 1 (VPN 0x5FC00000)) \<notin> PTE_ADDR ` pas 1 0x500000 140 one_file"
      using pg by (auto simp: pas_def pa_of_def one_file_def VPN_div PTE_V_def PTE_D_def image_iff PTE_ADDR_or) (simp add: PTE_ADDR_def)
  qed (simp_all add: one_file_addr ff_defs get32_def is_mapped_def one_file_def VPN_div pa_of_def pte_valid_def PTE_V_def PTE_D_def
      PTE_ADDR_def load_word_def NORMAL_DISK_def ustring_def readable_def)
qed

end
