(* ===== verification/Elf.thy ===== *)
theory Elf
  imports Strings Mmu
begin

text \<open>
  The ELF loader, \<open>lib/elfloader.c\<close> with the headers of \<open>include/elf.h\<close>. An image is a map from
  offsets to bytes. \<open>elf_load_seg\<close> is parameterised by the callback that maps one page, as the code
  is: the kernel passes \<open>load_icode_mapper\<close>, the user-level \<open>spawn\<close> its own mapper. The callback gets
  the offset of the source in the image, or \<open>None\<close> for the null pointer, and works on a state of any
  type; it may panic (\<open>None\<close>) or return an error code.

  The lemmas show that loading a segment is a fixed sequence of callback invocations, that for a
  page-aligned segment these cover each page of the segment once, and when they do not.
\<close>

section \<open>Definitions\<close>

definition load_half :: "bmem \<Rightarrow> u32 \<Rightarrow> u16" where
  "load_half m a = ucast (m a) OR push_bit 8 (ucast (m (a + 1)))"

record Elf32_Ehdr =
  e_type :: u16
  e_entry :: u32
  e_phoff :: u32
  e_phentsize :: u16
  e_phnum :: u16

record Elf32_Phdr =
  p_type :: u32
  p_offset :: u32
  p_vaddr :: u32
  p_filesz :: u32
  p_memsz :: u32
  p_flags :: u32

definition PT_LOAD :: u32 where "PT_LOAD = 1"
definition PF_W :: u32 where "PF_W = 2"
definition SIZEOF_EHDR :: u32 where "SIZEOF_EHDR = 52"

definition ehdr_at :: "bmem \<Rightarrow> u32 \<Rightarrow> Elf32_Ehdr" where
  "ehdr_at m b = \<lparr>e_type = load_half m (b + 16), e_entry = load_word m (b + 24), e_phoff = load_word m (b + 28),
     e_phentsize = load_half m (b + 42), e_phnum = load_half m (b + 44)\<rparr>"

definition phdr_at :: "bmem \<Rightarrow> u32 \<Rightarrow> Elf32_Phdr" where
  "phdr_at m b = \<lparr>p_type = load_word m b, p_offset = load_word m (b + 4), p_vaddr = load_word m (b + 8),
     p_filesz = load_word m (b + 16), p_memsz = load_word m (b + 20), p_flags = load_word m (b + 24)\<rparr>"

definition elf_from :: "bmem \<Rightarrow> u32 \<Rightarrow> Elf32_Ehdr option" where
  "elf_from binary sz = (
     let ehdr = ehdr_at binary 0
     in if sz \<ge> SIZEOF_EHDR \<and> binary 0 = 0x7F \<and> binary 1 = 0x45 \<and> binary 2 = 0x4C \<and> binary 3 = 0x46
           \<and> e_type ehdr = 2
        then Some ehdr else None)"

text \<open>The offsets of the program headers, \<open>ELF_FOREACH_PHDR_OFF\<close>.\<close>

definition phdr_offs :: "Elf32_Ehdr \<Rightarrow> u32 list" where
  "phdr_offs ehdr = map (\<lambda>i. e_phoff ehdr + word_of_nat i * ucast (e_phentsize ehdr)) [0..<unat (e_phnum ehdr)]"

text \<open>A callback: address, offset in the page, permissions, source, number of bytes.\<close>

type_synonym 's elf_mapper =
  "u32 \<Rightarrow> u32 \<Rightarrow> u32 \<Rightarrow> u32 option \<Rightarrow> u32 \<Rightarrow> 's \<Rightarrow> ((err + unit) \<times> 's) option"

definition MIN_u32 :: "u32 \<Rightarrow> u32 \<Rightarrow> u32" where
  "MIN_u32 a b = (if a \<le> b then a else b)"

text \<open>The two loops; \<open>Inr i\<close> is the value of the counter at the end.\<close>

partial_function (option) load_bin ::
  "'s elf_mapper \<Rightarrow> u32 \<Rightarrow> u32 \<Rightarrow> u32 \<Rightarrow> u32 \<Rightarrow> u32 \<Rightarrow> 's \<Rightarrow> ((err + u32) \<times> 's) option"
where
  "load_bin map_page va bin_size perm bin i s =
     (if i < bin_size then
        Option.bind (map_page (va + i) 0 perm (Some (bin + i)) (MIN_u32 (bin_size - i) BY2PG) s)
          (\<lambda>(r, s). case r of
             Inl e \<Rightarrow> Some (Inl e, s)
           | Inr _ \<Rightarrow> load_bin map_page va bin_size perm bin (i + BY2PG) s)
      else Some (Inr i, s))"

partial_function (option) load_bss ::
  "'s elf_mapper \<Rightarrow> u32 \<Rightarrow> u32 \<Rightarrow> u32 \<Rightarrow> u32 \<Rightarrow> u32 \<Rightarrow> 's \<Rightarrow> ((err + unit) \<times> 's) option"
where
  "load_bss map_page va bin_size sgsize perm i s =
     (if i < sgsize then
        Option.bind (map_page (va + i) 0 perm None (MIN_u32 (bin_size - i) BY2PG) s)
          (\<lambda>(r, s). case r of
             Inl e \<Rightarrow> Some (Inl e, s)
           | Inr _ \<Rightarrow> load_bss map_page va bin_size sgsize perm (i + BY2PG) s)
      else Some (Inr (), s))"

definition elf_load_seg ::
  "Elf32_Phdr \<Rightarrow> u32 \<Rightarrow> 's elf_mapper \<Rightarrow> 's \<Rightarrow> ((err + unit) \<times> 's) option"
where
  "elf_load_seg ph bin map_page s = do {
     let va = p_vaddr ph;
     let bin_size = p_filesz ph;
     let sgsize = p_memsz ph;
     let perm = (if p_flags ph AND PF_W \<noteq> 0 then PTE_V OR PTE_D else PTE_V);
     let offset = va - ROUNDDOWN va BY2PG;
     (r, s) \<leftarrow> (if offset \<noteq> 0 then map_page va offset perm (Some bin) (MIN_u32 bin_size (BY2PG - offset)) s
               else Some (Inr (), s));
     (case r of
        Inl e \<Rightarrow> Some (Inl e, s)
      | Inr _ \<Rightarrow> do {
          (r, s) \<leftarrow> load_bin map_page va bin_size perm bin
                     (if offset \<noteq> 0 then MIN_u32 bin_size (BY2PG - offset) else 0) s;
          (case r of
             Inl e \<Rightarrow> Some (Inl e, s)
           | Inr i \<Rightarrow> load_bss map_page va bin_size sgsize perm i s)
        })
   }"

section \<open>Loading as a sequence of callbacks\<close>

type_synonym map_call = "u32 \<times> u32 \<times> u32 \<times> u32 option \<times> u32"

primrec run_calls :: "'s elf_mapper \<Rightarrow> map_call list \<Rightarrow> 's \<Rightarrow> ((err + unit) \<times> 's) option" where
  "run_calls f [] s = Some (Inr (), s)"
| "run_calls f (c # cs) s = (case c of (va, offset, perm, src, len) \<Rightarrow>
     Option.bind (f va offset perm src len s)
       (\<lambda>(r, s). case r of Inl e \<Rightarrow> Some (Inl e, s) | Inr _ \<Rightarrow> run_calls f cs s))"

text \<open>The offsets from \<open>i\<close> in steps of a page below \<open>lim\<close>, and the first one that is not below.\<close>

function page_offs :: "nat \<Rightarrow> nat \<Rightarrow> nat list" where
  "page_offs i lim = (if i < lim then i # page_offs (i + 4096) lim else [])"
  by pat_completeness auto
termination by (relation "measure (\<lambda>(i, lim). lim - i)") auto

declare page_offs.simps [simp del]

definition next_off :: "nat \<Rightarrow> nat \<Rightarrow> nat" where
  "next_off i lim = i + 4096 * length (page_offs i lim)"

definition seg_calls :: "Elf32_Phdr \<Rightarrow> u32 \<Rightarrow> map_call list" where
  "seg_calls ph bin = (
     let va = p_vaddr ph; fsz = unat (p_filesz ph); msz = unat (p_memsz ph);
         perm = (if p_flags ph AND PF_W \<noteq> 0 then PTE_V OR PTE_D else PTE_V);
         off = unat va mod 4096;
         first = (if off = 0 then 0 else min fsz (4096 - off))
     in (if off = 0 then [] else [(va, word_of_nat off, perm, Some bin, word_of_nat first)])
        @ map (\<lambda>i. (va + word_of_nat i, 0, perm, Some (bin + word_of_nat i), word_of_nat (min (fsz - i) 4096)))
            (page_offs first fsz)
        @ map (\<lambda>i. (va + word_of_nat i, 0, perm, None, MIN_u32 (p_filesz ph - word_of_nat i) BY2PG))
            (page_offs (next_off first fsz) msz))"

lemma run_calls_append:
  "run_calls f (xs @ ys) s = Option.bind (run_calls f xs s)
     (\<lambda>(r, s). case r of Inl e \<Rightarrow> Some (Inl e, s) | Inr _ \<Rightarrow> run_calls f ys s)"
proof (induction xs arbitrary: s)
  case (Cons c cs)
  obtain va off perm src len where c: "c = (va, off, perm, src, len)" by (cases c) auto
  show ?case
  proof (cases "f va off perm src len s")
    case (Some p)
    then show ?thesis by (cases p; cases "fst p") (simp_all add: c Cons.IH)
  qed (simp add: c)
qed simp

lemma next_off_step: "i < lim \<Longrightarrow> next_off i lim = next_off (i + 4096) lim"
  by (simp add: next_off_def page_offs.simps [of i])

lemma next_off_done: "\<not> i < lim \<Longrightarrow> next_off i lim = i"
  by (simp add: next_off_def page_offs.simps [of i])

lemma next_off_bound: "i \<le> lim + 4096 \<Longrightarrow> next_off i lim \<le> lim + 4096"
proof (induction i lim rule: page_offs.induct)
  case (1 i lim)
  show ?case
  proof (cases "i < lim")
    case True
    then show ?thesis using 1 by (simp add: next_off_step)
  next
    case False
    then show ?thesis using 1 by (simp add: next_off_done)
  qed
qed

lemma MIN_sub:
  "i \<le> fsz \<Longrightarrow> fsz < 2 ^ 32 \<Longrightarrow> MIN_u32 (word_of_nat fsz - word_of_nat i) BY2PG = word_of_nat (min (fsz - i) 4096)"
proof -
  assume a: "i \<le> fsz" "fsz < 2 ^ 32"
  then have e: "word_of_nat fsz - word_of_nat i = (word_of_nat (fsz - i) :: u32)" by (simp add: of_nat_diff)
  have "unat (word_of_nat (fsz - i) :: u32) = fsz - i"
    using a by (simp add: unat_of_nat del: of_nat_diff)
  then show ?thesis
    unfolding e MIN_u32_def by (auto simp: BY2PG_def word_le_nat_alt min_def)
qed

lemma page_step: "word_of_nat i + BY2PG = (word_of_nat (i + 4096) :: u32)"
  by (simp add: BY2PG_def)

lemma load_bin_calls:
  assumes "fsz + 4096 < 2 ^ 32" and "i \<le> fsz + 4096"
  shows "load_bin f va (word_of_nat fsz) perm bin (word_of_nat i) s = Option.bind
    (run_calls f (map (\<lambda>i. (va + word_of_nat i, 0, perm, Some (bin + word_of_nat i), word_of_nat (min (fsz - i) 4096)))
       (page_offs i fsz)) s)
    (\<lambda>(r, s). case r of Inl e \<Rightarrow> Some (Inl e, s) | Inr _ \<Rightarrow> Some (Inr (word_of_nat (next_off i fsz)), s))"
  using assms(2)
proof (induction "fsz - i" arbitrary: i s rule: less_induct)
  case less
  have lt: "(word_of_nat i :: u32) < word_of_nat fsz \<longleftrightarrow> i < fsz"
    using assms(1) less.prems by (simp add: word_less_nat_alt unat_of_nat)
  show ?case
  proof (cases "i < fsz")
    case True
    let ?call = "f (va + word_of_nat i) 0 perm (Some (bin + word_of_nat i)) (word_of_nat (min (fsz - i) 4096))"
    have IH: "load_bin f va (word_of_nat fsz) perm bin (word_of_nat (i + 4096)) s = Option.bind
      (run_calls f (map (\<lambda>i. (va + word_of_nat i, 0, perm, Some (bin + word_of_nat i), word_of_nat (min (fsz - i) 4096)))
        (page_offs (i + 4096) fsz)) s)
      (\<lambda>(r, s). case r of Inl e \<Rightarrow> Some (Inl e, s) | Inr _ \<Rightarrow> Some (Inr (word_of_nat (next_off (i + 4096) fsz)), s))"
      for s using True by (intro less.hyps) simp_all
    have "load_bin f va (word_of_nat fsz) perm bin (word_of_nat i) s = Option.bind (?call s)
       (\<lambda>(r, s). case r of Inl e \<Rightarrow> Some (Inl e, s)
         | Inr _ \<Rightarrow> load_bin f va (word_of_nat fsz) perm bin (word_of_nat (i + 4096)) s)"
      unfolding load_bin.simps [of f va "word_of_nat fsz" perm bin "word_of_nat i"] page_step
      using True lt MIN_sub [of i fsz] assms(1) by simp
    also have "\<dots> = Option.bind (?call s)
       (\<lambda>(r, s). case r of Inl e \<Rightarrow> Some (Inl e, s)
         | Inr _ \<Rightarrow> Option.bind
    (run_calls f (map (\<lambda>i. (va + word_of_nat i, 0, perm, Some (bin + word_of_nat i), word_of_nat (min (fsz - i) 4096)))
       (page_offs (i + 4096) fsz)) s)
    (\<lambda>(r, s). case r of Inl e \<Rightarrow> Some (Inl e, s) | Inr _ \<Rightarrow> Some (Inr (word_of_nat (next_off (i + 4096) fsz)), s)))"
      unfolding IH ..
    finally show ?thesis
      unfolding next_off_step [OF True]
      using True page_offs.simps [of i fsz]
      by (cases "?call s") (auto split: sum.splits)
  next
    case False
    then show ?thesis using lt by (simp add: load_bin.simps page_offs.simps [of i] next_off_done)
  qed
qed

lemma load_bss_calls:
  assumes "msz + 4096 < 2 ^ 32" and "i < 2 ^ 32"
  shows "load_bss f va bsz (word_of_nat msz) perm (word_of_nat i) s
    = run_calls f (map (\<lambda>i. (va + word_of_nat i, 0, perm, None, MIN_u32 (bsz - word_of_nat i) BY2PG)) (page_offs i msz)) s"
  using assms(2)
proof (induction "msz - i" arbitrary: i s rule: less_induct)
  case less
  have lt: "(word_of_nat i :: u32) < word_of_nat msz \<longleftrightarrow> i < msz"
    using assms(1) less.prems by (simp add: word_less_nat_alt unat_of_nat)
  show ?case
  proof (cases "i < msz")
    case True
    then have IH: "load_bss f va bsz (word_of_nat msz) perm (word_of_nat (i + 4096)) s =
      run_calls f (map (\<lambda>i. (va + word_of_nat i, 0, perm, None, MIN_u32 (bsz - word_of_nat i) BY2PG)) (page_offs (i + 4096) msz)) s"
      for s using less.hyps [of "i + 4096"] assms(1) by simp
    show ?thesis
      unfolding load_bss.simps [of f va bsz "word_of_nat msz" perm "word_of_nat i"] page_step IH
      using True lt by (simp add: page_offs.simps [of i] del: of_nat_add)
  next
    case False
    then show ?thesis using lt by (simp add: load_bss.simps page_offs.simps [of i])
  qed
qed

lemma page_offset: "va - ROUNDDOWN va BY2PG = word_of_nat (unat va mod 4096)"
proof -
  have r: "ROUNDDOWN va BY2PG = PTE_ADDR va" by (simp add: ROUNDDOWN_def PTE_ADDR_def BY2PG_def)
  have "PTE_ADDR va \<le> va" by (simp add: word_le_nat_alt unat_PTE_ADDR)
  then have "unat (va - PTE_ADDR va) = unat va mod 4096"
    by (simp add: unat_sub unat_PTE_ADDR minus_div_mult_eq_mod)
  then show ?thesis unfolding r by (metis of_nat_unat ucast_id)
qed

lemma MIN_first: "fsz < 2 ^ 32 \<Longrightarrow> off < 4096 \<Longrightarrow>
    MIN_u32 (word_of_nat fsz) (BY2PG - word_of_nat off) = word_of_nat (min fsz (4096 - off))"
proof -
  assume a: "fsz < 2 ^ 32" "off < 4096"
  then have "BY2PG - word_of_nat off = (word_of_nat (4096 - off) :: u32)"
    by (simp add: BY2PG_def of_nat_diff)
  moreover have "(word_of_nat fsz :: u32) \<le> word_of_nat (4096 - off) \<longleftrightarrow> fsz \<le> 4096 - off"
    using a by (simp add: word_le_nat_alt unat_of_nat del: of_nat_diff)
  ultimately show ?thesis by (simp add: MIN_u32_def min_def)
qed

lemma elf_load_seg_calls:
  assumes "unat (p_filesz ph) + 4096 < 2 ^ 32" and "unat (p_memsz ph) + 4096 < 2 ^ 32"
  shows "elf_load_seg ph bin f s = run_calls f (seg_calls ph bin) s"
proof -
  define va where "va = p_vaddr ph"
  define off where "off = unat va mod 4096"
  define fsz where "fsz = unat (p_filesz ph)"
  define msz where "msz = unat (p_memsz ph)"
  define perm where "perm = (if p_flags ph AND PF_W \<noteq> 0 then PTE_V OR PTE_D else PTE_V)"
  define first where "first = (if off = 0 then 0 else min fsz (4096 - off))"
  have off: "off < 4096" by (simp add: off_def)
  have offw: "(word_of_nat off :: u32) = 0 \<longleftrightarrow> off = 0"
    using off by (simp add: unat_of_nat flip: unat_eq_0)
  have sz: "p_filesz ph = word_of_nat fsz" "p_memsz ph = word_of_nat msz"
    by (simp_all add: fsz_def msz_def)
  have fw: "(if (word_of_nat off :: u32) \<noteq> 0 then MIN_u32 (word_of_nat fsz) (BY2PG - word_of_nat off) else 0) = word_of_nat first"
    using MIN_first [of fsz off] off assms(1) offw by (simp add: first_def fsz_def)
  have fb: "first \<le> fsz + 4096" by (auto simp: first_def min_def)
  then have "next_off first fsz \<le> fsz + 4096" by (rule next_off_bound)
  then have nb: "next_off first fsz < 2 ^ 32" using assms(1) by (simp add: fsz_def)
  let ?c0 = "if off = 0 then [] else [(va, word_of_nat off, perm, Some bin, word_of_nat first)]"
  let ?c1 = "map (\<lambda>i. (va + word_of_nat i, 0, perm, Some (bin + word_of_nat i), word_of_nat (min (fsz - i) 4096))) (page_offs first fsz)"
  let ?c2 = "map (\<lambda>i. (va + word_of_nat i, 0, perm, None, MIN_u32 (word_of_nat fsz - word_of_nat i) BY2PG)) (page_offs (next_off first fsz) msz)"
  have calls: "seg_calls ph bin = ?c0 @ ?c1 @ ?c2"
    unfolding seg_calls_def Let_def va_def [symmetric] off_def [symmetric] fsz_def [symmetric]
      msz_def [symmetric] perm_def [symmetric] first_def [symmetric] sz(1) [symmetric] ..
  have bin: "load_bin f va (word_of_nat fsz) perm bin (word_of_nat first) s = Option.bind (run_calls f ?c1 s)
      (\<lambda>(r, s). case r of Inl e \<Rightarrow> Some (Inl e, s) | Inr _ \<Rightarrow> Some (Inr (word_of_nat (next_off first fsz)), s))" for s
    using assms(1) fb by (intro load_bin_calls) (simp_all add: fsz_def)
  have bss: "load_bss f va (word_of_nat fsz) (word_of_nat msz) perm (word_of_nat (next_off first fsz)) s = run_calls f ?c2 s" for s
    using assms(2) nb by (intro load_bss_calls) (simp_all add: msz_def)
  have first0: "(if (word_of_nat off :: u32) \<noteq> 0 then f va (word_of_nat off) perm (Some bin) (MIN_u32 (word_of_nat fsz) (BY2PG - word_of_nat off)) s
      else Some (Inr (), s)) = run_calls f ?c0 s"
    using fw offw by (auto split: option.splits sum.splits bind_splits)
  have rest: "Option.bind (Option.bind (run_calls f ?c1 t)
        (\<lambda>(r, s). case r of Inl e \<Rightarrow> Some (Inl e, s) | Inr _ \<Rightarrow> Some (Inr (word_of_nat (next_off first fsz)), s)))
      (\<lambda>(r, s). case r of Inl e \<Rightarrow> Some (Inl e, s) | Inr i \<Rightarrow> load_bss f va (word_of_nat fsz) (word_of_nat msz) perm i s)
    = run_calls f (?c1 @ ?c2) t" for t
    unfolding run_calls_append by (cases "run_calls f ?c1 t") (auto split: sum.splits simp: bss)
  show ?thesis
    unfolding elf_load_seg_def Let_def va_def [symmetric] sz perm_def [symmetric] page_offset off_def [symmetric]
      first0 fw bin rest calls run_calls_append [of f ?c0] ..
qed

section \<open>The pages of a segment\<close>

lemma page_offs_eq: "page_offs i lim = map (\<lambda>k. i + 4096 * k) [0..<(lim - i + 4095) div 4096]"
proof (induction i lim rule: page_offs.induct)
  case (1 i lim)
  show ?case
  proof (cases "i < lim")
    case True
    define n where "n = (lim - (i + 4096) + 4095) div 4096"
    have e1: "(lim - i + 4095) div 4096 = Suc n"
      using True by (cases "lim \<le> i + 4096") (auto simp: n_def div_if)
    have e2: "[0..<Suc n] = 0 # map Suc [0..<n]" by (simp add: upt_conv_Cons map_Suc_upt del: upt_Suc)
    have e3: "page_offs i lim = i # map (\<lambda>k. i + 4096 + 4096 * k) [0..<n]"
      using True 1 by (simp add: page_offs.simps [of i] n_def)
    show ?thesis unfolding e1 e2 e3 by (simp add: comp_def)
  next
    case False
    then show ?thesis by (simp add: page_offs.simps [of i])
  qed
qed

definition seg_pages :: "u32 \<Rightarrow> nat" where
  "seg_pages sz = (unat sz + 4095) div 4096"

lemma seg_calls_aligned:
  assumes "unat (p_vaddr ph) mod 4096 = 0"
  defines "perm \<equiv> (if p_flags ph AND PF_W \<noteq> 0 then PTE_V OR PTE_D else PTE_V)"
  shows "seg_calls ph bin =
    map (\<lambda>k. (p_vaddr ph + word_of_nat (4096 * k), 0, perm, Some (bin + word_of_nat (4096 * k)),
        word_of_nat (min (unat (p_filesz ph) - 4096 * k) 4096))) [0..<seg_pages (p_filesz ph)]
    @ map (\<lambda>k. (p_vaddr ph + word_of_nat (4096 * k), 0, perm, None, MIN_u32 (p_filesz ph - word_of_nat (4096 * k)) BY2PG))
        [seg_pages (p_filesz ph)..<seg_pages (p_memsz ph)]"
proof -
  define n where "n = seg_pages (p_filesz ph)"
  define m where "m = seg_pages (p_memsz ph)"
  have o1: "page_offs 0 (unat (p_filesz ph)) = map (\<lambda>k. 4096 * k) [0..<n]"
    by (simp add: page_offs_eq n_def seg_pages_def)
  then have nx: "next_off 0 (unat (p_filesz ph)) = 4096 * n" by (simp add: next_off_def)
  have "(unat (p_memsz ph) - 4096 * n + 4095) div 4096 = m - n"
  proof (cases "4096 * n \<le> unat (p_memsz ph)")
    case True
    then have eq: "unat (p_memsz ph) + 4095 = (unat (p_memsz ph) - 4096 * n + 4095) + 4096 * n" by simp
    have "m = n + (unat (p_memsz ph) - 4096 * n + 4095) div 4096"
      unfolding m_def seg_pages_def by (subst eq, subst div_mult_self2) simp_all
    then show ?thesis by linarith
  next
    case False
    have "m < Suc n" unfolding m_def seg_pages_def by (rule less_mult_imp_div_less) (use False in simp)
    then show ?thesis using False by simp
  qed
  then have "page_offs (4096 * n) (unat (p_memsz ph)) = map (\<lambda>k. 4096 * n + 4096 * k) [0..<m - n]"
    by (simp add: page_offs_eq)
  also have "\<dots> = map (\<lambda>k. 4096 * k) [n..<m]"
    by (rule nth_equalityI) (simp_all add: algebra_simps)
  finally show ?thesis
    unfolding seg_calls_def Let_def perm_def using assms(1) o1 nx by (simp add: comp_def flip: n_def m_def)
qed

section \<open>Properties\<close>

text \<open>
  Lemma (elf_load_seg_correct). Loading a page-aligned segment is a fixed sequence of callback
  invocations: it visits every page of the segment once, in order, and no other page; the pages
  that hold file data get the corresponding bytes of the file, the last one the remaining bytes,
  and the pages beyond get no source. It ends and stops early only when a callback fails.
\<close>

theorem elf_load_seg_correct:
  assumes "unat (p_vaddr ph) mod 4096 = 0"
    and "unat (p_filesz ph) + 4096 < 2 ^ 32" and "unat (p_memsz ph) + 4096 < 2 ^ 32"
  shows "elf_load_seg ph bin f s = run_calls f (seg_calls ph bin) s
    \<and> map fst (seg_calls ph bin) = map (\<lambda>k. p_vaddr ph + word_of_nat (4096 * k))
         [0..<max (seg_pages (p_filesz ph)) (seg_pages (p_memsz ph))]
    \<and> map (fst \<circ> snd \<circ> snd \<circ> snd) (seg_calls ph bin) =
         map (\<lambda>k. if k < seg_pages (p_filesz ph) then Some (bin + word_of_nat (4096 * k)) else None)
           [0..<max (seg_pages (p_filesz ph)) (seg_pages (p_memsz ph))]"
proof (intro conjI)
  show "elf_load_seg ph bin f s = run_calls f (seg_calls ph bin) s"
    using assms(2,3) by (rule elf_load_seg_calls)
  let ?n = "seg_pages (p_filesz ph)" and ?m = "seg_pages (p_memsz ph)"
  have split: "[0..<max ?n ?m] = [0..<?n] @ [?n..<?m]"
    using upt_add_eq_append [of 0 ?n "?m - ?n"] by (cases "?n \<le> ?m") (simp_all add: max_def)
  show "map fst (seg_calls ph bin) = map (\<lambda>k. p_vaddr ph + word_of_nat (4096 * k)) [0..<max ?n ?m]"
    unfolding split seg_calls_aligned [OF assms(1)] by (simp add: comp_def)
  show "map (fst \<circ> snd \<circ> snd \<circ> snd) (seg_calls ph bin) =
      map (\<lambda>k. if k < ?n then Some (bin + word_of_nat (4096 * k)) else None) [0..<max ?n ?m]"
    unfolding split seg_calls_aligned [OF assms(1)] by (simp add: comp_def)
qed

text \<open>A data segment of one page and a half, half of it in the file, and a callback that accepts all.\<close>

definition data_seg :: Elf32_Phdr where
  "data_seg = \<lparr>p_type = PT_LOAD, p_offset = 0x1000, p_vaddr = 0x400000, p_filesz = 0x800, p_memsz = 0x1800, p_flags = 6\<rparr>"

definition accept :: "unit elf_mapper" where
  "accept va offset perm src len s = Some (Inr (), s)"

theorem elf_load_seg_correct_witness:
  "elf_load_seg data_seg 0x1000 accept () = run_calls accept (seg_calls data_seg 0x1000) ()
    \<and> map fst (seg_calls data_seg 0x1000) = [0x400000, 0x401000]
    \<and> map (fst \<circ> snd \<circ> snd \<circ> snd) (seg_calls data_seg 0x1000) = [Some 0x1000, None]"
  using elf_load_seg_correct [of data_seg "0x1000" accept "()"]
  by (simp add: data_seg_def seg_pages_def upt_rec)

text \<open>
  Remapping of small segments. When a segment starts inside a page, its file data ends in that
  same page and its memory size is larger than its file size, the loader calls the callback a second
  time for the first page, now without a source: with the mappers of the kernel and of \<open>spawn\<close> the
  page that holds the file data is replaced by an empty one.
\<close>

theorem elf_small_segment_remaps:
  assumes "unat (p_vaddr ph) mod 4096 \<noteq> 0"
    and "unat (p_vaddr ph) mod 4096 + unat (p_filesz ph) < 4096" and "p_filesz ph < p_memsz ph"
    and "unat (p_memsz ph) + 4096 < 2 ^ 32"
  shows "elf_load_seg ph bin f s = run_calls f (seg_calls ph bin) s
    \<and> (\<exists>perm len rest. seg_calls ph bin =
        (p_vaddr ph, word_of_nat (unat (p_vaddr ph) mod 4096), perm, Some bin, p_filesz ph) #
        (p_vaddr ph + p_filesz ph, 0, perm, None, len) # rest)
    \<and> VPN (p_vaddr ph + p_filesz ph) = VPN (p_vaddr ph)"
proof (intro conjI)
  let ?v = "unat (p_vaddr ph)" and ?f = "unat (p_filesz ph)"
  have lt: "?f < unat (p_memsz ph)" using assms(3) by (simp add: word_less_nat_alt)
  then show "elf_load_seg ph bin f s = run_calls f (seg_calls ph bin) s"
    using assms(4) by (intro elf_load_seg_calls) simp_all
  have mn: "min ?f (4096 - ?v mod 4096) = ?f" using assms(2) by (simp add: min_def)
  then show "\<exists>perm len rest. seg_calls ph bin =
        (p_vaddr ph, word_of_nat (unat (p_vaddr ph) mod 4096), perm, Some bin, p_filesz ph) #
        (p_vaddr ph + p_filesz ph, 0, perm, None, len) # rest"
    using assms(1) lt page_offs.simps [of ?f "unat (p_memsz ph)"]
    by (simp add: seg_calls_def Let_def mn page_offs.simps [of ?f ?f] next_off_def)
  have "?v div 4096 * 4096 + (?v mod 4096 + ?f) < 4294967296"
  proof -
    have "?v div 4096 < 1048576" using unat_u32 [of "p_vaddr ph"] by (intro less_mult_imp_div_less) simp
    then show ?thesis using assms(2) by linarith
  qed
  then have "?v + ?f < 2 ^ LENGTH(32)" by simp
  then have "unat (p_vaddr ph + p_filesz ph) = ?v + ?f" by (simp add: unat_word_ariths)
  moreover have "(?v + ?f) div 4096 = ?v div 4096"
    using assms(2) div_add1_eq [of ?v ?f 4096] by simp
  ultimately show "VPN (p_vaddr ph + p_filesz ph) = VPN (p_vaddr ph)" by (simp add: VPN_div)
qed

theorem elf_small_segment_remaps_witness:
  "let ph = data_seg\<lparr>p_vaddr := 0x400010, p_filesz := 8, p_memsz := 0x20\<rparr> in
    elf_load_seg ph 0 accept () = run_calls accept (seg_calls ph 0) ()
    \<and> (\<exists>perm len rest. seg_calls ph 0 =
        (p_vaddr ph, word_of_nat (unat (p_vaddr ph) mod 4096), perm, Some 0, p_filesz ph) #
        (p_vaddr ph + p_filesz ph, 0, perm, None, len) # rest)
    \<and> VPN (p_vaddr ph + p_filesz ph) = VPN (p_vaddr ph)"
  unfolding Let_def by (rule elf_small_segment_remaps) (simp_all add: data_seg_def)

end
