(* ===== verification/Queue_Lists.thy ===== *)
theory Queue_Lists
  imports Prelude
begin

text \<open>
  The intrusive lists of \<open>include/queue.h\<close>, which hold the free pages, the free environments and
  the runnable environments. They are modelled at the level of the pointers: the link fields of
  all elements are maps, a \<open>le_prev\<close> field holds the address of the pointer that points at the
  element (the head or the \<open>next\<close> field of another element), and a macro is the sequence of its
  assignments. A write through a null pointer is \<open>None\<close>.

  \<open>LIST_rep\<close> and \<open>TAILQ_rep\<close> relate such a structure to the sequence of its elements; the lemmas
  show that on a well-formed structure the macros are the expected operations on that sequence.
  The two contracts are the locales \<open>intrusive_list\<close> and \<open>intrusive_queue\<close>, interpreted on the
  macros at the end; the kernel theories use the interpretations only.
\<close>

section \<open>Lists\<close>

subsection \<open>Data\<close>

text \<open>An address of a pointer to an element: the head of the list or an element's \<open>next\<close> field.\<close>

datatype 'a cell = Head | NextOf 'a

record 'a dlist =
  lh_first :: "'a option"
  le_next :: "'a \<Rightarrow> 'a option"
  le_prev :: "'a \<Rightarrow> 'a cell option"

text \<open>A list and links of zero bytes, as in a zeroed array of elements.\<close>

definition LIST_zero :: "'a dlist" where
  "LIST_zero = \<lparr>lh_first = None, le_next = (\<lambda>_. None), le_prev = (\<lambda>_. None)\<rparr>"

subsection \<open>The macros\<close>

text \<open>The assignment \<open>*c = v\<close> through the address \<open>c\<close>.\<close>

definition LIST_store :: "'a cell option \<Rightarrow> 'a option \<Rightarrow> 'a dlist \<Rightarrow> 'a dlist option" where
  "LIST_store c v q = (case c of
     None \<Rightarrow> None
   | Some Head \<Rightarrow> Some (q\<lparr>lh_first := v\<rparr>)
   | Some (NextOf a) \<Rightarrow> Some (q\<lparr>le_next := (le_next q)(a := v)\<rparr>))"

definition LIST_EMPTY :: "'a dlist \<Rightarrow> bool" where
  "LIST_EMPTY q \<longleftrightarrow> lh_first q = None"

definition LIST_FIRST :: "'a dlist \<Rightarrow> 'a option" where
  "LIST_FIRST q = lh_first q"

definition LIST_NEXT :: "'a \<Rightarrow> 'a dlist \<Rightarrow> 'a option" where
  "LIST_NEXT elm q = le_next q elm"

definition LIST_INIT :: "'a dlist \<Rightarrow> 'a dlist" where
  "LIST_INIT q = q\<lparr>lh_first := None\<rparr>"

definition LIST_INSERT_AFTER :: "'a \<Rightarrow> 'a \<Rightarrow> 'a dlist \<Rightarrow> 'a dlist option" where
  "LIST_INSERT_AFTER listelm elm q = (
     let q = q\<lparr>le_next := (le_next q)(elm := LIST_NEXT listelm q)\<rparr> in
     case LIST_NEXT listelm q of
       None \<Rightarrow> None
     | Some nxt \<Rightarrow>
         let q = q\<lparr>le_prev := (le_prev q)(nxt := Some (NextOf elm))\<rparr>;
             q = q\<lparr>le_next := (le_next q)(listelm := Some elm)\<rparr>
         in Some (q\<lparr>le_prev := (le_prev q)(elm := Some (NextOf listelm))\<rparr>))"

definition LIST_INSERT_BEFORE :: "'a \<Rightarrow> 'a \<Rightarrow> 'a dlist \<Rightarrow> 'a dlist option" where
  "LIST_INSERT_BEFORE listelm elm q = do {
     let q = q\<lparr>le_prev := (le_prev q)(elm := le_prev q listelm)\<rparr>;
     let q = q\<lparr>le_next := (le_next q)(elm := Some listelm)\<rparr>;
     q \<leftarrow> LIST_store (le_prev q listelm) (Some elm) q;
     Some (q\<lparr>le_prev := (le_prev q)(listelm := Some (NextOf elm))\<rparr>)
   }"

definition LIST_INSERT_HEAD :: "'a \<Rightarrow> 'a dlist \<Rightarrow> 'a dlist" where
  "LIST_INSERT_HEAD elm q = (
     let q = q\<lparr>le_next := (le_next q)(elm := LIST_FIRST q)\<rparr>;
         q = (case LIST_FIRST q of
                None \<Rightarrow> q
              | Some f \<Rightarrow> q\<lparr>le_prev := (le_prev q)(f := Some (NextOf elm))\<rparr>);
         q = q\<lparr>lh_first := Some elm\<rparr>
     in q\<lparr>le_prev := (le_prev q)(elm := Some Head)\<rparr>)"

definition LIST_REMOVE :: "'a \<Rightarrow> 'a dlist \<Rightarrow> 'a dlist option" where
  "LIST_REMOVE elm q = (
     let q = (case LIST_NEXT elm q of
                None \<Rightarrow> q
              | Some nxt \<Rightarrow> q\<lparr>le_prev := (le_prev q)(nxt := le_prev q elm)\<rparr>)
     in LIST_store (le_prev q elm) (LIST_NEXT elm q) q)"

section \<open>Tail queues\<close>

record 'a tailq =
  tqh_first :: "'a option"
  tqh_last :: "'a cell option"
  tqe_next :: "'a \<Rightarrow> 'a option"
  tqe_prev :: "'a \<Rightarrow> 'a cell option"

definition TAILQ_zero :: "'a tailq" where
  "TAILQ_zero = \<lparr>tqh_first = None, tqh_last = None, tqe_next = (\<lambda>_. None), tqe_prev = (\<lambda>_. None)\<rparr>"

definition TAILQ_store :: "'a cell option \<Rightarrow> 'a option \<Rightarrow> 'a tailq \<Rightarrow> 'a tailq option" where
  "TAILQ_store c v q = (case c of
     None \<Rightarrow> None
   | Some Head \<Rightarrow> Some (q\<lparr>tqh_first := v\<rparr>)
   | Some (NextOf a) \<Rightarrow> Some (q\<lparr>tqe_next := (tqe_next q)(a := v)\<rparr>))"

definition TAILQ_EMPTY :: "'a tailq \<Rightarrow> bool" where
  "TAILQ_EMPTY q \<longleftrightarrow> tqh_first q = None"

definition TAILQ_FIRST :: "'a tailq \<Rightarrow> 'a option" where
  "TAILQ_FIRST q = tqh_first q"

definition TAILQ_INIT :: "'a tailq \<Rightarrow> 'a tailq" where
  "TAILQ_INIT q = q\<lparr>tqh_first := None, tqh_last := Some Head\<rparr>"

definition TAILQ_INSERT_HEAD :: "'a \<Rightarrow> 'a tailq \<Rightarrow> 'a tailq" where
  "TAILQ_INSERT_HEAD elm q = (
     let q = q\<lparr>tqe_next := (tqe_next q)(elm := tqh_first q)\<rparr>;
         q = (case tqh_first q of
                Some f \<Rightarrow> q\<lparr>tqe_prev := (tqe_prev q)(f := Some (NextOf elm))\<rparr>
              | None \<Rightarrow> q\<lparr>tqh_last := Some (NextOf elm)\<rparr>);
         q = q\<lparr>tqh_first := Some elm\<rparr>
     in q\<lparr>tqe_prev := (tqe_prev q)(elm := Some Head)\<rparr>)"

definition TAILQ_INSERT_TAIL :: "'a \<Rightarrow> 'a tailq \<Rightarrow> 'a tailq option" where
  "TAILQ_INSERT_TAIL elm q = do {
     let q = q\<lparr>tqe_next := (tqe_next q)(elm := None)\<rparr>;
     let q = q\<lparr>tqe_prev := (tqe_prev q)(elm := tqh_last q)\<rparr>;
     q \<leftarrow> TAILQ_store (tqh_last q) (Some elm) q;
     Some (q\<lparr>tqh_last := Some (NextOf elm)\<rparr>)
   }"

definition TAILQ_INSERT_AFTER :: "'a \<Rightarrow> 'a \<Rightarrow> 'a tailq \<Rightarrow> 'a tailq" where
  "TAILQ_INSERT_AFTER listelm elm q = (
     let q = q\<lparr>tqe_next := (tqe_next q)(elm := tqe_next q listelm)\<rparr>;
         q = (case tqe_next q elm of
                Some nxt \<Rightarrow> q\<lparr>tqe_prev := (tqe_prev q)(nxt := Some (NextOf elm))\<rparr>
              | None \<Rightarrow> q\<lparr>tqh_last := Some (NextOf elm)\<rparr>);
         q = q\<lparr>tqe_next := (tqe_next q)(listelm := Some elm)\<rparr>
     in q\<lparr>tqe_prev := (tqe_prev q)(elm := Some (NextOf listelm))\<rparr>)"

definition TAILQ_INSERT_BEFORE :: "'a \<Rightarrow> 'a \<Rightarrow> 'a tailq \<Rightarrow> 'a tailq option" where
  "TAILQ_INSERT_BEFORE listelm elm q = do {
     let q = q\<lparr>tqe_prev := (tqe_prev q)(elm := tqe_prev q listelm)\<rparr>;
     let q = q\<lparr>tqe_next := (tqe_next q)(elm := Some listelm)\<rparr>;
     q \<leftarrow> TAILQ_store (tqe_prev q listelm) (Some elm) q;
     Some (q\<lparr>tqe_prev := (tqe_prev q)(listelm := Some (NextOf elm))\<rparr>)
   }"

definition TAILQ_REMOVE :: "'a \<Rightarrow> 'a tailq \<Rightarrow> 'a tailq option" where
  "TAILQ_REMOVE elm q = (
     let q = (case tqe_next q elm of
                Some nxt \<Rightarrow> q\<lparr>tqe_prev := (tqe_prev q)(nxt := tqe_prev q elm)\<rparr>
              | None \<Rightarrow> q\<lparr>tqh_last := tqe_prev q elm\<rparr>)
     in TAILQ_store (tqe_prev q elm) (tqe_next q elm) q)"

section \<open>Linked segments\<close>

text \<open>
  \<open>seg n p c x as y\<close>: starting from the pointer \<open>x\<close> stored at the address \<open>c\<close>, the links run
  through the elements \<open>as\<close> and end in the pointer \<open>y\<close>; every element's back link is the address of
  the pointer that leads to it. \<open>last_cell c as\<close> is the address at which \<open>y\<close> is stored.
\<close>

primrec last_cell :: "'a cell \<Rightarrow> 'a list \<Rightarrow> 'a cell" where
  "last_cell c [] = c"
| "last_cell c (a # as) = last_cell (NextOf a) as"

primrec seg ::
  "('a \<Rightarrow> 'a option) \<Rightarrow> ('a \<Rightarrow> 'a cell option) \<Rightarrow> 'a cell \<Rightarrow> 'a option \<Rightarrow> 'a list \<Rightarrow> 'a option \<Rightarrow> bool"
where
  "seg n p c x [] y \<longleftrightarrow> x = y"
| "seg n p c x (a # as) y \<longleftrightarrow> x = Some a \<and> p a = Some c \<and> seg n p (NextOf a) (n a) as y"

definition LIST_rep :: "'a dlist \<Rightarrow> 'a list \<Rightarrow> bool" where
  "LIST_rep q xs \<longleftrightarrow> distinct xs \<and> seg (le_next q) (le_prev q) Head (lh_first q) xs None"

definition TAILQ_rep :: "'a tailq \<Rightarrow> 'a list \<Rightarrow> bool" where
  "TAILQ_rep q xs \<longleftrightarrow> distinct xs \<and> seg (tqe_next q) (tqe_prev q) Head (tqh_first q) xs None
     \<and> tqh_last q = Some (last_cell Head xs)"

lemma last_cell_append [simp]: "last_cell c (as @ bs) = last_cell (last_cell c as) bs"
  by (induction as arbitrary: c) auto

lemma last_cell_last: "last_cell c as = (if as = [] then c else NextOf (last as))"
  by (induction as arbitrary: c) auto

lemma seg_append:
  "seg n p c x (as @ bs) z \<longleftrightarrow> (\<exists>y. seg n p c x as y \<and> seg n p (last_cell c as) y bs z)"
  by (induction as arbitrary: c x) auto

lemma seg_frame_next: "u \<notin> set as \<Longrightarrow> seg (n(u := v)) p c x as y = seg n p c x as y"
  by (induction as arbitrary: c x) auto

lemma seg_frame_prev: "u \<notin> set as \<Longrightarrow> seg n (p(u := v)) c x as y = seg n p c x as y"
  by (induction as arbitrary: c x) auto

lemmas seg_frame = seg_frame_next seg_frame_prev

lemma seg_unique: "seg n p c x as None \<Longrightarrow> seg n p c x bs None \<Longrightarrow> as = bs"
proof (induction as arbitrary: c x bs)
  case Nil
  then show ?case by (cases bs) auto
next
  case (Cons a as)
  then show ?case by (cases bs) auto
qed

text \<open>Redirecting the pointer at the end of a non-empty segment.\<close>

lemma seg_redirect:
  "distinct (as @ [l]) \<Longrightarrow> seg n p c x (as @ [l]) y \<Longrightarrow> seg (n(l := z)) p c x (as @ [l]) z"
  by (auto simp: seg_append seg_frame)

section \<open>The macros on well-formed lists\<close>

lemma LIST_rep_distinct: "LIST_rep q xs \<Longrightarrow> distinct xs"
  by (simp add: LIST_rep_def)

lemma LIST_rep_unique: "LIST_rep q xs \<Longrightarrow> LIST_rep q ys \<Longrightarrow> xs = ys"
  by (auto simp: LIST_rep_def dest: seg_unique)

lemma LIST_rep_INIT: "LIST_rep (LIST_INIT q) []"
  by (simp add: LIST_rep_def LIST_INIT_def)

lemma LIST_rep_FIRST: "LIST_rep q xs \<Longrightarrow> LIST_FIRST q = (case xs of [] \<Rightarrow> None | x # _ \<Rightarrow> Some x)"
  by (auto simp: LIST_rep_def LIST_FIRST_def split: list.splits)

lemma LIST_rep_EMPTY: "LIST_rep q xs \<Longrightarrow> LIST_EMPTY q \<longleftrightarrow> xs = []"
  by (cases xs) (auto simp: LIST_rep_def LIST_EMPTY_def)

lemma LIST_rep_INSERT_HEAD:
  "LIST_rep q xs \<Longrightarrow> a \<notin> set xs \<Longrightarrow> LIST_rep (LIST_INSERT_HEAD a q) (a # xs)"
  by (cases xs) (auto simp: LIST_rep_def LIST_INSERT_HEAD_def LIST_FIRST_def Let_def seg_frame)

text \<open>Removal at any position: the element's neighbours are linked to each other.\<close>

lemma LIST_rep_REMOVE:
  assumes "LIST_rep q (ys @ a # zs)"
  shows "\<exists>q'. LIST_REMOVE a q = Some q' \<and> LIST_rep q' (ys @ zs)"
proof (cases ys rule: rev_cases)
  case Nil
  with assms show ?thesis
    by (cases zs) (auto simp: LIST_rep_def LIST_REMOVE_def LIST_NEXT_def LIST_store_def seg_frame)
next
  case (snoc us l)
  with assms show ?thesis
    by (cases zs)
      (auto simp: LIST_rep_def LIST_REMOVE_def LIST_NEXT_def LIST_store_def seg_append seg_frame)
qed

lemma LIST_rep_INSERT_BEFORE:
  assumes "LIST_rep q (ys @ b # zs)" and "a \<notin> set (ys @ b # zs)"
  shows "\<exists>q'. LIST_INSERT_BEFORE b a q = Some q' \<and> LIST_rep q' (ys @ a # b # zs)"
proof (cases ys rule: rev_cases)
  case Nil
  with assms show ?thesis
    by (auto simp: LIST_rep_def LIST_INSERT_BEFORE_def LIST_store_def seg_frame)
next
  case (snoc us l)
  with assms show ?thesis
    by (auto simp: LIST_rep_def LIST_INSERT_BEFORE_def LIST_store_def seg_append seg_frame)
qed

text \<open>
  Insertion after an element that has a successor. After the last element the macro writes through
  the null \<open>next\<close> pointer, although its comment asks for the check.
\<close>

lemma LIST_rep_INSERT_AFTER:
  assumes "LIST_rep q (ys @ b # c # zs)" and "a \<notin> set (ys @ b # c # zs)"
  shows "\<exists>q'. LIST_INSERT_AFTER b a q = Some q' \<and> LIST_rep q' (ys @ b # a # c # zs)"
  using assms
  by (auto simp: LIST_rep_def LIST_INSERT_AFTER_def LIST_NEXT_def Let_def seg_append seg_frame)

lemma LIST_INSERT_AFTER_last:
  assumes "LIST_rep q (ys @ [b])"
  shows "LIST_INSERT_AFTER b a q = None"
  using assms
  by (auto simp: LIST_rep_def LIST_INSERT_AFTER_def LIST_NEXT_def Let_def seg_append)

lemma TAILQ_rep_distinct: "TAILQ_rep q xs \<Longrightarrow> distinct xs"
  by (simp add: TAILQ_rep_def)

lemma TAILQ_rep_unique: "TAILQ_rep q xs \<Longrightarrow> TAILQ_rep q ys \<Longrightarrow> xs = ys"
  by (auto simp: TAILQ_rep_def dest: seg_unique)

lemma TAILQ_rep_INIT: "TAILQ_rep (TAILQ_INIT q) []"
  by (simp add: TAILQ_rep_def TAILQ_INIT_def)

lemma TAILQ_rep_FIRST:
  "TAILQ_rep q xs \<Longrightarrow> TAILQ_FIRST q = (case xs of [] \<Rightarrow> None | x # _ \<Rightarrow> Some x)"
  by (auto simp: TAILQ_rep_def TAILQ_FIRST_def split: list.splits)

lemma TAILQ_rep_INSERT_HEAD:
  "TAILQ_rep q xs \<Longrightarrow> a \<notin> set xs \<Longrightarrow> TAILQ_rep (TAILQ_INSERT_HEAD a q) (a # xs)"
  by (cases xs) (auto simp: TAILQ_rep_def TAILQ_INSERT_HEAD_def Let_def seg_frame)

lemma TAILQ_rep_INSERT_TAIL:
  assumes "TAILQ_rep q xs" and "a \<notin> set xs"
  shows "\<exists>q'. TAILQ_INSERT_TAIL a q = Some q' \<and> TAILQ_rep q' (xs @ [a])"
proof (cases xs rule: rev_cases)
  case Nil
  with assms show ?thesis
    by (auto simp: TAILQ_rep_def TAILQ_INSERT_TAIL_def TAILQ_store_def)
next
  case (snoc us l)
  with assms show ?thesis
    by (auto simp: TAILQ_rep_def TAILQ_INSERT_TAIL_def TAILQ_store_def seg_append seg_frame)
qed

lemma TAILQ_rep_REMOVE:
  assumes "TAILQ_rep q (ys @ a # zs)"
  shows "\<exists>q'. TAILQ_REMOVE a q = Some q' \<and> TAILQ_rep q' (ys @ zs)"
proof (cases ys rule: rev_cases)
  case Nil
  with assms show ?thesis
    by (cases zs) (auto simp: TAILQ_rep_def TAILQ_REMOVE_def TAILQ_store_def seg_frame)
next
  case (snoc us l)
  with assms show ?thesis
    by (cases zs) (auto simp: TAILQ_rep_def TAILQ_REMOVE_def TAILQ_store_def seg_append seg_frame)
qed

lemma TAILQ_rep_INSERT_AFTER:
  assumes "TAILQ_rep q (ys @ b # zs)" and "a \<notin> set (ys @ b # zs)"
  shows "TAILQ_rep (TAILQ_INSERT_AFTER b a q) (ys @ b # a # zs)"
  using assms
  by (cases zs) (auto simp: TAILQ_rep_def TAILQ_INSERT_AFTER_def Let_def seg_append seg_frame)

lemma TAILQ_rep_INSERT_BEFORE:
  assumes "TAILQ_rep q (ys @ b # zs)" and "a \<notin> set (ys @ b # zs)"
  shows "\<exists>q'. TAILQ_INSERT_BEFORE b a q = Some q' \<and> TAILQ_rep q' (ys @ a # b # zs)"
proof (cases ys rule: rev_cases)
  case Nil
  with assms show ?thesis
    by (auto simp: TAILQ_rep_def TAILQ_INSERT_BEFORE_def TAILQ_store_def seg_frame)
next
  case (snoc us l)
  with assms show ?thesis
    by (auto simp: TAILQ_rep_def TAILQ_INSERT_BEFORE_def TAILQ_store_def seg_append seg_frame)
qed

section \<open>The interfaces\<close>

text \<open>What a client of a list relies on: the sequence it stands for and how the macros change it.\<close>

locale intrusive_list =
  fixes rep :: "'q \<Rightarrow> 'a list \<Rightarrow> bool"
    and first :: "'q \<Rightarrow> 'a option"
    and init :: "'q \<Rightarrow> 'q"
    and insert_head :: "'a \<Rightarrow> 'q \<Rightarrow> 'q"
    and remove :: "'a \<Rightarrow> 'q \<Rightarrow> 'q option"
  assumes rep_distinct: "rep q xs \<Longrightarrow> distinct xs"
    and rep_unique: "rep q xs \<Longrightarrow> rep q ys \<Longrightarrow> xs = ys"
    and rep_init: "rep (init q) []"
    and rep_first: "rep q xs \<Longrightarrow> first q = (case xs of [] \<Rightarrow> None | x # _ \<Rightarrow> Some x)"
    and rep_insert_head: "rep q xs \<Longrightarrow> a \<notin> set xs \<Longrightarrow> rep (insert_head a q) (a # xs)"
    and rep_remove: "rep q (ys @ a # zs) \<Longrightarrow> \<exists>q'. remove a q = Some q' \<and> rep q' (ys @ zs)"
begin

lemma first_None: "rep q xs \<Longrightarrow> first q = None \<longleftrightarrow> xs = []"
  by (auto dest: rep_first split: list.splits)

lemma first_Some: "rep q xs \<Longrightarrow> first q = Some a \<longleftrightarrow> (\<exists>ys. xs = a # ys)"
  by (auto dest: rep_first split: list.splits)

lemma remove_member:
  assumes "rep q xs" and "a \<in> set xs"
  obtains q' where "remove a q = Some q'" and "rep q' (remove1 a xs)"
proof -
  from assms(2) obtain ys zs where xs: "xs = ys @ a # zs" and "a \<notin> set ys"
    by (meson split_list_first)
  then have "remove1 a xs = ys @ zs"
    by (simp add: remove1_append)
  with assms(1) xs rep_remove [of q ys a zs] that show thesis by auto
qed

text \<open>Taking the first element off and putting it back gives the same sequence.\<close>

lemma pop_push:
  assumes "rep q (a # xs)"
  obtains q' where "remove a q = Some q'" and "rep q' xs" and "rep (insert_head a q') (a # xs)"
proof -
  from rep_remove [of q "[]" a xs] assms obtain q' where "remove a q = Some q'" "rep q' xs"
    by auto
  with rep_distinct [OF assms] that rep_insert_head show thesis by auto
qed

text \<open>Inserting the elements of a list one by one at the head reverses them.\<close>

lemma rep_fold_insert_head:
  "rep q xs \<Longrightarrow> distinct (ys @ xs) \<Longrightarrow> rep (fold insert_head ys q) (rev ys @ xs)"
proof (induction ys arbitrary: q xs)
  case Nil
  then show ?case by simp
next
  case (Cons y ys)
  then have "rep (insert_head y q) (y # xs)"
    by (auto intro: rep_insert_head)
  then have "rep (fold insert_head ys (insert_head y q)) (rev ys @ y # xs)"
    using Cons.prems(2) by (intro Cons.IH) auto
  then show ?case by simp
qed

end

locale intrusive_queue = intrusive_list rep first init insert_head remove
  for rep :: "'q \<Rightarrow> 'a list \<Rightarrow> bool" and first init insert_head remove +
  fixes insert_tail :: "'a \<Rightarrow> 'q \<Rightarrow> 'q option"
  assumes rep_insert_tail:
    "rep q xs \<Longrightarrow> a \<notin> set xs \<Longrightarrow> \<exists>q'. insert_tail a q = Some q' \<and> rep q' (xs @ [a])"
begin

text \<open>Moving a member to the tail, as the scheduler does with the running environment.\<close>

lemma requeue:
  assumes "rep q xs" and "a \<in> set xs"
  obtains q1 q2 where "remove a q = Some q1" and "insert_tail a q1 = Some q2"
    and "rep q2 (remove1 a xs @ [a])"
proof -
  from remove_member [OF assms] obtain q1 where q1: "remove a q = Some q1" "rep q1 (remove1 a xs)"
    by blast
  moreover have "a \<notin> set (remove1 a xs)"
    using rep_distinct [OF assms(1)] by simp
  ultimately show thesis
    using rep_insert_tail that by blast
qed

end

interpretation lst: intrusive_list LIST_rep LIST_FIRST LIST_INIT LIST_INSERT_HEAD LIST_REMOVE
  by unfold_locales
    (blast intro: LIST_rep_distinct LIST_rep_unique LIST_rep_INIT LIST_rep_FIRST
      LIST_rep_INSERT_HEAD LIST_rep_REMOVE)+

interpretation tq: intrusive_queue TAILQ_rep TAILQ_FIRST TAILQ_INIT TAILQ_INSERT_HEAD TAILQ_REMOVE
  TAILQ_INSERT_TAIL
  by unfold_locales
    (blast intro: TAILQ_rep_distinct TAILQ_rep_unique TAILQ_rep_INIT TAILQ_rep_FIRST
      TAILQ_rep_INSERT_HEAD TAILQ_rep_REMOVE TAILQ_rep_INSERT_TAIL)+

end
