(* ===== verification/Pmap.thy ===== *)
theory Pmap
  imports Queue_Lists Mmu
begin

text \<open>
  Physical and virtual memory management, \<open>kern/pmap.c\<close>: the boot allocator, the free list of
  physical pages and their reference counts, the two-level page tables and the TLB they are
  flushed from.

  The state is the record \<open>mstate\<close>; later theories extend it. Physical memory is read and written
  in words: \<open>kmem s p i\<close> is the \<open>i\<close>-th word of physical page \<open>p\<close>. A \<open>Pde *\<close> that points at a page
  directory is the number of its page, a \<open>Pte *\<close> is a page number with a word index. Reference
  counts are 16 bits wide, as \<open>u_short pp_ref\<close> is. The TLB is the array of its entries, a pair of
  \<open>EntryHi\<close> and \<open>EntryLo\<close>.
\<close>

section \<open>State\<close>

record mstate =
  memsize :: u32
  npage :: nat
  freemem :: u32
  pages_va :: u32
  page_free_list :: "nat dlist"
  pp_ref :: "nat \<Rightarrow> u16"
  kmem :: "nat \<Rightarrow> nat \<Rightarrow> u32"
  tlb :: "(u32 \<times> u32) list"
  cur_pgdir :: "nat option"

text \<open>A \<open>Pte *\<close>: the page and the index of the word in it.\<close>

type_synonym pte_ptr = "nat \<times> nat"

definition set_word :: "nat \<Rightarrow> nat \<Rightarrow> u32 \<Rightarrow> 'a mstate_scheme \<Rightarrow> 'a mstate_scheme" where
  "set_word p i v s = s\<lparr>kmem := (kmem s)(p := (kmem s p)(i := v))\<rparr>"

definition set_ref :: "nat \<Rightarrow> u16 \<Rightarrow> 'a mstate_scheme \<Rightarrow> 'a mstate_scheme" where
  "set_ref p r s = s\<lparr>pp_ref := (pp_ref s)(p := r)\<rparr>"

text \<open>Bytes of a word, little endian (\<open>ENDIAN := EL\<close>), and stores of bytes at kernel addresses.\<close>

definition get_byte :: "u32 \<Rightarrow> nat \<Rightarrow> u8" where
  "get_byte w k = ucast (drop_bit (8 * k) w)"

definition put_byte :: "u32 \<Rightarrow> nat \<Rightarrow> u8 \<Rightarrow> u32" where
  "put_byte w k b = (w AND NOT (push_bit (8 * k) 0xFF)) OR push_bit (8 * k) (ucast b)"

definition kstore_byte :: "u32 \<Rightarrow> u8 \<Rightarrow> 'a mstate_scheme \<Rightarrow> 'a mstate_scheme" where
  "kstore_byte kva b s = (
     let p = PPN (kva - ULIM); o4 = unat (kva AND 0xFFF)
     in set_word p (o4 div 4) (put_byte (kmem s p (o4 div 4)) (o4 mod 4) b) s)"

definition kmemset :: "u32 \<Rightarrow> u8 \<Rightarrow> nat \<Rightarrow> 'a mstate_scheme \<Rightarrow> 'a mstate_scheme" where
  "kmemset kva b n s = fold (\<lambda>i. kstore_byte (kva + word_of_nat i) b) [0..<n] s"

section \<open>Boot\<close>

text \<open>The memory size is read from a device register; it is an argument here.\<close>

definition mips_detect_memory :: "u32 \<Rightarrow> 'a mstate_scheme \<Rightarrow> 'a mstate_scheme" where
  "mips_detect_memory dev_mp s = (
     let s = s\<lparr>memsize := dev_mp\<rparr>
     in s\<lparr>npage := unat (memsize s div BY2PG)\<rparr>)"

text \<open>The first address after the kernel image, the linker's symbol \<open>end\<close>, is the argument \<open>kend\<close>.\<close>

definition alloc :: "u32 \<Rightarrow> u32 \<Rightarrow> u32 \<Rightarrow> bool \<Rightarrow> 'a mstate_scheme \<Rightarrow> (u32 \<times> 'a mstate_scheme) option" where
  "alloc kend n align clear s = do {
     let s = (if freemem s = 0 then s\<lparr>freemem := kend\<rparr> else s);
     let s = s\<lparr>freemem := ROUND (freemem s) align\<rparr>;
     let alloced_mem = freemem s;
     let s = s\<lparr>freemem := freemem s + n\<rparr>;
     pa \<leftarrow> PADDR (freemem s);
     if pa \<ge> memsize s then None
     else
       let s = (if clear then kmemset alloced_mem 0 (unat n) s else s)
       in Some (alloced_mem, s)
   }"

definition SIZEOF_PAGE :: nat where "SIZEOF_PAGE = 12"

text \<open>The allocated array is zeroed: no page is linked and every count is 0.\<close>

definition mips_vm_init :: "u32 \<Rightarrow> 'a mstate_scheme \<Rightarrow> 'a mstate_scheme option" where
  "mips_vm_init kend s = do {
     (va, s) \<leftarrow> alloc kend (word_of_nat (npage s) * word_of_nat SIZEOF_PAGE) BY2PG True s;
     Some (s\<lparr>pages_va := va, pp_ref := (\<lambda>_. 0),
             page_free_list := (page_free_list s)\<lparr>le_next := (\<lambda>_. None), le_prev := (\<lambda>_. None)\<rparr>\<rparr>)
   }"

primrec page_init_loop :: "nat list \<Rightarrow> 'a mstate_scheme \<Rightarrow> 'a mstate_scheme option" where
  "page_init_loop [] s = Some s"
| "page_init_loop (i # is) s = do {
     kva \<leftarrow> page2kva (npage s) i;
     page_init_loop is
       (if kva < freemem s then set_ref i 1 s
        else (set_ref i 0 s)\<lparr>page_free_list := LIST_INSERT_HEAD i (page_free_list s)\<rparr>)
   }"

definition page_init :: "'a mstate_scheme \<Rightarrow> 'a mstate_scheme option" where
  "page_init s = (
     let s = s\<lparr>page_free_list := LIST_INIT (page_free_list s)\<rparr>;
         s = s\<lparr>freemem := ROUND (freemem s) BY2PG\<rparr>
     in page_init_loop [0..<npage s] s)"

section \<open>Physical pages\<close>

definition page_alloc :: "'a mstate_scheme \<Rightarrow> ((err + nat) \<times> 'a mstate_scheme) option" where
  "page_alloc s = (
     case LIST_FIRST (page_free_list s) of
       None \<Rightarrow> Some (Inl E_NO_MEM, s)
     | Some pp \<Rightarrow> do {
         fl \<leftarrow> LIST_REMOVE pp (page_free_list s);
         kva \<leftarrow> page2kva (npage s) pp;
         let s = s\<lparr>page_free_list := fl\<rparr>;
         let s = s\<lparr>kmem := (kmem s)(pp := (\<lambda>_. 0))\<rparr>;
         Some (Inr pp, s)
       })"

definition page_free :: "nat \<Rightarrow> 'a mstate_scheme \<Rightarrow> 'a mstate_scheme option" where
  "page_free pp s = (
     if pp_ref s pp = 0
     then Some (s\<lparr>page_free_list := LIST_INSERT_HEAD pp (page_free_list s)\<rparr>)
     else None)"

definition page_decref :: "nat \<Rightarrow> 'a mstate_scheme \<Rightarrow> 'a mstate_scheme option" where
  "page_decref pp s = (
     if pp_ref s pp > 0 then
       let s = set_ref pp (pp_ref s pp - 1) s
       in if pp_ref s pp = 0 then page_free pp s else Some s
     else None)"

definition page_incref :: "nat \<Rightarrow> 'a mstate_scheme \<Rightarrow> 'a mstate_scheme" where
  "page_incref pp s = set_ref pp (pp_ref s pp + 1) s"

section \<open>The TLB\<close>

text \<open>
  An entry matches when the virtual page agrees and, unless the entry is global, the ASID does.
  \<open>tlb_out\<close> (\<open>kern/tlb_asm.S\<close>) probes for the entry and overwrites the one it finds with zeros.
\<close>

definition tlb_match :: "u32 \<Rightarrow> u32 \<times> u32 \<Rightarrow> bool" where
  "tlb_match hi e \<longleftrightarrow> PTE_ADDR (fst e) = PTE_ADDR hi
     \<and> (snd e AND PTE_G \<noteq> 0 \<or> fst e AND 0xFC0 = hi AND 0xFC0)"

primrec tlb_zap :: "u32 \<Rightarrow> (u32 \<times> u32) list \<Rightarrow> (u32 \<times> u32) list" where
  "tlb_zap hi [] = []"
| "tlb_zap hi (e # es) = (if tlb_match hi e then (0, 0) # es else e # tlb_zap hi es)"

definition tlb_out :: "u32 \<Rightarrow> 'a mstate_scheme \<Rightarrow> 'a mstate_scheme" where
  "tlb_out entryhi s = s\<lparr>tlb := tlb_zap entryhi (tlb s)\<rparr>"

definition tlb_invalidate :: "u32 \<Rightarrow> u32 \<Rightarrow> 'a mstate_scheme \<Rightarrow> 'a mstate_scheme" where
  "tlb_invalidate asid va s = tlb_out (PTE_ADDR va OR push_bit 6 asid) s"

section \<open>Page tables\<close>

text \<open>\<open>pgdir_walk\<close> gives the null pointer as \<open>None\<close>.\<close>

definition pgdir_walk ::
  "nat \<Rightarrow> u32 \<Rightarrow> bool \<Rightarrow> 'a mstate_scheme \<Rightarrow> ((err + pte_ptr option) \<times> 'a mstate_scheme) option"
where
  "pgdir_walk pgdir va create s = (
     let entry = (\<lambda>s. do {
           kva \<leftarrow> KADDR (npage s) (PTE_ADDR (kmem s pgdir (PDX va)));
           Some (Inr (Some (PPN (kva - ULIM), PTX va)), s) })
     in if \<not> pte_valid (kmem s pgdir (PDX va)) then
          if create then do {
            (r, s) \<leftarrow> page_alloc s;
            (case r of
               Inl e \<Rightarrow> Some (Inl e, s)
             | Inr pp \<Rightarrow>
                 let s = set_word pgdir (PDX va) (page2pa pp) s;
                     s = set_word pgdir (PDX va) (kmem s pgdir (PDX va) OR PTE_V OR PTE_D) s;
                     s = page_incref pp s
                 in entry s)
          }
          else Some (Inr None, s)
        else entry s)"

definition page_lookup ::
  "nat \<Rightarrow> u32 \<Rightarrow> 'a mstate_scheme \<Rightarrow> ((nat \<times> pte_ptr) option \<times> 'a mstate_scheme) option"
where
  "page_lookup pgdir va s = do {
     (r, s) \<leftarrow> pgdir_walk pgdir va False s;
     (case r of
        Inr (Some (t, j)) \<Rightarrow>
          if \<not> pte_valid (kmem s t j) then Some (None, s)
          else do {
            pp \<leftarrow> pa2page (npage s) (kmem s t j);
            Some (Some (pp, (t, j)), s)
          }
      | _ \<Rightarrow> Some (None, s))
   }"

definition page_remove :: "nat \<Rightarrow> u32 \<Rightarrow> u32 \<Rightarrow> 'a mstate_scheme \<Rightarrow> 'a mstate_scheme option" where
  "page_remove pgdir asid va s = do {
     (r, s) \<leftarrow> page_lookup pgdir va s;
     (case r of
        None \<Rightarrow> Some s
      | Some (pp, (t, j)) \<Rightarrow> do {
          s \<leftarrow> page_decref pp s;
          let s = set_word t j 0 s;
          Some (tlb_invalidate asid va s)
        })
   }"

text \<open>Steps 2 to 4 of \<open>page_insert\<close>: flush, get or create the entry, fill it in.\<close>

definition page_insert_new ::
  "nat \<Rightarrow> u32 \<Rightarrow> nat \<Rightarrow> u32 \<Rightarrow> u32 \<Rightarrow> 'a mstate_scheme \<Rightarrow> ((err + unit) \<times> 'a mstate_scheme) option"
where
  "page_insert_new pgdir asid pp va perm s = do {
     let s = tlb_invalidate asid va s;
     (r, s) \<leftarrow> pgdir_walk pgdir va True s;
     (case r of
        Inl e \<Rightarrow> Some (Inl e, s)
      | Inr None \<Rightarrow> None
      | Inr (Some (t, j)) \<Rightarrow>
          let s = set_word t j (page2pa pp OR perm OR PTE_V) s;
              s = page_incref pp s
          in Some (Inr (), s))
   }"

definition page_insert ::
  "nat \<Rightarrow> u32 \<Rightarrow> nat \<Rightarrow> u32 \<Rightarrow> u32 \<Rightarrow> 'a mstate_scheme \<Rightarrow> ((err + unit) \<times> 'a mstate_scheme) option"
where
  "page_insert pgdir asid pp va perm s = do {
     (r, s) \<leftarrow> pgdir_walk pgdir va False s;
     (case r of
        Inr (Some (t, j)) \<Rightarrow>
          if pte_valid (kmem s t j) then do {
            q \<leftarrow> pa2page (npage s) (kmem s t j);
            if q \<noteq> pp then do {
              s \<leftarrow> page_remove pgdir asid va s;
              page_insert_new pgdir asid pp va perm s
            }
            else
              let s = tlb_invalidate asid va s
              in Some (Inr (), set_word t j (page2pa pp OR perm OR PTE_V) s)
          }
          else page_insert_new pgdir asid pp va perm s
      | _ \<Rightarrow> page_insert_new pgdir asid pp va perm s)
   }"

text \<open>\<open>va2pa\<close> (\<open>include/pmap.h\<close>): all ones when the address is not mapped.\<close>

definition va2pa :: "nat \<Rightarrow> u32 \<Rightarrow> 'a mstate_scheme \<Rightarrow> u32 option" where
  "va2pa pgdir va s = (
     if \<not> pte_valid (kmem s pgdir (PDX va)) then Some (NOT 0)
     else do {
       kva \<leftarrow> KADDR (npage s) (PTE_ADDR (kmem s pgdir (PDX va)));
       let pte = kmem s (PPN (kva - ULIM)) (PTX va);
       if \<not> pte_valid pte then Some (NOT 0) else Some (PTE_ADDR pte)
     })"

end
