(* ===== verification/Pmap_Inv.thy ===== *)
theory Pmap_Inv
  imports Pmap
begin

text \<open>
  The invariant of memory management and what the routines of \<open>kern/pmap.c\<close> do to an address space.

  \<open>D\<close> is the set of page directories in use. Their user entries and the entries of the page tables
  they refer to are the cells; a cell holds a reference to a physical page when its valid bit is
  set. The invariant \<open>mem_inv\<close> says that the free list is a well-formed list of pages with count 0,
  that no cell refers beyond the physical memory, that a page table belongs to exactly one entry of
  one directory, and that the count of every page is the number of cells that refer to it, plus one
  for a page directory, plus the references \<open>ext\<close> held elsewhere (the kernel's own pages).
\<close>

section \<open>Definitions\<close>

definition NUPDE :: nat where "NUPDE = PDX UTOP"

definition is_table :: "'a mstate_scheme \<Rightarrow> nat set \<Rightarrow> nat \<Rightarrow> bool" where
  "is_table s D t \<longleftrightarrow> (\<exists>d\<in>D. \<exists>i<NUPDE. pte_valid (kmem s d i) \<and> PPN (kmem s d i) = t)"

definition cells :: "'a mstate_scheme \<Rightarrow> nat set \<Rightarrow> (nat \<times> nat) set" where
  "cells s D = D \<times> {..<NUPDE} \<union> {t. is_table s D t} \<times> {..<1024}"

definition refset :: "'a mstate_scheme \<Rightarrow> nat set \<Rightarrow> nat \<Rightarrow> (nat \<times> nat) set" where
  "refset s D p = {c \<in> cells s D. pte_valid (kmem s (fst c) (snd c)) \<and> PPN (kmem s (fst c) (snd c)) = p}"

definition on_free_list :: "'a mstate_scheme \<Rightarrow> nat set" where
  "on_free_list s = {p. \<exists>xs. LIST_rep (page_free_list s) xs \<and> p \<in> set xs}"

definition free_inv :: "'a mstate_scheme \<Rightarrow> bool" where
  "free_inv s \<longleftrightarrow> (\<exists>xs. LIST_rep (page_free_list s) xs \<and> (\<forall>p\<in>set xs. p < npage s \<and> pp_ref s p = 0))"

definition table_inv :: "nat set \<Rightarrow> 'a mstate_scheme \<Rightarrow> bool" where
  "table_inv D s \<longleftrightarrow> finite D \<and> (\<forall>d\<in>D. d < npage s)
     \<and> (\<forall>c\<in>cells s D. pte_valid (kmem s (fst c) (snd c)) \<longrightarrow> PPN (kmem s (fst c) (snd c)) < npage s)
     \<and> (\<forall>t. is_table s D t \<longrightarrow> t \<notin> D)
     \<and> (\<forall>d\<in>D. \<forall>i<NUPDE. \<forall>d'\<in>D. \<forall>i'<NUPDE.
          pte_valid (kmem s d i) \<and> pte_valid (kmem s d' i') \<and> PPN (kmem s d i) = PPN (kmem s d' i')
          \<longrightarrow> d = d' \<and> i = i')"

definition ref_inv :: "(nat \<Rightarrow> nat) \<Rightarrow> nat set \<Rightarrow> 'a mstate_scheme \<Rightarrow> bool" where
  "ref_inv ext D s \<longleftrightarrow> (\<forall>p<npage s.
     unat (pp_ref s p) = card (refset s D p) + (if p \<in> D then 1 else 0) + ext p)"

definition mem_inv :: "(nat \<Rightarrow> nat) \<Rightarrow> nat set \<Rightarrow> 'a mstate_scheme \<Rightarrow> bool" where
  "mem_inv ext D s \<longleftrightarrow> npage s \<le> 2 ^ 20 \<and> free_inv s \<and> table_inv D s \<and> ref_inv ext D s"

text \<open>
  The abstract address space of a directory: what is mapped at the virtual page with directory
  index \<open>i\<close> and table index \<open>j\<close>.
\<close>

definition aspace :: "'a mstate_scheme \<Rightarrow> nat \<Rightarrow> nat \<Rightarrow> nat \<Rightarrow> u32 option" where
  "aspace s d i j = (
     let pde = kmem s d i; pte = kmem s (PPN pde) j
     in if pte_valid pde \<and> pte_valid pte then Some pte else None)"

section \<open>Cells and references\<close>

lemma is_tableI: "d \<in> D \<Longrightarrow> i < NUPDE \<Longrightarrow> pte_valid (kmem s d i) \<Longrightarrow> is_table s D (PPN (kmem s d i))"
  by (auto simp: is_table_def)

lemma is_table_cong:
  "(\<And>d i. d \<in> D \<Longrightarrow> i < NUPDE \<Longrightarrow> kmem s' d i = kmem s d i) \<Longrightarrow> is_table s' D = is_table s D"
  unfolding is_table_def by (intro ext bex_cong refl) (metis (no_types, lifting))

lemma finite_tables: "finite D \<Longrightarrow> finite {t. is_table s D t}"
proof -
  assume "finite D"
  moreover have "{t. is_table s D t} \<subseteq> (\<lambda>(d, i). PPN (kmem s d i)) ` (D \<times> {..<NUPDE})"
    by (auto simp: is_table_def)
  ultimately show ?thesis
    by (meson finite_SigmaI finite_imageI finite_lessThan finite_subset)
qed

lemma finite_refset [simp]: "finite D \<Longrightarrow> finite (refset s D p)"
  by (simp add: refset_def cells_def finite_tables)

lemma is_table_refset:
  "is_table s D t \<longleftrightarrow> (\<exists>c \<in> refset s D t. fst c \<in> D \<and> snd c < NUPDE)"
  by (fastforce simp: is_table_def refset_def cells_def)

text \<open>What the definitions depend on: the directory rows and the table rows.\<close>

definition same_tables :: "'a mstate_scheme \<Rightarrow> 'a mstate_scheme \<Rightarrow> nat set \<Rightarrow> bool" where
  "same_tables s s' D \<longleftrightarrow> (\<forall>d\<in>D. \<forall>i<NUPDE. kmem s' d i = kmem s d i)
     \<and> (\<forall>t. is_table s D t \<longrightarrow> (\<forall>j<1024. kmem s' t j = kmem s t j))"

lemma same_tables_is_table: "same_tables s s' D \<Longrightarrow> is_table s' D t = is_table s D t"
  using is_table_cong [of D s' s] by (auto simp: same_tables_def)

lemma same_tables_cells: "same_tables s s' D \<Longrightarrow> cells s' D = cells s D"
  by (simp add: cells_def same_tables_is_table)

lemma same_tables_kmem:
  "same_tables s s' D \<Longrightarrow> (a, b) \<in> cells s D \<Longrightarrow> kmem s' a b = kmem s a b"
  by (auto simp: same_tables_def cells_def)

lemma same_tables_refset: "same_tables s s' D \<Longrightarrow> refset s' D p = refset s D p"
  by (auto simp: refset_def same_tables_cells dest: same_tables_kmem)

lemma same_tables_aspace:
  assumes "same_tables s s' D" and "d \<in> D" and "i < NUPDE" and "j < 1024"
  shows "aspace s' d i j = aspace s d i j"
proof -
  have "kmem s' d i = kmem s d i"
    using assms by (simp add: same_tables_def)
  moreover have "pte_valid (kmem s d i) \<Longrightarrow> kmem s' (PPN (kmem s d i)) j = kmem s (PPN (kmem s d i)) j"
    using assms is_tableI [of d D i s] by (simp add: same_tables_def)
  ultimately show ?thesis
    by (auto simp: aspace_def Let_def)
qed

lemma same_tables_table_inv:
  "same_tables s s' D \<Longrightarrow> npage s' = npage s \<Longrightarrow> table_inv D s' = table_inv D s"
proof -
  assume st: "same_tables s s' D" and n: "npage s' = npage s"
  have "\<And>d i. d \<in> D \<Longrightarrow> i < NUPDE \<Longrightarrow> kmem s' d i = kmem s d i"
    using st by (simp add: same_tables_def)
  with st n show ?thesis
    by (simp add: table_inv_def same_tables_cells same_tables_is_table same_tables_kmem split_beta)
qed

lemma same_tables_ref_inv:
  "same_tables s s' D \<Longrightarrow> npage s' = npage s \<Longrightarrow> pp_ref s' = pp_ref s \<Longrightarrow> ref_inv ext D s' = ref_inv ext D s"
  by (simp add: ref_inv_def same_tables_refset)

lemma free_unreferenced:
  assumes "mem_inv ext D s" and "p < npage s" and "pp_ref s p = 0"
  shows "refset s D p = {}" and "p \<notin> D" and "ext p = 0" and "\<not> is_table s D p"
proof -
  from assms have *: "card (refset s D p) + (if p \<in> D then 1 else 0) + ext p = 0"
    by (auto simp: mem_inv_def ref_inv_def)
  moreover have "finite D"
    using assms(1) by (simp add: mem_inv_def table_inv_def)
  ultimately show r: "refset s D p = {}" and "p \<notin> D" and "ext p = 0"
    by (auto split: if_splits)
  from r show "\<not> is_table s D p"
    by (simp add: is_table_refset)
qed

lemma on_free_list_eq: "LIST_rep (page_free_list s) xs \<Longrightarrow> on_free_list s = set xs"
  by (auto simp: on_free_list_def dest: lst.rep_unique)

lemma free_inv_on_free_list: "free_inv s \<Longrightarrow> p \<in> on_free_list s \<Longrightarrow> p < npage s \<and> pp_ref s p = 0"
  by (auto simp: free_inv_def on_free_list_eq)

section \<open>Allocation\<close>

text \<open>A page that has been taken off the free list and that nothing refers to yet.\<close>

definition fresh_page :: "'a mstate_scheme \<Rightarrow> nat \<Rightarrow> bool" where
  "fresh_page s p \<longleftrightarrow> p < npage s \<and> pp_ref s p = 0 \<and> p \<notin> on_free_list s \<and> (\<forall>i. kmem s p i = 0)"

lemma page_alloc_empty:
  assumes "free_inv s" and "on_free_list s = {}"
  shows "page_alloc s = Some (Inl E_NO_MEM, s)"
proof -
  from assms have "LIST_rep (page_free_list s) []"
    by (auto simp: free_inv_def on_free_list_eq)
  then show ?thesis
    by (simp add: page_alloc_def lst.rep_first)
qed

lemma page_alloc_nonempty:
  assumes "mem_inv ext D s" and "on_free_list s \<noteq> {}"
  obtains p s' where "page_alloc s = Some (Inr p, s')" and "mem_inv ext D s'" and "fresh_page s' p"
    and "p \<in> on_free_list s" and "on_free_list s' = on_free_list s - {p}"
    and "same_tables s s' D" and "s' = s\<lparr>page_free_list := page_free_list s', kmem := (kmem s)(p := (\<lambda>_. 0))\<rparr>"
proof -
  from assms(1) have free: "free_inv s" and n: "npage s \<le> 2 ^ 20"
    by (auto simp: mem_inv_def)
  then obtain xs where xs: "LIST_rep (page_free_list s) xs" "\<forall>p\<in>set xs. p < npage s \<and> pp_ref s p = 0"
    by (auto simp: free_inv_def)
  with assms(2) obtain p ps where ps: "xs = p # ps"
    by (cases xs) (auto simp: on_free_list_eq)
  with xs have first: "LIST_FIRST (page_free_list s) = Some p"
    by (simp add: lst.rep_first)
  from xs ps lst.rep_remove [of "page_free_list s" "[]" p ps] obtain fl
    where fl: "LIST_REMOVE p (page_free_list s) = Some fl" "LIST_rep fl ps"
    by auto
  define s' where "s' = s\<lparr>page_free_list := fl, kmem := (kmem s)(p := (\<lambda>_. 0))\<rparr>"
  have p: "p < npage s" "pp_ref s p = 0" using xs ps by auto
  have alloc: "page_alloc s = Some (Inr p, s')"
    using first fl p n by (simp add: page_alloc_def page2kva_def KADDR_def s'_def)
  note unref = free_unreferenced [OF assms(1) p]
  have same: "same_tables s s' D"
    using unref by (auto simp: same_tables_def s'_def)
  have dist: "p \<notin> set ps" using lst.rep_distinct [OF xs(1)] ps by simp
  have ofl': "on_free_list s' = set ps"
    using fl by (intro on_free_list_eq) (simp add: s'_def)
  have "free_inv s'"
    unfolding free_inv_def using fl xs ps by (intro exI [of _ ps]) (auto simp: s'_def)
  then have "mem_inv ext D s'"
    using assms(1) same by (simp add: mem_inv_def same_tables_table_inv same_tables_ref_inv s'_def)
  moreover have "fresh_page s' p"
    using p dist ofl' by (simp add: fresh_page_def s'_def)
  moreover have "on_free_list s' = on_free_list s - {p}"
    using ofl' xs ps dist by (auto simp: on_free_list_eq)
  moreover have "p \<in> on_free_list s"
    using xs ps by (simp add: on_free_list_eq)
  moreover have "s' = s\<lparr>page_free_list := page_free_list s', kmem := (kmem s)(p := (\<lambda>_. 0))\<rparr>"
    by (simp add: s'_def)
  ultimately show thesis using alloc same that by blast
qed

section \<open>Changes to one cell\<close>

text \<open>Storing a value into an entry of a page table.\<close>

lemma set_table_word:
  assumes inv: "table_inv D s" and t: "is_table s D t" and j: "j < 1024"
  shows "is_table (set_word t j v s) D = is_table s D"
    and "cells (set_word t j v s) D = cells s D"
    and "refset (set_word t j v s) D q
      = (if pte_valid v \<and> PPN v = q then insert (t, j) (refset s D q) else refset s D q - {(t, j)})"
proof -
  from inv t have tD: "t \<notin> D"
    by (simp add: table_inv_def)
  then show tab: "is_table (set_word t j v s) D = is_table s D"
    by (intro is_table_cong) (auto simp: set_word_def)
  then show cel: "cells (set_word t j v s) D = cells s D"
    by (simp add: cells_def)
  have "(t, j) \<in> cells s D"
    using t j by (simp add: cells_def)
  with cel show "refset (set_word t j v s) D q
      = (if pte_valid v \<and> PPN v = q then insert (t, j) (refset s D q) else refset s D q - {(t, j)})"
    by (auto simp: refset_def set_word_def)
qed

lemma set_table_word_table_inv:
  assumes "table_inv D s" and "is_table s D t" and "j < 1024" and "pte_valid v \<Longrightarrow> PPN v < npage s"
  shows "table_inv D (set_word t j v s)"
proof -
  have "t \<notin> D" using assms(1,2) by (simp add: table_inv_def)
  then have dir: "\<And>d i. d \<in> D \<Longrightarrow> kmem (set_word t j v s) d i = kmem s d i"
    by (auto simp: set_word_def)
  have "\<And>c. c \<in> cells s D \<Longrightarrow> pte_valid (kmem (set_word t j v s) (fst c) (snd c)) \<Longrightarrow>
      PPN (kmem (set_word t j v s) (fst c) (snd c)) < npage s"
    using assms(1,4) by (auto simp: set_word_def table_inv_def)
  then show ?thesis
    using assms(1) set_table_word(1,2) [OF assms(1-3)] dir
    by (simp add: table_inv_def set_word_def)
qed

lemma table_inv_inj:
  "table_inv D s \<Longrightarrow> d \<in> D \<Longrightarrow> i < NUPDE \<Longrightarrow> d' \<in> D \<Longrightarrow> i' < NUPDE \<Longrightarrow> pte_valid (kmem s d i)
    \<Longrightarrow> pte_valid (kmem s d' i') \<Longrightarrow> PPN (kmem s d i) = PPN (kmem s d' i') \<Longrightarrow> d = d' \<and> i = i'"
  unfolding table_inv_def by blast

lemma table_invI:
  assumes "finite D" and "\<And>d. d \<in> D \<Longrightarrow> d < npage s"
    and "\<And>c. c \<in> cells s D \<Longrightarrow> pte_valid (kmem s (fst c) (snd c)) \<Longrightarrow> PPN (kmem s (fst c) (snd c)) < npage s"
    and "\<And>t. is_table s D t \<Longrightarrow> t \<notin> D"
    and "\<And>d i d' i'. d \<in> D \<Longrightarrow> i < NUPDE \<Longrightarrow> d' \<in> D \<Longrightarrow> i' < NUPDE \<Longrightarrow> pte_valid (kmem s d i)
      \<Longrightarrow> pte_valid (kmem s d' i') \<Longrightarrow> PPN (kmem s d i) = PPN (kmem s d' i') \<Longrightarrow> d = d' \<and> i = i'"
  shows "table_inv D s"
  unfolding table_inv_def using assms(1)
proof (intro conjI)
  show "\<forall>d\<in>D. \<forall>i<NUPDE. \<forall>d'\<in>D. \<forall>i'<NUPDE. pte_valid (kmem s d i) \<and> pte_valid (kmem s d' i')
      \<and> PPN (kmem s d i) = PPN (kmem s d' i') \<longrightarrow> d = d' \<and> i = i'"
    by (intro ballI allI impI, elim conjE, rule assms(5))
qed (use assms(2-4) in blast)+

text \<open>The address spaces after a store into the table of entry \<open>i\<close> of directory \<open>d\<close>.\<close>

lemma aspace_set_table_word:
  assumes inv: "table_inv D s" and d: "d \<in> D" "i < NUPDE" "pte_valid (kmem s d i)" and j: "j < 1024"
    and d': "d' \<in> D" "i' < NUPDE"
  shows "aspace (set_word (PPN (kmem s d i)) j v s) d' i' j'
    = (if d' = d \<and> i' = i \<and> j' = j then if pte_valid v then Some v else None else aspace s d' i' j')"
proof -
  let ?t = "PPN (kmem s d i)"
  have "?t \<notin> D"
    using inv is_tableI [of d D i s] d by (auto simp: table_inv_def)
  with d' have row: "kmem (set_word ?t j v s) d' i' = kmem s d' i'"
    by (auto simp: set_word_def)
  show ?thesis
  proof (cases "pte_valid (kmem s d' i') \<and> PPN (kmem s d' i') = ?t")
    case True
    with table_inv_inj [OF inv d'(1,2) d(1,2)] d(3) have "d' = d" "i' = i" by auto
    then show ?thesis
      using d(3) row by (auto simp: aspace_def Let_def set_word_def)
  next
    case False
    then have "\<not> (d' = d \<and> i' = i)" using d(3) by auto
    with False row show ?thesis
      by (auto simp: aspace_def Let_def) (simp_all add: set_word_def)
  qed
qed

section \<open>Reference counts\<close>

lemma page_decref_spec:
  assumes "free_inv s" and "q < npage s" and "pp_ref s q \<noteq> 0"
  obtains s' where "page_decref q s = Some s'" and "free_inv s'"
    and "s' = s\<lparr>page_free_list := page_free_list s', pp_ref := (pp_ref s)(q := pp_ref s q - 1)\<rparr>"
    and "on_free_list s' = on_free_list s \<union> (if pp_ref s q = 1 then {q} else {})"
proof -
  from assms(1) obtain xs where xs: "LIST_rep (page_free_list s) xs"
      "\<forall>p\<in>set xs. p < npage s \<and> pp_ref s p = 0"
    by (auto simp: free_inv_def)
  with assms(3) have q: "q \<notin> set xs" by auto
  have pos: "pp_ref s q > 0"
    using assms(3) by (simp add: word_neq_0_conv)
  show thesis
  proof (cases "pp_ref s q = 1")
    case True
    define s' where "s' = s\<lparr>page_free_list := LIST_INSERT_HEAD q (page_free_list s),
      pp_ref := (pp_ref s)(q := 0)\<rparr>"
    have rep: "LIST_rep (page_free_list s') (q # xs)"
      using xs q by (simp add: s'_def lst.rep_insert_head)
    moreover have "free_inv s'"
      unfolding free_inv_def using rep xs assms(2) by (intro exI [of _ "q # xs"]) (auto simp: s'_def)
    moreover have "page_decref q s = Some s'"
      using True by (simp add: page_decref_def set_ref_def page_free_def s'_def)
    ultimately show thesis
      using True xs by (intro that [of s']) (auto simp: s'_def on_free_list_eq)
  next
    case False
    define s' where "s' = s\<lparr>pp_ref := (pp_ref s)(q := pp_ref s q - 1)\<rparr>"
    have "pp_ref s q - 1 \<noteq> 0" using False by simp
    then have "page_decref q s = Some s'"
      using pos by (simp add: page_decref_def set_ref_def s'_def)
    moreover have "free_inv s'"
      unfolding free_inv_def using xs q by (intro exI [of _ xs]) (auto simp: s'_def)
    moreover have "on_free_list s' = on_free_list s"
      by (simp add: on_free_list_def s'_def)
    ultimately show thesis
      using False by (intro that [of s']) (auto simp: s'_def)
  qed
qed

lemma page_incref_fields [simp]:
  "kmem (page_incref q s) = kmem s" "npage (page_incref q s) = npage s"
  "page_free_list (page_incref q s) = page_free_list s"
  "pp_ref (page_incref q s) = (pp_ref s)(q := pp_ref s q + 1)"
  "tlb (page_incref q s) = tlb s"
  by (simp_all add: page_incref_def set_ref_def)

lemma set_word_fields [simp]:
  "npage (set_word p i v s) = npage s" "page_free_list (set_word p i v s) = page_free_list s"
  "pp_ref (set_word p i v s) = pp_ref s" "tlb (set_word p i v s) = tlb s"
  by (simp_all add: set_word_def)

text \<open>A change of the count, the free list or the TLB leaves the tables alone.\<close>

lemma same_kmem:
  assumes "kmem s' = kmem s"
  shows "is_table s' D = is_table s D" and "cells s' D = cells s D" and "refset s' D q = refset s D q"
    and "aspace s' = aspace s"
proof -
  show tab: "is_table s' D = is_table s D"
    by (intro ext) (simp add: is_table_def assms)
  then show cel: "cells s' D = cells s D" by (simp add: cells_def)
  with assms show "refset s' D q = refset s D q" by (simp add: refset_def)
  show "aspace s' = aspace s" by (intro ext) (simp add: aspace_def assms)
qed

lemma same_kmem_table_inv: "kmem s' = kmem s \<Longrightarrow> npage s' = npage s \<Longrightarrow> table_inv D s' = table_inv D s"
  using same_kmem(1,2) [of s' s D] by (simp add: table_inv_def)

lemma same_kmem_mem_inv:
  assumes "kmem s' = kmem s" and "npage s' = npage s" and "pp_ref s' = pp_ref s"
    and "page_free_list s' = page_free_list s"
  shows "mem_inv ext D s' = mem_inv ext D s"
proof -
  have "table_inv D s' = table_inv D s"
    using assms(1,2) by (rule same_kmem_table_inv)
  moreover have "ref_inv ext D s' = ref_inv ext D s"
    unfolding ref_inv_def same_kmem(3) [OF assms(1)] assms(2,3) ..
  ultimately show ?thesis
    by (simp add: mem_inv_def free_inv_def assms(2-4))
qed

lemma free_inv_incref:
  assumes "free_inv s" and "q \<notin> on_free_list s"
  shows "free_inv (page_incref q s)"
proof -
  from assms(1) obtain xs where "LIST_rep (page_free_list s) xs"
      "\<forall>p\<in>set xs. p < npage s \<and> pp_ref s p = 0"
    by (auto simp: free_inv_def)
  with assms(2) show ?thesis
    unfolding free_inv_def by (intro exI [of _ xs]) (auto simp: on_free_list_eq)
qed

section \<open>Changes of mappings keep the invariant\<close>

text \<open>An invalid entry of a page table becomes a reference to \<open>q\<close>, and its count goes up.\<close>

lemma add_mapping:
  assumes inv: "mem_inv ext D s" and t: "is_table s D t" and j: "j < 1024"
    and old: "\<not> pte_valid (kmem s t j)" and v: "pte_valid v" "PPN v = q"
    and q: "q < npage s" "q \<notin> on_free_list s" "unat (pp_ref s q) < 65535"
  shows "mem_inv ext D (page_incref q (set_word t j v s))"
proof -
  let ?s = "page_incref q (set_word t j v s)"
  from inv have tab: "table_inv D s" and free: "free_inv s" and ref: "ref_inv ext D s"
    and np: "npage s \<le> 2 ^ 20" and fin: "finite D"
    by (auto simp: mem_inv_def table_inv_def)
  have "table_inv D (set_word t j v s)"
    using tab t j v q(1) by (intro set_table_word_table_inv) auto
  then have "table_inv D ?s"
    using same_kmem_table_inv [of ?s "set_word t j v s"] by simp
  moreover have "free_inv ?s"
  proof (rule free_inv_incref)
    show "free_inv (set_word t j v s)" using free by (simp add: free_inv_def)
    show "q \<notin> on_free_list (set_word t j v s)" using q(2) by (simp add: on_free_list_def)
  qed
  moreover have "ref_inv ext D ?s"
  proof -
    have notin: "(t, j) \<notin> refset s D p" for p
      using old by (simp add: refset_def)
    have "refset ?s D p = (if p = q then insert (t, j) (refset s D p) else refset s D p)" for p
      using set_table_word(3) [OF tab t j, of v p] v notin same_kmem(3) [of ?s "set_word t j v s" D p]
      by auto
    moreover have "unat (pp_ref s q + 1) = unat (pp_ref s q) + 1"
      using q(3) by (intro unat_inc) simp
    ultimately show ?thesis
      using ref fin notin by (auto simp: ref_inv_def)
  qed
  ultimately show ?thesis
    using np by (simp add: mem_inv_def)
qed

text \<open>A valid entry that refers to \<open>q\<close> is cleared after the count has gone down.\<close>

lemma del_mapping:
  assumes inv: "mem_inv ext D s" and t: "is_table s D t" and j: "j < 1024"
    and old: "pte_valid (kmem s t j)" "PPN (kmem s t j) = q"
  obtains s' where "page_decref q s = Some s'" and "mem_inv ext D (set_word t j 0 s')"
    and "s' = s\<lparr>page_free_list := page_free_list s', pp_ref := (pp_ref s)(q := pp_ref s q - 1)\<rparr>"
    and "on_free_list s' = on_free_list s \<union> (if pp_ref s q = 1 then {q} else {})"
proof -
  from inv have tab: "table_inv D s" and free: "free_inv s" and ref: "ref_inv ext D s"
    and np: "npage s \<le> 2 ^ 20" and fin: "finite D"
    by (auto simp: mem_inv_def table_inv_def)
  have cell: "(t, j) \<in> cells s D" using t j by (simp add: cells_def)
  then have mem: "(t, j) \<in> refset s D q" using old by (simp add: refset_def)
  have q: "q < npage s" using tab cell old by (auto simp: table_inv_def)
  have card: "card (refset s D q) > 0"
    using mem fin finite_refset card_gt_0_iff by blast
  then have nz: "pp_ref s q \<noteq> 0"
    using ref q by (auto simp: ref_inv_def)
  from page_decref_spec [OF free q nz] obtain s' where s': "page_decref q s = Some s'" "free_inv s'"
    "s' = s\<lparr>page_free_list := page_free_list s', pp_ref := (pp_ref s)(q := pp_ref s q - 1)\<rparr>"
    "on_free_list s' = on_free_list s \<union> (if pp_ref s q = 1 then {q} else {})"
    by blast
  have km: "kmem s' = kmem s" and n': "npage s' = npage s"
    and pr: "pp_ref s' = (pp_ref s)(q := pp_ref s q - 1)"
    using arg_cong [OF s'(3), of kmem] arg_cong [OF s'(3), of npage] arg_cong [OF s'(3), of pp_ref]
    by simp_all
  let ?s = "set_word t j 0 s'"
  have tab': "table_inv D s'" and t': "is_table s' D t"
    using tab t by (simp_all add: same_kmem_table_inv [OF km n'] same_kmem(1) [OF km])
  then have "table_inv D ?s" using j by (intro set_table_word_table_inv) auto
  moreover have "free_inv ?s" using s'(2) by (simp add: free_inv_def)
  moreover have "ref_inv ext D ?s"
  proof -
    have "refset ?s D p = (if p = q then refset s D p - {(t, j)} else refset s D p)" for p
      using set_table_word(3) [OF tab' t' j, of 0 p] same_kmem(3) [OF km, of D p] old
      by (auto simp: refset_def)
    moreover have "unat (pp_ref s q - 1) = unat (pp_ref s q) - 1"
      using nz by (rule unat_dec)
    ultimately show ?thesis
      using ref fin mem card pr n' by (auto simp: ref_inv_def)
  qed
  ultimately have "mem_inv ext D ?s" using np n' by (simp add: mem_inv_def)
  with s' that show thesis by blast
qed

text \<open>A valid entry changes its permissions and keeps its page.\<close>

lemma replace_mapping:
  assumes inv: "mem_inv ext D s" and t: "is_table s D t" and j: "j < 1024"
    and old: "pte_valid (kmem s t j)" and v: "pte_valid v" "PPN v = PPN (kmem s t j)"
  shows "mem_inv ext D (set_word t j v s)"
proof -
  from inv have tab: "table_inv D s" and free: "free_inv s" and ref: "ref_inv ext D s"
    and np: "npage s \<le> 2 ^ 20"
    by (auto simp: mem_inv_def)
  have cell: "(t, j) \<in> cells s D" using t j by (simp add: cells_def)
  with tab old v have "PPN v < npage s" by (auto simp: table_inv_def)
  with tab t j have "table_inv D (set_word t j v s)" by (intro set_table_word_table_inv)
  moreover have "refset (set_word t j v s) D p = refset s D p" for p
    using set_table_word(3) [OF tab t j, of v p] v old cell by (auto simp: refset_def)
  then have "ref_inv ext D (set_word t j v s)" using ref by (simp add: ref_inv_def)
  ultimately show ?thesis using np free by (simp add: mem_inv_def free_inv_def)
qed

text \<open>
  A fresh page \<open>p\<close> becomes the page table of an unused directory entry: the cells of the new table
  are added, all of them invalid, and the directory entry is the only reference to it.
\<close>

lemma install_table_cells:
  assumes inv: "mem_inv ext D s" and d: "d \<in> D" "i < NUPDE" "\<not> pte_valid (kmem s d i)"
    and p: "fresh_page s p" and v: "pte_valid v" "PPN v = p"
  defines "s' \<equiv> set_word d i v s"
  shows "is_table s' D t \<longleftrightarrow> is_table s D t \<or> t = p"
    and "cells s' D = cells s D \<union> {p} \<times> {..<1024}"
    and "refset s' D q = refset s D q \<union> (if q = p then {(d, i)} else {})"
    and "d \<noteq> p"
proof -
  from p have pn: "p < npage s" "pp_ref s p = 0" and zero: "\<And>k. kmem s p k = 0"
    by (simp_all add: fresh_page_def)
  note unref = free_unreferenced [OF inv pn]
  show dp: "d \<noteq> p" using d(1) unref(2) by auto
  have row: "kmem s' x k = (if x = d \<and> k = i then v else kmem s x k)" for x k
    by (simp add: s'_def set_word_def)
  have tabs: "is_table s' D t \<longleftrightarrow> is_table s D t \<or> t = p" for t
  proof
    show "is_table s' D t \<Longrightarrow> is_table s D t \<or> t = p"
      using v by (auto simp: is_table_def row split: if_splits)
    assume "is_table s D t \<or> t = p"
    then consider e k where "e \<in> D" "k < NUPDE" "pte_valid (kmem s e k)" "PPN (kmem s e k) = t" | "t = p"
      by (auto simp: is_table_def)
    then show "is_table s' D t"
    proof cases
      case 1
      with d(3) show ?thesis by (auto simp: is_table_def row intro!: bexI [of _ e] exI [of _ k])
    next
      case 2
      with d v show ?thesis by (auto simp: is_table_def row intro!: bexI [of _ d] exI [of _ i])
    qed
  qed
  then show "is_table s' D t \<longleftrightarrow> is_table s D t \<or> t = p" .
  show cel: "cells s' D = cells s D \<union> {p} \<times> {..<1024}"
    using tabs by (auto simp: cells_def)
  have "(d, i) \<in> cells s D" using d by (auto simp: cells_def)
  then show "refset s' D q = refset s D q \<union> (if q = p then {(d, i)} else {})"
    using cel d(3) v zero dp by (auto simp: refset_def row)
qed

lemma install_table_table_inv:
  assumes inv: "mem_inv ext D s" and d: "d \<in> D" "i < NUPDE" "\<not> pte_valid (kmem s d i)"
    and p: "fresh_page s p" and v: "pte_valid v" "PPN v = p"
  shows "table_inv D (set_word d i v s)"
proof -
  let ?s = "set_word d i v s"
  from inv have tab: "table_inv D s" by (simp add: mem_inv_def)
  from p have pn: "p < npage s" "pp_ref s p = 0" and zero: "\<And>k. kmem s p k = 0"
    by (simp_all add: fresh_page_def)
  note unref = free_unreferenced [OF inv pn] and inst = install_table_cells [OF assms]
  have row: "kmem ?s x k = (if x = d \<and> k = i then v else kmem s x k)" for x k
    by (simp add: set_word_def)
  have range: "PPN (kmem ?s (fst c) (snd c)) < npage s"
    if "c \<in> cells ?s D" "pte_valid (kmem ?s (fst c) (snd c))" for c
    using that tab inst(2) v pn(1) zero inst(4) by (auto simp: table_inv_def row split: if_splits)
  have notdir: "\<forall>t. is_table ?s D t \<longrightarrow> t \<notin> D"
    using inst(1) tab unref(2) by (auto simp: table_inv_def)
  have inj: "e = e' \<and> k = k'"
    if a: "e \<in> D" "k < NUPDE" "e' \<in> D" "k' < NUPDE"
      "pte_valid (kmem ?s e k)" "pte_valid (kmem ?s e' k')" "PPN (kmem ?s e k) = PPN (kmem ?s e' k')"
    for e k e' k'
  proof -
    have np: "PPN (kmem s x y) \<noteq> p" if "x \<in> D" "y < NUPDE" "pte_valid (kmem s x y)" for x y
      using that unref(4) is_tableI by metis
    show ?thesis
    proof (cases "(e = d \<and> k = i) \<or> (e' = d \<and> k' = i)")
      case True
      with a(5-7) np [OF a(1,2)] np [OF a(3,4)] v show ?thesis
        by (metis row)
    next
      case False
      then have "kmem ?s e k = kmem s e k" "kmem ?s e' k' = kmem s e' k'"
        by (auto simp: row)
      with a(5-7) show ?thesis by (intro table_inv_inj [OF tab a(1,2,3,4)]) simp_all
    qed
  qed
  show ?thesis
    by (rule table_invI) (use tab range notdir inj in \<open>auto simp: table_inv_def\<close>)
qed

lemma install_table:
  assumes inv: "mem_inv ext D s" and d: "d \<in> D" "i < NUPDE" "\<not> pte_valid (kmem s d i)"
    and p: "fresh_page s p" and v: "pte_valid v" "PPN v = p"
  shows "mem_inv ext D (page_incref p (set_word d i v s))"
proof -
  let ?s = "page_incref p (set_word d i v s)"
  from inv have free: "free_inv s" and ref: "ref_inv ext D s" and np: "npage s \<le> 2 ^ 20" and fin: "finite D"
    by (auto simp: mem_inv_def table_inv_def)
  from p have pn: "p < npage s" "pp_ref s p = 0" "p \<notin> on_free_list s"
    by (simp_all add: fresh_page_def)
  note unref = free_unreferenced [OF inv pn(1,2)]
  have refs: "refset ?s D q = refset s D q \<union> (if q = p then {(d, i)} else {})" for q
    using install_table_cells(3) [OF assms, of q] same_kmem(3) [of ?s "set_word d i v s" D q] by simp
  have "table_inv D ?s"
    using install_table_table_inv [OF assms] same_kmem_table_inv [of ?s "set_word d i v s" D] by simp
  moreover have "free_inv ?s"
    using free pn(3) by (intro free_inv_incref) (simp_all add: free_inv_def on_free_list_def)
  moreover have "ref_inv ext D ?s"
    using ref refs pn unref by (auto simp: ref_inv_def)
  ultimately show ?thesis
    using np by (simp add: mem_inv_def)
qed

lemma install_table_aspace:
  assumes inv: "mem_inv ext D s" and d: "d \<in> D" "i < NUPDE" "\<not> pte_valid (kmem s d i)"
    and p: "fresh_page s p" and v: "pte_valid v" "PPN v = p" and d': "d' \<in> D" "i' < NUPDE"
  shows "aspace (page_incref p (set_word d i v s)) d' i' j = aspace s d' i' j"
proof -
  let ?s = "set_word d i v s"
  have row: "kmem ?s x k = (if x = d \<and> k = i then v else kmem s x k)" for x k
    by (simp add: set_word_def)
  have "aspace ?s d' i' j = aspace s d' i' j"
  proof (cases "d' = d \<and> i' = i")
    case True
    with d(3) v p install_table_cells(4) [OF inv d p v] show ?thesis
      by (auto simp: aspace_def Let_def row fresh_page_def)
  next
    case False
    have "PPN (kmem s d' i') \<noteq> d" if "pte_valid (kmem s d' i')"
      using inv is_tableI [OF d' that] d(1) by (auto simp: mem_inv_def table_inv_def)
    with False show ?thesis by (auto simp: aspace_def Let_def row)
  qed
  then show ?thesis using same_kmem(4) [of "page_incref p ?s" ?s] by simp
qed

end
