(* ===== verification/Pmap_Spec.thy ===== *)
theory Pmap_Spec
  imports Pmap_Inv
begin

text \<open>
  What the routines of \<open>kern/pmap.c\<close> do on a state that satisfies \<open>mem_inv\<close>: the walk over the two
  levels, the mapping, unmapping and lookup of a page as operations on the abstract address space
  \<open>aspace\<close>, the frame of each routine, and the boot of the free list.
\<close>

section \<open>Frames\<close>

text \<open>The fields that no routine on mappings changes, the later extensions of the record included.\<close>

definition mem_frame :: "'a mstate_scheme \<Rightarrow> 'a mstate_scheme \<Rightarrow> bool" where
  "mem_frame s s' \<longleftrightarrow> memsize s' = memsize s \<and> npage s' = npage s \<and> freemem s' = freemem s
     \<and> pages_va s' = pages_va s \<and> cur_pgdir s' = cur_pgdir s \<and> mstate.more s' = mstate.more s"

lemma mem_frame_refl [simp]: "mem_frame s s"
  by (simp add: mem_frame_def)

lemma mem_frame_trans: "mem_frame s t \<Longrightarrow> mem_frame t u \<Longrightarrow> mem_frame s u"
  by (simp add: mem_frame_def)

lemma mem_frame_simps [simp]:
  "mem_frame s (set_word p i v t) = mem_frame s t"
  "mem_frame s (page_incref p t) = mem_frame s t"
  "mem_frame s (tlb_invalidate a va t) = mem_frame s t"
  "mem_frame (tlb_invalidate a va s) t = mem_frame s t"
  "mem_frame (set_word p i v s) t = mem_frame s t"
  "mem_frame (page_incref p s) t = mem_frame s t"
  by (simp_all add: mem_frame_def set_word_def page_incref_def set_ref_def tlb_invalidate_def tlb_out_def)

lemma page_alloc_frame [kframe]: "page_alloc s = Some (r, s') \<Longrightarrow> mem_frame s s'"
  by (auto simp: page_alloc_def mem_frame_def split: option.split_asm)

lemma page_free_frame [kframe]: "page_free p s = Some s' \<Longrightarrow> mem_frame s s'"
  by (auto simp: page_free_def mem_frame_def split: if_splits)

lemma page_decref_frame [kframe]: "page_decref p s = Some s' \<Longrightarrow> mem_frame s s'"
  by (auto simp: page_decref_def page_free_def set_ref_def mem_frame_def Let_def split: if_splits)

lemma pgdir_walk_frame [kframe]: "pgdir_walk d va c s = Some (r, s') \<Longrightarrow> mem_frame s s'"
  by (auto simp: pgdir_walk_def Let_def split: if_splits sum.split_asm dest!: page_alloc_frame)

lemma pgdir_walk_lookup: "pgdir_walk d va False s = Some (r, s') \<Longrightarrow> s' = s"
  by (auto simp: pgdir_walk_def split: if_splits)

lemma page_lookup_state: "page_lookup d va s = Some (r, s') \<Longrightarrow> s' = s"
  by (auto simp: page_lookup_def split: sum.split_asm option.split_asm prod.split_asm if_splits dest!: pgdir_walk_lookup)

lemma page_remove_frame [kframe]: "page_remove d a va s = Some s' \<Longrightarrow> mem_frame s s'"
  by (auto simp: page_remove_def split: option.split_asm prod.split_asm dest!: page_lookup_state page_decref_frame
      elim: mem_frame_trans)

lemma page_insert_new_frame [kframe]: "page_insert_new d a p va perm s = Some (r, s') \<Longrightarrow> mem_frame s s'"
  by (auto simp: page_insert_new_def split: sum.split_asm option.split_asm prod.split_asm dest!: pgdir_walk_frame
      elim: mem_frame_trans)

lemma page_insert_frame [kframe]: "page_insert d a p va perm s = Some (r, s') \<Longrightarrow> mem_frame s s'"
  using mem_frame_trans [of s _ s']
  by (auto simp: page_insert_def split: sum.split_asm option.split_asm prod.split_asm if_splits
      dest!: pgdir_walk_lookup page_remove_frame page_insert_new_frame)

section \<open>The walk\<close>

lemma user_index: "va < UTOP \<Longrightarrow> PDX va < NUPDE"
  by (simp add: NUPDE_def PDX_user)

lemma dir_entry_range:
  assumes "table_inv D s" and "d \<in> D" and "i < NUPDE" and "pte_valid (kmem s d i)"
  shows "PPN (kmem s d i) < npage s"
proof -
  have "(d, i) \<in> cells s D" using assms(2,3) by (simp add: cells_def)
  with assms(1,4) show ?thesis by (force simp: table_inv_def)
qed

lemma table_entry_range:
  assumes "table_inv D s" and "is_table s D t" and "j < 1024" and "pte_valid (kmem s t j)"
  shows "PPN (kmem s t j) < npage s"
proof -
  have "(t, j) \<in> cells s D" using assms(2,3) by (simp add: cells_def)
  with assms(1,4) show ?thesis by (force simp: table_inv_def)
qed

lemma walk_present:
  assumes "table_inv D s" and "d \<in> D" and "va < UTOP" and "pte_valid (kmem s d (PDX va))"
  shows "pgdir_walk d va c s = Some (Inr (Some (PPN (kmem s d (PDX va)), PTX va)), s)"
  using assms dir_entry_range [OF assms(1,2) user_index [OF assms(3)] assms(4)]
  by (simp add: pgdir_walk_def)

lemma walk_absent:
  "\<not> pte_valid (kmem s d (PDX va)) \<Longrightarrow> pgdir_walk d va False s = Some (Inr None, s)"
  by (simp add: pgdir_walk_def)

lemma walk_create_full:
  "free_inv s \<Longrightarrow> on_free_list s = {} \<Longrightarrow> \<not> pte_valid (kmem s d (PDX va))
    \<Longrightarrow> pgdir_walk d va True s = Some (Inl E_NO_MEM, s)"
  by (simp add: pgdir_walk_def page_alloc_empty)

text \<open>A new page table is taken from the free list, and no address space changes.\<close>

lemma walk_create:
  assumes inv: "mem_inv ext D s" and d: "d \<in> D" and va: "va < UTOP"
    and pde: "\<not> pte_valid (kmem s d (PDX va))" and free: "on_free_list s \<noteq> {}"
  obtains p s' where "pgdir_walk d va True s = Some (Inr (Some (p, PTX va)), s')"
    and "mem_inv ext D s'" and "pte_valid (kmem s' d (PDX va))" and "PPN (kmem s' d (PDX va)) = p"
    and "\<And>d' i j. d' \<in> D \<Longrightarrow> i < NUPDE \<Longrightarrow> j < 1024 \<Longrightarrow> aspace s' d' i j = aspace s d' i j"
    and "p \<in> on_free_list s" and "on_free_list s' = on_free_list s - {p}"
    and "pp_ref s' = (pp_ref s)(p := 1)" and "tlb s' = tlb s" and "npage s' = npage s"
    and "\<And>t. is_table s' D t \<Longrightarrow> is_table s D t \<or> t = p"
    and "\<And>x. x \<noteq> d \<Longrightarrow> x \<noteq> p \<Longrightarrow> kmem s' x = kmem s x"
proof -
  from page_alloc_nonempty [OF inv free] obtain p s1 where
    alloc: "page_alloc s = Some (Inr p, s1)" "mem_inv ext D s1" "fresh_page s1 p" and
    fl: "p \<in> on_free_list s" "on_free_list s1 = on_free_list s - {p}" and
    same: "same_tables s s1 D" and
    s1: "s1 = s\<lparr>page_free_list := page_free_list s1, kmem := (kmem s)(p := (\<lambda>_. 0))\<rparr>"
    by blast
  have s1f: "npage s1 = npage s" "pp_ref s1 = pp_ref s" "tlb s1 = tlb s"
    using arg_cong [OF s1, of npage] arg_cong [OF s1, of pp_ref] arg_cong [OF s1, of tlb] by simp_all
  have i: "PDX va < NUPDE" using va by (rule user_index)
  have p: "p < npage s" "p < 2 ^ 20" "pp_ref s p = 0"
    using alloc(2,3) s1f by (auto simp: fresh_page_def mem_inv_def)
  define v where "v = page2pa p OR PTE_V OR PTE_D"
  define s' where "s' = page_incref p (set_word d (PDX va) v s1)"
  have v: "pte_valid v" "PPN v = p" using p(2) by (simp_all add: v_def)
  have pde1: "\<not> pte_valid (kmem s1 d (PDX va))"
    using same d i pde by (simp add: same_tables_def)
  have eq: "page_incref p (set_word d (PDX va) (kmem (set_word d (PDX va) (page2pa p) s1) d (PDX va) OR PTE_V OR PTE_D)
      (set_word d (PDX va) (page2pa p) s1)) = s'"
    by (simp add: s'_def v_def set_word_def page_incref_def set_ref_def)
  have row: "kmem s' d (PDX va) = v"
    by (simp add: s'_def) (simp add: set_word_def)
  have "npage s' = npage s" by (simp add: s'_def s1f)
  then have walk: "pgdir_walk d va True s = Some (Inr (Some (p, PTX va)), s')"
    using pde alloc(1) p v row by (simp add: pgdir_walk_def eq Let_def)
  have inv': "mem_inv ext D s'"
    unfolding s'_def using alloc(2,3) d i pde1 v by (intro install_table)
  have asp: "aspace s' d' k j = aspace s d' k j" if "d' \<in> D" "k < NUPDE" "j < 1024" for d' k j
    using install_table_aspace [OF alloc(2) d i pde1 alloc(3) v that(1,2)] same_tables_aspace [OF same that]
    by (simp add: s'_def)
  have fl': "on_free_list s' = on_free_list s - {p}"
    using fl by (simp add: on_free_list_def s'_def)
  have tabs: "is_table s D t \<or> t = p" if "is_table s' D t" for t
    using that install_table_cells(1) [OF alloc(2) d i pde1 alloc(3) v, of t]
      same_kmem(1) [of s' "set_word d (PDX va) v s1"] same_tables_is_table [OF same, of t]
    by (simp add: s'_def)
  have rows: "kmem s' x = kmem s x" if "x \<noteq> d" "x \<noteq> p" for x
    using that arg_cong [OF s1, of kmem] by (simp add: s'_def) (simp add: set_word_def)
  show thesis
    using that [OF walk inv' _ _ asp fl(1) fl' _ _ _ tabs rows] row v s1f p
    by (simp add: s'_def)
qed

section \<open>Lookup, removal and insertion\<close>

lemma tlb_invalidate_fields [simp]:
  "kmem (tlb_invalidate a va s) = kmem s" "npage (tlb_invalidate a va s) = npage s"
  "pp_ref (tlb_invalidate a va s) = pp_ref s" "page_free_list (tlb_invalidate a va s) = page_free_list s"
  by (simp_all add: tlb_invalidate_def tlb_out_def)

lemma tlb_invalidate_inv [simp]:
  "mem_inv ext D (tlb_invalidate a va s) = mem_inv ext D s"
  "aspace (tlb_invalidate a va s) = aspace s"
  "on_free_list (tlb_invalidate a va s) = on_free_list s"
  using same_kmem_mem_inv [of "tlb_invalidate a va s" s] same_kmem(4) [of "tlb_invalidate a va s" s]
  by (simp_all add: on_free_list_def)

lemma lookup_unmapped:
  assumes "table_inv D s" and "d \<in> D" and "va < UTOP" and "aspace s d (PDX va) (PTX va) = None"
  shows "page_lookup d va s = Some (None, s)"
proof (cases "pte_valid (kmem s d (PDX va))")
  case True
  with assms show ?thesis
    by (simp add: page_lookup_def walk_present) (auto simp: aspace_def Let_def split: if_splits)
qed (simp add: page_lookup_def walk_absent)

lemma lookup_mapped:
  assumes inv: "table_inv D s" and d: "d \<in> D" and va: "va < UTOP"
    and m: "aspace s d (PDX va) (PTX va) = Some pte"
  defines "t \<equiv> PPN (kmem s d (PDX va))"
  shows "page_lookup d va s = Some (Some (PPN pte, (t, PTX va)), s)"
    and "pte_valid (kmem s d (PDX va))" and "is_table s D t"
    and "kmem s t (PTX va) = pte" and "pte_valid pte" and "PPN pte < npage s"
proof -
  from m show *: "pte_valid (kmem s d (PDX va))" "kmem s t (PTX va) = pte" "pte_valid pte"
    by (auto simp: aspace_def Let_def t_def split: if_splits)
  then show t: "is_table s D t"
    unfolding t_def using d user_index [OF va] by (intro is_tableI)
  with * table_entry_range [OF inv t, of "PTX va"] show "PPN pte < npage s" by simp
  with * show "page_lookup d va s = Some (Some (PPN pte, (t, PTX va)), s)"
    by (simp add: page_lookup_def walk_present [OF inv d va] pa2page_def flip: t_def)
qed

lemma page_remove_unmapped:
  "table_inv D s \<Longrightarrow> d \<in> D \<Longrightarrow> va < UTOP \<Longrightarrow> aspace s d (PDX va) (PTX va) = None
    \<Longrightarrow> page_remove d a va s = Some s"
  by (simp add: page_remove_def lookup_unmapped)

lemma page_remove_mapped:
  assumes inv: "mem_inv ext D s" and d: "d \<in> D" and va: "va < UTOP"
    and m: "aspace s d (PDX va) (PTX va) = Some pte"
  obtains s' where "page_remove d a va s = Some s'" and "mem_inv ext D s'"
    and "\<And>d' i j. d' \<in> D \<Longrightarrow> i < NUPDE \<Longrightarrow> aspace s' d' i j
       = (if d' = d \<and> i = PDX va \<and> j = PTX va then None else aspace s d' i j)"
    and "\<And>x k. x \<in> D \<Longrightarrow> kmem s' x k = kmem s x k" and "npage s' = npage s"
    and "pp_ref s' = (pp_ref s)(PPN pte := pp_ref s (PPN pte) - 1)"
    and "on_free_list s' = on_free_list s \<union> (if pp_ref s (PPN pte) = 1 then {PPN pte} else {})"
    and "tlb s' = tlb_zap (PTE_ADDR va OR push_bit 6 a) (tlb s)"
    and "\<And>x. \<not> is_table s D x \<Longrightarrow> kmem s' x = kmem s x"
proof -
  let ?t = "PPN (kmem s d (PDX va))"
  from inv have tab: "table_inv D s" by (simp add: mem_inv_def)
  note lk = lookup_mapped [OF tab d va m]
  have i: "PDX va < NUPDE" using va by (rule user_index)
  from del_mapping [OF inv lk(3) PTX_less, of va "PPN pte"] lk obtain s1 where
    s1: "page_decref (PPN pte) s = Some s1" "mem_inv ext D (set_word ?t (PTX va) 0 s1)"
      "s1 = s\<lparr>page_free_list := page_free_list s1, pp_ref := (pp_ref s)(PPN pte := pp_ref s (PPN pte) - 1)\<rparr>"
      "on_free_list s1 = on_free_list s \<union> (if pp_ref s (PPN pte) = 1 then {PPN pte} else {})"
    by metis
  have km: "kmem s1 = kmem s" "npage s1 = npage s" "tlb s1 = tlb s"
      "pp_ref s1 = (pp_ref s)(PPN pte := pp_ref s (PPN pte) - 1)"
    using arg_cong [OF s1(3), of kmem] arg_cong [OF s1(3), of npage] arg_cong [OF s1(3), of tlb]
      arg_cong [OF s1(3), of pp_ref] by simp_all
  define s' where "s' = tlb_invalidate a va (set_word ?t (PTX va) 0 s1)"
  have rem: "page_remove d a va s = Some s'"
    using lk(1) s1(1) by (simp add: page_remove_def s'_def)
  have inv': "mem_inv ext D s'" using s1(2) by (simp add: s'_def)
  have tab1: "table_inv D s1" using tab by (simp add: same_kmem_table_inv [OF km(1,2)])
  have asp: "aspace s' d' k j
      = (if d' = d \<and> k = PDX va \<and> j = PTX va then None else aspace s d' k j)"
    if "d' \<in> D" "k < NUPDE" for d' k j
    using aspace_set_table_word [OF tab1 d i, of "PTX va" d' k 0 j] that lk(2)
    by (simp add: s'_def km same_kmem(4) [OF km(1)])
  have "?t \<notin> D" using lk(3) tab by (auto simp: table_inv_def)
  then have row: "kmem s' x k = kmem s x k" if "x \<in> D" for x k
    using that by (simp add: s'_def km) (auto simp: set_word_def km)
  have fl: "on_free_list s' = on_free_list s1" by (simp add: s'_def on_free_list_def)
  have "tlb s' = tlb_zap (PTE_ADDR va OR push_bit 6 a) (tlb s)"
    by (simp add: s'_def tlb_invalidate_def tlb_out_def km)
  moreover have "kmem s' x = kmem s x" if "\<not> is_table s D x" for x
    using that lk(3) by (auto simp: s'_def km) (auto simp: set_word_def km)
  ultimately show thesis using that [OF rem inv' asp row] fl s1(4) km by (simp add: s'_def)
qed

text \<open>Filling an invalid entry of an existing table.\<close>

lemma fill_entry:
  assumes inv: "mem_inv ext D s" and d: "d \<in> D" and va: "va < UTOP"
    and pde: "pte_valid (kmem s d (PDX va))" and old: "aspace s d (PDX va) (PTX va) = None"
    and v: "pte_valid v" "PPN v = q"
    and q: "q < npage s" "q \<notin> on_free_list s" "unat (pp_ref s q) < 65535"
  defines "s' \<equiv> page_incref q (set_word (PPN (kmem s d (PDX va))) (PTX va) v s)"
  shows "mem_inv ext D s'"
    and "d' \<in> D \<Longrightarrow> i < NUPDE \<Longrightarrow> aspace s' d' i j
      = (if d' = d \<and> i = PDX va \<and> j = PTX va then Some v else aspace s d' i j)"
proof -
  let ?t = "PPN (kmem s d (PDX va))"
  from inv have tab: "table_inv D s" by (simp add: mem_inv_def)
  have i: "PDX va < NUPDE" using va by (rule user_index)
  have t: "is_table s D ?t" using d i pde by (rule is_tableI)
  have "\<not> pte_valid (kmem s ?t (PTX va))"
    using old pde by (auto simp: aspace_def Let_def split: if_splits)
  then show "mem_inv ext D s'"
    unfolding s'_def using v q by (intro add_mapping [OF inv t]) simp_all
  assume "d' \<in> D" "i < NUPDE"
  then show "aspace s' d' i j
      = (if d' = d \<and> i = PDX va \<and> j = PTX va then Some v else aspace s d' i j)"
    using aspace_set_table_word [OF tab d i pde, of "PTX va" d' i v j] v(1)
      same_kmem(4) [of s' "set_word ?t (PTX va) v s"]
    by (simp add: s'_def)
qed

text \<open>
  The outcome of an insertion: on success exactly the entry of \<open>va\<close> in \<open>d\<close> has changed, the only
  error is that no page table could be allocated.
\<close>

definition insert_outcome ::
  "nat set \<Rightarrow> nat \<Rightarrow> u32 \<Rightarrow> u32 \<Rightarrow> 'a mstate_scheme \<Rightarrow> err + unit \<Rightarrow> 'a mstate_scheme \<Rightarrow> bool"
where
  "insert_outcome D d va v s r s' \<longleftrightarrow> (case r of
     Inr _ \<Rightarrow> \<forall>d'\<in>D. \<forall>i<NUPDE. \<forall>j<1024. aspace s' d' i j
       = (if d' = d \<and> i = PDX va \<and> j = PTX va then Some v else aspace s d' i j)
   | Inl e \<Rightarrow> e = E_NO_MEM \<and> \<not> pte_valid (kmem s d (PDX va)) \<and> on_free_list s = {}
       \<and> kmem s' = kmem s \<and> pp_ref s' = pp_ref s \<and> page_free_list s' = page_free_list s)"

lemma is_table_filled:
  assumes "table_inv D s" and "is_table s D t" and "j < 1024"
  shows "is_table (page_incref q (set_word t j v s)) D = is_table s D"
  using same_kmem(1) [of "page_incref q (set_word t j v s)" "set_word t j v s" D] set_table_word(1) [OF assms]
  by simp

lemma tlb_invalidate_is_table [simp]: "is_table (tlb_invalidate a va s) D = is_table s D"
  by (rule same_kmem(1)) simp

lemma page_insert_new_spec:
  assumes inv: "mem_inv ext D s" and d: "d \<in> D" and va: "va < UTOP"
    and old: "aspace s d (PDX va) (PTX va) = None" and perm: "perm < 4096"
    and q: "q < npage s" "q \<notin> on_free_list s" "unat (pp_ref s q) < 65535"
  obtains r s' where "page_insert_new d a q va perm s = Some (r, s')" and "mem_inv ext D s'"
    and "insert_outcome D d va (page2pa q OR perm OR PTE_V) s r s'"
    and "tlb s' = tlb_zap (PTE_ADDR va OR push_bit 6 a) (tlb s)"
    and "\<And>t. is_table s' D t \<Longrightarrow> is_table s D t \<or> t \<in> on_free_list s"
    and "\<And>x. x \<notin> D \<Longrightarrow> \<not> is_table s D x \<Longrightarrow> x \<notin> on_free_list s \<Longrightarrow> kmem s' x = kmem s x"
proof -
  let ?v = "page2pa q OR perm OR PTE_V" and ?s = "tlb_invalidate a va s"
  have inv1: "mem_inv ext D ?s" using inv by simp
  then have tab: "table_inv D ?s" and free: "free_inv ?s" and n: "npage s \<le> 2 ^ 20"
    by (simp_all add: mem_inv_def)
  have v: "pte_valid ?v" "PPN ?v = q" using q(1) n perm by simp_all
  have tl: "tlb ?s = tlb_zap (PTE_ADDR va OR push_bit 6 a) (tlb s)"
    by (simp add: tlb_invalidate_def tlb_out_def)
  consider (present) "pte_valid (kmem s d (PDX va))"
    | (full) "\<not> pte_valid (kmem s d (PDX va))" "on_free_list s = {}"
    | (create) "\<not> pte_valid (kmem s d (PDX va))" "on_free_list s \<noteq> {}" by blast
  then show thesis
  proof cases
    case present
    let ?t = "PPN (kmem s d (PDX va))"
    have "page_insert_new d a q va perm s = Some (Inr (), page_incref q (set_word ?t (PTX va) ?v ?s))"
      using present walk_present [OF tab d va] by (simp add: page_insert_new_def)
    moreover have "kmem (page_incref q (set_word ?t (PTX va) ?v ?s)) x = kmem s x" if "\<not> is_table s D x" for x
      using that is_tableI [OF d user_index [OF va] present] by (auto simp: set_word_def)
    moreover note that [OF calculation(1)]
    ultimately show thesis using fill_entry [OF inv1 d va _ _ v, simplified] present old q tl
      is_table_filled [OF tab, of ?t] is_tableI [OF d user_index [OF va] present]
      by (simp add: insert_outcome_def)
  next
    case full
    then have "page_insert_new d a q va perm s = Some (Inl E_NO_MEM, ?s)"
      using walk_create_full [OF free, of d va] by (simp add: page_insert_new_def)
    from that [OF this] full inv1 tl show thesis
      by (simp add: insert_outcome_def)
  next
    case create
    then have c: "\<not> pte_valid (kmem ?s d (PDX va))" "on_free_list ?s \<noteq> {}" by simp_all
    obtain p s2 where
      s2: "pgdir_walk d va True ?s = Some (Inr (Some (p, PTX va)), s2)" "mem_inv ext D s2"
        "pte_valid (kmem s2 d (PDX va))" "PPN (kmem s2 d (PDX va)) = p"
        "\<And>d' i j. d' \<in> D \<Longrightarrow> i < NUPDE \<Longrightarrow> j < 1024 \<Longrightarrow> aspace s2 d' i j = aspace s d' i j"
        "p \<in> on_free_list s" "on_free_list s2 = on_free_list s - {p}"
        "pp_ref s2 = (pp_ref s)(p := 1)" "tlb s2 = tlb ?s" "npage s2 = npage s"
        "\<And>t. is_table s2 D t \<Longrightarrow> is_table s D t \<or> t = p"
        "\<And>x. x \<noteq> d \<Longrightarrow> x \<noteq> p \<Longrightarrow> kmem s2 x = kmem s x"
      by (rule walk_create [OF inv1 d va c]) (unfold tlb_invalidate_inv tlb_invalidate_fields tlb_invalidate_is_table, blast)
    have tab2: "table_inv D s2" using s2(2) by (simp add: mem_inv_def)
    have t2: "is_table s2 D p" using is_tableI [OF d user_index [OF va] s2(3)] s2(4) by simp
    have tabs: "is_table s D t \<or> t \<in> on_free_list s"
      if "is_table (page_incref q (set_word p (PTX va) ?v s2)) D t" for t
      using that s2(6,11) by (auto simp: is_table_filled [OF tab2 t2 PTX_less])
    have pq: "p \<noteq> q" using s2(6) q(2) by auto
    have old2: "aspace s2 d (PDX va) (PTX va) = None"
      using s2(5) [OF d user_index [OF va] PTX_less] old by simp
    have "page_insert_new d a q va perm s = Some (Inr (), page_incref q (set_word p (PTX va) ?v s2))"
      using s2(1) by (simp add: page_insert_new_def)
    moreover have "kmem (page_incref q (set_word p (PTX va) ?v s2)) x = kmem s x"
      if "x \<notin> D" "x \<notin> on_free_list s" for x
      using that d s2(6) s2(12) [of x] by (auto simp: set_word_def)
    moreover note that [OF calculation(1) _ _ _ tabs]
    ultimately show thesis using fill_entry [OF s2(2) d va s2(3) old2 v] s2(4,5,7-10) q pq tl
      by (simp add: insert_outcome_def)
  qed
qed

lemma page_insert_new_present:
  assumes inv: "mem_inv ext D s" and d: "d \<in> D" and va: "va < UTOP" and pde: "pte_valid (kmem s d (PDX va))"
    and old: "aspace s d (PDX va) (PTX va) = None" and perm: "perm < 4096"
    and q: "q < npage s" "q \<notin> on_free_list s" "unat (pp_ref s q) < 65535"
  obtains s' where "page_insert_new d a q va perm s = Some (Inr (), s')" and "mem_inv ext D s'"
    and "insert_outcome D d va (page2pa q OR perm OR PTE_V) s (Inr ()) s'"
    and "tlb s' = tlb_zap (PTE_ADDR va OR push_bit 6 a) (tlb s)"
    and "is_table s' D = is_table s D"
    and "\<And>x. \<not> is_table s D x \<Longrightarrow> kmem s' x = kmem s x"
proof -
  let ?v = "page2pa q OR perm OR PTE_V" and ?t = "PPN (kmem s d (PDX va))"
  let ?s' = "page_incref q (set_word ?t (PTX va) ?v (tlb_invalidate a va s))"
  have "table_inv D (tlb_invalidate a va s)"
    using inv same_kmem_table_inv [of "tlb_invalidate a va s" s D] by (simp add: mem_inv_def)
  from is_table_filled [OF this, of ?t] walk_present [OF this d va] is_tableI [OF d user_index [OF va] pde] pde
  have "page_insert_new d a q va perm s = Some (Inr (), ?s')" "is_table ?s' D = is_table s D"
    by (simp_all add: page_insert_new_def)
  moreover obtain r s' where "page_insert_new d a q va perm s = Some (r, s')" "mem_inv ext D s'"
    "insert_outcome D d va ?v s r s'" "tlb s' = tlb_zap (PTE_ADDR va OR push_bit 6 a) (tlb s)"
    using page_insert_new_spec [OF inv d va old perm q] by metis
  moreover have "kmem ?s' x = kmem s x" if "\<not> is_table s D x" for x
    using that is_tableI [OF d user_index [OF va] pde] by (auto simp: set_word_def)
  ultimately show thesis using that by simp
qed

text \<open>The whole insertion, with a mapping of the same page, of another page or of none before.\<close>

lemma page_insert_spec:
  assumes inv: "mem_inv ext D s" and d: "d \<in> D" and va: "va < UTOP" and perm: "perm < 4096"
    and q: "q < npage s" "q \<notin> on_free_list s" "unat (pp_ref s q) < 65535"
  obtains r s' where "page_insert d a q va perm s = Some (r, s')" and "mem_inv ext D s'"
    and "insert_outcome D d va (page2pa q OR perm OR PTE_V) s r s'"
    and "tlb s' = tlb_zap (PTE_ADDR va OR push_bit 6 a) (tlb s)
       \<or> tlb s' = tlb_zap (PTE_ADDR va OR push_bit 6 a) (tlb_zap (PTE_ADDR va OR push_bit 6 a) (tlb s))"
    and "\<And>t. is_table s' D t \<Longrightarrow> is_table s D t \<or> t \<in> on_free_list s"
    and "\<And>x. x \<notin> D \<Longrightarrow> \<not> is_table s D x \<Longrightarrow> x \<notin> on_free_list s \<Longrightarrow> kmem s' x = kmem s x"
proof -
  let ?v = "page2pa q OR perm OR PTE_V" and ?t = "PPN (kmem s d (PDX va))"
  let ?z = "tlb_zap (PTE_ADDR va OR push_bit 6 a)"
  from inv have tab: "table_inv D s" and n: "npage s \<le> 2 ^ 20" by (simp_all add: mem_inv_def)
  have v: "pte_valid ?v" "PPN ?v = q" using q(1) n perm by simp_all
  have i: "PDX va < NUPDE" using va by (rule user_index)
  show thesis
  proof (cases "aspace s d (PDX va) (PTX va)")
    case None
    have "page_insert d a q va perm s = page_insert_new d a q va perm s"
      using None by (cases "pte_valid (kmem s d (PDX va))")
        (auto simp: page_insert_def walk_present [OF tab d va] walk_absent aspace_def Let_def)
    with page_insert_new_spec [OF inv d va None perm q, of a] that show thesis by metis
  next
    case (Some pte)
    note lk = lookup_mapped [OF tab d va Some]
    have walk: "pgdir_walk d va False s = Some (Inr (Some (?t, PTX va)), s)"
      using walk_present [OF tab d va lk(2)] .
    show thesis
    proof (cases "PPN pte = q")
      case True
      let ?s = "set_word ?t (PTX va) ?v (tlb_invalidate a va s)"
      have ins: "page_insert d a q va perm s = Some (Inr (), ?s)"
        using walk lk True by (simp add: page_insert_def pa2page_def)
      have "mem_inv ext D ?s"
        using lk True v inv tab by (intro replace_mapping) (simp_all add: same_kmem(1) [of "tlb_invalidate a va s" s])
      moreover have "table_inv D (tlb_invalidate a va s)"
        using tab same_kmem_table_inv [of "tlb_invalidate a va s" s] by simp
      from aspace_set_table_word [OF this d i _ PTX_less] lk(2) v(1)
      have "insert_outcome D d va ?v s (Inr ()) ?s" by (simp add: insert_outcome_def)
      moreover have "tlb ?s = ?z (tlb s)" by (simp add: tlb_invalidate_def tlb_out_def)
      moreover have "is_table ?s D = is_table s D"
        using set_table_word(1) [of D "tlb_invalidate a va s" ?t] lk(3) tab
          same_kmem_table_inv [of "tlb_invalidate a va s" s D] by simp
      moreover have "kmem ?s x = kmem s x" if "\<not> is_table s D x" for x
        using that lk(3) by (auto simp: set_word_def)
      ultimately show thesis using that [OF ins] by simp
    next
      case False
      obtain s1 where s1: "page_remove d a va s = Some s1" "mem_inv ext D s1"
        "\<And>d' i j. d' \<in> D \<Longrightarrow> i < NUPDE \<Longrightarrow> aspace s1 d' i j
          = (if d' = d \<and> i = PDX va \<and> j = PTX va then None else aspace s d' i j)"
        "\<And>x k. x \<in> D \<Longrightarrow> kmem s1 x k = kmem s x k" "npage s1 = npage s"
        "pp_ref s1 = (pp_ref s)(PPN pte := pp_ref s (PPN pte) - 1)"
        "on_free_list s1 = on_free_list s \<union> (if pp_ref s (PPN pte) = 1 then {PPN pte} else {})"
        "tlb s1 = ?z (tlb s)" "\<And>x. \<not> is_table s D x \<Longrightarrow> kmem s1 x = kmem s x"
        using page_remove_mapped [OF inv d va Some, of a] by blast
      have q1: "q < npage s1" "q \<notin> on_free_list s1" "unat (pp_ref s1 q) < 65535"
        using q False s1(5-7) by auto
      have old: "aspace s1 d (PDX va) (PTX va) = None" using s1(3) [OF d i] by simp
      have "page_insert d a q va perm s = page_insert_new d a q va perm s1"
        using walk lk False s1(1) by (simp add: page_insert_def pa2page_def)
      moreover obtain r s' where "page_insert_new d a q va perm s1 = Some (r, s')" "mem_inv ext D s'"
        "insert_outcome D d va ?v s1 r s'" "tlb s' = ?z (tlb s1)"
        "\<And>t. is_table s' D t \<Longrightarrow> is_table s1 D t" "\<And>x. \<not> is_table s1 D x \<Longrightarrow> kmem s' x = kmem s1 x"
        using page_insert_new_present [OF s1(2) d va _ old perm q1, of a] lk(2) s1(4) [OF d] by metis
      ultimately show thesis
        using that s1(3) s1(4) [OF d] s1(8,9) lk(2) is_table_cong [of D s1 s] s1(4)
        by (auto simp: insert_outcome_def split: sum.splits)
    qed
  qed
qed

section \<open>The TLB\<close>

text \<open>No entry that matches \<open>hi\<close> can translate: each such entry is cleared.\<close>

definition tlb_flushed :: "u32 \<Rightarrow> (u32 \<times> u32) list \<Rightarrow> bool" where
  "tlb_flushed hi es \<longleftrightarrow> (\<forall>e\<in>set es. tlb_match hi e \<longrightarrow> e = (0, 0))"

lemma tlb_zap_none: "\<forall>e\<in>set es. \<not> tlb_match hi e \<Longrightarrow> tlb_zap hi es = es"
  by (induction es) auto

lemma tlb_zap_flushes: "length (filter (tlb_match hi) es) \<le> 1 \<Longrightarrow> tlb_flushed hi (tlb_zap hi es)"
proof (induction es)
  case (Cons e es)
  then show ?case
    by (cases "tlb_match hi e") (auto simp: tlb_flushed_def filter_empty_conv)
qed (simp add: tlb_flushed_def)

lemma tlb_zap_flushed: "tlb_flushed hi es \<Longrightarrow> tlb_flushed hi (tlb_zap hi es)"
  by (induction es) (auto simp: tlb_flushed_def split: if_splits)

text \<open>The other translations stay.\<close>

lemma tlb_zap_keeps: "e \<in> set es \<Longrightarrow> \<not> tlb_match hi e \<Longrightarrow> e \<in> set (tlb_zap hi es)"
  by (induction es) auto

section \<open>Boot of the free list\<close>

definition boot_free :: "'a mstate_scheme \<Rightarrow> nat \<Rightarrow> bool" where
  "boot_free s p \<longleftrightarrow> freemem s \<le> page2pa p + ULIM"

lemma page2kva_Some: "p < n \<Longrightarrow> n \<le> 2 ^ 20 \<Longrightarrow> page2kva n p = Some (page2pa p + ULIM)"
  by (simp add: page2kva_def KADDR_def)

lemma page_init_loop_spec:
  assumes "LIST_rep (page_free_list s) xs" and "distinct (is @ xs)" and "\<forall>i\<in>set is. i < npage s"
    and "npage s \<le> 2 ^ 20"
  shows "\<exists>s'. page_init_loop is s = Some s'
    \<and> LIST_rep (page_free_list s') (rev (filter (boot_free s) is) @ xs)
    \<and> (\<forall>p. pp_ref s' p = (if p \<in> set is then if boot_free s p then 0 else 1 else pp_ref s p))
    \<and> npage s' = npage s \<and> kmem s' = kmem s"
  using assms
proof (induction "is" arbitrary: s xs)
  case (Cons i "is")
  define s1 where "s1 = (if boot_free s i
     then (set_ref i 0 s)\<lparr>page_free_list := LIST_INSERT_HEAD i (page_free_list s)\<rparr> else set_ref i 1 s)"
  define xs1 where "xs1 = (if boot_free s i then i # xs else xs)"
  have step: "page_init_loop (i # is) s = page_init_loop is s1"
    using Cons.prems page2kva_Some [of i "npage s"]
    by (auto simp: s1_def boot_free_def not_le)
  have fields: "npage s1 = npage s" "kmem s1 = kmem s" "boot_free s1 = boot_free s"
    "pp_ref s1 = (pp_ref s)(i := if boot_free s i then 0 else 1)"
    by (auto simp: s1_def set_ref_def boot_free_def fun_eq_iff)
  have "LIST_rep (page_free_list s1) xs1"
    using Cons.prems by (auto simp: s1_def xs1_def set_ref_def lst.rep_insert_head)
  moreover have "distinct (is @ xs1)" using Cons.prems by (auto simp: xs1_def)
  ultimately obtain s' where s': "page_init_loop is s1 = Some s'"
      "LIST_rep (page_free_list s') (rev (filter (boot_free s1) is) @ xs1)"
      "\<forall>p. pp_ref s' p = (if p \<in> set is then if boot_free s1 p then 0 else 1 else pp_ref s1 p)"
      "npage s' = npage s1" "kmem s' = kmem s1"
    using Cons.IH [of s1 xs1] Cons.prems fields by auto
  have "i \<notin> set is" using Cons.prems(2) by simp
  with s' step fields show ?case
    by (intro exI [of _ s']) (auto simp: xs1_def)
qed simp

lemma empty_tables: "is_table s {} t = False" "cells s {} = {}" "refset s {} p = {}" "table_inv {} s"
  by (simp_all add: is_table_def cells_def refset_def table_inv_def)

end
