(* ===== verification/Pmap_Props.thy ===== *)
theory Pmap_Props
  imports Pmap_Spec
begin

text \<open>
  The properties of \<open>kern/pmap.c\<close>: mapping, unmapping and lookup refine updates and reads of the
  abstract address space and keep the reference counts exact, the boot establishes the invariant,
  allocation hands out zeroed pages nobody refers to, and no stale translation survives a change of
  a mapping. Each comes with an instance on a small concrete memory.
\<close>

section \<open>A concrete memory\<close>

text \<open>
  Eight pages: page 0 is an empty page directory, page 1 is held by the kernel, the others are
  free. The TLB holds one translation of the address \<open>0x400000\<close> in address space 1.
\<close>

definition mem8 :: mstate where
  "mem8 = \<lparr>memsize = 0x8000, npage = 8, freemem = ULIM + 0x2000, pages_va = ULIM,
     page_free_list = fold LIST_INSERT_HEAD [2..<8] (LIST_INIT LIST_zero),
     pp_ref = (\<lambda>p. if p < 2 then 1 else 0), kmem = (\<lambda>_ _. 0),
     tlb = [(0x00400040, 0x00001600)], cur_pgdir = None\<rparr>"

definition held1 :: "nat \<Rightarrow> nat" where
  "held1 p = (if p = 1 then 1 else 0)"

lemma mem8_free_list: "LIST_rep (page_free_list mem8) (rev [2..<8])"
  using lst.rep_fold_insert_head [OF lst.rep_init [of LIST_zero], of "[2..<8]"]
  by (simp only: mem8_def mstate.simps append_Nil2) simp

lemma mem8_on_free_list: "on_free_list mem8 = {2..<8}"
  unfolding on_free_list_eq [OF mem8_free_list] by (simp only: set_rev set_upt)

text \<open>Any extension of this memory satisfies the invariant.\<close>

lemma mem8_like:
  assumes "npage s = 8" and "kmem s = (\<lambda>_ _. 0)" and "pp_ref s = pp_ref mem8" and "page_free_list s = page_free_list mem8"
  shows "mem_inv held1 {0} s"
proof -
  have tabs: "is_table s D t = False" "refset s D p = {}" for D t p
    by (simp_all add: is_table_def refset_def assms(2))
  have "free_inv s"
    unfolding free_inv_def assms(1,3,4) using mem8_free_list by (intro exI conjI, assumption) (simp add: mem8_def)
  moreover have "table_inv {0} s"
    by (simp add: table_inv_def tabs assms(1,2))
  moreover have "ref_inv held1 {0} s"
    by (simp add: ref_inv_def tabs held1_def assms(1,3)) (simp add: mem8_def)
  ultimately show ?thesis by (simp add: mem_inv_def assms(1))
qed

lemma mem8_inv: "mem_inv held1 {0} mem8"
  by (rule mem8_like) (simp_all add: mem8_def)

lemma mem8_fields [simp]:
  "npage mem8 = 8" "pp_ref mem8 p = (if p < 2 then 1 else 0)" "kmem mem8 p i = 0"
  "tlb mem8 = [(0x00400040, 0x00001600)]"
  by (simp_all add: mem8_def)

lemma mem8_aspace: "aspace mem8 d i j = None"
  by (simp add: aspace_def)

section \<open>Properties\<close>

text \<open>
  C2 (page_insert_correct). On a state that satisfies the invariant, mapping a page that is not on
  the free list at a user address, with permission bits below the page number, never panics and
  keeps the invariant: reference counts stay exact and page tables stay unshared. It either maps
  exactly that one address in that one directory, replacing what was there, or fails with
  \<open>E_NO_MEM\<close> because a page table is needed and no page is free, with memory and counts unchanged.
\<close>

theorem page_insert_correct:
  assumes "mem_inv ext D s" and "d \<in> D" and "va < UTOP" and "perm < 4096"
    and "q < npage s" and "q \<notin> on_free_list s" and "unat (pp_ref s q) < 65535"
  shows "\<exists>r s'. page_insert d asid q va perm s = Some (r, s') \<and> mem_inv ext D s' \<and> mem_frame s s'
    \<and> insert_outcome D d va (page2pa q OR perm OR PTE_V) s r s'"
proof -
  obtain r s' where "page_insert d asid q va perm s = Some (r, s')"
    "mem_inv ext D s'" "insert_outcome D d va (page2pa q OR perm OR PTE_V) s r s'"
    by (rule page_insert_spec [OF assms])
  then show ?thesis by (blast intro: page_insert_frame)
qed

theorem page_insert_correct_witness:
  "\<exists>r s'. page_insert 0 1 1 0x400000 PTE_D mem8 = Some (r, s') \<and> mem_inv held1 {0} s' \<and> mem_frame mem8 s'
    \<and> insert_outcome {0} 0 0x400000 (page2pa 1 OR PTE_D OR PTE_V) mem8 r s'"
  by (rule page_insert_correct [OF mem8_inv]) (simp_all add: mmu_defs mem8_on_free_list)

text \<open>
  C29 (page_remove_correct). Unmapping a user address never panics and keeps the invariant. The
  address is unmapped afterwards and every other address of every directory is mapped as before;
  the page that was mapped loses one reference and goes back to the free list exactly when that was
  the last one.
\<close>

theorem page_remove_correct:
  assumes "mem_inv ext D s" and "d \<in> D" and "va < UTOP"
  shows "\<exists>s'. page_remove d asid va s = Some s' \<and> mem_inv ext D s'
    \<and> (\<forall>d'\<in>D. \<forall>i<NUPDE. \<forall>j. aspace s' d' i j
        = (if d' = d \<and> i = PDX va \<and> j = PTX va then None else aspace s d' i j))
    \<and> on_free_list s' = on_free_list s \<union> (case aspace s d (PDX va) (PTX va) of
        None \<Rightarrow> {} | Some pte \<Rightarrow> if pp_ref s (PPN pte) = 1 then {PPN pte} else {})"
proof (cases "aspace s d (PDX va) (PTX va)")
  case None
  with assms have "page_remove d asid va s = Some s"
    by (intro page_remove_unmapped) (auto simp: mem_inv_def)
  with None assms(1) show ?thesis by auto
next
  case (Some pte)
  from page_remove_mapped [OF assms Some, of asid] obtain s' where
    "page_remove d asid va s = Some s'" "mem_inv ext D s'"
    "\<forall>d'\<in>D. \<forall>i<NUPDE. \<forall>j. aspace s' d' i j
       = (if d' = d \<and> i = PDX va \<and> j = PTX va then None else aspace s d' i j)"
    "on_free_list s' = on_free_list s \<union> (if pp_ref s (PPN pte) = 1 then {PPN pte} else {})"
    by metis
  with Some show ?thesis by auto
qed

theorem page_remove_correct_witness:
  "\<exists>s'. page_remove 0 1 0x400000 mem8 = Some s' \<and> mem_inv held1 {0} s'
    \<and> (\<forall>d'\<in>{0}. \<forall>i<NUPDE. \<forall>j. aspace s' d' i j
        = (if d' = 0 \<and> i = PDX 0x400000 \<and> j = PTX 0x400000 then None else aspace mem8 d' i j))
    \<and> on_free_list s' = on_free_list mem8 \<union> (case aspace mem8 0 (PDX 0x400000) (PTX 0x400000) of
        None \<Rightarrow> {} | Some pte \<Rightarrow> if pp_ref mem8 (PPN pte) = 1 then {PPN pte} else {})"
  by (rule page_remove_correct [OF mem8_inv]) (simp_all add: mmu_defs)

text \<open>
  Lemma (page_lookup_va2pa). Looking up a user address neither panics nor changes the state, and agrees
  with the software translation \<open>va2pa\<close>: both report the page the address space maps there, or that
  nothing is mapped.
\<close>

theorem page_lookup_va2pa:
  assumes "mem_inv ext D s" and "d \<in> D" and "va < UTOP"
  shows "(case aspace s d (PDX va) (PTX va) of
      None \<Rightarrow> page_lookup d va s = Some (None, s) \<and> va2pa d va s = Some (NOT 0)
    | Some pte \<Rightarrow> page_lookup d va s = Some (Some (PPN pte, (PPN (kmem s d (PDX va)), PTX va)), s)
        \<and> va2pa d va s = Some (PTE_ADDR pte) \<and> pa2page (npage s) (PTE_ADDR pte) = Some (PPN pte))"
proof -
  have tab: "table_inv D s" using assms(1) by (simp add: mem_inv_def)
  show ?thesis
  proof (cases "aspace s d (PDX va) (PTX va)")
    case None
    moreover have "va2pa d va s = Some (NOT 0)"
      using None dir_entry_range [OF tab assms(2) user_index [OF assms(3)]]
      by (auto simp: va2pa_def aspace_def Let_def split: if_splits)
    ultimately show ?thesis using lookup_unmapped [OF tab assms(2,3)] by simp
  next
    case (Some pte)
    note lk = lookup_mapped [OF tab assms(2,3) Some]
    have "va2pa d va s = Some (PTE_ADDR pte)"
      using lk(2,4,5) dir_entry_range [OF tab assms(2) user_index [OF assms(3)]]
      by (simp add: va2pa_def)
    with Some lk show ?thesis by (simp add: pa2page_def)
  qed
qed

theorem page_lookup_va2pa_witness:
  "page_lookup 0 0x400000 mem8 = Some (None, mem8) \<and> va2pa 0 0x400000 mem8 = Some (NOT 0)"
  using page_lookup_va2pa [OF mem8_inv, of 0 "0x400000"] by (simp add: mem8_aspace mmu_defs)

text \<open>
  Lemma (page_alloc_correct). Allocation never panics. With no free page it fails with \<open>E_NO_MEM\<close> and
  changes nothing; otherwise it takes one page off the free list, zeroes it, and that page is
  neither a directory nor referred to by any entry, so no address space changes.
\<close>

theorem page_alloc_correct:
  assumes "mem_inv ext D s"
  shows "if on_free_list s = {} then page_alloc s = Some (Inl E_NO_MEM, s)
    else \<exists>p s'. page_alloc s = Some (Inr p, s') \<and> mem_inv ext D s'
      \<and> p \<in> on_free_list s \<and> on_free_list s' = on_free_list s - {p}
      \<and> (\<forall>i. kmem s' p i = 0) \<and> p \<notin> D \<and> refset s' D p = {}
      \<and> (\<forall>d\<in>D. \<forall>i<NUPDE. \<forall>j<1024. aspace s' d i j = aspace s d i j)"
proof (cases "on_free_list s = {}")
  case True
  with assms show ?thesis by (simp add: page_alloc_empty mem_inv_def)
next
  case False
  from page_alloc_nonempty [OF assms False] obtain p s' where
    s': "page_alloc s = Some (Inr p, s')" "mem_inv ext D s'" "fresh_page s' p"
      "p \<in> on_free_list s" "on_free_list s' = on_free_list s - {p}" "same_tables s s' D"
    by metis
  then have "p \<notin> D" "refset s' D p = {}" "\<forall>i. kmem s' p i = 0"
    using free_unreferenced [OF s'(2), of p] by (simp_all add: fresh_page_def)
  with False s' same_tables_aspace [OF s'(6)] show ?thesis by auto
qed

theorem page_alloc_correct_witness:
  "\<exists>p s'. page_alloc mem8 = Some (Inr p, s') \<and> mem_inv held1 {0} s'
      \<and> p \<in> on_free_list mem8 \<and> on_free_list s' = on_free_list mem8 - {p}
      \<and> (\<forall>i. kmem s' p i = 0) \<and> p \<notin> {0} \<and> refset s' {0} p = {}
      \<and> (\<forall>d\<in>{0}. \<forall>i<NUPDE. \<forall>j<1024. aspace s' d i j = aspace mem8 d i j)"
  using page_alloc_correct [OF mem8_inv] mem8_on_free_list by (simp split: if_splits)

text \<open>
  Lemma (page_init_correct). The boot of the page allocator terminates without a panic on a memory of
  at most \<open>2^20\<close> pages: the free list is exactly the pages at or above the rounded end of the boot
  allocations, the last page first, and the invariant holds with every page below held once by the
  kernel.
\<close>

theorem page_init_correct:
  assumes "npage s \<le> 2 ^ 20"
  defines "free p \<equiv> ROUND (freemem s) BY2PG \<le> page2pa p + ULIM"
  shows "\<exists>s'. page_init s = Some s'
    \<and> LIST_rep (page_free_list s') (rev (filter free [0..<npage s]))
    \<and> mem_inv (\<lambda>p. if free p then 0 else 1) {} s'"
proof -
  define s1 where "s1 = s\<lparr>page_free_list := LIST_INIT (page_free_list s), freemem := ROUND (freemem s) BY2PG\<rparr>"
  have n1: "npage s1 = npage s" by (simp add: s1_def)
  have bf: "boot_free s1 = free" by (simp add: fun_eq_iff boot_free_def free_def s1_def)
  have "LIST_rep (page_free_list s1) []" by (simp add: s1_def lst.rep_init)
  from page_init_loop_spec [OF this, of "[0..<npage s]"] assms(1) obtain s' where
    s': "page_init_loop [0..<npage s] s1 = Some s'"
      "LIST_rep (page_free_list s') (rev (filter free [0..<npage s]))"
      "\<And>p. p < npage s \<Longrightarrow> pp_ref s' p = (if free p then 0 else 1)" "npage s' = npage s"
    by (auto simp: bf n1)
  have "free_inv s'"
    unfolding free_inv_def using s' by (intro exI [of _ "rev (filter free [0..<npage s])"]) auto
  moreover have "ref_inv (\<lambda>p. if free p then 0 else 1) {} s'"
    using s' by (auto simp: ref_inv_def empty_tables)
  ultimately have "mem_inv (\<lambda>p. if free p then 0 else 1) {} s'"
    using s'(4) assms(1) by (simp add: mem_inv_def empty_tables)
  moreover have "page_init s = Some s'"
    using s'(1) by (simp add: page_init_def s1_def Let_def)
  ultimately show ?thesis using s'(2) by blast
qed

theorem page_init_correct_witness:
  "\<exists>s'. page_init mem8 = Some s'
    \<and> LIST_rep (page_free_list s')
        (rev (filter (\<lambda>p. ROUND (freemem mem8) BY2PG \<le> page2pa p + ULIM) [0..<npage mem8]))
    \<and> mem_inv (\<lambda>p. if ROUND (freemem mem8) BY2PG \<le> page2pa p + ULIM then 0 else 1) {} s'"
  by (rule page_init_correct) simp

text \<open>
  Lemma (page_insert_flushes_tlb). When at most one TLB entry matches an address and an address space,
  as the hardware requires, then after mapping a page there no entry that can translate the address
  is left, and every entry for another page or another address space is still there.
\<close>

theorem page_insert_flushes_tlb:
  assumes "mem_inv ext D s" and "d \<in> D" and "va < UTOP" and "perm < 4096"
    and "q < npage s" and "q \<notin> on_free_list s" and "unat (pp_ref s q) < 65535"
    and "length (filter (tlb_match (PTE_ADDR va OR push_bit 6 asid)) (tlb s)) \<le> 1"
  shows "\<exists>r s'. page_insert d asid q va perm s = Some (r, s')
    \<and> tlb_flushed (PTE_ADDR va OR push_bit 6 asid) (tlb s')
    \<and> (\<forall>e\<in>set (tlb s). \<not> tlb_match (PTE_ADDR va OR push_bit 6 asid) e \<longrightarrow> e \<in> set (tlb s'))"
proof -
  let ?hi = "PTE_ADDR va OR push_bit 6 asid"
  from page_insert_spec [OF assms(1-7), of asid] obtain r s' where
    s': "page_insert d asid q va perm s = Some (r, s')"
      "tlb s' = tlb_zap ?hi (tlb s) \<or> tlb s' = tlb_zap ?hi (tlb_zap ?hi (tlb s))"
    by metis
  from s'(2) have "tlb_flushed ?hi (tlb s')"
    using tlb_zap_flushes [OF assms(8)] tlb_zap_flushed [OF tlb_zap_flushes [OF assms(8)]] by auto
  moreover from s'(2) have "\<forall>e\<in>set (tlb s). \<not> tlb_match ?hi e \<longrightarrow> e \<in> set (tlb s')"
    by (metis tlb_zap_keeps)
  ultimately show ?thesis using s'(1) by blast
qed

theorem page_insert_flushes_tlb_witness:
  "\<exists>r s'. page_insert 0 1 1 0x400000 PTE_D mem8 = Some (r, s')
    \<and> tlb_flushed (PTE_ADDR 0x400000 OR push_bit 6 1) (tlb s')
    \<and> (\<forall>e\<in>set (tlb mem8). \<not> tlb_match (PTE_ADDR 0x400000 OR push_bit 6 1) e \<longrightarrow> e \<in> set (tlb s'))"
  by (rule page_insert_flushes_tlb [OF mem8_inv]) (simp_all add: mmu_defs mem8_on_free_list)

end
