(* ===== verification/Tlbex.thy ===== *)
theory Tlbex
  imports Pmap_Props
begin

text \<open>
  The TLB refill of \<open>kern/tlbex.c\<close> and the accesses to user memory that go through it. A refill
  repeats the lookup until it succeeds and allocates pages on the way; it is a partial function.
  The kernel reads and writes user memory through ordinary loads and stores at user addresses: a
  load of a user address is a refill followed by a read of the physical page, a store needs the
  dirty bit. An access that the machine would answer with another exception (a misaligned address,
  a store to a page without the dirty bit, a kernel address beyond the memory) is \<open>None\<close>.
  The contents of the TLB itself only change by flushes: a hit gives what the refill would give.
\<close>

section \<open>Definitions\<close>

definition passive_alloc :: "u32 \<Rightarrow> nat \<Rightarrow> u32 \<Rightarrow> 'a mstate_scheme \<Rightarrow> 'a mstate_scheme option" where
  "passive_alloc va pgdir asid s = (
     if va < UTEMP then None
     else if va \<ge> USTACKTOP \<and> va < USTACKTOP + BY2PG then None
     else if va \<ge> UENVS \<and> va < UPAGES then None
     else if va \<ge> UPAGES \<and> va < UVPT then None
     else if va \<ge> ULIM then None
     else do {
       (r, s) \<leftarrow> page_alloc s;
       (case r of
          Inl _ \<Rightarrow> None
        | Inr p \<Rightarrow> do {
            (r, s) \<leftarrow> page_insert pgdir asid p (PTE_ADDR va) PTE_D s;
            (case r of Inl _ \<Rightarrow> None | Inr _ \<Rightarrow> Some s)
          })
     })"

partial_function (option) do_tlb_refill ::
  "u32 \<Rightarrow> u32 \<Rightarrow> 'a mstate_scheme \<Rightarrow> (u32 \<times> 'a mstate_scheme) option"
where
  "do_tlb_refill va asid s =
     Option.bind (cur_pgdir s) (\<lambda>pgdir.
     Option.bind (page_lookup pgdir va s) (\<lambda>(r, s).
       case r of
         None \<Rightarrow> Option.bind (passive_alloc va pgdir asid s) (\<lambda>s. do_tlb_refill va asid s)
       | Some (pp, (t, j)) \<Rightarrow> Some (kmem s t j, s)))"

text \<open>Aligned words of memory at a kernel or user address.\<close>

definition load_addr :: "u32 \<Rightarrow> u32 \<Rightarrow> 'a mstate_scheme \<Rightarrow> (u32 \<times> 'a mstate_scheme) option" where
  "load_addr asid va s = (
     if va AND 3 \<noteq> 0 then None
     else if va \<ge> ULIM then
       (if va < KSEG1 \<and> PPN (va - ULIM) < npage s
        then Some (kmem s (PPN (va - ULIM)) (unat (va AND 0xFFF) div 4), s) else None)
     else do {
       (pte, s) \<leftarrow> do_tlb_refill va asid s;
       pp \<leftarrow> pa2page (npage s) pte;
       Some (kmem s pp (unat (va AND 0xFFF) div 4), s)
     })"

definition store_addr :: "u32 \<Rightarrow> u32 \<Rightarrow> u32 \<Rightarrow> 'a mstate_scheme \<Rightarrow> 'a mstate_scheme option" where
  "store_addr asid va w s = (
     if va AND 3 \<noteq> 0 then None
     else if va \<ge> ULIM then
       (if va < KSEG1 \<and> PPN (va - ULIM) < npage s
        then Some (set_word (PPN (va - ULIM)) (unat (va AND 0xFFF) div 4) w s) else None)
     else do {
       (pte, s) \<leftarrow> do_tlb_refill va asid s;
       pp \<leftarrow> pa2page (npage s) pte;
       if pte AND PTE_D = 0 then None
       else Some (set_word pp (unat (va AND 0xFFF) div 4) w s)
     })"

definition load_byte :: "u32 \<Rightarrow> u32 \<Rightarrow> 'a mstate_scheme \<Rightarrow> (u8 \<times> 'a mstate_scheme) option" where
  "load_byte asid va s = do {
     (w, s) \<leftarrow> load_addr asid (va AND NOT 3) s;
     Some (get_byte w (unat (va AND 3)), s)
   }"

definition store_byte :: "u32 \<Rightarrow> u32 \<Rightarrow> u8 \<Rightarrow> 'a mstate_scheme \<Rightarrow> 'a mstate_scheme option" where
  "store_byte asid va b s = do {
     (w, s) \<leftarrow> load_addr asid (va AND NOT 3) s;
     store_addr asid (va AND NOT 3) (put_byte w (unat (va AND 3)) b) s
   }"

section \<open>Refills\<close>

lemma PTE_ADDR_user: "va < UTOP \<Longrightarrow> PTE_ADDR va < UTOP"
proof -
  have "unat (PTE_ADDR va) \<le> unat va" by (simp add: unat_PTE_ADDR)
  then show "va < UTOP \<Longrightarrow> PTE_ADDR va < UTOP" by (simp add: word_less_nat_alt)
qed

lemma PDX_PTE_ADDR [simp]: "PDX (PTE_ADDR va) = PDX va"
proof -
  have "unat va div 4096 * 4096 div 4194304 = unat va div 4096 div 1024"
    using div_mult2_eq [of "unat va div 4096 * 4096" 4096 1024] by simp
  also have "\<dots> = unat va div 4194304" using div_mult2_eq [of "unat va" 4096 1024] by simp
  finally show ?thesis by (simp add: PDX_div unat_PTE_ADDR)
qed

lemma PTX_PTE_ADDR [simp]: "PTX (PTE_ADDR va) = PTX va"
  by (simp add: PTX_div unat_PTE_ADDR)

text \<open>The user addresses at which a missing page is supplied.\<close>

definition passive_ok :: "u32 \<Rightarrow> bool" where
  "passive_ok va \<longleftrightarrow> UTEMP \<le> va \<and> va < UTOP \<and> \<not> (USTACKTOP \<le> va \<and> va < USTACKTOP + BY2PG)"

lemma passive_alloc_user:
  "passive_ok va \<Longrightarrow> passive_alloc va pgdir asid s = do {
       (r, s) \<leftarrow> page_alloc s;
       (case r of
          Inl _ \<Rightarrow> None
        | Inr p \<Rightarrow> do {
            (r, s) \<leftarrow> page_insert pgdir asid p (PTE_ADDR va) PTE_D s;
            (case r of Inl _ \<Rightarrow> None | Inr _ \<Rightarrow> Some s)
          })
     }"
proof -
  assume ok: "passive_ok va"
  then have "va < UTOP" by (simp add: passive_ok_def)
  then have "\<not> UENVS \<le> va" "\<not> UPAGES \<le> va" "\<not> ULIM \<le> va"
    by (simp_all add: word_le_nat_alt word_less_nat_alt mmu_defs)
  moreover have "\<not> va < UTEMP" using ok by (simp add: passive_ok_def not_less)
  moreover have "\<not> (USTACKTOP \<le> va \<and> va < USTACKTOP + BY2PG)" using ok unfolding passive_ok_def by blast
  ultimately show ?thesis unfolding passive_alloc_def by (simp only: if_False simp_thms)
qed

lemma passive_alloc_spec:
  assumes inv: "mem_inv ext D s" and d: "d \<in> D" and va: "passive_ok va"
    and free: "\<exists>p q. p \<in> on_free_list s \<and> q \<in> on_free_list s \<and> p \<noteq> q"
  obtains s' p where "passive_alloc va d asid s = Some s'" and "mem_inv ext D s'" and "mem_frame s s'"
    and "p \<in> on_free_list s"
    and "\<And>d' i j. d' \<in> D \<Longrightarrow> i < NUPDE \<Longrightarrow> j < 1024 \<Longrightarrow> aspace s' d' i j
       = (if d' = d \<and> i = PDX va \<and> j = PTX va then Some (page2pa p OR PTE_D OR PTE_V) else aspace s d' i j)"
proof -
  have ne: "on_free_list s \<noteq> {}" using free by auto
  from page_alloc_nonempty [OF inv ne] obtain p s1 where
    alloc: "page_alloc s = Some (Inr p, s1)" "mem_inv ext D s1" "fresh_page s1 p" "p \<in> on_free_list s"
      "on_free_list s1 = on_free_list s - {p}" "same_tables s s1 D"
    by metis
  have p: "p < npage s1" "p \<notin> on_free_list s1" "unat (pp_ref s1 p) < 65535"
    using alloc(3) by (simp_all add: fresh_page_def)
  have lt: "PTE_ADDR va < UTOP" using va by (simp add: passive_ok_def PTE_ADDR_user)
  have D: "PTE_D < (4096 :: u32)" by (simp add: PTE_D_def)
  from page_insert_spec [OF alloc(2) d lt D p, of asid] obtain r s2 where
    s2: "page_insert d asid p (PTE_ADDR va) PTE_D s1 = Some (r, s2)" "mem_inv ext D s2"
      "insert_outcome D d (PTE_ADDR va) (page2pa p OR PTE_D OR PTE_V) s1 r s2"
    by metis
  obtain u where r: "r = Inr u"
    using s2(3) free alloc(5) by (cases r) (auto simp: insert_outcome_def)
  have ok: "passive_alloc va d asid s = Some s2"
    using alloc(1) s2(1) r by (simp add: passive_alloc_user [OF va])
  have fr: "mem_frame s s2"
    using page_alloc_frame [OF alloc(1)] page_insert_frame [OF s2(1)] by (rule mem_frame_trans)
  show thesis
    using that [OF ok s2(2) fr alloc(4)] s2(3) r same_tables_aspace [OF alloc(6)]
    by (simp add: insert_outcome_def)
qed

lemma refill_mapped:
  assumes "table_inv D s" and "d \<in> D" and "va < UTOP" and "cur_pgdir s = Some d"
    and "aspace s d (PDX va) (PTX va) = Some pte"
  shows "do_tlb_refill va asid s = Some (pte, s)"
  using assms lookup_mapped [OF assms(1,2,3,5)] by (subst do_tlb_refill.simps) simp

lemma refill_unmapped:
  assumes "table_inv D s" and "d \<in> D" and "va < UTOP" and "cur_pgdir s = Some d"
    and "aspace s d (PDX va) (PTX va) = None" and "passive_alloc va d asid s = Some s'"
  shows "do_tlb_refill va asid s = do_tlb_refill va asid s'"
  using assms lookup_unmapped [OF assms(1,2,3,5)] by (subst do_tlb_refill.simps) simp

section \<open>Bytes of words\<close>

lemma get_put_byte: "i < 4 \<Longrightarrow> j < 4 \<Longrightarrow> get_byte (put_byte w i b) j = (if i = j then b else get_byte w j)"
proof -
  assume a: "i < 4" "j < 4"
  have ff: "(0xFF :: u32) = mask 8" by (simp add: mask_eq_exp_minus_1)
  have "bit (get_byte (put_byte w i b) j) n = bit (if i = j then b else get_byte w j) n" if "n < 8" for n
  proof -
    consider "i = j" | "i < j" | "j < i" by linarith
    then show ?thesis
    proof cases
      case 1
      then show ?thesis using a that unfolding get_byte_def put_byte_def ff by (auto simp: bit_simps)
    next
      case 2
      then have "8 * j + n - 8 * i \<ge> 8" by simp
      then show ?thesis using 2 a that unfolding get_byte_def put_byte_def ff
        by (auto simp: bit_simps dest: bit_imp_le_length)
    next
      case 3
      then have "8 * j + n < 8 * i" using that by simp
      then show ?thesis using 3 a that unfolding get_byte_def put_byte_def ff by (auto simp: bit_simps)
    qed
  qed
  then show ?thesis by (intro bit_word_eqI) simp
qed

section \<open>Properties\<close>

text \<open>
  C30 (do_tlb_refill_total). The refill loop ends for every user address at which pages are supplied
  on demand, provided two pages are free (one for the page, one for a page table): it returns the
  entry that the address space maps there afterwards. A mapped address gives its entry and changes
  nothing; an unmapped one gets a new page, writable, and no other mapping changes.
\<close>

theorem do_tlb_refill_total:
  assumes "mem_inv ext D s" and "cur_pgdir s = Some d" and "d \<in> D" and "passive_ok va"
    and "\<exists>p q. p \<in> on_free_list s \<and> q \<in> on_free_list s \<and> p \<noteq> q"
  shows "\<exists>pte s'. do_tlb_refill va asid s = Some (pte, s') \<and> mem_inv ext D s'
    \<and> (\<forall>d'\<in>D. \<forall>i<NUPDE. \<forall>j<1024. aspace s' d' i j
        = (if d' = d \<and> i = PDX va \<and> j = PTX va then Some pte else aspace s d' i j))
    \<and> (case aspace s d (PDX va) (PTX va) of
         Some pte' \<Rightarrow> pte = pte' \<and> s' = s
       | None \<Rightarrow> \<exists>p\<in>on_free_list s. pte = page2pa p OR PTE_D OR PTE_V)"
proof -
  have va: "va < UTOP" and tab: "table_inv D s" using assms(1,4) by (simp_all add: passive_ok_def mem_inv_def)
  show ?thesis
  proof (cases "aspace s d (PDX va) (PTX va)")
    case (Some pte)
    with refill_mapped [OF tab assms(3) va assms(2) Some] assms(1) show ?thesis by auto
  next
    case None
    from passive_alloc_spec [OF assms(1,3,4,5), of asid] obtain s' p where
      s': "passive_alloc va d asid s = Some s'" "mem_inv ext D s'" "mem_frame s s'" "p \<in> on_free_list s" and
      asp: "\<And>d' i j. d' \<in> D \<Longrightarrow> i < NUPDE \<Longrightarrow> j < 1024 \<Longrightarrow> aspace s' d' i j
        = (if d' = d \<and> i = PDX va \<and> j = PTX va then Some (page2pa p OR PTE_D OR PTE_V) else aspace s d' i j)"
      by metis
    have "aspace s' d (PDX va) (PTX va) = Some (page2pa p OR PTE_D OR PTE_V)"
      using asp assms(3) user_index [OF va] by simp
    moreover have "cur_pgdir s' = Some d" "table_inv D s'" using s' assms(2) by (auto simp: mem_frame_def mem_inv_def)
    ultimately have "do_tlb_refill va asid s' = Some (page2pa p OR PTE_D OR PTE_V, s')"
      using refill_mapped assms(3) va by blast
    with refill_unmapped [OF tab assms(3) va assms(2) None s'(1)] s' asp None show ?thesis
      by (intro exI [of _ "page2pa p OR PTE_D OR PTE_V"] exI [of _ s']) auto
  qed
qed

definition mem8_run :: mstate where
  "mem8_run = mem8\<lparr>cur_pgdir := Some 0\<rparr>"

lemma mem8_run_inv: "mem_inv held1 {0} mem8_run" "on_free_list mem8_run = {2..<8}" "cur_pgdir mem8_run = Some 0"
  using mem8_inv same_kmem_mem_inv [of mem8_run mem8] mem8_on_free_list
  by (simp_all add: mem8_run_def on_free_list_def)

theorem do_tlb_refill_total_witness:
  "\<exists>pte s'. do_tlb_refill 0x400000 1 mem8_run = Some (pte, s') \<and> mem_inv held1 {0} s'
    \<and> (\<forall>d'\<in>{0}. \<forall>i<NUPDE. \<forall>j<1024. aspace s' d' i j
        = (if d' = 0 \<and> i = PDX 0x400000 \<and> j = PTX 0x400000 then Some pte else aspace mem8_run d' i j))
    \<and> (case aspace mem8_run 0 (PDX 0x400000) (PTX 0x400000) of
         Some pte' \<Rightarrow> pte = pte' \<and> s' = mem8_run
       | None \<Rightarrow> \<exists>p\<in>on_free_list mem8_run. pte = page2pa p OR PTE_D OR PTE_V)"
proof (rule do_tlb_refill_total [OF mem8_run_inv(1,3)])
  show "\<exists>p q. p \<in> on_free_list mem8_run \<and> q \<in> on_free_list mem8_run \<and> p \<noteq> q"
    unfolding mem8_run_inv(2) by (intro exI [of _ 2] exI [of _ 3]) simp
qed (simp_all add: passive_ok_def mmu_defs)

text \<open>
  Out of memory in the refill. When the address is not mapped and no page is free, the kernel panics:
  the refill does not return.
\<close>

theorem refill_panics_no_page:
  assumes "mem_inv ext D s" and "cur_pgdir s = Some d" and "d \<in> D" and "va < UTOP"
    and "aspace s d (PDX va) (PTX va) = None" and "on_free_list s = {}"
  shows "do_tlb_refill va asid s = None"
proof -
  have "free_inv s" "table_inv D s" using assms(1) by (simp_all add: mem_inv_def)
  then have "passive_alloc va d asid s = None"
    using page_alloc_empty [OF _ assms(6)] by (simp add: passive_alloc_def)
  with lookup_unmapped [OF \<open>table_inv D s\<close> assms(3,4,5)] assms(2) show ?thesis
    by (subst do_tlb_refill.simps) simp
qed

definition mem8_full :: mstate where
  "mem8_full = mem8\<lparr>cur_pgdir := Some 0, page_free_list := LIST_INIT LIST_zero\<rparr>"

lemma mem8_full_inv: "mem_inv held1 {0} mem8_full" "on_free_list mem8_full = {}"
proof -
  have rep: "LIST_rep (page_free_list mem8_full) []" by (simp add: mem8_full_def lst.rep_init)
  then show "on_free_list mem8_full = {}" using on_free_list_eq [OF rep] by simp
  have km: "kmem mem8_full = kmem mem8" "npage mem8_full = npage mem8" "pp_ref mem8_full = pp_ref mem8"
    by (simp_all add: mem8_full_def)
  have "free_inv mem8_full" using rep by (auto simp: free_inv_def intro!: exI [of _ "[]"])
  moreover have "table_inv {0} mem8_full"
    using mem8_inv same_kmem_table_inv [OF km(1,2)] by (simp add: mem_inv_def)
  moreover have "ref_inv held1 {0} mem8_full"
    using mem8_inv unfolding mem_inv_def ref_inv_def same_kmem(3) [OF km(1)] km by simp
  ultimately show "mem_inv held1 {0} mem8_full" by (simp add: mem_inv_def km)
qed

theorem refill_panics_no_page_witness:
  "do_tlb_refill 0x400000 1 mem8_full = None"
  by (rule refill_panics_no_page [OF mem8_full_inv(1) _ _ _ _ mem8_full_inv(2)])
    (simp_all add: mem8_full_def mmu_defs aspace_def)

end
