(* ===== verification/Print.thy ===== *)
theory Print
  imports Prelude
begin

text \<open>
  Formatted output, \<open>lib/print.c\<close>. The callback \<open>out\<close> receives the output in pieces: the model of
  \<open>vprintfmt\<close> is the list of the buffers it is called with, in order, and \<open>None\<close> stands for a
  \<open>va_arg\<close> that finds no argument of the requested type. A format is the list of the characters
  before the terminating null. \<open>int\<close> and \<open>long\<close> both have 32 bits on the machine.

  \<open>print_num\<close> works in a buffer that it fills from the least significant digit and reverses in
  place; the lemmas show that it prints the sign, the padding and the digits in the right order,
  and that the digits read back as the number.
\<close>

section \<open>Definitions\<close>

datatype arg = ArgInt u32 | ArgStr string

definition ch :: "char \<Rightarrow> nat" where
  "ch c = of_char c"

text \<open>The loop that converts the number, least significant digit first.\<close>

definition digit_char :: "bool \<Rightarrow> nat \<Rightarrow> char" where
  "digit_char upcase tmp =
     (if tmp \<le> 9 then char_of (ch CHR ''0'' + tmp)
      else if upcase then char_of (ch CHR ''A'' + tmp - 10)
      else char_of (ch CHR ''a'' + tmp - 10))"

text \<open>Bases below 2, with which the loop would not end, are never passed; they give no digit here.\<close>

function num_digits :: "bool \<Rightarrow> nat \<Rightarrow> nat \<Rightarrow> string" where
  "num_digits upcase base u =
     (if base < 2 then []
      else digit_char upcase (u mod base) #
        (if u div base \<noteq> 0 then num_digits upcase base (u div base) else []))"
  by pat_completeness auto
termination
  by (relation "measure (\<lambda>(_, _, u). u)") (auto intro!: div_less_dividend simp: div_greater_zero_iff)

declare num_digits.simps [simp del]

text \<open>\<open>for (i = from; i < to; i++) buf[i] = c\<close>, and the swaps that reverse \<open>buf[begin..end]\<close>.\<close>

definition fill_buf :: "nat \<Rightarrow> nat \<Rightarrow> char \<Rightarrow> string \<Rightarrow> string" where
  "fill_buf from to c buf = fold (\<lambda>i b. b[i := c]) [from..<to] buf"

function swap_buf :: "nat \<Rightarrow> nat \<Rightarrow> string \<Rightarrow> string" where
  "swap_buf begin end buf =
     (if end > begin then swap_buf (begin + 1) (end - 1) (buf[begin := buf ! end, end := buf ! begin])
      else buf)"
  by pat_completeness auto
termination by (relation "measure (\<lambda>(b, e, _). e - b)") auto

declare swap_buf.simps [simp del]

definition store_buf :: "string \<Rightarrow> string \<Rightarrow> string" where
  "store_buf xs buf = xs @ drop (length xs) buf"

definition print_num :: "u32 \<Rightarrow> nat \<Rightarrow> bool \<Rightarrow> nat \<Rightarrow> bool \<Rightarrow> char \<Rightarrow> bool \<Rightarrow> string" where
  "print_num u base neg_flag len ladjust padc upcase = (
     let buf = replicate (len + 70) (CHR 0x00);
         p = num_digits upcase base (unat u) @ (if neg_flag then ''-'' else []);
         buf = store_buf p buf;
         actualLength = length p;
         len = (if len < actualLength then actualLength else len);
         padc = (if ladjust then CHR '' '' else padc);
         buf = (if neg_flag \<and> \<not> ladjust \<and> padc = CHR ''0''
                then (fill_buf (actualLength - 1) (len - 1) padc buf)[len - 1 := CHR ''-'']
                else fill_buf actualLength len padc buf);
         end = (if ladjust then actualLength - 1 else len - 1)
     in take len (swap_buf 0 end buf))"

definition print_char :: "char \<Rightarrow> nat \<Rightarrow> bool \<Rightarrow> string list" where
  "print_char c len ladjust = (
     let len = (if len < 1 then 1 else len)
     in if ladjust then [c] # replicate (len - 1) '' ''
        else replicate (len - 1) '' '' @ [[c]])"

definition print_str :: "string \<Rightarrow> nat \<Rightarrow> bool \<Rightarrow> string list" where
  "print_str s len ladjust = (
     let slen = length s;
         len = (if len < slen then slen else len)
     in if ladjust then s # replicate (len - slen) '' ''
        else replicate (len - slen) '' '' @ [s])"

text \<open>The parts of a conversion specification after the percent sign.\<close>

definition is_digit :: "char \<Rightarrow> bool" where
  "is_digit c \<longleftrightarrow> ch CHR ''0'' \<le> ch c \<and> ch c \<le> ch CHR ''9''"

fun get_flag :: "string \<Rightarrow> bool \<times> char \<times> string" where
  "get_flag (c # fmt) =
     (if c = CHR ''-'' then (True, CHR '' '', fmt)
      else if c = CHR ''0'' then (False, CHR ''0'', fmt)
      else (False, CHR '' '', c # fmt))"
| "get_flag [] = (False, CHR '' '', [])"

fun get_width :: "nat \<Rightarrow> string \<Rightarrow> nat \<times> string" where
  "get_width width (c # fmt) =
     (if is_digit c then get_width (width * 10 + ch c - ch CHR ''0'') fmt else (width, c # fmt))"
| "get_width width [] = (width, [])"

fun get_long :: "string \<Rightarrow> bool \<times> string" where
  "get_long (c # fmt) = (if c = CHR ''l'' then (True, fmt) else (False, c # fmt))"
| "get_long [] = (False, [])"

fun va_int :: "arg list \<Rightarrow> (u32 \<times> arg list) option" where
  "va_int (ArgInt n # ap) = Some (n, ap)"
| "va_int _ = None"

fun va_str :: "arg list \<Rightarrow> (string \<times> arg list) option" where
  "va_str (ArgStr s # ap) = Some (s, ap)"
| "va_str _ = None"

text \<open>The \<open>switch\<close> on the conversion character: the output and the remaining arguments.\<close>

definition convert :: "char \<Rightarrow> nat \<Rightarrow> bool \<Rightarrow> char \<Rightarrow> arg list \<Rightarrow> (string list \<times> arg list) option" where
  "convert f width ladjust padc ap = (
     if f = CHR ''b'' then do {
       (num, ap) \<leftarrow> va_int ap; Some ([print_num num 2 False width ladjust padc False], ap) }
     else if f = CHR ''d'' \<or> f = CHR ''D'' then do {
       (num, ap) \<leftarrow> va_int ap;
       let neg = sint num < 0;
       let num = (if neg then - num else num);
       Some ([print_num num 10 neg width ladjust padc False], ap) }
     else if f = CHR ''o'' \<or> f = CHR ''O'' then do {
       (num, ap) \<leftarrow> va_int ap; Some ([print_num num 8 False width ladjust padc False], ap) }
     else if f = CHR ''u'' \<or> f = CHR ''U'' then do {
       (num, ap) \<leftarrow> va_int ap; Some ([print_num num 10 False width ladjust padc False], ap) }
     else if f = CHR ''x'' then do {
       (num, ap) \<leftarrow> va_int ap; Some ([print_num num 16 False width ladjust padc False], ap) }
     else if f = CHR ''X'' then do {
       (num, ap) \<leftarrow> va_int ap; Some ([print_num num 16 False width ladjust padc True], ap) }
     else if f = CHR ''c'' then do {
       (num, ap) \<leftarrow> va_int ap; Some (print_char (char_of (unat num)) width ladjust, ap) }
     else if f = CHR ''s'' then do {
       (s, ap) \<leftarrow> va_str ap; Some (print_str s width ladjust, ap) }
     else Some ([[f]], ap))"

lemma get_flag_length: "get_flag fmt = (l, p, fmt') \<Longrightarrow> length fmt' \<le> length fmt"
  by (cases fmt) (auto split: if_splits)

lemma get_width_length: "get_width w fmt = (w', fmt') \<Longrightarrow> length fmt' \<le> length fmt"
  by (induction w fmt rule: get_width.induct) (force split: if_splits)+

lemma get_long_length: "get_long fmt = (l, fmt') \<Longrightarrow> length fmt' \<le> length fmt"
  by (cases fmt) (auto split: if_splits)

definition get_spec :: "string \<Rightarrow> bool \<times> char \<times> nat \<times> string" where
  "get_spec fmt = (
     let (ladjust, padc, fmt) = get_flag fmt;
         (width, fmt) = get_width 0 fmt;
         (long_flag, fmt) = get_long fmt
     in (ladjust, padc, width, fmt))"

lemma get_spec_length: "get_spec fmt = (l, p, w, fmt') \<Longrightarrow> length fmt' \<le> length fmt"
  by (auto simp: get_spec_def split: prod.splits dest!: get_flag_length get_width_length get_long_length)

text \<open>A format that ends inside a specification ends the output.\<close>

function vprintfmt :: "string \<Rightarrow> arg list \<Rightarrow> string list option" where
  "vprintfmt [] ap = Some []"
| "vprintfmt (c # fmt) ap =
     (if c \<noteq> CHR ''%'' then do { outs \<leftarrow> vprintfmt fmt ap; Some ([c] # outs) }
      else case get_spec fmt of
        (ladjust, padc, width, []) \<Rightarrow> Some []
      | (ladjust, padc, width, f # fmt) \<Rightarrow> do {
          (out, ap) \<leftarrow> convert f width ladjust padc ap;
          outs \<leftarrow> vprintfmt fmt ap;
          Some (out @ outs)
        })"
  by pat_completeness auto
termination
  by (relation "measure (\<lambda>(fmt, _). length fmt)") (auto dest!: get_spec_length [OF sym])

text \<open>What reaches the console: \<open>outputk\<close> prints the characters of each buffer.\<close>

definition format :: "string \<Rightarrow> arg list \<Rightarrow> string option" where
  "format fmt ap = map_option concat (vprintfmt fmt ap)"

section \<open>The buffer\<close>

lemma fill_buf_eq:
  "from \<le> to \<Longrightarrow> to \<le> length buf \<Longrightarrow> fill_buf from to c buf = take from buf @ replicate (to - from) c @ drop to buf"
proof (induction "to - from" arbitrary: "to")
  case 0
  then show ?case by (simp add: fill_buf_def)
next
  case (Suc n)
  then obtain m where m: "to = Suc m" by (cases "to") auto
  have fm: "from \<le> m" using Suc.hyps(2) m by simp
  from m Suc have "fill_buf from m c buf = take from buf @ replicate (m - from) c @ drop m buf"
    by (intro Suc.hyps) auto
  then have "fill_buf from to c buf = (take from buf @ replicate (m - from) c @ drop m buf)[m := c]"
    using m Suc.hyps(2) by (cases "from \<le> m") (simp_all add: fill_buf_def)
  moreover have "drop m buf = buf ! m # drop to buf"
    using m Suc by (simp add: Cons_nth_drop_Suc)
  moreover have "to - from = Suc (m - from)" using m Suc by simp
  ultimately show ?case
    using m fm Suc.prems by (simp add: list_update_append replicate_append_same not_less)
qed

lemma swap_buf_nth:
  "e < length buf \<Longrightarrow> length (swap_buf b e buf) = length buf \<and>
    (\<forall>k<length buf. swap_buf b e buf ! k = (if b \<le> k \<and> k \<le> e then buf ! (b + e - k) else buf ! k))"
proof (induction b e buf rule: swap_buf.induct)
  case (1 b e buf)
  show ?case
  proof (cases "e > b")
    case True
    let ?b = "buf[b := buf ! e, e := buf ! b]"
    have step: "swap_buf b e buf = swap_buf (b + 1) (e - 1) ?b"
      using True by (simp add: swap_buf.simps [of b e])
    have "length (swap_buf b e buf) = length buf \<and> (\<forall>k<length buf. swap_buf b e buf ! k =
        (if b + 1 \<le> k \<and> k \<le> e - 1 then ?b ! (b + 1 + (e - 1) - k) else ?b ! k))"
      unfolding step using 1(1) [OF True] 1(2) True by auto
    moreover have "(if b + 1 \<le> k \<and> k \<le> e - 1 then ?b ! (b + 1 + (e - 1) - k) else ?b ! k)
        = (if b \<le> k \<and> k \<le> e then buf ! (b + e - k) else buf ! k)" if "k < length buf" for k
      using that True 1(2) by (auto simp: nth_list_update)
    ultimately show ?thesis by simp
  next
    case False
    then have "b + e - k = k" if "b \<le> k" "k \<le> e" for k using that by simp
    with False show ?thesis using 1(2) by (auto simp: swap_buf.simps [of b e])
  qed
qed

lemma swap_buf_rev:
  assumes "e < length buf"
  shows "swap_buf 0 e buf = rev (take (Suc e) buf) @ drop (Suc e) buf"
  using swap_buf_nth [OF assms, of 0] assms
  by (intro nth_equalityI) (auto simp: nth_append rev_nth)

section \<open>Numbers\<close>

lemma num_digits_Nil: "num_digits up base u = [] \<longleftrightarrow> base < 2"
  by (subst num_digits.simps) simp

lemma num_digits_length: "2 \<le> base \<Longrightarrow> u < 2 ^ n \<Longrightarrow> 0 < n \<Longrightarrow> length (num_digits up base u) \<le> n"
proof (induction up base u arbitrary: n rule: num_digits.induct)
  case (1 up base u)
  show ?case
  proof (cases "u div base = 0")
    case False
    then obtain m where m: "n = Suc m" "0 < m"
      using 1(2-4) by (cases n; cases "n - 1") auto
    have "u div base \<le> u div 2" using 1(2) by (intro div_le_mono2) auto
    also have "u div 2 < 2 ^ m" using 1(3) m by auto
    finally have "length (num_digits up base (u div base)) \<le> m"
      using 1(1) [of m] 1(2) False m by auto
    then show ?thesis using 1(2) False m by (simp add: num_digits.simps [of up base u])
  qed (use 1 in \<open>simp add: num_digits.simps [of up base u]\<close>)
qed

text \<open>The digits read from the least significant one give the number back.\<close>

definition digit_val :: "char \<Rightarrow> nat" where
  "digit_val c = (if is_digit c then ch c - ch CHR ''0''
     else if ch CHR ''a'' \<le> ch c then ch c - ch CHR ''a'' + 10 else ch c - ch CHR ''A'' + 10)"

definition digits_val :: "nat \<Rightarrow> string \<Rightarrow> nat" where
  "digits_val base ds = foldr (\<lambda>c v. digit_val c + base * v) ds 0"

lemma digit_val_char: "d < 16 \<Longrightarrow> digit_val (digit_char up d) = d"
  by (simp add: digit_val_def digit_char_def ch_def is_digit_def)

lemma digits_val_num: "2 \<le> base \<Longrightarrow> base \<le> 16 \<Longrightarrow> digits_val base (num_digits up base u) = u"
proof (induction up base u rule: num_digits.induct)
  case (1 up base u)
  have "digit_val (digit_char up (u mod base)) = u mod base"
  proof (rule digit_val_char)
    have "u mod base < base" using 1(2) by simp
    also note 1(3)
    finally show "u mod base < 16" .
  qed
  moreover have "digits_val base (num_digits up base u) = digit_val (digit_char up (u mod base)) +
      base * (if u div base \<noteq> 0 then digits_val base (num_digits up base (u div base)) else 0)"
    using 1(2) by (subst num_digits.simps) (simp add: digits_val_def)
  ultimately show ?case using 1 by (auto simp: div_eq_0_iff)
qed

section \<open>The printed number\<close>

text \<open>The number as it should appear: digits most significant first, sign and padding placed.\<close>

definition num_text :: "u32 \<Rightarrow> nat \<Rightarrow> bool \<Rightarrow> nat \<Rightarrow> bool \<Rightarrow> char \<Rightarrow> bool \<Rightarrow> string" where
  "num_text u base neg len ladjust padc up = (
     let ds = rev (num_digits up base (unat u)); sign = (if neg then ''-'' else []);
         pad = len - length (sign @ ds)
     in if ladjust then sign @ ds @ replicate pad (CHR '' '')
        else if neg \<and> padc = CHR ''0'' then sign @ replicate pad padc @ ds
        else replicate pad padc @ sign @ ds)"

lemma print_num_buffer:
  assumes "2 \<le> base"
  shows "length (num_digits up base (unat (u :: u32))) \<le> 32"
  using assms unat_u32 [of u] by (intro num_digits_length) simp_all

lemma print_num_eq:
  assumes base: "2 \<le> base"
  shows "print_num u base neg len ladjust padc up = num_text u base neg len ladjust padc up"
proof -
  define ds where "ds = num_digits up base (unat u)"
  define p where "p = ds @ (if neg then ''-'' else [])"
  define L where "L = max len (length p)"
  define buf where "buf = store_buf p (replicate (len + 70) (CHR 0x00))"
  have ds: "ds \<noteq> []" "length ds \<le> 32"
    using base print_num_buffer [OF base, of up u] by (simp_all add: ds_def num_digits_Nil)
  have lp: "0 < length p" "length p \<le> 33" "length p \<le> L" using ds by (auto simp: p_def L_def)
  have buf: "buf = p @ replicate (len + 70 - length p) (CHR 0x00)" and lb: "length buf = len + 70"
    using lp by (simp_all add: buf_def store_buf_def)
  have Lb: "L < length buf" using lp by (auto simp: L_def lb)
  have drop_L: "drop L buf = drop (L - length p) (replicate (len + 70 - length p) (CHR 0x00))"
    using lp(3) by (simp add: buf)
  have Lalt: "(if len < length p then length p else len) = L" by (simp add: L_def)
  define pc where "pc = (if ladjust then CHR '' '' else padc)"
  have num: "print_num u base neg len ladjust padc up = take L (swap_buf 0 (if ladjust then length p - 1 else L - 1)
      (if neg \<and> \<not> ladjust \<and> pc = CHR ''0'' then (fill_buf (length p - 1) (L - 1) pc buf)[L - 1 := CHR ''-'']
       else fill_buf (length p) L pc buf))"
    unfolding print_num_def Let_def ds_def [symmetric] p_def [symmetric] buf_def [symmetric] Lalt
      pc_def [symmetric] ..
  show ?thesis
  proof (cases "neg \<and> \<not> ladjust \<and> padc = CHR ''0''")
    case True
    have p: "p = ds @ ''-''" using True by (simp add: p_def)
    have "(fill_buf (length p - 1) (L - 1) padc buf)[L - 1 := CHR ''-'']
        = ds @ replicate (L - length p) padc @ CHR ''-'' # drop L buf"
    proof -
      have "fill_buf (length p - 1) (L - 1) padc buf
          = take (length p - 1) buf @ replicate (L - 1 - (length p - 1)) padc @ drop (L - 1) buf"
        using lp Lb by (intro fill_buf_eq) auto
      moreover have "take (length p - 1) buf = ds" by (simp add: buf p)
      moreover have "drop (L - 1) buf = buf ! (L - 1) # drop L buf"
        using lp(1,3) Lb Cons_nth_drop_Suc [of "L - 1" buf] by (simp del: length_greater_0_conv)
      moreover have "L - 1 - (length p - 1) = L - length p" using lp by simp
      ultimately have "fill_buf (length p - 1) (L - 1) padc buf
          = (ds @ replicate (L - length p) padc) @ buf ! (L - 1) # drop L buf" by simp
      moreover have "L - 1 = length (ds @ replicate (L - length p) padc)" using lp by (simp add: p)
      ultimately show ?thesis by (metis append.assoc list_update_length)
    qed
    moreover have "take L (swap_buf 0 (L - 1) (ds @ replicate (L - length p) padc @ CHR ''-'' # drop L buf))
        = ''-'' @ replicate (L - length p) padc @ rev ds"
      using lp Lb by (subst swap_buf_rev) (auto simp: p take_Cons')
    moreover have "L - length p = len - length (''-'' @ rev ds)" by (simp add: L_def p)
    ultimately show ?thesis
      using True num unfolding num_text_def Let_def ds_def [symmetric] by (simp add: pc_def)
  next
    case False
    have fill: "fill_buf (length p) L pc buf = p @ replicate (L - length p) pc @ drop L buf"
      using lp Lb by (subst fill_buf_eq) (simp_all add: buf)
    have swap: "take L (swap_buf 0 (if ladjust then length p - 1 else L - 1) (p @ replicate (L - length p) pc @ drop L buf))
        = (if ladjust then rev p @ replicate (L - length p) pc else replicate (L - length p) pc @ rev p)"
      using lp Lb by (subst swap_buf_rev) (auto simp: lb)
    have "L - length p = len - length ((if neg then ''-'' else []) @ rev ds)"
      by (simp add: L_def p_def)
    moreover have "rev p = (if neg then ''-'' else []) @ rev ds" by (simp add: p_def)
    ultimately show ?thesis
      using False num fill swap unfolding num_text_def Let_def ds_def [symmetric]
      by (auto simp: pc_def)
  qed
qed

section \<open>Properties\<close>

text \<open>
  C38 (print_num_correct). For each base that is used, the in-place buffer algorithm of
  \<open>print_num\<close> never writes beyond its buffer of \<open>length + 70\<close> characters and produces the number with
  its most significant digit first, padded to the requested width: blanks on the right when left
  adjusted, zeros between the sign and the digits when zero padded, padding before the sign
  otherwise. The printed digits read back as the number.
\<close>

theorem print_num_correct:
  assumes "2 \<le> base" and "base \<le> 16"
  shows "print_num u base neg len ladjust padc up = num_text u base neg len ladjust padc up
    \<and> length (num_digits up base (unat u)) + 1 \<le> len + 70
    \<and> digits_val base (num_digits up base (unat u)) = unat u"
  using print_num_eq [OF assms(1)] print_num_buffer [OF assms(1), of up u] digits_val_num [OF assms]
  by simp

theorem print_num_correct_witness:
  "print_num 42 10 True 6 False (CHR ''0'') False = num_text 42 10 True 6 False (CHR ''0'') False
    \<and> length (num_digits False 10 (unat (42 :: u32))) + 1 \<le> 6 + 70
    \<and> digits_val 10 (num_digits False 10 (unat (42 :: u32))) = unat (42 :: u32)"
  by (rule print_num_correct) simp_all

end
