(* ===== verification/Env.thy ===== *)
theory Env
  imports Tlbex Elf Print
begin

text \<open>
  Environments, \<open>kern/env.c\<close>: the ASID bitmap, environment ids, allocation and destruction of an
  environment with its address space, loading of program images and the context switch.

  The kernel state extends the memory state by the array \<open>envs\<close> (an environment is its index), the
  free list and the list of runnable environments, whose links are kept in those structures, the
  trap frame on the kernel stack, the registers restored for user mode, the console and the
  accesses to device registers so far. The
  functions that do not return (\<open>env_run\<close>) give the state in which the chosen environment runs.
\<close>

section \<open>Data\<close>

record trapframe =
  regs :: "nat \<Rightarrow> u32"
  cp0_status :: u32
  tf_hi :: u32
  tf_lo :: u32
  cp0_badvaddr :: u32
  cp0_cause :: u32
  cp0_epc :: u32

record env =
  env_tf :: trapframe
  env_id :: u32
  env_asid :: u32
  env_parent_id :: u32
  env_status :: u32
  env_pgdir :: nat
  env_pri :: u32
  env_ipc_value :: u32
  env_ipc_from :: u32
  env_ipc_recving :: u32
  env_ipc_dstva :: u32
  env_ipc_perm :: u32
  env_user_tlb_mod_entry :: u32
  env_runs :: u32

text \<open>An access to a device register, a byte or a word at a time.\<close>

datatype io = Write8 u32 u8 | Write32 u32 u32 | Read8 u32 | Read32 u32

text \<open>\<open>asid_bitmap\<close> is an array of two words, \<open>mkenvid_i\<close> and \<open>sched_count\<close> are static counters.\<close>

record kstate = mstate +
  envs :: "nat \<Rightarrow> env"
  curenv :: "nat option"
  env_free_list :: "nat dlist"
  env_sched_list :: "nat tailq"
  base_pgdir :: nat
  asid_bitmap :: "u32 list"
  mkenvid_i :: u32
  sched_count :: u32
  kstack_tf :: trapframe
  cpu_tf :: trapframe
  entryhi :: u32
  cons_out :: string
  cons_in :: "u8 list"
  mmio :: "io list"

definition LOG2NENV :: nat where "LOG2NENV = 10"
definition NENV :: nat where "NENV = 1024"
definition NASID :: nat where "NASID = 64"
definition ENV_FREE :: u32 where "ENV_FREE = 0"
definition ENV_RUNNABLE :: u32 where "ENV_RUNNABLE = 1"
definition ENV_NOT_RUNNABLE :: u32 where "ENV_NOT_RUNNABLE = 2"
definition STATUS_IM4 :: u32 where "STATUS_IM4 = 0x1000"
definition STATUS_KUp :: u32 where "STATUS_KUp = 0x8"
definition STATUS_IEp :: u32 where "STATUS_IEp = 0x4"
definition SIZEOF_ENV :: nat where "SIZEOF_ENV = 220"

definition ENVX :: "u32 \<Rightarrow> nat" where
  "ENVX envid = unat (envid AND word_of_nat (NENV - 1))"

definition upd_env :: "nat \<Rightarrow> (env \<Rightarrow> env) \<Rightarrow> kstate \<Rightarrow> kstate" where
  "upd_env e f s = s\<lparr>envs := (envs s)(e := f (envs s e))\<rparr>"

text \<open>\<open>printk\<close> (\<open>kern/printk.c\<close>) prints on the console what \<open>vprintfmt\<close> gives.\<close>

definition printk :: "string \<Rightarrow> arg list \<Rightarrow> kstate \<Rightarrow> kstate option" where
  "printk fmt ap s = do {
     out \<leftarrow> format fmt ap;
     Some (s\<lparr>cons_out := cons_out s @ out\<rparr>)
   }"

section \<open>Address space ids\<close>

primrec asid_scan :: "nat list \<Rightarrow> u32 list \<Rightarrow> (err + u32) \<times> u32 list" where
  "asid_scan [] bm = (Inl E_NO_FREE_ENV, bm)"
| "asid_scan (i # is) bm = (
     let index = i div 32; inner = i mod 32
     in if bm ! index AND push_bit inner 1 = 0
        then (Inr (word_of_nat i), bm[index := bm ! index OR push_bit inner 1])
        else asid_scan is bm)"

definition asid_alloc :: "kstate \<Rightarrow> (err + u32) \<times> kstate" where
  "asid_alloc s = (
     let (r, bm) = asid_scan [0..<NASID] (asid_bitmap s)
     in (r, s\<lparr>asid_bitmap := bm\<rparr>))"

definition asid_free :: "u32 \<Rightarrow> kstate \<Rightarrow> kstate" where
  "asid_free i s = (
     let index = unat (drop_bit 5 i); inner = unat (i AND 31); bm = asid_bitmap s
     in s\<lparr>asid_bitmap := bm[index := bm ! index AND NOT (push_bit inner 1)]\<rparr>)"

section \<open>Mapping of kernel arrays\<close>

definition map_segment_step :: "nat \<Rightarrow> u32 \<Rightarrow> u32 \<Rightarrow> u32 \<Rightarrow> u32 \<Rightarrow> nat \<Rightarrow> kstate \<Rightarrow> kstate option" where
  "map_segment_step pgdir asid pa va perm i s = do {
     pp \<leftarrow> pa2page (npage s) (pa + word_of_nat i);
     (r, s) \<leftarrow> page_insert pgdir asid pp (va + word_of_nat i) perm s;
     Some s
   }"

definition map_segment :: "nat \<Rightarrow> u32 \<Rightarrow> u32 \<Rightarrow> u32 \<Rightarrow> u32 \<Rightarrow> u32 \<Rightarrow> kstate \<Rightarrow> kstate option" where
  "map_segment pgdir asid pa va sz perm s = (
     if pa mod BY2PG \<noteq> 0 \<or> va mod BY2PG \<noteq> 0 \<or> sz mod BY2PG \<noteq> 0 then None
     else ofold (map_segment_step pgdir asid pa va perm) (map (\<lambda>k. 4096 * k) [0..<unat sz div 4096]) s)"

section \<open>Environment ids\<close>

definition mkenvid :: "nat \<Rightarrow> kstate \<Rightarrow> u32 \<times> kstate" where
  "mkenvid e s = (
     let i = mkenvid_i s + 1
     in (push_bit (1 + LOG2NENV) i OR word_of_nat e, s\<lparr>mkenvid_i := i\<rparr>))"

text \<open>The result is a pointer, \<open>Inr None\<close> the null pointer when there is no current environment.\<close>

definition envid2env :: "u32 \<Rightarrow> bool \<Rightarrow> kstate \<Rightarrow> (err + nat option) option" where
  "envid2env envid checkperm s = (
     if envid = 0 then Some (Inr (curenv s))
     else
       let e = ENVX envid
       in if env_status (envs s e) = ENV_FREE \<or> env_id (envs s e) \<noteq> envid then Some (Inl E_BAD_ENV)
          else if checkperm then do {
            cur \<leftarrow> curenv s;
            if \<not> (e = cur \<or> env_parent_id (envs s e) = env_id (envs s cur)) then Some (Inl E_BAD_ENV)
            else Some (Inr (Some e))
          }
          else Some (Inr (Some e)))"

section \<open>Allocation\<close>

definition env_init_step :: "nat \<Rightarrow> kstate \<Rightarrow> kstate" where
  "env_init_step i s = (
     let s = upd_env i (\<lambda>e. e\<lparr>env_status := ENV_FREE\<rparr>) s
     in s\<lparr>env_free_list := LIST_INSERT_HEAD i (env_free_list s)\<rparr>)"

text \<open>The address of the array \<open>envs\<close>, a symbol of the linker, is an argument.\<close>

definition env_init :: "u32 \<Rightarrow> kstate \<Rightarrow> kstate option" where
  "env_init envs_va s = do {
     let s = s\<lparr>env_free_list := LIST_INIT (env_free_list s), env_sched_list := TAILQ_INIT (env_sched_list s)\<rparr>;
     let s = fold env_init_step (rev [0..<NENV]) s;
     (r, s) \<leftarrow> page_alloc s;
     (case r of
        Inl _ \<Rightarrow> None
      | Inr p \<Rightarrow> do {
          let s = page_incref p s;
          kva \<leftarrow> page2kva (npage s) p;
          let s = s\<lparr>base_pgdir := p\<rparr>;
          pages_pa \<leftarrow> PADDR (pages_va s);
          s \<leftarrow> map_segment p 0 pages_pa UPAGES
                 (ROUND (word_of_nat (npage s) * word_of_nat SIZEOF_PAGE) BY2PG) PTE_G s;
          envs_pa \<leftarrow> PADDR envs_va;
          map_segment p 0 envs_pa UENVS (ROUND (word_of_nat (NENV * SIZEOF_ENV)) BY2PG) PTE_G s
        })
   }"

text \<open>The entries of the template directory copied into a new directory, \<open>memcpy\<close> of \<open>env_setup_vm\<close>.\<close>

definition copy_pdes :: "nat \<Rightarrow> nat \<Rightarrow> kstate \<Rightarrow> kstate" where
  "copy_pdes src dst s = fold (\<lambda>i s. set_word dst i (kmem s src i) s) [PDX UTOP..<PDX UVPT] s"

definition env_setup_vm :: "nat \<Rightarrow> kstate \<Rightarrow> ((err + unit) \<times> kstate) option" where
  "env_setup_vm e s = do {
     (r, s) \<leftarrow> page_alloc s;
     (case r of
        Inl x \<Rightarrow> Some (Inl x, s)
      | Inr p \<Rightarrow> do {
          let s = page_incref p s;
          kva \<leftarrow> page2kva (npage s) p;
          let s = upd_env e (\<lambda>e. e\<lparr>env_pgdir := p\<rparr>) s;
          let s = copy_pdes (base_pgdir s) p s;
          pa \<leftarrow> PADDR kva;
          Some (Inr (), set_word p (PDX UVPT) (pa OR PTE_V) s)
        })
   }"

definition env_alloc :: "u32 \<Rightarrow> kstate \<Rightarrow> ((err + nat) \<times> kstate) option" where
  "env_alloc parent_id s = (
     case LIST_FIRST (env_free_list s) of
       None \<Rightarrow> Some (Inl E_NO_FREE_ENV, s)
     | Some e \<Rightarrow> do {
         (r, s) \<leftarrow> env_setup_vm e s;
         (case r of
            Inl x \<Rightarrow> Some (Inl x, s)
          | Inr _ \<Rightarrow>
              let s = upd_env e (\<lambda>e. e\<lparr>env_user_tlb_mod_entry := 0, env_runs := 0\<rparr>) s;
                  (envid, s) = mkenvid e s;
                  s = upd_env e (\<lambda>e. e\<lparr>env_id := envid\<rparr>) s;
                  (r, s) = asid_alloc s
              in (case r of
                    Inl x \<Rightarrow> Some (Inl x, s)
                  | Inr asid \<Rightarrow> do {
                      let s = upd_env e (\<lambda>e. e\<lparr>env_asid := asid\<rparr>) s;
                      let s = upd_env e (\<lambda>e. e\<lparr>env_parent_id := parent_id\<rparr>) s;
                      let s = upd_env e (\<lambda>e. e\<lparr>env_tf := (env_tf e)\<lparr>cp0_status := STATUS_IM4 OR STATUS_KUp OR STATUS_IEp,
                                regs := (regs (env_tf e))(29 := USTACKTOP - 4 - 4)\<rparr>\<rparr>) s;
                      fl \<leftarrow> LIST_REMOVE e (env_free_list s);
                      Some (Inr e, s\<lparr>env_free_list := fl\<rparr>)
                    }))
       })"

section \<open>Program images\<close>

text \<open>\<open>memcpy\<close> of \<open>n\<close> bytes of an image to a kernel address.\<close>

definition copy_image :: "u32 \<Rightarrow> bmem \<Rightarrow> u32 \<Rightarrow> nat \<Rightarrow> kstate \<Rightarrow> kstate" where
  "copy_image kva binary src n s =
     fold (\<lambda>i. kstore_byte (kva + word_of_nat i) (binary (src + word_of_nat i))) [0..<n] s"

definition load_icode_mapper :: "nat \<Rightarrow> bmem \<Rightarrow> kstate elf_mapper" where
  "load_icode_mapper e binary va offset perm src len s = do {
     (r, s) \<leftarrow> page_alloc s;
     (case r of
        Inl x \<Rightarrow> Some (Inl x, s)
      | Inr p \<Rightarrow> do {
          s \<leftarrow> (case src of
                  None \<Rightarrow> Some s
                | Some a \<Rightarrow> do {
                    kva \<leftarrow> page2kva (npage s) p;
                    Some (copy_image (kva + offset) binary a (unat len) s)
                  });
          page_insert (env_pgdir (envs s e)) (env_asid (envs s e)) p va perm s
        })
   }"

definition load_icode_seg :: "nat \<Rightarrow> bmem \<Rightarrow> u32 \<Rightarrow> kstate \<Rightarrow> kstate option" where
  "load_icode_seg e binary ph_off s = (
     let ph = phdr_at binary ph_off
     in if p_type ph = PT_LOAD then do {
          (r, s) \<leftarrow> elf_load_seg ph (p_offset ph) (load_icode_mapper e binary) s;
          (case r of Inl _ \<Rightarrow> None | Inr _ \<Rightarrow> Some s)
        }
        else Some s)"

definition load_icode :: "nat \<Rightarrow> bmem \<Rightarrow> u32 \<Rightarrow> kstate \<Rightarrow> kstate option" where
  "load_icode e binary sz s = do {
     ehdr \<leftarrow> elf_from binary sz;
     s \<leftarrow> ofold (load_icode_seg e binary) (phdr_offs ehdr) s;
     Some (upd_env e (\<lambda>e. e\<lparr>env_tf := (env_tf e)\<lparr>cp0_epc := e_entry ehdr\<rparr>\<rparr>) s)
   }"

text \<open>
  The result of \<open>env_alloc\<close> is not checked: after an error the code goes on with a pointer that was
  never assigned.
\<close>

definition env_create :: "bmem \<Rightarrow> u32 \<Rightarrow> u32 \<Rightarrow> kstate \<Rightarrow> (nat \<times> kstate) option" where
  "env_create binary sz priority s = do {
     (r, s) \<leftarrow> env_alloc 0 s;
     (case r of
        Inl _ \<Rightarrow> None
      | Inr e \<Rightarrow> do {
          let s = upd_env e (\<lambda>e. e\<lparr>env_pri := priority\<rparr>) s;
          let s = upd_env e (\<lambda>e. e\<lparr>env_status := ENV_RUNNABLE\<rparr>) s;
          s \<leftarrow> load_icode e binary sz s;
          Some (e, s\<lparr>env_sched_list := TAILQ_INSERT_HEAD e (env_sched_list s)\<rparr>)
        })
   }"

section \<open>Destruction\<close>

definition free_pte :: "nat \<Rightarrow> nat \<Rightarrow> nat \<Rightarrow> nat \<Rightarrow> kstate \<Rightarrow> kstate option" where
  "free_pte e pt pdeno pteno s = (
     if pte_valid (kmem s pt pteno)
     then page_remove (env_pgdir (envs s e)) (env_asid (envs s e))
            (push_bit PDSHIFT (word_of_nat pdeno) OR push_bit PGSHIFT (word_of_nat pteno)) s
     else Some s)"

definition free_pde :: "nat \<Rightarrow> nat \<Rightarrow> kstate \<Rightarrow> kstate option" where
  "free_pde e pdeno s = (
     if \<not> pte_valid (kmem s (env_pgdir (envs s e)) pdeno) then Some s
     else do {
       let pa = PTE_ADDR (kmem s (env_pgdir (envs s e)) pdeno);
       kva \<leftarrow> KADDR (npage s) pa;
       s \<leftarrow> ofold (free_pte e (PPN (kva - ULIM)) pdeno) [0..<PTX (NOT 0) + 1] s;
       let s = set_word (env_pgdir (envs s e)) pdeno 0 s;
       pp \<leftarrow> pa2page (npage s) pa;
       s \<leftarrow> page_decref pp s;
       Some (tlb_invalidate (env_asid (envs s e)) (UVPT + push_bit PGSHIFT (word_of_nat pdeno)) s)
     })"

definition env_free :: "nat \<Rightarrow> kstate \<Rightarrow> kstate option" where
  "env_free e s = do {
     s \<leftarrow> printk (''[%08x] free env %08x'' @ [CHR 0x0A])
            [ArgInt (case curenv s of Some c \<Rightarrow> env_id (envs s c) | None \<Rightarrow> 0), ArgInt (env_id (envs s e))] s;
     s \<leftarrow> ofold (free_pde e) [0..<PDX UTOP] s;
     pp \<leftarrow> pa2page (npage s) (page2pa (env_pgdir (envs s e)));
     s \<leftarrow> page_decref pp s;
     let s = asid_free (env_asid (envs s e)) s;
     let s = tlb_invalidate (env_asid (envs s e)) (UVPT + push_bit PGSHIFT (word_of_nat (PDX UVPT))) s;
     let s = upd_env e (\<lambda>e. e\<lparr>env_status := ENV_FREE\<rparr>) s;
     let s = s\<lparr>env_free_list := LIST_INSERT_HEAD e (env_free_list s)\<rparr>;
     q \<leftarrow> TAILQ_REMOVE e (env_sched_list s);
     Some (s\<lparr>env_sched_list := q\<rparr>)
   }"

section \<open>Context switch\<close>

text \<open>\<open>env_pop_tf\<close> (\<open>kern/env_asm.S\<close>): set the address space id and restore the registers.\<close>

definition env_pop_tf :: "trapframe \<Rightarrow> u32 \<Rightarrow> kstate \<Rightarrow> kstate" where
  "env_pop_tf tf asid s = s\<lparr>entryhi := push_bit 6 asid, cpu_tf := tf\<rparr>"

definition env_run :: "nat \<Rightarrow> kstate \<Rightarrow> kstate option" where
  "env_run e s = (
     if env_status (envs s e) \<noteq> ENV_RUNNABLE then None
     else
       let s = (case curenv s of
                  Some c \<Rightarrow> upd_env c (\<lambda>x. x\<lparr>env_tf := kstack_tf s\<rparr>) s
                | None \<Rightarrow> s);
           s = s\<lparr>curenv := Some e\<rparr>;
           s = upd_env e (\<lambda>x. x\<lparr>env_runs := env_runs x + 1\<rparr>) s;
           s = s\<lparr>cur_pgdir := Some (env_pgdir (envs s e))\<rparr>
       in Some (env_pop_tf (env_tf (envs s e)) (env_asid (envs s e)) s))"

section \<open>A concrete kernel\<close>

text \<open>
  A kernel over the small memory \<open>mem8\<close>: environment 0 runs in the directory in page 0, the other
  environments are free. Used for instances of the properties.
\<close>

definition tf0 :: trapframe where
  "tf0 = \<lparr>regs = (\<lambda>_. 0), cp0_status = 0, tf_hi = 0, tf_lo = 0, cp0_badvaddr = 0, cp0_cause = 0, cp0_epc = 0\<rparr>"

definition env0 :: env where
  "env0 = \<lparr>env_tf = tf0, env_id = 0, env_asid = 0, env_parent_id = 0, env_status = ENV_FREE, env_pgdir = 0,
     env_pri = 0, env_ipc_value = 0, env_ipc_from = 0, env_ipc_recving = 0, env_ipc_dstva = 0, env_ipc_perm = 0,
     env_user_tlb_mod_entry = 0, env_runs = 0\<rparr>"

definition k8 :: kstate where
  "k8 = \<lparr>memsize = memsize mem8, npage = npage mem8, freemem = freemem mem8, pages_va = pages_va mem8,
     page_free_list = page_free_list mem8, pp_ref = pp_ref mem8, kmem = kmem mem8, tlb = tlb mem8,
     cur_pgdir = Some 0,
     envs = (\<lambda>_. env0)(0 := env0\<lparr>env_id := 0x800, env_status := ENV_RUNNABLE, env_pri := 1\<rparr>),
     curenv = Some 0,
     env_free_list = fold LIST_INSERT_HEAD (rev [1..<NENV]) (LIST_INIT LIST_zero),
     env_sched_list = TAILQ_INSERT_HEAD 0 (TAILQ_INIT TAILQ_zero),
     base_pgdir = 1, asid_bitmap = [1, 0], mkenvid_i = 1, sched_count = 1,
     kstack_tf = tf0, cpu_tf = tf0, entryhi = 0, cons_out = [], cons_in = [], mmio = []\<rparr>"

lemma k8_mem [simp]:
  "npage k8 = 8" "kmem k8 = (\<lambda>_ _. 0)" "pp_ref k8 = pp_ref mem8" "page_free_list k8 = page_free_list mem8"
  "tlb k8 = tlb mem8" "cur_pgdir k8 = Some 0" "curenv k8 = Some 0" "asid_bitmap k8 = [1, 0]"
  "envs k8 = (\<lambda>_. env0)(0 := env0\<lparr>env_id := 0x800, env_status := ENV_RUNNABLE, env_pri := 1\<rparr>)"
  "mkenvid_i k8 = 1"
  by (simp_all add: k8_def mem8_def)

end
