(* ===== verification/Spawn.thy ===== *)
theory Spawn
  imports File Elf Env
begin

text \<open>
  Starting a program, \<open>user/lib/spawn.c\<close>, with \<open>user/lib/wait.c\<close> and \<open>exit\<close> of \<open>user/lib/libos.c\<close>. The state is the
  memory of the environments together with the saved registers and the status of each; the answer
  of the kernel to \<open>syscall_exofork\<close> is an argument. \<open>argv\<close> is the list of the argument strings without their
  terminators; they lie outside the page at \<open>UTEMP\<close>, which \<open>init_stack\<close> fills.

  The variable \<open>r\<close> of \<open>spawn\<close> has no value when the code jumps to \<open>err1\<close>; what is returned then is the argument \<open>r0\<close>.
  \<open>None\<close> is as for files; output with \<open>debugf\<close> is left out.
\<close>

section \<open>The stack of the child\<close>

primrec copy_strings :: "u32 \<Rightarrow> u32 \<Rightarrow> u8 list list \<Rightarrow> uworld \<Rightarrow> uworld option" where
  "copy_strings me ctemp [] w = Some w"
| "copy_strings me ctemp (s # ss) w = do {
     w \<leftarrow> put_bytes me ctemp s w;
     w \<leftarrow> put me (ctemp + word_of_nat (length s)) 0 w;
     copy_strings me (ctemp + word_of_nat (length s) + 1) ss w
   }"

primrec set_args :: "u32 \<Rightarrow> u32 \<Rightarrow> u32 \<Rightarrow> u8 list list \<Rightarrow> uworld \<Rightarrow> (u32 \<times> uworld) option" where
  "set_args me args ctemp [] w = Some (ctemp, w)"
| "set_args me args ctemp (s # ss) w = do {
     w \<leftarrow> put32 me args ctemp w;
     set_args me (args + 4) (ctemp + word_of_nat (length s) + 1) ss w
   }"

text \<open>The distance of an address in the page at \<open>UTEMP\<close> from where the child sees it.\<close>

definition STACK_DELTA :: u32 where "STACK_DELTA = USTACKTOP - UTEMP - BY2PG"

definition init_stack :: "u32 \<Rightarrow> u32 \<Rightarrow> u8 list list \<Rightarrow> uworld \<Rightarrow> ((err + u32) \<times> uworld) option" where
  "init_stack me child argv w = (
     let argc = word_of_nat (length argv);
         tot = word_of_nat (\<Sum>s\<leftarrow>argv. length s + 1)
     in if ROUND tot 4 + 4 * (argc + 3) > BY2PG then Some (Inl E_NO_MEM, w)
        else
          let strings = UTEMP + BY2PG - tot;
              args = UTEMP + BY2PG - ROUND tot 4 - 4 * (argc + 1)
          in case u_mem_alloc me UTEMP PTE_D w of
               (Inl e, w) \<Rightarrow> Some (Inl e, w)
             | (Inr _, w) \<Rightarrow> do {
                 w \<leftarrow> copy_strings me strings argv w;
                 (ctemp, w) \<leftarrow> set_args me args (STACK_DELTA + strings) argv w;
                 w \<leftarrow> put32 me (args + 4 * argc) (ctemp - 1) w;
                 w \<leftarrow> put32 me (args - 4) (STACK_DELTA + args) w;
                 w \<leftarrow> put32 me (args - 8) argc w;
                 Some (case u_mem_map me UTEMP child (USTACKTOP - BY2PG) PTE_D w of
                    (Inl e, w) \<Rightarrow> (Inl e, snd (u_mem_unmap me UTEMP w))
                  | (Inr _, w) \<Rightarrow>
                      (case u_mem_unmap me UTEMP w of
                         (Inl e, w) \<Rightarrow> (Inl e, snd (u_mem_unmap me UTEMP w))
                       | (Inr _, w) \<Rightarrow> (Inr (STACK_DELTA + (args - 8)), w)))
               })"

section \<open>Loading\<close>

definition spawn_mapper :: "u32 \<Rightarrow> u32 \<Rightarrow> uworld elf_mapper" where
  "spawn_mapper me child va offset perm src len w = (
     case u_mem_alloc child va perm w of
       (Inl e, w) \<Rightarrow> Some (Inl e, w)
     | (Inr _, w) \<Rightarrow>
         (case src of
            None \<Rightarrow> Some (Inr (), w)
          | Some p \<Rightarrow>
              (case u_mem_map child va me UTEMP (perm OR PTE_D) w of
                 (Inl e, w) \<Rightarrow> Some (Inl e, snd (u_mem_unmap child va w))
               | (Inr _, w) \<Rightarrow> do {
                   w \<leftarrow> u_memcpy me (UTEMP + offset) p len w;
                   Some (u_mem_unmap me UTEMP w)
                 })))"

record sworld =
  space :: uworld
  tframe :: "u32 \<Rightarrow> trapframe"
  status :: "u32 \<Rightarrow> u32"

text \<open>The calls on an environment: an id that names none is refused.\<close>

definition s_env_destroy :: "u32 \<Rightarrow> sworld \<Rightarrow> (err + unit) \<times> sworld" where
  "s_env_destroy e t = (
     if e \<in> procs (space t) then (Inr (), t\<lparr>space := (space t)\<lparr>procs := procs (space t) - {e}\<rparr>\<rparr>) else (Inl E_BAD_ENV, t))"

definition s_set_trapframe :: "u32 \<Rightarrow> trapframe \<Rightarrow> sworld \<Rightarrow> (err + unit) \<times> sworld" where
  "s_set_trapframe e tf t = (
     if e \<in> procs (space t) then (Inr (), t\<lparr>tframe := (tframe t)(e := tf)\<rparr>) else (Inl E_BAD_ENV, t))"

definition s_set_status :: "u32 \<Rightarrow> u32 \<Rightarrow> sworld \<Rightarrow> (err + unit) \<times> sworld" where
  "s_set_status e st t = (
     if e \<in> procs (space t) then (Inr (), t\<lparr>status := (status t)(e := st)\<rparr>) else (Inl E_BAD_ENV, t))"

text \<open>The memory as the running environment sees it; it is read where \<open>readn\<close> has just stored.\<close>

definition umem_of :: "u32 \<Rightarrow> uworld \<Rightarrow> bmem" where
  "umem_of me w = (\<lambda>a. phys w (pa_of me a w))"

text \<open>
  The loop over the program headers. \<open>ehdr\<close> points into \<open>elfbuf\<close>, an array of 512 bytes that every turn overwrites, and
  \<open>e_phnum\<close> and \<open>e_phentsize\<close> are read from it in every turn. \<open>False\<close> is a jump to \<open>err1\<close>.
\<close>

function load_phdrs :: "dev list \<Rightarrow> u32 \<Rightarrow> u32 \<Rightarrow> int \<Rightarrow> u32 \<Rightarrow> nat \<Rightarrow> u32 \<Rightarrow> uworld \<Rightarrow> (bool \<times> uworld) option" where
  "load_phdrs devtab me child fd elfbuf idx ph_off w = (
     let ehdr = ehdr_at (umem_of me w) elfbuf;
         entsize = ucast (e_phentsize ehdr)
     in if idx < unat (e_phnum ehdr) then do {
          (r, w) \<leftarrow> seek me fd ph_off w;
          if r \<noteq> 0 then Some (False, w)
          else if entsize > 512 then None
          else do {
            (r, w) \<leftarrow> readn devtab me fd elfbuf entsize w;
            if r \<noteq> uint entsize then Some (False, w)
            else do {
              let ph = phdr_at (umem_of me w) elfbuf;
              (ok, w) \<leftarrow>
                (if p_type ph = PT_LOAD then do {
                   b \<leftarrow> read_map me fd (p_offset ph) w;
                   (case b of
                      Inl e \<Rightarrow> Some (False, w)
                    | Inr bin \<Rightarrow> do {
                        (r, w) \<leftarrow> elf_load_seg ph bin (spawn_mapper me child) w;
                        Some (case r of Inl e \<Rightarrow> False | Inr _ \<Rightarrow> True, w)
                      })
                 } else Some (True, w));
              if \<not> ok then Some (False, w)
              else load_phdrs devtab me child fd elfbuf (Suc idx)
                     (ph_off + ucast (e_phentsize (ehdr_at (umem_of me w) elfbuf))) w
            }
          }
        }
        else Some (True, w))"
  by pat_completeness auto
termination
proof (relation "measure (\<lambda>(_, _, _, _, _, idx, _). 65536 - idx)", goal_cases)
  case (2 devtab me child fd elfbuf idx ph_off w)
  have "unat (e_phnum (ehdr_at (umem_of me w) elfbuf)) < 65536"
    using unsigned_less [of "e_phnum (ehdr_at (umem_of me w) elfbuf)"] by simp
  with 2 show ?case by simp
qed simp

declare load_phdrs.simps [simp del]

text \<open>Pages with \<open>PTE_LIBRARY\<close> are shared.\<close>

definition share_page :: "u32 \<Rightarrow> u32 \<Rightarrow> nat \<Rightarrow> uworld \<Rightarrow> (err + unit) \<times> uworld" where
  "share_page me child pn w = (
     let perm = uptab w me pn AND 0xFFF;
         va = push_bit PGSHIFT (word_of_nat pn)
     in if perm AND PTE_V \<noteq> 0 \<and> perm AND PTE_LIBRARY \<noteq> 0 then u_mem_map me va child va perm w else (Inr (), w))"

primrec share_pages :: "u32 \<Rightarrow> u32 \<Rightarrow> nat list \<Rightarrow> uworld \<Rightarrow> (err + unit) \<times> uworld" where
  "share_pages me child [] w = (Inr (), w)"
| "share_pages me child (pn # pns) w = (
     case share_page me child pn w of
       (Inl e, w) \<Rightarrow> (Inl e, w)
     | (Inr _, w) \<Rightarrow> share_pages me child pns w)"

primrec share_tables :: "u32 \<Rightarrow> u32 \<Rightarrow> nat list \<Rightarrow> uworld \<Rightarrow> (err + unit) \<times> uworld" where
  "share_tables me child [] w = (Inr (), w)"
| "share_tables me child (d # ds) w = (
     if updir w me d AND PTE_V = 0 then share_tables me child ds w
     else case share_pages me child (map (\<lambda>pteno. d * 1024 + pteno) [0..<1024]) w of
       (Inl e, w) \<Rightarrow> (Inl e, w)
     | (Inr _, w) \<Rightarrow> share_tables me child ds w)"

definition share_library :: "u32 \<Rightarrow> u32 \<Rightarrow> uworld \<Rightarrow> (err + unit) \<times> uworld" where
  "share_library me child = share_tables me child [0..<Suc (PDX USTACKTOP)]"

section \<open>Spawn\<close>

definition on_space :: "(uworld \<Rightarrow> ('a \<times> uworld) option) \<Rightarrow> sworld \<Rightarrow> ('a \<times> sworld) option" where
  "on_space f t = do { (r, w) \<leftarrow> f (space t); Some (r, t\<lparr>space := w\<rparr>) }"

definition spawn_err :: "dev list \<Rightarrow> u32 \<Rightarrow> int \<Rightarrow> int \<Rightarrow> sworld \<Rightarrow> (int \<times> sworld) option" where
  "spawn_err devtab me fd r t = do { (_, t) \<leftarrow> on_space (close devtab me fd) t; Some (r, t) }"

definition spawn_err1 :: "dev list \<Rightarrow> u32 \<Rightarrow> u32 \<Rightarrow> int \<Rightarrow> int \<Rightarrow> sworld \<Rightarrow> (int \<times> sworld) option" where
  "spawn_err1 devtab me child fd r t = spawn_err devtab me fd r (snd (s_env_destroy child t))"

text \<open>From the second half on, after the file is closed: errors destroy the child.\<close>

definition spawn_start :: "u32 \<Rightarrow> u32 \<Rightarrow> u32 \<Rightarrow> u32 \<Rightarrow> sworld \<Rightarrow> int \<times> sworld" where
  "spawn_start me child entrypoint sp t = (
     let tf = tframe t child;
         tf = tf\<lparr>cp0_epc := entrypoint, regs := (regs tf)(29 := sp)\<rparr>
     in case s_set_trapframe child tf t of
          (Inl e, t) \<Rightarrow> (eret e, snd (s_env_destroy child t))
        | (Inr _, t) \<Rightarrow>
            (case share_library me child (space t) of
               (Inl e, w) \<Rightarrow> (eret e, snd (s_env_destroy child (t\<lparr>space := w\<rparr>)))
             | (Inr _, w) \<Rightarrow>
                 (case s_set_status child ENV_RUNNABLE (t\<lparr>space := w\<rparr>) of
                    (Inl e, t) \<Rightarrow> (eret e, snd (s_env_destroy child t))
                  | (Inr _, t) \<Rightarrow> (sint child, t))))"

text \<open>\<open>child\<close> is unsigned, so the test for an error of \<open>syscall_exofork\<close> never succeeds.\<close>

definition spawn_child ::
  "dev list \<Rightarrow> u32 \<Rightarrow> u32 \<Rightarrow> int \<Rightarrow> int \<Rightarrow> u32 \<Rightarrow> Elf32_Ehdr \<Rightarrow> u8 list list \<Rightarrow> sworld \<Rightarrow> (int \<times> sworld) option"
where
  "spawn_child devtab me elfbuf fd r0 child ehdr argv t = do {
     (r, t) \<leftarrow> on_space (init_stack me child argv) t;
     (case r of
        Inl e \<Rightarrow> spawn_err1 devtab me child fd r0 t
      | Inr sp \<Rightarrow> do {
          (ok, t) \<leftarrow> on_space (load_phdrs devtab me child fd elfbuf 0 (e_phoff ehdr)) t;
          if \<not> ok then spawn_err1 devtab me child fd r0 t
          else do {
            (_, t) \<leftarrow> on_space (close devtab me fd) t;
            Some (spawn_start me child (e_entry ehdr) sp t)
          }
        })
   }"

definition spawn ::
  "server \<Rightarrow> dev list \<Rightarrow> u32 \<Rightarrow> u32 \<Rightarrow> u32 \<Rightarrow> (sworld \<Rightarrow> u32 \<times> sworld) \<Rightarrow> int \<Rightarrow> u8 list \<Rightarrow> u8 list list \<Rightarrow> sworld \<Rightarrow> (int \<times> sworld) option"
where
  "spawn srv devtab me buf elfbuf exofork r0 prog argv t = do {
     (fd, t) \<leftarrow> on_space (open_path srv me buf prog O_RDONLY) t;
     if fd < 0 then Some (fd, t)
     else do {
       (n, t) \<leftarrow> on_space (readn devtab me fd elfbuf SIZEOF_EHDR) t;
       if n \<noteq> uint SIZEOF_EHDR then spawn_err devtab me fd (eret E_NOT_EXEC) t
       else
         (case elf_from (\<lambda>i. umem_of me (space t) (elfbuf + i)) SIZEOF_EHDR of
            None \<Rightarrow> spawn_err devtab me fd (eret E_NOT_EXEC) t
          | Some ehdr \<Rightarrow> (case exofork t of (child, t) \<Rightarrow> spawn_child devtab me elfbuf fd r0 child ehdr argv t))
     }
   }"

section \<open>The end of an environment\<close>

text \<open>\<open>obs k\<close> is the id and the status found in the slot of \<open>envs\<close> at the \<open>k\<close>-th test; the result is the number of tests.\<close>

partial_function (option) wait_loop :: "(nat \<Rightarrow> u32 \<times> u32) \<Rightarrow> u32 \<Rightarrow> nat \<Rightarrow> nat option" where
  "wait_loop obs envid k = (
     case obs k of (i, st) \<Rightarrow> if i = envid \<and> st \<noteq> ENV_FREE then wait_loop obs envid (Suc k) else Some k)"

definition wait :: "(nat \<Rightarrow> u32 \<times> u32) \<Rightarrow> u32 \<Rightarrow> nat option" where
  "wait obs envid = wait_loop obs envid 0"

text \<open>After the environment has destroyed itself nothing of \<open>exit\<close> runs.\<close>

definition exit :: "dev list \<Rightarrow> u32 \<Rightarrow> sworld \<Rightarrow> sworld option" where
  "exit devtab me t = do { w \<leftarrow> close_all devtab me (space t); Some (snd (s_env_destroy me (t\<lparr>space := w\<rparr>))) }"

definition libmain :: "(u32 \<Rightarrow> u32 \<Rightarrow> sworld \<Rightarrow> sworld option) \<Rightarrow> dev list \<Rightarrow> u32 \<Rightarrow> u32 \<Rightarrow> u32 \<Rightarrow> sworld \<Rightarrow> sworld option" where
  "libmain main devtab me argc argv t = do { t \<leftarrow> main argc argv t; exit devtab me t }"

end
