(* ===== verification/Fork.thy ===== *)
theory Fork
  imports User_Space
begin

text \<open>
  User-level \<open>fork\<close>, \<open>user/lib/fork.c\<close>: the pages of the parent are mapped into the child, those
  that are private and writable as copy-on-write in both, and \<open>cow_entry\<close>, the handler of the
  exception that a store to such a page raises, replaces the page by a private copy. \<open>me\<close> is the id
  of the running environment. The identity of the new environment is what the kernel answered to
  \<open>syscall_exofork\<close>; the function is followed in the parent.

  The lemmas show that \<open>fork\<close> gives the child what the parent sees, and that copy-on-write makes
  shared frames behave as private memory.
\<close>

section \<open>Definitions\<close>

record fworld = uworld +
  tlb_mod_entry :: "u32 \<Rightarrow> u32"
  proc_status :: "u32 \<Rightarrow> u32"

definition page_va :: "nat \<Rightarrow> u32" where
  "page_va vpn = push_bit PGSHIFT (word_of_nat vpn)"

definition cow_entry :: "u32 \<Rightarrow> u32 \<Rightarrow> 'a uworld_scheme \<Rightarrow> 'a uworld_scheme option" where
  "cow_entry me va w = (
     let perm = uptab w me (VPN va) AND 0xFFF
     in if perm AND PTE_COW = 0 then None
        else
          let perm = (perm AND NOT PTE_COW) OR PTE_D
          in case u_mem_alloc me UCOW perm w of
               (Inl _, w) \<Rightarrow> None
             | (Inr _, w) \<Rightarrow>
                 if \<not> (is_mapped me va w \<and> is_mapped me UCOW w \<and> uptab w me (VPN UCOW) AND PTE_D \<noteq> 0) then None
                 else
                   let w = w\<lparr>phys := (\<lambda>a. if PTE_ADDR a = PTE_ADDR (uptab w me (VPN UCOW))
                         then phys w (PTE_ADDR (uptab w me (VPN va)) OR (a AND 0xFFF)) else phys w a)\<rparr>
                   in case u_mem_map me UCOW me va perm w of
                        (Inl _, w) \<Rightarrow> None
                      | (Inr _, w) \<Rightarrow>
                          (case u_mem_unmap me UCOW w of
                             (Inl _, w) \<Rightarrow> None
                           | (Inr _, w) \<Rightarrow> Some w))"

text \<open>A store by user code: without write permission the handler runs and the store is repeated.\<close>

definition user_store :: "u32 \<Rightarrow> u32 \<Rightarrow> u8 \<Rightarrow> 'a uworld_scheme \<Rightarrow> 'a uworld_scheme option" where
  "user_store me va b w = (
     if \<not> is_mapped me va w then None
     else if uptab w me (VPN va) AND PTE_D \<noteq> 0 then put me va b w
     else Option.bind (cow_entry me va w) (put me va b))"

definition duppage :: "u32 \<Rightarrow> u32 \<Rightarrow> nat \<Rightarrow> 'a uworld_scheme \<Rightarrow> 'a uworld_scheme" where
  "duppage me envid vpn w = (
     let addr = page_va vpn;
         perm = uptab w me vpn AND 0xFFF
     in if perm AND PTE_D = 0 \<or> perm AND PTE_LIBRARY = PTE_LIBRARY \<or> perm AND PTE_COW = PTE_COW
        then snd (u_mem_map me addr envid addr perm w)
        else
          let perm = (perm OR PTE_COW) AND NOT PTE_D;
              w = snd (u_mem_map me addr envid addr perm w)
          in snd (u_mem_map me addr me addr perm w))"

definition fork_page :: "u32 \<Rightarrow> u32 \<Rightarrow> nat \<Rightarrow> 'a uworld_scheme \<Rightarrow> 'a uworld_scheme" where
  "fork_page me child i w = (
     if pte_valid (uptab w me i) \<and> pte_valid (updir w me (i div 1024)) then duppage me child i w else w)"

definition set_tlb_mod :: "u32 \<Rightarrow> u32 \<Rightarrow> fworld \<Rightarrow> (err + unit) \<times> fworld" where
  "set_tlb_mod e func w = (
     if e \<in> procs w then (Inr (), w\<lparr>tlb_mod_entry := (tlb_mod_entry w)(e := func)\<rparr>) else (Inl E_BAD_ENV, w))"

definition set_status :: "u32 \<Rightarrow> u32 \<Rightarrow> fworld \<Rightarrow> (err + unit) \<times> fworld" where
  "set_status e st w = (
     if e \<in> procs w then (Inr (), w\<lparr>proc_status := (proc_status w)(e := st)\<rparr>) else (Inl E_BAD_ENV, w))"

text \<open>
  \<open>exofork\<close> is the answer of the kernel and the state it leaves; \<open>entry\<close> is the address of \<open>cow_entry\<close>
  and \<open>runnable\<close> the value of \<open>ENV_RUNNABLE\<close>. An error of \<open>exofork\<close> is not tested for.
\<close>

definition fork :: "(fworld \<Rightarrow> u32 \<times> fworld) \<Rightarrow> u32 \<Rightarrow> u32 \<Rightarrow> u32 \<Rightarrow> fworld \<Rightarrow> (err + u32) \<times> fworld" where
  "fork exofork entry runnable me w = (
     let (r, w) = (if tlb_mod_entry w me \<noteq> entry then set_tlb_mod me entry w else (Inr (), w))
     in case r of
          Inl e \<Rightarrow> (Inl e, w)
        | Inr _ \<Rightarrow>
            let (child, w) = exofork w
            in if child = 0 then (Inr 0, w)
               else
                 let w = fold (fork_page me child) [0..<VPN USTACKTOP] w;
                     w = snd (set_tlb_mod child entry w);
                     w = snd (set_status child runnable w)
                 in (Inr child, w))"

section \<open>Copy-on-write\<close>

definition frame_of :: "u32 \<Rightarrow> nat \<Rightarrow> 'a uworld_scheme \<Rightarrow> u32" where
  "frame_of e v w = PTE_ADDR (uptab w e v)"

text \<open>
  Every entry lies in a table, a frame that is mapped twice can be written only where it is meant to
  be shared, and a private page is not both writable and marked copy-on-write.
\<close>

definition shared_ok :: "'a uworld_scheme \<Rightarrow> bool" where
  "shared_ok w \<longleftrightarrow> (\<forall>e va. pte_valid (uptab w e (VPN va)) \<longrightarrow> pte_valid (updir w e (PDX va)))
     \<and> (\<forall>e v e' v'. pte_valid (uptab w e v) \<and> pte_valid (uptab w e' v') \<and> (e, v) \<noteq> (e', v')
     \<and> frame_of e v w = frame_of e' v' w \<and> uptab w e v AND PTE_D \<noteq> 0 \<longrightarrow> uptab w e v AND PTE_LIBRARY \<noteq> 0)
     \<and> (\<forall>e v. pte_valid (uptab w e v) \<and> uptab w e v AND PTE_D \<noteq> 0 \<and> uptab w e v AND PTE_COW \<noteq> 0
          \<longrightarrow> uptab w e v AND PTE_LIBRARY \<noteq> 0)"

definition unused_frame :: "u32 \<Rightarrow> 'a uworld_scheme \<Rightarrow> bool" where
  "unused_frame fr w \<longleftrightarrow> (\<forall>e v. pte_valid (uptab w e v) \<longrightarrow> frame_of e v w \<noteq> PTE_ADDR fr)"

lemma shared_okD:
  "shared_ok w \<Longrightarrow> pte_valid (uptab w e v) \<Longrightarrow> pte_valid (uptab w e' v') \<Longrightarrow> frame_of e v w = frame_of e' v' w
    \<Longrightarrow> uptab w e v AND PTE_D \<noteq> 0 \<Longrightarrow> uptab w e v AND PTE_LIBRARY = 0 \<Longrightarrow> e' = e \<and> v' = v"
  unfolding shared_ok_def by blast

lemma cow_entry_spec:
  assumes m: "is_mapped e va w" "uptab w e (VPN va) AND PTE_COW \<noteq> 0" and e: "e \<in> procs w" "\<not> illegal_va va" "VPN va \<noteq> VPN UCOW"
    and fr: "palloc w (requests w) = Some fr" "\<forall>n. palloc w n \<noteq> None" "unused_frame fr w"
  defines "perm \<equiv> ((uptab w e (VPN va) AND 0xFFF) AND NOT PTE_COW) OR PTE_D"
  obtains w' where "cow_entry e va w = Some w'"
    and "uptab w' = (uptab w)(e := (uptab w e)(VPN va := PTE_ADDR fr OR perm OR PTE_V, VPN UCOW := 0))"
    and "phys w' = (\<lambda>a. if PTE_ADDR a = PTE_ADDR fr then phys w (frame_of e (VPN va) w OR (a AND 0xFFF)) else phys w a)"
    and "procs w' = procs w" and "palloc w' = palloc w"
    and "\<And>x i. pte_valid (updir w x i) \<Longrightarrow> pte_valid (updir w' x i)"
proof -
  let ?v = "VPN va" and ?c = "VPN UCOW"
  have p0: "PTE_ADDR perm = 0" by (simp add: perm_def PTE_ADDR_or)
  obtain w1 where w1: "u_mem_alloc e UCOW perm w = (Inr (), w1)"
    "uptab w1 = (uptab w)(e := (uptab w e)(?c := PTE_ADDR fr OR perm OR PTE_V))" "pte_valid (updir w1 e (PDX UCOW))"
    "phys w1 = (\<lambda>a. if PTE_ADDR a = PTE_ADDR fr then 0 else phys w a)" "procs w1 = procs w" "palloc w1 = palloc w"
    "\<And>x i. pte_valid (updir w x i) \<Longrightarrow> pte_valid (updir w1 x i)"
    using u_mem_alloc_ok [OF legal_UCOW e(1) fr(1,2), of perm] by blast
  have d: "(PTE_ADDR fr OR perm OR PTE_V) AND PTE_D \<noteq> 0"
  proof -
    have "bit ((PTE_ADDR fr OR perm OR PTE_V) AND PTE_D) 10"
      unfolding perm_def by (simp add: bit_simps) (simp add: PTE_D_def)
    then show ?thesis by (metis bit_0_eq bot_apply bot_bool_def)
  qed
  have f1: "PTE_ADDR (uptab w1 e ?c) = PTE_ADDR fr" using w1(2) p0 by simp
  have v1: "uptab w1 e ?v = uptab w e ?v" using w1(2) e(3) by simp
  have m1: "is_mapped e va w1" "is_mapped e UCOW w1" "uptab w1 e ?c AND PTE_D \<noteq> 0"
    using m(1) w1 v1 d by (simp_all add: is_mapped_def)
  define w2 where "w2 = w1\<lparr>phys := (\<lambda>a. if PTE_ADDR a = PTE_ADDR (uptab w1 e ?c)
      then phys w1 (PTE_ADDR (uptab w1 e ?v) OR (a AND 0xFFF)) else phys w1 a)\<rparr>"
  have m2: "is_mapped e UCOW w2" using m1(2) by (simp add: w2_def is_mapped_def)
  have e2: "e \<in> procs w2" and a2: "\<forall>n. palloc w2 n \<noteq> None" using e(1) fr(2) w1(5,6) by (simp_all add: w2_def)
  obtain w3 where w3: "u_mem_map e UCOW e va perm w2 = (Inr (), w3)"
    "uptab w3 = (uptab w2)(e := (uptab w2 e)(?v := PTE_ADDR (uptab w2 e ?c) OR perm OR PTE_V))"
    "phys w3 = phys w2" "procs w3 = procs w2" "palloc w3 = palloc w2"
    "\<And>x i. pte_valid (updir w2 x i) \<Longrightarrow> pte_valid (updir w3 x i)"
    by (rule u_mem_map_ok [OF legal_UCOW e(2) e2 e2 m2 a2, of perm]; rule that; assumption)
  have m3: "is_mapped e UCOW w3"
    using m2 w3(2,6) e(3) by (simp add: is_mapped_def)
  have un: "u_mem_unmap e UCOW w3 = (Inr (), set_pte e UCOW 0 w3)"
    using m3 e(1) w1(5) w3(4) by (simp add: u_mem_unmap_def w2_def)
  have "cow_entry e va w = Some (set_pte e UCOW 0 w3)"
    using m(2) w1(1) m1 w3(1) un by (simp add: cow_entry_def Let_def flip: perm_def w2_def)
  moreover have "uptab (set_pte e UCOW 0 w3) = (uptab w)(e := (uptab w e)(?v := PTE_ADDR fr OR perm OR PTE_V, ?c := 0))"
    using w3(2) f1 w1(2) e(3) by (simp add: set_pte_def w2_def fun_upd_twist)
  moreover have "phys (set_pte e UCOW 0 w3) = (\<lambda>a. if PTE_ADDR a = PTE_ADDR fr then phys w (frame_of e ?v w OR (a AND 0xFFF)) else phys w a)"
  proof -
    have "frame_of e ?v w \<noteq> PTE_ADDR fr" using fr(3) m(1) by (simp add: unused_frame_def is_mapped_def)
    then show ?thesis using w3(3) w1(4) f1 v1 by (auto simp: set_pte_def w2_def frame_of_def fun_eq_iff)
  qed
  moreover have "procs (set_pte e UCOW 0 w3) = procs w" "palloc (set_pte e UCOW 0 w3) = palloc w"
    using w1 w3 by (simp_all add: set_pte_def w2_def)
  moreover have "pte_valid (updir (set_pte e UCOW 0 w3) x i)" if "pte_valid (updir w x i)" for x i
    using w3(6) w1(7) [OF that] by (simp add: set_pte_def w2_def)
  ultimately show thesis using that by blast
qed

lemma mapped_valid: "shared_ok w \<Longrightarrow> is_mapped e va w \<longleftrightarrow> pte_valid (uptab w e (VPN va))"
  by (auto simp: shared_ok_def is_mapped_def)

lemma view_valid:
  "shared_ok w \<Longrightarrow> view e va w = (if pte_valid (uptab w e (VPN va))
     then Some (phys w (frame_of e (VPN va) w OR (va AND 0xFFF))) else None)"
  by (simp add: view_def mapped_valid pa_of_def frame_of_def)

lemma frame_pa_eq: "frame_of e v w OR (a AND 0xFFF) = frame_of e' v' w' OR (b AND 0xFFF)
    \<longleftrightarrow> frame_of e v w = frame_of e' v' w' \<and> a AND 0xFFF = b AND (0xFFF :: u32)"
  by (simp add: frame_of_def pa_eq_iff)

text \<open>A store to a writable private page is seen by its owner only.\<close>

lemma put_private:
  assumes ok: "shared_ok w" and m: "pte_valid (uptab w e (VPN va))" "uptab w e (VPN va) AND PTE_D \<noteq> 0"
    and lib: "uptab w e (VPN va) AND PTE_LIBRARY = 0"
  obtains w' where "put e va b w = Some w'" and "shared_ok w'"
    and "\<And>e' a. view e' a w' = (if e' = e \<and> a = va then Some b else view e' a w)"
proof -
  define w' where "w' = w\<lparr>phys := (phys w)(pa_of e va w := b)\<rparr>"
  have put: "put e va b w = Some w'" using m mapped_valid [OF ok] by (simp add: put_def w'_def)
  have ok': "shared_ok w'" using ok by (simp add: shared_ok_def frame_of_def w'_def)
  have fr': "uptab w' = uptab w" "\<And>x v. frame_of x v w' = frame_of x v w"
    "phys w' = (phys w)(frame_of e (VPN va) w OR (va AND 0xFFF) := b)"
    by (simp_all add: w'_def pa_of_def frame_of_def)
  have "view e' a w' = (if e' = e \<and> a = va then Some b else view e' a w)" for e' a
  proof (cases "pte_valid (uptab w e' (VPN a))")
    case True
    have "frame_of e' (VPN a) w OR (a AND 0xFFF) = frame_of e (VPN va) w OR (va AND 0xFFF) \<longleftrightarrow> e' = e \<and> a = va"
    proof
      assume "frame_of e' (VPN a) w OR (a AND 0xFFF) = frame_of e (VPN va) w OR (va AND 0xFFF)"
      then have fr: "frame_of e (VPN va) w = frame_of e' (VPN a) w" and off: "a AND 0xFFF = va AND 0xFFF"
        by (simp_all add: frame_pa_eq)
      from shared_okD [OF ok m(1) True fr m(2) lib] off show "e' = e \<and> a = va"
        using addr_eq_iff [of a va] by simp
    qed simp
    with True show ?thesis by (simp add: view_valid [OF ok] view_valid [OF ok'] fr')
  next
    case False
    then show ?thesis using m(1) by (auto simp: view_valid [OF ok] view_valid [OF ok'] fr')
  qed
  with that [OF put ok'] show thesis .
qed

lemma and_bit: "n < 32 \<Longrightarrow> (x :: u32) AND push_bit n 1 = (if bit x n then push_bit n 1 else 0)"
  by (intro bit_eqI) (auto simp: bit_simps)

lemma flag_bits:
  "(x :: u32) AND PTE_D = 0 \<longleftrightarrow> \<not> bit x 10" "x AND PTE_COW = 0 \<longleftrightarrow> \<not> bit x 0" "x AND PTE_LIBRARY = 0 \<longleftrightarrow> \<not> bit x 2"
  "x AND PTE_COW = PTE_COW \<longleftrightarrow> bit x 0" "x AND PTE_LIBRARY = PTE_LIBRARY \<longleftrightarrow> bit x 2"
  using and_bit [of 10 x] and_bit [of 0 x] and_bit [of 2 x]
  by (simp_all add: PTE_D_def PTE_COW_def PTE_LIBRARY_def)

lemma bit_single: "k < 32 \<Longrightarrow> bit (push_bit k 1 :: u32) n \<longleftrightarrow> n = k"
  by (auto simp: bit_simps)

lemma bit_consts [simp]:
  "bit PTE_V n \<longleftrightarrow> n = 9" "bit PTE_D n \<longleftrightarrow> n = 10" "bit PTE_COW n \<longleftrightarrow> n = 0" "bit PTE_LIBRARY n \<longleftrightarrow> n = 2"
  using bit_single [of 9 n] bit_single [of 10 n] bit_single [of 0 n] bit_single [of 2 n]
  by (simp_all add: PTE_V_def PTE_D_def PTE_COW_def PTE_LIBRARY_def)

lemma bit_0xFFF: "bit (0xFFF :: int) n \<longleftrightarrow> n < 12"
proof -
  have m: "(0xFFF :: int) = mask 12" by (simp add: mask_eq_exp_minus_1)
  show ?thesis unfolding m by (auto simp: bit_mask_iff)
qed

lemma bit_PTE_ADDR: "bit (PTE_ADDR x) n \<longleftrightarrow> bit x n \<and> 12 \<le> n"
  by (auto simp: PTE_ADDR_def bit_simps bit_0xFFF dest: bit_imp_le_length)

text \<open>The handler leaves every view as it was and makes the page private and writable.\<close>

lemma cow_entry_private:
  assumes ok: "shared_ok w" and m: "pte_valid (uptab w e (VPN va))" "uptab w e (VPN va) AND PTE_COW \<noteq> 0"
    and lib: "uptab w e (VPN va) AND PTE_LIBRARY = 0"
    and e: "e \<in> procs w" "\<not> illegal_va va" "VPN va \<noteq> VPN UCOW"
    and fr: "palloc w (requests w) = Some fr" "\<forall>n. palloc w n \<noteq> None" "unused_frame fr w"
  obtains w' where "cow_entry e va w = Some w'" and "shared_ok w'"
    and "\<And>e' a. (e', VPN a) \<noteq> (e, VPN UCOW) \<Longrightarrow> view e' a w' = view e' a w"
    and "pte_valid (uptab w' e (VPN va))" and "uptab w' e (VPN va) AND PTE_D \<noteq> 0" and "uptab w' e (VPN va) AND PTE_LIBRARY = 0"
proof -
  let ?v = "VPN va" and ?c = "VPN UCOW"
  define pte where "pte = PTE_ADDR fr OR (((uptab w e ?v AND 0xFFF) AND NOT PTE_COW) OR PTE_D) OR PTE_V"
  have mm: "is_mapped e va w" using m(1) mapped_valid [OF ok] by simp
  obtain w' where w': "cow_entry e va w = Some w'"
    "uptab w' = (uptab w)(e := (uptab w e)(?v := PTE_ADDR fr OR (((uptab w e ?v AND 0xFFF) AND NOT PTE_COW) OR PTE_D) OR PTE_V, ?c := 0))"
    "phys w' = (\<lambda>a. if PTE_ADDR a = PTE_ADDR fr then phys w (frame_of e ?v w OR (a AND 0xFFF)) else phys w a)"
    "\<And>x i. pte_valid (updir w x i) \<Longrightarrow> pte_valid (updir w' x i)"
    by (rule cow_entry_spec [OF mm m(2) e fr]; rule that; assumption)
  note w' = w' [folded pte_def]
  have p: "pte_valid pte" "pte AND PTE_D \<noteq> 0" "pte AND PTE_COW = 0" "pte AND PTE_LIBRARY = 0" "PTE_ADDR pte = PTE_ADDR fr"
  proof -
    show "pte_valid pte" by (simp add: pte_def pte_valid_bit bit_simps)
    show "pte AND PTE_D \<noteq> 0" "pte AND PTE_COW = 0" "pte AND PTE_LIBRARY = 0"
      using lib unfolding flag_bits pte_def by (simp_all add: bit_simps bit_PTE_ADDR bit_0xFFF)
    show "PTE_ADDR pte = PTE_ADDR fr" by (simp add: pte_def PTE_ADDR_or)
  qed
  have fresh: "PTE_ADDR (uptab w x v) \<noteq> PTE_ADDR fr" if "pte_valid (uptab w x v)" for x v
    using fr(3) that by (auto simp: unused_frame_def frame_of_def)
  have tab: "uptab w' x v = (if x = e \<and> v = ?v then pte else if x = e \<and> v = ?c then 0 else uptab w x v)" for x v
    using w'(2) e(3) by auto
  have ok': "shared_ok w'"
    unfolding shared_ok_def
  proof (intro conjI allI impI)
    fix x a assume "pte_valid (uptab w' x (VPN a))"
    then have "pte_valid (uptab w x (VPN a))" using m(1) by (auto simp: tab split: if_splits)
    then have "pte_valid (updir w x (PDX a))" using ok by (simp add: shared_ok_def)
    then show "pte_valid (updir w' x (PDX a))" by (rule w'(4))
  next
    fix x v x' v'
    assume a: "pte_valid (uptab w' x v) \<and> pte_valid (uptab w' x' v') \<and> (x, v) \<noteq> (x', v')
      \<and> frame_of x v w' = frame_of x' v' w' \<and> uptab w' x v AND PTE_D \<noteq> 0"
    then have "\<not> (x = e \<and> v = ?v)" "\<not> (x' = e \<and> v' = ?v)"
      using fresh p(5) by (auto simp: tab frame_of_def split: if_splits)
    then have "uptab w' x v = uptab w x v" "uptab w' x' v' = uptab w x' v'" using a by (auto simp: tab split: if_splits)
    with a ok show "uptab w' x v AND PTE_LIBRARY \<noteq> 0" unfolding shared_ok_def frame_of_def by metis
  next
    fix x v
    assume a: "pte_valid (uptab w' x v) \<and> uptab w' x v AND PTE_D \<noteq> 0 \<and> uptab w' x v AND PTE_COW \<noteq> 0"
    then have "uptab w' x v = uptab w x v" using p(3) by (auto simp: tab split: if_splits)
    with a ok show "uptab w' x v AND PTE_LIBRARY \<noteq> 0" unfolding shared_ok_def by metis
  qed
  have "view x a w' = view x a w" if "(x, VPN a) \<noteq> (e, ?c)" for x a
  proof (cases "x = e \<and> VPN a = ?v")
    case True
    then show ?thesis using p(1,5) m(1) w'(3)
      by (simp add: view_valid [OF ok] view_valid [OF ok'] tab frame_of_def)
  next
    case False
    then have t: "uptab w' x (VPN a) = uptab w x (VPN a)" using that by (auto simp: tab)
    with fresh [of x "VPN a"] w'(3) show ?thesis
      by (simp add: view_valid [OF ok] view_valid [OF ok'] frame_of_def)
  qed
  with that [OF w'(1) ok'] p tab [of e ?v] show thesis by simp
qed

section \<open>The loop of fork\<close>

definition cowable :: "u32 \<Rightarrow> bool" where
  "cowable pte \<longleftrightarrow> pte AND PTE_D \<noteq> 0 \<and> pte AND PTE_LIBRARY = 0 \<and> pte AND PTE_COW = 0"

text \<open>The entry that parent and child have after a page has been duplicated.\<close>

definition dup_pte :: "u32 \<Rightarrow> u32" where
  "dup_pte pte = (if cowable pte then PTE_ADDR pte OR (((pte AND 0xFFF) OR PTE_COW) AND NOT PTE_D) OR PTE_V else pte)"

lemma pte_split: "pte_valid pte \<Longrightarrow> PTE_ADDR pte OR (pte AND 0xFFF) OR PTE_V = pte"
proof -
  assume v: "pte_valid pte"
  show ?thesis
    by (rule bit_word_eqI) (use v in \<open>auto simp: bit_simps bit_PTE_ADDR bit_0xFFF pte_valid_bit\<close>)
qed

lemma dup_pte_flags:
  assumes "pte_valid pte"
  shows "pte_valid (dup_pte pte)" and "PTE_ADDR (dup_pte pte) = PTE_ADDR pte"
    and "dup_pte pte AND PTE_LIBRARY = pte AND PTE_LIBRARY"
    and "cowable pte \<Longrightarrow> dup_pte pte AND PTE_D = 0 \<and> dup_pte pte AND PTE_COW \<noteq> 0"
proof -
  show "pte_valid (dup_pte pte)" using assms by (simp add: dup_pte_def)
  show "PTE_ADDR (dup_pte pte) = PTE_ADDR pte"
    by (rule bit_eqI) (auto simp: dup_pte_def bit_PTE_ADDR bit_simps bit_0xFFF)
  show "dup_pte pte AND PTE_LIBRARY = pte AND PTE_LIBRARY"
    by (rule bit_eqI) (auto simp: dup_pte_def bit_PTE_ADDR bit_simps bit_0xFFF)
  show "cowable pte \<Longrightarrow> dup_pte pte AND PTE_D = 0 \<and> dup_pte pte AND PTE_COW \<noteq> 0"
    unfolding flag_bits by (simp add: dup_pte_def bit_PTE_ADDR bit_simps bit_0xFFF)
qed

lemma page_va_facts:
  assumes "i < VPN USTACKTOP"
  shows "VPN (page_va i) = i" and "PDX (page_va i) = i div 1024" and "VPN UTEMP \<le> i \<Longrightarrow> \<not> illegal_va (page_va i)"
proof -
  have i: "i < 521214" using assms by (simp add: VPN_div mmu_defs)
  then have u: "unat (page_va i) = i * 4096"
    by (simp add: page_va_def PGSHIFT_def push_bit_eq_mult unat_word_ariths unat_of_nat)
  then show v: "VPN (page_va i) = i" by (simp add: VPN_div)
  have "PDX (page_va i) = VPN (page_va i) div 1024"
    unfolding VPN_split [of "page_va i"] using PTX_less [of "page_va i"] by simp
  then show "PDX (page_va i) = i div 1024" by (simp only: v)
  show "\<not> illegal_va (page_va i)" if "VPN UTEMP \<le> i"
    using that i u by (simp add: illegal_va_def word_le_nat_alt word_less_nat_alt mmu_defs VPN_div)
qed

lemma map_page:
  assumes "i < VPN USTACKTOP" "VPN UTEMP \<le> i" "me \<in> procs w" "e \<in> procs w" "\<forall>n. palloc w n \<noteq> None"
    and "pte_valid (uptab w me i)" "pte_valid (updir w me (i div 1024))"
  obtains w' where "u_mem_map me (page_va i) e (page_va i) perm w = (Inr (), w')"
    and "uptab w' = (uptab w)(e := (uptab w e)(i := PTE_ADDR (uptab w me i) OR perm OR PTE_V))"
    and "pte_valid (updir w' e (i div 1024))" and "phys w' = phys w" and "procs w' = procs w" and "palloc w' = palloc w"
    and "\<And>x k. pte_valid (updir w x k) \<Longrightarrow> pte_valid (updir w' x k)"
proof -
  note p = page_va_facts [OF assms(1)]
  have l: "\<not> illegal_va (page_va i)" using p(3) assms(2) by simp
  have m: "is_mapped me (page_va i) w" using assms(6,7) p by (simp add: is_mapped_def)
  show thesis
    by (rule u_mem_map_ok [OF l l assms(3,4) m assms(5), unfolded p(1,2)]; rule that; assumption)
qed

lemma bit_low: "bit (x AND 0xFFF :: u32) n \<longleftrightarrow> bit x n \<and> n < 12"
  by (auto simp: bit_simps bit_0xFFF dest: bit_imp_le_length)

lemma fork_page_spec:
  assumes "i < VPN USTACKTOP" and "me \<noteq> child" "me \<in> procs w" "child \<in> procs w" and "\<forall>n. palloc w n \<noteq> None"
    and legal: "pte_valid (uptab w me i) \<Longrightarrow> VPN UTEMP \<le> i \<and> pte_valid (updir w me (i div 1024))"
  defines "w' \<equiv> fork_page me child i w" and "d \<equiv> dup_pte (uptab w me i)"
  shows "uptab w' = (if pte_valid (uptab w me i)
        then (uptab w)(me := (uptab w me)(i := d), child := (uptab w child)(i := d)) else uptab w)"
    and "phys w' = phys w" and "procs w' = procs w" and "palloc w' = palloc w"
    and "pte_valid (updir w x k) \<Longrightarrow> pte_valid (updir w' x k)"
    and "pte_valid (uptab w me i) \<Longrightarrow> pte_valid (updir w' child (i div 1024))"
proof -
  let ?pte = "uptab w me i"
  let ?Q = "\<lambda>u. uptab u = (if pte_valid ?pte then (uptab w)(me := (uptab w me)(i := d), child := (uptab w child)(i := d)) else uptab w)
    \<and> phys u = phys w \<and> procs u = procs w \<and> palloc u = palloc w
    \<and> (\<forall>x k. pte_valid (updir w x k) \<longrightarrow> pte_valid (updir u x k)) \<and> (pte_valid ?pte \<longrightarrow> pte_valid (updir u child (i div 1024)))"
  have "?Q w'"
  proof (cases "pte_valid ?pte")
    case False
    then show ?thesis by (simp add: w'_def fork_page_def)
  next
    case v: True
    note l = legal [OF v]
    show ?thesis
    proof (cases "cowable ?pte")
      case False
      have dp: "d = PTE_ADDR ?pte OR (?pte AND 0xFFF) OR PTE_V" using False v pte_split by (simp add: d_def dup_pte_def)
      obtain u where u: "u_mem_map me (page_va i) child (page_va i) (?pte AND 0xFFF) w = (Inr (), u)"
        "uptab u = (uptab w)(child := (uptab w child)(i := PTE_ADDR ?pte OR (?pte AND 0xFFF) OR PTE_V))"
        "pte_valid (updir u child (i div 1024))" "phys u = phys w" "procs u = procs w" "palloc u = palloc w"
        "\<And>x k. pte_valid (updir w x k) \<Longrightarrow> pte_valid (updir u x k)"
        by (rule map_page [OF assms(1) conjunct1 [OF l] assms(3,4,5) v conjunct2 [OF l]]; rule that; assumption)
      have "w' = u"
        using False v l u(1) by (auto simp: w'_def fork_page_def duppage_def Let_def cowable_def flag_bits bit_low)
      moreover have "(uptab w me)(i := d) = uptab w me" using dp pte_split [OF v] by auto
      ultimately show ?thesis using u v dp assms(2) by auto
    next
      case True
      let ?perm = "((?pte AND 0xFFF) OR PTE_COW) AND NOT PTE_D"
      have dp: "d = PTE_ADDR ?pte OR ?perm OR PTE_V" using True by (simp add: d_def dup_pte_def)
      obtain u where u: "u_mem_map me (page_va i) child (page_va i) ?perm w = (Inr (), u)"
        "uptab u = (uptab w)(child := (uptab w child)(i := d))"
        "pte_valid (updir u child (i div 1024))" "phys u = phys w" "procs u = procs w" "palloc u = palloc w"
        "\<And>x k. pte_valid (updir w x k) \<Longrightarrow> pte_valid (updir u x k)"
        unfolding dp by (rule map_page [OF assms(1) conjunct1 [OF l] assms(3,4,5) v conjunct2 [OF l], of ?perm]) blast
      have ume: "uptab u me i = ?pte" using u(2) assms(2) by simp
      obtain t where t: "u_mem_map me (page_va i) me (page_va i) ?perm u = (Inr (), t)"
        "uptab t = (uptab u)(me := (uptab u me)(i := PTE_ADDR (uptab u me i) OR ?perm OR PTE_V))"
        "phys t = phys u" "procs t = procs u" "palloc t = palloc u"
        "\<And>x k. pte_valid (updir u x k) \<Longrightarrow> pte_valid (updir t x k)"
        by (rule map_page [OF assms(1) conjunct1 [OF l], of me u me ?perm])
          (use assms(3,5) u v l ume in \<open>simp_all\<close>)
      have "w' = t"
        using True v l u(1) t(1) by (simp add: w'_def fork_page_def duppage_def Let_def cowable_def flag_bits bit_low)
      then show ?thesis using u t v dp ume assms(2) by (auto simp: fun_upd_twist)
    qed
  qed
  then show "uptab w' = (if pte_valid ?pte then (uptab w)(me := (uptab w me)(i := d), child := (uptab w child)(i := d)) else uptab w)"
    "phys w' = phys w" "procs w' = procs w" "palloc w' = palloc w"
    "pte_valid (updir w x k) \<Longrightarrow> pte_valid (updir w' x k)" "pte_valid ?pte \<Longrightarrow> pte_valid (updir w' child (i div 1024))"
    by auto
qed

definition forked :: "u32 \<Rightarrow> u32 \<Rightarrow> nat \<Rightarrow> 'a uworld_scheme \<Rightarrow> 'a uworld_scheme \<Rightarrow> bool" where
  "forked me child n w u \<longleftrightarrow>
     (\<forall>x v. uptab u x v = (if x \<in> {me, child} \<and> v < n \<and> pte_valid (uptab w me v) then dup_pte (uptab w me v) else uptab w x v))
     \<and> phys u = phys w \<and> procs u = procs w \<and> palloc u = palloc w
     \<and> (\<forall>x k. pte_valid (updir w x k) \<longrightarrow> pte_valid (updir u x k))
     \<and> (\<forall>v<n. pte_valid (uptab w me v) \<longrightarrow> pte_valid (updir u child (v div 1024)))"

lemma fold_fork_page:
  assumes "me \<noteq> child" "me \<in> procs w" "child \<in> procs w" "\<forall>n. palloc w n \<noteq> None"
    and legal: "\<And>v. v < VPN USTACKTOP \<Longrightarrow> pte_valid (uptab w me v) \<Longrightarrow> VPN UTEMP \<le> v \<and> pte_valid (updir w me (v div 1024))"
  shows "n \<le> VPN USTACKTOP \<Longrightarrow> forked me child n w (fold (fork_page me child) [0..<n] w)"
proof (induction n)
  case 0
  then show ?case by (simp add: forked_def)
next
  case (Suc n)
  define u where "u = fold (fork_page me child) [0..<n] w"
  have f: "forked me child n w u" using Suc by (simp add: u_def)
  then have pt: "uptab u me n = uptab w me n" by (simp add: forked_def)
  have l: "VPN UTEMP \<le> n \<and> pte_valid (updir u me (n div 1024))" if "pte_valid (uptab u me n)"
    using legal [of n] that Suc.prems f pt by (simp add: forked_def)
  have "n < VPN USTACKTOP" "me \<in> procs u" "child \<in> procs u" "\<forall>n. palloc u n \<noteq> None"
    using Suc.prems f assms by (simp_all add: forked_def)
  note s = fork_page_spec [OF this(1) assms(1) this(2-4) l]
  show ?case
    using f s assms(1) unfolding forked_def by (auto simp: pt less_Suc_eq simp flip: u_def)
qed

lemma forked_shared_ok:
  assumes ok: "shared_ok w" and f: "forked me child n w u"
    and empty: "\<And>v. v < n \<Longrightarrow> \<not> pte_valid (uptab w child v)"
  shows "shared_ok u"
proof -
  have tab: "uptab u x v = (if x \<in> {me, child} \<and> v < n \<and> pte_valid (uptab w me v) then dup_pte (uptab w me v) else uptab w x v)" for x v
    using f by (simp add: forked_def)
  \<comment> \<open>each entry comes from one of \<open>w\<close> with the same frame, and is writable only if that was and is not private\<close>
  have src: "\<exists>y. pte_valid (uptab w y v) \<and> frame_of x v u = frame_of y v w \<and> (y = x \<or> x = child \<and> y = me \<and> v < n)
      \<and> (uptab u x v = uptab w y v \<or> uptab u x v AND PTE_D = 0)
      \<and> (v < n \<and> y = me \<longrightarrow> uptab u x v AND PTE_D \<noteq> 0 \<longrightarrow> uptab w y v AND PTE_LIBRARY \<noteq> 0)"
    if "pte_valid (uptab u x v)" for x v
  proof (cases "x \<in> {me, child} \<and> v < n \<and> pte_valid (uptab w me v)")
    case True
    then have d: "uptab u x v = dup_pte (uptab w me v)" by (simp add: tab)
    note fl = dup_pte_flags [of "uptab w me v"]
    have "uptab u x v = uptab w me v \<or> uptab u x v AND PTE_D = 0"
      using d fl(4) True by (auto simp: dup_pte_def)
    moreover have "uptab w me v AND PTE_LIBRARY \<noteq> 0" if "uptab u x v AND PTE_D \<noteq> 0"
    proof (cases "cowable (uptab w me v)")
      case False
      then show ?thesis using ok True that d unfolding shared_ok_def by (auto simp: dup_pte_def cowable_def)
    qed (use that d fl(4) True in simp)
    ultimately show ?thesis using True d fl(2) by (auto simp: frame_of_def)
  next
    case False
    then have e: "uptab u x v = uptab w x v" using tab [of x v] by metis
    have "x = child \<Longrightarrow> \<not> v < n" using that e empty [of v] by auto
    moreover have "x = me \<Longrightarrow> \<not> v < n" using False e that by auto
    ultimately show ?thesis using that e by (intro exI [of _ x]) (auto simp: frame_of_def)
  qed
  show ?thesis
    unfolding shared_ok_def
  proof (intro conjI allI impI)
    fix e va assume "pte_valid (uptab u e (VPN va))"
    from src [OF this] obtain y where y: "pte_valid (uptab w y (VPN va))" "y = e \<or> e = child \<and> y = me \<and> VPN va < n" by blast
    have "PDX va = VPN va div 1024" unfolding VPN_split [of va] using PTX_less [of va] by simp
    then show "pte_valid (updir u e (PDX va))"
      using y ok f unfolding shared_ok_def forked_def by metis
  next
    fix e v e' v'
    assume a: "pte_valid (uptab u e v) \<and> pte_valid (uptab u e' v') \<and> (e, v) \<noteq> (e', v')
      \<and> frame_of e v u = frame_of e' v' u \<and> uptab u e v AND PTE_D \<noteq> 0"
    obtain y where y: "pte_valid (uptab w y v)" "frame_of e v u = frame_of y v w" "y = e \<or> e = child \<and> y = me \<and> v < n"
      "uptab u e v = uptab w y v" "v < n \<and> y = me \<longrightarrow> uptab w y v AND PTE_LIBRARY \<noteq> 0"
      using src [of e v] a by blast
    obtain z where z: "pte_valid (uptab w z v')" "frame_of e' v' u = frame_of z v' w" "z = e' \<or> e' = child \<and> z = me \<and> v' < n"
      using src [of e' v'] a by blast
    show "uptab u e v AND PTE_LIBRARY \<noteq> 0"
    proof (cases "v < n \<and> y = me")
      case True
      then show ?thesis using y by simp
    next
      case False
      then have "(y, v) \<noteq> (z, v')" using a y(3) z(3) by auto
      then show ?thesis using ok y z a unfolding shared_ok_def by metis
    qed
  next
    fix e v assume a: "pte_valid (uptab u e v) \<and> uptab u e v AND PTE_D \<noteq> 0 \<and> uptab u e v AND PTE_COW \<noteq> 0"
    then obtain y where "pte_valid (uptab w y v)" "uptab u e v = uptab w y v" using src [of e v] by blast
    then show "uptab u e v AND PTE_LIBRARY \<noteq> 0" using ok a unfolding shared_ok_def by metis
  qed
qed

lemma forked_view:
  assumes ok: "shared_ok w" and f: "forked me child n w u" and ok': "shared_ok u"
  shows "VPN a < n \<Longrightarrow> pte_valid (uptab w me (VPN a)) \<or> \<not> pte_valid (uptab w child (VPN a)) \<Longrightarrow> view child a u = view me a w"
    and "e \<noteq> child \<Longrightarrow> view e a u = view e a w"
proof -
  have tab: "uptab u x v = (if x \<in> {me, child} \<and> v < n \<and> pte_valid (uptab w me v) then dup_pte (uptab w me v) else uptab w x v)" for x v
    using f by (simp add: forked_def)
  have ph: "phys u = phys w" using f by (simp add: forked_def)
  note v = view_valid [OF ok] view_valid [OF ok']
  note d = dup_pte_flags(1,2) [of "uptab w me (VPN a)"]
  show "view child a u = view me a w" if "VPN a < n" "pte_valid (uptab w me (VPN a)) \<or> \<not> pte_valid (uptab w child (VPN a))"
    using that d by (auto simp: v tab ph frame_of_def)
  show "view e a u = view e a w" if "e \<noteq> child"
    using that d by (simp add: v tab ph frame_of_def)
qed

lemma VPN_mono: "a < b \<Longrightarrow> unat b mod 4096 = 0 \<Longrightarrow> VPN a < VPN b"
  by (simp add: VPN_div word_less_nat_alt) (metis div_mult_mod_eq less_mult_imp_div_less add.right_neutral)

lemma keeps_fields [simp]:
  fixes w :: fworld
  shows "tlb_mod_entry (snd (u_mem_map e va e' va' perm w)) = tlb_mod_entry w"
    and "proc_status (snd (u_mem_map e va e' va' perm w)) = proc_status w"
  by (auto simp: u_mem_map_def need_table_def set_pte_def split: option.splits)

lemma fold_keeps_fields:
  fixes w :: fworld
  shows "tlb_mod_entry (fold (fork_page me child) is w) = tlb_mod_entry w"
    and "proc_status (fold (fork_page me child) is w) = proc_status w"
  by (induction "is" arbitrary: w) (simp_all add: fork_page_def duppage_def Let_def)

lemma shared_ok_fields [simp]:
  fixes w :: fworld
  shows "shared_ok (w\<lparr>tlb_mod_entry := f, proc_status := g\<rparr>) = shared_ok w"
    and "view e a (w\<lparr>tlb_mod_entry := f, proc_status := g\<rparr>) = view e a w"
  by (simp_all add: shared_ok_def frame_of_def view_def is_mapped_def pa_of_def)

lemma fork_unfold:
  fixes entry runnable :: u32
  assumes "me \<in> procs w" "child \<noteq> 0" "\<And>u. exofork u = (child, u\<lparr>procs := insert child (procs u)\<rparr>)"
  defines "w1 \<equiv> w\<lparr>tlb_mod_entry := (tlb_mod_entry w)(me := entry), procs := insert child (procs w)\<rparr>"
  defines "u \<equiv> fold (fork_page me child) [0..<VPN USTACKTOP] w1"
  assumes "child \<in> procs u"
  shows "fork exofork entry runnable me w = (Inr child,
      u\<lparr>tlb_mod_entry := (tlb_mod_entry w1)(child := entry), proc_status := (proc_status w1)(child := runnable)\<rparr>)"
proof -
  have "(if tlb_mod_entry w me \<noteq> entry then set_tlb_mod me entry w else (Inr (), w))
    = (Inr (), w\<lparr>tlb_mod_entry := (tlb_mod_entry w)(me := entry)\<rparr>)"
    using assms(1) by (auto simp: set_tlb_mod_def)
  moreover have "exofork (w\<lparr>tlb_mod_entry := (tlb_mod_entry w)(me := entry)\<rparr>) = (child, w1)"
    using assms(3) by (simp add: w1_def)
  moreover have "tlb_mod_entry u = tlb_mod_entry w1" "proc_status u = proc_status w1"
    by (simp_all add: u_def fold_keeps_fields)
  ultimately show ?thesis
    using assms(2) \<open>child \<in> procs u\<close> by (simp add: fork_def set_tlb_mod_def set_status_def flip: u_def)
qed

text \<open>
  C4 (fork_snapshot). When the kernel creates the environment \<open>child\<close> with an empty user space and
  frames do not run out, \<open>fork\<close> returns \<open>child\<close>: the child reads below \<open>USTACKTOP\<close> what the parent read
  before the call, nothing changes for the parent or any other environment, every private
  writable page of the parent has become read-only and copy-on-write on both sides, no frame that is
  mapped twice is writable unless it is a library page, and both have the handler \<open>entry\<close>
  and the child the status \<open>runnable\<close>.
\<close>

theorem fork_snapshot:
  assumes ok: "shared_ok w" and me: "me \<in> procs w" and child: "child \<noteq> 0" "child \<noteq> me"
    and exofork: "\<And>u. exofork u = (child, u\<lparr>procs := insert child (procs u)\<rparr>)"
    and empty: "\<And>v. v < VPN USTACKTOP \<Longrightarrow> \<not> pte_valid (uptab w child v)"
    and user: "\<And>v. v < VPN UTEMP \<Longrightarrow> \<not> pte_valid (uptab w me v)"
    and mem: "\<forall>n. palloc w n \<noteq> None"
  shows "\<exists>w'. fork exofork entry runnable me w = (Inr child, w')
    \<and> (\<forall>va<USTACKTOP. view child va w' = view me va w)
    \<and> (\<forall>e va. e \<noteq> child \<longrightarrow> view e va w' = view e va w)
    \<and> (\<forall>v<VPN USTACKTOP. pte_valid (uptab w me v) \<and> cowable (uptab w me v)
         \<longrightarrow> (\<forall>x\<in>{me, child}. uptab w' x v AND PTE_D = 0 \<and> uptab w' x v AND PTE_COW \<noteq> 0))
    \<and> shared_ok w' \<and> tlb_mod_entry w' me = entry \<and> tlb_mod_entry w' child = entry \<and> proc_status w' child = runnable"
proof -
  define w1 where "w1 = w\<lparr>tlb_mod_entry := (tlb_mod_entry w)(me := entry), procs := insert child (procs w)\<rparr>"
  define u where "u = fold (fork_page me child) [0..<VPN USTACKTOP] w1"
  have ok1: "shared_ok w1" using ok by (simp add: shared_ok_def frame_of_def w1_def)
  have legal: "VPN UTEMP \<le> v \<and> pte_valid (updir w1 me (v div 1024))" if "v < VPN USTACKTOP" "pte_valid (uptab w1 me v)" for v
  proof
    show "VPN UTEMP \<le> v" using user [of v] that(2) by (cases "VPN UTEMP \<le> v") (simp_all add: w1_def)
    have "pte_valid (uptab w1 me (VPN (page_va v)))" using that page_va_facts(1) [OF that(1)] by simp
    then have "pte_valid (updir w1 me (PDX (page_va v)))" using ok1 by (simp add: shared_ok_def)
    then show "pte_valid (updir w1 me (v div 1024))" by (simp only: page_va_facts(2) [OF that(1)])
  qed
  have f: "forked me child (VPN USTACKTOP) w1 u"
    unfolding u_def by (rule fold_fork_page) (use child me mem legal in \<open>auto simp: w1_def\<close>)
  have fk: "fork exofork entry runnable me w = (Inr child,
      u\<lparr>tlb_mod_entry := (tlb_mod_entry w1)(child := entry), proc_status := (proc_status w1)(child := runnable)\<rparr>)"
    unfolding u_def w1_def by (rule fork_unfold [OF me child(1) exofork]) (use f in \<open>simp add: forked_def u_def w1_def\<close>)
  have oku: "shared_ok u"
    by (rule forked_shared_ok [OF ok1 f]) (use empty in \<open>simp add: w1_def\<close>)
  note v = forked_view [OF ok1 f oku]
  have w1v: "view e a w1 = view e a w" for e a by (simp add: w1_def view_def is_mapped_def pa_of_def)
  have "view child a u = view me a w" if "a < USTACKTOP" for a
    using VPN_mono [OF that] v(1) [of a] empty [of "VPN a"] w1v by (simp add: w1_def mmu_defs)
  moreover have "uptab u x k AND PTE_D = 0 \<and> uptab u x k AND PTE_COW \<noteq> 0"
    if "k < VPN USTACKTOP" "pte_valid (uptab w me k)" "cowable (uptab w me k)" "x \<in> {me, child}" for x k
    using f that dup_pte_flags(4) [OF that(2,3)] by (simp add: forked_def w1_def)
  ultimately show ?thesis
    using fk v(2) w1v oku by (simp add: w1_def)
qed

definition world1 :: fworld where
  "world1 = \<lparr>phys = (\<lambda>a. if a = 0x5008 then 7 else 0),
     updir = (\<lambda>e i. if e = 1 \<and> i = 2 then PTE_V else 0),
     uptab = (\<lambda>e v. if e = 1 \<and> v = 0x800 then 0x5000 OR PTE_V OR PTE_D else 0),
     procs = {1}, palloc = (\<lambda>n. Some (0x100000 + 4096 * word_of_nat n)), requests = 0,
     tlb_mod_entry = (\<lambda>_. 0), proc_status = (\<lambda>_. 0)\<rparr>"

lemma VPN_PDX: "PDX va = VPN va div 1024"
  unfolding VPN_split [of va] using PTX_less [of va] by simp

lemma world1_shared_ok: "shared_ok world1"
  by (auto simp: shared_ok_def world1_def VPN_PDX flag_bits bit_simps pte_valid_bit)

theorem fork_snapshot_witness:
  "\<exists>w'. fork (\<lambda>u. (2, u\<lparr>procs := insert 2 (procs u)\<rparr>)) 0x400100 1 1 world1 = (Inr 2, w')
    \<and> (\<forall>va<USTACKTOP. view 2 va w' = view 1 va world1)
    \<and> (\<forall>e va. e \<noteq> 2 \<longrightarrow> view e va w' = view e va world1)
    \<and> (\<forall>v<VPN USTACKTOP. pte_valid (uptab world1 1 v) \<and> cowable (uptab world1 1 v)
         \<longrightarrow> (\<forall>x\<in>{1, 2}. uptab w' x v AND PTE_D = 0 \<and> uptab w' x v AND PTE_COW \<noteq> 0))
    \<and> shared_ok w' \<and> tlb_mod_entry w' 1 = 0x400100 \<and> tlb_mod_entry w' 2 = 0x400100 \<and> proc_status w' 2 = 1"
  by (rule fork_snapshot [OF world1_shared_ok]) (auto simp: world1_def VPN_div mmu_defs)

text \<open>
  C3 (cow_store_refines_private). A store to a page that is writable or copy-on-write and not a library
  page behaves as a store to private memory, whatever else maps the same frame: it returns, the
  storer then reads the new byte at the address, every other environment and every other address
  reads what it read before (the scratch page of the handler apart), and the sharing discipline is
  kept, so the next store behaves in the same way.
\<close>

theorem cow_store_refines_private:
  assumes ok: "shared_ok w" and m: "pte_valid (uptab w e (VPN va))"
    and rw: "uptab w e (VPN va) AND PTE_D \<noteq> 0 \<or> uptab w e (VPN va) AND PTE_COW \<noteq> 0"
    and lib: "uptab w e (VPN va) AND PTE_LIBRARY = 0"
    and e: "e \<in> procs w" "\<not> illegal_va va" "VPN va \<noteq> VPN UCOW"
    and fr: "palloc w (requests w) = Some fr" "\<forall>n. palloc w n \<noteq> None" "unused_frame fr w"
  shows "\<exists>w'. user_store e va b w = Some w' \<and> shared_ok w'
    \<and> (\<forall>e' a. (e', VPN a) \<noteq> (e, VPN UCOW) \<longrightarrow> view e' a w' = (if e' = e \<and> a = va then Some b else view e' a w))"
proof (cases "uptab w e (VPN va) AND PTE_D = 0")
  case False
  obtain w' where "put e va b w = Some w'" "shared_ok w'"
    "\<And>e' a. view e' a w' = (if e' = e \<and> a = va then Some b else view e' a w)"
    by (rule put_private [OF ok m False lib]) blast
  then show ?thesis using False m mapped_valid [OF ok] by (simp add: user_store_def)
next
  case True
  with rw have c: "uptab w e (VPN va) AND PTE_COW \<noteq> 0" by simp
  obtain u where u: "cow_entry e va w = Some u" "shared_ok u"
    "\<And>e' a. (e', VPN a) \<noteq> (e, VPN UCOW) \<Longrightarrow> view e' a u = view e' a w"
    "pte_valid (uptab u e (VPN va))" "uptab u e (VPN va) AND PTE_D \<noteq> 0" "uptab u e (VPN va) AND PTE_LIBRARY = 0"
    by (rule cow_entry_private [OF ok m c lib e fr]; rule that; assumption)
  obtain w' where "put e va b u = Some w'" "shared_ok w'"
    "\<And>e' a. view e' a w' = (if e' = e \<and> a = va then Some b else view e' a u)"
    by (rule put_private [OF u(2,4-6)]) blast
  then show ?thesis using True m u mapped_valid [OF ok] by (simp add: user_store_def)
qed

definition world2 :: fworld where
  "world2 = \<lparr>phys = (\<lambda>a. if a = 0x5008 then 7 else 0),
     updir = (\<lambda>e i. if e < 3 \<and> i = 2 then PTE_V else 0),
     uptab = (\<lambda>e v. if e < 3 \<and> v = 0x800 then 0x5000 OR PTE_V OR PTE_COW else 0),
     procs = {1, 2}, palloc = (\<lambda>n. Some 0x100000), requests = 0,
     tlb_mod_entry = (\<lambda>_. 0), proc_status = (\<lambda>_. 0)\<rparr>"

theorem cow_store_refines_private_witness:
  "\<exists>w'. user_store 1 0x800008 9 world2 = Some w' \<and> shared_ok w'
    \<and> (\<forall>e' a. (e', VPN a) \<noteq> (1, VPN UCOW) \<longrightarrow> view e' a w' = (if e' = 1 \<and> a = 0x800008 then Some 9 else view e' a world2))"
proof (rule cow_store_refines_private)
  show "shared_ok world2"
    by (auto simp: shared_ok_def world2_def VPN_PDX flag_bits bit_simps pte_valid_bit)
  show "unused_frame 0x100000 world2"
    by (simp add: unused_frame_def world2_def frame_of_def PTE_ADDR_def PTE_V_def PTE_COW_def)
qed (simp_all add: world2_def VPN_div mmu_defs illegal_va_def flag_bits bit_simps pte_valid_bit)

end
