(* ===== verification/Spawn_Props.thy ===== *)
theory Spawn_Props
  imports Spawn Fork
begin

text \<open>
  Properties of \<open>spawn\<close>. A page that an environment can write is a shifted piece of physical memory, so the stores of
  \<open>init_stack\<close> are stores to flat memory; what the child reads on its stack follows from the layout of that page.
\<close>

section \<open>A page as flat memory\<close>

text \<open>Page \<open>v\<close> of \<open>e\<close> is writable and lies in frame \<open>fr\<close>.\<close>

definition wpage :: "u32 \<Rightarrow> u32 \<Rightarrow> u32 \<Rightarrow> uworld \<Rightarrow> bool" where
  "wpage e v fr w \<longleftrightarrow> (\<forall>a. PTE_ADDR a = v \<longrightarrow> is_mapped e a w \<and> uptab w e (VPN a) AND PTE_D \<noteq> 0 \<and> PTE_ADDR (uptab w e (VPN a)) = fr)"

lemma wpage_phys [simp]: "wpage e v fr (w\<lparr>phys := m\<rparr>) = wpage e v fr w"
  by (simp add: wpage_def)

lemma offset_plus: "a = PTE_ADDR a + (a AND 0xFFF)" "PTE_ADDR f OR (a AND 0xFFF) = PTE_ADDR f + (a AND 0xFFF)"
proof -
  have n: "(0xFFFFF000 :: u32) = NOT 0xFFF" by simp
  have d: "PTE_ADDR f AND (a AND 0xFFF) = 0" for f by (rule bit_word_eqI) (auto simp: PTE_ADDR_def n bit_simps simp del: bit.compl_zero)
  have "PTE_ADDR f + (a AND 0xFFF) = PTE_ADDR f OR (a AND 0xFFF)" for f
    by (rule disjunctive_add_eq_or [OF d])
  then show "PTE_ADDR f OR (a AND 0xFFF) = PTE_ADDR f + (a AND 0xFFF)" by simp
  moreover have "PTE_ADDR a OR (a AND 0xFFF) = a"
    unfolding PTE_ADDR_def by (simp add: bit.conj_disj_distrib [symmetric])
  ultimately show "a = PTE_ADDR a + (a AND 0xFFF)"
    using \<open>\<And>f. PTE_ADDR f + (a AND 0xFFF) = PTE_ADDR f OR (a AND 0xFFF)\<close> by simp
qed

lemma pa_shift: "wpage e v fr w \<Longrightarrow> PTE_ADDR a = v \<Longrightarrow> pa_of e a w = a - v + fr"
proof -
  assume w: "wpage e v fr w" "PTE_ADDR a = v"
  then have "PTE_ADDR (uptab w e (VPN a)) = fr" by (simp add: wpage_def)
  then have "pa_of e a w = fr + (a AND 0xFFF)" using offset_plus(2) [of "uptab w e (VPN a)" a] by (simp add: pa_of_def)
  moreover have "a AND 0xFFF = a - v" using offset_plus(1) [of a] w(2) by (metis add_diff_cancel_left')
  ultimately show ?thesis by simp
qed

lemma put_in: "wpage e v fr w \<Longrightarrow> PTE_ADDR a = v \<Longrightarrow> put e a b w = Some (w\<lparr>phys := (phys w)(a - v + fr := b)\<rparr>)"
  using pa_shift [of e v fr w a] by (simp add: put_def wpage_def)

lemma put32_in:
  "wpage e v fr w \<Longrightarrow> PTE_ADDR a = v \<Longrightarrow> a AND 3 = 0 \<Longrightarrow> put32 e a x w = Some (w\<lparr>phys := store_word (a - v + fr) x (phys w)\<rparr>)"
  using pa_shift [of e v fr w a] by (simp add: put32_def wpage_def)

lemma view_in: "wpage e v fr w \<Longrightarrow> PTE_ADDR a = v \<Longrightarrow> view e a w = Some (phys w (a - v + fr))"
  using pa_shift [of e v fr w a] by (simp add: view_def wpage_def)

lemma get32_in: "wpage e v fr w \<Longrightarrow> PTE_ADDR a = v \<Longrightarrow> a AND 3 = 0 \<Longrightarrow> get32 e a w = Some (load_word (phys w) (a - v + fr))"
  using pa_shift [of e v fr w a] by (simp add: get32_def wpage_def)

text \<open>A run of bytes stored from an address on.\<close>

definition stored :: "u32 \<Rightarrow> u8 list \<Rightarrow> bmem \<Rightarrow> bmem" where
  "stored a bs m = (\<lambda>x. if unat (x - a) < length bs then bs ! unat (x - a) else m x)"

lemma stored_Nil [simp]: "stored a [] m = m"
  by (simp add: stored_def)

lemma stored_Cons:
  assumes "length bs < 4294967295"
  shows "stored (a + 1) bs (m(a := b)) = stored a (b # bs) m"
proof
  fix x
  show "stored (a + 1) bs (m(a := b)) x = stored a (b # bs) m x"
  proof (cases "x = a")
    case True
    have "unat (- 1 :: u32) = 4294967295" by (simp add: unsigned_minus_1_eq_mask mask_eq_exp_minus_1)
    then show ?thesis using True assms by (simp add: stored_def)
  next
    case False
    then have "x - a \<noteq> 0" by simp
    then have "unat (x - a) = Suc (unat (x - (a + 1)))"
      using unat_dec [of "x - a"] by (simp add: diff_diff_eq unat_gt_0)
    then show ?thesis using False by (simp add: stored_def)
  qed
qed

lemma put_bytes_in:
  assumes "wpage e v fr w" and "\<forall>i<length bs. PTE_ADDR (a + word_of_nat i) = v" and "length bs < 4294967295"
  shows "put_bytes e a bs w = Some (w\<lparr>phys := stored (a - v + fr) bs (phys w)\<rparr>)"
  using assms
proof (induction bs arbitrary: a w)
  case (Cons b bs)
  have "PTE_ADDR a = v" using spec [OF Cons.prems(2), of 0] by simp
  moreover have "\<forall>i<length bs. PTE_ADDR (a + 1 + word_of_nat i) = v"
  proof (intro allI impI)
    fix i
    assume "i < length bs"
    then have "PTE_ADDR (a + word_of_nat (Suc i)) = v" using spec [OF Cons.prems(2), of "Suc i"] by simp
    then show "PTE_ADDR (a + 1 + word_of_nat i) = v" by (simp add: add.assoc)
  qed
  moreover have "wpage e v fr (w\<lparr>phys := (phys w)(a - v + fr := b)\<rparr>)" using Cons.prems(1) by simp
  moreover have l: "length bs < 4294967295" using Cons.prems(3) by simp
  ultimately have "put_bytes e (a + 1) bs (w\<lparr>phys := (phys w)(a - v + fr := b)\<rparr>)
      = Some (w\<lparr>phys := stored (a + 1 - v + fr) bs ((phys w)(a - v + fr := b))\<rparr>)"
    using Cons.IH by (metis (no_types, lifting) uworld.update_convs(1) uworld.select_convs(1) uworld.surjective)
  moreover have "a + 1 - v + fr = a - v + fr + 1" by simp
  ultimately show ?case using l \<open>PTE_ADDR a = v\<close> put_in [OF Cons.prems(1)] by (simp only: put_bytes.simps stored_Cons Option.bind.bind_lunit)
qed simp

lemma put_bytes_append: "put_bytes e a (xs @ ys) w = Option.bind (put_bytes e a xs w) (put_bytes e (a + word_of_nat (length xs)) ys)"
proof (induction xs arbitrary: a w)
  case (Cons b xs)
  then show ?case by (cases "put e a b w") (simp_all add: add.assoc)
qed simp

text \<open>Words stored one after the other.\<close>

primrec store_words :: "u32 \<Rightarrow> u32 list \<Rightarrow> bmem \<Rightarrow> bmem" where
  "store_words a [] m = m"
| "store_words a (x # xs) m = store_words (a + 4) xs (store_word a x m)"

lemma store_word_above: "unat a + 4 \<le> unat x \<Longrightarrow> store_word a w m x = m x"
proof -
  assume a: "unat a + 4 \<le> unat x"
  have "a + word_of_nat i \<noteq> x" if "i < 4" for i
  proof
    assume "a + word_of_nat i = x"
    then have "unat x = unat a + i" using that a unat_u32 [of x] by (auto simp: unat_word_ariths unat_of_nat)
    then show False using a that by simp
  qed
  from this [of 0] this [of 1] this [of 2] this [of 3] show ?thesis by (auto simp: store_word_def)
qed

lemma store_words_above:
  "unat a + 4 * length ws \<le> unat x \<Longrightarrow> store_words a ws m x = m x"
proof (induction ws arbitrary: a m)
  case (Cons y ws)
  then have "unat a + 4 < 4294967296" using unat_u32 [of x] by simp
  then have "unat (a + 4) = unat a + 4" by (simp add: unat_word_ariths)
  then show ?case using Cons by (simp add: store_word_above)
qed simp

lemma stored_nth: "k < length bs \<Longrightarrow> length bs < 4294967296 \<Longrightarrow> stored a bs m (a + word_of_nat k) = bs ! k"
  by (simp add: stored_def unat_of_nat)

lemma aligned4 [simp]: "a AND 3 = 0 \<Longrightarrow> (a + 4 :: u32) AND 3 = 0"
  by (simp add: aligned_add)

lemma load_words_other:
  assumes "a AND 3 = 0" and "b AND 3 = 0" and "\<forall>i<length ws. b \<noteq> a + 4 * word_of_nat i"
  shows "load_word (store_words a ws m) b = load_word m b"
  using assms
proof (induction ws arbitrary: a m)
  case (Cons x ws)
  have "b \<noteq> a" using spec [OF Cons.prems(3), of 0] by simp
  moreover have "\<forall>i<length ws. b \<noteq> a + 4 + 4 * word_of_nat i"
  proof (intro allI impI)
    fix i
    assume "i < length ws"
    then have "b \<noteq> a + 4 * word_of_nat (Suc i)" using spec [OF Cons.prems(3), of "Suc i"] by simp
    then show "b \<noteq> a + 4 + 4 * word_of_nat i" by (simp add: distrib_left add.assoc)
  qed
  ultimately show ?case using Cons.IH Cons.prems(1,2) by (simp add: load_store_other)
qed simp

lemma load_words_nth:
  assumes "a AND 3 = 0" and "i < length ws" and "length ws < 1073741824"
  shows "load_word (store_words a ws m) (a + 4 * word_of_nat i) = ws ! i"
  using assms
proof (induction ws arbitrary: a m i)
  case (Cons x ws)
  show ?case
  proof (cases i)
    case 0
    have "a \<noteq> a + 4 + 4 * word_of_nat j" if "j < length ws" for j
    proof -
      have "unat (4 + 4 * word_of_nat j :: u32) = 4 + 4 * j" using that Cons.prems(3) by (simp add: unat_word_ariths unat_of_nat)
      then have "(4 + 4 * word_of_nat j :: u32) \<noteq> 0" by (metis add_is_0 unat_0 zero_neq_numeral)
      then show ?thesis by (simp add: add.assoc)
    qed
    then show ?thesis using 0 Cons.prems(1) by (simp add: load_words_other load_store_same)
  next
    case (Suc k)
    then have "a + 4 * word_of_nat i = a + 4 + 4 * word_of_nat k" by (simp add: distrib_left add.assoc)
    then show ?thesis using Suc Cons.IH [of "a + 4" k] Cons.prems by (simp add: add.assoc)
  qed
qed simp

section \<open>The arguments\<close>

definition blob :: "u8 list list \<Rightarrow> u8 list" where
  "blob ss = concat (map (\<lambda>s. s @ [0]) ss)"

lemma length_blob: "length (blob ss) = (\<Sum>s\<leftarrow>ss. length s + 1)"
  by (simp add: blob_def length_concat comp_def)

lemma copy_strings_blob: "copy_strings me c ss w = put_bytes me c (blob ss) w"
proof (induction ss arbitrary: c w)
  case (Cons s ss)
  have "blob (s # ss) = s @ [0] @ blob ss" by (simp add: blob_def)
  then show ?case using Cons by (cases "put_bytes me c s w") (simp_all add: put_bytes_append)
qed (simp add: blob_def)

lemma blob_append: "blob (xs @ ys) = blob xs @ blob ys"
  by (simp add: blob_def)

lemma blob_split:
  assumes "i < length ss"
  shows "blob ss = blob (take i ss) @ (ss ! i @ [0]) @ blob (drop (Suc i) ss)"
proof -
  have "blob ss = blob (take i ss @ ss ! i # drop (Suc i) ss)" using id_take_nth_drop [OF assms] by simp
  then show ?thesis by (simp only: blob_append) (simp add: blob_def)
qed

lemma blob_nth: "i < length ss \<Longrightarrow> j \<le> length (ss ! i) \<Longrightarrow> blob ss ! (length (blob (take i ss)) + j) = (ss ! i @ [0]) ! j"
  by (subst (1) blob_split, assumption) (simp add: nth_append)

lemma blob_less: "i < length ss \<Longrightarrow> j \<le> length (ss ! i) \<Longrightarrow> length (blob (take i ss)) + j < length (blob ss)"
  by (subst (2) blob_split, assumption) simp

text \<open>The addresses of the strings when the first is at \<open>c\<close>.\<close>

definition ptrs :: "u32 \<Rightarrow> u8 list list \<Rightarrow> u32 list" where
  "ptrs c ss = map (\<lambda>i. c + word_of_nat (length (blob (take i ss)))) [0..<length ss]"

lemma ptrs_Cons: "ptrs c (s # ss) = c # ptrs (c + word_of_nat (length s) + 1) ss"
proof -
  have "length (blob (s # xs)) = length s + 1 + length (blob xs)" for xs by (simp add: length_blob)
  moreover have "length (blob []) = 0" by (simp add: blob_def)
  ultimately show ?thesis unfolding ptrs_def by (simp add: upt_conv_Cons map_Suc_upt [symmetric] del: upt_Suc)
qed

lemma set_args_in:
  assumes "wpage me v fr w" and "a AND 3 = 0" and "\<forall>i<length ss. PTE_ADDR (a + 4 * word_of_nat i) = v"
  shows "set_args me a c ss w = Some (c + word_of_nat (length (blob ss)), w\<lparr>phys := store_words (a - v + fr) (ptrs c ss) (phys w)\<rparr>)"
  using assms
proof (induction ss arbitrary: a c w)
  case Nil
  then show ?case by (simp add: blob_def ptrs_def)
next
  case (Cons s ss)
  let ?w = "w\<lparr>phys := store_word (a - v + fr) c (phys w)\<rparr>"
  have "\<forall>i<length ss. PTE_ADDR (a + 4 + 4 * word_of_nat i) = v"
  proof (intro allI impI)
    fix i
    assume "i < length ss"
    then have "PTE_ADDR (a + 4 * word_of_nat (Suc i)) = v" using spec [OF Cons.prems(3), of "Suc i"] by simp
    then show "PTE_ADDR (a + 4 + 4 * word_of_nat i) = v" by (simp add: distrib_left add.assoc)
  qed
  moreover have "wpage me v fr ?w" using Cons.prems(1) by simp
  ultimately have "set_args me (a + 4) (c + word_of_nat (length s) + 1) ss ?w
      = Some (c + word_of_nat (length s) + 1 + word_of_nat (length (blob ss)),
          ?w\<lparr>phys := store_words (a + 4 - v + fr) (ptrs (c + word_of_nat (length s) + 1) ss) (phys ?w)\<rparr>)"
    using Cons.IH Cons.prems(2) by (metis aligned4)
  moreover have "PTE_ADDR a = v" using spec [OF Cons.prems(3), of 0] by simp
  then have "put32 me a c w = Some ?w" using put32_in [OF Cons.prems(1)] Cons.prems(2) by simp
  moreover have "length (blob (s # ss)) = length s + 1 + length (blob ss)" by (simp add: length_blob)
  moreover have "a + 4 - v + fr = a - v + fr + 4" by simp
  ultimately show ?case by (simp add: ptrs_Cons)
qed

section \<open>Offsets in a page\<close>

definition CHILD_STACK :: u32 where "CHILD_STACK = USTACKTOP - BY2PG"

lemma stack_bases: "UTEMP = 0x3FE000" "CHILD_STACK = 0x7F3FD000" "STACK_DELTA + UTEMP = CHILD_STACK"
  by (simp_all add: CHILD_STACK_def STACK_DELTA_def mmu_defs BY2PG_def)

lemma page_base:
  assumes "PTE_ADDR fr = fr"
  obtains q where "unat fr = 4096 * q" and "q < 1048576"
proof (rule that [of "unat fr div 4096"])
  show u: "unat fr = 4096 * (unat fr div 4096)" using assms unat_PTE_ADDR [of fr] by simp
  show "unat fr div 4096 < 1048576" using unat_u32 [of fr] by (intro less_mult_imp_div_less) simp
qed

lemma unat_in_page: "PTE_ADDR fr = fr \<Longrightarrow> k < 4096 \<Longrightarrow> unat (fr + word_of_nat k) = unat fr + k"
  by (erule page_base) (simp add: unat_word_ariths unat_of_nat)

lemma in_page: "PTE_ADDR fr = fr \<Longrightarrow> k < 4096 \<Longrightarrow> PTE_ADDR (fr + word_of_nat k) = fr"
proof -
  assume a: "PTE_ADDR fr = fr" "k < 4096"
  from page_base [OF a(1)] obtain q where "unat fr = 4096 * q" .
  then have "unat (PTE_ADDR (fr + word_of_nat k)) = unat fr" using unat_in_page [OF a] a(2) by (simp add: unat_PTE_ADDR)
  then show ?thesis by (simp add: word_unat_eq_iff)
qed

lemma aligned_in_page: "PTE_ADDR fr = fr \<Longrightarrow> k < 4096 \<Longrightarrow> k mod 4 = 0 \<Longrightarrow> (fr + word_of_nat k) AND 3 = 0"
proof -
  assume a: "PTE_ADDR fr = fr" "k < 4096" "k mod 4 = 0"
  from page_base [OF a(1)] obtain q where "unat fr = 4 * (1024 * q)" by auto
  then show ?thesis using unat_in_page [OF a(1,2)] a(3) by (simp only: aligned_iff mod_mult_self4)
qed

lemma offsets_differ: "PTE_ADDR fr = fr \<Longrightarrow> k < 4096 \<Longrightarrow> l < 4096 \<Longrightarrow> k \<noteq> l \<Longrightarrow> fr + word_of_nat k \<noteq> fr + word_of_nat l"
  using unat_in_page [of fr k] unat_in_page [of fr l] by auto

lemma bases_aligned [simp]: "PTE_ADDR UTEMP = UTEMP" "PTE_ADDR CHILD_STACK = CHILD_STACK"
  by (simp_all add: stack_bases PTE_ADDR_def)

lemma and_not_mask: "(y :: u32) AND NOT (mask n) = push_bit n (drop_bit n y)"
  by (rule bit_word_eqI) (auto simp: bit_simps)

lemma ROUND4: "unat x + 3 < 4294967296 \<Longrightarrow> unat (ROUND x 4) = 4 * ((unat x + 3) div 4)"
proof -
  assume a: "unat x + 3 < 4294967296"
  have "ROUND x 4 = (x + 3) AND NOT (mask 2)"
    by (simp add: ROUND_def mask_eq_exp_minus_1 add_diff_eq [symmetric])
  also have "\<dots> = push_bit 2 (drop_bit 2 (x + 3))" by (rule and_not_mask)
  also have "unat \<dots> = 4 * ((unat x + 3) div 4)"
  proof -
    have u: "unat (x + 3) = unat x + 3" using a by (simp add: unat_word_ariths)
    have "push_bit 2 (drop_bit 2 (x + 3)) = 4 * drop_bit 2 (x + 3)" by (simp add: push_bit_eq_mult)
    moreover have "4 * ((unat x + 3) div 4) < 4294967296" using a by presburger
    ultimately show ?thesis using u by (simp add: unat_word_ariths unat_drop)
  qed
  finally show ?thesis .
qed

section \<open>The layout of the stack\<close>

text \<open>The page as 1024 words: word \<open>k\<close> of the page at \<open>p\<close>, the word where the pointers start, and that everything fits.\<close>

definition slot :: "u32 \<Rightarrow> nat \<Rightarrow> u32" where
  "slot p k = p + word_of_nat (4 * k)"

definition arg_slot :: "u8 list list \<Rightarrow> nat" where
  "arg_slot argv = 1024 - (length (blob argv) + 3) div 4 - (length argv + 1)"

definition args_fit :: "u8 list list \<Rightarrow> bool" where
  "args_fit argv \<longleftrightarrow> (length (blob argv) + 3) div 4 + (length argv + 3) \<le> 1024"

lemma arg_slot_facts:
  assumes "args_fit argv"
  shows "2 \<le> arg_slot argv" and "arg_slot argv + length argv < 1024" and "4 * (arg_slot argv + length argv + 1) \<le> 4096 - length (blob argv)"
    and "length (blob argv) \<le> 4096" and "length argv < 1024"
    and "arg_slot argv + length argv + 1 + (length (blob argv) + 3) div 4 = 1024"
proof -
  define r where "r = (length (blob argv) + 3) div 4"
  have "length (blob argv) \<le> 4 * r" unfolding r_def by simp
  moreover have "arg_slot argv = 1024 - r - (length argv + 1)" "r + (length argv + 3) \<le> 1024"
    using assms by (simp_all add: arg_slot_def args_fit_def r_def)
  ultimately show "2 \<le> arg_slot argv" "arg_slot argv + length argv < 1024" "4 * (arg_slot argv + length argv + 1) \<le> 4096 - length (blob argv)"
    "length (blob argv) \<le> 4096" "length argv < 1024"
    "arg_slot argv + length argv + 1 + (length (blob argv) + 3) div 4 = 1024"
    unfolding r_def [symmetric] by arith+
qed

lemma slot_aligned: "PTE_ADDR p = p \<Longrightarrow> k < 1024 \<Longrightarrow> slot p k AND 3 = 0"
  unfolding slot_def by (rule aligned_in_page) simp_all

lemma slot_in_page: "PTE_ADDR p = p \<Longrightarrow> k < 1024 \<Longrightarrow> PTE_ADDR (slot p k) = p"
  unfolding slot_def by (rule in_page) simp_all

lemma slots_differ: "PTE_ADDR p = p \<Longrightarrow> k < 1024 \<Longrightarrow> l < 1024 \<Longrightarrow> k \<noteq> l \<Longrightarrow> slot p k \<noteq> slot p l"
  unfolding slot_def by (rule offsets_differ) simp_all

lemma slot_add: "slot p k + 4 * word_of_nat i = slot p (k + i)"
  by (simp add: slot_def distrib_left add.assoc)

lemma slot_shift: "slot p k - p + q = slot q k"
  by (simp add: slot_def)

text \<open>The contents of the page in frame \<open>fr\<close>: the last three stores on top of the pointers and the strings.\<close>

definition child_ptrs :: "u8 list list \<Rightarrow> u32 list" where
  "child_ptrs argv = ptrs (CHILD_STACK + word_of_nat (4096 - length (blob argv))) argv"

definition strings_image :: "u32 \<Rightarrow> u8 list list \<Rightarrow> bmem \<Rightarrow> bmem" where
  "strings_image fr argv m = stored (fr + word_of_nat (4096 - length (blob argv))) (blob argv) m"

definition stack_image :: "u32 \<Rightarrow> u8 list list \<Rightarrow> bmem \<Rightarrow> bmem" where
  "stack_image fr argv m = (
     let a = arg_slot argv
     in store_word (slot fr (a - 2)) (word_of_nat (length argv))
          (store_word (slot fr (a - 1)) (slot CHILD_STACK a)
            (store_word (slot fr (a + length argv)) (CHILD_STACK + 4095)
              (store_words (slot fr a) (child_ptrs argv) (strings_image fr argv m)))))"

lemma length_ptrs [simp]: "length (ptrs c ss) = length ss" "length (child_ptrs ss) = length ss"
  by (simp_all add: ptrs_def child_ptrs_def)

lemma stack_image_words:
  assumes fr: "PTE_ADDR fr = fr" and fit: "args_fit argv"
  shows "load_word (stack_image fr argv m) (slot fr (arg_slot argv - 2)) = word_of_nat (length argv)"
    and "load_word (stack_image fr argv m) (slot fr (arg_slot argv - 1)) = slot CHILD_STACK (arg_slot argv)"
    and "load_word (stack_image fr argv m) (slot fr (arg_slot argv + length argv)) = CHILD_STACK + 4095"
    and "i < length argv \<Longrightarrow> load_word (stack_image fr argv m) (slot fr (arg_slot argv + i)) = child_ptrs argv ! i"
proof -
  note f = arg_slot_facts [OF fit]
  have o: "load_word (store_word (slot fr l) x n) (slot fr k) = load_word n (slot fr k)" if "k < 1024" "l < 1024" "k \<noteq> l" for k l x n
    using that fr by (intro load_store_other slot_aligned slots_differ)
  show "load_word (stack_image fr argv m) (slot fr (arg_slot argv - 2)) = word_of_nat (length argv)"
    by (simp add: stack_image_def Let_def load_store_same)
  show "load_word (stack_image fr argv m) (slot fr (arg_slot argv - 1)) = slot CHILD_STACK (arg_slot argv)"
    using f(1,2) by (simp add: stack_image_def Let_def load_store_same o)
  show "load_word (stack_image fr argv m) (slot fr (arg_slot argv + length argv)) = CHILD_STACK + 4095"
    using f(1,2) by (simp add: stack_image_def Let_def load_store_same o)
  assume i: "i < length argv"
  have "load_word (store_words (slot fr (arg_slot argv)) (child_ptrs argv) (strings_image fr argv m)) (slot fr (arg_slot argv + i)) = child_ptrs argv ! i"
    using load_words_nth [of "slot fr (arg_slot argv)" i "child_ptrs argv" "strings_image fr argv m"] i f slot_aligned [OF fr]
    by (simp add: slot_add)
  then show "load_word (stack_image fr argv m) (slot fr (arg_slot argv + i)) = child_ptrs argv ! i"
    using f(1,2) i by (simp add: stack_image_def Let_def o)
qed

lemma stack_image_bytes:
  assumes fr: "PTE_ADDR fr = fr" and fit: "args_fit argv" and k: "k < length (blob argv)"
  shows "stack_image fr argv m (fr + word_of_nat (4096 - length (blob argv) + k)) = blob argv ! k"
proof -
  note f = arg_slot_facts [OF fit]
  define p where "p = 4096 - length (blob argv) + k"
  let ?x = "fr + word_of_nat p"
  have p: "p < 4096" "4 * (arg_slot argv + length argv + 1) \<le> p" using k f(3,4) by (simp_all add: p_def)
  have x: "unat ?x = unat fr + p" by (rule unat_in_page [OF fr p(1)])
  have u: "unat (slot fr j) = unat fr + 4 * j" if "j < 1024" for j unfolding slot_def using that by (intro unat_in_page [OF fr]) simp
  have b: "store_word (slot fr j) y n ?x = n ?x" if "j \<le> arg_slot argv + length argv" for j y n
    using that f(2) p(2) by (intro store_word_above) (simp add: x u)
  have w: "store_words (slot fr (arg_slot argv)) (child_ptrs argv) n ?x = n ?x" for n
    using f(2) p(2) by (intro store_words_above) (simp add: x u)
  have len: "length (blob argv) < 4294967296" using f(4) by simp
  have "fr + word_of_nat (4096 - length (blob argv)) + word_of_nat k = ?x" unfolding p_def by (simp only: of_nat_add add.assoc)
  then have "strings_image fr argv m ?x = blob argv ! k"
    using stored_nth [OF k len, of "fr + word_of_nat (4096 - length (blob argv))" m] by (simp only: strings_image_def)
  then show ?thesis unfolding stack_image_def Let_def p_def [symmetric] by (simp add: b w)
qed

lemma fit_guard:
  assumes "args_fit argv"
  shows "ROUND (word_of_nat (length (blob argv))) 4 = word_of_nat (4 * ((length (blob argv) + 3) div 4))"
    and "\<not> ROUND (word_of_nat (length (blob argv))) 4 + 4 * (word_of_nat (length argv) + 3) > BY2PG"
proof -
  note f = arg_slot_facts [OF assms]
  define r where "r = (length (blob argv) + 3) div 4"
  have r: "r + (length argv + 3) \<le> 1024" using assms by (simp add: args_fit_def r_def)
  have "unat (ROUND (word_of_nat (length (blob argv))) 4) = 4 * r"
    using ROUND4 [of "word_of_nat (length (blob argv))"] f(4) by (simp add: unat_of_nat r_def)
  moreover have "unat (word_of_nat (4 * r) :: u32) = 4 * r" using r by (simp only: unat_of_nat) simp
  ultimately have "ROUND (word_of_nat (length (blob argv))) 4 = word_of_nat (4 * r)" by (simp only: word_unat_eq_iff)
  then show "ROUND (word_of_nat (length (blob argv))) 4 = word_of_nat (4 * ((length (blob argv) + 3) div 4))" by (simp add: r_def)
  have "ROUND (word_of_nat (length (blob argv))) 4 + 4 * (word_of_nat (length argv) + 3) = word_of_nat (4 * r + 4 * (length argv + 3))"
    using \<open>ROUND (word_of_nat (length (blob argv))) 4 = word_of_nat (4 * r)\<close> by simp
  moreover have "unat (word_of_nat (4 * r + 4 * (length argv + 3)) :: u32) = 4 * r + 4 * (length argv + 3)"
    using r by (simp only: unat_of_nat) simp
  ultimately show "\<not> ROUND (word_of_nat (length (blob argv))) 4 + 4 * (word_of_nat (length argv) + 3) > BY2PG"
    using r by (simp add: word_less_nat_alt BY2PG_def)
qed

text \<open>The addresses that \<open>init_stack\<close> computes.\<close>

lemma init_stack_addrs:
  assumes "args_fit argv"
  shows "UTEMP + BY2PG - word_of_nat (length (blob argv)) = UTEMP + word_of_nat (4096 - length (blob argv))"
    and "UTEMP + BY2PG - ROUND (word_of_nat (length (blob argv))) 4 - 4 * (word_of_nat (length argv) + 1) = slot UTEMP (arg_slot argv)"
    and "slot p (arg_slot argv) - 4 = slot p (arg_slot argv - 1)" and "slot p (arg_slot argv) - 8 = slot p (arg_slot argv - 2)"
proof -
  note f = arg_slot_facts [OF assms]
  show "UTEMP + BY2PG - word_of_nat (length (blob argv)) = UTEMP + word_of_nat (4096 - length (blob argv))"
    using f(4) by (simp add: of_nat_diff BY2PG_def)
  have "(4096 :: u32) = word_of_nat (4 * arg_slot argv + 4 * (length argv + 1) + 4 * ((length (blob argv) + 3) div 4))"
    using arg_cong [OF f(6), of "\<lambda>n. word_of_nat (4 * n) :: u32"] by (simp add: distrib_left algebra_simps)
  then show "UTEMP + BY2PG - ROUND (word_of_nat (length (blob argv))) 4 - 4 * (word_of_nat (length argv) + 1) = slot UTEMP (arg_slot argv)"
    unfolding fit_guard(1) [OF assms] slot_def BY2PG_def by (simp only: of_nat_add) (simp add: distrib_left)
  have "4 * arg_slot argv = 4 * (arg_slot argv - 1) + 4" "4 * arg_slot argv = 4 * (arg_slot argv - 2) + 8" using f(1) by simp_all
  from this [THEN arg_cong, of "word_of_nat :: nat \<Rightarrow> u32"]
  have e: "word_of_nat (4 * arg_slot argv) = word_of_nat (4 * (arg_slot argv - 1)) + (4 :: u32)"
    "word_of_nat (4 * arg_slot argv) = word_of_nat (4 * (arg_slot argv - 2)) + (8 :: u32)"
    by (simp_all only: of_nat_add of_nat_numeral)
  show "slot p (arg_slot argv) - 4 = slot p (arg_slot argv - 1)" unfolding slot_def e(1) by (simp only: add.assoc [symmetric] add_diff_cancel_right')
  show "slot p (arg_slot argv) - 8 = slot p (arg_slot argv - 2)" unfolding slot_def e(2) by (simp only: add.assoc [symmetric] add_diff_cancel_right')
qed

lemma last_byte: "args_fit argv \<Longrightarrow> CHILD_STACK + word_of_nat (4096 - length (blob argv)) + word_of_nat (length (blob argv)) - 1 = CHILD_STACK + 4095"
  using arg_slot_facts(4) [of argv] by (simp add: of_nat_diff)

text \<open>The stores of \<open>init_stack\<close> to the page at \<open>UTEMP\<close>.\<close>

definition write_stack :: "u32 \<Rightarrow> u8 list list \<Rightarrow> uworld \<Rightarrow> uworld option" where
  "write_stack me argv w = (
     let argc = word_of_nat (length argv);
         strings = UTEMP + word_of_nat (4096 - length (blob argv));
         args = slot UTEMP (arg_slot argv)
     in do {
       w \<leftarrow> copy_strings me strings argv w;
       (ctemp, w) \<leftarrow> set_args me args (STACK_DELTA + strings) argv w;
       w \<leftarrow> put32 me (args + 4 * argc) (ctemp - 1) w;
       w \<leftarrow> put32 me (args - 4) (STACK_DELTA + args) w;
       put32 me (args - 8) argc w
     })"

lemma write_stack_image:
  assumes w: "wpage me UTEMP fr w" and fit: "args_fit argv"
  shows "write_stack me argv w = Some (w\<lparr>phys := stack_image fr argv (phys w)\<rparr>)"
proof -
  note f = arg_slot_facts [OF fit]
  have d: "STACK_DELTA + (UTEMP + x) = CHILD_STACK + x" for x by (simp add: stack_bases(3) add.assoc [symmetric])
  have ds: "STACK_DELTA + slot UTEMP k = slot CHILD_STACK k" for k by (simp add: slot_def d)
  have b: "put_bytes me (UTEMP + word_of_nat (4096 - length (blob argv))) (blob argv) u = Some (u\<lparr>phys := strings_image fr argv (phys u)\<rparr>)"
    if "wpage me UTEMP fr u" for u
  proof -
    have "PTE_ADDR (UTEMP + word_of_nat (4096 - length (blob argv)) + word_of_nat i) = UTEMP" if "i < length (blob argv)" for i
      using in_page [of UTEMP "4096 - length (blob argv) + i"] that f(4) by (simp only: of_nat_add add.assoc bases_aligned)
    then show ?thesis using put_bytes_in [OF that] f(4) by (simp add: strings_image_def add.commute)
  qed
  have a: "set_args me (slot UTEMP (arg_slot argv)) c argv u
      = Some (c + word_of_nat (length (blob argv)), u\<lparr>phys := store_words (slot fr (arg_slot argv)) (ptrs c argv) (phys u)\<rparr>)"
    if "wpage me UTEMP fr u" for u c
    using set_args_in [OF that, of "slot UTEMP (arg_slot argv)" argv c] f(2) by (simp add: slot_add slot_aligned slot_in_page slot_shift)
  have p: "put32 me (slot UTEMP k) x u = Some (u\<lparr>phys := store_word (slot fr k) x (phys u)\<rparr>)" if "wpage me UTEMP fr u" "k < 1024" for u k x
    using put32_in [OF that(1), of "slot UTEMP k" x] that(2) by (simp add: slot_aligned slot_in_page slot_shift)
  show ?thesis
    using f(1,2) w
    unfolding write_stack_def Let_def copy_strings_blob d ds init_stack_addrs(3,4) [OF fit] slot_add
    by (simp add: b a p last_byte [OF fit] stack_image_def Let_def child_ptrs_def)
qed

lemma bind_case_prod: "Option.bind (case p of (a, b) \<Rightarrow> f a b) g = (case p of (a, b) \<Rightarrow> Option.bind (f a b) g)"
  by (cases p) simp

lemma init_stack_unfold:
  assumes "args_fit argv"
  shows "init_stack me child argv w = (
     case u_mem_alloc me UTEMP PTE_D w of
       (Inl e, w) \<Rightarrow> Some (Inl e, w)
     | (Inr _, w) \<Rightarrow> do {
         w \<leftarrow> write_stack me argv w;
         Some (case u_mem_map me UTEMP child CHILD_STACK PTE_D w of
            (Inl e, w) \<Rightarrow> (Inl e, snd (u_mem_unmap me UTEMP w))
          | (Inr _, w) \<Rightarrow>
              (case u_mem_unmap me UTEMP w of
                 (Inl e, w) \<Rightarrow> (Inl e, snd (u_mem_unmap me UTEMP w))
               | (Inr _, w) \<Rightarrow> (Inr (slot CHILD_STACK (arg_slot argv - 2)), w)))
       })"
proof -
  have d: "STACK_DELTA + slot UTEMP k = slot CHILD_STACK k" for k by (simp add: slot_def stack_bases(3) add.assoc [symmetric])
  show ?thesis
    using fit_guard(2) [OF assms]
    unfolding init_stack_def write_stack_def Let_def length_blob [symmetric] CHILD_STACK_def [symmetric] init_stack_addrs(1,2,4) [OF assms] d
    by (simp add: bind_case_prod split: sum.splits prod.splits)
qed

text \<open>An environment finds the string \<open>s\<close> with its terminator at \<open>va\<close>.\<close>

definition string_at :: "u32 \<Rightarrow> u32 \<Rightarrow> u8 list \<Rightarrow> uworld \<Rightarrow> bool" where
  "string_at e va s w \<longleftrightarrow> (\<forall>j\<le>length s. view e (va + word_of_nat j) w = Some ((s @ [0]) ! j))"

text \<open>What the child reads when its stack page holds the image.\<close>

lemma stack_image_read:
  assumes w: "wpage child CHILD_STACK fr w" and fr: "PTE_ADDR fr = fr" and fit: "args_fit argv" and ph: "phys w = stack_image fr argv m"
    and sp: "sp = slot CHILD_STACK (arg_slot argv - 2)"
  shows "get32 child sp w = Some (word_of_nat (length argv))" and "get32 child (sp + 4) w = Some (sp + 8)"
    and "get32 child (sp + 8 + 4 * word_of_nat (length argv)) w = Some (USTACKTOP - 1)"
    and "i < length argv \<Longrightarrow> \<exists>p. get32 child (sp + 8 + 4 * word_of_nat i) w = Some p \<and> string_at child p (argv ! i) w"
proof -
  note f = arg_slot_facts [OF fit]
  have g: "get32 child (slot CHILD_STACK k) w = Some (load_word (stack_image fr argv m) (slot fr k))" if "k < 1024" for k
    using get32_in [OF w, of "slot CHILD_STACK k"] that by (simp add: slot_in_page slot_aligned slot_shift ph)
  have e: "sp + 4 = slot CHILD_STACK (arg_slot argv - 1)" "sp + 8 = slot CHILD_STACK (arg_slot argv)"
    unfolding sp init_stack_addrs(3,4) [OF fit, symmetric] by simp_all
  show "get32 child sp w = Some (word_of_nat (length argv))" using g f(1,2) stack_image_words(1) [OF fr fit] by (simp add: sp)
  show "get32 child (sp + 4) w = Some (sp + 8)" unfolding e using g f(1,2) stack_image_words(2) [OF fr fit] by simp
  have "USTACKTOP - 1 = CHILD_STACK + 4095" by (simp add: CHILD_STACK_def BY2PG_def)
  then show "get32 child (sp + 8 + 4 * word_of_nat (length argv)) w = Some (USTACKTOP - 1)"
    unfolding e slot_add using g f(1,2) stack_image_words(3) [OF fr fit] by simp
  assume i: "i < length argv"
  let ?o = "4096 - length (blob argv) + length (blob (take i argv))"
  have p: "child_ptrs argv ! i = CHILD_STACK + word_of_nat ?o"
    using i by (simp only: child_ptrs_def ptrs_def) (simp add: add.assoc)
  have "string_at child (CHILD_STACK + word_of_nat ?o) (argv ! i) w"
    unfolding string_at_def
  proof (intro allI impI)
    fix j
    assume j: "j \<le> length (argv ! i)"
    note b = blob_less [OF i j] blob_nth [OF i j]
    have "PTE_ADDR (CHILD_STACK + word_of_nat (?o + j)) = CHILD_STACK" using b(1) f(4) by (intro in_page) simp_all
    then have "view child (CHILD_STACK + word_of_nat (?o + j)) w = Some (stack_image fr argv m (fr + word_of_nat (?o + j)))"
      using view_in [OF w, of "CHILD_STACK + word_of_nat (?o + j)"] by (simp only: ph) (simp add: add.commute)
    also have "stack_image fr argv m (fr + word_of_nat (?o + j)) = (argv ! i @ [0]) ! j"
      using stack_image_bytes [OF fr fit b(1)] b(2) by (simp only: add.assoc)
    finally show "view child (CHILD_STACK + word_of_nat ?o + word_of_nat j) w = Some ((argv ! i @ [0]) ! j)" by (simp only: of_nat_add add.assoc)
  qed
  then show "\<exists>p. get32 child (sp + 8 + 4 * word_of_nat i) w = Some p \<and> string_at child p (argv ! i) w"
    unfolding e slot_add using g [of "arg_slot argv + i"] f(2) i stack_image_words(4) [OF fr fit i] p by auto
qed

lemma wpage_pte:
  assumes "pte_valid (updir w e (PDX v))" and "uptab w e (VPN v) = PTE_ADDR fr OR PTE_D OR PTE_V" and "PTE_ADDR v = v"
  shows "wpage e v (PTE_ADDR fr) w"
  unfolding wpage_def
proof (intro allI impI)
  fix a
  assume "PTE_ADDR a = v"
  then have v: "VPN a = VPN v" using assms(3) by (metis PPN_PTE_ADDR VPN_div PPN_div)
  then have "PDX a = PDX v" by (metis VPN_eq_iff)
  moreover have "(PTE_ADDR fr OR PTE_D OR PTE_V) AND PTE_D \<noteq> 0"
    by (simp add: bit.conj_disj_distrib2 PTE_D_def)
  ultimately show "is_mapped e a w \<and> uptab w e (VPN a) AND PTE_D \<noteq> 0 \<and> PTE_ADDR (uptab w e (VPN a)) = PTE_ADDR fr"
    using assms v by (simp add: is_mapped_def PTE_ADDR_or)
qed

text \<open>
  C12 (init_stack_layout). When memory can be had and the arguments fit into a page, \<open>init_stack\<close> succeeds, and the child then finds
  on its stack what \<open>main\<close> expects: at the stack pointer the number of arguments, above it the address of the array \<open>argv\<close>, which
  lies right above, and in element \<open>i\<close> of this array the address of argument \<open>i\<close> with its terminator. The element behind
  the last is the address of the last byte of the stack and not the null pointer. The page is no longer mapped at \<open>UTEMP\<close> in the parent.
\<close>

theorem init_stack_layout:
  assumes "me \<in> procs w" and "child \<in> procs w" and "me \<noteq> child" and "\<forall>n. palloc w n \<noteq> None" and "args_fit argv"
  shows "\<exists>sp w'. init_stack me child argv w = Some (Inr sp, w') \<and> get32 child sp w' = Some (word_of_nat (length argv))
    \<and> get32 child (sp + 4) w' = Some (sp + 8)
    \<and> (\<forall>i<length argv. \<exists>p. get32 child (sp + 8 + 4 * word_of_nat i) w' = Some p \<and> string_at child p (argv ! i) w')
    \<and> get32 child (sp + 8 + 4 * word_of_nat (length argv)) w' = Some (USTACKTOP - 1) \<and> \<not> is_mapped me UTEMP w'"
proof -
  have l: "\<not> illegal_va UTEMP" "\<not> illegal_va CHILD_STACK" by (simp_all add: illegal_va_def stack_bases mmu_defs)
  obtain fr where fr: "palloc w (requests w) = Some fr" using assms(4) by blast
  obtain w1 where w1: "u_mem_alloc me UTEMP PTE_D w = (Inr (), w1)"
    "uptab w1 = (uptab w)(me := (uptab w me)(VPN UTEMP := PTE_ADDR fr OR PTE_D OR PTE_V))" "pte_valid (updir w1 me (PDX UTEMP))"
    "procs w1 = procs w" "palloc w1 = palloc w"
    by (rule u_mem_alloc_ok [OF l(1) assms(1) fr assms(4), of PTE_D]) blast
  have page: "wpage me UTEMP (PTE_ADDR fr) w1" using w1(2,3) by (intro wpage_pte) simp_all
  let ?w2 = "w1\<lparr>phys := stack_image (PTE_ADDR fr) argv (phys w1)\<rparr>"
  note w2 = write_stack_image [OF page assms(5)]
  have pre: "me \<in> procs ?w2" "child \<in> procs ?w2" "is_mapped me UTEMP ?w2" "\<forall>n. palloc ?w2 n \<noteq> None"
    using page assms(1,2,4) w1(4,5) by (simp_all add: wpage_def)
  obtain w3 where w3: "u_mem_map me UTEMP child CHILD_STACK PTE_D ?w2 = (Inr (), w3)"
    "uptab w3 = (uptab ?w2)(child := (uptab ?w2 child)(VPN CHILD_STACK := PTE_ADDR (uptab ?w2 me (VPN UTEMP)) OR PTE_D OR PTE_V))"
    "pte_valid (updir w3 child (PDX CHILD_STACK))" "phys w3 = phys ?w2" "procs w3 = procs ?w2"
    "\<And>x i. pte_valid (updir ?w2 x i) \<Longrightarrow> pte_valid (updir w3 x i)"
    by (rule u_mem_map_ok [OF l pre, of PTE_D]) blast
  have fr1: "PTE_ADDR (uptab w1 me (VPN UTEMP)) = PTE_ADDR fr" using w1(2) by (simp add: PTE_ADDR_or)
  have m3: "is_mapped me UTEMP w3" using w1(2,3) w3(2,6) assms(3) by (simp add: is_mapped_def)
  let ?w4 = "set_pte me UTEMP 0 w3"
  have w4: "u_mem_unmap me UTEMP w3 = (Inr (), ?w4)" using l(1) assms(1) w1(4) w3(5) m3 by (simp add: u_mem_unmap_def)
  have "wpage child CHILD_STACK (PTE_ADDR fr) ?w4"
    using w3(2,3) assms(3) fr1 by (intro wpage_pte) (simp_all add: set_pte_def)
  note r = stack_image_read [OF this _ assms(5) _ refl]
  have "phys ?w4 = stack_image (PTE_ADDR fr) argv (phys w1)" using w3(4) by (simp add: set_pte_def)
  note r = r [OF PTE_ADDR_idem this]
  have "init_stack me child argv w = Some (Inr (slot CHILD_STACK (arg_slot argv - 2)), ?w4)"
    by (simp add: init_stack_unfold [OF assms(5)] w1(1) w2 w3(1) w4)
  moreover have "\<not> is_mapped me UTEMP ?w4" by (simp add: is_mapped_def set_pte_def pte_valid_def)
  ultimately show ?thesis using r by blast
qed

text \<open>A parent and a child with empty address spaces.\<close>

definition two_spaces :: uworld where
  "two_spaces = \<lparr>phys = (\<lambda>_. 0), updir = (\<lambda>_ _. 0), uptab = (\<lambda>_ _. 0), procs = {1, 2}, palloc = (\<lambda>n. Some (word_of_nat n * 4096)), requests = 3\<rparr>"

theorem init_stack_layout_witness:
  "\<exists>sp w'. init_stack 1 2 [[108, 115], [47]] two_spaces = Some (Inr sp, w') \<and> get32 2 sp w' = Some 2"
proof -
  have "args_fit [[108, 115], [47]]" by (simp add: args_fit_def blob_def)
  from init_stack_layout [OF _ _ _ _ this, of 1 two_spaces 2] show ?thesis by (auto simp: two_spaces_def)
qed

section \<open>Shared pages\<close>

definition library_page :: "u32 \<Rightarrow> nat \<Rightarrow> uworld \<Rightarrow> bool" where
  "library_page e pn w \<longleftrightarrow> pte_valid (updir w e (pn div 1024)) \<and> pte_valid (uptab w e pn) \<and> uptab w e pn AND PTE_LIBRARY \<noteq> 0"

text \<open>The pages in \<open>S\<close> that the parent has as library pages are those of the parent in the child, and nothing else has changed.\<close>

definition shared :: "u32 \<Rightarrow> u32 \<Rightarrow> nat set \<Rightarrow> uworld \<Rightarrow> uworld \<Rightarrow> bool" where
  "shared me child S w w' \<longleftrightarrow>
     uptab w' = (uptab w)(child := (\<lambda>pn. if pn \<in> S \<and> library_page me pn w then uptab w me pn else uptab w child pn))
     \<and> phys w' = phys w \<and> procs w' = procs w \<and> palloc w' = palloc w \<and> updir w' me = updir w me
     \<and> (\<forall>i. pte_valid (updir w child i) \<longrightarrow> pte_valid (updir w' child i))
     \<and> (\<forall>pn\<in>S. library_page me pn w \<longrightarrow> pte_valid (updir w' child (pn div 1024)))"

lemma shared_empty: "shared me child {} w w"
  by (auto simp: shared_def)

lemma shared_skip: "\<forall>pn\<in>S. \<not> library_page me pn w \<Longrightarrow> shared me child S w w"
  by (auto simp: shared_def fun_eq_iff)

lemma shared_library_page: "shared me child S w w' \<Longrightarrow> me \<noteq> child \<Longrightarrow> library_page me pn w' = library_page me pn w"
  by (simp add: shared_def library_page_def)

lemma shared_trans:
  assumes "shared me child S w u" and "shared me child T u w'" and "me \<noteq> child"
  shows "shared me child (S \<union> T) w w'"
proof -
  note l = shared_library_page [OF assms(1,3)]
  have "uptab w' child = (\<lambda>pn. if pn \<in> S \<union> T \<and> library_page me pn w then uptab w me pn else uptab w child pn)"
    using assms by (auto simp: shared_def l fun_eq_iff)
  then show ?thesis using assms l by (auto simp: shared_def)
qed

lemma u_mem_map_dirs: "u_mem_map e va e' va' perm w = (r, w') \<Longrightarrow> x \<noteq> e' \<Longrightarrow> updir w' x = updir w x"
  by (auto simp: u_mem_map_def need_table_def set_pte_def split: if_splits option.splits)

lemma share_page_ok:
  assumes p: "me \<in> procs w" "child \<in> procs w" "me \<noteq> child" "\<forall>n. palloc w n \<noteq> None" and d: "pte_valid (updir w me (pn div 1024))"
    and r: "library_page me pn w \<longrightarrow> VPN UTEMP \<le> pn \<and> pn < VPN USTACKTOP"
  shows "\<exists>w'. share_page me child pn w = (Inr (), w') \<and> shared me child {pn} w w'"
proof (cases "library_page me pn w")
  case True
  let ?perm = "uptab w me pn AND 0xFFF"
  have v: "pte_valid (uptab w me pn)" "uptab w me pn AND PTE_LIBRARY \<noteq> 0" using True by (simp_all add: library_page_def)
  have "?perm AND PTE_V \<noteq> 0" using v(1) by (simp add: pte_valid_def and.assoc PTE_V_def)
  then have s: "share_page me child pn w = u_mem_map me (page_va pn) child (page_va pn) ?perm w"
    using v(2) by (simp add: share_page_def page_va_def Let_def)
  have b: "pn < VPN USTACKTOP" "VPN UTEMP \<le> pn" using r True by simp_all
  obtain w' where w': "u_mem_map me (page_va pn) child (page_va pn) ?perm w = (Inr (), w')"
    "uptab w' = (uptab w)(child := (uptab w child)(pn := PTE_ADDR (uptab w me pn) OR ?perm OR PTE_V))"
    "pte_valid (updir w' child (pn div 1024))" "phys w' = phys w" "procs w' = procs w" "palloc w' = palloc w"
    "\<And>x k. pte_valid (updir w x k) \<Longrightarrow> pte_valid (updir w' x k)"
    by (rule map_page [OF b p(1,2,4) v(1) d, of ?perm]) blast
  have "updir w' me = updir w me" using u_mem_map_dirs [OF w'(1) p(3)] .
  moreover have "uptab w' = (uptab w)(child := (\<lambda>x. if x \<in> {pn} \<and> library_page me x w then uptab w me x else uptab w child x))"
    using w'(2) True pte_split [OF v(1)] by (auto simp: fun_eq_iff)
  ultimately have "shared me child {pn} w w'" using w'(3-7) by (simp add: shared_def)
  then show ?thesis using s w'(1) by simp
next
  case False
  then have "share_page me child pn w = (Inr (), w)"
    using d by (auto simp: share_page_def library_page_def pte_valid_def and.assoc PTE_V_def PTE_LIBRARY_def Let_def)
  moreover have "shared me child {pn} w w" using False by (intro shared_skip) simp
  ultimately show ?thesis by blast
qed

lemma share_pages_ok:
  assumes "me \<in> procs w" "child \<in> procs w" "me \<noteq> child" "\<forall>n. palloc w n \<noteq> None" "\<forall>pn\<in>set pns. pte_valid (updir w me (pn div 1024))"
    and "\<forall>pn. library_page me pn w \<longrightarrow> VPN UTEMP \<le> pn \<and> pn < VPN USTACKTOP"
  shows "\<exists>w'. share_pages me child pns w = (Inr (), w') \<and> shared me child (set pns) w w'"
  using assms
proof (induction pns arbitrary: w)
  case Nil
  then show ?case by (simp add: shared_empty)
next
  case (Cons pn pns)
  obtain u where u: "share_page me child pn w = (Inr (), u)" "shared me child {pn} w u"
    using share_page_ok [of me w child pn] Cons.prems by auto
  have "\<exists>w'. share_pages me child pns u = (Inr (), w') \<and> shared me child (set pns) u w'"
  proof (rule Cons.IH)
    show "me \<in> procs u" "child \<in> procs u" "me \<noteq> child" "\<forall>n. palloc u n \<noteq> None" "\<forall>pn\<in>set pns. pte_valid (updir u me (pn div 1024))"
      using u(2) Cons.prems by (simp_all add: shared_def)
    show "\<forall>pn. library_page me pn u \<longrightarrow> VPN UTEMP \<le> pn \<and> pn < VPN USTACKTOP"
      using shared_library_page [OF u(2) Cons.prems(3)] Cons.prems(6) by simp
  qed
  then obtain w' where w': "share_pages me child pns u = (Inr (), w')" "shared me child (set pns) u w'" by blast
  have "shared me child ({pn} \<union> set pns) w w'" by (rule shared_trans [OF u(2) w'(2) Cons.prems(3)])
  then show ?case using u(1) w'(1) by simp
qed

lemma table_pages: "pn \<in> set (map (\<lambda>pteno. d * 1024 + pteno) [0..<1024]) \<longleftrightarrow> pn div 1024 = d"
proof
  assume "pn div 1024 = d"
  then have "pn = d * 1024 + pn mod 1024" by (metis div_mult_mod_eq)
  then show "pn \<in> set (map (\<lambda>pteno. d * 1024 + pteno) [0..<1024])" by (metis (no_types, lifting) atLeast0LessThan atLeast_upt image_eqI lessThan_iff list.set_map mod_less_divisor zero_less_numeral)
qed auto

lemma share_tables_ok:
  assumes "me \<in> procs w" "child \<in> procs w" "me \<noteq> child" "\<forall>n. palloc w n \<noteq> None"
    and "\<forall>pn. library_page me pn w \<longrightarrow> VPN UTEMP \<le> pn \<and> pn < VPN USTACKTOP"
  shows "\<exists>w'. share_tables me child ds w = (Inr (), w') \<and> shared me child {pn. pn div 1024 \<in> set ds} w w'"
  using assms
proof (induction ds arbitrary: w)
  case Nil
  then show ?case by (simp add: shared_empty)
next
  case (Cons d ds)
  let ?pns = "map (\<lambda>pteno. d * 1024 + pteno) [0..<1024]"
  have "\<exists>u. (if updir w me d AND PTE_V = 0 then (Inr (), w) else share_pages me child ?pns w) = (Inr (), u) \<and> shared me child {pn. pn div 1024 = d} w u"
  proof (cases "pte_valid (updir w me d)")
    case True
    have "set ?pns = {pn. pn div 1024 = d}" using table_pages by blast
    moreover from this have "\<forall>pn\<in>set ?pns. pte_valid (updir w me (pn div 1024))" using True by auto
    ultimately show ?thesis using share_pages_ok [OF Cons.prems(1-4), of ?pns] Cons.prems(5) True by (simp add: pte_valid_def)
  next
    case False
    then have "shared me child {pn. pn div 1024 = d} w w" by (intro shared_skip) (auto simp: library_page_def)
    then show ?thesis using False by (auto simp: pte_valid_def)
  qed
  then obtain u where u: "(if updir w me d AND PTE_V = 0 then (Inr (), w) else share_pages me child ?pns w) = (Inr (), u)"
    "shared me child {pn. pn div 1024 = d} w u" by blast
  have "\<exists>w'. share_tables me child ds u = (Inr (), w') \<and> shared me child {pn. pn div 1024 \<in> set ds} u w'"
  proof (rule Cons.IH)
    show "me \<in> procs u" "child \<in> procs u" "me \<noteq> child" "\<forall>n. palloc u n \<noteq> None" using u(2) Cons.prems by (simp_all add: shared_def)
    show "\<forall>pn. library_page me pn u \<longrightarrow> VPN UTEMP \<le> pn \<and> pn < VPN USTACKTOP"
      using shared_library_page [OF u(2) Cons.prems(3)] Cons.prems(5) by simp
  qed
  then obtain w' where w': "share_tables me child ds u = (Inr (), w')" "shared me child {pn. pn div 1024 \<in> set ds} u w'" by blast
  have "{pn. pn div 1024 = d} \<union> {pn. pn div 1024 \<in> set ds} = {pn. pn div 1024 \<in> set (d # ds)}" by auto
  then have "shared me child {pn. pn div 1024 \<in> set (d # ds)} w w'" using shared_trans [OF u(2) w'(2) Cons.prems(3)] by simp
  then show ?case using u(1) w'(1) by (auto split: if_splits)
qed

text \<open>
  C18 (spawn_shares_library). When memory can be had and the library pages of the parent lie in user space, the sharing loops of \<open>spawn\<close> succeed,
  and the child has every library page of the parent at the same address, in the same frame and with the same permissions; every
  other page of the child, the parent and the contents of memory are unchanged.
\<close>

theorem spawn_shares_library:
  assumes "me \<in> procs w" and "child \<in> procs w" and "me \<noteq> child" and "\<forall>n. palloc w n \<noteq> None"
    and "\<forall>pn. library_page me pn w \<longrightarrow> VPN UTEMP \<le> pn \<and> pn < VPN USTACKTOP"
  shows "\<exists>w'. share_library me child w = (Inr (), w') \<and> phys w' = phys w
    \<and> (\<forall>e pn. uptab w' e pn = (if e = child \<and> library_page me pn w then uptab w me pn else uptab w e pn))
    \<and> (\<forall>pn. library_page me pn w \<longrightarrow> library_page child pn w')"
proof -
  obtain w' where w': "share_library me child w = (Inr (), w')" "shared me child {pn. pn div 1024 \<in> set [0..<Suc (PDX USTACKTOP)]} w w'"
    using share_tables_ok [OF assms, of "[0..<Suc (PDX USTACKTOP)]"] unfolding share_library_def by blast
  have in_range: "pn div 1024 \<in> set [0..<Suc (PDX USTACKTOP)]" if "library_page me pn w" for pn
  proof -
    have "pn < VPN USTACKTOP" using assms(5) that by blast
    then have "pn div 1024 \<le> PDX USTACKTOP" unfolding VPN_PDX by (simp add: div_le_mono)
    then show ?thesis unfolding set_upt by (metis atLeastLessThan_iff le0 less_Suc_eq_le)
  qed
  have tab: "uptab w' e pn = (if e = child \<and> library_page me pn w then uptab w me pn else uptab w e pn)" for e pn
    using w'(2) in_range [of pn] by (auto simp: shared_def)
  moreover have "library_page child pn w'" if "library_page me pn w" for pn
  proof -
    have "pte_valid (updir w' child (pn div 1024))" using w'(2) in_range [OF that] that by (auto simp: shared_def)
    then show ?thesis using tab [of child pn] that by (simp add: library_page_def)
  qed
  moreover have "phys w' = phys w" using w'(2) by (simp add: shared_def)
  ultimately show ?thesis using w'(1) by blast
qed

text \<open>A parent with one library page, at \<open>0x5FC00000\<close>.\<close>

definition library_space :: uworld where
  "library_space = two_spaces\<lparr>updir := (\<lambda>e i. if e = 1 then PTE_V else 0),
     uptab := (\<lambda>e pn. if e = 1 \<and> pn = 0x5FC00 then 0x5000 OR PTE_V OR PTE_D OR PTE_LIBRARY else 0)\<rparr>"

theorem spawn_shares_library_witness:
  "\<exists>w'. share_library 1 2 library_space = (Inr (), w') \<and> uptab w' 2 0x5FC00 = 0x5000 OR PTE_V OR PTE_D OR PTE_LIBRARY"
proof -
  have "library_page 1 pn library_space \<longleftrightarrow> pn = 0x5FC00" for pn
    by (auto simp: library_page_def library_space_def pte_valid_def PTE_V_def PTE_D_def PTE_LIBRARY_def)
  moreover have "VPN UTEMP \<le> 0x5FC00 \<and> 0x5FC00 < VPN USTACKTOP" by (simp add: VPN_div mmu_defs)
  ultimately show ?thesis using spawn_shares_library [of 1 library_space 2] by (auto simp: library_space_def two_spaces_def)
qed

end
