(* ===== verification/Spawn_Load.thy ===== *)
theory Spawn_Load
  imports Spawn_Props
begin

text \<open>
  What the pages of a child hold after \<open>spawn\<close> has loaded a segment: the loader of \<open>Elf\<close> with \<open>spawn_mapper\<close> as its callback. The kernel
  is assumed to hand out frames that are not in use; \<open>U\<close> is the set of the frames in use that matter here, and the
  frames are different up to request \<open>L\<close>, three requests for each page of the segment.
\<close>

section \<open>Frames that are handed out\<close>

definition nth_frame :: "nat \<Rightarrow> uworld \<Rightarrow> u32" where
  "nth_frame n w = PTE_ADDR (the (palloc w n))"

definition fresh_supply :: "nat \<Rightarrow> u32 set \<Rightarrow> uworld \<Rightarrow> bool" where
  "fresh_supply L U w \<longleftrightarrow> (\<forall>n. palloc w n \<noteq> None)
     \<and> (\<forall>n\<in>{requests w..<L}. nth_frame n w \<notin> U \<and> (\<forall>m\<in>{requests w..<L}. m \<noteq> n \<longrightarrow> nth_frame m w \<noteq> nth_frame n w))"

lemma fresh_taken:
  assumes "fresh_supply L U w" "requests w < L" "palloc w' = palloc w" "requests w < requests w'"
  shows "fresh_supply L (insert (nth_frame (requests w) w) U) w'"
proof -
  have "nth_frame n w \<noteq> nth_frame (requests w) w" if "n > requests w" "n < L" for n
    using assms(1,2) that by (auto simp: fresh_supply_def)
  then show ?thesis using assms by (auto simp: fresh_supply_def nth_frame_def)
qed

lemma need_table_requests: "need_table e va w = (r, w') \<Longrightarrow> requests w \<le> requests w' \<and> requests w' \<le> requests w + 1"
  by (auto simp: need_table_def split: if_splits option.splits)

lemma alloc_requests: "u_mem_alloc e va perm w = (Inr (), w') \<Longrightarrow> requests w < requests w' \<and> requests w' \<le> requests w + 2"
  by (auto simp: u_mem_alloc_def set_pte_def split: if_splits option.splits prod.splits sum.splits dest!: need_table_requests)

lemma map_requests: "u_mem_map e va e' va' perm w = (Inr (), w') \<Longrightarrow> requests w \<le> requests w' \<and> requests w' \<le> requests w + 1"
  by (auto simp: u_mem_map_def set_pte_def split: if_splits prod.splits sum.splits dest!: need_table_requests)

section \<open>One page\<close>

text \<open>The bytes of a source in the memory of the running environment.\<close>

definition source_ok :: "u32 \<Rightarrow> u32 \<Rightarrow> nat \<Rightarrow> u32 set \<Rightarrow> uworld \<Rightarrow> bool" where
  "source_ok me p n U w \<longleftrightarrow>
     (\<forall>i<n. is_mapped me (p + word_of_nat i) w \<and> VPN (p + word_of_nat i) \<noteq> VPN UTEMP \<and> PTE_ADDR (pa_of me (p + word_of_nat i) w) \<in> U)"

lemma temp_writable:
  assumes "wpage me UTEMP fr w" and "PTE_ADDR fr = fr" and "n \<le> 4096"
  shows "writable me UTEMP n w" and "PTE_ADDR ` pas me UTEMP n w \<subseteq> {fr}"
    and "i < n \<Longrightarrow> pa_of me (UTEMP + word_of_nat i) w = fr + word_of_nat i"
proof -
  have p: "pa_of me (UTEMP + word_of_nat i) w = fr + word_of_nat i" "PTE_ADDR (UTEMP + word_of_nat i) = UTEMP" if "i < n" for i
  proof -
    show "PTE_ADDR (UTEMP + word_of_nat i) = UTEMP" using that assms(3) by (intro in_page) simp_all
    then show "pa_of me (UTEMP + word_of_nat i) w = fr + word_of_nat i" using pa_shift [OF assms(1)] by (simp add: add.commute)
  qed
  have "inj_on (\<lambda>i. pa_of me (UTEMP + word_of_nat i) w) {..<n}"
  proof (rule inj_onI)
    fix i j
    assume a: "i \<in> {..<n}" "j \<in> {..<n}" "pa_of me (UTEMP + word_of_nat i) w = pa_of me (UTEMP + word_of_nat j) w"
    then have "fr + word_of_nat i = fr + word_of_nat j" using p by simp
    then show "i = j" using offsets_differ [OF assms(2), of i j] a(1,2) assms(3) by auto
  qed
  then show "writable me UTEMP n w" using assms(1) p(2) by (auto simp: writable_def readable_def wpage_def)
  show "PTE_ADDR ` pas me UTEMP n w \<subseteq> {fr}" using p(1) in_page [OF assms(2)] assms(3) by (auto simp: pas_def)
  show "i < n \<Longrightarrow> pa_of me (UTEMP + word_of_nat i) w = fr + word_of_nat i" by (rule p(1))
qed

lemma memcpy_temp:
  assumes "wpage me UTEMP fr w" "PTE_ADDR fr = fr" "fr \<notin> U" "source_ok me p n U w" "n \<le> 4096"
  obtains m where "u_memcpy me UTEMP p (word_of_nat n) w = Some (w\<lparr>phys := m\<rparr>)"
    and "\<And>i. i < n \<Longrightarrow> m (fr + word_of_nat i) = phys w (pa_of me (p + word_of_nat i) w)"
    and "\<And>a. a \<notin> (\<lambda>i. fr + word_of_nat i) ` {..<n} \<Longrightarrow> m a = phys w a"
proof -
  note t = temp_writable [OF assms(1,2,5)]
  have r: "readable me p n w" using assms(4) by (simp add: readable_def source_ok_def)
  have "PTE_ADDR ` pas me p n w \<subseteq> U" using assms(4) by (auto simp: pas_def source_ok_def)
  then have "pas me p n w \<inter> pas me UTEMP n w = {}" using t(2) assms(3) by blast
  from copy_up_ok [OF r t(1) this] obtain m where m: "copy_up me UTEMP p n w = Some (w\<lparr>phys := m\<rparr>)"
    "\<forall>i<n. m (pa_of me (UTEMP + word_of_nat i) w) = phys w (pa_of me (p + word_of_nat i) w)"
    "\<forall>a. a \<notin> pas me UTEMP n w \<longrightarrow> m a = phys w a" by blast
  have "pas me UTEMP n w = (\<lambda>i. fr + word_of_nat i) ` {..<n}" using t(3) by (auto simp: pas_def image_iff)
  moreover have "u_memcpy me UTEMP p (word_of_nat n) w = Some (w\<lparr>phys := m\<rparr>)"
  proof (cases "n = 0")
    case False
    then have "UTEMP < UTEMP + word_of_nat n" using assms(5) by (simp add: stack_bases word_less_nat_alt unat_word_ariths unat_of_nat)
    then show ?thesis using m(1) assms(5) by (simp add: u_memcpy_def unat_of_nat)
  next
    case True
    then have "phys w = m" using m(1) by (metis copy_up.simps(1) option.inject uworld.select_convs(1) uworld.surjective uworld.update_convs(1))
    then show ?thesis using True by (simp add: u_memcpy_def)
  qed
  ultimately show thesis using m(2,3) t(3) by (intro that [of m]) auto
qed

lemma wpage_entry:
  assumes "pte_valid (updir w e (PDX v))" and "pte_valid (uptab w e (VPN v))" and "uptab w e (VPN v) AND PTE_D \<noteq> 0" and "PTE_ADDR v = v"
  shows "wpage e v (PTE_ADDR (uptab w e (VPN v))) w"
  unfolding wpage_def
proof (intro allI impI)
  fix a
  assume "PTE_ADDR a = v"
  then have v: "VPN a = VPN v" using assms(4) by (metis PPN_PTE_ADDR VPN_div PPN_div)
  then have "PDX a = PDX v" by (metis VPN_eq_iff)
  then show "is_mapped e a w \<and> uptab w e (VPN a) AND PTE_D \<noteq> 0 \<and> PTE_ADDR (uptab w e (VPN a)) = PTE_ADDR (uptab w e (VPN v))"
    using assms v by (simp add: is_mapped_def)
qed

lemma valid_entry: "pte_valid (x OR y OR PTE_V)"
  by (simp add: pte_valid_or_iff) (simp add: pte_valid_def PTE_V_def)

text \<open>The state after \<open>spawn_mapper\<close> has put frame \<open>fr\<close> with the contents \<open>c\<close> at \<open>va\<close>.\<close>

definition page_loaded :: "u32 \<Rightarrow> u32 \<Rightarrow> u32 \<Rightarrow> u32 \<Rightarrow> u32 \<Rightarrow> (nat \<Rightarrow> u8) \<Rightarrow> uworld \<Rightarrow> uworld \<Rightarrow> bool" where
  "page_loaded me child va perm fr c w w' \<longleftrightarrow>
     uptab w' child = (uptab w child)(VPN va := fr OR perm OR PTE_V) \<and> (\<forall>v. v \<noteq> VPN UTEMP \<longrightarrow> uptab w' me v = uptab w me v)
     \<and> pte_valid (updir w' child (PDX va)) \<and> (\<forall>e i. pte_valid (updir w e i) \<longrightarrow> pte_valid (updir w' e i))
     \<and> (\<forall>a. PTE_ADDR a \<noteq> fr \<longrightarrow> phys w' a = phys w a) \<and> (\<forall>i<4096. phys w' (fr + word_of_nat i) = c i)
     \<and> procs w' = procs w \<and> palloc w' = palloc w \<and> requests w < requests w' \<and> requests w' \<le> requests w + 3"

lemma mapper_zero:
  assumes "child \<in> procs w" "me \<noteq> child" "\<forall>n. palloc w n \<noteq> None" "\<not> illegal_va va" and fr: "fr = nth_frame (requests w) w"
  obtains w' where "u_mem_alloc child va perm w = (Inr (), w')" and "page_loaded me child va perm fr (\<lambda>_. 0) w w'" and "uptab w' me = uptab w me"
    and "requests w' \<le> requests w + 2"
proof -
  obtain f where f: "palloc w (requests w) = Some f" "\<forall>n. palloc w n \<noteq> None" using assms(3) by blast
  then have fr: "fr = PTE_ADDR f" using fr by (simp add: nth_frame_def)
  obtain w' where w': "u_mem_alloc child va perm w = (Inr (), w')"
    "uptab w' = (uptab w)(child := (uptab w child)(VPN va := PTE_ADDR f OR perm OR PTE_V))"
    "pte_valid (updir w' child (PDX va))" "phys w' = (\<lambda>a. if PTE_ADDR a = PTE_ADDR f then 0 else phys w a)"
    "procs w' = procs w" "palloc w' = palloc w" "\<And>x i. pte_valid (updir w x i) \<Longrightarrow> pte_valid (updir w' x i)"
    by (rule u_mem_alloc_ok [OF assms(4,1) f, of perm]) blast
  have "PTE_ADDR (fr + word_of_nat i) = fr" if "i < 4096" for i using that by (intro in_page) (simp_all add: fr)
  then have "page_loaded me child va perm fr (\<lambda>_. 0) w w'"
    using w' assms(2) alloc_requests [OF w'(1)] by (simp add: page_loaded_def fr)
  then show thesis using w' assms(2) alloc_requests [OF w'(1)] by (intro that [of w']) simp_all
qed

lemma mapper_copy:
  assumes p: "me \<in> procs w" "child \<in> procs w" "me \<noteq> child" and fresh: "fresh_supply L U w" "requests w < L" and va: "\<not> illegal_va va" "PTE_ADDR va = va"
    and perm: "PTE_ADDR perm = 0" and fr: "fr = nth_frame (requests w) w" and src: "source_ok me p n U w" "n \<le> 4096"
  obtains w' where "spawn_mapper me child va 0 perm (Some p) (word_of_nat n) w = Some (Inr (), w')"
    and "page_loaded me child va perm fr (\<lambda>i. if i < n then phys w (pa_of me (p + word_of_nat i) w) else 0) w w'"
proof -
  have afr: "PTE_ADDR fr = fr" "fr \<notin> U" using fr fresh by (simp_all add: nth_frame_def fresh_supply_def)
  obtain w1 where w1: "u_mem_alloc child va perm w = (Inr (), w1)" "page_loaded me child va perm fr (\<lambda>_. 0) w w1" "uptab w1 me = uptab w me"
    "requests w1 \<le> requests w + 2"
    using mapper_zero [OF p(2,3) _ va(1) fr, of perm] fresh(1) by (metis fresh_supply_def)
  note l = w1(2) [unfolded page_loaded_def]
  have pre: "\<not> illegal_va UTEMP" "child \<in> procs w1" "me \<in> procs w1" "is_mapped child va w1" "\<forall>n. palloc w1 n \<noteq> None"
    using l p fresh by (simp_all add: is_mapped_def fresh_supply_def valid_entry) (simp add: illegal_va_def stack_bases mmu_defs)
  obtain w2 where w2: "u_mem_map child va me UTEMP (perm OR PTE_D) w1 = (Inr (), w2)"
    "uptab w2 = (uptab w1)(me := (uptab w1 me)(VPN UTEMP := PTE_ADDR (uptab w1 child (VPN va)) OR (perm OR PTE_D) OR PTE_V))"
    "pte_valid (updir w2 me (PDX UTEMP))" "phys w2 = phys w1" "procs w2 = procs w1" "palloc w2 = palloc w1"
    "\<And>x i. pte_valid (updir w1 x i) \<Longrightarrow> pte_valid (updir w2 x i)"
    by (rule u_mem_map_ok [OF va(1) pre(1,2,3,4,5), of "perm OR PTE_D"]) blast
  have "PTE_ADDR (uptab w1 child (VPN va)) = fr" using l perm afr(1) by (simp add: PTE_ADDR_or)
  then have e: "uptab w2 me (VPN UTEMP) = fr OR (perm OR PTE_D) OR PTE_V" using w2(2) by simp
  moreover have "(fr OR (perm OR PTE_D) OR PTE_V) AND PTE_D \<noteq> 0" by (simp add: bit.conj_disj_distrib2 PTE_D_def)
  moreover have "pte_valid (uptab w2 me (VPN UTEMP))" unfolding e by (simp add: or.assoc [symmetric])
  moreover have "PTE_ADDR (uptab w2 me (VPN UTEMP)) = fr" unfolding e using perm afr(1) by (simp add: PTE_ADDR_or)
  ultimately have page: "wpage me UTEMP fr w2" using wpage_entry [of w2 me UTEMP] w2(3) by simp
  have same: "pa_of me (p + word_of_nat i) w2 = pa_of me (p + word_of_nat i) w" "is_mapped me (p + word_of_nat i) w \<Longrightarrow> is_mapped me (p + word_of_nat i) w2"
      if "i < n" for i
    using that src w1(3) w2(2,7) l by (auto simp: source_ok_def pa_of_def is_mapped_def)
  have "source_ok me p n U w2" using src same by (auto simp: source_ok_def)
  from memcpy_temp [OF page afr this src(2)] obtain m where m: "u_memcpy me UTEMP p (word_of_nat n) w2 = Some (w2\<lparr>phys := m\<rparr>)"
    "\<And>i. i < n \<Longrightarrow> m (fr + word_of_nat i) = phys w2 (pa_of me (p + word_of_nat i) w2)"
    "\<And>a. a \<notin> (\<lambda>i. fr + word_of_nat i) ` {..<n} \<Longrightarrow> m a = phys w2 a" by blast
  let ?w = "set_pte me UTEMP 0 (w2\<lparr>phys := m\<rparr>)"
  have "u_mem_unmap me UTEMP (w2\<lparr>phys := m\<rparr>) = (Inr (), ?w)"
    using pre(1,3) w2(5) page by (simp add: u_mem_unmap_def wpage_def)
  then have run: "spawn_mapper me child va 0 perm (Some p) (word_of_nat n) w = Some (Inr (), ?w)"
    by (simp add: spawn_mapper_def w1(1) w2(1) m(1))
  have inp: "PTE_ADDR (fr + word_of_nat i) = fr" if "i < 4096" for i using in_page [OF afr(1) that] .
  have "m (fr + word_of_nat i) = (if i < n then phys w (pa_of me (p + word_of_nat i) w) else 0)" if i: "i < 4096" for i
  proof (cases "i < n")
    case True
    then have "PTE_ADDR (pa_of me (p + word_of_nat i) w) \<noteq> fr" using src(1) afr(2) by (auto simp: source_ok_def)
    then show ?thesis using True m(2) same(1) w2(4) l by simp
  next
    case False
    then have "fr + word_of_nat i \<notin> (\<lambda>i. fr + word_of_nat i) ` {..<n}" using offsets_differ [OF afr(1)] i src(2) by fastforce
    then show ?thesis using False m(3) w2(4) l i by simp
  qed
  moreover have "m a = phys w a" if "PTE_ADDR a \<noteq> fr" for a
  proof -
    have "a \<notin> (\<lambda>i. fr + word_of_nat i) ` {..<n}" using that inp src(2) by auto
    then show ?thesis using m(3) w2(4) l that by simp
  qed
  ultimately have "page_loaded me child va perm fr (\<lambda>i. if i < n then phys w (pa_of me (p + word_of_nat i) w) else 0) w ?w"
    using l w1(3,4) w2(2,5-7) p(3) map_requests [OF w2(1)] by (simp add: page_loaded_def set_pte_def)
  then show thesis using run by (rule that [rotated])
qed

section \<open>The pages of a segment\<close>

lemma pa_frame: "pa_of e a w = PTE_ADDR (uptab w e (VPN a)) + (a - PTE_ADDR a)"
proof -
  have "a AND 0xFFF = a - PTE_ADDR a" using offset_plus(1) [of a] by (metis add_diff_cancel_left')
  then show ?thesis using offset_plus(2) [of "uptab w e (VPN a)" a] by (simp add: pa_of_def)
qed

lemma segment_addr:
  assumes "unat va mod 4096 = 0" and "unat va + x < 4294967296"
  shows "unat (va + word_of_nat x) = unat va + x" and "VPN (va + word_of_nat x) = VPN va + x div 4096"
    and "va + word_of_nat x - PTE_ADDR (va + word_of_nat x) = word_of_nat (x mod 4096)"
proof -
  show u: "unat (va + word_of_nat x) = unat va + x" using assms(2) by (simp add: unat_word_ariths unat_of_nat)
  have "unat va = 4096 * (unat va div 4096)" using assms(1) by (simp add: minus_mod_eq_mult_div [symmetric])
  then obtain q where q: "unat va = 4096 * q" by blast
  show "VPN (va + word_of_nat x) = VPN va + x div 4096" unfolding VPN_div u q by simp
  have "4096 * (x div 4096) = x - x mod 4096" "x mod 4096 \<le> x" by (simp_all add: minus_mod_eq_mult_div)
  moreover have "(4096 * q + x) div 4096 * 4096 = 4096 * q + 4096 * (x div 4096)" by simp
  ultimately have "unat (PTE_ADDR (va + word_of_nat x)) = unat va + x - x mod 4096" unfolding unat_PTE_ADDR u q by linarith
  then have "va + word_of_nat x = PTE_ADDR (va + word_of_nat x) + word_of_nat (x mod 4096)"
    unfolding word_unat_eq_iff using u assms(2) by (simp add: unat_word_ariths unat_of_nat)
  then show "va + word_of_nat x - PTE_ADDR (va + word_of_nat x) = word_of_nat (x mod 4096)" by (metis add_diff_cancel_left')
qed

text \<open>After the first \<open>k\<close> pages, which hold the bytes \<open>c\<close>; \<open>U\<close> are the frames of the source and of these pages.\<close>

definition seg_inv :: "nat \<Rightarrow> u32 \<Rightarrow> u32 \<Rightarrow> u32 \<Rightarrow> (nat \<Rightarrow> u8) \<Rightarrow> nat \<Rightarrow> u32 set \<Rightarrow> u32 set \<Rightarrow> uworld \<Rightarrow> uworld \<Rightarrow> bool" where
  "seg_inv L me child va c k U\<^sub>0 U w\<^sub>0 w \<longleftrightarrow>
     (\<forall>x<4096 * k. view child (va + word_of_nat x) w = Some (c x) \<and> PTE_ADDR (uptab w child (VPN va + x div 4096)) \<in> U)
     \<and> fresh_supply L U w \<and> requests w \<le> requests w\<^sub>0 + 3 * k \<and> U\<^sub>0 \<subseteq> U \<and> (\<forall>a. PTE_ADDR a \<in> U\<^sub>0 \<longrightarrow> phys w a = phys w\<^sub>0 a)
     \<and> (\<forall>v. v \<noteq> VPN UTEMP \<longrightarrow> uptab w me v = uptab w\<^sub>0 me v) \<and> (\<forall>i. pte_valid (updir w\<^sub>0 me i) \<longrightarrow> pte_valid (updir w me i))
     \<and> procs w = procs w\<^sub>0"

lemma seg_inv_step:
  assumes inv: "seg_inv L me child va c k U\<^sub>0 U w\<^sub>0 w" and ld: "page_loaded me child (va + word_of_nat (4096 * k)) perm fr (\<lambda>i. c (4096 * k + i)) w w'"
    and fr: "fr = nth_frame (requests w) w" and perm: "PTE_ADDR perm = 0" and va: "unat va mod 4096 = 0" "unat va + 4096 * Suc k \<le> 4294967296"
    and lim: "requests w\<^sub>0 + 3 * Suc k \<le> L"
  shows "seg_inv L me child va c (Suc k) U\<^sub>0 (insert fr U) w\<^sub>0 w'"
proof -
  note l = ld [unfolded page_loaded_def]
  have rq: "requests w < L" using inv lim by (simp add: seg_inv_def)
  have afr: "PTE_ADDR fr = fr" "fr \<notin> U" using fr inv rq by (simp_all add: nth_frame_def seg_inv_def fresh_supply_def)
  have vk: "VPN (va + word_of_nat (4096 * k)) = VPN va + k" using segment_addr(2) [OF va(1), of "4096 * k"] va(2) by simp
  have page: "view child (va + word_of_nat x) w' = Some (c x) \<and> PTE_ADDR (uptab w' child (VPN va + x div 4096)) \<in> insert fr U" if x: "x < 4096 * Suc k" for x
  proof -
    have "unat va + x < 4294967296" using va(2) x by simp
    note s = segment_addr [OF va(1) this]
    show ?thesis
    proof (cases "x < 4096 * k")
      case True
      then have "x div 4096 < k" by (simp add: less_mult_imp_div_less mult.commute)
      then have e: "uptab w' child (VPN va + x div 4096) = uptab w child (VPN va + x div 4096)" using l vk by simp
      have i: "view child (va + word_of_nat x) w = Some (c x)" "PTE_ADDR (uptab w child (VPN va + x div 4096)) \<in> U"
        using inv True by (auto simp: seg_inv_def)
      have "PTE_ADDR (pa_of child (va + word_of_nat x) w) = PTE_ADDR (uptab w child (VPN va + x div 4096))" by (simp add: pa_of_def s(2))
      then have "phys w' (pa_of child (va + word_of_nat x) w) = phys w (pa_of child (va + word_of_nat x) w)" using i(2) afr(2) l by metis
      moreover have "pa_of child (va + word_of_nat x) w' = pa_of child (va + word_of_nat x) w" by (simp add: pa_of_def s(2) e)
      moreover have "is_mapped child (va + word_of_nat x) w'" using i(1) l e s(2) by (auto simp: view_def is_mapped_def split: if_splits)
      ultimately show ?thesis using i e by (auto simp: view_def split: if_splits)
    next
      case False
      then have d1: "x div 4096 = k" using x by (auto intro: div_nat_eqI)
      then have d: "x div 4096 = k" "4096 * k + x mod 4096 = x" using mult_div_mod_eq [of 4096 x] by simp_all
      then have v: "VPN (va + word_of_nat x) = VPN (va + word_of_nat (4096 * k))" using s(2) vk by simp
      then have "PDX (va + word_of_nat x) = PDX (va + word_of_nat (4096 * k))" by (metis VPN_eq_iff)
      then have "is_mapped child (va + word_of_nat x) w'" using l v by (simp add: is_mapped_def valid_entry)
      moreover have f: "PTE_ADDR (uptab w' child (VPN (va + word_of_nat x))) = fr" using l v perm afr(1) by (simp add: PTE_ADDR_or)
      moreover have "phys w' (fr + word_of_nat (x mod 4096)) = c x" 
      proof -
        have "phys w' (fr + word_of_nat (x mod 4096)) = c (4096 * k + x mod 4096)" using l by simp
        then show ?thesis by (simp only: d(2))
      qed
      ultimately show ?thesis using pa_frame [of child "va + word_of_nat x" w'] s(2,3) by (simp add: view_def)
    qed
  qed
  have "fresh_supply L (insert fr U) w'" using fresh_taken [of L U w w'] inv l fr rq by (simp add: seg_inv_def)
  moreover have "phys w' a = phys w\<^sub>0 a" if "PTE_ADDR a \<in> U\<^sub>0" for a using that inv l afr(2) by (auto simp: seg_inv_def)
  ultimately show ?thesis using page inv l by (auto simp: seg_inv_def)
qed

section \<open>The segment\<close>

definition seg_byte :: "u32 \<Rightarrow> u32 \<Rightarrow> nat \<Rightarrow> uworld \<Rightarrow> nat \<Rightarrow> u8" where
  "seg_byte me bin fsz w x = (if x < fsz then phys w (pa_of me (bin + word_of_nat x) w) else 0)"

text \<open>The callback for page \<open>k\<close> of a segment with \<open>fsz\<close> bytes in the file.\<close>

definition seg_call :: "u32 \<Rightarrow> u32 \<Rightarrow> u32 \<Rightarrow> nat \<Rightarrow> nat \<Rightarrow> u32 \<Rightarrow> map_call" where
  "seg_call va perm bin fsz k l = (va + word_of_nat (4096 * k), 0, perm,
     if 4096 * k < fsz then Some (bin + word_of_nat (4096 * k)) else None, if 4096 * k < fsz then word_of_nat (min (fsz - 4096 * k) 4096) else l)"

lemma seg_call_step:
  assumes inv: "seg_inv L me child va (seg_byte me bin fsz w\<^sub>0) k U\<^sub>0 U w\<^sub>0 w" and p: "me \<in> procs w\<^sub>0" "child \<in> procs w\<^sub>0" "me \<noteq> child"
    and src: "source_ok me bin fsz U\<^sub>0 w\<^sub>0" and va: "unat va mod 4096 = 0" "unat va + 4096 * Suc k \<le> unat UTOP" "UTEMP \<le> va" and perm: "PTE_ADDR perm = 0"
    and lim: "requests w\<^sub>0 + 3 * Suc k \<le> L"
  shows "\<exists>w' U'. run_calls (spawn_mapper me child) [seg_call va perm bin fsz k l] w = Some (Inr (), w')
    \<and> seg_inv L me child va (seg_byte me bin fsz w\<^sub>0) (Suc k) U\<^sub>0 U' w\<^sub>0 w'"
proof -
  let ?va = "va + word_of_nat (4096 * k)" and ?fr = "nth_frame (requests w) w"
  have top: "unat UTOP \<le> 4294967296" using unat_u32 [of UTOP] by simp
  have u: "unat ?va = unat va + 4096 * k" using segment_addr(1) [OF va(1), of "4096 * k"] va(2) top by simp
  have legal: "\<not> illegal_va ?va" using va(2,3) u by (simp add: illegal_va_def word_le_nat_alt word_less_nat_alt)
  have al: "PTE_ADDR ?va = ?va" using segment_addr(3) [OF va(1), of "4096 * k"] va(2) top by simp
  have fresh: "fresh_supply L U w" "requests w < L" "\<forall>n. palloc w n \<noteq> None" and pw: "me \<in> procs w" "child \<in> procs w" using inv p lim by (simp_all add: seg_inv_def fresh_supply_def)
  have same: "is_mapped me a w" "pa_of me a w = pa_of me a w\<^sub>0" if "is_mapped me a w\<^sub>0" "VPN a \<noteq> VPN UTEMP" for a
    using that inv by (auto simp: seg_inv_def is_mapped_def pa_of_def)
  have "\<exists>w'. run_calls (spawn_mapper me child) [seg_call va perm bin fsz k l] w = Some (Inr (), w')
      \<and> page_loaded me child ?va perm ?fr (\<lambda>i. seg_byte me bin fsz w\<^sub>0 (4096 * k + i)) w w'"
  proof (cases "4096 * k < fsz")
    case True
    let ?p = "bin + word_of_nat (4096 * k)" and ?n = "min (fsz - 4096 * k) 4096"
    have ad: "?p + word_of_nat i = bin + word_of_nat (4096 * k + i)" for i by (simp add: add.assoc)
    have s0: "is_mapped me (?p + word_of_nat i) w\<^sub>0" "VPN (?p + word_of_nat i) \<noteq> VPN UTEMP" "PTE_ADDR (pa_of me (?p + word_of_nat i) w\<^sub>0) \<in> U\<^sub>0"
        if "i < ?n" for i
      unfolding ad using spec [OF src [unfolded source_ok_def], of "4096 * k + i"] that by auto
    have "source_ok me ?p ?n U w" using s0 same inv by (auto simp: source_ok_def seg_inv_def)
    from mapper_copy [OF pw p(3) fresh(1,2) legal al perm refl this] obtain w' where
      w': "spawn_mapper me child ?va 0 perm (Some ?p) (word_of_nat ?n) w = Some (Inr (), w')"
      "page_loaded me child ?va perm ?fr (\<lambda>i. if i < ?n then phys w (pa_of me (?p + word_of_nat i) w) else 0) w w'" by auto
    have "(if i < ?n then phys w (pa_of me (?p + word_of_nat i) w) else 0) = seg_byte me bin fsz w\<^sub>0 (4096 * k + i)" if i: "i < 4096" for i
    proof (cases "i < ?n")
      case True
      then have "phys w (pa_of me (?p + word_of_nat i) w) = phys w\<^sub>0 (pa_of me (?p + word_of_nat i) w\<^sub>0)"
        using s0 [OF True] same inv by (simp add: seg_inv_def)
      moreover have "4096 * k + i < fsz" using True by auto
      ultimately show ?thesis using True unfolding ad by (simp add: seg_byte_def)
    qed (use i in \<open>auto simp: seg_byte_def\<close>)
    then have "page_loaded me child ?va perm ?fr (\<lambda>i. seg_byte me bin fsz w\<^sub>0 (4096 * k + i)) w w'"
      using w'(2) unfolding page_loaded_def by auto
    then show ?thesis using True w'(1) by (simp add: seg_call_def)
  next
    case False
    obtain w' where w': "u_mem_alloc child ?va perm w = (Inr (), w')" "page_loaded me child ?va perm ?fr (\<lambda>_. 0) w w'"
      by (rule mapper_zero [OF pw(2) p(3) fresh(3) legal refl, of perm]) blast
    then have "page_loaded me child ?va perm ?fr (\<lambda>i. seg_byte me bin fsz w\<^sub>0 (4096 * k + i)) w w'"
      using False by (simp add: page_loaded_def seg_byte_def)
    then show ?thesis using False w'(1) by (simp add: seg_call_def spawn_mapper_def)
  qed
  then show ?thesis using seg_inv_step [OF inv _ refl perm va(1) _ lim] va(2) top by fastforce
qed

lemma seg_calls_run:
  assumes "fresh_supply L U w" and p: "me \<in> procs w" "child \<in> procs w" "me \<noteq> child" and src: "source_ok me bin fsz U w"
    and va: "unat va mod 4096 = 0" "UTEMP \<le> va" and perm: "PTE_ADDR perm = 0" and n: "unat va + 4096 * n \<le> unat UTOP" "requests w + 3 * n \<le> L"
  shows "\<exists>w' U'. run_calls (spawn_mapper me child) (map (\<lambda>k. seg_call va perm bin fsz k (l k)) [0..<n]) w = Some (Inr (), w')
    \<and> seg_inv L me child va (seg_byte me bin fsz w) n U U' w w'"
  using n
proof (induction n)
  case 0
  then show ?case using assms(1) by (auto simp: seg_inv_def)
next
  case (Suc k)
  then obtain u U' where u: "run_calls (spawn_mapper me child) (map (\<lambda>k. seg_call va perm bin fsz k (l k)) [0..<k]) w = Some (Inr (), u)"
    "seg_inv L me child va (seg_byte me bin fsz w) k U U' w u" by auto
  from seg_call_step [OF u(2) p src va(1) Suc.prems(1) va(2) perm Suc.prems(2), of "l k"] show ?case
    using u(1) by (simp add: run_calls_append)
qed

lemma seg_calls_eq:
  assumes "unat (p_vaddr ph) mod 4096 = 0" and "p_filesz ph \<le> p_memsz ph"
  shows "seg_calls ph bin = map (\<lambda>k. seg_call (p_vaddr ph) (if p_flags ph AND PF_W \<noteq> 0 then PTE_V OR PTE_D else PTE_V) bin (unat (p_filesz ph)) k
      (MIN_u32 (p_filesz ph - word_of_nat (4096 * k)) BY2PG)) [0..<seg_pages (p_memsz ph)]"
proof -
  let ?n = "seg_pages (p_filesz ph)" and ?m = "seg_pages (p_memsz ph)"
  have le: "?n \<le> ?m" using assms(2) by (simp add: seg_pages_def word_le_nat_alt div_le_mono)
  have c: "k < ?n \<longleftrightarrow> 4096 * k < unat (p_filesz ph)" for k
  proof -
    have "k < ?n \<longleftrightarrow> Suc k * 4096 \<le> unat (p_filesz ph) + 4095"
      unfolding seg_pages_def Suc_le_eq [symmetric] by (rule less_eq_div_iff_mult_less_eq) simp
    then show ?thesis by auto
  qed
  have "[0..<?m] = [0..<?n] @ [?n..<?m]" using le upt_add_eq_append [of 0 ?n "?m - ?n"] by simp
  then show ?thesis unfolding seg_calls_aligned [OF assms(1)] by (simp add: seg_call_def c [symmetric])
qed


text \<open>A parent that has a byte of a file at \<open>0x60000000\<close>, and a data segment of two bytes at \<open>0x400000\<close> that starts with it.\<close>

definition file_space :: uworld where
  "file_space = two_spaces\<lparr>phys := (\<lambda>a. if a = 0 then 42 else 0), updir := (\<lambda>e i. if e = 1 then PTE_V else 0),
     uptab := (\<lambda>e pn. if e = 1 \<and> pn = 0x60000 then PTE_V else 0), palloc := (\<lambda>n. Some (word_of_nat (Suc (n mod 1000)) * 4096)), requests := 3\<rparr>"

definition tiny_seg :: Elf32_Phdr where
  "tiny_seg = \<lparr>p_type = PT_LOAD, p_offset = 0, p_vaddr = 0x400000, p_filesz = 1, p_memsz = 2, p_flags = PF_W\<rparr>"


end
