(* ===== verification/Shell.thy ===== *)
theory Shell
  imports Spawn
begin

text \<open>
  The shell, \<open>user/sh.c\<close>: the tokenizer with its token of lookahead, the parser that carries out redirections and pipes while it
  collects the arguments, the execution of a command and the line editor. The text of a command is a part of the
  memory of the shell that nothing else uses and is kept as flat memory; a token is an address in it.

  \<open>fork\<close> enters as what it returns and the state it leaves, in the environment that is followed: 0 in the child. \<open>Exited\<close> is a
  call of \<open>exit\<close>; \<open>None\<close> is as for files, and also the use of an array that was never filled. Output with \<open>debugf\<close> and
  \<open>printf\<close> is left out.
\<close>

section \<open>Tokens\<close>

definition WHITESPACE :: "u8 list" where "WHITESPACE = [32, 9, 13, 10]"
definition SYMBOLS :: "u8 list" where "SYMBOLS = [60, 124, 62, 38, 59, 40, 41]"
definition TOK_WORD :: u8 where "TOK_WORD = 119"
definition MAXARGS :: nat where "MAXARGS = 128"

partial_function (option) skip_space :: "u32 \<Rightarrow> bmem \<Rightarrow> (u32 \<times> bmem) option" where
  "skip_space s m = (if m s \<in> set WHITESPACE then skip_space (s + 1) (m(s := 0)) else Some (s, m))"

partial_function (option) word_end :: "bmem \<Rightarrow> u32 \<Rightarrow> u32 option" where
  "word_end m s = (if m s \<noteq> 0 \<and> m s \<notin> set (WHITESPACE @ SYMBOLS) then word_end m (s + 1) else Some s)"

text \<open>The token, \<open>*p1\<close> and \<open>*p2\<close>.\<close>

definition gettoken1 :: "u32 \<Rightarrow> bmem \<Rightarrow> ((u8 \<times> u32 \<times> u32) \<times> bmem) option" where
  "gettoken1 s m = (
     if s = 0 then Some ((0, 0, 0), m)
     else do {
       (s, m) \<leftarrow> skip_space s m;
       if m s = 0 then Some ((0, 0, 0), m)
       else if m s \<in> set SYMBOLS then Some ((m s, s, s + 1), m(s := 0))
       else do { e \<leftarrow> word_end m s; Some ((TOK_WORD, s, e), m) }
     })"

record tokens =
  chars :: bmem
  nc :: u8
  np1 :: u32
  np2 :: u32

definition gettoken_init :: "u32 \<Rightarrow> tokens \<Rightarrow> tokens option" where
  "gettoken_init s g = do {
     ((c, p1, p2), m) \<leftarrow> gettoken1 s (chars g);
     Some (g\<lparr>chars := m, nc := c, np1 := p1, np2 := p2\<rparr>)
   }"

definition gettoken :: "tokens \<Rightarrow> ((u8 \<times> u32) \<times> tokens) option" where
  "gettoken g = do {
     ((c, p1, p2), m) \<leftarrow> gettoken1 (np2 g) (chars g);
     Some ((nc g, np1 g), g\<lparr>chars := m, nc := c, np1 := p1, np2 := p2\<rparr>)
   }"

section \<open>Commands\<close>

record shell =
  toks :: tokens
  world :: sworld

text \<open>
  What the shell gets from outside: the file servers, the devices of an environment, the addresses of \<open>fsipcbuf\<close> and of the buffer of \<open>spawn\<close>,
  the answers of the kernel and of \<open>fork\<close>, the indeterminate value in \<open>spawn\<close>, and what \<open>wait\<close> finds for an environment.
\<close>

record shell_env =
  srv :: server
  devs :: "u32 \<Rightarrow> dev list"
  fsbuf :: u32
  elfbuf :: u32
  exofork :: "sworld \<Rightarrow> u32 \<times> sworld"
  fork_run :: "sworld \<Rightarrow> (int \<times> u32) \<times> sworld"
  r0 :: int
  obs :: "u32 \<Rightarrow> nat \<Rightarrow> u32 \<times> u32"

text \<open>A parsed command: the environment that runs it, the addresses of the words and \<open>*rightpipe\<close>.\<close>

datatype parsed = Parsed u32 "u32 list" int | Exited

definition word_at :: "u32 \<Rightarrow> shell \<Rightarrow> u8 list option" where
  "word_at t sh = path_at 1024 (chars (toks sh)) t"

definition on_world :: "(uworld \<Rightarrow> ('a \<times> uworld) option) \<Rightarrow> shell \<Rightarrow> ('a \<times> shell) option" where
  "on_world f sh = do { (r, t) \<leftarrow> on_space f (world sh); Some (r, sh\<lparr>world := t\<rparr>) }"

definition next_token :: "shell \<Rightarrow> ((u8 \<times> u32) \<times> shell) option" where
  "next_token sh = do { (c, g) \<leftarrow> gettoken (toks sh); Some (c, sh\<lparr>toks := g\<rparr>) }"

definition sh_exit :: "shell_env \<Rightarrow> u32 \<Rightarrow> shell \<Rightarrow> shell option" where
  "sh_exit E me sh = do { t \<leftarrow> exit (devs E me) me (world sh); Some (sh\<lparr>world := t\<rparr>) }"

text \<open>Put the file named by the word at \<open>t\<close> in the place of a descriptor; a file that cannot be opened panics.\<close>

definition redirect :: "shell_env \<Rightarrow> u32 \<Rightarrow> u32 \<Rightarrow> int \<Rightarrow> u32 \<Rightarrow> shell \<Rightarrow> shell option" where
  "redirect E me mode newfd t sh = do {
     path \<leftarrow> word_at t sh;
     (fd, sh) \<leftarrow> on_world (open_path (srv E) me (fsbuf E) path mode) sh;
     if fd < 0 then None
     else do {
       (_, sh) \<leftarrow> on_world (dup (devs E me) me fd newfd) sh;
       (_, sh) \<leftarrow> on_world (close (devs E me) me fd) sh;
       Some sh
     }
   }"

text \<open>One end of a pipe takes the place of a descriptor and both ends are closed, the one in use first.\<close>

definition use_end :: "shell_env \<Rightarrow> u32 \<Rightarrow> int \<Rightarrow> int \<Rightarrow> int \<Rightarrow> shell \<Rightarrow> shell option" where
  "use_end E me p newfd other sh = do {
     (_, sh) \<leftarrow> on_world (dup (devs E me) me p newfd) sh;
     (_, sh) \<leftarrow> on_world (close (devs E me) me p) sh;
     (_, sh) \<leftarrow> on_world (close (devs E me) me other) sh;
     Some sh
   }"

text \<open>A pipe: \<open>fork\<close>, then the child takes the read end as its input and the parent the write end as its output.\<close>

definition start_pipe :: "shell_env \<Rightarrow> u32 \<Rightarrow> shell \<Rightarrow> ((int \<times> u32) \<times> shell) option" where
  "start_pipe E me sh = do {
     (r, sh) \<leftarrow> on_world (pipe me) sh;
     (case r of
        Inl e \<Rightarrow> None
      | Inr (p0, p1) \<Rightarrow> do {
          let ((r, me), t) = fork_run E (world sh);
          let sh = sh\<lparr>world := t\<rparr>;
          sh \<leftarrow> (if r = 0 then use_end E me p0 0 p1 sh else use_end E me p1 1 p0 sh);
          Some ((r, me), sh)
        })
   }"

text \<open>\<open><\<close> and \<open>>\<close> with the word that has to follow; without it the result is \<open>False\<close>.\<close>

definition redirect_next :: "shell_env \<Rightarrow> u32 \<Rightarrow> u8 \<Rightarrow> shell \<Rightarrow> (bool \<times> shell) option" where
  "redirect_next E me c sh = do {
     ((c', t), sh) \<leftarrow> next_token sh;
     if c' \<noteq> TOK_WORD then Some (False, sh)
     else do {
       sh \<leftarrow> (if c = 60 then redirect E me O_RDONLY 0 t sh else redirect E me O_WRONLY 1 t sh);
       Some (True, sh)
     }
   }"

partial_function (option) parsecmd :: "shell_env \<Rightarrow> u32 \<Rightarrow> u32 list \<Rightarrow> int \<Rightarrow> shell \<Rightarrow> (parsed \<times> shell) option" where
  "parsecmd E me argv rightpipe sh = do {
     ((c, t), sh) \<leftarrow> next_token sh;
     if c = 0 then Some (Parsed me argv rightpipe, sh)
     else if c = TOK_WORD then
       if length argv \<ge> MAXARGS then do { sh \<leftarrow> sh_exit E me sh; Some (Exited, sh) }
       else parsecmd E me (argv @ [t]) rightpipe sh
     else if c = 60 \<or> c = 62 then do {
       (ok, sh) \<leftarrow> redirect_next E me c sh;
       if ok then parsecmd E me argv rightpipe sh
       else do { sh \<leftarrow> sh_exit E me sh; Some (Exited, sh) }
     }
     else if c = 124 then do {
       ((r, me), sh) \<leftarrow> start_pipe E me sh;
       if r = 0 then parsecmd E me [] 0 sh
       else Some (Parsed me argv r, sh)
     }
     else parsecmd E me argv rightpipe sh
   }"

text \<open>Start the program and wait for it and for the right side of a pipe.\<close>

definition run_argv :: "shell_env \<Rightarrow> u32 \<Rightarrow> int \<Rightarrow> u8 list list \<Rightarrow> shell \<Rightarrow> shell option" where
  "run_argv E me rightpipe args sh = do {
     (child, t) \<leftarrow> spawn (srv E) (devs E me) me (fsbuf E) (elfbuf E) (exofork E) (r0 E) (hd args) args (world sh);
     w \<leftarrow> close_all (devs E me) me (space t);
     let sh = sh\<lparr>world := t\<lparr>space := w\<rparr>\<rparr>;
     _ \<leftarrow> (if child \<ge> 0 then wait (obs E (word_of_int child)) (word_of_int child) else Some 0);
     _ \<leftarrow> (if rightpipe \<noteq> 0 then wait (obs E (word_of_int rightpipe)) (word_of_int rightpipe) else Some 0);
     sh_exit E me sh
   }"

text \<open>
  The result tells whether the environment has exited. \<open>argv\<close> has \<open>MAXARGS\<close> elements; a terminator behind them is stored outside.
\<close>

definition runcmd :: "shell_env \<Rightarrow> u32 \<Rightarrow> u32 \<Rightarrow> shell \<Rightarrow> (bool \<times> shell) option" where
  "runcmd E me s sh = do {
     g \<leftarrow> gettoken_init s (toks sh);
     (r, sh) \<leftarrow> parsecmd E me [] 0 (sh\<lparr>toks := g\<rparr>);
     (case r of
        Exited \<Rightarrow> Some (True, sh)
      | Parsed me argv rightpipe \<Rightarrow>
          if argv = [] then Some (False, sh)
          else if length argv \<ge> MAXARGS then None
          else do {
            args \<leftarrow> those (map (\<lambda>t. word_at t sh) argv);
            sh \<leftarrow> run_argv E me rightpipe args sh;
            Some (True, sh)
          })
   }"

section \<open>Lines\<close>

text \<open>
  \<open>inp k\<close> is the result of the \<open>k\<close>-th \<open>read\<close> and the byte it stores. \<open>i\<close> is \<open>-1\<close> after a backspace in the first two columns, and then the byte
  in front of the buffer is looked at. The result is \<open>False\<close> for \<open>exit\<close>, and the number of reads.
\<close>

definition backspace :: "u8 \<Rightarrow> bool" where "backspace b \<longleftrightarrow> b = 8 \<or> b = 0x7F"
definition newline :: "u8 \<Rightarrow> bool" where "newline b \<longleftrightarrow> b = 13 \<or> b = 10"

partial_function (option) drain_line :: "(nat \<Rightarrow> int \<times> u8) \<Rightarrow> u32 \<Rightarrow> nat \<Rightarrow> bmem \<Rightarrow> (nat \<times> bmem) option" where
  "drain_line inp buf k m = (
     case inp k of (r, c) \<Rightarrow>
       if r = 1 \<and> \<not> newline c then drain_line inp buf (Suc k) (m(buf := c))
       else Some (Suc k, if r = 1 then m(buf := c) else m))"

partial_function (option) readline_loop :: "(nat \<Rightarrow> int \<times> u8) \<Rightarrow> u32 \<Rightarrow> nat \<Rightarrow> nat \<Rightarrow> nat \<Rightarrow> bmem \<Rightarrow> (bool \<times> nat \<times> bmem) option" where
  "readline_loop inp buf n i k m = (
     if i < n then
       (case inp k of (r, c) \<Rightarrow>
          if r \<noteq> 1 then Some (False, Suc k, m)
          else
            let m = m(buf + word_of_nat i := c);
                i = (if backspace c then if i > 0 then int i - 2 else - 1 else int i);
                a = buf + word_of_int i
            in if newline (m a) then Some (True, Suc k, m(a := 0))
               else readline_loop inp buf n (nat (i + 1)) (Suc k) m)
     else do { (k, m) \<leftarrow> drain_line inp buf k m; Some (True, k, m(buf := 0)) })"

definition readline :: "(nat \<Rightarrow> int \<times> u8) \<Rightarrow> u32 \<Rightarrow> nat \<Rightarrow> nat \<Rightarrow> bmem \<Rightarrow> (bool \<times> nat \<times> bmem) option" where
  "readline inp buf n k m = readline_loop inp buf n 0 k m"

text \<open>
  One turn of the loop of \<open>main\<close> with a line in the buffer: a comment is skipped, otherwise a child runs the command. The result
  tells whether the environment that is followed has ended.
\<close>

definition shell_turn :: "shell_env \<Rightarrow> u32 \<Rightarrow> shell \<Rightarrow> (bool \<times> shell) option" where
  "shell_turn E line sh = (
     if chars (toks sh) line = 35 then Some (False, sh)
     else case fork_run E (world sh) of ((r, me), t) \<Rightarrow>
       let sh = sh\<lparr>world := t\<rparr>
       in if r < 0 then None
          else if r = 0 then do {
            (ended, sh) \<leftarrow> runcmd E me line sh;
            sh \<leftarrow> (if ended then Some sh else sh_exit E me sh);
            Some (True, sh)
          }
          else do { _ \<leftarrow> wait (obs E (word_of_int r)) (word_of_int r); Some (False, sh) })"

end
