(* ===== verification/Shell_Props.thy ===== *)
theory Shell_Props
  imports Shell
begin

text \<open>
  The tokenizer of the shell against a lexer on lists: the calls of \<open>gettoken\<close> return the tokens of the line in order, and every word is
  terminated in memory by the time it is returned, because the scan for the next token has overwritten what follows it.
\<close>

section \<open>The lexer\<close>

abbreviation ws :: "u8 \<Rightarrow> bool" where "ws c \<equiv> c \<in> set WHITESPACE"
abbreviation sym :: "u8 \<Rightarrow> bool" where "sym c \<equiv> c \<in> set SYMBOLS"
abbreviation wordchar :: "u8 \<Rightarrow> bool" where "wordchar c \<equiv> c \<notin> set (WHITESPACE @ SYMBOLS)"

function lex :: "u8 list \<Rightarrow> (u8 \<times> u8 list) list" where
  "lex xs = (
     case dropWhile ws xs of
       [] \<Rightarrow> []
     | c # cs \<Rightarrow> if sym c then (c, []) # lex cs else (TOK_WORD, takeWhile wordchar (c # cs)) # lex (dropWhile wordchar (c # cs)))"
  by pat_completeness auto
termination
proof (relation "measure length", goal_cases)
  case (2 xs c cs)
  then have "length (c # cs) \<le> length xs" by (metis length_dropWhile_le)
  then show ?case by simp
next
  case (3 xs c cs)
  then have "length (c # cs) \<le> length xs" by (metis length_dropWhile_le)
  moreover have "\<not> ws c" using 3 by (metis hd_dropWhile list.distinct(1) list.sel(1))
  ultimately show ?case using 3 length_dropWhile_le [of wordchar cs] by auto
qed simp

declare lex.simps [simp del]

lemma chars_nonzero [simp]: "0 \<notin> set WHITESPACE" "0 \<notin> set SYMBOLS" "TOK_WORD \<noteq> 0"
  by (simp_all add: WHITESPACE_def SYMBOLS_def TOK_WORD_def)

section \<open>Scanning\<close>

lemma next_addr: "unat (s :: u32) + Suc n < 4294967296 \<Longrightarrow> unat (s + 1) = Suc (unat s)"
  by (simp add: unat_word_ariths)

lemma cstr_above:
  "cstr m s xs \<Longrightarrow> unat s + length xs < 4294967296 \<Longrightarrow> (\<And>x. unat s \<le> unat x \<Longrightarrow> unat x \<le> unat s + length xs \<Longrightarrow> m' x = m x) \<Longrightarrow> cstr m' s xs"
proof (induction xs arbitrary: s)
  case (Cons x xs)
  then have "unat (s + 1) = Suc (unat s)" using next_addr [of s "length xs"] by simp
  then show ?case using Cons by simp
qed simp

text \<open>A scan from \<open>s\<close> to \<open>e\<close> changes memory there only, and only to zero.\<close>

definition scanned :: "u32 \<Rightarrow> u32 \<Rightarrow> bmem \<Rightarrow> bmem \<Rightarrow> bool" where
  "scanned s e m m' \<longleftrightarrow> (\<forall>x. m' x = m x \<or> unat s \<le> unat x \<and> unat x < unat e \<and> m' x = 0)"

lemma scanned_refl: "scanned s e m m"
  by (simp add: scanned_def)

lemma skip_space_spec:
  assumes "cstr m s xs" and "unat s + length xs < 4294967296"
  shows "\<exists>m' p. skip_space s m = Some (p, m') \<and> cstr m' p (dropWhile ws xs) \<and> scanned s p m m' \<and> unat p = unat s + length (takeWhile ws xs)
    \<and> (xs \<noteq> [] \<and> ws (hd xs) \<longrightarrow> m' s = 0)"
  using assms
proof (induction xs arbitrary: s m)
  case Nil
  then show ?case by (subst skip_space.simps) (auto simp: scanned_refl)
next
  case (Cons x xs)
  show ?case
  proof (cases "ws x")
    case True
    have n: "unat (s + 1) = Suc (unat s)" using Cons.prems next_addr [of s "length xs"] by simp
    have "cstr (m(s := 0)) (s + 1) xs"
    proof (rule cstr_above)
      show "cstr m (s + 1) xs" "unat (s + 1) + length xs < 4294967296" using Cons.prems n by simp_all
      show "(m(s := 0)) x = m x" if "unat (s + 1) \<le> unat x" for x using that n by auto
    qed
    moreover have "unat (s + 1) + length xs < 4294967296" using Cons.prems(2) n by simp
    ultimately obtain m' p where r: "skip_space (s + 1) (m(s := 0)) = Some (p, m')" "cstr m' p (dropWhile ws xs)" "scanned (s + 1) p (m(s := 0)) m'"
      "unat p = unat (s + 1) + length (takeWhile ws xs)"
      using Cons.IH by blast
    have "m' s = 0" using r(3) n by (auto simp: scanned_def dest: spec [of _ s])
    moreover have "scanned s p m m'"
      unfolding scanned_def
    proof
      fix x
      show "m' x = m x \<or> unat s \<le> unat x \<and> unat x < unat p \<and> m' x = 0"
        using spec [OF r(3) [unfolded scanned_def], of x] r(4) n \<open>m' s = 0\<close> by (cases "x = s") auto
    qed
    ultimately show ?thesis using r n True Cons.prems(1) by (subst skip_space.simps) auto
  next
    case False
    then show ?thesis using Cons.prems by (subst skip_space.simps) (auto simp: scanned_refl)
  qed
qed

lemma word_end_spec:
  assumes "cstr m s xs" and "unat s + length xs < 4294967296"
  shows "\<exists>e. word_end m s = Some e \<and> cstr m e (dropWhile wordchar xs) \<and> unat e = unat s + length (takeWhile wordchar xs)"
  using assms
proof (induction xs arbitrary: s)
  case Nil
  then show ?case by (subst word_end.simps) auto
next
  case (Cons x xs)
  show ?case
  proof (cases "wordchar x")
    case True
    have "unat (s + 1) = Suc (unat s)" using Cons.prems next_addr [of s "length xs"] by simp
    then show ?thesis using Cons.IH [of "s + 1"] Cons.prems True by (subst word_end.simps) auto
  next
    case False
    then show ?thesis using Cons.prems by (subst word_end.simps) auto
  qed
qed

text \<open>
  One call of \<open>_gettoken\<close> on the text \<open>xs\<close> at \<open>s\<close>: the token, the rest of the text behind it, what has changed in memory, and that a
  character that ends a word has been overwritten when the text starts with it.
\<close>

lemma gettoken1_end:
  assumes "cstr m s xs" "unat s + length xs < 4294967296" "s \<noteq> 0" "dropWhile ws xs = []"
  shows "\<exists>m'. gettoken1 s m = Some ((0, 0, 0), m') \<and> (\<forall>x. unat x < unat s \<longrightarrow> m' x = m x) \<and> m' s = 0"
proof -
  from skip_space_spec [OF assms(1,2)] obtain m' p where p: "skip_space s m = Some (p, m')" "cstr m' p []" "scanned s p m m'"
    "unat p = unat s + length (takeWhile ws xs)" "xs \<noteq> [] \<and> ws (hd xs) \<longrightarrow> m' s = 0" using assms(4) by auto
  have "m' s = 0"
  proof (cases xs)
    case Nil
    then have "p = s" using p(4) by (intro word_unat_eq_iff [THEN iffD2]) simp
    then show ?thesis using p(2) by simp
  next
    case (Cons x ys)
    then show ?thesis using p(5) assms(4) by (auto split: if_splits)
  qed
  then show ?thesis using p assms(3) by (auto simp: gettoken1_def scanned_def)
qed

lemma gettoken1_symbol:
  assumes "cstr m s xs" "unat s + length xs < 4294967296" "s \<noteq> 0" "dropWhile ws xs = c # cs" "sym c"
  shows "\<exists>m' p q. gettoken1 s m = Some ((c, p, q), m') \<and> cstr m' q cs \<and> unat q + length cs \<le> unat s + length xs \<and> unat s < unat q
    \<and> (\<forall>x. unat x < unat s \<longrightarrow> m' x = m x) \<and> m' s = 0"
proof -
  from skip_space_spec [OF assms(1,2)] obtain m' p where p: "skip_space s m = Some (p, m')" "cstr m' p (c # cs)" "scanned s p m m'"
    "unat p = unat s + length (takeWhile ws xs)" "xs \<noteq> [] \<and> ws (hd xs) \<longrightarrow> m' s = 0" using assms(4) by auto
  have len: "length (takeWhile ws xs) + Suc (length cs) = length xs"
    using arg_cong [OF takeWhile_dropWhile_id [of ws xs], of length] assms(4) by simp
  have q: "unat (p + 1) = Suc (unat p)" using next_addr [of p "length cs"] assms(2) p(4) len by simp
  have "cstr (m'(p := 0)) (p + 1) cs"
  proof (rule cstr_above)
    show "cstr m' (p + 1) cs" "unat (p + 1) + length cs < 4294967296" using p(2,4) q assms(2) len by simp_all
    show "(m'(p := 0)) x = m' x" if "unat (p + 1) \<le> unat x" for x using that q by auto
  qed
  moreover have "(m'(p := 0)) s = 0"
  proof (cases "p = s")
    case False
    then have "takeWhile ws xs \<noteq> []" using p(4) by (auto simp: word_unat_eq_iff)
    then have "xs \<noteq> [] \<and> ws (hd xs)" by (cases xs) (auto split: if_splits)
    then show ?thesis using p(5) by simp
  qed simp
  moreover have "gettoken1 s m = Some ((c, p, p + 1), m'(p := 0))" using p(1,2) assms(3,5) by (auto simp: gettoken1_def)
  moreover have "(m'(p := 0)) x = m x" if "unat x < unat s" for x using that p(3,4) by (auto simp: scanned_def)
  ultimately show ?thesis using p(4) q len by (intro exI [of _ "m'(p := 0)"] exI [of _ p] exI [of _ "p + 1"]) auto
qed

lemma gettoken1_word:
  assumes "cstr m s xs" "unat s + length xs < 4294967296" "s \<noteq> 0" "dropWhile ws xs = c # cs" "\<not> sym c"
  shows "\<exists>m' p q. gettoken1 s m = Some ((TOK_WORD, p, q), m') \<and> cstr m' q (dropWhile wordchar (c # cs)) \<and> cstr m' p (c # cs)
    \<and> unat q = unat p + length (takeWhile wordchar (c # cs)) \<and> unat p + length (c # cs) = unat s + length xs \<and> unat s \<le> unat p
    \<and> (\<forall>x. unat x < unat s \<longrightarrow> m' x = m x) \<and> (ws (hd xs) \<longrightarrow> m' s = 0)"
proof -
  from skip_space_spec [OF assms(1,2)] obtain m' p where p: "skip_space s m = Some (p, m')" "cstr m' p (c # cs)" "scanned s p m m'"
    "unat p = unat s + length (takeWhile ws xs)" "xs \<noteq> [] \<and> ws (hd xs) \<longrightarrow> m' s = 0" using assms(4) by auto
  have len: "length (takeWhile ws xs) + Suc (length cs) = length xs"
    using arg_cong [OF takeWhile_dropWhile_id [of ws xs], of length] assms(4) by simp
  from word_end_spec [OF p(2)] obtain q where q: "word_end m' p = Some q" "cstr m' q (dropWhile wordchar (c # cs))"
    "unat q = unat p + length (takeWhile wordchar (c # cs))" using p(4) len assms(2) by auto
  have "gettoken1 s m = Some ((TOK_WORD, p, q), m')" using p(1,2) q(1) assms(3,5) by (auto simp: gettoken1_def)
  moreover have "xs \<noteq> []" using len by auto
  ultimately show ?thesis using p q len by (intro exI [of _ m'] exI [of _ p] exI [of _ q]) (auto simp: scanned_def)
qed

section \<open>All tokens of a line\<close>

text \<open>What the calls of \<open>gettoken\<close> return until the line ends.\<close>

partial_function (option) all_tokens :: "tokens \<Rightarrow> ((u8 \<times> u32) list \<times> tokens) option" where
  "all_tokens g = do {
     ((c, t), g) \<leftarrow> gettoken g;
     if c = 0 then Some ([], g)
     else do { (ts, g) \<leftarrow> all_tokens g; Some ((c, t) # ts, g) }
   }"

definition tokenize :: "u32 \<Rightarrow> tokens \<Rightarrow> ((u8 \<times> u32) list \<times> tokens) option" where
  "tokenize s g = do { g \<leftarrow> gettoken_init s g; all_tokens g }"

text \<open>A token in memory \<open>m\<close>: the code, and for a word its terminated text.\<close>

definition token_in :: "bmem \<Rightarrow> u8 \<times> u8 list \<Rightarrow> u8 \<times> u32 \<Rightarrow> bool" where
  "token_in m = (\<lambda>(c, w) (c', t). c' = c \<and> (c = TOK_WORD \<longrightarrow> cstr m t w))"

lemma gettoken_init_next: "gettoken g = map_option (Pair (nc g, np1 g)) (gettoken_init (np2 g) g)"
  by (auto simp: gettoken_def gettoken_init_def split: bind_splits)

lemma all_tokens_step:
  "c \<noteq> 0 \<Longrightarrow> all_tokens (g\<lparr>chars := m, nc := c, np1 := p, np2 := q\<rparr>)
    = map_option (\<lambda>(ts, g). ((c, p) # ts, g)) (tokenize q (g\<lparr>chars := m, nc := c, np1 := p, np2 := q\<rparr>))"
  by (subst all_tokens.simps) (auto simp: gettoken_init_next tokenize_def split: bind_splits)

lemma tokenize_step:
  "gettoken1 s (chars g) = Some ((c, p, q), m) \<Longrightarrow> c \<noteq> 0 \<Longrightarrow> tokenize s g
    = map_option (\<lambda>(ts, g). ((c, p) # ts, g)) (tokenize q (g\<lparr>chars := m, nc := c, np1 := p, np2 := q\<rparr>))"
  by (simp add: tokenize_def [of s] gettoken_init_def all_tokens_step)

lemma tokenize_stop:
  "gettoken1 s (chars g) = Some ((0, 0, 0), m) \<Longrightarrow> tokenize s g = Some ([], g\<lparr>chars := m, nc := 0, np1 := 0, np2 := 0\<rparr>)"
  by (simp add: tokenize_def gettoken_init_def) (subst all_tokens.simps, simp add: gettoken_def gettoken1_def)

lemma cstr_cut:
  "cstr m p (w @ r) \<Longrightarrow> unat p + length w < 4294967296 \<Longrightarrow> (\<And>x. unat x < unat p + length w \<Longrightarrow> m' x = m x) \<Longrightarrow>
   (\<And>x. unat x = unat p + length w \<Longrightarrow> m' x = 0) \<Longrightarrow> cstr m' p w"
proof (induction w arbitrary: p)
  case (Cons x w)
  then have n: "unat (p + 1) = Suc (unat p)" using next_addr [of p "length w"] by simp
  have "cstr m' (p + 1) w" by (rule Cons.IH) (use Cons.prems n in auto)
  then show ?case using Cons.prems by auto
qed simp

lemma lex_nil: "dropWhile ws xs = [] \<Longrightarrow> lex xs = []"
  by (subst lex.simps) (simp only: list.case)

lemma lex_sym: "dropWhile ws xs = c # cs \<Longrightarrow> sym c \<Longrightarrow> lex xs = (c, []) # lex cs"
  by (subst lex.simps) simp

lemma lex_word: "dropWhile ws xs = c # cs \<Longrightarrow> \<not> sym c \<Longrightarrow> lex xs = (TOK_WORD, takeWhile wordchar (c # cs)) # lex (dropWhile wordchar (c # cs))"
  by (subst lex.simps) simp

lemma sym_nonzero: "sym c \<Longrightarrow> c \<noteq> 0 \<and> c \<noteq> TOK_WORD"
  by (auto simp: SYMBOLS_def TOK_WORD_def)

definition lexed :: "u32 \<Rightarrow> tokens \<Rightarrow> u8 list \<Rightarrow> bool" where
  "lexed s g xs \<longleftrightarrow> (\<exists>ts g'. tokenize s g = Some (ts, g') \<and> list_all2 (token_in (chars g')) (lex xs) ts
     \<and> (\<forall>x. unat x < unat s \<longrightarrow> chars g' x = chars g x) \<and> ((xs = [] \<or> \<not> wordchar (hd xs)) \<longrightarrow> chars g' s = 0))"

lemma lexed_symbol:
  assumes g1: "gettoken1 s (chars g) = Some ((c, p, q), m)" and c: "sym c" and less: "unat s < unat q"
    and frame: "\<forall>x. unat x < unat s \<longrightarrow> m x = chars g x" "m s = 0"
    and rest: "lexed q (g\<lparr>chars := m, nc := c, np1 := p, np2 := q\<rparr>) cs" and xs: "dropWhile ws xs = c # cs"
  shows "lexed s g xs"
proof -
  from rest obtain ts g' where t: "tokenize q (g\<lparr>chars := m, nc := c, np1 := p, np2 := q\<rparr>) = Some (ts, g')"
    "list_all2 (token_in (chars g')) (lex cs) ts" "\<forall>x. unat x < unat q \<longrightarrow> chars g' x = m x"
    by (auto simp: lexed_def)
  have "tokenize s g = Some ((c, p) # ts, g')" using tokenize_step [OF g1] t(1) sym_nonzero [OF c] by simp
  then show ?thesis using t frame less lex_sym [OF xs c] sym_nonzero [OF c] by (auto simp: lexed_def token_in_def)
qed

lemma lexed_word:
  assumes g1: "gettoken1 s (chars g) = Some ((TOK_WORD, p, q), m)" and c: "\<not> sym c" and xs: "dropWhile ws xs = c # cs"
    and at: "cstr m p (c # cs)" "unat q = unat p + length (takeWhile wordchar (c # cs))" "unat s \<le> unat p" "unat p + length (c # cs) < 4294967296"
    and frame: "\<forall>x. unat x < unat s \<longrightarrow> m x = chars g x" "ws (hd xs) \<longrightarrow> m s = 0"
    and rest: "lexed q (g\<lparr>chars := m, nc := TOK_WORD, np1 := p, np2 := q\<rparr>) (dropWhile wordchar (c # cs))"
  shows "lexed s g xs"
proof -
  let ?w = "takeWhile wordchar (c # cs)" and ?r = "dropWhile wordchar (c # cs)"
  have "\<not> ws c" using xs by (metis hd_dropWhile list.distinct(1) list.sel(1))
  then have w: "?w \<noteq> []" using c by simp
  from rest obtain ts g' where t: "tokenize q (g\<lparr>chars := m, nc := TOK_WORD, np1 := p, np2 := q\<rparr>) = Some (ts, g')"
    "list_all2 (token_in (chars g')) (lex ?r) ts" "\<forall>x. unat x < unat q \<longrightarrow> chars g' x = m x" "?r = [] \<or> \<not> wordchar (hd ?r) \<longrightarrow> chars g' q = 0"
    by (auto simp: lexed_def)
  have z: "chars g' q = 0" using t(4) hd_dropWhile [of wordchar "c # cs"] by blast
  have "cstr (chars g') p ?w"
  proof (rule cstr_cut)
    show "cstr m p (?w @ ?r)" using at(1) takeWhile_dropWhile_id [of wordchar "c # cs"] by simp
    show "unat p + length ?w < 4294967296" using at(4) length_takeWhile_le [of wordchar "c # cs"] by linarith
    show "chars g' x = m x" if "unat x < unat p + length ?w" for x using that t(3) at(2) by simp
    show "chars g' x = 0" if "unat x = unat p + length ?w" for x
    proof -
      have "x = q" using that at(2) by (intro word_unat_eq_iff [THEN iffD2]) simp
      then show ?thesis using z by simp
    qed
  qed
  moreover have "tokenize s g = Some ((TOK_WORD, p) # ts, g')" using tokenize_step [OF g1] t(1) by simp
  moreover have "unat s < unat q" using at(2,3) w by (cases ?w) auto
  moreover have "ws (hd xs)" if "xs = [] \<or> \<not> wordchar (hd xs)"
    using that xs c by (cases xs) (auto split: if_splits)
  ultimately show ?thesis using t(2,3) frame lex_word [OF xs c] by (auto simp: lexed_def token_in_def)
qed

lemma tokenize_lex:
  assumes "cstr (chars g) s xs" "unat s + length xs < 4294967296" "s \<noteq> 0"
  shows "lexed s g xs"
  using assms
proof (induction xs arbitrary: s g rule: length_induct)
  case (1 xs)
  note prems = "1.prems"
  show ?case
  proof (cases "dropWhile ws xs")
    case Nil
    then show ?thesis using gettoken1_end [OF prems Nil] lex_nil [OF Nil] by (auto simp: lexed_def tokenize_stop)
  next
    case (Cons c cs)
    have le: "length (c # cs) \<le> length xs" using length_dropWhile_le [of ws xs] Cons by simp
    show ?thesis
    proof (cases "sym c")
      case True
      from gettoken1_symbol [OF prems Cons True] obtain m p q where g1: "gettoken1 s (chars g) = Some ((c, p, q), m)" "cstr m q cs"
        "unat q + length cs \<le> unat s + length xs" "unat s < unat q" "\<forall>x. unat x < unat s \<longrightarrow> m x = chars g x" "m s = 0" by blast
      have "lexed q (g\<lparr>chars := m, nc := c, np1 := p, np2 := q\<rparr>) cs"
        by (rule "1.IH" [rule_format]) (use g1 prems le in auto)
      then show ?thesis using lexed_symbol [OF g1(1) True g1(4,5,6)] Cons by blast
    next
      case False
      from gettoken1_word [OF prems Cons False] obtain m p q where g1: "gettoken1 s (chars g) = Some ((TOK_WORD, p, q), m)"
        "cstr m q (dropWhile wordchar (c # cs))" "cstr m p (c # cs)" "unat q = unat p + length (takeWhile wordchar (c # cs))"
        "unat p + length (c # cs) = unat s + length xs" "unat s \<le> unat p" "\<forall>x. unat x < unat s \<longrightarrow> m x = chars g x" "ws (hd xs) \<longrightarrow> m s = 0"
        by blast
      have split: "length (takeWhile wordchar (c # cs)) + length (dropWhile wordchar (c # cs)) = length (c # cs)"
        using arg_cong [OF takeWhile_dropWhile_id [of wordchar "c # cs"], of length] by (simp only: length_append)
      have "\<not> ws c" using Cons by (metis hd_dropWhile list.distinct(1) list.sel(1))
      then have w: "length (takeWhile wordchar (c # cs)) > 0" using False by simp
      have "lexed q (g\<lparr>chars := m, nc := TOK_WORD, np1 := p, np2 := q\<rparr>) (dropWhile wordchar (c # cs))"
      proof (rule "1.IH" [rule_format])
        show "length (dropWhile wordchar (c # cs)) < length xs" using split w le by linarith
        show "unat q + length (dropWhile wordchar (c # cs)) < 4294967296" using split g1(4,5) prems(2) by linarith
        show "q \<noteq> 0" using g1(4) w by (metis add_gr_0 less_irrefl unat_0)
      qed (use g1 in simp)
      then show ?thesis using lexed_word [OF g1(1) False Cons g1(3,4,6) _ g1(7,8)] g1(5) prems(2) by simp
    qed
  qed
qed

section \<open>Parsing and running\<close>

lemma parsecmd_words:
  "all_tokens (toks sh) = Some (ts, g) \<Longrightarrow> \<forall>t\<in>set ts. fst t = TOK_WORD \<Longrightarrow> length argv + length ts \<le> MAXARGS \<Longrightarrow>
   parsecmd E me argv r sh = Some (Parsed me (argv @ map snd ts) r, sh\<lparr>toks := g\<rparr>)"
proof (induction ts arbitrary: sh argv)
  case Nil
  obtain g' where "gettoken (toks sh) = Some ((0, np1 (toks sh)), g')" "g' = g"
    using Nil.prems(1) by (subst (asm) all_tokens.simps) (auto simp: gettoken_def split: bind_splits if_splits)
  then show ?case by (subst parsecmd.simps) (simp add: next_token_def)
next
  case (Cons t ts)
  obtain g' where g': "gettoken (toks sh) = Some (t, g')" "all_tokens g' = Some (ts, g)"
    using Cons.prems(1) by (subst (asm) all_tokens.simps) (auto split: bind_splits if_splits)
  obtain p where t: "t = (TOK_WORD, p)" using Cons.prems(2) by (cases t) auto
  have "parsecmd E me (argv @ [p]) r (sh\<lparr>toks := g'\<rparr>) = Some (Parsed me ((argv @ [p]) @ map snd ts) r, sh\<lparr>toks := g'\<rparr>\<lparr>toks := g\<rparr>)"
    by (rule Cons.IH) (use g' Cons.prems in auto)
  then show ?case using g' Cons.prems t by (subst parsecmd.simps) (simp add: next_token_def)
qed

lemma parsecmd_too_many:
  "all_tokens (toks sh) = Some (ts, g) \<Longrightarrow> \<forall>t\<in>set ts. fst t = TOK_WORD \<Longrightarrow> length argv \<le> MAXARGS \<Longrightarrow> length argv + length ts > MAXARGS \<Longrightarrow>
   \<exists>g'. parsecmd E me argv r sh = do { sh \<leftarrow> sh_exit E me (sh\<lparr>toks := g'\<rparr>); Some (Exited, sh) }"
proof (induction ts arbitrary: sh argv)
  case (Cons t ts)
  obtain g' where g': "gettoken (toks sh) = Some (t, g')" "all_tokens g' = Some (ts, g)"
    using Cons.prems(1) by (subst (asm) all_tokens.simps) (auto split: bind_splits if_splits)
  obtain p where t: "t = (TOK_WORD, p)" using Cons.prems(2) by (cases t) auto
  show ?case
  proof (cases "length argv = MAXARGS")
    case True
    then show ?thesis using g' t by (subst parsecmd.simps) (auto simp: next_token_def)
  next
    case False
    have "\<exists>g''. parsecmd E me (argv @ [p]) r (sh\<lparr>toks := g'\<rparr>) = do { sh \<leftarrow> sh_exit E me (sh\<lparr>toks := g'\<rparr>\<lparr>toks := g''\<rparr>); Some (Exited, sh) }"
      by (rule Cons.IH) (use g' Cons.prems False in auto)
    then show ?thesis using g' Cons.prems t False by (subst parsecmd.simps) (auto simp: next_token_def)
  qed
qed simp

lemma path_at_cstr: "cstr m a xs \<Longrightarrow> length xs < n \<Longrightarrow> path_at n m a = Some xs"
proof (induction xs arbitrary: a n)
  case Nil
  then show ?case by (cases n) auto
next
  case (Cons x xs)
  then show ?case by (cases n) auto
qed

lemma lex_word_length: "(c, w) \<in> set (lex xs) \<Longrightarrow> length w \<le> length xs"
proof (induction xs rule: length_induct)
  case (1 xs)
  show ?case
  proof (cases "dropWhile ws xs")
    case Nil
    then show ?thesis using "1.prems" lex_nil by simp
  next
    case (Cons d ds)
    have le: "length (d # ds) \<le> length xs" using length_dropWhile_le [of ws xs] Cons by simp
    show ?thesis
    proof (cases "sym d")
      case True
      then show ?thesis using "1.prems" "1.IH" [rule_format, of ds] le lex_sym [OF Cons True] by auto
    next
      case False
      have "\<not> ws d" using Cons by (metis hd_dropWhile list.distinct(1) list.sel(1))
      then have "length (dropWhile wordchar (d # ds)) \<le> length ds" using False length_dropWhile_le [of wordchar ds] by simp
      moreover have "w = takeWhile wordchar (d # ds) \<or> (c, w) \<in> set (lex (dropWhile wordchar (d # ds)))"
        using "1.prems" lex_word [OF Cons False] by (simp only: list.set) blast
      ultimately show ?thesis using "1.IH" [rule_format, of "dropWhile wordchar (d # ds)"] le length_takeWhile_le [of wordchar "d # ds"] by fastforce
    qed
  qed
qed

lemma words_at:
  assumes "list_all2 (token_in m) (map (Pair TOK_WORD) args) ts" "\<forall>w\<in>set args. length w < 1024" "m = chars (toks sh)"
  shows "those (map (\<lambda>t. word_at t sh) (map snd ts)) = Some args"
  using assms
  by (induction args arbitrary: ts) (auto simp: list_all2_Cons1 token_in_def word_at_def path_at_cstr)

lemma words_codes: "list_all2 (token_in m) (map (Pair TOK_WORD) args) ts \<Longrightarrow> \<forall>t\<in>set ts. fst t = TOK_WORD"
  by (induction args arbitrary: ts) (fastforce simp: list_all2_Cons1 token_in_def)+

text \<open>
  C14 (runcmd_words): a line of words runs the program its first word names with all of them as arguments, up to \<open>MAXARGS - 1\<close> of them; an empty line
  does nothing, more than \<open>MAXARGS\<close> words end the child, and exactly \<open>MAXARGS\<close> words store the terminator outside of \<open>argv\<close>.
\<close>

theorem runcmd_words:
  assumes "cstr (chars (toks sh)) s xs" "unat s + length xs < 4294967296" "s \<noteq> 0" "length xs < 1024" "lex xs = map (Pair TOK_WORD) args"
  shows "\<exists>g. runcmd E me s sh = (
    if args = [] then Some (False, sh\<lparr>toks := g\<rparr>)
    else if length args < MAXARGS then map_option (Pair True) (run_argv E me 0 args (sh\<lparr>toks := g\<rparr>))
    else if length args = MAXARGS then None
    else map_option (Pair True) (sh_exit E me (sh\<lparr>toks := g\<rparr>)))"
proof -
  from tokenize_lex [OF assms(1-3)] obtain ts g where t: "tokenize s (toks sh) = Some (ts, g)" "list_all2 (token_in (chars g)) (lex xs) ts"
    by (auto simp: lexed_def)
  then obtain g0 where g0: "gettoken_init s (toks sh) = Some g0" "all_tokens g0 = Some (ts, g)"
    by (auto simp: tokenize_def split: bind_splits)
  have "\<forall>w\<in>set args. length w < 1024"
    using lex_word_length [of TOK_WORD _ xs] assms(4,5) by (auto intro: le_less_trans)
  then have w: "those (map (\<lambda>t. word_at t (sh\<lparr>toks := g\<rparr>)) (map snd ts)) = Some args"
    by (intro words_at [of "chars g"]) (use t(2) assms(5) in simp_all)
  have codes: "\<forall>t\<in>set ts. fst t = TOK_WORD" "length ts = length args"
    using words_codes [of "chars g" args ts] list_all2_lengthD [OF t(2)] t(2) assms(5) by simp_all
  show ?thesis
  proof (cases "length args \<le> MAXARGS")
    case True
    then have "parsecmd E me [] 0 (sh\<lparr>toks := g0\<rparr>) = Some (Parsed me (map snd ts) 0, sh\<lparr>toks := g\<rparr>)"
      using parsecmd_words [of "sh\<lparr>toks := g0\<rparr>" ts g "[]" E me 0] g0(2) codes by simp
    then show ?thesis using g0(1) w codes(2) True by (intro exI [of _ g]) (auto simp: runcmd_def map_conv_bind_option comp_def)
  next
    case False
    then obtain g' where "parsecmd E me [] 0 (sh\<lparr>toks := g0\<rparr>) = do { sh \<leftarrow> sh_exit E me (sh\<lparr>toks := g'\<rparr>); Some (Exited, sh) }"
      using parsecmd_too_many [of "sh\<lparr>toks := g0\<rparr>" ts g "[]" E me 0] g0(2) codes by auto
    then show ?thesis using g0(1) False by (intro exI [of _ g']) (auto simp: runcmd_def map_conv_bind_option comp_def)
  qed
qed

text \<open>
  C15 (gettoken_lexes): the calls of \<open>gettoken\<close> on a line end and return the tokens of the line in order, and every word is a terminated string
  when they have.
\<close>

theorem gettoken_lexes:
  assumes "cstr (chars g) s xs" "unat s + length xs < 4294967296" "s \<noteq> 0"
  shows "\<exists>ts g'. tokenize s g = Some (ts, g') \<and> list_all2 (token_in (chars g')) (lex xs) ts \<and> (\<forall>x. unat x < unat s \<longrightarrow> chars g' x = chars g x)"
  using tokenize_lex [OF assms] by (auto simp: lexed_def)

text \<open>Three tokens, \<open>ls |c\<close>, and two words.\<close>

definition line_tokens :: "u8 list \<Rightarrow> tokens" where
  "line_tokens xs = \<lparr>chars = (\<lambda>a. if 16 \<le> a \<and> unat a - 16 < length xs then xs ! (unat a - 16) else 0), nc = 0, np1 = 0, np2 = 0\<rparr>"

theorem gettoken_lexes_witness:
  "\<exists>ts g'. tokenize 16 (line_tokens [108, 115, 32, 124, 99]) = Some (ts, g')
     \<and> list_all2 (token_in (chars g')) [(TOK_WORD, [108, 115]), (124, []), (TOK_WORD, [99])] ts"
proof -
  have "lex [108, 115, 32, 124, 99] = [(TOK_WORD, [108, 115]), (124, []), (TOK_WORD, [99])]" by code_simp
  then show ?thesis
    using gettoken_lexes [of "line_tokens [108, 115, 32, 124, 99]" 16 "[108, 115, 32, 124, 99]"] by (auto simp: line_tokens_def)
qed

theorem runcmd_words_witness:
  "\<forall>E me w. \<exists>g. runcmd E me 16 \<lparr>toks = line_tokens [108, 115, 32, 97], world = w\<rparr>
     = map_option (Pair True) (run_argv E me 0 [[108, 115], [97]] \<lparr>toks = g, world = w\<rparr>)"
proof (intro allI)
  fix E me w
  have "lex [108, 115, 32, 97] = map (Pair TOK_WORD) [[108, 115], [97]]" by code_simp
  then show "\<exists>g. runcmd E me 16 \<lparr>toks = line_tokens [108, 115, 32, 97], world = w\<rparr>
     = map_option (Pair True) (run_argv E me 0 [[108, 115], [97]] \<lparr>toks = g, world = w\<rparr>)"
    using runcmd_words [of "\<lparr>toks = line_tokens [108, 115, 32, 97], world = w\<rparr>" 16 "[108, 115, 32, 97]" "[[108, 115], [97]]" E me]
    by (auto simp: line_tokens_def MAXARGS_def)
qed

section \<open>Line editing\<close>

definition edit1 :: "u8 list \<Rightarrow> u8 \<Rightarrow> u8 list" where
  "edit1 l b = (if backspace b then butlast l else l @ [b])"

text \<open>The first \<open>n\<close> bytes from \<open>buf\<close> on.\<close>

definition typed :: "u32 \<Rightarrow> u8 list \<Rightarrow> bmem \<Rightarrow> bool" where
  "typed buf l m \<longleftrightarrow> (\<forall>i<length l. m (buf + word_of_nat i) = l ! i \<and> l ! i \<noteq> 0 \<and> \<not> newline (l ! i))"

lemma buf_index: "unat (buf :: u32) + n < 4294967296 \<Longrightarrow> i \<le> n \<Longrightarrow> unat (buf + word_of_nat i) = unat buf + i"
  by (simp add: unat_word_ariths unat_of_nat)

lemma index_inj: "i < 4294967296 \<Longrightarrow> j < 4294967296 \<Longrightarrow> (word_of_nat i :: u32) = word_of_nat j \<longleftrightarrow> i = j"
  by (auto simp: word_unat_eq_iff unat_of_nat)

lemma before_buf: "unat (buf :: u32) + n < 4294967296 \<Longrightarrow> i < n \<Longrightarrow> buf - 1 \<noteq> buf + word_of_nat i"
proof
  assume a: "unat buf + n < 4294967296" "i < n" "buf - 1 = buf + word_of_nat i"
  then have "word_of_nat (Suc i) = (word_of_nat 0 :: u32)" by (simp add: algebra_simps)
  then show False using index_inj [of "Suc i" 0] a(1,2) by simp
qed

lemma typed_put:
  "typed buf l m \<Longrightarrow> unat buf + n < 4294967296 \<Longrightarrow> length l < n \<Longrightarrow> typed buf l (m(buf + word_of_nat (length l) := c))"
  by (auto simp: typed_def index_inj)

lemma typed_snoc:
  "typed buf l m \<Longrightarrow> unat buf + n < 4294967296 \<Longrightarrow> length l < n \<Longrightarrow> c \<noteq> 0 \<Longrightarrow> \<not> newline c \<Longrightarrow>
   typed buf (l @ [c]) (m(buf + word_of_nat (length l) := c))"
  by (auto simp: typed_def index_inj nth_append less_Suc_eq)

lemma typed_butlast: "typed buf l m \<Longrightarrow> typed buf (butlast l) m"
  by (auto simp: typed_def nth_butlast)

lemma typed_cstr: "typed buf l m \<Longrightarrow> m (buf + word_of_nat (length l)) = 0 \<Longrightarrow> cstr m buf l"
proof (induction l arbitrary: buf)
  case (Cons x l)
  have "typed (buf + 1) l m"
    unfolding typed_def
  proof (intro allI impI)
    fix i
    assume "i < length l"
    then show "m (buf + 1 + word_of_nat i) = l ! i \<and> l ! i \<noteq> 0 \<and> \<not> newline (l ! i)"
      using Cons.prems(1) [unfolded typed_def, rule_format, of "Suc i"] by (simp add: algebra_simps)
  qed
  moreover have "m (buf + 1 + word_of_nat (length l)) = 0" using Cons.prems(2) by (simp add: algebra_simps)
  ultimately show ?case using Cons.IH [of "buf + 1"] Cons.prems(1) [unfolded typed_def, rule_format, of 0] by simp
qed simp

lemma backspace_not_newline: "backspace b \<Longrightarrow> \<not> newline b"
  by (auto simp: backspace_def newline_def)

text \<open>One read that does not end the line.\<close>

lemma readline_step:
  assumes t: "typed buf l m" and n: "unat buf + n < 4294967296" "length l < n" and before: "\<not> newline (m (buf - 1))"
    and inp: "inp k = (1, b)" "b \<noteq> 0" "\<not> newline b"
  shows "\<exists>m'. readline_loop inp buf n (length l) k m = readline_loop inp buf n (length (edit1 l b)) (Suc k) m' \<and> typed buf (edit1 l b) m'
    \<and> (\<forall>x. x \<noteq> buf + word_of_nat (length l) \<longrightarrow> m' x = m x)"
proof -
  let ?m = "m(buf + word_of_nat (length l) := b)"
  have before': "\<not> newline (?m (buf - 1))" using before before_buf [OF n] by simp
  have typed: "typed buf l ?m" using typed_put [OF t n] .
  show ?thesis
  proof (cases "backspace b")
    case False
    then have "typed buf (edit1 l b) ?m" using typed_snoc [OF t n inp(2,3)] by (simp add: edit1_def)
    then show ?thesis using False n inp by (intro exI [of _ ?m]) (subst readline_loop.simps, simp add: edit1_def nat_add_distrib)
  next
    case True
    let ?i = "if 0 < length l then int (length l) - 2 else - 1"
    have "\<not> newline (?m (buf + word_of_int ?i))"
    proof (cases "length l \<ge> 2")
      case True
      then have "word_of_int ?i = (word_of_nat (length l - 2) :: u32)" by (cases l) (auto simp: of_nat_diff)
      then show ?thesis using typed True by (auto simp: typed_def dest: spec [of _ "length l - 2"])
    next
      case False
      then have "?i = - 1" by (auto simp: not_le less_Suc_eq numeral_2_eq_2)
      then show ?thesis using before' by simp
    qed
    moreover have "nat (?i + 1) = length (edit1 l b)" using True by (cases "length l \<ge> 2") (auto simp: edit1_def)
    moreover have "typed buf (edit1 l b) ?m" using typed_butlast [OF typed] True by (simp add: edit1_def)
    ultimately show ?thesis using True n inp by (intro exI [of _ ?m]) (subst readline_loop.simps, simp only: Let_def prod.case if_True, simp)
  qed
qed

lemma readline_line:
  assumes "typed buf l m" "unat buf + n < 4294967296" "\<not> newline (m (buf - 1))"
    and "\<forall>j<length xs. inp (k + j) = (1, xs ! j)" "inp (k + length xs) = (1, c)" "newline c" "\<forall>b\<in>set xs. b \<noteq> 0 \<and> \<not> newline b"
    and "\<forall>j\<le>length xs. length (foldl edit1 l (take j xs)) < n"
  shows "\<exists>m'. readline_loop inp buf n (length l) k m = Some (True, k + length xs + 1, m') \<and> cstr m' buf (foldl edit1 l xs)
    \<and> (\<forall>x. (\<forall>i<n. x \<noteq> buf + word_of_nat i) \<longrightarrow> m' x = m x)"
  using assms
proof (induction xs arbitrary: l m k)
  case Nil
  let ?e = "buf + word_of_nat (length l)"
  have len: "length l < n" using Nil.prems(8) by simp
  define m' where "m' = m(?e := 0)"
  have "readline_loop inp buf n (length l) k m = Some (True, Suc k, m')"
    using Nil.prems(5,6) len backspace_not_newline [of c] by (subst readline_loop.simps) (auto simp: m'_def)
  moreover have "cstr m' buf l" by (rule typed_cstr) (use typed_put [OF Nil.prems(1,2) len] in \<open>simp_all add: m'_def\<close>)
  moreover have "m' x = m x" if "\<forall>i<n. x \<noteq> buf + word_of_nat i" for x using that len by (simp add: m'_def)
  ultimately show ?case by (intro exI [of _ m']) simp
next
  case (Cons b xs)
  have len: "length l < n" using Cons.prems(8) by (auto dest: spec [of _ 0])
  from readline_step [OF Cons.prems(1,2) len Cons.prems(3), of inp k b] obtain m1 where
    m1: "readline_loop inp buf n (length l) k m = readline_loop inp buf n (length (edit1 l b)) (Suc k) m1" "typed buf (edit1 l b) m1"
      "\<forall>x. x \<noteq> buf + word_of_nat (length l) \<longrightarrow> m1 x = m x"
    using Cons.prems(7) Cons.prems(4) [rule_format, of 0] by auto
  have "\<exists>m'. readline_loop inp buf n (length (edit1 l b)) (Suc k) m1 = Some (True, Suc k + length xs + 1, m')
    \<and> cstr m' buf (foldl edit1 (edit1 l b) xs) \<and> (\<forall>x. (\<forall>i<n. x \<noteq> buf + word_of_nat i) \<longrightarrow> m' x = m1 x)"
  proof (rule Cons.IH [OF m1(2) Cons.prems(2) _ _ _ Cons.prems(6)])
    show "\<not> newline (m1 (buf - 1))" using m1(3) before_buf [OF Cons.prems(2) len] Cons.prems(3) by simp
    show "\<forall>j<length xs. inp (Suc k + j) = (1, xs ! j)"
    proof (intro allI impI)
      fix j
      assume "j < length xs"
      then show "inp (Suc k + j) = (1, xs ! j)" using Cons.prems(4) [rule_format, of "Suc j"] by simp
    qed
    show "inp (Suc k + length xs) = (1, c)" using Cons.prems(5) by simp
    show "\<forall>b\<in>set xs. b \<noteq> 0 \<and> \<not> newline b" using Cons.prems(7) by simp
    show "\<forall>j\<le>length xs. length (foldl edit1 (edit1 l b) (take j xs)) < n"
    proof (intro allI impI)
      fix j
      assume "j \<le> length xs"
      then show "length (foldl edit1 (edit1 l b) (take j xs)) < n" using Cons.prems(8) [rule_format, of "Suc j"] by simp
    qed
  qed
  then show ?case using m1(1,3) len by auto
qed



end
