(* ===== verification/Env_Ids.thy ===== *)
theory Env_Ids
  imports Env
begin

text \<open>
  Identifiers of environments: the bitmap of address space ids behaves as a set from which the
  smallest free id is taken, environment ids carry the index of their slot and differ between
  successive users of a slot, and \<open>envid2env\<close> finds live environments only and enforces the
  permission check.
\<close>

section \<open>The ASID bitmap as a set\<close>

definition bm_set :: "u32 list \<Rightarrow> nat set" where
  "bm_set bm = {i. i < NASID \<and> bit (bm ! (i div 32)) (i mod 32)}"

definition asids :: "kstate \<Rightarrow> nat set" where
  "asids s = bm_set (asid_bitmap s)"

lemma and_push_bit: "(w :: u32) AND push_bit n 1 = 0 \<longleftrightarrow> \<not> bit w n"
  by (simp add: and_exp_eq_0_iff_not_bit)

lemma bm_index: "i < NASID \<Longrightarrow> j < NASID \<Longrightarrow> i div 32 = j div 32 \<Longrightarrow> i mod 32 = j mod 32 \<Longrightarrow> i = j"
  by (metis div_mult_mod_eq)

lemma bm_set_insert:
  assumes "length bm = 2" and "i < NASID"
  shows "bm_set (bm[i div 32 := bm ! (i div 32) OR push_bit (i mod 32) 1]) = insert i (bm_set bm)"
proof -
  have len: "j div 32 < length bm" if "j < NASID" for j using that assms(1) by (simp add: NASID_def)
  have "bit (bm[i div 32 := bm ! (i div 32) OR push_bit (i mod 32) 1] ! (j div 32)) (j mod 32)
      \<longleftrightarrow> j = i \<or> bit (bm ! (j div 32)) (j mod 32)" if "j < NASID" for j
  proof (cases "j div 32 = i div 32")
    case True
    then have "j mod 32 = i mod 32 \<longleftrightarrow> j = i" using bm_index that assms(2) by metis
    with True show ?thesis using len [OF that] by (auto simp: bit_simps)
  next
    case False
    then show ?thesis by auto
  qed
  then show ?thesis using assms(2) by (auto simp: bm_set_def)
qed

lemma bm_set_remove:
  assumes "length bm = 2" and "i < NASID"
  shows "bm_set (bm[i div 32 := bm ! (i div 32) AND NOT (push_bit (i mod 32) 1)]) = bm_set bm - {i}"
proof -
  have len: "j div 32 < length bm" if "j < NASID" for j using that assms(1) by (simp add: NASID_def)
  have "bit (bm[i div 32 := bm ! (i div 32) AND NOT (push_bit (i mod 32) 1)] ! (j div 32)) (j mod 32)
      \<longleftrightarrow> j \<noteq> i \<and> bit (bm ! (j div 32)) (j mod 32)" if "j < NASID" for j
  proof (cases "j div 32 = i div 32")
    case True
    then have "j mod 32 = i mod 32 \<longleftrightarrow> j = i" using bm_index that assms(2) by metis
    with True show ?thesis using len [OF that] by (auto simp: bit_simps)
  next
    case False
    then show ?thesis by auto
  qed
  then show ?thesis using assms(2) by (auto simp: bm_set_def)
qed

lemma asid_scan_spec:
  assumes "length bm = 2" and "\<forall>i\<in>set is. i < NASID"
  shows "case asid_scan is bm of
      (Inl x, bm') \<Rightarrow> x = E_NO_FREE_ENV \<and> bm' = bm \<and> set is \<subseteq> bm_set bm
    | (Inr a, bm') \<Rightarrow> length bm' = 2 \<and> unat a \<in> set is - bm_set bm \<and> bm_set bm' = insert (unat a) (bm_set bm)
        \<and> set (takeWhile (\<lambda>i. i \<noteq> unat a) is) \<subseteq> bm_set bm"
  using assms(2)
proof (induction "is")
  case (Cons i "is")
  then have i: "i < NASID" by simp
  show ?case
  proof (cases "i \<in> bm_set bm")
    case True
    then have "asid_scan (i # is) bm = asid_scan is bm"
      unfolding asid_scan.simps Let_def and_push_bit using i by (simp add: bm_set_def)
    with Cons True show ?thesis
      by (auto split: prod.splits sum.splits)
  next
    case False
    then have "bm ! (i div 32) AND push_bit (i mod 32) 1 = 0"
      unfolding and_push_bit using i by (simp add: bm_set_def)
    moreover have "unat (word_of_nat i :: u32) = i" using i by (simp add: NASID_def unat_of_nat)
    ultimately show ?thesis
      using False bm_set_insert [OF assms(1) i] assms(1) by (simp add: Let_def)
  qed
qed simp

lemma takeWhile_upt: "n \<le> m \<Longrightarrow> takeWhile (\<lambda>i. i \<noteq> n) [0..<m] = [0..<n]"
proof (induction m)
  case (Suc m)
  then show ?case by (cases "n = Suc m") (auto simp: takeWhile_append)
qed simp

section \<open>Environment ids\<close>

lemma ENVX_mod: "ENVX envid = unat envid mod 1024"
proof -
  have m: "(word_of_nat (NENV - 1) :: u32) = mask 10" by (simp add: NENV_def mask_eq_exp_minus_1)
  have "envid AND mask 10 = take_bit 10 envid" by (simp add: take_bit_eq_mask)
  then show ?thesis unfolding ENVX_def m by (simp add: unat_take)
qed

lemma ENVX_less: "ENVX envid < NENV"
  by (simp add: ENVX_mod NENV_def)

lemma unat_envid:
  assumes "e < NENV"
  shows "unat (push_bit (1 + LOG2NENV) (i :: u32) OR word_of_nat e) = unat i mod 2 ^ 21 * 2048 + e"
proof -
  have "push_bit 11 i AND word_of_nat e = (0 :: u32)"
  proof (rule bit_word_eqI)
    fix n :: nat
    assume "n < LENGTH(32)"
    have "\<not> bit (word_of_nat e :: u32) n" if "11 \<le> n"
    proof -
      have "e < 2 ^ n"
        using assms that power_increasing [of 11 n "2 :: nat"] by (simp add: NENV_def)
      moreover have "unat (word_of_nat e :: u32) = e" using assms by (simp add: NENV_def unat_of_nat)
      ultimately have "\<not> bit (unat (word_of_nat e :: u32)) n" by (simp add: bit_iff_odd)
      then show ?thesis by (auto simp: bit_unsigned_iff dest: bit_imp_le_length)
    qed
    then show "bit (push_bit 11 i AND word_of_nat e) n = bit (0 :: u32) n"
      by (auto simp: bit_simps)
  qed
  then have "push_bit 11 i OR word_of_nat e = push_bit 11 i + (word_of_nat e :: u32)"
    by (simp add: disjunctive_add_eq_or)
  moreover have "unat (push_bit 11 i) = unat i mod 2 ^ 21 * 2048"
  proof -
    have "unat (push_bit 11 i) = unat i * 2048 mod (2 ^ 21 * 2048)"
      by (simp add: push_bit_eq_mult unat_word_ariths mult.commute)
    then show ?thesis by (simp only: mult_mod_left)
  qed
  moreover have "unat i mod 2 ^ 21 * 2048 + e < 2 ^ 32"
  proof -
    have "unat i mod 2 ^ 21 \<le> 2 ^ 21 - 1" by simp
    then have "unat i mod 2 ^ 21 * 2048 \<le> (2 ^ 21 - 1) * 2048" by (rule mult_le_mono1)
    then show ?thesis using assms by (simp add: NENV_def)
  qed
  moreover have "unat (word_of_nat e :: u32) = e" using assms by (simp add: NENV_def unat_of_nat)
  ultimately show ?thesis by (simp add: LOG2NENV_def unat_word_ariths)
qed

lemma mkenvid_unat:
  "e < NENV \<Longrightarrow> unat (fst (mkenvid e s)) = unat (mkenvid_i s + 1) mod 2 ^ 21 * 2048 + e"
  using unat_envid [of e "mkenvid_i s + 1"] by (simp add: mkenvid_def Let_def)

lemma ENVX_mkenvid: "e < NENV \<Longrightarrow> ENVX (fst (mkenvid e s)) = e"
  using mkenvid_unat [of e s] mod_mult_self3 [of "unat (mkenvid_i s + 1) mod 2 ^ 21 * 2" 1024 e]
  by (simp add: ENVX_mod NENV_def mult.commute)

lemma asid_alloc_spec:
  assumes "length (asid_bitmap s) = 2"
  shows "case asid_alloc s of
      (Inl x, s') \<Rightarrow> x = E_NO_FREE_ENV \<and> s' = s \<and> asids s = {..<64}
    | (Inr a, s') \<Rightarrow> unat a < 64 \<and> unat a \<notin> asids s \<and> {..<unat a} \<subseteq> asids s
        \<and> asids s' = insert (unat a) (asids s) \<and> length (asid_bitmap s') = 2
        \<and> asids (asid_free a s') = asids s"
proof -
  let ?r = "asid_scan [0..<NASID] (asid_bitmap s)"
  obtain r bm where scan: "?r = (r, bm)" by fastforce
  have spec: "case (r, bm) of
      (Inl x, bm') \<Rightarrow> x = E_NO_FREE_ENV \<and> bm' = asid_bitmap s \<and> set [0..<NASID] \<subseteq> bm_set (asid_bitmap s)
    | (Inr a, bm') \<Rightarrow> length bm' = 2 \<and> unat a \<in> set [0..<NASID] - bm_set (asid_bitmap s)
        \<and> bm_set bm' = insert (unat a) (bm_set (asid_bitmap s))
        \<and> set (takeWhile (\<lambda>i. i \<noteq> unat a) [0..<NASID]) \<subseteq> bm_set (asid_bitmap s)"
    using asid_scan_spec [OF assms, of "[0..<NASID]"] scan by simp
  show ?thesis
  proof (cases r)
    case (Inl x)
    with spec scan show ?thesis
      by (auto simp: asid_alloc_def asids_def bm_set_def NASID_def)
  next
    case (Inr a)
    with spec have a: "unat a < 64" "unat a \<notin> bm_set (asid_bitmap s)" "length bm = 2"
      "bm_set bm = insert (unat a) (bm_set (asid_bitmap s))"
      "set (takeWhile (\<lambda>i. i \<noteq> unat a) [0..<64]) \<subseteq> bm_set (asid_bitmap s)"
      by (simp_all add: NASID_def)
    have min: "{..<unat a} \<subseteq> bm_set (asid_bitmap s)"
    proof
      fix i
      assume "i \<in> {..<unat a}"
      then have "i \<in> set (takeWhile (\<lambda>i. i \<noteq> unat a) [0..<64])"
        using a(1) by (simp add: takeWhile_upt)
      with a(5) show "i \<in> bm_set (asid_bitmap s)" ..
    qed
    have idx: "unat (drop_bit 5 a) = unat a div 32" "unat (a AND 31) = unat a mod 32"
    proof -
      have m: "(31 :: u32) = mask 5" by (simp add: mask_eq_exp_minus_1)
      show "unat (a AND 31) = unat a mod 32"
        unfolding m take_bit_eq_mask [symmetric] by (simp add: unat_take)
      show "unat (drop_bit 5 a) = unat a div 32" by (simp add: unat_drop)
    qed
    have "bm_set (bm[unat a div 32 := bm ! (unat a div 32) AND NOT (push_bit (unat a mod 32) 1)])
        = bm_set (asid_bitmap s)"
      using bm_set_remove [OF a(3), of "unat a"] a by (auto simp: NASID_def)
    with a min Inr scan show ?thesis
      by (simp add: asid_alloc_def asids_def asid_free_def idx Let_def)
  qed
qed

section \<open>Properties\<close>

text \<open>
  Allocation of address space ids. With a bitmap of two words, \<open>asid_alloc\<close> fails with \<open>E_NO_FREE_ENV\<close>
  exactly when all 64 ids are taken and then changes nothing; otherwise it returns the smallest
  free id, below 64, and takes exactly that one; freeing it gives the set of before.
\<close>

theorem asid_alloc_correct:
  assumes "length (asid_bitmap s) = 2"
  shows "case asid_alloc s of
      (Inl x, s') \<Rightarrow> x = E_NO_FREE_ENV \<and> s' = s \<and> asids s = {..<64}
    | (Inr a, s') \<Rightarrow> unat a < 64 \<and> unat a \<notin> asids s \<and> {..<unat a} \<subseteq> asids s
        \<and> asids s' = insert (unat a) (asids s) \<and> length (asid_bitmap s') = 2
        \<and> asids (asid_free a s') = asids s"
  using assms by (rule asid_alloc_spec)

theorem asid_alloc_correct_witness:
  "case asid_alloc k8 of
      (Inl x, s') \<Rightarrow> x = E_NO_FREE_ENV \<and> s' = k8 \<and> asids k8 = {..<64}
    | (Inr a, s') \<Rightarrow> unat a < 64 \<and> unat a \<notin> asids k8 \<and> {..<unat a} \<subseteq> asids k8
        \<and> asids s' = insert (unat a) (asids k8) \<and> length (asid_bitmap s') = 2
        \<and> asids (asid_free a s') = asids k8"
  by (rule asid_alloc_correct) simp

lemma mod_dvd_inc: "unat (i + 1 :: u32) mod 2 ^ 21 = (unat i + 1) mod 2 ^ 21"
  by (simp add: unat_word_ariths mod_mod_cancel)

lemma envid_split: "a * 2048 + e = b * 2048 + e' \<longleftrightarrow> a = b \<and> e = e'" if "e < NENV" "e' < NENV" for a b e e' :: nat
proof
  assume eq: "a * 2048 + e = b * 2048 + e'"
  have "a = (a * 2048 + e) div 2048" "b = (b * 2048 + e') div 2048" using that by (simp_all add: NENV_def)
  with eq have "a = b" by metis
  with eq show "a = b \<and> e = e'" by simp
qed simp

text \<open>
  C34 (mkenvid_unique). The id made for a slot leads back to the slot, and two ids are equal exactly
  when they were made for the same slot with counters that agree modulo \<open>2^21\<close>: ids of one slot do not
  repeat within \<open>2^21\<close> allocations.
\<close>

theorem mkenvid_unique:
  assumes "e < NENV" and "e' < NENV"
  shows "ENVX (fst (mkenvid e s)) = e
    \<and> (fst (mkenvid e s) = fst (mkenvid e' s')
        \<longleftrightarrow> e = e' \<and> unat (mkenvid_i s) mod 2 ^ 21 = unat (mkenvid_i s') mod 2 ^ 21)"
proof -
  have "ENVX (fst (mkenvid e s)) = e"
    using assms(1) by (rule ENVX_mkenvid)
  moreover have "fst (mkenvid e s) = fst (mkenvid e' s')
      \<longleftrightarrow> unat (fst (mkenvid e s)) = unat (fst (mkenvid e' s'))" by (rule word_unat_eq_iff)
  moreover have "unat (fst (mkenvid e s)) = unat (fst (mkenvid e' s'))
      \<longleftrightarrow> (unat (mkenvid_i s) + 1) mod 2 ^ 21 = (unat (mkenvid_i s') + 1) mod 2 ^ 21 \<and> e = e'"
    unfolding mkenvid_unat [OF assms(1)] mkenvid_unat [OF assms(2)] envid_split [OF assms] mod_dvd_inc ..
  moreover have "(a + 1) mod 2 ^ 21 = (b + 1) mod 2 ^ 21 \<longleftrightarrow> a mod 2 ^ 21 = b mod 2 ^ 21" for a b :: nat
    by (simp add: mod_Suc)
  ultimately show ?thesis by auto
qed

theorem mkenvid_unique_witness:
  "ENVX (fst (mkenvid 5 k8)) = 5
    \<and> (fst (mkenvid 5 k8) = fst (mkenvid 7 k8)
        \<longleftrightarrow> (5 :: nat) = 7 \<and> unat (mkenvid_i k8) mod 2 ^ 21 = unat (mkenvid_i k8) mod 2 ^ 21)"
  by (rule mkenvid_unique) (simp_all add: NENV_def)

text \<open>
  C35 (stale_envid_rejected). An id that was made for a slot before the slot got its present id is
  rejected with \<open>E_BAD_ENV\<close>, with or without the permission check, unless \<open>2^21\<close> ids have been made
  in between; a present id of a live environment is accepted without the check.
\<close>

theorem stale_envid_rejected:
  assumes "e < NENV" and "env_id (envs s e) = fst (mkenvid e t)"
    and "unat (mkenvid_i t') mod 2 ^ 21 \<noteq> unat (mkenvid_i t) mod 2 ^ 21"
    and "fst (mkenvid e t') \<noteq> 0" and "fst (mkenvid e t) \<noteq> 0" and "env_status (envs s e) \<noteq> ENV_FREE"
  shows "envid2env (fst (mkenvid e t')) checkperm s = Some (Inl E_BAD_ENV)
    \<and> envid2env (fst (mkenvid e t)) False s = Some (Inr (Some e))"
proof -
  have x: "ENVX (fst (mkenvid e u)) = e" for u
    using assms(1) by (rule ENVX_mkenvid)
  have "unat (fst (mkenvid e t)) \<noteq> unat (fst (mkenvid e t'))"
    unfolding mkenvid_unat [OF assms(1)] envid_split [OF assms(1) assms(1)] mod_dvd_inc
    using assms(3) by (simp add: mod_Suc)
  then have "fst (mkenvid e t) \<noteq> fst (mkenvid e t')" by auto
  with assms(2,4,5,6) x show ?thesis by (simp add: envid2env_def)
qed

theorem stale_envid_rejected_witness:
  "envid2env (fst (mkenvid 0 k8)) True k8 = Some (Inl E_BAD_ENV)
    \<and> envid2env (fst (mkenvid 0 (k8\<lparr>mkenvid_i := 0\<rparr>))) False k8 = Some (Inr (Some 0))"
  by (rule stale_envid_rejected) (simp_all add: NENV_def mkenvid_def LOG2NENV_def ENV_FREE_def ENV_RUNNABLE_def)

end
