(* ===== verification/Pmap_Dirs.thy ===== *)
theory Pmap_Dirs
  imports Pmap_Spec
begin

text \<open>
  Whole directories: a fresh page becomes a page directory, an empty page table is released, an
  empty page directory is released. These are the steps of \<open>env_setup_vm\<close> and \<open>env_free\<close>
  (\<open>kern/env.c\<close>) on the memory, shown to keep the invariant for the changed set of directories.
\<close>

section \<open>Releasing a page table\<close>

lemma clear_pde_cells:
  assumes tab: "table_inv D s" and d: "d \<in> D" "i < NUPDE" "pte_valid (kmem s d i)"
    and empty: "\<forall>j<1024. \<not> pte_valid (kmem s (PPN (kmem s d i)) j)"
  defines "t \<equiv> PPN (kmem s d i)" and "s' \<equiv> set_word d i 0 s"
  shows "is_table s' D u \<longleftrightarrow> is_table s D u \<and> u \<noteq> t"
    and "cells s' D \<subseteq> cells s D"
    and "refset s' D q = refset s D q - {(d, i)}"
proof -
  have row: "kmem s' x k = (if x = d \<and> k = i then 0 else kmem s x k)" for x k
    by (simp add: s'_def set_word_def)
  have tabs: "is_table s' D u \<longleftrightarrow> is_table s D u \<and> u \<noteq> t" for u
  proof
    assume "is_table s' D u"
    then obtain x k where x: "x \<in> D" "k < NUPDE" "pte_valid (kmem s' x k)" "PPN (kmem s' x k) = u"
      by (auto simp: is_table_def)
    then have ne: "\<not> (x = d \<and> k = i)" by (auto simp: row)
    with x have "pte_valid (kmem s x k)" "PPN (kmem s x k) = u" by (simp_all add: row)
    with x(1,2) ne d table_inv_inj [OF tab x(1,2) d(1,2)] show "is_table s D u \<and> u \<noteq> t"
      by (auto simp: is_table_def t_def)
  next
    assume "is_table s D u \<and> u \<noteq> t"
    then obtain x k where "x \<in> D" "k < NUPDE" "pte_valid (kmem s x k)" "PPN (kmem s x k) = u" "u \<noteq> t"
      by (auto simp: is_table_def)
    then show "is_table s' D u"
      by (auto simp: is_table_def row t_def intro!: bexI [of _ x] exI [of _ k])
  qed
  then show "is_table s' D u \<longleftrightarrow> is_table s D u \<and> u \<noteq> t" .
  from tabs show cel: "cells s' D \<subseteq> cells s D" by (auto simp: cells_def)
  have tD: "t \<notin> D" using tab is_tableI [of d D i s] d by (auto simp: table_inv_def t_def)
  have "c \<in> cells s' D" if "c \<in> cells s D" "pte_valid (kmem s (fst c) (snd c))" for c
    using that empty tabs by (cases c) (auto simp: cells_def t_def)
  with cel show "refset s' D q = refset s D q - {(d, i)}"
    by (auto simp: refset_def row)
qed

lemma clear_pde_table_inv:
  assumes tab: "table_inv D s" and d: "d \<in> D" "i < NUPDE" "pte_valid (kmem s d i)"
    and empty: "\<forall>j<1024. \<not> pte_valid (kmem s (PPN (kmem s d i)) j)"
  shows "table_inv D (set_word d i 0 s)"
proof -
  let ?s = "set_word d i 0 s"
  note cl = clear_pde_cells [OF assms]
  have row: "kmem ?s x k = (if x = d \<and> k = i then 0 else kmem s x k)" for x k
    by (simp add: set_word_def)
  have range: "PPN (kmem ?s (fst c) (snd c)) < npage s" if "c \<in> cells ?s D" "pte_valid (kmem ?s (fst c) (snd c))" for c
    using that cl(2) tab by (auto simp: table_inv_def row split: if_splits)
  have notdir: "\<forall>u. is_table ?s D u \<longrightarrow> u \<notin> D" using cl(1) tab by (auto simp: table_inv_def)
  have inj: "x = x' \<and> k = k'" if "x \<in> D" "k < NUPDE" "x' \<in> D" "k' < NUPDE"
      "pte_valid (kmem ?s x k)" "pte_valid (kmem ?s x' k')" "PPN (kmem ?s x k) = PPN (kmem ?s x' k')" for x k x' k'
  proof -
    have "kmem ?s x k = kmem s x k" "kmem ?s x' k' = kmem s x' k'" using that(5,6) by (auto simp: row)
    with that show ?thesis by (intro table_inv_inj [OF tab that(1-4)]) simp_all
  qed
  show ?thesis
  proof (rule table_invI)
    show "finite D" using tab by (simp add: table_inv_def)
    show "d' < npage ?s" if "d' \<in> D" for d' using that tab by (simp add: table_inv_def)
    show "u \<notin> D" if "is_table ?s D u" for u using that notdir by blast
  qed (use range inj in simp_all)
qed

lemma release_table:
  assumes inv: "mem_inv ext D s" and d: "d \<in> D" "i < NUPDE" "pte_valid (kmem s d i)"
    and empty: "\<forall>j<1024. \<not> pte_valid (kmem s (PPN (kmem s d i)) j)"
  obtains s' where "page_decref (PPN (kmem s d i)) (set_word d i 0 s) = Some s'" and "mem_inv ext D s'"
    and "kmem s' = kmem (set_word d i 0 s)"
    and "\<And>d' i' j. d' \<in> D \<Longrightarrow> i' < NUPDE \<Longrightarrow> j < 1024 \<Longrightarrow> aspace s' d' i' j = aspace s d' i' j"
proof -
  let ?t = "PPN (kmem s d i)" and ?s = "set_word d i 0 s"
  from inv have tab: "table_inv D s" and free: "free_inv s" and ref: "ref_inv ext D s"
    and np: "npage s \<le> 2 ^ 20" and fin: "finite D"
    by (auto simp: mem_inv_def table_inv_def)
  note cl = clear_pde_cells [OF tab d empty]
  have tab1: "table_inv D ?s" using clear_pde_table_inv [OF tab d empty] .
  have free1: "free_inv ?s" using free by (simp add: free_inv_def)
  have t: "?t < npage s" using dir_entry_range [OF tab d] .
  have mem: "(d, i) \<in> refset s D ?t" using d by (simp add: refset_def cells_def)
  then have card: "card (refset s D ?t) > 0" using fin finite_refset card_gt_0_iff by blast
  then have nz: "pp_ref s ?t \<noteq> 0" using ref t by (auto simp: ref_inv_def)
  from page_decref_spec [OF free1, of ?t] t nz obtain s' where
    s': "page_decref ?t ?s = Some s'" "free_inv s'"
      "s' = ?s\<lparr>page_free_list := page_free_list s', pp_ref := (pp_ref ?s)(?t := pp_ref ?s ?t - 1)\<rparr>"
    by (metis set_word_fields(1,3))
  have km: "kmem s' = kmem ?s" and n': "npage s' = npage s" and pr: "pp_ref s' = (pp_ref s)(?t := pp_ref s ?t - 1)"
    using arg_cong [OF s'(3), of kmem] arg_cong [OF s'(3), of npage] arg_cong [OF s'(3), of pp_ref] by simp_all
  have "table_inv D s'" using tab1 same_kmem_table_inv [OF km] n' by simp
  moreover have "ref_inv ext D s'"
  proof -
    have "refset s' D q = refset s D q - {(d, i)}" for q
      using cl(3) same_kmem(3) [OF km] by simp
    moreover have "(d, i) \<in> refset s D q \<longleftrightarrow> q = ?t" for q using mem by (auto simp: refset_def)
    moreover have "unat (pp_ref s ?t - 1) = unat (pp_ref s ?t) - 1" using nz by (rule unat_dec)
    ultimately show ?thesis
      using ref fin card pr n' by (auto simp: ref_inv_def)
  qed
  ultimately have "mem_inv ext D s'" using np n' s'(2) by (simp add: mem_inv_def)
  moreover have "aspace s' d' i' j = aspace s d' i' j" if "d' \<in> D" "i' < NUPDE" "j < 1024" for d' i' j
  proof -
    have row: "kmem ?s x k = (if x = d \<and> k = i then 0 else kmem s x k)" for x k by (simp add: set_word_def)
    have "pte_valid (kmem s d' i') \<Longrightarrow> PPN (kmem s d' i') \<noteq> d"
      using tab is_tableI [OF that(1,2)] d(1) by (auto simp: table_inv_def)
    then have "aspace ?s d' i' j = aspace s d' i' j"
      using empty that(3) by (auto simp: aspace_def Let_def row)
    then show ?thesis using same_kmem(4) [OF km] by simp
  qed
  ultimately show thesis using that s'(1) km by blast
qed

section \<open>Directories\<close>

lemma add_directory:
  assumes inv: "mem_inv ext D s" and p: "fresh_page s p"
    and s': "npage s' = npage s" "page_free_list s' = page_free_list s" "pp_ref s' = (pp_ref s)(p := 1)"
      "\<And>x. x \<noteq> p \<Longrightarrow> kmem s' x = kmem s x" "\<And>i. i < NUPDE \<Longrightarrow> \<not> pte_valid (kmem s' p i)"
  shows "mem_inv ext (insert p D) s'" and "p \<notin> D"
    and "d \<in> D \<Longrightarrow> i < NUPDE \<Longrightarrow> aspace s' d i j = aspace s d i j"
    and "i < NUPDE \<Longrightarrow> aspace s' p i j = None" and "is_table s' (insert p D) t = is_table s D t"
proof -
  from p have pn: "p < npage s" "pp_ref s p = 0" "p \<notin> on_free_list s" by (simp_all add: fresh_page_def)
  note unref = free_unreferenced [OF inv pn(1,2)]
  from inv have tab: "table_inv D s" and free: "free_inv s" and ref: "ref_inv ext D s" and np: "npage s \<le> 2 ^ 20"
    by (simp_all add: mem_inv_def)
  show pD: "p \<notin> D" by (rule unref(2))
  have row: "kmem s' x = kmem s x" if "x \<in> D" for x using s'(4) that pD by metis
  have tabs: "is_table s' (insert p D) t = is_table s D t" for t
    using s'(5) row by (auto simp: is_table_def)
  then show "is_table s' (insert p D) t = is_table s D t" .
  have tp: "is_table s D t \<Longrightarrow> t \<noteq> p" for t using unref(4) by auto
  have cel: "cells s' (insert p D) = cells s D \<union> {p} \<times> {..<NUPDE}" by (auto simp: cells_def tabs)
  have inD: "fst c \<noteq> p" if "c \<in> cells s D" for c using that pD unref(4) by (auto simp: cells_def)
  have refs: "refset s' (insert p D) q = refset s D q" for q
    using s'(4,5) inD by (auto simp: refset_def cel)
  have "table_inv (insert p D) s'"
  proof (rule table_invI)
    show "finite (insert p D)" using tab by (simp add: table_inv_def)
    show "d < npage s'" if "d \<in> insert p D" for d using that tab pn s'(1) by (auto simp: table_inv_def)
    show "PPN (kmem s' (fst c) (snd c)) < npage s'"
      if "c \<in> cells s' (insert p D)" "pte_valid (kmem s' (fst c) (snd c))" for c
    proof -
      have "c \<in> cells s D" using that s'(5) unfolding cel by force
      with that(2) tab s'(1) s'(4) [OF inD] show ?thesis by (auto simp: table_inv_def)
    qed
    show "t \<notin> insert p D" if "is_table s' (insert p D) t" for t
      using that tab tp by (auto simp: tabs table_inv_def)
    fix d i d' i'
    assume "d \<in> insert p D" "i < NUPDE" "d' \<in> insert p D" "i' < NUPDE"
      and v: "pte_valid (kmem s' d i)" "pte_valid (kmem s' d' i')" "PPN (kmem s' d i) = PPN (kmem s' d' i')"
    then have "d \<in> D" "d' \<in> D" using s'(5) by blast+
    with v row \<open>i < NUPDE\<close> \<open>i' < NUPDE\<close> show "d = d' \<and> i = i'"
      by (intro table_inv_inj [OF tab]) simp_all
  qed
  moreover have "free_inv s'"
  proof -
    from free obtain xs where xs: "LIST_rep (page_free_list s) xs" "\<forall>q\<in>set xs. q < npage s \<and> pp_ref s q = 0"
      by (auto simp: free_inv_def)
    then have "p \<notin> set xs" using pn(3) by (simp add: on_free_list_eq)
    then show ?thesis using xs s'(1-3) unfolding free_inv_def by (intro exI [of _ xs]) auto
  qed
  moreover have "ref_inv ext (insert p D) s'"
    using ref s'(1,3) pD unref by (auto simp: ref_inv_def refs)
  ultimately show "mem_inv ext (insert p D) s'" using np s'(1) by (simp add: mem_inv_def)
  show "aspace s' d i j = aspace s d i j" if d: "d \<in> D" "i < NUPDE"
  proof -
    have "kmem s' (PPN (kmem s d i)) = kmem s (PPN (kmem s d i))" if "pte_valid (kmem s d i)"
      using s'(4) tp is_tableI [OF d that] by blast
    then show ?thesis using row d(1) by (auto simp: aspace_def Let_def)
  qed
  show "i < NUPDE \<Longrightarrow> aspace s' p i j = None" using s'(5) by (simp add: aspace_def)
qed

lemma del_directory:
  assumes inv: "mem_inv ext D s" and d: "d \<in> D" and empty: "\<forall>i<NUPDE. \<not> pte_valid (kmem s d i)"
  obtains s' where "page_decref d s = Some s'" and "mem_inv ext (D - {d}) s'" and "kmem s' = kmem s"
    and "on_free_list s' = on_free_list s \<union> (if pp_ref s d = 1 then {d} else {})"
proof -
  from inv have tab: "table_inv D s" and free: "free_inv s" and ref: "ref_inv ext D s" and np: "npage s \<le> 2 ^ 20"
    by (simp_all add: mem_inv_def)
  have dn: "d < npage s" using tab d by (simp add: table_inv_def)
  then have cnt: "unat (pp_ref s d) = card (refset s D d) + 1 + ext d" using ref d by (simp add: ref_inv_def)
  then have nz: "pp_ref s d \<noteq> 0" by auto
  from page_decref_spec [OF free dn nz] obtain s' where s': "page_decref d s = Some s'" "free_inv s'"
      "s' = s\<lparr>page_free_list := page_free_list s', pp_ref := (pp_ref s)(d := pp_ref s d - 1)\<rparr>"
      "on_free_list s' = on_free_list s \<union> (if pp_ref s d = 1 then {d} else {})"
    by blast
  have km: "kmem s' = kmem s" and n': "npage s' = npage s" and pr: "pp_ref s' = (pp_ref s)(d := pp_ref s d - 1)"
    using arg_cong [OF s'(3), of kmem] arg_cong [OF s'(3), of npage] arg_cong [OF s'(3), of pp_ref] by simp_all
  have tabs: "is_table s (D - {d}) t = is_table s D t" for t
    using empty by (auto simp: is_table_def)
  have cel: "cells s D = cells s (D - {d}) \<union> {d} \<times> {..<NUPDE}"
    using d by (auto simp: cells_def tabs)
  have refs: "refset s (D - {d}) q = refset s D q" for q
    using empty by (auto simp: refset_def cel)
  have "table_inv (D - {d}) s"
    using tab unfolding table_inv_def tabs by (auto simp: cel)
  then have "table_inv (D - {d}) s'" by (simp add: same_kmem_table_inv [OF km n'])
  moreover have "ref_inv ext (D - {d}) s'"
    using ref cnt unat_dec [OF nz] same_kmem(3) [OF km] pr n' d by (auto simp: ref_inv_def refs)
  ultimately have "mem_inv ext (D - {d}) s'" using np n' s'(2) by (simp add: mem_inv_def)
  with s' km that show thesis by blast
qed

end
