(* ===== verification/Env_Mem.thy ===== *)
theory Env_Mem
  imports Env_Ids Pmap_Dirs
begin

text \<open>
  Creation and destruction of address spaces: \<open>env_alloc\<close> gives a new environment an empty address
  space of its own, \<open>env_free\<close> unmaps every page, releases every page table and the directory, and
  returns the environment to the free list; both keep the memory invariant.
\<close>

section \<open>Frames\<close>

lemma mem_frame_kstate:
  assumes "mem_frame (s :: kstate) s'"
  shows "envs s' = envs s" "curenv s' = curenv s" "env_free_list s' = env_free_list s"
    "env_sched_list s' = env_sched_list s" "base_pgdir s' = base_pgdir s" "asid_bitmap s' = asid_bitmap s"
    "mkenvid_i s' = mkenvid_i s" "sched_count s' = sched_count s" "kstack_tf s' = kstack_tf s"
    "cpu_tf s' = cpu_tf s" "entryhi s' = entryhi s" "cons_out s' = cons_out s" "cons_in s' = cons_in s"
    "npage s' = npage s" "cur_pgdir s' = cur_pgdir s" "mmio s' = mmio s"
  using assms by (cases s; cases s'; simp add: mem_frame_def)+

lemma upd_env_fields [simp]:
  "npage (upd_env e f s) = npage s" "kmem (upd_env e f s) = kmem s" "pp_ref (upd_env e f s) = pp_ref s"
  "page_free_list (upd_env e f s) = page_free_list s" "tlb (upd_env e f s) = tlb s"
  "cur_pgdir (upd_env e f s) = cur_pgdir s" "curenv (upd_env e f s) = curenv s"
  "env_free_list (upd_env e f s) = env_free_list s" "env_sched_list (upd_env e f s) = env_sched_list s"
  "base_pgdir (upd_env e f s) = base_pgdir s" "asid_bitmap (upd_env e f s) = asid_bitmap s"
  "mkenvid_i (upd_env e f s) = mkenvid_i s" "kstack_tf (upd_env e f s) = kstack_tf s"
  "sched_count (upd_env e f s) = sched_count s"
  "envs (upd_env e f s) = (envs s)(e := f (envs s e))"
  by (simp_all add: upd_env_def)

lemma upd_env_entryhi [simp]: "entryhi (upd_env e f s) = entryhi s"
  by (simp add: upd_env_def)

lemma upd_env_mem [simp]:
  "mem_inv ext D (upd_env e f s) = mem_inv ext D s" "aspace (upd_env e f s) = aspace s"
  "on_free_list (upd_env e f s) = on_free_list s" "fresh_page (upd_env e f s) = fresh_page s"
  using same_kmem_mem_inv [of "upd_env e f s" s] same_kmem(4) [of "upd_env e f s" s]
  by (simp_all add: on_free_list_def fresh_page_def fun_eq_iff)

section \<open>Destruction\<close>

lemma free_env_log: "\<exists>out. format (''[%08x] free env %08x'' @ [CHR 0x0A]) [ArgInt a, ArgInt b] = Some out"
  by (simp add: format_def get_spec_def convert_def is_digit_def ch_def)

lemma env_va:
  assumes "i < NUPDE" and "j < 1024"
  defines "va \<equiv> push_bit PDSHIFT (word_of_nat i) OR push_bit PGSHIFT (word_of_nat j) :: u32"
  shows "PDX va = i" "PTX va = j" "va < UTOP"
proof -
  have i: "i < 1024" using assms(1) by (simp add: NUPDE_def PDX_div mmu_defs)
  have small: "\<not> bit (word_of_nat k :: u32) n" if "k < 1024" "10 \<le> n" for k n
  proof -
    have "k < 2 ^ n" using that power_increasing [of 10 n "2 :: nat"] by simp
    moreover have "unat (word_of_nat k :: u32) = k" using that by (simp add: unat_of_nat)
    ultimately have "\<not> bit (unat (word_of_nat k :: u32)) n" by (simp add: bit_iff_odd)
    then show ?thesis by (auto simp: bit_unsigned_iff dest: bit_imp_le_length)
  qed
  have "push_bit 22 (word_of_nat i) AND push_bit 12 (word_of_nat j) = (0 :: u32)"
    using small [OF assms(2)] by (intro bit_word_eqI) (auto simp: bit_simps)
  then have "va = push_bit 22 (word_of_nat i) + push_bit 12 (word_of_nat j)"
    by (simp add: va_def PDSHIFT_def PGSHIFT_def disjunctive_add_eq_or)
  moreover have "unat (push_bit 22 (word_of_nat i) :: u32) = i * 4194304"
    "unat (push_bit 12 (word_of_nat j) :: u32) = j * 4096"
    using i assms(2) by (simp_all add: push_bit_eq_mult unat_word_ariths unat_of_nat)
  moreover have "i * 4194304 + j * 4096 < 4294967296"
  proof -
    have "i * 4194304 \<le> 1023 * 4194304" using i by (intro mult_le_mono1) simp
    moreover have "j * 4096 \<le> 1023 * 4096" using assms(2) by (intro mult_le_mono1) simp
    ultimately show ?thesis by linarith
  qed
  ultimately have u: "unat va = i * 4194304 + j * 4096" by (simp add: unat_word_ariths)
  have jb: "j * 4096 < 4194304" using assms(2) by simp
  show "PDX va = i" unfolding PDX_div u using jb by (simp add: div_eq_0_iff)
  then show "va < UTOP" using assms(1) by (simp add: PDX_user NUPDE_def)
  have "i * 4194304 + j * 4096 = (i * 1024 + j) * 4096" by simp
  then show "PTX va = j" unfolding PTX_div u using assms(2) by (simp only: nonzero_mult_div_cancel_right) simp
qed

text \<open>The inner loop unmaps the first \<open>n\<close> pages of a table.\<close>

lemma free_ptes:
  fixes s :: kstate
  assumes inv: "mem_inv ext D s" and d: "d \<in> D" "i < NUPDE" "pte_valid (kmem s d i)"
    and pg: "env_pgdir (envs s e) = d" and n: "n \<le> 1024"
  shows "\<exists>s'. ofold (free_pte e (PPN (kmem s d i)) i) [0..<n] s = Some s' \<and> mem_inv ext D s' \<and> mem_frame s s'
    \<and> (\<forall>x\<in>D. \<forall>k. kmem s' x k = kmem s x k)
    \<and> (\<forall>d'\<in>D. \<forall>i'<NUPDE. \<forall>j. aspace s' d' i' j = (if d' = d \<and> i' = i \<and> j < n then None else aspace s d' i' j))"
  using n
proof (induction n)
  case 0
  then show ?case using inv by simp
next
  case (Suc n)
  let ?t = "PPN (kmem s d i)"
  let ?va = "push_bit PDSHIFT (word_of_nat i) OR push_bit PGSHIFT (word_of_nat n) :: u32"
  from Suc obtain s1 where s1: "ofold (free_pte e ?t i) [0..<n] s = Some s1" "mem_inv ext D s1" "mem_frame s s1"
    "\<forall>x\<in>D. \<forall>k. kmem s1 x k = kmem s x k"
    "\<forall>d'\<in>D. \<forall>i'<NUPDE. \<forall>j. aspace s1 d' i' j = (if d' = d \<and> i' = i \<and> j < n then None else aspace s d' i' j)"
    by auto
  have n1: "n < 1024" using Suc.prems by simp
  note va = env_va [OF d(2) n1]
  have pg1: "env_pgdir (envs s1 e) = d" using pg mem_frame_kstate(1) [OF s1(3)] by simp
  show ?case
  proof (cases "aspace s1 d i n")
    case None
    then have "free_pte e ?t i n s1 = Some s1"
      using d(1,3) s1(4) by (auto simp: free_pte_def aspace_def Let_def split: if_splits)
    moreover have "aspace s1 d' i' j = (if d' = d \<and> i' = i \<and> j < Suc n then None else aspace s d' i' j)"
      if "d' \<in> D" "i' < NUPDE" for d' i' j
      using s1(5) that None by (auto simp: less_Suc_eq)
    ultimately show ?thesis using s1 by (intro exI [of _ s1]) (simp add: ofold_append)
  next
    case (Some pte)
    then have v: "pte_valid (kmem s1 ?t n)"
      using s1(4) d(1) by (auto simp: aspace_def Let_def split: if_splits)
    have m: "aspace s1 d (PDX ?va) (PTX ?va) = Some pte" using Some va by simp
    from page_remove_mapped [OF s1(2) d(1) va(3) m, of "env_asid (envs s1 e)"] obtain s2 where
      s2: "page_remove d (env_asid (envs s1 e)) ?va s1 = Some s2" "mem_inv ext D s2"
        "\<And>d' i' j. d' \<in> D \<Longrightarrow> i' < NUPDE \<Longrightarrow> aspace s2 d' i' j
          = (if d' = d \<and> i' = i \<and> j = n then None else aspace s1 d' i' j)"
        "\<And>x k. x \<in> D \<Longrightarrow> kmem s2 x k = kmem s1 x k"
      using va d(1) by metis
    have "free_pte e ?t i n s1 = Some s2" using v pg1 s2(1) by (simp add: free_pte_def)
    moreover have "mem_frame s s2" using s1(3) page_remove_frame [OF s2(1)] by (rule mem_frame_trans)
    moreover have "aspace s2 d' i' j = (if d' = d \<and> i' = i \<and> j < Suc n then None else aspace s d' i' j)"
      if "d' \<in> D" "i' < NUPDE" for d' i' j
      using s2(3) [OF that] s1(5) that by (auto simp: less_Suc_eq)
    ultimately show ?thesis using s1 s2 by (intro exI [of _ s2]) (simp add: ofold_append)
  qed
qed

text \<open>The outer loop empties the first \<open>n\<close> entries of the directory.\<close>

lemma free_pde_step:
  fixes s :: kstate
  assumes inv: "mem_inv ext D s" and d: "d \<in> D" "i < NUPDE" and pg: "env_pgdir (envs s e) = d"
  obtains s' where "free_pde e i s = Some s'" and "mem_inv ext D s'" and "mem_frame s s'"
    and "\<not> pte_valid (kmem s' d i)"
    and "\<And>d' i' j. d' \<in> D \<Longrightarrow> i' < NUPDE \<Longrightarrow> j < 1024 \<Longrightarrow> aspace s' d' i' j = (if d' = d \<and> i' = i then None else aspace s d' i' j)"
    and "\<And>i'. \<not> pte_valid (kmem s d i') \<Longrightarrow> \<not> pte_valid (kmem s' d i')"
    and "\<And>x k. x \<in> D - {d} \<Longrightarrow> kmem s' x k = kmem s x k"
proof (cases "pte_valid (kmem s d i)")
  case False
  then have "free_pde e i s = Some s" by (simp add: free_pde_def pg)
  moreover have "aspace s d i j = None" for j using False by (simp add: aspace_def)
  ultimately show thesis using inv False by (intro that [of s]) auto
next
  case True
  let ?t = "PPN (kmem s d i)"
  from inv have tab: "table_inv D s" and np: "npage s \<le> 2 ^ 20" by (simp_all add: mem_inv_def)
  have t: "?t < npage s" using dir_entry_range [OF tab d True] .
  have "(NOT 0 :: u32) = 0xFFFFFFFF" by simp
  then have "PTX (NOT 0) = 1023" unfolding PTX_div by (simp only:) simp
  then have top: "[0..<PTX (NOT 0) + 1] = [0..<1024]" by (simp only:) simp
  from free_ptes [OF inv d True pg, of 1024] obtain s1 where
    s1: "ofold (free_pte e ?t i) [0..<1024] s = Some s1" "mem_inv ext D s1" "mem_frame s s1"
      "\<forall>x\<in>D. \<forall>k. kmem s1 x k = kmem s x k"
      "\<forall>d'\<in>D. \<forall>i'<NUPDE. \<forall>j. aspace s1 d' i' j = (if d' = d \<and> i' = i \<and> j < 1024 then None else aspace s d' i' j)"
    by auto
  have "\<not> pte_valid (kmem s1 (PPN (kmem s1 d i)) j)" if "j < 1024" for j
    using s1(4,5) d that True by (auto simp: aspace_def Let_def split: if_splits)
  moreover have v1: "pte_valid (kmem s1 d i)" using s1(4) d(1) True by simp
  ultimately obtain s2 where s2: "page_decref ?t (set_word d i 0 s1) = Some s2" "mem_inv ext D s2"
      "kmem s2 = kmem (set_word d i 0 s1)"
      "\<And>d' i' j. d' \<in> D \<Longrightarrow> i' < NUPDE \<Longrightarrow> j < 1024 \<Longrightarrow> aspace s2 d' i' j = aspace s1 d' i' j"
    using release_table [OF s1(2) d, of thesis] s1(4) d(1) by force
  define s3 where "s3 = tlb_invalidate (env_asid (envs s2 e)) (UVPT + push_bit PGSHIFT (word_of_nat i)) s2"
  have fr1: "npage s1 = npage s" "envs s1 = envs s" using mem_frame_kstate [OF s1(3)] by simp_all
  have fr2: "mem_frame s s2"
    using s1(3) page_decref_frame [OF s2(1)] by (simp add: mem_frame_def set_word_def)
  have "free_pde e i s = Some s3"
    unfolding free_pde_def pg top using True t s1(1) s2(1) fr1 pg
    by (simp add: pa2page_def s3_def set_word_def)
  moreover have "kmem s3 x i' = (if x = d \<and> i' = i then 0 else kmem s x i')" if "x \<in> D" for x i'
    using s2(3) s1(4) that by (auto simp: s3_def set_word_def)
  moreover have "aspace s3 d' i' j = (if d' = d \<and> i' = i then None else aspace s d' i' j)"
    if "d' \<in> D" "i' < NUPDE" "j < 1024" for d' i' j
    using s2(4) [OF that] s1(5) that by (simp add: s3_def)
  ultimately show thesis
    using s2(2) fr2 d(1) by (intro that [of s3]) (simp_all add: s3_def split: if_splits)
qed

lemma free_pdes:
  fixes s :: kstate
  assumes inv: "mem_inv ext D s" and d: "d \<in> D" and pg: "env_pgdir (envs s e) = d" and n: "n \<le> NUPDE"
  shows "\<exists>s'. ofold (free_pde e) [0..<n] s = Some s' \<and> mem_inv ext D s' \<and> mem_frame s s'
    \<and> (\<forall>i<n. \<not> pte_valid (kmem s' d i)) \<and> (\<forall>x\<in>D - {d}. \<forall>k. kmem s' x k = kmem s x k)
    \<and> (\<forall>d'\<in>D. \<forall>i<NUPDE. \<forall>j<1024. aspace s' d' i j = (if d' = d \<and> i < n then None else aspace s d' i j))"
  using n
proof (induction n)
  case 0
  then show ?case using inv by simp
next
  case (Suc n)
  then obtain s1 where s1: "ofold (free_pde e) [0..<n] s = Some s1" "mem_inv ext D s1" "mem_frame s s1"
    "\<forall>i<n. \<not> pte_valid (kmem s1 d i)" "\<forall>x\<in>D - {d}. \<forall>k. kmem s1 x k = kmem s x k"
    "\<forall>d'\<in>D. \<forall>i<NUPDE. \<forall>j<1024. aspace s1 d' i j = (if d' = d \<and> i < n then None else aspace s d' i j)"
    by auto
  have n1: "n < NUPDE" using Suc.prems by simp
  have pg1: "env_pgdir (envs s1 e) = d" using pg mem_frame_kstate(1) [OF s1(3)] by simp
  from free_pde_step [OF s1(2) d n1 pg1] obtain s2 where
    s2: "free_pde e n s1 = Some s2" "mem_inv ext D s2" "mem_frame s1 s2" "\<not> pte_valid (kmem s2 d n)"
      "\<And>d' i' j. d' \<in> D \<Longrightarrow> i' < NUPDE \<Longrightarrow> j < 1024 \<Longrightarrow> aspace s2 d' i' j = (if d' = d \<and> i' = n then None else aspace s1 d' i' j)"
      "\<And>i'. \<not> pte_valid (kmem s1 d i') \<Longrightarrow> \<not> pte_valid (kmem s2 d i')"
      "\<And>x k. x \<in> D - {d} \<Longrightarrow> kmem s2 x k = kmem s1 x k"
    by metis
  have "mem_frame s s2" using s1(3) s2(3) by (rule mem_frame_trans)
  moreover have "aspace s2 d' i j = (if d' = d \<and> i < Suc n then None else aspace s d' i j)"
    if "d' \<in> D" "i < NUPDE" "j < 1024" for d' i j
    using s2(5) [OF that] s1(6) that by (auto simp: less_Suc_eq)
  ultimately show ?case
    using s1 s2 by (intro exI [of _ s2]) (auto simp: ofold_append less_Suc_eq)
qed

lemma asid_free_asids:
  assumes "length (asid_bitmap s) = 2" and "unat a < NASID"
  shows "asids (asid_free a s) = asids s - {unat a}" and "length (asid_bitmap (asid_free a s)) = 2"
proof -
  have m: "(31 :: u32) = mask 5" by (simp add: mask_eq_exp_minus_1)
  have "unat (a AND 31) = unat a mod 32" unfolding m take_bit_eq_mask [symmetric] by (simp add: unat_take)
  then show "asids (asid_free a s) = asids s - {unat a}"
    using bm_set_remove [OF assms] by (simp add: asids_def asid_free_def Let_def unat_drop)
  show "length (asid_bitmap (asid_free a s)) = 2" using assms by (simp add: asid_free_def Let_def)
qed

lemma asid_free_fields [simp]:
  "npage (asid_free a s) = npage s" "kmem (asid_free a s) = kmem s" "pp_ref (asid_free a s) = pp_ref s"
  "page_free_list (asid_free a s) = page_free_list s" "envs (asid_free a s) = envs s"
  "env_free_list (asid_free a s) = env_free_list s" "env_sched_list (asid_free a s) = env_sched_list s"
  "curenv (asid_free a s) = curenv s" "base_pgdir (asid_free a s) = base_pgdir s"
  "cur_pgdir (asid_free a s) = cur_pgdir s" "entryhi (asid_free a s) = entryhi s" "kstack_tf (asid_free a s) = kstack_tf s"
  by (simp_all add: asid_free_def Let_def)

lemma tlb_invalidate_kstate [simp]:
  fixes s :: kstate
  shows "envs (tlb_invalidate a va s) = envs s" "env_free_list (tlb_invalidate a va s) = env_free_list s"
    "env_sched_list (tlb_invalidate a va s) = env_sched_list s" "curenv (tlb_invalidate a va s) = curenv s"
    "asid_bitmap (tlb_invalidate a va s) = asid_bitmap s" "base_pgdir (tlb_invalidate a va s) = base_pgdir s"
    "cur_pgdir (tlb_invalidate a va s) = cur_pgdir s" "entryhi (tlb_invalidate a va s) = entryhi s"
    "kstack_tf (tlb_invalidate a va s) = kstack_tf s"
  by (simp_all add: tlb_invalidate_def tlb_out_def)

lemma env_free_spec:
  assumes inv: "mem_inv ext D s" and d: "env_pgdir (envs s e) = d" "d \<in> D"
    and sl: "TAILQ_rep (env_sched_list s) sl" "e \<in> set sl"
    and fl: "LIST_rep (env_free_list s) fl" "e \<notin> set fl"
    and bm: "length (asid_bitmap s) = 2" "unat (env_asid (envs s e)) < NASID"
  obtains s' where "env_free e s = Some s'" and "mem_inv ext (D - {d}) s'"
    and "\<And>d' i j. d' \<in> D - {d} \<Longrightarrow> i < NUPDE \<Longrightarrow> j < 1024 \<Longrightarrow> aspace s' d' i j = aspace s d' i j"
    and "TAILQ_rep (env_sched_list s') (remove1 e sl)" and "LIST_rep (env_free_list s') (e # fl)"
    and "envs s' = (envs s)(e := (envs s e)\<lparr>env_status := ENV_FREE\<rparr>)" and "curenv s' = curenv s"
    and "asids s' = asids s - {unat (env_asid (envs s e))}" and "length (asid_bitmap s') = 2"
    and "\<And>x k. x \<in> D - {d} \<Longrightarrow> kmem s' x k = kmem s x k"
    and "npage s' = npage s" and "base_pgdir s' = base_pgdir s" and "cur_pgdir s' = cur_pgdir s"
    and "entryhi s' = entryhi s" and "kstack_tf s' = kstack_tf s"
proof -
  obtain out where out: "format (''[%08x] free env %08x'' @ [CHR 0x0A])
      [ArgInt (case curenv s of Some c \<Rightarrow> env_id (envs s c) | None \<Rightarrow> 0), ArgInt (env_id (envs s e))] = Some out"
    using free_env_log by blast
  define s0 where "s0 = s\<lparr>cons_out := cons_out s @ out\<rparr>"
  have f0: "kmem s0 = kmem s" "npage s0 = npage s" "pp_ref s0 = pp_ref s" "page_free_list s0 = page_free_list s"
    "envs s0 = envs s" "env_sched_list s0 = env_sched_list s" "env_free_list s0 = env_free_list s"
    "asid_bitmap s0 = asid_bitmap s" "curenv s0 = curenv s"
    by (simp_all add: s0_def)
  have inv0: "mem_inv ext D s0" using inv same_kmem_mem_inv [OF f0(1-4)] by simp
  have pg0: "env_pgdir (envs s0 e) = d" using d f0 by simp
  from free_pdes [OF inv0 d(2) pg0 order_refl] obtain s1 where
    s1: "ofold (free_pde e) [0..<NUPDE] s0 = Some s1" "mem_inv ext D s1" "mem_frame s0 s1"
      "\<forall>i<NUPDE. \<not> pte_valid (kmem s1 d i)" "\<forall>x\<in>D - {d}. \<forall>k. kmem s1 x k = kmem s0 x k"
      "\<forall>d'\<in>D. \<forall>i<NUPDE. \<forall>j<1024. aspace s1 d' i j = (if d' = d \<and> i < NUPDE then None else aspace s0 d' i j)"
    by blast
  from del_directory [OF s1(2) d(2) s1(4)] obtain s2 where
    s2: "page_decref d s1 = Some s2" "mem_inv ext (D - {d}) s2" "kmem s2 = kmem s1"
    by metis
  have fr: "mem_frame s0 s2" using s1(3) page_decref_frame [OF s2(1)] by (rule mem_frame_trans)
  note k1 = mem_frame_kstate [OF s1(3)] and k2 = mem_frame_kstate [OF fr]
  have dn: "d < npage s" "npage s \<le> 2 ^ 20" using inv d(2) by (auto simp: mem_inv_def table_inv_def)
  then have pa: "pa2page (npage s1) (page2pa d) = Some d" using k1 f0 by (intro pa2page_page2pa) simp_all
  from tq.remove_member [OF sl] obtain q where q: "TAILQ_REMOVE e (env_sched_list s) = Some q" "TAILQ_rep q (remove1 e sl)"
    by blast
  define a where "a = env_asid (envs s e)"
  define s3 where "s3 = tlb_invalidate a (UVPT + push_bit PGSHIFT (word_of_nat (PDX UVPT))) (asid_free a s2)"
  define s' where "s' = (upd_env e (\<lambda>e. e\<lparr>env_status := ENV_FREE\<rparr>) s3)
    \<lparr>env_free_list := LIST_INSERT_HEAD e (env_free_list s), env_sched_list := q\<rparr>"
  have free: "env_free e s = Some s'"
    unfolding env_free_def printk_def out using s1(1) pa s2(1) q(1) k1(1) k2 f0 d(1)
    by (simp add: s'_def s3_def a_def NUPDE_def flip: s0_def)
  have km: "kmem s' = kmem s2" "npage s' = npage s2" "pp_ref s' = pp_ref s2" "page_free_list s' = page_free_list s2"
    by (simp_all add: s'_def s3_def)
  have inv': "mem_inv ext (D - {d}) s'" using s2(2) same_kmem_mem_inv [OF km] by simp
  have asp: "aspace s' d' i j = aspace s d' i j" if "d' \<in> D - {d}" "i < NUPDE" "j < 1024" for d' i j
    using s1(6) that same_kmem(4) [of s' s1] same_kmem(4) [OF f0(1)] km(1) s2(3) by simp
  have "asids (asid_free a s2) = asids s2 - {unat a}" "length (asid_bitmap (asid_free a s2)) = 2"
    using asid_free_asids [of s2 a] bm k2 f0 by (simp_all add: a_def)
  then have as: "asids s' = asids s - {unat a}" "length (asid_bitmap s') = 2"
    using k2(6) f0(8) by (simp_all add: asids_def s'_def s3_def)
  have rows: "kmem s' x k = kmem s x k" if "x \<in> D - {d}" for x k
    using s1(5) that km(1) s2(3) f0(1) by simp
  have fs: "npage s' = npage s" "base_pgdir s' = base_pgdir s" "cur_pgdir s' = cur_pgdir s" "entryhi s' = entryhi s"
    "kstack_tf s' = kstack_tf s"
    using k2 by (simp_all add: s'_def s3_def s0_def)
  show thesis
    using that [OF free inv' asp _ _ _ _ _ _ rows fs] q(2) as lst.rep_insert_head [OF fl] k2 f0
    by (simp add: s'_def s3_def a_def)
qed

section \<open>Allocation\<close>

lemma copy_pdes_loop:
  fixes s :: kstate and a :: nat
  assumes "src \<noteq> dst"
  defines "F \<equiv> \<lambda>b. fold (\<lambda>i s. set_word dst i (kmem s src i) s) [a..<b] s"
  shows "kmem (F b) = (kmem s)(dst := (\<lambda>i. if a \<le> i \<and> i < b then kmem s src i else kmem s dst i))"
    and "mem_frame s (F b)" and "pp_ref (F b) = pp_ref s" and "page_free_list (F b) = page_free_list s"
proof (induction b)
  case 0
  show "kmem (F 0) = (kmem s)(dst := (\<lambda>i. if a \<le> i \<and> i < 0 then kmem s src i else kmem s dst i))"
    "mem_frame s (F 0)" "pp_ref (F 0) = pp_ref s" "page_free_list (F 0) = page_free_list s"
    by (simp_all add: F_def)
next
  case (Suc b)
  have step: "F (Suc b) = (if a \<le> b then set_word dst b (kmem (F b) src b) (F b) else F b)"
    by (simp add: F_def)
  have "kmem (F b) src b = kmem s src b" using Suc(1) assms(1) by simp
  then have "kmem (F (Suc b)) = (if a \<le> b then (kmem (F b))(dst := (kmem (F b) dst)(b := kmem s src b)) else kmem (F b))"
    unfolding step by (simp add: set_word_def)
  then show "kmem (F (Suc b)) = (kmem s)(dst := (\<lambda>i. if a \<le> i \<and> i < Suc b then kmem s src i else kmem s dst i))"
    unfolding Suc(1) by (auto simp: fun_eq_iff less_Suc_eq)
  show "mem_frame s (F (Suc b))" "pp_ref (F (Suc b)) = pp_ref s" "page_free_list (F (Suc b)) = page_free_list s"
    unfolding step using Suc(2-4) by simp_all
qed

lemmas copy_pdes_spec = copy_pdes_loop [where a = "PDX UTOP" and b = "PDX UVPT", folded copy_pdes_def]

lemma env_setup_vm_spec:
  assumes inv: "mem_inv ext D s" and free: "on_free_list s \<noteq> {}" and base: "base_pgdir s \<notin> on_free_list s"
    and small: "npage s \<le> 2 ^ 19"
  obtains p s' where "env_setup_vm e s = Some (Inr (), s')" and "p \<in> on_free_list s" and "p \<notin> D"
    and "mem_inv ext (insert p D) s'"
    and "\<And>d i j. d \<in> D \<Longrightarrow> i < NUPDE \<Longrightarrow> j < 1024 \<Longrightarrow> aspace s' d i j = aspace s d i j"
    and "\<And>i j. i < NUPDE \<Longrightarrow> aspace s' p i j = None"
    and "\<And>i. PDX UTOP \<le> i \<Longrightarrow> i < PDX UVPT \<Longrightarrow> kmem s' p i = kmem s (base_pgdir s) i"
    and "mem_frame (upd_env e (\<lambda>x. x\<lparr>env_pgdir := p\<rparr>) s) s'"
    and "on_free_list s' = on_free_list s - {p}"
    and "\<And>t. is_table s' (insert p D) t \<Longrightarrow> is_table s D t"
proof -
  from page_alloc_nonempty [OF inv free] obtain p s1 where
    alloc: "page_alloc s = Some (Inr p, s1)" "mem_inv ext D s1" "fresh_page s1 p" and
    fl: "p \<in> on_free_list s" "on_free_list s1 = on_free_list s - {p}" and
    same: "same_tables s s1 D" and
    s1: "s1 = s\<lparr>page_free_list := page_free_list s1, kmem := (kmem s)(p := (\<lambda>_. 0))\<rparr>"
    by blast
  have k1: "npage s1 = npage s" "base_pgdir s1 = base_pgdir s" "kmem s1 = (kmem s)(p := (\<lambda>_. 0))"
    using arg_cong [OF s1, of npage] arg_cong [OF s1, of base_pgdir] arg_cong [OF s1, of kmem] by simp_all
  have p: "p < npage s" "pp_ref s1 p = 0" using alloc(3) k1 by (simp_all add: fresh_page_def)
  have bp: "base_pgdir s \<noteq> p" using base fl(1) by auto
  define s2 where "s2 = upd_env e (\<lambda>x. x\<lparr>env_pgdir := p\<rparr>) (page_incref p s1)"
  define s3 where "s3 = copy_pdes (base_pgdir s) p s2"
  define s' where "s' = set_word p (PDX UVPT) (page2pa p OR PTE_V) s3"
  have b2: "base_pgdir (page_incref p s1) = base_pgdir s" using k1(2) by (simp add: page_incref_def set_ref_def)
  have kva: "page2kva (npage s) p = Some (page2pa p + ULIM)" using p(1) small by (intro page2kva_Some) simp_all
  then have "PADDR (page2pa p + ULIM) = Some (page2pa p)"
    using small by (intro PADDR_KADDR [of "npage s"]) (simp_all add: page2kva_def)
  with kva have vm: "env_setup_vm e s = Some (Inr (), s')"
    unfolding env_setup_vm_def using alloc(1) k1(1) by (simp add: s'_def s3_def s2_def b2)
  note cp = copy_pdes_spec [OF bp, of s2]
  have km3: "kmem s3 = (kmem s1)(p := (\<lambda>i. if PDX UTOP \<le> i \<and> i < PDX UVPT then kmem s (base_pgdir s) i else 0))"
    unfolding s3_def cp(1) using k1(3) bp by (simp add: s2_def fun_eq_iff)
  have km': "kmem s' = (kmem s1)(p := (\<lambda>i. if i = PDX UVPT then page2pa p OR PTE_V
      else if PDX UTOP \<le> i \<and> i < PDX UVPT then kmem s (base_pgdir s) i else 0))"
    unfolding s'_def set_word_def by (simp add: km3 fun_eq_iff)
  have f': "npage s' = npage s1" "page_free_list s' = page_free_list s1" "pp_ref s' = (pp_ref s1)(p := 1)"
    using cp(2-4) p(2) mem_frame_kstate(14) [OF cp(2)] by (simp_all add: s'_def s3_def s2_def)
  have user: "\<not> pte_valid (kmem s' p i)" if "i < NUPDE" for i
  proof -
    have "i < PDX UTOP" "PDX UTOP < PDX UVPT" using that by (simp_all add: NUPDE_def PDX_div mmu_defs)
    then show ?thesis by (simp add: km')
  qed
  note ad = add_directory [OF alloc(2,3) f'(1,2,3) _ user]
  have "on_free_list s' = on_free_list s1" by (simp add: on_free_list_def f'(2))
  moreover have "mem_frame (upd_env e (\<lambda>x. x\<lparr>env_pgdir := p\<rparr>) s) s'"
  proof -
    have "mem_frame s s1" using page_alloc_frame [OF alloc(1)] .
    then have "mem_frame (upd_env e (\<lambda>x. x\<lparr>env_pgdir := p\<rparr>) s) s2"
      using mem_frame_kstate [of s s1] by (cases s; cases s1; simp add: s2_def upd_env_def page_incref_def set_ref_def mem_frame_def)
    then show ?thesis using cp(2) mem_frame_trans by (simp add: s'_def s3_def) blast
  qed
  ultimately show thesis
    using that [OF vm fl(1)] ad fl(2) km' same_tables_aspace [OF same] same_tables_is_table [OF same]
    by (simp add: PDX_div mmu_defs)
qed

lemma asid_alloc_frame: "asid_alloc s = (r, s') \<Longrightarrow> s' = s\<lparr>asid_bitmap := asid_bitmap s'\<rparr>"
  by (auto simp: asid_alloc_def split: prod.splits)

lemma env_alloc_unfold:
  assumes "LIST_FIRST (env_free_list s) = Some e" and "env_setup_vm e s = Some (Inr (), s1)"
  defines "eid \<equiv> fst (mkenvid e s1)"
  defines "s2 \<equiv> (upd_env e (\<lambda>e. e\<lparr>env_user_tlb_mod_entry := 0, env_runs := 0, env_id := eid\<rparr>) s1)\<lparr>mkenvid_i := mkenvid_i s1 + 1\<rparr>"
  shows "env_alloc parent_id s = (case asid_alloc s2 of
      (Inl x, s) \<Rightarrow> Some (Inl x, s)
    | (Inr asid, s) \<Rightarrow> do {
        let s = upd_env e (\<lambda>e. e\<lparr>env_asid := asid, env_parent_id := parent_id,
             env_tf := (env_tf e)\<lparr>cp0_status := STATUS_IM4 OR STATUS_KUp OR STATUS_IEp,
                regs := (regs (env_tf e))(29 := USTACKTOP - 4 - 4)\<rparr>\<rparr>) s;
        fl \<leftarrow> LIST_REMOVE e (env_free_list s);
        Some (Inr e, s\<lparr>env_free_list := fl\<rparr>)
      })"
proof -
  have mk: "mkenvid e (upd_env e (\<lambda>e. e\<lparr>env_user_tlb_mod_entry := 0, env_runs := 0\<rparr>) s1)
      = (eid, (upd_env e (\<lambda>e. e\<lparr>env_user_tlb_mod_entry := 0, env_runs := 0\<rparr>) s1)\<lparr>mkenvid_i := mkenvid_i s1 + 1\<rparr>)"
    by (simp add: eid_def mkenvid_def Let_def)
  have "upd_env e (\<lambda>e. e\<lparr>env_id := eid\<rparr>) ((upd_env e (\<lambda>e. e\<lparr>env_user_tlb_mod_entry := 0, env_runs := 0\<rparr>) s1)\<lparr>mkenvid_i := mkenvid_i s1 + 1\<rparr>) = s2"
    by (simp add: s2_def upd_env_def)
  with mk assms(1,2) show ?thesis
    by (simp add: env_alloc_def Let_def upd_env_def split: prod.splits sum.splits)
qed

text \<open>The environment that \<open>env_alloc\<close> sets up.\<close>

definition new_env :: "env \<Rightarrow> nat \<Rightarrow> u32 \<Rightarrow> u32 \<Rightarrow> u32 \<Rightarrow> env" where
  "new_env x p eid asid parent_id = x\<lparr>env_pgdir := p, env_user_tlb_mod_entry := 0, env_runs := 0, env_id := eid,
     env_asid := asid, env_parent_id := parent_id,
     env_tf := (env_tf x)\<lparr>cp0_status := STATUS_IM4 OR STATUS_KUp OR STATUS_IEp,
       regs := (regs (env_tf x))(29 := USTACKTOP - 8)\<rparr>\<rparr>"

lemma env_alloc_spec:
  assumes inv: "mem_inv ext D s" and fl: "LIST_rep (env_free_list s) (e # es)"
    and mem: "on_free_list s \<noteq> {}" "base_pgdir s \<notin> on_free_list s" "npage s \<le> 2 ^ 19"
    and bm: "length (asid_bitmap s) = 2" "asids s \<noteq> {..<64}"
  obtains p a s' where "env_alloc parent_id s = Some (Inr e, s')" and "p \<notin> D"
    and "mem_inv ext (insert p D) s'"
    and "\<And>d i j. d \<in> D \<Longrightarrow> i < NUPDE \<Longrightarrow> j < 1024 \<Longrightarrow> aspace s' d i j = aspace s d i j"
    and "\<And>i j. i < NUPDE \<Longrightarrow> aspace s' p i j = None"
    and "LIST_rep (env_free_list s') es" and "env_sched_list s' = env_sched_list s" and "curenv s' = curenv s"
    and "envs s' = (envs s)(e := new_env (envs s e) p (fst (mkenvid e s)) a parent_id)"
    and "unat a < 64" and "unat a \<notin> asids s" and "asids s' = insert (unat a) (asids s)"
    and "length (asid_bitmap s') = 2" and "mkenvid_i s' = mkenvid_i s + 1"
    and "on_free_list s' = on_free_list s - {p}" and "npage s' = npage s" and "base_pgdir s' = base_pgdir s"
    and "\<And>t. is_table s' (insert p D) t \<Longrightarrow> is_table s D t" and "p \<in> on_free_list s"
    and "cur_pgdir s' = cur_pgdir s" and "entryhi s' = entryhi s" and "kstack_tf s' = kstack_tf s"
proof -
  have first: "LIST_FIRST (env_free_list s) = Some e" using lst.rep_first [OF fl] by simp
  from env_setup_vm_spec [OF inv mem, of e] obtain p s1 where
    s1: "env_setup_vm e s = Some (Inr (), s1)" "p \<in> on_free_list s" "p \<notin> D" "mem_inv ext (insert p D) s1"
      "\<And>d i j. d \<in> D \<Longrightarrow> i < NUPDE \<Longrightarrow> j < 1024 \<Longrightarrow> aspace s1 d i j = aspace s d i j"
      "\<And>i j. i < NUPDE \<Longrightarrow> aspace s1 p i j = None"
      "mem_frame (upd_env e (\<lambda>x. x\<lparr>env_pgdir := p\<rparr>) s) s1" "on_free_list s1 = on_free_list s - {p}"
      "\<And>t. is_table s1 (insert p D) t \<Longrightarrow> is_table s D t"
    by metis
  note k1 = mem_frame_kstate [OF s1(7), simplified]
  define eid where "eid = fst (mkenvid e s1)"
  define s2 where "s2 = (upd_env e (\<lambda>e. e\<lparr>env_user_tlb_mod_entry := 0, env_runs := 0, env_id := eid\<rparr>) s1)\<lparr>mkenvid_i := mkenvid_i s1 + 1\<rparr>"
  have eid: "eid = fst (mkenvid e s)" using k1 by (simp add: eid_def mkenvid_def Let_def)
  have as2: "asids s2 = asids s" "length (asid_bitmap s2) = 2" using k1 bm by (simp_all add: s2_def asids_def)
  obtain r s3 where al: "asid_alloc s2 = (r, s3)" by fastforce
  have sp: "case (r, s3) of
      (Inl x, s') \<Rightarrow> x = E_NO_FREE_ENV \<and> s' = s2 \<and> asids s2 = {..<64}
    | (Inr a, s') \<Rightarrow> unat a < 64 \<and> unat a \<notin> asids s2 \<and> {..<unat a} \<subseteq> asids s2
        \<and> asids s' = insert (unat a) (asids s2) \<and> length (asid_bitmap s') = 2
        \<and> asids (asid_free a s') = asids s2"
    using asid_alloc_spec [OF as2(2)] al by simp
  then obtain a where r: "r = Inr a" using as2(1) bm(2) by (cases r) auto
  with sp as2(1) have a: "unat a < 64" "unat a \<notin> asids s" "asids s3 = insert (unat a) (asids s)" "length (asid_bitmap s3) = 2"
    by simp_all
  note s3 = asid_alloc_frame [OF al]
  have f3: "kmem s3 = kmem s1" "npage s3 = npage s1" "pp_ref s3 = pp_ref s1" "page_free_list s3 = page_free_list s1"
    "env_free_list s3 = env_free_list s1" "env_sched_list s3 = env_sched_list s1" "curenv s3 = curenv s1"
    "envs s3 = envs s2" "mkenvid_i s3 = mkenvid_i s1 + 1" "base_pgdir s3 = base_pgdir s1"
    "cur_pgdir s3 = cur_pgdir s1" "entryhi s3 = entryhi s1" "kstack_tf s3 = kstack_tf s1"
    by (subst s3, simp add: s2_def)+
  from lst.rep_remove [of "env_free_list s" "[]" e es] fl obtain q where
    q: "LIST_REMOVE e (env_free_list s) = Some q" "LIST_rep q es" by auto
  define s' where "s' = (upd_env e (\<lambda>e. e\<lparr>env_asid := a, env_parent_id := parent_id,
       env_tf := (env_tf e)\<lparr>cp0_status := STATUS_IM4 OR STATUS_KUp OR STATUS_IEp,
          regs := (regs (env_tf e))(29 := USTACKTOP - 4 - 4)\<rparr>\<rparr>) s3)\<lparr>env_free_list := q\<rparr>"
  have ok: "env_alloc parent_id s = Some (Inr e, s')"
    unfolding env_alloc_unfold [OF first s1(1)] eid_def [symmetric] s2_def [symmetric] al r
    using q(1) f3(5) k1(3) by (simp add: s'_def)
  have km: "kmem s' = kmem s1" "npage s' = npage s1" "pp_ref s' = pp_ref s1" "page_free_list s' = page_free_list s1"
    using f3 by (simp_all add: s'_def)
  have inv': "mem_inv ext (insert p D) s'" using s1(4) same_kmem_mem_inv [OF km] by simp
  have envs': "envs s' = (envs s)(e := new_env (envs s e) p (fst (mkenvid e s)) a parent_id)"
    using f3(8) k1(1) by (simp add: s'_def s2_def new_env_def eid)
  have "on_free_list s' = on_free_list s - {p}" using s1(8) km(4) by (simp add: on_free_list_def)
  then show thesis
    using that [OF ok s1(3) inv' _ _ _ _ _ envs' a(1,2)] s1(2,5,6,9) same_kmem(1,4) [OF km(1)] q(2) f3 k1 a(3,4)
    by (simp add: s'_def asids_def)
qed

section \<open>Properties\<close>

text \<open>
  C6 (env_free_correct). Destroying an environment that is on the list of runnable environments
  never panics: it unmaps all its pages, releases its page tables and its directory and keeps the
  memory invariant for the remaining directories, whose address spaces do not change; the
  environment leaves the runnable list, is put first on the free list with status \<open>ENV_FREE\<close>, and
  its ASID is free again.
\<close>

theorem env_free_correct:
  assumes "mem_inv ext D s" and "env_pgdir (envs s e) \<in> D"
    and "TAILQ_rep (env_sched_list s) sl" and "e \<in> set sl"
    and "LIST_rep (env_free_list s) fl" and "e \<notin> set fl"
    and "length (asid_bitmap s) = 2" and "unat (env_asid (envs s e)) < NASID"
  shows "\<exists>s'. env_free e s = Some s' \<and> mem_inv ext (D - {env_pgdir (envs s e)}) s'
    \<and> (\<forall>d\<in>D - {env_pgdir (envs s e)}. \<forall>i<NUPDE. \<forall>j<1024. aspace s' d i j = aspace s d i j)
    \<and> TAILQ_rep (env_sched_list s') (remove1 e sl) \<and> LIST_rep (env_free_list s') (e # fl)
    \<and> envs s' = (envs s)(e := (envs s e)\<lparr>env_status := ENV_FREE\<rparr>)
    \<and> asids s' = asids s - {unat (env_asid (envs s e))}"
  using env_free_spec [OF assms(1) refl assms(2-8)] by metis

lemma k8_inv: "mem_inv held1 {0} k8"
  by (rule mem8_like) simp_all

lemma k8_lists:
  "TAILQ_rep (env_sched_list k8) [0]" "LIST_rep (env_free_list k8) [1..<NENV]" "base_pgdir k8 = 1"
  "asids k8 = {0}" "on_free_list k8 = {2..<8}"
proof -
  show "TAILQ_rep (env_sched_list k8) [0]"
    using tq.rep_insert_head [OF tq.rep_init [of TAILQ_zero], of 0] by (simp add: k8_def)
  show "LIST_rep (env_free_list k8) [1..<NENV]"
    using lst.rep_fold_insert_head [OF lst.rep_init [of LIST_zero], of "rev [1..<NENV]"] by (simp add: k8_def)
  show "base_pgdir k8 = 1" by (simp add: k8_def)
  show "asids k8 = {0}"
  proof -
    have "bit ([1, 0 :: u32] ! (i div 32)) (i mod 32) \<longleftrightarrow> i = 0" if "i < 64" for i
    proof (cases "i < 32")
      case True
      then show ?thesis by (auto simp: bit_1_iff)
    next
      case False
      then have "i div 32 = 1" using that by (simp add: div_if)
      with False show ?thesis by simp
    qed
    then show ?thesis by (auto simp: asids_def bm_set_def NASID_def)
  qed
  show "on_free_list k8 = {2..<8}" using mem8_on_free_list by (simp add: on_free_list_def)
qed

theorem env_free_correct_witness:
  "\<exists>s'. env_free 0 k8 = Some s' \<and> mem_inv held1 ({0} - {env_pgdir (envs k8 0)}) s'
    \<and> (\<forall>d\<in>{0} - {env_pgdir (envs k8 0)}. \<forall>i<NUPDE. \<forall>j<1024. aspace s' d i j = aspace k8 d i j)
    \<and> TAILQ_rep (env_sched_list s') (remove1 0 [0]) \<and> LIST_rep (env_free_list s') (0 # [1..<NENV])
    \<and> envs s' = (envs k8)(0 := (envs k8 0)\<lparr>env_status := ENV_FREE\<rparr>)
    \<and> asids s' = asids k8 - {unat (env_asid (envs k8 0))}"
  by (rule env_free_correct [OF k8_inv _ k8_lists(1) _ k8_lists(2)]) (simp_all add: env0_def NASID_def)

text \<open>
  C28 (env_alloc_correct). With a free environment, a free page and a free ASID, allocation never
  panics: it takes the first free environment off the free list and gives it a fresh directory with
  no user page mapped, an ASID nobody uses, an id that leads back to its slot, the parent's id and
  the initial stack pointer; the memory invariant holds for the larger set of directories and no
  other address space changes.
\<close>

theorem env_alloc_correct:
  assumes "mem_inv ext D s" and "LIST_rep (env_free_list s) (e # es)" and "e < NENV"
    and "on_free_list s \<noteq> {}" and "base_pgdir s \<notin> on_free_list s" and "npage s \<le> 2 ^ 19"
    and "length (asid_bitmap s) = 2" and "asids s \<noteq> {..<64}"
  shows "\<exists>p a s'. env_alloc parent_id s = Some (Inr e, s') \<and> p \<notin> D \<and> mem_inv ext (insert p D) s'
    \<and> (\<forall>d\<in>D. \<forall>i<NUPDE. \<forall>j<1024. aspace s' d i j = aspace s d i j)
    \<and> (\<forall>i<NUPDE. \<forall>j. aspace s' p i j = None)
    \<and> LIST_rep (env_free_list s') es \<and> env_sched_list s' = env_sched_list s
    \<and> envs s' = (envs s)(e := new_env (envs s e) p (fst (mkenvid e s)) a parent_id)
    \<and> ENVX (env_id (envs s' e)) = e
    \<and> unat a \<notin> asids s \<and> asids s' = insert (unat a) (asids s)"
proof -
  from env_alloc_spec [OF assms(1,2,4-8), of parent_id] obtain p a s' where
    "env_alloc parent_id s = Some (Inr e, s')" "p \<notin> D" "mem_inv ext (insert p D) s'"
    "\<forall>d\<in>D. \<forall>i<NUPDE. \<forall>j<1024. aspace s' d i j = aspace s d i j" "\<forall>i<NUPDE. \<forall>j. aspace s' p i j = None"
    "LIST_rep (env_free_list s') es" "env_sched_list s' = env_sched_list s"
    "envs s' = (envs s)(e := new_env (envs s e) p (fst (mkenvid e s)) a parent_id)"
    "unat a \<notin> asids s" "asids s' = insert (unat a) (asids s)"
    by metis
  moreover from this have "ENVX (env_id (envs s' e)) = e"
    using ENVX_mkenvid [OF assms(3)] by (simp add: new_env_def)
  ultimately show ?thesis by blast
qed

theorem env_alloc_correct_witness:
  "\<exists>p a s'. env_alloc 0x800 k8 = Some (Inr 1, s') \<and> p \<notin> {0} \<and> mem_inv held1 (insert p {0}) s'
    \<and> (\<forall>d\<in>{0}. \<forall>i<NUPDE. \<forall>j<1024. aspace s' d i j = aspace k8 d i j)
    \<and> (\<forall>i<NUPDE. \<forall>j. aspace s' p i j = None)
    \<and> LIST_rep (env_free_list s') [2..<NENV] \<and> env_sched_list s' = env_sched_list k8
    \<and> envs s' = (envs k8)(1 := new_env (envs k8 1) p (fst (mkenvid 1 k8)) a 0x800)
    \<and> ENVX (env_id (envs s' 1)) = 1
    \<and> unat a \<notin> asids k8 \<and> asids s' = insert (unat a) (asids k8)"
proof (rule env_alloc_correct [OF k8_inv])
  have "[1..<NENV] = 1 # [2..<NENV]" using upt_conv_Cons [of 1 NENV] by (simp add: NENV_def numeral_2_eq_2)
  then show "LIST_rep (env_free_list k8) (1 # [2..<NENV])" using k8_lists(2) by simp
  show "asids k8 \<noteq> {..<64}" unfolding k8_lists(4)
  proof
    assume "{0} = {..<64 :: nat}"
    then have "(1 :: nat) \<in> {0}" by simp
    then show False by simp
  qed
qed (simp_all add: k8_lists(3,5) NENV_def)

text \<open>
  Lemma (env_alloc_no_asid_leaks). When all ASIDs are taken, \<open>env_alloc\<close> fails with \<open>E_NO_FREE_ENV\<close> only
  after it has allocated the page directory: the environment stays first on the free list and the
  directory's page is neither free nor owned by any environment.
\<close>

theorem env_alloc_no_asid_leaks:
  assumes "mem_inv ext D s" and "LIST_rep (env_free_list s) (e # es)"
    and "on_free_list s \<noteq> {}" and "base_pgdir s \<notin> on_free_list s" and "npage s \<le> 2 ^ 19"
    and "length (asid_bitmap s) = 2" and "asids s = {..<64}"
  shows "\<exists>p s'. env_alloc parent_id s = Some (Inl E_NO_FREE_ENV, s') \<and> LIST_rep (env_free_list s') (e # es)
    \<and> p \<in> on_free_list s \<and> p \<notin> D \<and> on_free_list s' = on_free_list s - {p} \<and> pp_ref s' p \<noteq> 0"
proof -
  have first: "LIST_FIRST (env_free_list s) = Some e" using lst.rep_first [OF assms(2)] by simp
  from env_setup_vm_spec [OF assms(1,3,4,5), of e] obtain p s1 where
    s1: "env_setup_vm e s = Some (Inr (), s1)" "p \<in> on_free_list s" "p \<notin> D" "mem_inv ext (insert p D) s1"
      "mem_frame (upd_env e (\<lambda>x. x\<lparr>env_pgdir := p\<rparr>) s) s1" "on_free_list s1 = on_free_list s - {p}"
    by metis
  note k1 = mem_frame_kstate [OF s1(5), simplified]
  define s2 where "s2 = (upd_env e (\<lambda>x. x\<lparr>env_user_tlb_mod_entry := 0, env_runs := 0, env_id := fst (mkenvid e s1)\<rparr>) s1)
    \<lparr>mkenvid_i := mkenvid_i s1 + 1\<rparr>"
  have as2: "asids s2 = {..<64}" "length (asid_bitmap s2) = 2" using k1 assms(6,7) by (simp_all add: s2_def asids_def)
  obtain r s3 where al: "asid_alloc s2 = (r, s3)" by fastforce
  with asid_alloc_spec [OF as2(2)] as2(1) have r: "r = Inl E_NO_FREE_ENV" "s3 = s2"
    by (cases r; auto)+
  have "env_alloc parent_id s = Some (Inl E_NO_FREE_ENV, s2)"
    unfolding env_alloc_unfold [OF first s1(1)] s2_def [symmetric] al r by simp
  moreover have "pp_ref s1 p \<noteq> 0"
    using s1(4) by (auto simp: mem_inv_def ref_inv_def table_inv_def)
  ultimately show ?thesis
    using s1(2,3,6) assms(2) k1(3) by (intro exI [of _ p] exI [of _ s2]) (simp add: s2_def on_free_list_def)
qed

theorem env_alloc_no_asid_leaks_witness:
  "\<exists>p s'. env_alloc 0 (k8\<lparr>asid_bitmap := [NOT 0, NOT 0]\<rparr>) = Some (Inl E_NO_FREE_ENV, s')
    \<and> LIST_rep (env_free_list s') (1 # [2..<NENV])
    \<and> p \<in> on_free_list (k8\<lparr>asid_bitmap := [NOT 0, NOT 0]\<rparr>) \<and> p \<notin> {0}
    \<and> on_free_list s' = on_free_list (k8\<lparr>asid_bitmap := [NOT 0, NOT 0]\<rparr>) - {p} \<and> pp_ref s' p \<noteq> 0"
proof (rule env_alloc_no_asid_leaks [where ext = held1 and D = "{0}"])
  let ?k = "k8\<lparr>asid_bitmap := [NOT 0, NOT 0]\<rparr>"
  show "mem_inv held1 {0} ?k" by (rule mem8_like) simp_all
  have "[1..<NENV] = 1 # [2..<NENV]" using upt_conv_Cons [of 1 NENV] by (simp add: NENV_def numeral_2_eq_2)
  then show "LIST_rep (env_free_list ?k) (1 # [2..<NENV])" using k8_lists(2) by simp
  have "on_free_list ?k = on_free_list k8" by (simp add: on_free_list_def)
  then show "on_free_list ?k \<noteq> {}" "base_pgdir ?k \<notin> on_free_list ?k" using k8_lists(3,5) by simp_all
  have "bit ([NOT 0, NOT 0 :: u32] ! (i div 32)) (i mod 32)" if "i < 64" for i
  proof -
    have "i div 32 < 2" using that by simp
    then have "[NOT 0, NOT 0 :: u32] ! (i div 32) = NOT 0" by (auto simp: less_2_cases_iff)
    then show ?thesis by (simp only:) (simp add: bit_simps)
  qed
  then show "asids ?k = {..<64}" by (auto simp: asids_def bm_set_def NASID_def)
qed simp_all

end
