(* ===== verification/Sched.thy ===== *)
theory Sched
  imports Env_Mem
begin

text \<open>
  The scheduler, \<open>kern/sched.c\<close>, and the destruction of an environment that may give up the
  processor (\<open>env_destroy\<close>, \<open>kern/env.c\<close>). \<open>schedule\<close> does not return: its result is the state in
  which the chosen environment runs. A function that returns to its caller or switches away gives
  \<open>Some x\<close> or \<open>None\<close> next to the state.

  The lemmas show that the list of runnable environments is used round robin: a yield moves the
  current environment to the end and runs the first one, a timer tick does so only when the time
  slice is used up.
\<close>

section \<open>Definitions\<close>

definition pick_first :: "kstate \<Rightarrow> (nat \<times> kstate) option" where
  "pick_first s = do {
     e \<leftarrow> TAILQ_FIRST (env_sched_list s);
     Some (e, s\<lparr>sched_count := env_pri (envs s e)\<rparr>)
   }"

text \<open>
  The list's head is dereferenced for its priority before the test for the null pointer: an empty
  list is a null dereference here, \<open>None\<close> in \<open>pick_first\<close>.
\<close>

definition schedule :: "bool \<Rightarrow> kstate \<Rightarrow> kstate option" where
  "schedule yield s = do {
     let s = s\<lparr>sched_count := sched_count s - 1\<rparr>;
     (e, s) \<leftarrow> (case curenv s of
        None \<Rightarrow> pick_first s
      | Some e \<Rightarrow>
          if env_status (envs s e) \<noteq> ENV_RUNNABLE then pick_first s
          else if yield \<or> sint (sched_count s) \<le> 0 then do {
            q \<leftarrow> TAILQ_REMOVE e (env_sched_list s);
            q \<leftarrow> TAILQ_INSERT_TAIL e q;
            pick_first (s\<lparr>env_sched_list := q\<rparr>)
          }
          else Some (e, s));
     env_run e s
   }"

definition env_destroy :: "nat \<Rightarrow> kstate \<Rightarrow> (unit option \<times> kstate) option" where
  "env_destroy e s = do {
     s \<leftarrow> env_free e s;
     if curenv s = Some e then do {
       let s = s\<lparr>curenv := None\<rparr>;
       s \<leftarrow> printk (''i am killed ... '' @ [CHR 0x0A]) [] s;
       s \<leftarrow> schedule True s;
       Some (None, s)
     }
     else Some (Some (), s)
   }"

section \<open>The list of runnable environments\<close>

text \<open>The invariant the code states: the list holds exactly the runnable environments.\<close>

definition sched_inv :: "kstate \<Rightarrow> nat list \<Rightarrow> bool" where
  "sched_inv s xs \<longleftrightarrow> TAILQ_rep (env_sched_list s) xs
     \<and> (\<forall>e. e \<in> set xs \<longleftrightarrow> e < NENV \<and> env_status (envs s e) = ENV_RUNNABLE)"

lemma sched_inv_unique: "sched_inv s xs \<Longrightarrow> sched_inv s ys \<Longrightarrow> xs = ys"
  by (auto simp: sched_inv_def dest: tq.rep_unique)

text \<open>The state after a switch to \<open>e\<close>: contexts, address space and run count.\<close>

definition switched :: "nat \<Rightarrow> kstate \<Rightarrow> kstate \<Rightarrow> bool" where
  "switched e s s' \<longleftrightarrow> curenv s' = Some e \<and> cur_pgdir s' = Some (env_pgdir (envs s e))
     \<and> entryhi s' = push_bit 6 (env_asid (envs s e)) \<and> cpu_tf s' = env_tf (envs s' e)
     \<and> (\<forall>x. \<forall>f\<in>{env_status, env_pri, env_id}. f (envs s' x) = f (envs s x))
     \<and> (\<forall>x. env_pgdir (envs s' x) = env_pgdir (envs s x))
     \<and> (\<forall>x. env_tf (envs s' x) = (if curenv s = Some x then kstack_tf s else env_tf (envs s x)))
     \<and> env_runs (envs s' e) = env_runs (envs s e) + 1"

lemma env_run_switched:
  assumes "env_status (envs s e) = ENV_RUNNABLE"
  obtains s' where "env_run e s = Some s'" and "switched e s s'"
    and "env_sched_list s' = env_sched_list s" and "sched_count s' = sched_count s"
    and "env_free_list s' = env_free_list s" and "asid_bitmap s' = asid_bitmap s"
    and "kmem s' = kmem s" "npage s' = npage s" "pp_ref s' = pp_ref s" "page_free_list s' = page_free_list s"
    and "\<And>x. (envs s' x)\<lparr>env_tf := env_tf (envs s x), env_runs := env_runs (envs s x)\<rparr> = envs s x"
proof -
  obtain s' where run: "env_run e s = Some s'" using assms by (simp add: env_run_def Let_def)
  show thesis
    by (rule that [OF run])
      (use run assms in \<open>auto simp: env_run_def env_pop_tf_def switched_def Let_def split: option.splits\<close>)
qed

lemma sched_inv_switch:
  assumes "sched_inv s xs" and "switched e s s'" and "env_sched_list s' = env_sched_list s"
  shows "sched_inv s' xs"
  using assms by (simp add: sched_inv_def switched_def)

lemma sched_inv_first:
  assumes "sched_inv s xs" and "xs \<noteq> []"
  shows "TAILQ_FIRST (env_sched_list s) = Some (hd xs)" and "env_status (envs s (hd xs)) = ENV_RUNNABLE"
proof -
  show "TAILQ_FIRST (env_sched_list s) = Some (hd xs)"
    using assms tq.rep_first [of "env_sched_list s" xs] by (cases xs) (auto simp: sched_inv_def)
  show "env_status (envs s (hd xs)) = ENV_RUNNABLE"
    using assms hd_in_set [OF assms(2)] by (simp add: sched_inv_def)
qed

section \<open>Scheduling decisions\<close>

lemma pick_run:
  assumes "sched_inv s xs" and "xs \<noteq> []"
  obtains s' where "Option.bind (pick_first s) (\<lambda>(e, s). env_run e s) = Some s'"
    and "sched_inv s' xs" and "switched (hd xs) s s'" and "sched_count s' = env_pri (envs s (hd xs))"
    and "kmem s' = kmem s" "npage s' = npage s" "pp_ref s' = pp_ref s" "page_free_list s' = page_free_list s"
    and "env_free_list s' = env_free_list s" and "asid_bitmap s' = asid_bitmap s"
    and "\<And>x. (envs s' x)\<lparr>env_tf := env_tf (envs s x), env_runs := env_runs (envs s x)\<rparr> = envs s x"
proof -
  let ?e = "hd xs" and ?s = "s\<lparr>sched_count := env_pri (envs s (hd xs))\<rparr>"
  note first = sched_inv_first [OF assms]
  have "env_status (envs ?s ?e) = ENV_RUNNABLE" using first(2) by simp
  from env_run_switched [OF this] obtain s' where s': "env_run ?e ?s = Some s'" "switched ?e ?s s'"
    "env_sched_list s' = env_sched_list ?s" "sched_count s' = sched_count ?s"
    "env_free_list s' = env_free_list ?s" "asid_bitmap s' = asid_bitmap ?s"
    "kmem s' = kmem ?s" "npage s' = npage ?s" "pp_ref s' = pp_ref ?s" "page_free_list s' = page_free_list ?s"
    "\<And>x. (envs s' x)\<lparr>env_tf := env_tf (envs ?s x), env_runs := env_runs (envs ?s x)\<rparr> = envs ?s x"
    by metis
  have sw: "switched ?e s s'" using s'(2) by (simp add: switched_def)
  moreover have "sched_inv s' xs" using sched_inv_switch [OF assms(1) sw] s'(3) by simp
  ultimately show thesis
    using that [of s'] s' first(1) by (simp add: pick_first_def)
qed

lemma requeue_current:
  assumes inv: "sched_inv s xs" and e: "e \<in> set xs"
  obtains q q' where "TAILQ_REMOVE e (env_sched_list s) = Some q" and "TAILQ_INSERT_TAIL e q = Some q'"
    and "sched_inv (s\<lparr>env_sched_list := q'\<rparr>) (remove1 e xs @ [e])"
proof -
  from inv have rep: "TAILQ_rep (env_sched_list s) xs" by (simp add: sched_inv_def)
  from tq.requeue [OF rep e] obtain q q' where "TAILQ_REMOVE e (env_sched_list s) = Some q"
    "TAILQ_INSERT_TAIL e q = Some q'" "TAILQ_rep q' (remove1 e xs @ [e])" by blast
  moreover have "distinct xs" using tq.rep_distinct [OF rep] .
  ultimately show thesis using that inv e by (auto simp: sched_inv_def)
qed

lemma schedule_pick:
  assumes "sched_inv s xs" and "xs \<noteq> []"
    and "case curenv s of None \<Rightarrow> True | Some e \<Rightarrow> env_status (envs s e) \<noteq> ENV_RUNNABLE"
  obtains s' where "schedule yield s = Some s'" and "sched_inv s' xs" and "switched (hd xs) s s'"
    and "sched_count s' = env_pri (envs s (hd xs))"
    and "kmem s' = kmem s" "npage s' = npage s" "pp_ref s' = pp_ref s" "page_free_list s' = page_free_list s"
    and "env_free_list s' = env_free_list s" and "asid_bitmap s' = asid_bitmap s"
    and "\<And>x. (envs s' x)\<lparr>env_tf := env_tf (envs s x), env_runs := env_runs (envs s x)\<rparr> = envs s x"
proof -
  let ?s = "s\<lparr>sched_count := sched_count s - 1\<rparr>"
  have "sched_inv ?s xs" using assms(1) by (simp add: sched_inv_def)
  from pick_run [OF this assms(2)] obtain s' where
    s': "Option.bind (pick_first ?s) (\<lambda>(e, s). env_run e s) = Some s'"
      "sched_inv s' xs" "switched (hd xs) ?s s'" "sched_count s' = env_pri (envs ?s (hd xs))"
      "kmem s' = kmem ?s" "npage s' = npage ?s" "pp_ref s' = pp_ref ?s" "page_free_list s' = page_free_list ?s"
      "env_free_list s' = env_free_list ?s" "asid_bitmap s' = asid_bitmap ?s"
      "\<And>x. (envs s' x)\<lparr>env_tf := env_tf (envs ?s x), env_runs := env_runs (envs ?s x)\<rparr> = envs ?s x"
    by metis
  have "schedule yield s = Some s'"
    unfolding schedule_def Let_def using s'(1) assms(3) by (cases "curenv s") auto
  moreover have "switched (hd xs) s s'" using s'(3) by (simp add: switched_def)
  ultimately show thesis using that [of s'] s' by simp
qed

lemma schedule_rotate:
  assumes inv: "sched_inv s xs" and cur: "curenv s = Some e" "e \<in> set xs"
    and move: "yield \<or> sint (sched_count s - 1) \<le> 0"
  obtains s' where "schedule yield s = Some s'" and "sched_inv s' (remove1 e xs @ [e])"
    and "switched (hd (remove1 e xs @ [e])) s s'"
    and "sched_count s' = env_pri (envs s (hd (remove1 e xs @ [e])))"
    and "kmem s' = kmem s" "npage s' = npage s" "pp_ref s' = pp_ref s" "page_free_list s' = page_free_list s"
    and "env_free_list s' = env_free_list s" and "asid_bitmap s' = asid_bitmap s"
    and "\<And>x. (envs s' x)\<lparr>env_tf := env_tf (envs s x), env_runs := env_runs (envs s x)\<rparr> = envs s x"
proof -
  let ?ys = "remove1 e xs @ [e]"
  from requeue_current [OF inv cur(2)] obtain q q' where q: "TAILQ_REMOVE e (env_sched_list s) = Some q"
    "TAILQ_INSERT_TAIL e q = Some q'" "sched_inv (s\<lparr>env_sched_list := q'\<rparr>) ?ys" by blast
  let ?s = "s\<lparr>sched_count := sched_count s - 1, env_sched_list := q'\<rparr>"
  have "sched_inv ?s ?ys" using q(3) by (simp add: sched_inv_def)
  from pick_run [OF this, simplified] obtain s' where
    s': "Option.bind (pick_first ?s) (\<lambda>(e, s). env_run e s) = Some s'"
      "sched_inv s' ?ys" "switched (hd ?ys) ?s s'" "sched_count s' = env_pri (envs s (hd ?ys))"
      "kmem s' = kmem s" "npage s' = npage s" "pp_ref s' = pp_ref s" "page_free_list s' = page_free_list s"
      "env_free_list s' = env_free_list s" "asid_bitmap s' = asid_bitmap s"
      "\<And>x. (envs s' x)\<lparr>env_tf := env_tf (envs s x), env_runs := env_runs (envs s x)\<rparr> = envs s x"
    by metis
  have "env_status (envs s e) = ENV_RUNNABLE" using inv cur(2) by (simp add: sched_inv_def)
  then have "schedule yield s = Some s'"
    unfolding schedule_def Let_def using s'(1) cur(1) move q(1,2) by simp
  moreover have "switched (hd ?ys) s s'" using s'(3) by (simp add: switched_def)
  ultimately show thesis using that [of s'] s' by simp
qed

lemma schedule_stay:
  assumes inv: "sched_inv s xs" and cur: "curenv s = Some e" "e \<in> set xs"
    and stay: "sint (sched_count s - 1) > 0"
  obtains s' where "schedule False s = Some s'" and "sched_inv s' xs" and "switched e s s'"
    and "sched_count s' = sched_count s - 1"
proof -
  let ?s = "s\<lparr>sched_count := sched_count s - 1\<rparr>"
  have run: "env_status (envs ?s e) = ENV_RUNNABLE" using inv cur(2) by (simp add: sched_inv_def)
  from env_run_switched [OF run] obtain s' where s': "env_run e ?s = Some s'" "switched e ?s s'"
    "env_sched_list s' = env_sched_list ?s" "sched_count s' = sched_count ?s" by metis
  have "schedule False s = Some s'"
    unfolding schedule_def Let_def using s'(1) run cur(1) stay by simp
  moreover have sw: "switched e s s'" using s'(2) by (simp add: switched_def)
  moreover have "sched_inv s' xs" using sched_inv_switch [OF inv sw] s'(3) by simp
  ultimately show thesis using that s'(4) by simp
qed

section \<open>Properties\<close>

text \<open>
  \<open>n\<close> successive calls of the scheduler, with nothing in between that changes the runnable list.
\<close>

primrec schedules :: "bool \<Rightarrow> nat \<Rightarrow> kstate \<Rightarrow> kstate option" where
  "schedules yield 0 s = Some s"
| "schedules yield (Suc n) s = Option.bind (schedules yield n s) (schedule yield)"

lemma rotate_nth: "xs \<noteq> [] \<Longrightarrow> hd (rotate n xs) = xs ! (n mod length xs)"
  by (simp add: hd_rotate_conv_nth)

lemma rotate1_remove1: "ys \<noteq> [] \<Longrightarrow> remove1 (hd ys) ys @ [hd ys] = rotate1 ys"
  by (cases ys) auto

text \<open>
  C24 (round_robin). Starting from the environment at the head of the list of runnable environments,
  \<open>n\<close> successive yields never panic and run the environments of the list in turn: after \<open>n\<close> of them
  number \<open>n\<close> modulo the length of the list runs. So no runnable environment waits for more yields
  than there are runnable environments.
\<close>

theorem round_robin:
  assumes "sched_inv s xs" and "xs \<noteq> []" and "curenv s = Some (hd xs)"
  shows "\<exists>s'. schedules True n s = Some s' \<and> sched_inv s' (rotate n xs)
    \<and> curenv s' = Some (xs ! (n mod length xs))"
proof (induction n)
  case 0
  show ?case using assms by (simp add: hd_conv_nth)
next
  case (Suc n)
  then obtain s1 where s1: "schedules True n s = Some s1" "sched_inv s1 (rotate n xs)"
    "curenv s1 = Some (xs ! (n mod length xs))" by blast
  let ?ys = "rotate n xs"
  have ne: "?ys \<noteq> []" using assms(2) by simp
  have cur: "curenv s1 = Some (hd ?ys)" using s1(3) rotate_nth [OF assms(2)] by simp
  from schedule_rotate [OF s1(2) cur hd_in_set [OF ne], of True] obtain s2 where
    s2: "schedule True s1 = Some s2" "sched_inv s2 (remove1 (hd ?ys) ?ys @ [hd ?ys])"
      "switched (hd (remove1 (hd ?ys) ?ys @ [hd ?ys])) s1 s2" by metis
  have rot: "remove1 (hd ?ys) ?ys @ [hd ?ys] = rotate (Suc n) xs"
    using rotate1_remove1 [OF ne] by simp
  have "curenv s2 = Some (hd (rotate (Suc n) xs))" using s2(3) rot by (simp add: switched_def)
  then have "curenv s2 = Some (xs ! (Suc n mod length xs))" using rotate_nth [OF assms(2), of "Suc n"] by simp
  with s1(1) s2(1,2) rot show ?case by simp
qed

lemma k8_sched: "sched_inv k8 [0]"
  using k8_lists(1) by (auto simp: sched_inv_def NENV_def env0_def ENV_FREE_def ENV_RUNNABLE_def split: if_splits)

theorem round_robin_witness:
  "\<exists>s'. schedules True 7 k8 = Some s' \<and> sched_inv s' (rotate 7 [0]) \<and> curenv s' = Some ([0] ! (7 mod length [0 :: nat]))"
  by (rule round_robin [OF k8_sched]) simp_all

text \<open>
  Lemma (time_slice). After an environment has been picked with a positive priority \<open>p\<close>, it keeps the
  processor for the next \<open>p - 1\<close> timer ticks.
\<close>

theorem time_slice:
  assumes "sched_inv s xs" and "curenv s = Some e" and "e \<in> set xs"
    and "sched_count s = p" and "0 < sint p" and "int n < sint p"
  shows "\<exists>s'. schedules False n s = Some s' \<and> sched_inv s' xs \<and> curenv s' = Some e
    \<and> sint (sched_count s') = sint p - int n"
  using assms(6)
proof (induction n)
  case 0
  show ?case using assms by simp
next
  case (Suc n)
  then obtain s1 where s1: "schedules False n s = Some s1" "sched_inv s1 xs" "curenv s1 = Some e"
    "sint (sched_count s1) = sint p - int n" by auto
  have pos: "sint (sched_count s1 - 1) = sint p - int n - 1"
  proof -
    have "sint p < 2 ^ 31" using sint_lt [of p] by simp
    then show ?thesis using s1(4) Suc.prems
      by (simp add: sint_word_ariths signed_take_bit_int_eq_self)
  qed
  then have "sint (sched_count s1 - 1) > 0" using Suc.prems by simp
  from schedule_stay [OF s1(2,3) assms(3) this] obtain s2 where
    "schedule False s1 = Some s2" "sched_inv s2 xs" "switched e s1 s2" "sched_count s2 = sched_count s1 - 1" by metis
  with s1(1) pos show ?case by (simp add: switched_def)
qed

theorem time_slice_witness:
  "\<exists>s'. schedules False 2 (k8\<lparr>sched_count := 3\<rparr>) = Some s' \<and> sched_inv s' [0] \<and> curenv s' = Some 0
    \<and> sint (sched_count s') = sint (3 :: u32) - int 2"
proof (rule time_slice)
  show "sched_inv (k8\<lparr>sched_count := 3\<rparr>) [0]" using k8_sched by (simp add: sched_inv_def)
qed simp_all

text \<open>
  Lemma (context_restored). The registers saved on the kernel stack when another environment is
  switched to are the registers an environment resumes with when it is switched back to, whatever
  happened in between that left its saved context alone; it then runs with its own ASID and page
  directory.
\<close>

theorem context_restored:
  assumes "curenv s = Some e" and "f \<noteq> e" and "env_run f s = Some s1"
    and "env_tf (envs s2 e) = env_tf (envs s1 e)" and "curenv s2 \<noteq> Some e" and "env_run e s2 = Some s3"
  shows "cpu_tf s3 = kstack_tf s \<and> curenv s3 = Some e
    \<and> entryhi s3 = push_bit 6 (env_asid (envs s2 e)) \<and> cur_pgdir s3 = Some (env_pgdir (envs s2 e))"
proof -
  have r: "env_status (envs s f) = ENV_RUNNABLE" "env_status (envs s2 e) = ENV_RUNNABLE"
    using assms(3,6) by (simp_all add: env_run_def split: if_splits)
  have "switched f s s1" using env_run_switched [OF r(1)] assms(3) by (metis option.inject)
  moreover have "switched e s2 s3" using env_run_switched [OF r(2)] assms(6) by (metis option.inject)
  ultimately show ?thesis using assms(1,2,4,5) by (simp add: switched_def)
qed

definition k8_two :: kstate where
  "k8_two = k8\<lparr>envs := (envs k8)(1 := env0\<lparr>env_status := ENV_RUNNABLE\<rparr>), kstack_tf := tf0\<lparr>cp0_epc := 0x400000\<rparr>\<rparr>"

theorem context_restored_witness:
  "\<exists>s1 s3. env_run 1 k8_two = Some s1 \<and> env_run 0 s1 = Some s3 \<and> cpu_tf s3 = tf0\<lparr>cp0_epc := 0x400000\<rparr>
    \<and> curenv s3 = Some 0"
proof -
  obtain s1 where s1: "env_run 1 k8_two = Some s1" "switched 1 k8_two s1"
    by (rule env_run_switched [of k8_two 1]) (simp_all add: k8_two_def)
  have st: "env_status (envs s1 0) = ENV_RUNNABLE" using s1(2) by (simp add: switched_def k8_two_def)
  obtain s3 where s3: "env_run 0 s1 = Some s3" by (rule env_run_switched [OF st])
  have "curenv s1 \<noteq> Some 0" using s1(2) by (simp add: switched_def)
  with context_restored [of k8_two 0 1 s1 s1 s3] s1(1) s3 show ?thesis by (simp add: k8_two_def)
qed

lemma free_pte_frame: "free_pte e pt i j s = Some s' \<Longrightarrow> mem_frame s s'"
  by (auto simp: free_pte_def split: if_splits dest: page_remove_frame)

lemma free_pde_frame: "free_pde e i s = Some s' \<Longrightarrow> mem_frame s s'"
proof -
  assume a: "free_pde e i s = Some s'"
  show ?thesis
  proof (cases "pte_valid (kmem s (env_pgdir (envs s e)) i)")
    case False
    with a show ?thesis by (simp add: free_pde_def)
  next
    case True
    with a obtain t s1 pp s2 where s: "ofold (free_pte e t i) [0..<PTX (NOT 0) + 1] s = Some s1"
      "page_decref pp (set_word (env_pgdir (envs s1 e)) i 0 s1) = Some s2"
      "s' = tlb_invalidate (env_asid (envs s2 e)) (UVPT + push_bit PGSHIFT (word_of_nat i)) s2"
      by (auto simp: free_pde_def Let_def split: if_splits)
    have "mem_frame s s1"
      using s(1) by (rule ofold_rel [where R = mem_frame, rotated -1]) (auto dest: free_pte_frame intro: mem_frame_trans)
    moreover have "mem_frame s1 s2" using page_decref_frame [OF s(2)] by simp
    ultimately have "mem_frame s s2" by (rule mem_frame_trans)
    then show ?thesis using s(3) by simp
  qed
qed

text \<open>
  Lemma (env_free_unqueued_panics). Destroying an environment that has never been put on the list of
  runnable environments, as a child that is still being set up, does not return: the removal from
  that list writes through the environment's null back link.
\<close>

theorem env_free_unqueued_panics:
  assumes "tqe_prev (env_sched_list s) e = None"
  shows "env_free e s = None"
proof (rule ccontr)
  assume "env_free e s \<noteq> None"
  then obtain s' where free: "env_free e s = Some s'" by blast
  from free obtain s0 s1 pp s2 q where
    s: "printk (''[%08x] free env %08x'' @ [CHR 0x0A])
            [ArgInt (case curenv s of Some c \<Rightarrow> env_id (envs s c) | None \<Rightarrow> 0), ArgInt (env_id (envs s e))] s = Some s0"
      "ofold (free_pde e) [0..<PDX UTOP] s0 = Some s1" "page_decref pp s1 = Some s2"
      "TAILQ_REMOVE e (env_sched_list s2) = Some q"
    by (auto simp: env_free_def simp del: append_Cons append_Nil)
  have "env_sched_list s0 = env_sched_list s" using s(1) by (auto simp: printk_def)
  moreover have "mem_frame s0 s1"
    using s(2) by (rule ofold_rel [where R = mem_frame, rotated -1]) (auto dest: free_pde_frame intro: mem_frame_trans)
  moreover have "mem_frame s1 s2" using page_decref_frame [OF s(3)] .
  ultimately have "env_sched_list s2 = env_sched_list s" using mem_frame_kstate(4) by metis
  with s(4) assms show False
    by (auto simp: TAILQ_REMOVE_def TAILQ_store_def Let_def split: option.splits if_splits)
qed

theorem env_free_unqueued_panics_witness:
  "env_free 1 (k8\<lparr>envs := (envs k8)(1 := env0\<lparr>env_status := ENV_NOT_RUNNABLE\<rparr>)\<rparr>) = None"
  by (rule env_free_unqueued_panics) (simp add: k8_def TAILQ_INSERT_HEAD_def TAILQ_INIT_def TAILQ_zero_def)

end
