(* ===== verification/Syscall.thy ===== *)
theory Syscall
  imports Sched
begin

text \<open>
  The system calls, \<open>kern/syscall_all.c\<close>. A handler returns an error or a value to its caller
  (\<open>Returns\<close>) or gives up the processor for good (\<open>Switches\<close>); \<open>None\<close> is a panic or an exception in
  the kernel. Handlers that read or write user memory do so through \<open>load_addr\<close> and \<open>store_addr\<close>
  with the ASID of the current environment. Device registers are outside the program: the accesses to
  them are recorded in \<open>mmio\<close> and the values they deliver are the argument \<open>dev\<close>, which may
  depend on the accesses so far. \<open>do_syscall\<close> dispatches on the number in \<open>a0\<close>; a handler without a
  result leaves the argument \<open>junk\<close> in the result register.
\<close>

section \<open>Definitions\<close>

datatype sysret = Returns "err + u32" | Switches

type_synonym handler = "kstate \<Rightarrow> (sysret \<times> kstate) option"

abbreviation ret :: "u32 \<Rightarrow> handler" where
  "ret v s \<equiv> Some (Returns (Inr v), s)"

abbreviation fail :: "err \<Rightarrow> handler" where
  "fail e s \<equiv> Some (Returns (Inl e), s)"

definition cur_asid :: "kstate \<Rightarrow> u32" where
  "cur_asid s = drop_bit 6 (entryhi s) AND 0x3F"

text \<open>The \<open>try\<close> of a call of \<open>envid2env\<close>; a null result is dereferenced by every caller.\<close>

definition with_env :: "u32 \<Rightarrow> bool \<Rightarrow> (nat \<Rightarrow> handler) \<Rightarrow> handler" where
  "with_env envid checkperm f s = do {
     r \<leftarrow> envid2env envid checkperm s;
     (case r of
        Inl e \<Rightarrow> fail e s
      | Inr p \<Rightarrow> do { e \<leftarrow> p; f e s })
   }"

definition printcharc :: "u8 \<Rightarrow> kstate \<Rightarrow> kstate" where
  "printcharc c s = s\<lparr>cons_out := cons_out s @ [char_of (unat c)]\<rparr>"

definition sys_putchar :: "u32 \<Rightarrow> u32 \<Rightarrow> handler" where
  "sys_putchar junk c s = ret junk (printcharc (ucast c) s)"

definition print_user_byte :: "u32 \<Rightarrow> nat \<Rightarrow> kstate \<Rightarrow> kstate option" where
  "print_user_byte p i s = do {
     (c, s) \<leftarrow> load_byte (cur_asid s) (p + word_of_nat i) s;
     Some (printcharc c s)
   }"

definition sys_print_cons :: "u32 \<Rightarrow> u32 \<Rightarrow> handler" where
  "sys_print_cons p num s = (
     if p + num > UTOP \<or> p \<ge> UTOP \<or> p > p + num then fail E_INVAL s
     else do {
       s \<leftarrow> ofold (print_user_byte p) [0..<unat num] s;
       ret 0 s
     })"

definition sys_getenvid :: "handler" where
  "sys_getenvid s = do { c \<leftarrow> curenv s; ret (env_id (envs s c)) s }"

definition sys_yield :: "handler" where
  "sys_yield s = do { s \<leftarrow> schedule True s; Some (Switches, s) }"

definition sys_env_destroy :: "u32 \<Rightarrow> handler" where
  "sys_env_destroy envid = with_env envid True (\<lambda>e s. do {
     c \<leftarrow> curenv s;
     s \<leftarrow> printk (''[%08x] destroying %08x'' @ [CHR 0x0A]) [ArgInt (env_id (envs s c)), ArgInt (env_id (envs s e))] s;
     (r, s) \<leftarrow> env_destroy e s;
     (case r of None \<Rightarrow> Some (Switches, s) | Some _ \<Rightarrow> ret 0 s)
   })"

definition sys_set_tlb_mod_entry :: "u32 \<Rightarrow> u32 \<Rightarrow> handler" where
  "sys_set_tlb_mod_entry envid func = with_env envid True (\<lambda>e s.
     ret 0 (upd_env e (\<lambda>x. x\<lparr>env_user_tlb_mod_entry := func\<rparr>) s))"

definition is_illegal_va :: "u32 \<Rightarrow> bool" where
  "is_illegal_va va \<longleftrightarrow> va < UTEMP \<or> va \<ge> UTOP"

definition is_illegal_va_range :: "u32 \<Rightarrow> u32 \<Rightarrow> bool" where
  "is_illegal_va_range va len \<longleftrightarrow>
     (if len = 0 then False else va + len < va \<or> va < UTEMP \<or> va + len > UTOP)"

text \<open>The result of \<open>page_insert\<close> as the result of the call.\<close>

definition insert_ret :: "nat \<Rightarrow> nat \<Rightarrow> u32 \<Rightarrow> u32 \<Rightarrow> handler" where
  "insert_ret e pp va perm s = do {
     (r, s) \<leftarrow> page_insert (env_pgdir (envs s e)) (env_asid (envs s e)) pp va perm s;
     (case r of Inl x \<Rightarrow> fail x s | Inr _ \<Rightarrow> ret 0 s)
   }"

definition sys_mem_alloc :: "u32 \<Rightarrow> u32 \<Rightarrow> u32 \<Rightarrow> handler" where
  "sys_mem_alloc envid va perm s = (
     if is_illegal_va va then fail E_INVAL s
     else with_env envid True (\<lambda>e s. do {
       (r, s) \<leftarrow> page_alloc s;
       (case r of
          Inl x \<Rightarrow> fail x s
        | Inr pp \<Rightarrow> insert_ret e pp va perm s)
     }) s)"

definition sys_mem_map :: "u32 \<Rightarrow> u32 \<Rightarrow> u32 \<Rightarrow> u32 \<Rightarrow> u32 \<Rightarrow> handler" where
  "sys_mem_map srcid srcva dstid dstva perm s = (
     if is_illegal_va srcva \<or> is_illegal_va dstva then fail E_INVAL s
     else with_env srcid True (\<lambda>srcenv.
       with_env dstid True (\<lambda>dstenv s. do {
         (r, s) \<leftarrow> page_lookup (env_pgdir (envs s srcenv)) srcva s;
         (case r of
            None \<Rightarrow> fail E_INVAL s
          | Some (pp, _) \<Rightarrow> insert_ret dstenv pp dstva perm s)
       })) s)"

definition sys_mem_unmap :: "u32 \<Rightarrow> u32 \<Rightarrow> handler" where
  "sys_mem_unmap envid va s = (
     if is_illegal_va va then fail E_INVAL s
     else with_env envid True (\<lambda>e s. do {
       s \<leftarrow> page_remove (env_pgdir (envs s e)) (env_asid (envs s e)) va s;
       ret 0 s
     }) s)"

definition sys_exofork :: "handler" where
  "sys_exofork s = do {
     c \<leftarrow> curenv s;
     (r, s) \<leftarrow> env_alloc (env_id (envs s c)) s;
     (case r of
        Inl x \<Rightarrow> fail x s
      | Inr e \<Rightarrow>
          let s = upd_env e (\<lambda>x. x\<lparr>env_tf := kstack_tf s\<rparr>) s;
              s = upd_env e (\<lambda>x. x\<lparr>env_tf := (env_tf x)\<lparr>regs := (regs (env_tf x))(2 := 0)\<rparr>\<rparr>) s;
              s = upd_env e (\<lambda>x. x\<lparr>env_status := ENV_NOT_RUNNABLE\<rparr>) s;
              s = upd_env e (\<lambda>x. x\<lparr>env_pri := env_pri (envs s c)\<rparr>) s
          in ret (env_id (envs s e)) s)
   }"

definition sys_set_env_status :: "u32 \<Rightarrow> u32 \<Rightarrow> handler" where
  "sys_set_env_status envid status s = (
     if status \<noteq> ENV_RUNNABLE \<and> status \<noteq> ENV_NOT_RUNNABLE then fail E_INVAL s
     else with_env envid True (\<lambda>e s. do {
       s \<leftarrow> (if env_status (envs s e) = ENV_RUNNABLE \<and> status = ENV_NOT_RUNNABLE then do {
               q \<leftarrow> TAILQ_REMOVE e (env_sched_list s);
               Some (s\<lparr>env_sched_list := q\<rparr>)
             }
             else if env_status (envs s e) = ENV_NOT_RUNNABLE \<and> status = ENV_RUNNABLE then do {
               q \<leftarrow> TAILQ_INSERT_TAIL e (env_sched_list s);
               Some (s\<lparr>env_sched_list := q\<rparr>)
             }
             else Some s);
       ret 0 (upd_env e (\<lambda>x. x\<lparr>env_status := status\<rparr>) s)
     }) s)"

text \<open>A trap frame in user memory: 38 words.\<close>

definition SIZEOF_TF :: u32 where "SIZEOF_TF = 152"

primrec load_words :: "u32 \<Rightarrow> u32 \<Rightarrow> nat \<Rightarrow> kstate \<Rightarrow> (u32 list \<times> kstate) option" where
  "load_words asid va 0 s = Some ([], s)"
| "load_words asid va (Suc n) s = do {
     (ws, s) \<leftarrow> load_words asid va n s;
     (w, s) \<leftarrow> load_addr asid (va + word_of_nat (4 * n)) s;
     Some (ws @ [w], s)
   }"

definition words_tf :: "u32 list \<Rightarrow> trapframe" where
  "words_tf ws = \<lparr>regs = (\<lambda>i. if i < 32 then ws ! i else 0), cp0_status = ws ! 32, tf_hi = ws ! 33, tf_lo = ws ! 34,
     cp0_badvaddr = ws ! 35, cp0_cause = ws ! 36, cp0_epc = ws ! 37\<rparr>"

definition tf_words :: "trapframe \<Rightarrow> u32 list" where
  "tf_words tf = map (regs tf) [0..<32] @ [cp0_status tf, tf_hi tf, tf_lo tf, cp0_badvaddr tf, cp0_cause tf, cp0_epc tf]"

definition sys_set_trapframe :: "u32 \<Rightarrow> u32 \<Rightarrow> handler" where
  "sys_set_trapframe envid tf s = (
     if is_illegal_va_range tf SIZEOF_TF then fail E_INVAL s
     else with_env envid True (\<lambda>e s. do {
       (ws, s) \<leftarrow> load_words (cur_asid s) tf 38 s;
       if curenv s = Some e then ret (regs (words_tf ws) 2) (s\<lparr>kstack_tf := words_tf ws\<rparr>)
       else ret 0 (upd_env e (\<lambda>x. x\<lparr>env_tf := words_tf ws\<rparr>) s)
     }) s)"

definition sys_panic :: "u32 \<Rightarrow> handler" where
  "sys_panic msg s = None"

definition sys_ipc_recv :: "u32 \<Rightarrow> handler" where
  "sys_ipc_recv dstva s = (
     if dstva \<noteq> 0 \<and> is_illegal_va dstva then fail E_INVAL s
     else do {
       c \<leftarrow> curenv s;
       let s = upd_env c (\<lambda>x. x\<lparr>env_ipc_recving := 1\<rparr>) s;
       let s = upd_env c (\<lambda>x. x\<lparr>env_ipc_dstva := dstva\<rparr>) s;
       let s = upd_env c (\<lambda>x. x\<lparr>env_status := ENV_NOT_RUNNABLE\<rparr>) s;
       q \<leftarrow> TAILQ_REMOVE c (env_sched_list s);
       let s = s\<lparr>env_sched_list := q\<rparr>;
       let s = s\<lparr>kstack_tf := (kstack_tf s)\<lparr>regs := (regs (kstack_tf s))(2 := 0)\<rparr>\<rparr>;
       s \<leftarrow> schedule True s;
       Some (Switches, s)
     })"

text \<open>The receiver is made runnable before the page is looked up, and the mapping's result is dropped.\<close>

definition sys_ipc_try_send :: "u32 \<Rightarrow> u32 \<Rightarrow> u32 \<Rightarrow> u32 \<Rightarrow> handler" where
  "sys_ipc_try_send envid val srcva perm s = (
     if srcva \<noteq> 0 \<and> is_illegal_va srcva then fail E_INVAL s
     else with_env envid False (\<lambda>e s.
       if env_ipc_recving (envs s e) = 0 then fail E_IPC_NOT_RECV s
       else do {
         c \<leftarrow> curenv s;
         let s = upd_env e (\<lambda>x. x\<lparr>env_ipc_value := val\<rparr>) s;
         let s = upd_env e (\<lambda>x. x\<lparr>env_ipc_from := env_id (envs s c)\<rparr>) s;
         let s = upd_env e (\<lambda>x. x\<lparr>env_ipc_perm := PTE_V OR perm\<rparr>) s;
         let s = upd_env e (\<lambda>x. x\<lparr>env_ipc_recving := 0\<rparr>) s;
         let s = upd_env e (\<lambda>x. x\<lparr>env_status := ENV_RUNNABLE\<rparr>) s;
         q \<leftarrow> TAILQ_INSERT_TAIL e (env_sched_list s);
         let s = s\<lparr>env_sched_list := q\<rparr>;
         if srcva \<noteq> 0 then do {
           (r, s) \<leftarrow> page_lookup (env_pgdir (envs s c)) srcva s;
           (case r of
              None \<Rightarrow> fail E_INVAL s
            | Some (p, _) \<Rightarrow> do {
                (r, s) \<leftarrow> page_insert (env_pgdir (envs s e)) (env_asid (envs s e)) p (env_ipc_dstva (envs s e)) perm s;
                ret 0 s
              })
         }
         else ret 0 s
       }) s)"

text \<open>The busy wait for a character: it does not end when the console never delivers one.\<close>

fun scan_nonzero :: "u8 list \<Rightarrow> (u8 \<times> u8 list) option" where
  "scan_nonzero [] = None"
| "scan_nonzero (c # cs) = (if c = 0 then scan_nonzero cs else Some (c, cs))"

definition sys_cgetc :: "handler" where
  "sys_cgetc s = do {
     (c, cs) \<leftarrow> scan_nonzero (cons_in s);
     ret (scast c) (s\<lparr>cons_in := cs\<rparr>)
   }"

definition is_dev_range :: "u32 \<Rightarrow> u32 \<Rightarrow> bool" where
  "is_dev_range pa len \<longleftrightarrow> pa \<ge> 0x10000000 \<and> pa + len \<le> 0x10000020
     \<or> pa \<ge> 0x13000000 \<and> pa + len \<le> 0x13004200 \<or> pa \<ge> 0x15000000 \<and> pa + len \<le> 0x15000200"

text \<open>
  The copies from and to a device use \<open>memcpy\<close>, whose loops access words where source and
  destination are aligned alike and bytes otherwise: the offsets it visits and whether it moves a
  word there. Above \<open>KSEG1\<close> an access goes to a device, below it to memory.
\<close>

definition memcpy_plan :: "u32 \<Rightarrow> u32 \<Rightarrow> u32 \<Rightarrow> (nat \<times> bool) list" where
  "memcpy_plan dst src n = (
     if src AND 3 \<noteq> dst AND 3 then map (\<lambda>i. (i, False)) [0..<unat n]
     else
       let a = min (unat ((- dst) AND 3)) (unat n);
           k = (unat n - a) div 4
       in map (\<lambda>i. (i, False)) [0..<a] @ map (\<lambda>i. (a + 4 * i, True)) [0..<k]
            @ map (\<lambda>i. (i, False)) [a + 4 * k..<unat n])"

type_synonym device = "io list \<Rightarrow> u32 \<Rightarrow> u32"

definition bus_read :: "device \<Rightarrow> u32 \<Rightarrow> bool \<Rightarrow> kstate \<Rightarrow> (u32 \<times> kstate) option" where
  "bus_read dev a wide s = (
     if a \<ge> KSEG1 then
       Some (if wide then dev (mmio s) a else dev (mmio s) a AND 0xFF,
             s\<lparr>mmio := mmio s @ [if wide then Read32 a else Read8 a]\<rparr>)
     else if wide then load_addr (cur_asid s) a s
     else map_option (\<lambda>(b, s). (ucast b, s)) (load_byte (cur_asid s) a s))"

definition bus_write :: "u32 \<Rightarrow> bool \<Rightarrow> u32 \<Rightarrow> kstate \<Rightarrow> kstate option" where
  "bus_write a wide v s = (
     if a \<ge> KSEG1 then
       Some (s\<lparr>mmio := mmio s @ [if wide then Write32 a v else Write8 a (ucast v)]\<rparr>)
     else if wide then store_addr (cur_asid s) a v s
     else store_byte (cur_asid s) a (ucast v) s)"

definition bus_move :: "device \<Rightarrow> u32 \<Rightarrow> u32 \<Rightarrow> nat \<times> bool \<Rightarrow> kstate \<Rightarrow> kstate option" where
  "bus_move dev dst src c s = do {
     (v, s) \<leftarrow> bus_read dev (src + word_of_nat (fst c)) (snd c) s;
     bus_write (dst + word_of_nat (fst c)) (snd c) v s
   }"

definition bus_memcpy :: "device \<Rightarrow> u32 \<Rightarrow> u32 \<Rightarrow> u32 \<Rightarrow> kstate \<Rightarrow> kstate option" where
  "bus_memcpy dev dst src n = ofold (bus_move dev dst src) (memcpy_plan dst src n)"

definition sys_write_dev :: "device \<Rightarrow> u32 \<Rightarrow> u32 \<Rightarrow> u32 \<Rightarrow> handler" where
  "sys_write_dev dev va pa len s = (
     if is_illegal_va_range va len then fail E_INVAL s
     else if \<not> is_dev_range pa len then fail E_INVAL s
     else do {
       s \<leftarrow> bus_memcpy dev (pa + KSEG1) va len s;
       ret 0 s
     })"

definition sys_read_dev :: "device \<Rightarrow> u32 \<Rightarrow> u32 \<Rightarrow> u32 \<Rightarrow> handler" where
  "sys_read_dev dev va pa len s = (
     if is_illegal_va_range va len then fail E_INVAL s
     else if \<not> is_dev_range pa len then fail E_INVAL s
     else do {
       s \<leftarrow> bus_memcpy dev va (pa + KSEG1) len s;
       ret 0 s
     })"

section \<open>Dispatch\<close>

definition MAX_SYSNO :: nat where "MAX_SYSNO = 18"

definition syscall_table :: "device \<Rightarrow> u32 \<Rightarrow> nat \<Rightarrow> u32 \<Rightarrow> u32 \<Rightarrow> u32 \<Rightarrow> u32 \<Rightarrow> u32 \<Rightarrow> handler" where
  "syscall_table dev junk sysno a1 a2 a3 a4 a5 = [
     sys_putchar junk a1,
     sys_print_cons a1 a2,
     sys_getenvid,
     sys_yield,
     sys_env_destroy a1,
     sys_set_tlb_mod_entry a1 a2,
     sys_mem_alloc a1 a2 a3,
     sys_mem_map a1 a2 a3 a4 a5,
     sys_mem_unmap a1 a2,
     sys_exofork,
     sys_set_env_status a1 a2,
     sys_set_trapframe a1 a2,
     sys_panic a1,
     sys_ipc_try_send a1 a2 a3 a4,
     sys_ipc_recv a1,
     sys_cgetc,
     sys_write_dev dev a1 a2 a3,
     sys_read_dev dev a1 a2 a3] ! sysno"

definition set_v0 :: "u32 \<Rightarrow> kstate \<Rightarrow> kstate" where
  "set_v0 v s = s\<lparr>kstack_tf := (kstack_tf s)\<lparr>regs := (regs (kstack_tf s))(2 := v)\<rparr>\<rparr>"

definition ret_word :: "err + u32 \<Rightarrow> u32" where
  "ret_word r = (case r of Inl e \<Rightarrow> - errno e | Inr v \<Rightarrow> v)"

text \<open>\<open>True\<close>: the call returns to the interrupted environment.\<close>

definition do_syscall :: "device \<Rightarrow> u32 \<Rightarrow> kstate \<Rightarrow> (bool \<times> kstate) option" where
  "do_syscall dev junk s = (
     let tf = kstack_tf s; sysno = regs tf 4
     in if sint sysno < 0 \<or> sint sysno \<ge> int MAX_SYSNO then Some (True, set_v0 (- errno E_NO_SYS) s)
        else do {
          let s = s\<lparr>kstack_tf := tf\<lparr>cp0_epc := cp0_epc tf + 4\<rparr>\<rparr>;
          (arg4, s) \<leftarrow> load_addr (cur_asid s) (regs tf 29 + 16) s;
          (arg5, s) \<leftarrow> load_addr (cur_asid s) (regs tf 29 + 20) s;
          (r, s) \<leftarrow> syscall_table dev junk (unat sysno) (regs tf 5) (regs tf 6) (regs tf 7) arg4 arg5 s;
          (case r of
             Returns v \<Rightarrow> Some (True, set_v0 (ret_word v) s)
           | Switches \<Rightarrow> Some (False, s))
        })"

text \<open>
  The trap around it (\<open>kern/genex.S\<close>): the registers are saved on the kernel stack and, when the
  call returns, restored from there.
\<close>

definition handle_sys :: "device \<Rightarrow> u32 \<Rightarrow> kstate \<Rightarrow> kstate option" where
  "handle_sys dev junk s = do {
     (returns, s) \<leftarrow> do_syscall dev junk (s\<lparr>kstack_tf := cpu_tf s\<rparr>);
     Some (if returns then s\<lparr>cpu_tf := kstack_tf s\<rparr> else s)
   }"

definition handle_int :: "kstate \<Rightarrow> kstate option" where
  "handle_int s = schedule False (s\<lparr>kstack_tf := cpu_tf s\<rparr>)"

section \<open>TLB modification exceptions\<close>

text \<open>\<open>do_tlb_mod\<close> (\<open>kern/tlbex.c\<close>): the trap frame is pushed on the user exception stack.\<close>

primrec store_words :: "u32 \<Rightarrow> u32 \<Rightarrow> u32 list \<Rightarrow> kstate \<Rightarrow> kstate option" where
  "store_words asid va [] s = Some s"
| "store_words asid va (w # ws) s = do {
     s \<leftarrow> store_addr asid va w s;
     store_words asid (va + 4) ws s
   }"

definition do_tlb_mod :: "kstate \<Rightarrow> kstate option" where
  "do_tlb_mod s = do {
     let tmp_tf = kstack_tf s;
     let sp = (if regs tmp_tf 29 < USTACKTOP \<or> regs tmp_tf 29 \<ge> UXSTACKTOP then UXSTACKTOP else regs tmp_tf 29);
     let sp = sp - SIZEOF_TF;
     s \<leftarrow> store_words (cur_asid s) sp (tf_words tmp_tf) s;
     c \<leftarrow> curenv s;
     if env_user_tlb_mod_entry (envs s c) \<noteq> 0 then
       Some (s\<lparr>kstack_tf := (kstack_tf s)\<lparr>regs := (regs (kstack_tf s))(4 := sp, 29 := sp - 4),
               cp0_epc := env_user_tlb_mod_entry (envs s c)\<rparr>\<rparr>)
     else None
   }"

end
