(* ===== verification/Kernel_Inv.thy ===== *)
theory Kernel_Inv
  imports Syscall
begin

text \<open>
  The invariant of the whole kernel. Beside the memory invariant for the directories of all live
  environments it says that no page table and no directory is mapped below \<open>UTOP\<close> (so user code
  cannot reach one there), that the list of runnable environments and the free list hold what their
  names say, that address spaces and ASIDs are not shared, that ids lead back to their slots and
  that the processor runs in the address space of the current environment.
\<close>

section \<open>Separation of user pages from page tables\<close>

definition user_sep :: "nat set \<Rightarrow> 'a mstate_scheme \<Rightarrow> bool" where
  "user_sep D s \<longleftrightarrow> (\<forall>d\<in>D. \<forall>i<NUPDE. \<forall>j<1024. \<forall>pte. aspace s d i j = Some pte
     \<longrightarrow> \<not> is_table s D (PPN pte) \<and> PPN pte \<notin> D)"

lemma user_sepD:
  "user_sep D s \<Longrightarrow> d \<in> D \<Longrightarrow> i < NUPDE \<Longrightarrow> j < 1024 \<Longrightarrow> aspace s d i j = Some pte
    \<Longrightarrow> \<not> is_table s D (PPN pte) \<and> PPN pte \<notin> D"
  by (auto simp: user_sep_def)

lemma user_sep_cong: "is_table s' D = is_table s D \<Longrightarrow> aspace s' = aspace s \<Longrightarrow> user_sep D s' = user_sep D s"
  by (simp add: user_sep_def)

text \<open>A mapped page is not on the free list.\<close>

lemma mapped_not_free:
  assumes "mem_inv ext D s" and "d \<in> D" and "i < NUPDE" and "j < 1024" and "aspace s d i j = Some pte"
  shows "PPN pte \<notin> on_free_list s" and "PPN pte < npage s"
proof -
  let ?t = "PPN (kmem s d i)"
  have v: "pte_valid (kmem s d i)" "kmem s ?t j = pte" "pte_valid pte"
    using assms(5) by (auto simp: aspace_def Let_def split: if_splits)
  have t: "is_table s D ?t" using is_tableI [OF assms(2,3) v(1)] .
  then have c: "(?t, j) \<in> cells s D" using assms(4) by (simp add: cells_def)
  then have "(?t, j) \<in> refset s D (PPN pte)" using v by (simp add: refset_def)
  then show "PPN pte \<notin> on_free_list s"
    using assms(1) free_inv_on_free_list [of s "PPN pte"] free_unreferenced [OF assms(1), of "PPN pte"]
    by (auto simp: mem_inv_def)
  show "PPN pte < npage s" using assms(1) c v by (force simp: mem_inv_def table_inv_def)
qed

text \<open>Growth of the tables by free pages, and of the mappings by a page that is neither.\<close>

lemma user_sep_step:
  assumes inv: "mem_inv ext D s" and sep: "user_sep D s"
    and tab: "\<And>t. is_table s' D t \<Longrightarrow> is_table s D t \<or> t \<in> on_free_list s"
    and asp: "\<And>d i j pte. d \<in> D \<Longrightarrow> i < NUPDE \<Longrightarrow> j < 1024 \<Longrightarrow> aspace s' d i j = Some pte
      \<Longrightarrow> aspace s d i j = Some pte \<or> \<not> is_table s D (PPN pte) \<and> PPN pte \<notin> D \<and> PPN pte \<notin> on_free_list s"
  shows "user_sep D s'"
  unfolding user_sep_def
proof (intro ballI allI impI)
  fix d i j pte
  assume d: "d \<in> D" "i < NUPDE" "j < 1024" and m: "aspace s' d i j = Some pte"
  from asp [OF d m] have "\<not> is_table s D (PPN pte) \<and> PPN pte \<notin> D \<and> PPN pte \<notin> on_free_list s"
    using user_sepD [OF sep d] mapped_not_free [OF inv d] by blast
  with tab show "\<not> is_table s' D (PPN pte) \<and> PPN pte \<notin> D" by blast
qed

lemma user_sep_insert:
  assumes inv: "mem_inv ext D s" and sep: "user_sep D s" and d: "d \<in> D" "va < UTOP" "perm < 4096"
    and q: "q < npage s" "q \<notin> on_free_list s" "unat (pp_ref s q) < 65535" "\<not> is_table s D q" "q \<notin> D"
  obtains r s' where "page_insert d a q va perm s = Some (r, s')" and "mem_inv ext D s'"
    and "insert_outcome D d va (page2pa q OR perm OR PTE_V) s r s'" and "mem_frame s s'" and "user_sep D s'"
    and "\<And>x. x \<notin> D \<Longrightarrow> \<not> is_table s D x \<Longrightarrow> x \<notin> on_free_list s \<Longrightarrow> kmem s' x = kmem s x"
proof -
  from page_insert_spec [OF inv d q(1-3), of a] obtain r s' where
    s': "page_insert d a q va perm s = Some (r, s')" "mem_inv ext D s'"
      "insert_outcome D d va (page2pa q OR perm OR PTE_V) s r s'"
      "\<And>t. is_table s' D t \<Longrightarrow> is_table s D t \<or> t \<in> on_free_list s"
      "\<And>x. x \<notin> D \<Longrightarrow> \<not> is_table s D x \<Longrightarrow> x \<notin> on_free_list s \<Longrightarrow> kmem s' x = kmem s x"
    by metis
  have ppn: "PPN (page2pa q OR perm OR PTE_V) = q" using inv q(1) d(3) by (simp add: mem_inv_def)
  have "user_sep D s'"
  proof (rule user_sep_step [OF inv sep s'(4)])
    fix d' i j pte
    assume "d' \<in> D" "i < NUPDE" "j < 1024" "aspace s' d' i j = Some pte"
    then show "aspace s d' i j = Some pte \<or> \<not> is_table s D (PPN pte) \<and> PPN pte \<notin> D \<and> PPN pte \<notin> on_free_list s"
      using s'(3) ppn q same_kmem(4) [of s' s]
      by (auto simp: insert_outcome_def split: sum.splits if_splits)
  qed
  with s' that page_insert_frame [OF s'(1)] show thesis by blast
qed

lemma user_sep_remove:
  assumes inv: "mem_inv ext D s" and sep: "user_sep D s" and d: "d \<in> D" "va < UTOP"
  obtains s' where "page_remove d a va s = Some s'" and "mem_inv ext D s'" and "mem_frame s s'" and "user_sep D s'"
    and "\<And>d' i j. d' \<in> D \<Longrightarrow> i < NUPDE \<Longrightarrow> aspace s' d' i j
       = (if d' = d \<and> i = PDX va \<and> j = PTX va then None else aspace s d' i j)"
    and "\<And>x. \<not> is_table s D x \<Longrightarrow> kmem s' x = kmem s x"
proof (cases "aspace s d (PDX va) (PTX va)")
  case None
  with inv d have "page_remove d a va s = Some s" by (intro page_remove_unmapped) (auto simp: mem_inv_def)
  with None inv sep that [of s] show thesis by auto
next
  case (Some pte)
  from page_remove_mapped [OF inv d Some, of a] obtain s' where
    s': "page_remove d a va s = Some s'" "mem_inv ext D s'"
      "\<And>d' i j. d' \<in> D \<Longrightarrow> i < NUPDE \<Longrightarrow> aspace s' d' i j
        = (if d' = d \<and> i = PDX va \<and> j = PTX va then None else aspace s d' i j)"
      "\<And>x k. x \<in> D \<Longrightarrow> kmem s' x k = kmem s x k" "\<And>x. \<not> is_table s D x \<Longrightarrow> kmem s' x = kmem s x"
    by metis
  have "user_sep D s'"
    using s'(3) is_table_cong [of D s' s] s'(4) by (intro user_sep_step [OF inv sep]) (auto split: if_splits)
  with s' that page_remove_frame [OF s'(1)] show thesis by metis
qed

lemma user_sep_alloc:
  assumes inv: "mem_inv ext D s" and sep: "user_sep D s" and free: "on_free_list s \<noteq> {}"
  obtains p s' where "page_alloc s = Some (Inr p, s')" and "mem_inv ext D s'" and "mem_frame s s'" and "user_sep D s'"
    and "p < npage s'" and "p \<notin> on_free_list s'" and "pp_ref s' p = 0" and "\<not> is_table s' D p" and "p \<notin> D"
    and "\<And>k. kmem s' p k = 0" and "p \<in> on_free_list s"
    and "\<And>d i j. d \<in> D \<Longrightarrow> i < NUPDE \<Longrightarrow> j < 1024 \<Longrightarrow> aspace s' d i j = aspace s d i j"
proof -
  from page_alloc_nonempty [OF inv free] obtain p s' where
    s': "page_alloc s = Some (Inr p, s')" "mem_inv ext D s'" "fresh_page s' p" "p \<in> on_free_list s" "same_tables s s' D"
    by metis
  have "user_sep D s'"
    using same_tables_is_table [OF s'(5)] same_tables_aspace [OF s'(5)]
    by (intro user_sep_step [OF inv sep]) auto
  moreover have "\<not> is_table s' D p" "p \<notin> D"
    using s'(3) free_unreferenced [OF s'(2), of p] by (auto simp: fresh_page_def)
  ultimately show thesis
    using that [OF s'(1,2) page_alloc_frame [OF s'(1)]] s'(3,4) same_tables_aspace [OF s'(5)]
    by (simp add: fresh_page_def)
qed

section \<open>The invariant\<close>

definition live :: "kstate \<Rightarrow> nat set" where
  "live s = {e. e < NENV \<and> env_status (envs s e) \<noteq> ENV_FREE}"

definition dirs :: "kstate \<Rightarrow> nat set" where
  "dirs s = (\<lambda>e. env_pgdir (envs s e)) ` live s"

definition env_inv :: "kstate \<Rightarrow> bool" where
  "env_inv s \<longleftrightarrow> (\<exists>xs. sched_inv s xs)
     \<and> (\<exists>fl. LIST_rep (env_free_list s) fl \<and> set fl = {..<NENV} - live s)
     \<and> inj_on (\<lambda>e. env_pgdir (envs s e)) (live s)
     \<and> inj_on (\<lambda>e. env_asid (envs s e)) (live s)
     \<and> asids s = (\<lambda>e. unat (env_asid (envs s e))) ` live s \<and> length (asid_bitmap s) = 2
     \<and> (\<forall>e\<in>live s. ENVX (env_id (envs s e)) = e)"

definition cur_inv :: "kstate \<Rightarrow> bool" where
  "cur_inv s \<longleftrightarrow> (\<forall>c. curenv s = Some c \<longrightarrow> c \<in> live s \<and> cur_pgdir s = Some (env_pgdir (envs s c))
     \<and> entryhi s = push_bit 6 (env_asid (envs s c)))"

definition kmem_inv :: "kstate \<Rightarrow> bool" where
  "kmem_inv s \<longleftrightarrow> npage s \<le> 2 ^ 19 \<and> base_pgdir s < npage s
     \<and> (\<exists>ext. mem_inv ext (dirs s) s \<and> 0 < ext (base_pgdir s)) \<and> user_sep (dirs s) s"

definition kernel_inv :: "kstate \<Rightarrow> bool" where
  "kernel_inv s \<longleftrightarrow> kmem_inv s \<and> env_inv s \<and> cur_inv s"

lemma live_less: "e \<in> live s \<Longrightarrow> e < NENV"
  by (simp add: live_def)

lemma live_dirs [simp]: "e \<in> live s \<Longrightarrow> env_pgdir (envs s e) \<in> dirs s"
  by (simp add: dirs_def)

lemma asid_bound: "env_inv s \<Longrightarrow> e \<in> live s \<Longrightarrow> unat (env_asid (envs s e)) < NASID"
proof -
  assume "env_inv s" "e \<in> live s"
  then have "unat (env_asid (envs s e)) \<in> asids s" by (auto simp: env_inv_def)
  then show ?thesis by (auto simp: asids_def bm_set_def)
qed

text \<open>What the invariant reads of an environment.\<close>

definition env_core :: "env \<Rightarrow> u32 \<times> nat \<times> u32 \<times> u32" where
  "env_core x = (env_status x, env_pgdir x, env_asid x, env_id x)"

lemma env_core_fields:
  assumes "env_core x = env_core y"
  shows "env_status x = env_status y" "env_pgdir x = env_pgdir y" "env_asid x = env_asid y" "env_id x = env_id y"
  using assms by (simp_all add: env_core_def)

lemma live_cong:
  assumes "\<And>e. env_core (envs s' e) = env_core (envs s e)"
  shows "live s' = live s"
  unfolding live_def env_core_fields(1) [OF assms] ..

lemma dirs_cong:
  assumes "\<And>e. env_core (envs s' e) = env_core (envs s e)"
  shows "dirs s' = dirs s"
  unfolding dirs_def env_core_fields(2) [OF assms] live_cong [OF assms] ..

lemma env_inv_cong:
  assumes "\<And>e. env_core (envs s' e) = env_core (envs s e)" and "env_sched_list s' = env_sched_list s"
    and "env_free_list s' = env_free_list s" and "asid_bitmap s' = asid_bitmap s"
  shows "env_inv s' = env_inv s"
  unfolding env_inv_def sched_inv_def asids_def env_core_fields [OF assms(1)] live_cong [OF assms(1)] assms(2-4) ..

lemma cur_inv_cong:
  assumes "\<And>e. env_core (envs s' e) = env_core (envs s e)" and "curenv s' = curenv s"
    and "cur_pgdir s' = cur_pgdir s" and "entryhi s' = entryhi s"
  shows "cur_inv s' = cur_inv s"
  unfolding cur_inv_def env_core_fields [OF assms(1)] live_cong [OF assms(1)] assms(2-4) ..

lemma kmem_inv_cong:
  assumes "\<And>e. env_core (envs s' e) = env_core (envs s e)"
    and "kmem s' = kmem s" "npage s' = npage s" "pp_ref s' = pp_ref s" "page_free_list s' = page_free_list s"
    and "base_pgdir s' = base_pgdir s"
  shows "kmem_inv s' = kmem_inv s"
  using same_kmem_mem_inv [OF assms(2-5)] dirs_cong [OF assms(1)] user_sep_cong [OF same_kmem(1,4) [OF assms(2)]]
  by (simp add: kmem_inv_def assms(3,6))

text \<open>Changes of registers, the console, the devices and the other fields of environments.\<close>

lemma kernel_inv_cong:
  assumes "\<And>e. env_core (envs s' e) = env_core (envs s e)"
    and "kmem s' = kmem s" "npage s' = npage s" "pp_ref s' = pp_ref s" "page_free_list s' = page_free_list s"
    and "base_pgdir s' = base_pgdir s"
    and "env_sched_list s' = env_sched_list s" "env_free_list s' = env_free_list s" "asid_bitmap s' = asid_bitmap s"
    and "curenv s' = curenv s" "cur_pgdir s' = cur_pgdir s" "entryhi s' = entryhi s"
  shows "kernel_inv s' = kernel_inv s"
  using env_inv_cong [OF assms(1,7-9)] cur_inv_cong [OF assms(1,10-12)] kmem_inv_cong [OF assms(1-6)]
  by (simp add: kernel_inv_def)

lemma kernel_inv_updates [simp]:
  "kernel_inv (s\<lparr>kstack_tf := tf\<rparr>) = kernel_inv s" "kernel_inv (s\<lparr>cpu_tf := tf\<rparr>) = kernel_inv s"
  "kernel_inv (s\<lparr>cons_out := out\<rparr>) = kernel_inv s" "kernel_inv (s\<lparr>cons_in := inp\<rparr>) = kernel_inv s"
  "kernel_inv (s\<lparr>mmio := l\<rparr>) = kernel_inv s" "kernel_inv (s\<lparr>sched_count := n\<rparr>) = kernel_inv s"
  by (rule kernel_inv_cong; simp)+

lemma kernel_inv_upd_env:
  "env_core (f (envs s e)) = env_core (envs s e) \<Longrightarrow> kernel_inv (upd_env e f s) = kernel_inv s"
  by (rule kernel_inv_cong) simp_all

text \<open>Memory operations leave everything but the memory alone.\<close>

lemma kernel_inv_mem:
  assumes "kernel_inv s" and "mem_frame s s'" and "mem_inv ext (dirs s) s'" and "0 < ext (base_pgdir s)"
    and "user_sep (dirs s) s'"
  shows "kernel_inv s'" and "dirs s' = dirs s" and "live s' = live s"
proof -
  note k = mem_frame_kstate [OF assms(2)]
  show "dirs s' = dirs s" using k by (intro dirs_cong) simp
  moreover show "live s' = live s" using k by (intro live_cong) simp
  moreover have "env_inv s' = env_inv s" "cur_inv s' = cur_inv s"
    using k by (intro env_inv_cong cur_inv_cong; simp)+
  ultimately show "kernel_inv s'"
    using assms(1,3-5) k by (auto simp: kernel_inv_def kmem_inv_def)
qed

lemma kernel_invE:
  assumes "kernel_inv s"
  obtains ext where "mem_inv ext (dirs s) s" and "0 < ext (base_pgdir s)" and "user_sep (dirs s) s"
    and "npage s \<le> 2 ^ 19" and "base_pgdir s \<notin> on_free_list s"
proof -
  from assms obtain ext where e: "mem_inv ext (dirs s) s" "0 < ext (base_pgdir s)" "user_sep (dirs s) s"
    "npage s \<le> 2 ^ 19" "base_pgdir s < npage s"
    by (auto simp: kernel_inv_def kmem_inv_def)
  then have "unat (pp_ref s (base_pgdir s)) > 0" by (auto simp: mem_inv_def ref_inv_def)
  then have "base_pgdir s \<notin> on_free_list s"
    using free_inv_on_free_list [of s "base_pgdir s"] e(1) by (auto simp: mem_inv_def)
  with e that show thesis by blast
qed

end
