(* ===== verification/Syscall_Props.thy ===== *)
theory Syscall_Props
  imports Kernel_Inv
begin

text \<open>
  The system calls keep the invariant of the kernel. The handlers are run on a state with a current
  environment; permissions are the twelve low bits of an entry, and reference counts have not reached
  their 16-bit limit, both of which the handlers rely on and do not check.
\<close>

section \<open>Results\<close>

definition keeps :: "(sysret \<times> kstate) option \<Rightarrow> bool" where
  "keeps r \<longleftrightarrow> (\<exists>v s'. r = Some (Returns v, s') \<and> kernel_inv s')"

lemma keepsI [intro]: "kernel_inv s' \<Longrightarrow> keeps (Some (Returns v, s'))"
  by (simp add: keeps_def)

lemma envid2env_live:
  assumes "kernel_inv s" and "curenv s = Some c"
  obtains "envid2env envid chk s = Some (Inl E_BAD_ENV)"
    | e where "e \<in> live s" and "envid2env envid chk s = Some (Inr (Some e))"
proof -
  have c: "c \<in> live s" using assms by (simp add: kernel_inv_def cur_inv_def)
  consider "envid = 0" | "envid \<noteq> 0" "ENVX envid \<notin> live s \<or> env_id (envs s (ENVX envid)) \<noteq> envid"
    | "envid \<noteq> 0" "ENVX envid \<in> live s" "env_id (envs s (ENVX envid)) = envid" by blast
  then show thesis
  proof cases
    case 1
    then show thesis using that(2) [OF c] assms(2) by (simp add: envid2env_def)
  next
    case 2
    then have "env_status (envs s (ENVX envid)) = ENV_FREE \<or> env_id (envs s (ENVX envid)) \<noteq> envid"
      using ENVX_less [of envid] unfolding live_def by blast
    then have "envid2env envid chk s = Some (Inl E_BAD_ENV)" using 2(1) by (simp add: envid2env_def Let_def)
    then show thesis by (rule that(1))
  next
    case 3
    define e where "e = ENVX envid"
    have e: "e \<in> live s" "env_id (envs s e) = envid" using 3(2,3) unfolding e_def by blast+
    have st: "env_status (envs s e) \<noteq> ENV_FREE" using e(1) unfolding live_def by blast
    have r: "envid2env envid chk s = (if chk \<and> \<not> (e = c \<or> env_parent_id (envs s e) = env_id (envs s c))
        then Some (Inl E_BAD_ENV) else Some (Inr (Some e)))"
      unfolding envid2env_def e_def [symmetric] Let_def 
      by (simp only: 3(1) e(2) st assms(2) if_False if_True simp_thms Option.bind.simps split: if_split) blast
    show thesis
    proof (cases "chk \<and> \<not> (e = c \<or> env_parent_id (envs s e) = env_id (envs s c))")
      case True
      show thesis by (rule that(1)) (simp only: r if_P [OF True])
    next
      case False
      show thesis by (rule that(2) [OF e(1)]) (simp only: r if_not_P [OF False])
    qed
  qed
qed

lemma keeps_with_env:
  assumes "kernel_inv s" and "curenv s = Some c" and "\<And>e. e \<in> live s \<Longrightarrow> keeps (f e s)"
  shows "keeps (with_env envid chk f s)"
  by (rule envid2env_live [OF assms(1,2), of envid chk]) (use assms in \<open>auto simp: with_env_def\<close>)

lemma legal_va: "\<not> is_illegal_va va \<Longrightarrow> va < UTOP"
  by (simp add: is_illegal_va_def not_le)

section \<open>Memory\<close>

lemma insert_inv:
  assumes inv: "kernel_inv s" and e: "e \<in> live s" and va: "va < UTOP" "perm < 4096"
    and q: "q < npage s" "q \<notin> on_free_list s" "unat (pp_ref s q) < 65535" "\<not> is_table s (dirs s) q" "q \<notin> dirs s"
  obtains r s' where "page_insert (env_pgdir (envs s e)) (env_asid (envs s e)) q va perm s = Some (r, s')" and "kernel_inv s'"
    and "mem_frame s s'"
proof -
  obtain ext where m: "mem_inv ext (dirs s) s" "0 < ext (base_pgdir s)" "user_sep (dirs s) s"
    by (rule kernel_invE [OF inv])
  obtain r s' where s': "page_insert (env_pgdir (envs s e)) (env_asid (envs s e)) q va perm s = Some (r, s')"
    "mem_inv ext (dirs s) s'" "mem_frame s s'" "user_sep (dirs s) s'"
    by (rule user_sep_insert [OF m(1,3) live_dirs [OF e] va q]; rule that; assumption)
  have "kernel_inv s'" by (rule kernel_inv_mem(1) [OF inv s'(3,2) m(2) s'(4)])
  with s'(1,3) that show thesis by blast
qed

lemma keeps_insert:
  assumes "kernel_inv s" and "e \<in> live s" and "va < UTOP" "perm < 4096"
    and "q < npage s" "q \<notin> on_free_list s" "unat (pp_ref s q) < 65535" "\<not> is_table s (dirs s) q" "q \<notin> dirs s"
  shows "keeps (insert_ret e q va perm s)"
proof -
  obtain r s' where "page_insert (env_pgdir (envs s e)) (env_asid (envs s e)) q va perm s = Some (r, s')" "kernel_inv s'"
    by (rule insert_inv [OF assms])
  then show ?thesis by (auto simp: insert_ret_def split: sum.splits)
qed

text \<open>A page that a live environment has mapped, as the source of another mapping.\<close>

lemma lookup_inv:
  assumes inv: "kernel_inv s" and e: "e \<in> live s" and va: "va < UTOP"
  obtains "page_lookup (env_pgdir (envs s e)) va s = Some (None, s)"
    | q pte where "page_lookup (env_pgdir (envs s e)) va s = Some (Some (q, pte), s)"
      and "q < npage s" "q \<notin> on_free_list s" "\<not> is_table s (dirs s) q" "q \<notin> dirs s"
proof -
  let ?d = "env_pgdir (envs s e)"
  obtain ext where m: "mem_inv ext (dirs s) s" "0 < ext (base_pgdir s)" "user_sep (dirs s) s"
    by (rule kernel_invE [OF inv])
  have tab: "table_inv (dirs s) s" using m(1) by (simp add: mem_inv_def)
  show thesis
  proof (cases "aspace s ?d (PDX va) (PTX va)")
    case None
    show thesis by (rule that(1)) (rule lookup_unmapped [OF tab live_dirs [OF e] va None])
  next
    case (Some pte)
    note q = mapped_not_free [OF m(1) live_dirs [OF e] user_index [OF va] PTX_less Some]
      user_sepD [OF m(3) live_dirs [OF e] user_index [OF va] PTX_less Some]
    show thesis by (rule that(2) [OF lookup_mapped(1) [OF tab live_dirs [OF e] va Some]]) (use q in simp_all)
  qed
qed

lemma keeps_mem_alloc:
  assumes inv: "kernel_inv s" and c: "curenv s = Some c" and p: "perm < 4096"
  shows "keeps (sys_mem_alloc envid va perm s)"
proof (cases "is_illegal_va va")
  case True
  then show ?thesis using inv by (auto simp: sys_mem_alloc_def)
next
  case False
  obtain ext where m: "mem_inv ext (dirs s) s" "0 < ext (base_pgdir s)" "user_sep (dirs s) s"
    by (rule kernel_invE [OF inv])
  show ?thesis
    unfolding sys_mem_alloc_def using False
  proof (simp, intro keeps_with_env [OF inv c])
    fix e assume e: "e \<in> live s"
    show "keeps (do { (r, s) \<leftarrow> page_alloc s; case r of Inl x \<Rightarrow> fail x s | Inr pp \<Rightarrow> insert_ret e pp va perm s })"
    proof (cases "on_free_list s = {}")
      case True
      then have "page_alloc s = Some (Inl E_NO_MEM, s)" using m(1) by (intro page_alloc_empty) (auto simp: mem_inv_def)
      then show ?thesis using inv by auto
    next
      case False
      obtain q s' where s': "page_alloc s = Some (Inr q, s')" "mem_inv ext (dirs s) s'" "mem_frame s s'" "user_sep (dirs s) s'"
        "q < npage s'" "q \<notin> on_free_list s'" "pp_ref s' q = 0" "\<not> is_table s' (dirs s) q" "q \<notin> dirs s"
        by (rule user_sep_alloc [OF m(1,3) False]; rule that; assumption)
      note k = kernel_inv_mem [OF inv s'(3,2) m(2) s'(4)]
      have "keeps (insert_ret e q va perm s')"
        by (rule keeps_insert [OF k(1)]) (use e k s' p legal_va \<open>\<not> is_illegal_va va\<close> in simp_all)
      then show ?thesis using s'(1) by simp
    qed
  qed
qed

lemma keeps_mem_unmap:
  assumes inv: "kernel_inv s" and c: "curenv s = Some c"
  shows "keeps (sys_mem_unmap envid va s)"
proof (cases "is_illegal_va va")
  case True
  then show ?thesis using inv by (auto simp: sys_mem_unmap_def)
next
  case False
  obtain ext where m: "mem_inv ext (dirs s) s" "0 < ext (base_pgdir s)" "user_sep (dirs s) s"
    by (rule kernel_invE [OF inv])
  show ?thesis
    unfolding sys_mem_unmap_def using False
  proof (simp, intro keeps_with_env [OF inv c])
    fix e assume e: "e \<in> live s"
    obtain s' where s': "page_remove (env_pgdir (envs s e)) (env_asid (envs s e)) va s = Some s'"
      "mem_inv ext (dirs s) s'" "mem_frame s s'" "user_sep (dirs s) s'"
      by (rule user_sep_remove [OF m(1,3) live_dirs [OF e] legal_va [OF False]])
    with kernel_inv_mem(1) [OF inv s'(3,2) m(2) s'(4)]
    show "keeps (page_remove (env_pgdir (envs s e)) (env_asid (envs s e)) va s \<bind> ret 0)" by auto
  qed
qed

lemma keeps_mem_map:
  assumes inv: "kernel_inv s" and c: "curenv s = Some c" and p: "perm < 4096" and ref: "\<And>q. unat (pp_ref s q) < 65535"
  shows "keeps (sys_mem_map srcid srcva dstid dstva perm s)"
proof (cases "is_illegal_va srcva \<or> is_illegal_va dstva")
  case True
  then show ?thesis using inv by (auto simp: sys_mem_map_def)
next
  case False
  then have va: "srcva < UTOP" "dstva < UTOP" using legal_va by simp_all
  show ?thesis
    unfolding sys_mem_map_def using False
  proof (simp, intro keeps_with_env [OF inv c])
    fix e e' assume e: "e \<in> live s" "e' \<in> live s"
    show "keeps (do { (r, s) \<leftarrow> page_lookup (env_pgdir (envs s e)) srcva s;
        case r of None \<Rightarrow> fail E_INVAL s | Some (pp, _) \<Rightarrow> insert_ret e' pp dstva perm s })"
    proof (rule lookup_inv [OF inv e(1) va(1)])
      fix q pte assume "page_lookup (env_pgdir (envs s e)) srcva s = Some (Some (q, pte), s)"
        "q < npage s" "q \<notin> on_free_list s" "\<not> is_table s (dirs s) q" "q \<notin> dirs s"
      then show ?thesis using keeps_insert [OF inv e(2) va(2) p, of q] ref by simp
    qed (use inv in auto)
  qed
qed

section \<open>Status changes\<close>

text \<open>A live environment gets another status and the runnable list follows.\<close>

lemma kernel_inv_status:
  assumes inv: "kernel_inv s" and e: "e \<in> live s" and st: "st \<noteq> ENV_FREE"
    and q: "TAILQ_rep q xs" and xs: "\<And>x. x \<in> set xs \<longleftrightarrow> (if x = e then st = ENV_RUNNABLE else x < NENV \<and> env_status (envs s x) = ENV_RUNNABLE)"
  shows "kernel_inv (upd_env e (\<lambda>x. x\<lparr>env_status := st\<rparr>) (s\<lparr>env_sched_list := q\<rparr>))" (is "kernel_inv ?s")
proof -
  have "env_status (envs ?s x) \<noteq> ENV_FREE \<longleftrightarrow> env_status (envs s x) \<noteq> ENV_FREE" for x
    using e st by (cases "x = e") (simp_all add: live_def)
  then have live: "live ?s = live s" unfolding live_def by blast
  have pg: "env_pgdir (envs ?s x) = env_pgdir (envs s x)" "env_asid (envs ?s x) = env_asid (envs s x)" "env_id (envs ?s x) = env_id (envs s x)" for x
    by simp_all
  have dirs: "dirs ?s = dirs s" unfolding dirs_def live pg ..
  have "kmem_inv ?s"
    using inv same_kmem_mem_inv [of ?s s] user_sep_cong [OF same_kmem(1,4) [of ?s s]]
    by (simp add: kernel_inv_def kmem_inv_def dirs)
  moreover have "env_inv ?s"
  proof -
    have "sched_inv ?s xs" using q xs live_less [OF e] by (auto simp: sched_inv_def)
    then show ?thesis using inv unfolding kernel_inv_def env_inv_def live pg asids_def by auto
  qed
  moreover have "cur_inv ?s" using inv unfolding kernel_inv_def cur_inv_def live pg by simp
  ultimately show ?thesis by (simp add: kernel_inv_def)
qed

lemma sched_listE:
  assumes "kernel_inv s"
  obtains xs where "TAILQ_rep (env_sched_list s) xs" and "\<And>x. x \<in> set xs \<longleftrightarrow> x < NENV \<and> env_status (envs s x) = ENV_RUNNABLE"
  using assms by (auto simp: kernel_inv_def env_inv_def sched_inv_def)

lemma wake_inv:
  assumes inv: "kernel_inv s" and e: "e \<in> live s" and st: "env_status (envs s e) \<noteq> ENV_RUNNABLE"
  obtains q where "TAILQ_INSERT_TAIL e (env_sched_list s) = Some q"
    and "kernel_inv (upd_env e (\<lambda>x. x\<lparr>env_status := ENV_RUNNABLE\<rparr>) (s\<lparr>env_sched_list := q\<rparr>))"
proof -
  obtain xs where xs: "TAILQ_rep (env_sched_list s) xs" "\<And>x. x \<in> set xs \<longleftrightarrow> x < NENV \<and> env_status (envs s x) = ENV_RUNNABLE"
    by (rule sched_listE [OF inv]; rule that; assumption)
  have "e \<notin> set xs" using xs(2) st by simp
  from tq.rep_insert_tail [OF xs(1) this] obtain q where q: "TAILQ_INSERT_TAIL e (env_sched_list s) = Some q" "TAILQ_rep q (xs @ [e])" by blast
  have "kernel_inv (upd_env e (\<lambda>x. x\<lparr>env_status := ENV_RUNNABLE\<rparr>) (s\<lparr>env_sched_list := q\<rparr>))"
    by (rule kernel_inv_status [OF inv e _ q(2)]) (use xs(2) st in \<open>auto simp: ENV_RUNNABLE_def ENV_FREE_def\<close>)
  with q(1) that show thesis by blast
qed

lemma sleep_inv:
  assumes inv: "kernel_inv s" and e: "e \<in> live s" and st: "env_status (envs s e) = ENV_RUNNABLE"
  obtains q where "TAILQ_REMOVE e (env_sched_list s) = Some q"
    and "kernel_inv (upd_env e (\<lambda>x. x\<lparr>env_status := ENV_NOT_RUNNABLE\<rparr>) (s\<lparr>env_sched_list := q\<rparr>))"
proof -
  obtain xs where xs: "TAILQ_rep (env_sched_list s) xs" "\<And>x. x \<in> set xs \<longleftrightarrow> x < NENV \<and> env_status (envs s x) = ENV_RUNNABLE"
    by (rule sched_listE [OF inv]; rule that; assumption)
  have "e \<in> set xs" using xs(2) st live_less [OF e] by simp
  from tq.remove_member [OF xs(1) this] obtain q where q: "TAILQ_REMOVE e (env_sched_list s) = Some q" "TAILQ_rep q (remove1 e xs)" by blast
  have "distinct xs" by (rule tq.rep_distinct [OF xs(1)])
  then have "kernel_inv (upd_env e (\<lambda>x. x\<lparr>env_status := ENV_NOT_RUNNABLE\<rparr>) (s\<lparr>env_sched_list := q\<rparr>))"
    by (intro kernel_inv_status [OF inv e _ q(2)]) (use xs(2) st in \<open>auto simp: ENV_RUNNABLE_def ENV_FREE_def ENV_NOT_RUNNABLE_def\<close>)
  with q(1) that show thesis by blast
qed

lemma keeps_set_env_status:
  assumes inv: "kernel_inv s" and c: "curenv s = Some c"
    and wf: "\<And>e. e \<in> live s \<Longrightarrow> env_status (envs s e) \<in> {ENV_RUNNABLE, ENV_NOT_RUNNABLE}"
  shows "keeps (sys_set_env_status envid status s)"
proof (cases "status \<noteq> ENV_RUNNABLE \<and> status \<noteq> ENV_NOT_RUNNABLE")
  case True
  then show ?thesis using inv by (auto simp: sys_set_env_status_def)
next
  case False
  show ?thesis
    unfolding sys_set_env_status_def if_not_P [OF False]
  proof (intro keeps_with_env [OF inv c])
    fix e assume e: "e \<in> live s"
    consider "status = env_status (envs s e)" | "status = ENV_RUNNABLE" "env_status (envs s e) = ENV_NOT_RUNNABLE"
      | "status = ENV_NOT_RUNNABLE" "env_status (envs s e) = ENV_RUNNABLE" using False wf [OF e] by auto
    then show "keeps ((if env_status (envs s e) = ENV_RUNNABLE \<and> status = ENV_NOT_RUNNABLE
       then TAILQ_REMOVE e (env_sched_list s) \<bind> (\<lambda>q. Some (s\<lparr>env_sched_list := q\<rparr>))
       else if env_status (envs s e) = ENV_NOT_RUNNABLE \<and> status = ENV_RUNNABLE
            then TAILQ_INSERT_TAIL e (env_sched_list s) \<bind> (\<lambda>q. Some (s\<lparr>env_sched_list := q\<rparr>))
            else Some s) \<bind> (\<lambda>s. ret 0 (upd_env e (\<lambda>x. x\<lparr>env_status := status\<rparr>) s)))"
    proof cases
      case 1
      then have "kernel_inv (upd_env e (\<lambda>x. x\<lparr>env_status := status\<rparr>) s)"
        using inv kernel_inv_upd_env [of "\<lambda>x. x\<lparr>env_status := status\<rparr>" s e] by (simp add: env_core_def)
      then show ?thesis using 1 by (auto simp: ENV_RUNNABLE_def ENV_NOT_RUNNABLE_def)
    next
      case 2
      then have "env_status (envs s e) \<noteq> ENV_RUNNABLE" by (simp add: ENV_RUNNABLE_def ENV_NOT_RUNNABLE_def)
      from wake_inv [OF inv e this] obtain q where "TAILQ_INSERT_TAIL e (env_sched_list s) = Some q"
        "kernel_inv (upd_env e (\<lambda>x. x\<lparr>env_status := ENV_RUNNABLE\<rparr>) (s\<lparr>env_sched_list := q\<rparr>))" .
      then show ?thesis using 2 \<open>env_status (envs s e) \<noteq> ENV_RUNNABLE\<close> by auto
    next
      case 3
      from sleep_inv [OF inv e 3(2)] obtain q where "TAILQ_REMOVE e (env_sched_list s) = Some q"
        "kernel_inv (upd_env e (\<lambda>x. x\<lparr>env_status := ENV_NOT_RUNNABLE\<rparr>) (s\<lparr>env_sched_list := q\<rparr>))" .
      then show ?thesis using 3 by auto
    qed
  qed
qed

section \<open>Messages\<close>

text \<open>What sending relies on: an environment that waits for a message is not runnable and has a legal address for the page.\<close>

definition ipc_inv :: "kstate \<Rightarrow> bool" where
  "ipc_inv s \<longleftrightarrow> (\<forall>e\<in>live s. env_status (envs s e) \<in> {ENV_RUNNABLE, ENV_NOT_RUNNABLE}
     \<and> env_ipc_dstva (envs s e) < UTOP
     \<and> (env_ipc_recving (envs s e) \<noteq> 0 \<longrightarrow> env_status (envs s e) = ENV_NOT_RUNNABLE))"

definition delivered :: "u32 \<Rightarrow> u32 \<Rightarrow> u32 \<Rightarrow> env \<Rightarrow> env" where
  "delivered v from perm x = x\<lparr>env_ipc_value := v, env_ipc_from := from, env_ipc_perm := PTE_V OR perm,
     env_ipc_recving := 0, env_status := ENV_RUNNABLE\<rparr>"

lemma deliver_inv:
  assumes inv: "kernel_inv s" and e: "e \<in> live s" and st: "env_status (envs s e) \<noteq> ENV_RUNNABLE"
  obtains q where "TAILQ_INSERT_TAIL e (env_sched_list s) = Some q"
    and "kernel_inv (upd_env e (delivered v from perm) (s\<lparr>env_sched_list := q\<rparr>))"
proof -
  let ?f = "\<lambda>x. x\<lparr>env_ipc_value := v, env_ipc_from := from, env_ipc_perm := PTE_V OR perm, env_ipc_recving := 0\<rparr>"
  let ?s = "upd_env e ?f s"
  have i: "kernel_inv ?s" using inv by (subst kernel_inv_upd_env) (simp_all add: env_core_def)
  have e': "e \<in> live ?s" "env_status (envs ?s e) \<noteq> ENV_RUNNABLE" using e st by (simp_all add: live_def)
  obtain q where q: "TAILQ_INSERT_TAIL e (env_sched_list ?s) = Some q"
    "kernel_inv (upd_env e (\<lambda>x. x\<lparr>env_status := ENV_RUNNABLE\<rparr>) (?s\<lparr>env_sched_list := q\<rparr>))"
    by (rule wake_inv [OF i e'])
  have "upd_env e (\<lambda>x. x\<lparr>env_status := ENV_RUNNABLE\<rparr>) (?s\<lparr>env_sched_list := q\<rparr>) = upd_env e (delivered v from perm) (s\<lparr>env_sched_list := q\<rparr>)"
    by (simp add: upd_env_def delivered_def)
  with q that show thesis by simp
qed

lemma send_unfold:
  fixes v perm :: u32
  assumes "srcva \<noteq> 0 \<longrightarrow> \<not> is_illegal_va srcva" and "envid2env envid False s = Some (Inr (Some e))"
    and "env_ipc_recving (envs s e) \<noteq> 0" and "curenv s = Some c" and "TAILQ_INSERT_TAIL e (env_sched_list s) = Some q"
  defines "u \<equiv> upd_env e (delivered v (env_id (envs s c)) perm) (s\<lparr>env_sched_list := q\<rparr>)"
  shows "sys_ipc_try_send envid v srcva perm s = (if srcva = 0 then ret 0 u
     else do { (r, s) \<leftarrow> page_lookup (env_pgdir (envs s c)) srcva u;
       case r of None \<Rightarrow> fail E_INVAL s
       | Some (p, _) \<Rightarrow> do { (r, s) \<leftarrow> page_insert (env_pgdir (envs s e)) (env_asid (envs s e)) p (env_ipc_dstva (envs s e)) perm s; ret 0 s } })"
proof -
  have "upd_env e (\<lambda>x. x\<lparr>env_status := ENV_RUNNABLE\<rparr>) (upd_env e (\<lambda>x. x\<lparr>env_ipc_recving := 0\<rparr>) (upd_env e (\<lambda>x. x\<lparr>env_ipc_perm := PTE_V OR perm\<rparr>)
      (upd_env e (\<lambda>x. x\<lparr>env_ipc_from := i\<rparr>) (upd_env e (\<lambda>x. x\<lparr>env_ipc_value := v\<rparr>) s))))\<lparr>env_sched_list := q\<rparr>
    = upd_env e (delivered v i perm) (s\<lparr>env_sched_list := q\<rparr>)" for i
    by (simp add: upd_env_def delivered_def)
  moreover have "env_id (envs (upd_env e (\<lambda>x. x\<lparr>env_ipc_value := v\<rparr>) s) c) = env_id (envs s c)" by simp
  moreover have "env_pgdir (envs u c) = env_pgdir (envs s c)" by (simp add: u_def delivered_def)
  ultimately show ?thesis
    using assms(1-5) by (cases "c = e") (simp_all add: sys_ipc_try_send_def with_env_def u_def Let_def)
qed

lemma keeps_ipc_try_send:
  assumes inv: "kernel_inv s" and ipc: "ipc_inv s" and c: "curenv s = Some c" and p: "perm < 4096"
    and ref: "\<And>q. unat (pp_ref s q) < 65535"
  shows "keeps (sys_ipc_try_send envid v srcva perm s)"
proof (cases "srcva \<noteq> 0 \<and> is_illegal_va srcva")
  case True
  then show ?thesis using inv by (auto simp: sys_ipc_try_send_def)
next
  case legal: False
  then have l: "srcva \<noteq> 0 \<longrightarrow> \<not> is_illegal_va srcva" by blast
  show ?thesis
  proof (rule envid2env_live [OF inv c, of envid False])
    assume "envid2env envid False s = Some (Inl E_BAD_ENV)"
    then show ?thesis using legal inv by (auto simp: sys_ipc_try_send_def with_env_def)
  next
    fix e assume e: "e \<in> live s" and id: "envid2env envid False s = Some (Inr (Some e))"
    show ?thesis
    proof (cases "env_ipc_recving (envs s e) = 0")
      case True
      then show ?thesis using legal inv id by (auto simp: sys_ipc_try_send_def with_env_def)
    next
      case r: False
      have st: "env_status (envs s e) \<noteq> ENV_RUNNABLE"
        using ipc e r by (auto simp: ipc_inv_def ENV_RUNNABLE_def ENV_NOT_RUNNABLE_def)
      obtain q where q: "TAILQ_INSERT_TAIL e (env_sched_list s) = Some q"
        "kernel_inv (upd_env e (delivered v (env_id (envs s c)) perm) (s\<lparr>env_sched_list := q\<rparr>))"
        by (rule deliver_inv [OF inv e st])
      define u where "u = upd_env e (delivered v (env_id (envs s c)) perm) (s\<lparr>env_sched_list := q\<rparr>)"
      have cu: "env_pgdir (envs u c) = env_pgdir (envs s c)" "env_ipc_dstva (envs u e) = env_ipc_dstva (envs s e)"
        "env_pgdir (envs u e) = env_pgdir (envs s e)" "env_asid (envs u e) = env_asid (envs s e)"
        and pr: "pp_ref u = pp_ref s" and cur: "curenv u = Some c"
        using c by (simp_all add: u_def delivered_def)
      have lu: "e \<in> live u" "c \<in> live u"
        using e q(2) cur by (simp_all add: u_def live_def delivered_def ENV_RUNNABLE_def ENV_FREE_def kernel_inv_def cur_inv_def)
      have kept: "keeps (do { (r, s) \<leftarrow> page_lookup (env_pgdir (envs s c)) srcva u;
          case r of None \<Rightarrow> fail E_INVAL s
          | Some (p, _) \<Rightarrow> do { (r, s) \<leftarrow> page_insert (env_pgdir (envs s e)) (env_asid (envs s e)) p (env_ipc_dstva (envs s e)) perm s; ret 0 s } })"
        if s: "srcva \<noteq> 0"
      proof -
        have k: "kernel_inv u" using q(2) by (simp add: u_def)
        have v: "srcva < UTOP" "env_ipc_dstva (envs s e) < UTOP"
          using l s legal_va ipc e by (auto simp: ipc_inv_def)
        show ?thesis
        proof (rule lookup_inv [OF k lu(2) v(1)])
          fix q pte assume lk: "page_lookup (env_pgdir (envs u c)) srcva u = Some (Some (q, pte), u)"
            "q < npage u" "q \<notin> on_free_list u" "\<not> is_table u (dirs u) q" "q \<notin> dirs u"
          obtain r s' where "page_insert (env_pgdir (envs u e)) (env_asid (envs u e)) q (env_ipc_dstva (envs s e)) perm u = Some (r, s')" "kernel_inv s'"
            by (rule insert_inv [OF k lu(1) v(2) p lk(2,3) _ lk(4,5)]) (use ref pr in simp_all)
          then show ?thesis using lk(1) by (auto simp: cu)
        qed (use k in \<open>auto simp: cu\<close>)
      qed
      show ?thesis
        unfolding send_unfold [OF l id r c q(1), folded u_def] using kept q(2) by (auto simp: u_def)
    qed
  qed
qed

section \<open>Switching\<close>

text \<open>Environments that differ at most in their registers and their count of runs.\<close>

definition same_envs :: "kstate \<Rightarrow> kstate \<Rightarrow> bool" where
  "same_envs s s' \<longleftrightarrow> (\<forall>x. (envs s' x)\<lparr>env_tf := env_tf (envs s x), env_runs := env_runs (envs s x)\<rparr> = envs s x)"

lemma same_envsD:
  assumes "same_envs s s'"
  shows "env_core (envs s' x) = env_core (envs s x)" and "env_ipc_recving (envs s' x) = env_ipc_recving (envs s x)"
    and "env_ipc_dstva (envs s' x) = env_ipc_dstva (envs s x)"
proof -
  have e: "(envs s' x)\<lparr>env_tf := env_tf (envs s x), env_runs := env_runs (envs s x)\<rparr> = envs s x" using assms by (simp add: same_envs_def)
  show "env_core (envs s' x) = env_core (envs s x)" "env_ipc_recving (envs s' x) = env_ipc_recving (envs s x)"
    "env_ipc_dstva (envs s' x) = env_ipc_dstva (envs s x)"
    using arg_cong [OF e, of env_core] arg_cong [OF e, of env_ipc_recving] arg_cong [OF e, of env_ipc_dstva] by (simp_all add: env_core_def)
qed

lemma runnable_live: "e < NENV \<Longrightarrow> env_status (envs s e) = ENV_RUNNABLE \<Longrightarrow> e \<in> live s"
  by (simp add: live_def ENV_RUNNABLE_def ENV_FREE_def)

lemma env_run_inv:
  assumes inv: "kernel_inv s" and e: "e < NENV" "env_status (envs s e) = ENV_RUNNABLE"
  obtains s' where "env_run e s = Some s'" and "kernel_inv s'" and "same_envs s s'" and "curenv s' = Some e"
proof -
  obtain s' where run: "env_run e s = Some s'" using e(2) by (simp add: env_run_def Let_def)
  have f: "env_sched_list s' = env_sched_list s" "env_free_list s' = env_free_list s" "asid_bitmap s' = asid_bitmap s"
    "kmem s' = kmem s" "npage s' = npage s" "pp_ref s' = pp_ref s" "page_free_list s' = page_free_list s" "base_pgdir s' = base_pgdir s"
    "curenv s' = Some e" "cur_pgdir s' = Some (env_pgdir (envs s e))" "entryhi s' = push_bit 6 (env_asid (envs s e))"
    and se: "same_envs s s'"
    using run e(2) by (auto simp: env_run_def env_pop_tf_def same_envs_def Let_def split: option.splits)
  note c = same_envsD(1) [OF se]
  have "cur_inv s'"
    using f runnable_live [OF e] env_core_fields [OF c] live_cong [OF c] by (simp add: cur_inv_def)
  then have "kernel_inv s'"
    using inv env_inv_cong [OF c f(1-3)] kmem_inv_cong [OF c f(4-8)] by (simp add: kernel_inv_def)
  with run se f(9) that show thesis by blast
qed

lemma kernel_inv_queue:
  assumes "kernel_inv s" and "TAILQ_rep q xs" and "\<And>x. x \<in> set xs \<longleftrightarrow> x < NENV \<and> env_status (envs s x) = ENV_RUNNABLE"
  shows "kernel_inv (s\<lparr>env_sched_list := q\<rparr>)"
proof -
  let ?s = "s\<lparr>env_sched_list := q\<rparr>"
  have "sched_inv ?s xs" using assms(2,3) by (simp add: sched_inv_def)
  moreover have "live ?s = live s" "dirs ?s = dirs s" by (simp_all add: live_def dirs_def)
  moreover have "kmem_inv ?s = kmem_inv s" "cur_inv ?s = cur_inv s" by (intro kmem_inv_cong cur_inv_cong; simp)+
  ultimately show ?thesis using assms(1) unfolding kernel_inv_def env_inv_def asids_def by auto
qed

lemma pick_inv:
  assumes inv: "kernel_inv s" and run: "\<exists>e<NENV. env_status (envs s e) = ENV_RUNNABLE"
  obtains e s' where "Option.bind (pick_first s) (\<lambda>(e, s). env_run e s) = Some s'" and "kernel_inv s'" and "same_envs s s'" and "curenv s' \<noteq> None"
proof -
  obtain xs where xs: "TAILQ_rep (env_sched_list s) xs" "\<And>x. x \<in> set xs \<longleftrightarrow> x < NENV \<and> env_status (envs s x) = ENV_RUNNABLE"
    by (rule sched_listE [OF inv]; rule that; assumption)
  obtain e ys where e: "xs = e # ys" using run xs(2) by (cases xs) auto
  then have f: "TAILQ_FIRST (env_sched_list s) = Some e" using tq.rep_first [OF xs(1)] by simp
  have st: "e < NENV" "env_status (envs s e) = ENV_RUNNABLE" using xs(2) [of e] e by simp_all
  obtain s' where "env_run e (s\<lparr>sched_count := env_pri (envs s e)\<rparr>) = Some s'" "kernel_inv s'" "same_envs (s\<lparr>sched_count := env_pri (envs s e)\<rparr>) s'"
    "curenv s' = Some e"
    by (rule env_run_inv [of "s\<lparr>sched_count := env_pri (envs s e)\<rparr>" e]) (use inv st in simp_all)
  then show thesis using that f by (simp add: pick_first_def same_envs_def)
qed

lemma schedule_inv:
  assumes inv: "kernel_inv s" and run: "\<exists>e<NENV. env_status (envs s e) = ENV_RUNNABLE"
  obtains s' where "schedule yield s = Some s'" and "kernel_inv s'" and "same_envs s s'" and "curenv s' \<noteq> None"
proof -
  let ?s = "s\<lparr>sched_count := sched_count s - 1\<rparr>"
  have i: "kernel_inv ?s" using inv by simp
  have pick: thesis if q: "kernel_inv (?s\<lparr>env_sched_list := q\<rparr>)"
    and s: "schedule yield s = Option.bind (pick_first (?s\<lparr>env_sched_list := q\<rparr>)) (\<lambda>(e, s). env_run e s)" for q
  proof -
    have r: "\<exists>e<NENV. env_status (envs (?s\<lparr>env_sched_list := q\<rparr>) e) = ENV_RUNNABLE" using run by simp
    obtain s' where "Option.bind (pick_first (?s\<lparr>env_sched_list := q\<rparr>)) (\<lambda>(e, s). env_run e s) = Some s'" "kernel_inv s'"
      "same_envs (?s\<lparr>env_sched_list := q\<rparr>) s'" "curenv s' \<noteq> None" by (rule pick_inv [OF q r])
    then show thesis using s \<open>\<And>s'. \<lbrakk>schedule yield s = Some s'; kernel_inv s'; same_envs s s'; curenv s' \<noteq> None\<rbrakk> \<Longrightarrow> thesis\<close>
      by (simp add: same_envs_def)
  qed
  have id: "?s\<lparr>env_sched_list := env_sched_list s\<rparr> = ?s" by simp
  show thesis
  proof (cases "curenv s")
    case None
    then show thesis using pick [of "env_sched_list s"] i by (simp add: schedule_def id)
  next
    case (Some e)
    then have live: "e \<in> live s" using inv by (simp add: kernel_inv_def cur_inv_def)
    consider "env_status (envs s e) \<noteq> ENV_RUNNABLE" | "env_status (envs s e) = ENV_RUNNABLE" "yield \<or> sint (sched_count s - 1) \<le> 0"
      | "env_status (envs s e) = ENV_RUNNABLE" "\<not> (yield \<or> sint (sched_count s - 1) \<le> 0)" by blast
    then show thesis
    proof cases
      case 1
      then show thesis using pick [of "env_sched_list s"] i Some by (simp add: schedule_def id)
    next
      case 2
      obtain xs where xs: "TAILQ_rep (env_sched_list s) xs" "\<And>x. x \<in> set xs \<longleftrightarrow> x < NENV \<and> env_status (envs s x) = ENV_RUNNABLE"
        by (rule sched_listE [OF inv]; rule that; assumption)
      have "e \<in> set xs" using xs(2) 2 live_less [OF live] by simp
      then obtain q q' where q: "TAILQ_REMOVE e (env_sched_list s) = Some q" "TAILQ_INSERT_TAIL e q = Some q'" "TAILQ_rep q' (remove1 e xs @ [e])"
        by (rule tq.requeue [OF xs(1)])
      have "set (remove1 e xs @ [e]) = set xs" using tq.rep_distinct [OF xs(1)] \<open>e \<in> set xs\<close> by auto
      then have "kernel_inv (?s\<lparr>env_sched_list := q'\<rparr>)"
        by (intro kernel_inv_queue [OF i q(3)]) (use xs(2) in simp)
      then show thesis using pick [of q'] 2 q Some by (simp add: schedule_def)
    next
      case 3
      obtain s' where "env_run e ?s = Some s'" "kernel_inv s'" "same_envs ?s s'" "curenv s' = Some e"
        by (rule env_run_inv [OF i live_less [OF live]]) (use 3 in simp_all)
      then show thesis using that [of s'] 3 Some by (simp add: schedule_def same_envs_def)
    qed
  qed
qed

section \<open>Runs of the kernel\<close>

text \<open>
  One system call of the running environment. Permissions are flags, reference counts are below their
  limit, an environment that waits for a message is not made runnable by another call than a send, and
  one that has given up its status does not wait for a message.
\<close>

inductive kcall :: "kstate \<Rightarrow> kstate \<Rightarrow> bool" where
  mem_alloc: "perm < 4096 \<Longrightarrow> sys_mem_alloc envid va perm s = Some (r, s') \<Longrightarrow> kcall s s'"
| mem_map: "perm < 4096 \<Longrightarrow> (\<And>q. unat (pp_ref s q) < 65535) \<Longrightarrow> sys_mem_map srcid srcva dstid dstva perm s = Some (r, s') \<Longrightarrow> kcall s s'"
| mem_unmap: "sys_mem_unmap envid va s = Some (r, s') \<Longrightarrow> kcall s s'"
| set_env_status: "(\<And>e. status = ENV_RUNNABLE \<Longrightarrow> envid2env envid True s = Some (Inr (Some e)) \<Longrightarrow> env_ipc_recving (envs s e) = 0)
    \<Longrightarrow> sys_set_env_status envid status s = Some (r, s') \<Longrightarrow> kcall s s'"
| set_tlb_mod_entry: "sys_set_tlb_mod_entry envid func s = Some (r, s') \<Longrightarrow> kcall s s'"
| getenvid: "sys_getenvid s = Some (r, s') \<Longrightarrow> kcall s s'"
| putchar: "sys_putchar junk x s = Some (r, s') \<Longrightarrow> kcall s s'"
| cgetc: "sys_cgetc s = Some (r, s') \<Longrightarrow> kcall s s'"
| yield: "sys_yield s = Some (r, s') \<Longrightarrow> kcall s s'"
| ipc_recv: "(\<And>c. curenv s = Some c \<Longrightarrow> env_status (envs s c) = ENV_RUNNABLE) \<Longrightarrow> sys_ipc_recv dstva s = Some (r, s') \<Longrightarrow> kcall s s'"
| ipc_try_send: "perm < 4096 \<Longrightarrow> (\<And>q. unat (pp_ref s q) < 65535) \<Longrightarrow> sys_ipc_try_send envid v srcva perm s = Some (r, s') \<Longrightarrow> kcall s s'"

definition kernel_ok :: "kstate \<Rightarrow> bool" where
  "kernel_ok s \<longleftrightarrow> kernel_inv s \<and> ipc_inv s \<and> curenv s \<noteq> None"

lemma ipc_inv_cong:
  assumes "\<And>x. env_core (envs s' x) = env_core (envs s x)" and "\<And>x. env_ipc_recving (envs s' x) = env_ipc_recving (envs s x)"
    and "\<And>x. env_ipc_dstva (envs s' x) = env_ipc_dstva (envs s x)"
  shows "ipc_inv s' = ipc_inv s"
  unfolding ipc_inv_def live_cong [OF assms(1)] env_core_fields(1) [OF assms(1)] assms(2,3) ..

lemma ok_frame:
  assumes "kernel_ok s" and "kernel_inv s'" and "envs s' = envs s" and "curenv s' = curenv s"
  shows "kernel_ok s'"
  using assms ipc_inv_cong [of s' s] by (simp add: kernel_ok_def)

lemma okE:
  assumes "kernel_ok s"
  obtains c where "kernel_inv s" and "ipc_inv s" and "curenv s = Some c"
    and "\<And>e. e \<in> live s \<Longrightarrow> env_status (envs s e) \<in> {ENV_RUNNABLE, ENV_NOT_RUNNABLE}"
  using assms by (auto simp: kernel_ok_def ipc_inv_def)

lemma keeps_result: "keeps (Some (r, s')) \<Longrightarrow> kernel_inv s'"
  by (auto simp: keeps_def)

text \<open>The memory calls change memory only.\<close>

lemma with_env_result:
  assumes "with_env envid chk f s = Some (r, s')" and "\<And>e r s'. f e s = Some (r, s') \<Longrightarrow> P s'" and "P s"
  shows "P s'"
  using assms by (auto simp: with_env_def split: sum.splits)

lemma mem_frame_env: "mem_frame s s' \<Longrightarrow> envs s' = envs s \<and> curenv s' = curenv (s :: kstate)"
  by (simp add: mem_frame_kstate)

lemma insert_ret_frame: "insert_ret e q va perm s = Some (r, s') \<Longrightarrow> mem_frame s s'"
  by (auto simp: insert_ret_def split: sum.splits dest!: page_insert_frame)

lemma sys_mem_frames:
  "sys_mem_alloc envid va perm s = Some (r, s') \<Longrightarrow> mem_frame s s'"
  "sys_mem_map srcid srcva dstid dstva perm s = Some (r, s') \<Longrightarrow> mem_frame s s'"
  "sys_mem_unmap envid va s = Some (r, s') \<Longrightarrow> mem_frame s s'"
proof -
  assume "sys_mem_alloc envid va perm s = Some (r, s')"
  then show "mem_frame s s'"
    by (auto simp: sys_mem_alloc_def split: if_splits sum.splits elim!: with_env_result
        dest!: page_alloc_frame insert_ret_frame intro: mem_frame_trans)
next
  assume "sys_mem_map srcid srcva dstid dstva perm s = Some (r, s')"
  then show "mem_frame s s'"
    by (auto simp: sys_mem_map_def split: if_splits option.splits elim!: with_env_result
        dest!: page_lookup_state insert_ret_frame)
next
  assume "sys_mem_unmap envid va s = Some (r, s')"
  then show "mem_frame s s'"
    by (auto simp: sys_mem_unmap_def split: if_splits elim!: with_env_result dest!: page_remove_frame)
qed

lemma ok_mem:
  assumes "kernel_ok s" and "kernel_inv s'" and "mem_frame s s'"
  shows "kernel_ok s'"
  using ok_frame [OF assms(1,2)] mem_frame_env [OF assms(3)] by simp

lemma ok_status:
  assumes ok: "kernel_ok s" and w: "\<And>e. status = ENV_RUNNABLE \<Longrightarrow> envid2env envid True s = Some (Inr (Some e)) \<Longrightarrow> env_ipc_recving (envs s e) = 0"
    and r: "sys_set_env_status envid status s = Some (r, s')"
  shows "kernel_ok s'"
proof (rule okE [OF ok])
  fix c assume inv: "kernel_inv s" and ipc: "ipc_inv s" and c: "curenv s = Some c"
    and wf: "\<And>e. e \<in> live s \<Longrightarrow> env_status (envs s e) \<in> {ENV_RUNNABLE, ENV_NOT_RUNNABLE}"
  have k: "kernel_inv s'" using keeps_set_env_status [OF inv c wf, of envid status] r keeps_result by simp
  show "kernel_ok s'"
  proof (rule envid2env_live [OF inv c, of envid True])
    assume "envid2env envid True s = Some (Inl E_BAD_ENV)"
    then have "s' = s" using r by (simp add: sys_set_env_status_def with_env_def split: if_splits)
    then show ?thesis using ok by simp
  next
    fix e assume e: "e \<in> live s" and id: "envid2env envid True s = Some (Inr (Some e))"
    from r id have "s' = s \<or> (envs s' = (envs s)(e := (envs s e)\<lparr>env_status := status\<rparr>) \<and> curenv s' = curenv s
        \<and> (status = ENV_RUNNABLE \<or> status = ENV_NOT_RUNNABLE))"
      by (auto simp: sys_set_env_status_def with_env_def split: if_splits)
    then show ?thesis
    proof
      assume s': "envs s' = (envs s)(e := (envs s e)\<lparr>env_status := status\<rparr>) \<and> curenv s' = curenv s
        \<and> (status = ENV_RUNNABLE \<or> status = ENV_NOT_RUNNABLE)"
      then have "status \<noteq> ENV_FREE" by (auto simp: ENV_RUNNABLE_def ENV_NOT_RUNNABLE_def ENV_FREE_def)
      then have live: "live s' = live s" using s' e by (auto simp: live_def)
      have "ipc_inv s'"
        unfolding ipc_inv_def live
      proof
        fix x assume "x \<in> live s"
        then show "env_status (envs s' x) \<in> {ENV_RUNNABLE, ENV_NOT_RUNNABLE} \<and> env_ipc_dstva (envs s' x) < UTOP
            \<and> (env_ipc_recving (envs s' x) \<noteq> 0 \<longrightarrow> env_status (envs s' x) = ENV_NOT_RUNNABLE)"
          using ipc s' w [OF _ id] by (auto simp: ipc_inv_def)
      qed
      then show ?thesis using k s' c by (simp add: kernel_ok_def)
    qed (use ok in simp)
  qed
qed

lemma ok_switch:
  assumes "kernel_inv s'" and "same_envs s s'" and "ipc_inv s" and "curenv s' \<noteq> None"
  shows "kernel_ok s'"
  using assms ipc_inv_cong [OF same_envsD [OF assms(2)]] by (simp add: kernel_ok_def)

lemma schedule_runnable:
  assumes inv: "kernel_inv s" and r: "schedule yield s = Some s'"
  shows "\<exists>e<NENV. env_status (envs s e) = ENV_RUNNABLE"
proof -
  obtain xs where xs: "TAILQ_rep (env_sched_list s) xs" "\<And>x. x \<in> set xs \<longleftrightarrow> x < NENV \<and> env_status (envs s x) = ENV_RUNNABLE"
    by (rule sched_listE [OF inv]; rule that; assumption)
  show ?thesis
  proof (cases "curenv s")
    case None
    then have "TAILQ_FIRST (env_sched_list s) \<noteq> None" using r by (auto simp: schedule_def pick_first_def)
    then obtain e ys where "xs = e # ys" using tq.first_None [OF xs(1)] by (cases xs) auto
    then show ?thesis using xs(2) [of e] by auto
  next
    case (Some c)
    then have "c \<in> live s" using inv by (simp add: kernel_inv_def cur_inv_def)
    moreover have "TAILQ_FIRST (env_sched_list s) \<noteq> None" if "env_status (envs s c) \<noteq> ENV_RUNNABLE"
      using r Some that by (auto simp: schedule_def pick_first_def)
    ultimately show ?thesis
      using tq.first_None [OF xs(1)] xs(2) live_less [of c s] by (cases xs) auto
  qed
qed

lemma ok_schedule:
  assumes "kernel_inv s" and "ipc_inv s" and "schedule yield s = Some s'"
  shows "kernel_ok s'"
proof -
  obtain s'' where "schedule yield s = Some s''" "kernel_inv s''" "same_envs s s''" "curenv s'' \<noteq> None"
    by (rule schedule_inv [OF assms(1) schedule_runnable [OF assms(1,3)]])
  with assms(2,3) ok_switch show ?thesis by simp
qed

lemma ok_recv:
  assumes ok: "kernel_ok s" and run: "\<And>c. curenv s = Some c \<Longrightarrow> env_status (envs s c) = ENV_RUNNABLE" and r: "sys_ipc_recv dstva s = Some (r, s')"
  shows "kernel_ok s'"
proof (cases "dstva \<noteq> 0 \<and> is_illegal_va dstva")
  case True
  then show ?thesis using ok r by (auto simp: sys_ipc_recv_def)
next
  case False
  then have va: "dstva < UTOP" using legal_va by (cases "dstva = 0") (auto simp: mmu_defs)
  show ?thesis
  proof (rule okE [OF ok])
    fix c assume inv: "kernel_inv s" and ipc: "ipc_inv s" and c: "curenv s = Some c"
    let ?f = "\<lambda>x. x\<lparr>env_ipc_recving := 1, env_ipc_dstva := dstva\<rparr>"
    let ?s = "upd_env c ?f s"
    have i: "kernel_inv ?s" using inv by (subst kernel_inv_upd_env) (simp_all add: env_core_def)
    have live: "c \<in> live s" using inv c by (simp add: kernel_inv_def cur_inv_def)
    have l: "c \<in> live ?s" "env_status (envs ?s c) = ENV_RUNNABLE" using live run [OF c] by (simp_all add: live_def)
    obtain q where q: "TAILQ_REMOVE c (env_sched_list ?s) = Some q"
      "kernel_inv (upd_env c (\<lambda>x. x\<lparr>env_status := ENV_NOT_RUNNABLE\<rparr>) (?s\<lparr>env_sched_list := q\<rparr>))"
      by (rule sleep_inv [OF i l])
    define u where "u = upd_env c (\<lambda>x. x\<lparr>env_status := ENV_NOT_RUNNABLE\<rparr>) (?s\<lparr>env_sched_list := q\<rparr>)"
    let ?u = "u\<lparr>kstack_tf := (kstack_tf s)\<lparr>regs := (regs (kstack_tf s))(2 := 0)\<rparr>\<rparr>"
    have "upd_env c (\<lambda>x. x\<lparr>env_status := ENV_NOT_RUNNABLE\<rparr>) (upd_env c (\<lambda>x. x\<lparr>env_ipc_dstva := dstva\<rparr>)
        (upd_env c (\<lambda>x. x\<lparr>env_ipc_recving := 1\<rparr>) s))\<lparr>env_sched_list := q\<rparr> = u"
      by (simp add: u_def upd_env_def)
    moreover have "kstack_tf u = kstack_tf s" by (simp add: u_def upd_env_def)
    ultimately have sch: "schedule True ?u = Some s'"
      using r False c q(1) by (simp add: sys_ipc_recv_def Let_def del: upd_env_fields) (auto simp: upd_env_def)
    have "ipc_inv ?u"
    proof -
      have lv: "live ?u = live s" using live by (auto simp: live_def u_def ENV_NOT_RUNNABLE_def ENV_FREE_def)
      show ?thesis unfolding ipc_inv_def lv using ipc va by (auto simp: ipc_inv_def u_def)
    qed
    with sch q(2) show ?thesis by (intro ok_schedule [of ?u]) (simp_all add: u_def)
  qed
qed

lemma ok_send:
  assumes ok: "kernel_ok s" and p: "perm < 4096" and ref: "\<And>q. unat (pp_ref s q) < 65535"
    and r: "sys_ipc_try_send envid v srcva perm s = Some (r, s')"
  shows "kernel_ok s'"
proof (rule okE [OF ok])
  fix c assume inv: "kernel_inv s" and ipc: "ipc_inv s" and c: "curenv s = Some c"
  have k: "kernel_inv s'" using keeps_ipc_try_send [OF inv ipc c p ref, of envid v srcva] r keeps_result by simp
  show "kernel_ok s'"
  proof (cases "s' = s")
    case False
    with r obtain e where id: "envid2env envid False s = Some (Inr (Some e))" and rc: "env_ipc_recving (envs s e) \<noteq> 0"
      and l: "srcva \<noteq> 0 \<longrightarrow> \<not> is_illegal_va srcva"
      by (auto simp: sys_ipc_try_send_def with_env_def split: if_splits sum.splits)
    have e: "e \<in> live s" by (rule envid2env_live [OF inv c, of envid False]) (use id in auto)
    have st: "env_status (envs s e) \<noteq> ENV_RUNNABLE"
      using ipc e rc by (auto simp: ipc_inv_def ENV_RUNNABLE_def ENV_NOT_RUNNABLE_def)
    obtain q where q: "TAILQ_INSERT_TAIL e (env_sched_list s) = Some q"
      by (rule deliver_inv [OF inv e st])
    define u where "u = upd_env e (delivered v (env_id (envs s c)) perm) (s\<lparr>env_sched_list := q\<rparr>)"
    have "mem_frame u s'"
      using r unfolding send_unfold [OF l id rc c q, folded u_def]
      by (auto simp: u_def split: if_splits option.splits dest!: page_lookup_state page_insert_frame)
    note f = mem_frame_env [OF this]
    have env: "envs s' = (envs s)(e := delivered v (env_id (envs s c)) perm (envs s e))" "curenv s' = curenv s"
      using f by (simp_all add: u_def)
    have live: "live s' = live s"
      using env e by (auto simp: live_def delivered_def ENV_RUNNABLE_def ENV_FREE_def)
    have "ipc_inv s'" unfolding ipc_inv_def live using ipc env by (auto simp: ipc_inv_def delivered_def)
    then show ?thesis using k c env by (simp add: kernel_ok_def)
  qed (use ok in simp)
qed

lemma kcall_ok: "kcall s s' \<Longrightarrow> kernel_ok s \<Longrightarrow> kernel_ok s'"
proof (induction rule: kcall.induct)
  case (mem_alloc perm envid va s r s')
  show ?case
  proof (rule okE [OF mem_alloc(3)])
    fix c assume "kernel_inv s" "curenv s = Some c"
    then have "kernel_inv s'" using keeps_mem_alloc [of s c perm envid va] mem_alloc keeps_result by simp
    then show ?thesis by (rule ok_mem [OF mem_alloc(3)]) (rule sys_mem_frames(1) [OF mem_alloc(2)])
  qed
next
  case (mem_map perm s srcid srcva dstid dstva r s')
  show ?case
  proof (rule okE [OF mem_map(4)])
    fix c assume "kernel_inv s" "curenv s = Some c"
    then have "kernel_inv s'" using keeps_mem_map [of s c perm srcid srcva dstid dstva] mem_map keeps_result by simp
    then show ?thesis by (rule ok_mem [OF mem_map(4)]) (rule sys_mem_frames(2) [OF mem_map(3)])
  qed
next
  case (mem_unmap envid va s r s')
  show ?case
  proof (rule okE [OF mem_unmap(2)])
    fix c assume "kernel_inv s" "curenv s = Some c"
    then have "kernel_inv s'" using keeps_mem_unmap [of s c envid va] mem_unmap keeps_result by simp
    then show ?thesis by (rule ok_mem [OF mem_unmap(2)]) (rule sys_mem_frames(3) [OF mem_unmap(1)])
  qed
next
  case (set_env_status status envid s r s')
  show ?case by (rule ok_status [OF set_env_status(3,1,2)])
next
  case (set_tlb_mod_entry envid func s r s')
  then have "s' = s \<or> (\<exists>e. s' = upd_env e (\<lambda>x. x\<lparr>env_user_tlb_mod_entry := func\<rparr>) s)"
    by (auto simp: sys_set_tlb_mod_entry_def with_env_def split: sum.splits)
  moreover have "kernel_ok (upd_env e (\<lambda>x. x\<lparr>env_user_tlb_mod_entry := func\<rparr>) s)" for e
    using set_tlb_mod_entry(2) kernel_inv_upd_env [of "\<lambda>x. x\<lparr>env_user_tlb_mod_entry := func\<rparr>" s e]
      ipc_inv_cong [of "upd_env e (\<lambda>x. x\<lparr>env_user_tlb_mod_entry := func\<rparr>) s" s]
    by (simp add: kernel_ok_def env_core_def)
  ultimately show ?case using set_tlb_mod_entry(2) by auto
next
  case (getenvid s r s')
  then show ?case by (auto simp: sys_getenvid_def)
next
  case (putchar junk x s r s')
  then have "s' = printcharc (ucast x) s" by (simp add: sys_putchar_def)
  then show ?case using putchar(2) by (intro ok_frame [OF putchar(2)]) (simp_all add: printcharc_def kernel_ok_def)
next
  case (cgetc s r s')
  then obtain cs where "s' = s\<lparr>cons_in := cs\<rparr>" by (auto simp: sys_cgetc_def)
  then show ?case using cgetc(2) by (intro ok_frame [OF cgetc(2)]) (simp_all add: kernel_ok_def)
next
  case (yield s r s')
  then show ?case by (auto simp: sys_yield_def kernel_ok_def [of s] intro: ok_schedule)
next
  case (ipc_recv s dstva r s')
  show ?case by (rule ok_recv [OF ipc_recv(3,1,2)])
next
  case (ipc_try_send perm s envid v srcva r s')
  show ?case by (rule ok_send [OF ipc_try_send(4,1,2,3)])
qed

section \<open>Properties\<close>

lemma k8_ok: "kernel_ok k8"
proof -
  have live: "live k8 = {0}" by (auto simp: live_def env0_def ENV_RUNNABLE_def ENV_FREE_def NENV_def)
  have dirs: "dirs k8 = {0}" by (simp add: dirs_def live env0_def)
  have fl: "set [1..<NENV] = {..<NENV} - live k8" by (auto simp: live)
  have "kmem_inv k8"
    unfolding kmem_inv_def dirs using k8_inv k8_lists(3)
    by (auto simp: user_sep_def aspace_def held1_def intro!: exI [of _ held1])
  moreover have "sched_inv k8 [0]" using k8_lists(1)
    by (auto simp: sched_inv_def env0_def ENV_RUNNABLE_def ENV_FREE_def NENV_def split: if_splits)
  then have "env_inv k8"
    unfolding env_inv_def
  proof (intro conjI)
    show "\<exists>fl. LIST_rep (env_free_list k8) fl \<and> set fl = {..<NENV} - live k8" using k8_lists(2) fl by blast
  qed (use k8_lists(4) in \<open>simp_all add: live env0_def ENVX_mod\<close>, blast)
  moreover have "entryhi k8 = 0" by (simp add: k8_def)
  then have "cur_inv k8" by (simp add: cur_inv_def live env0_def)
  moreover have "ipc_inv k8" by (simp add: ipc_inv_def live env0_def mmu_defs)
  ultimately show ?thesis by (simp add: kernel_ok_def kernel_inv_def)
qed



text \<open>
  Lemma (mem_syscalls_total). The three memory calls never panic in a well-formed kernel: whatever
  addresses and ids the caller passes they return a value or an error code and keep the invariant.
\<close>

theorem mem_syscalls_total:
  assumes "kernel_inv s" and "curenv s = Some c" and "perm < 4096" and "\<And>q. unat (pp_ref s q) < 65535"
    and "call \<in> {sys_mem_alloc envid va perm, sys_mem_map envid va dstid dstva perm, sys_mem_unmap envid va}"
  shows "\<exists>r s'. call s = Some (Returns r, s') \<and> kernel_inv s'"
  using assms(5) keeps_mem_alloc [OF assms(1-3)] keeps_mem_map [OF assms(1-4)] keeps_mem_unmap [OF assms(1,2)]
  by (auto simp: keeps_def)

theorem mem_syscalls_total_witness:
  "\<exists>r s'. sys_mem_alloc 0 0x400000 PTE_D k8 = Some (Returns r, s') \<and> kernel_inv s'"
proof (rule mem_syscalls_total [where c = 0 and perm = PTE_D and envid = 0 and va = "0x400000" and dstid = 0 and dstva = 0])
  show "kernel_inv k8" using k8_ok by (simp add: kernel_ok_def)
qed (simp_all add: PTE_D_def mem8_def)


text \<open>The concrete kernel when its environment waits for a message.\<close>

definition k8w :: kstate where
  "k8w = upd_env 0 (\<lambda>x. x\<lparr>env_ipc_recving := 1\<rparr>) (upd_env 0 (\<lambda>x. x\<lparr>env_status := ENV_NOT_RUNNABLE\<rparr>) (k8\<lparr>env_sched_list := TAILQ_INIT TAILQ_zero\<rparr>))"

lemma k8w_ok: "kernel_ok k8w" "TAILQ_rep (env_sched_list k8w) []" "live k8w = {0}"
proof -
  have live: "live k8 = {0}" "live k8w = {0}"
    by (auto simp: k8w_def live_def env0_def ENV_RUNNABLE_def ENV_NOT_RUNNABLE_def ENV_FREE_def NENV_def)
  then show "live k8w = {0}" by simp
  have rep: "TAILQ_rep (TAILQ_INIT TAILQ_zero) []" by (rule tq.rep_init)
  then show "TAILQ_rep (env_sched_list k8w) []" by (simp add: k8w_def)
  have "kernel_inv (upd_env 0 (\<lambda>x. x\<lparr>env_status := ENV_NOT_RUNNABLE\<rparr>) (k8\<lparr>env_sched_list := TAILQ_INIT TAILQ_zero\<rparr>))"
    by (rule kernel_inv_status [OF _ _ _ rep])
      (use k8_ok live in \<open>auto simp: kernel_ok_def env0_def ENV_RUNNABLE_def ENV_NOT_RUNNABLE_def ENV_FREE_def\<close>)
  then have "kernel_inv k8w" unfolding k8w_def by (subst kernel_inv_upd_env) (simp_all add: env_core_def)
  moreover have "ipc_inv k8w" unfolding ipc_inv_def live(2) by (simp add: k8w_def env0_def mmu_defs)
  moreover have "curenv k8w = Some 0" by (simp add: k8w_def)
  ultimately show "kernel_ok k8w" by (simp add: kernel_ok_def)
qed


text \<open>
  C40 (dev_range_wraps). The check of a device range is sound only when the end of the range does not wrap: then
  every byte lies in the window of the console, the disk or the clock. A range whose end wraps
  past 4 GB is accepted too, and the copy of \<open>sys_write_dev\<close> then starts at the first byte of the
  kernel's memory, at \<open>ULIM\<close>.
\<close>

theorem dev_range_wraps:
  "(is_dev_range pa len \<and> pa \<le> pa + len \<and> i < len \<longrightarrow>
      0x10000000 \<le> pa + i \<and> pa + i < 0x10000020 \<or> 0x13000000 \<le> pa + i \<and> pa + i < 0x13004200
      \<or> 0x15000000 \<le> pa + i \<and> pa + i < 0x15000200)
   \<and> is_dev_range 0xE0000000 0x20000000 \<and> \<not> is_illegal_va_range 0x00400000 0x20000000 \<and> 0xE0000000 + KSEG1 = ULIM"
proof -
  have "0x10000000 \<le> pa + i \<and> pa + i < 0x10000020 \<or> 0x13000000 \<le> pa + i \<and> pa + i < 0x13004200
      \<or> 0x15000000 \<le> pa + i \<and> pa + i < 0x15000200"
    if a: "is_dev_range pa len" "pa \<le> pa + len" "i < len"
  proof -
    have l: "unat (pa + len) = unat pa + unat len" using a(2) by (simp add: unat_plus_simple)
    then have "unat pa + unat i < 2 ^ 32" using a(3) unat_u32 [of "pa + len"] by (simp add: word_less_nat_alt)
    then have "unat (pa + i) = unat pa + unat i" by (simp add: unat_word_ariths)
    with l a(1,3) show ?thesis unfolding is_dev_range_def word_le_nat_alt word_less_nat_alt by auto
  qed
  then show ?thesis by (auto simp: is_dev_range_def is_illegal_va_range_def mmu_defs)
qed

theorem dev_range_wraps_witness:
  "0x13000000 \<le> (0x13004000 :: u32) + 8 \<and> (0x13004000 :: u32) + 8 < 0x13004200"
  using dev_range_wraps [of "0x13004000" "0x200" 8] by (simp add: is_dev_range_def)

end
