(* ===== verification/User_Print.thy ===== *)
theory User_Print
  imports Print
begin

text \<open>
  Formatted output of user programs: \<open>user/lib/debugf.c\<close>, which collects the pieces of the formatter in a
  buffer and hands the buffer to \<open>syscall_print_cons\<close> when it is full and at the end, and
  \<open>user/lib/fprintf.c\<close>, which writes each piece to a file descriptor. The answer of the system call to a
  buffer is the argument \<open>answer\<close>; the effect of \<open>write\<close> is the argument \<open>wr\<close>. \<open>None\<close> is a call of
  \<open>user_panic\<close> or an argument the formatter does not find.

  The lemmas show that buffering neither loses nor reorders a character and never overruns the buffer,
  and that the result of \<open>fprintf\<close> is the number of characters written or the first error.
\<close>

section \<open>The console\<close>

definition BUF_LEN :: nat where "BUF_LEN = 1024"

text \<open>\<open>struct debug_ctx\<close>, with the buffers printed so far.\<close>

record debug_ctx =
  dbuf :: string
  pos :: nat
  printed :: "string list"

definition store_at :: "nat \<Rightarrow> string \<Rightarrow> string \<Rightarrow> string" where
  "store_at i s b = take i b @ s @ drop (i + length s) b"

definition debug_flush :: "(string \<Rightarrow> int) \<Rightarrow> debug_ctx \<Rightarrow> debug_ctx option" where
  "debug_flush answer ctx = (
     if pos ctx = 0 then Some ctx
     else
       let out = take (pos ctx) (dbuf ctx)
       in if answer out \<noteq> 0 then None else Some (ctx\<lparr>pos := 0, printed := printed ctx @ [out]\<rparr>))"

lemma debug_flush_pos: "debug_flush answer ctx = Some ctx' \<Longrightarrow> pos ctx' = 0"
  by (auto simp: debug_flush_def Let_def split: if_splits)

function debug_output :: "(string \<Rightarrow> int) \<Rightarrow> string \<Rightarrow> debug_ctx \<Rightarrow> debug_ctx option" where
  "debug_output answer s ctx = (
     if pos ctx + length s > BUF_LEN then
       let n = BUF_LEN - pos ctx
       in (case debug_flush answer (ctx\<lparr>dbuf := store_at (pos ctx) (take n s) (dbuf ctx), pos := BUF_LEN\<rparr>) of
             None \<Rightarrow> None
           | Some ctx' \<Rightarrow> debug_output answer (drop n s) ctx')
     else Some (ctx\<lparr>dbuf := store_at (pos ctx) s (dbuf ctx), pos := pos ctx + length s\<rparr>))"
  by pat_completeness auto
termination
  by (relation "inv_image (less_than <*lex*> less_than) (\<lambda>(_, s, ctx). (length s, pos ctx))")
    (auto dest!: debug_flush_pos simp: BUF_LEN_def)

declare debug_output.simps [simp del]

definition vdebugf :: "(string \<Rightarrow> int) \<Rightarrow> string \<Rightarrow> string \<Rightarrow> arg list \<Rightarrow> string list option" where
  "vdebugf answer stack fmt ap = do {
     outs \<leftarrow> vprintfmt fmt ap;
     ctx \<leftarrow> ofold (debug_output answer) outs \<lparr>dbuf = stack, pos = 0, printed = []\<rparr>;
     ctx \<leftarrow> debug_flush answer ctx;
     Some (printed ctx)
   }"

text \<open>
  \<open>_user_panic\<close> and \<open>_user_halt\<close> print the place, the message and a newline in three calls of \<open>vdebugf\<close>
  before they end the environment or the machine.
\<close>

definition panic_message :: "(string \<Rightarrow> int) \<Rightarrow> string \<Rightarrow> string \<Rightarrow> string \<Rightarrow> u32 \<Rightarrow> string \<Rightarrow> arg list \<Rightarrow> string list option" where
  "panic_message answer stack what file line fmt ap = do {
     a \<leftarrow> vdebugf answer stack (what @ '' at %s:%d: '') [ArgStr file, ArgInt line];
     b \<leftarrow> vdebugf answer stack fmt ap;
     c \<leftarrow> vdebugf answer stack [CHR 0x0A] [];
     Some (a @ b @ c)
   }"

section \<open>File descriptors\<close>

text \<open>\<open>ctx->ret\<close> of \<open>struct print_ctx\<close>, an \<open>int\<close>, beside the state \<open>wr\<close> acts on.\<close>

definition print_output :: "(string \<Rightarrow> 's \<Rightarrow> (int \<times> 's) option) \<Rightarrow> string \<Rightarrow> int \<times> 's \<Rightarrow> (int \<times> 's) option" where
  "print_output wr s = (\<lambda>(ret, w).
     if ret < 0 then Some (ret, w)
     else do {
       (r, w) \<leftarrow> wr s w;
       Some (if r < 0 then r else sint (word_of_int (ret + r) :: u32), w)
     })"

definition vfprintf :: "(string \<Rightarrow> 's \<Rightarrow> (int \<times> 's) option) \<Rightarrow> string \<Rightarrow> arg list \<Rightarrow> 's \<Rightarrow> (int \<times> 's) option" where
  "vfprintf wr fmt ap w = do {
     outs \<leftarrow> vprintfmt fmt ap;
     ofold (print_output wr) outs (0, w)
   }"

section \<open>Buffering\<close>

text \<open>What a context stands for: the characters printed and those waiting in the buffer.\<close>

definition pending :: "debug_ctx \<Rightarrow> string" where
  "pending ctx = concat (printed ctx) @ take (pos ctx) (dbuf ctx)"

definition ctx_inv :: "debug_ctx \<Rightarrow> bool" where
  "ctx_inv ctx \<longleftrightarrow> length (dbuf ctx) = BUF_LEN \<and> pos ctx \<le> BUF_LEN \<and> (\<forall>p\<in>set (printed ctx). p \<noteq> [] \<and> length p \<le> BUF_LEN)"

lemma store_at_length: "i + length s \<le> length b \<Longrightarrow> length (store_at i s b) = length b"
  by (simp add: store_at_def)

lemma store_at_take: "i + length s \<le> length b \<Longrightarrow> take (i + length s) (store_at i s b) = take i b @ s"
  by (simp add: store_at_def)

lemma debug_flush_ok:
  assumes "ctx_inv ctx" and "\<forall>s. answer s = 0"
  shows "\<exists>ctx'. debug_flush answer ctx = Some ctx' \<and> ctx_inv ctx' \<and> pos ctx' = 0 \<and> pending ctx' = pending ctx"
  using assms by (auto simp: debug_flush_def ctx_inv_def pending_def Let_def)

lemma store_pending:
  assumes "ctx_inv ctx" and "pos ctx + length s \<le> BUF_LEN"
  shows "ctx_inv (ctx\<lparr>dbuf := store_at (pos ctx) s (dbuf ctx), pos := pos ctx + length s\<rparr>)"
    and "pending (ctx\<lparr>dbuf := store_at (pos ctx) s (dbuf ctx), pos := pos ctx + length s\<rparr>) = pending ctx @ s"
  using assms by (simp_all add: ctx_inv_def pending_def store_at_length store_at_take)

lemma debug_output_ok:
  assumes "ctx_inv ctx" and "\<forall>s. answer s = 0"
  shows "\<exists>ctx'. debug_output answer s ctx = Some ctx' \<and> ctx_inv ctx' \<and> pending ctx' = pending ctx @ s"
  using assms
proof (induction answer s ctx rule: debug_output.induct)
  case (1 answer s ctx)
  show ?case
  proof (cases "pos ctx + length s > BUF_LEN")
    case True
    define n where "n = BUF_LEN - pos ctx"
    have n: "pos ctx + length (take n s) = BUF_LEN" using True 1(2) by (auto simp: n_def ctx_inv_def)
    let ?c = "ctx\<lparr>dbuf := store_at (pos ctx) (take n s) (dbuf ctx), pos := BUF_LEN\<rparr>"
    have c: "ctx_inv ?c" "pending ?c = pending ctx @ take n s"
      using store_pending [OF 1(2), of "take n s"] unfolding n by auto
    from debug_flush_ok [OF c(1) 1(3)] obtain c' where
      c': "debug_flush answer ?c = Some c'" "ctx_inv c'" "pending c' = pending ?c" by blast
    from "1.IH" [OF True n_def c'(1) c'(2) 1(3)] obtain ctx' where
      "debug_output answer (drop n s) c' = Some ctx'" "ctx_inv ctx'" "pending ctx' = pending c' @ drop n s" by blast
    then show ?thesis using True c'(1,3) c(2) by (subst debug_output.simps) (simp add: Let_def n_def [symmetric])
  next
    case False
    then show ?thesis using store_pending [OF 1(2)] by (subst debug_output.simps) simp
  qed
qed

lemma debug_outputs_ok:
  assumes "ctx_inv ctx" and "\<forall>s. answer s = 0"
  shows "\<exists>ctx'. ofold (debug_output answer) outs ctx = Some ctx' \<and> ctx_inv ctx' \<and> pending ctx' = pending ctx @ concat outs"
  using assms(1)
proof (induction outs arbitrary: ctx)
  case (Cons s outs)
  from debug_output_ok [OF Cons.prems assms(2)] obtain c where
    "debug_output answer s ctx = Some c" "ctx_inv c" "pending c = pending ctx @ s" by blast
  with Cons.IH [OF this(2)] show ?case by auto
qed simp

text \<open>
  C11 (debugf_prints_all). When the formatter succeeds and the system call accepts every buffer, \<open>debugf\<close>
  returns and the buffers it hands to the system call, each with between one and \<open>BUF_LEN\<close> characters, are
  together the formatted text, whatever the local buffer held at the start.
\<close>

theorem debugf_prints_all:
  assumes "format fmt ap = Some out" and "length stack = BUF_LEN" and ok: "\<forall>s. answer s = 0"
  shows "\<exists>bufs. vdebugf answer stack fmt ap = Some bufs \<and> concat bufs = out
    \<and> (\<forall>b\<in>set bufs. b \<noteq> [] \<and> length b \<le> BUF_LEN)"
proof -
  from assms(1) obtain outs where outs: "vprintfmt fmt ap = Some outs" "out = concat outs" by (auto simp: format_def)
  let ?c = "\<lparr>dbuf = stack, pos = 0, printed = []\<rparr>"
  have "ctx_inv ?c" "pending ?c = []" using assms(2) by (simp_all add: ctx_inv_def pending_def)
  with debug_outputs_ok [OF this(1) ok, of outs] outs(2) obtain c where
    c: "ofold (debug_output answer) outs ?c = Some c" "ctx_inv c" "pending c = out" by auto
  from debug_flush_ok [OF c(2) ok] obtain d where
    d: "debug_flush answer c = Some d" "ctx_inv d" "pos d = 0" "pending d = out" using c(3) by auto
  then show ?thesis using outs(1) c(1) by (auto simp: vdebugf_def pending_def ctx_inv_def)
qed

theorem debugf_prints_all_witness:
  "\<exists>bufs. vdebugf (\<lambda>_. 0) (replicate BUF_LEN (CHR ''?'')) ''%d:'' [ArgInt 42] = Some bufs \<and> concat bufs = ''42:''
    \<and> (\<forall>b\<in>set bufs. b \<noteq> [] \<and> length b \<le> BUF_LEN)"
proof (rule debugf_prints_all)
  show "format ''%d:'' [ArgInt 42] = Some ''42:''" by code_simp
qed simp_all

section \<open>Counting\<close>

text \<open>The state after some pieces are written one after the other.\<close>

definition writes :: "(string \<Rightarrow> 's \<Rightarrow> (int \<times> 's) option) \<Rightarrow> string list \<Rightarrow> 's \<Rightarrow> 's option" where
  "writes wr = ofold (\<lambda>s w. map_option snd (wr s w))"

lemma writes_simps [simp]:
  "writes wr [] w = Some w"
  "wr s w = Some (r, w') \<Longrightarrow> writes wr (s # ps) w = writes wr ps w'"
  by (simp_all add: writes_def)

definition whole :: "(string \<Rightarrow> 's \<Rightarrow> (int \<times> 's) option) \<Rightarrow> bool" where
  "whole wr \<longleftrightarrow> (\<forall>s w. \<exists>r w'. wr s w = Some (r, w') \<and> (r = int (length s) \<or> r < 0))"

lemma print_output_failed: "ret < 0 \<Longrightarrow> ofold (print_output wr) outs (ret, w) = Some (ret, w)"
  by (induction outs) (simp_all add: print_output_def)

lemma print_outputs:
  assumes "whole wr" and "0 \<le> ret" and "ret + int (length (concat outs)) < 2 ^ 31"
  shows "(\<exists>w'. writes wr outs w = Some w' \<and> ofold (print_output wr) outs (ret, w) = Some (ret + int (length (concat outs)), w'))
    \<or> (\<exists>ps s qs w1 r w'. outs = ps @ s # qs \<and> writes wr ps w = Some w1 \<and> wr s w1 = Some (r, w') \<and> r < 0
         \<and> ofold (print_output wr) outs (ret, w) = Some (r, w'))"
  using assms(2,3)
proof (induction outs arbitrary: ret w)
  case (Cons s outs)
  from assms(1) obtain r w1 where w1: "wr s w = Some (r, w1)" "r = int (length s) \<or> r < 0" unfolding whole_def by meson
  show ?case
  proof (cases "r < 0")
    case True
    then have "ofold (print_output wr) (s # outs) (ret, w) = Some (r, w1)"
      using w1(1) Cons.prems(1) print_output_failed [OF True] by (simp add: print_output_def [of wr s])
    then have "s # outs = [] @ s # outs \<and> writes wr [] w = Some w \<and> wr s w = Some (r, w1) \<and> r < 0
        \<and> ofold (print_output wr) (s # outs) (ret, w) = Some (r, w1)" using w1(1) True by simp
    then show ?thesis by blast
  next
    case False
    then have r: "r = int (length s)" using w1(2) by simp
    have "ofold (print_output wr) (s # outs) (ret, w) = ofold (print_output wr) outs (ret + r, w1)"
      using w1(1) Cons.prems r sint_small [of "ret + r"] by (simp add: print_output_def)
    with Cons.IH [of "ret + r" w1] Cons.prems r w1(1) show ?thesis
      by (auto simp: add.assoc) (metis append_Cons writes_simps(2))
  qed
qed simp

text \<open>
  Lemma (fprintf_counts). When every \<open>write\<close> writes all it is given or fails and the text has fewer than
  \<open>2 ^ 31\<close> characters, \<open>fprintf\<close> either writes all pieces of the formatted text in order and returns its length, or
  returns the error of the first \<open>write\<close> that fails, with the pieces before it written and none after it.
\<close>

theorem fprintf_counts:
  assumes "vprintfmt fmt ap = Some outs" and "whole wr" and "length (concat outs) < 2 ^ 31"
  shows "(\<exists>w'. writes wr outs w = Some w' \<and> vfprintf wr fmt ap w = Some (int (length (concat outs)), w'))
    \<or> (\<exists>ps s qs w1 r w'. outs = ps @ s # qs \<and> writes wr ps w = Some w1 \<and> wr s w1 = Some (r, w') \<and> r < 0
         \<and> vfprintf wr fmt ap w = Some (r, w'))"
  using print_outputs [OF assms(2), of 0 outs w] assms(1,3) by (simp add: vfprintf_def)

definition log_write :: "string \<Rightarrow> string \<Rightarrow> (int \<times> string) option" where
  "log_write s w = Some (if length w < 3 then (int (length s), w @ s) else (- 8, w))"

theorem fprintf_counts_witness:
  "(\<exists>w'. writes log_write [''42'', '':'', ''d''] [] = Some w' \<and> vfprintf log_write ''%d:d'' [ArgInt 42] [] = Some (int (length (concat [''42'', '':'', ''d''])), w'))
    \<or> (\<exists>ps s qs w1 r w'. [''42'', '':'', ''d''] = ps @ s # qs \<and> writes log_write ps [] = Some w1 \<and> log_write s w1 = Some (r, w') \<and> r < 0
         \<and> vfprintf log_write ''%d:d'' [ArgInt 42] [] = Some (r, w'))"
proof (rule fprintf_counts)
  show "vprintfmt ''%d:d'' [ArgInt 42] = Some [''42'', '':'', ''d'']" by code_simp
  show "whole log_write" by (simp add: whole_def log_write_def)
qed simp

end
