(* ===== verification/Pipe.thy ===== *)
theory Pipe
  imports Prelude
begin

text \<open>
  Pipes, \<open>user/lib/pipe.c\<close>: the ring buffer that two environments share, the loops of \<open>pipe_read\<close> and
  \<open>pipe_write\<close> and the test for a closed pipe. Other environments may run at every point at which
  the code reads or writes shared memory: the argument \<open>others\<close> gives what they do to the shared
  state at the \<open>n\<close>-th such point, and \<open>clock\<close> counts them. A loop that waits forever is \<open>None\<close>.

  What the other end may do while one end is inside a call is a relation on the shared state; the
  lemmas show that each end, step by step, does only what the other one relies on, and that under
  this reliance bytes arrive complete and in order.
\<close>

section \<open>Definitions\<close>

definition BY2PIPE :: nat where "BY2PIPE = 32"

record pipe =
  p_rpos :: u32
  p_wpos :: u32
  p_buf :: "nat \<Rightarrow> u8"

text \<open>The counts that \<open>pageref\<close> gives for the descriptor and for the pipe, and \<open>env->env_runs\<close>.\<close>

record pworld = pipe +
  fd_pageref :: nat
  pipe_pageref :: nat
  runs :: u32
  clock :: nat

type_synonym others = "nat \<Rightarrow> pworld \<Rightarrow> pworld"

definition tick :: "others \<Rightarrow> pworld \<Rightarrow> pworld" where
  "tick others w = (others (clock w) w)\<lparr>clock := clock w + 1\<rparr>"

partial_function (option) pipe_closed :: "others \<Rightarrow> pworld \<Rightarrow> (bool \<times> pworld) option" where
  "pipe_closed others w = (
     let before = runs w;
         w = tick others w;
         fd_ref = fd_pageref w;
         w = tick others w;
         pipe_ref = pipe_pageref w;
         w = tick others w
     in if before \<noteq> runs w then pipe_closed others w
        else Some (fd_ref = pipe_ref, w))"

text \<open>The result of \<open>pipe_read\<close> is the bytes stored in the caller's buffer; their number is returned.\<close>

partial_function (option) pipe_read :: "others \<Rightarrow> u32 \<Rightarrow> u8 list \<Rightarrow> pworld \<Rightarrow> (u8 list \<times> pworld) option" where
  "pipe_read others n rbuf w = (
     if length rbuf < unat n then
       let w = tick others w
       in if p_rpos w = p_wpos w then
            if length rbuf > 0 then Some (rbuf, w)
            else Option.bind (pipe_closed others w) (\<lambda>(c, w).
              if c then Some (rbuf, w) else pipe_read others n rbuf (tick others w))
          else
            let b = p_buf w (unat (p_rpos w) mod BY2PIPE);
                w = tick others w
            in pipe_read others n (rbuf @ [b]) (w\<lparr>p_rpos := p_rpos w + 1\<rparr>)
     else Some (rbuf, w))"

text \<open>\<open>i\<close> bytes of the caller's buffer have been written.\<close>

partial_function (option) pipe_write :: "others \<Rightarrow> u8 list \<Rightarrow> nat \<Rightarrow> pworld \<Rightarrow> (nat \<times> pworld) option" where
  "pipe_write others vbuf i w = (
     if i < length vbuf then
       let w = tick others w
       in if p_wpos w - p_rpos w = word_of_nat BY2PIPE then
            Option.bind (pipe_closed others w) (\<lambda>(c, w).
              if c then Some (i, w) else pipe_write others vbuf i (tick others w))
          else
            let w = w\<lparr>p_buf := (p_buf w)(unat (p_wpos w) mod BY2PIPE := vbuf ! i)\<rparr>;
                w = tick others w
            in pipe_write others vbuf (i + 1) (w\<lparr>p_wpos := p_wpos w + 1\<rparr>)
     else Some (i, w))"

lemmas pipe_closed_induct = pipe_closed.raw_induct [rotated, consumes 1, case_names step]
lemmas pipe_read_induct = pipe_read.raw_induct [rotated, consumes 1, case_names step]
lemmas pipe_write_induct = pipe_write.raw_induct [rotated, consumes 1, case_names step]

section \<open>The queue in the ring buffer\<close>

definition used :: "'a pipe_scheme \<Rightarrow> nat" where
  "used w = unat (p_wpos w - p_rpos w)"

definition pipe_inv :: "'a pipe_scheme \<Rightarrow> bool" where
  "pipe_inv w \<longleftrightarrow> used w \<le> BY2PIPE"

definition contents :: "'a pipe_scheme \<Rightarrow> u8 list" where
  "contents w = map (\<lambda>k. p_buf w ((unat (p_rpos w) + k) mod BY2PIPE)) [0..<used w]"

lemma length_contents [simp]: "length (contents w) = used w"
  by (simp add: contents_def)

lemma wrap_mod: "unat (x + word_of_nat k :: u32) mod BY2PIPE = (unat x + k) mod BY2PIPE"
proof -
  have "(2 ^ 32 :: nat) mod 32 = 0" by simp
  then have "((a :: nat) mod 2 ^ 32) mod 32 = a mod 32" for a by (rule_tac mod_mod_cancel) (simp add: dvd_eq_mod_eq_0)
  from this [of "unat x + k"] show ?thesis
    by (simp add: unat_word_ariths unat_of_nat mod_simps BY2PIPE_def)
qed

lemma wpos_index: "unat (p_wpos w) mod BY2PIPE = (unat (p_rpos w) + used w) mod BY2PIPE"
  using wrap_mod [of "p_rpos w" "used w"] by (simp add: used_def)

text \<open>Distinct positions of the queue are distinct cells.\<close>

lemma cells_distinct:
  assumes "(r + i) mod BY2PIPE = (r + j) mod BY2PIPE" and "i < BY2PIPE" and "j < BY2PIPE"
  shows "i = j"
proof -
  have "\<not> a < b" if "(r + a) mod 32 = (r + b) mod 32" "b < 32" for a b :: nat
  proof
    assume "a < b"
    then have "32 dvd (r + b) - (r + a)" using that(1) mod_eq_dvd_iff_nat [of "r + a" "r + b" 32] by simp
    then have "32 dvd b - a" by simp
    with \<open>a < b\<close> that(2) show False using nat_dvd_not_less [of "b - a" 32] by simp
  qed
  from this [of i j] this [of j i] assms show ?thesis by (simp add: BY2PIPE_def)
qed

lemma contents_cong:
  "p_rpos w' = p_rpos w \<Longrightarrow> p_wpos w' = p_wpos w \<Longrightarrow> p_buf w' = p_buf w \<Longrightarrow> contents w' = contents w"
  by (simp add: contents_def used_def)

lemma clock_update [simp]:
  "contents (w\<lparr>clock := c\<rparr>) = contents w" "used (w\<lparr>clock := c\<rparr>) = used w" "pipe_inv (w\<lparr>clock := c\<rparr>) = pipe_inv w"
  by (simp_all add: contents_def used_def pipe_inv_def)

lemma used_pos: "p_rpos w \<noteq> p_wpos w \<Longrightarrow> 0 < used w"
  by (simp add: used_def unat_gt_0)

lemma used_read: "0 < used w \<Longrightarrow> used (w\<lparr>p_rpos := p_rpos w + 1\<rparr>) = used w - 1"
proof -
  assume "0 < used w"
  then have "p_wpos w - p_rpos w \<noteq> 0" by (auto simp: used_def)
  from unat_dec [OF this] show ?thesis by (simp add: used_def diff_diff_eq)
qed

text \<open>Advancing the read position takes the first byte off the queue.\<close>

lemma contents_read:
  assumes "0 < used w"
  shows "contents w = p_buf w (unat (p_rpos w) mod BY2PIPE) # contents (w\<lparr>p_rpos := p_rpos w + 1\<rparr>)"
proof (rule nth_equalityI)
  show "length (contents w) = length (p_buf w (unat (p_rpos w) mod BY2PIPE) # contents (w\<lparr>p_rpos := p_rpos w + 1\<rparr>))"
    using assms by (simp add: used_read)
  fix i assume i: "i < length (contents w)"
  have "(unat (p_rpos w + 1) + k) mod BY2PIPE = (unat (p_rpos w) + Suc k) mod BY2PIPE" for k
    using wrap_mod [of "p_rpos w" 1] mod_add_left_eq [of "unat (p_rpos w + 1)" BY2PIPE k]
      mod_add_left_eq [of "unat (p_rpos w) + 1" BY2PIPE k] by simp
  with i assms show "contents w ! i = (p_buf w (unat (p_rpos w) mod BY2PIPE) # contents (w\<lparr>p_rpos := p_rpos w + 1\<rparr>)) ! i"
    by (cases i) (simp_all add: contents_def used_read)
qed

text \<open>A store into the cell after the last one is not visible; advancing the write position makes it so.\<close>

lemma contents_store:
  assumes "used w < BY2PIPE"
  shows "contents (w\<lparr>p_buf := (p_buf w)(unat (p_wpos w) mod BY2PIPE := b)\<rparr>) = contents w"
proof -
  have "(unat (p_rpos w) + k) mod BY2PIPE \<noteq> unat (p_wpos w) mod BY2PIPE" if "k < used w" for k
    using cells_distinct [of "unat (p_rpos w)" k "used w"] that assms by (auto simp: wpos_index)
  then show ?thesis by (simp add: contents_def used_def)
qed

lemma used_write: "used w < BY2PIPE \<Longrightarrow> used (w\<lparr>p_wpos := p_wpos w + 1\<rparr>) = used w + 1"
proof -
  assume "used w < BY2PIPE"
  then have "unat (p_wpos w - p_rpos w) < 2 ^ 32 - 1" by (simp add: used_def BY2PIPE_def)
  from unat_inc [of "p_wpos w - p_rpos w"] this have "unat (p_wpos w - p_rpos w + 1) = used w + 1" by (simp add: used_def)
  moreover have eq: "p_wpos w + 1 - p_rpos w = p_wpos w - p_rpos w + 1" by simp
  ultimately show ?thesis unfolding used_def by (simp add: eq)
qed

lemma contents_write:
  assumes "used w < BY2PIPE"
  shows "contents (w\<lparr>p_wpos := p_wpos w + 1\<rparr>) = contents w @ [p_buf w (unat (p_wpos w) mod BY2PIPE)]"
  using used_write [OF assms] by (simp add: contents_def wpos_index)

section \<open>What the ends rely on\<close>

definition writer_acts :: "pworld \<Rightarrow> pworld \<Rightarrow> bool" where
  "writer_acts w w' \<longleftrightarrow> p_rpos w' = p_rpos w \<and> pipe_inv w' \<and> (\<exists>bs. contents w' = contents w @ bs)"

definition reader_acts :: "pworld \<Rightarrow> pworld \<Rightarrow> bool" where
  "reader_acts w w' \<longleftrightarrow> p_wpos w' = p_wpos w \<and> p_buf w' = p_buf w \<and> pipe_inv w'
     \<and> (\<exists>bs. contents w = bs @ contents w')"

definition obey :: "(pworld \<Rightarrow> pworld \<Rightarrow> bool) \<Rightarrow> others \<Rightarrow> bool" where
  "obey R others \<longleftrightarrow> (\<forall>k w. pipe_inv w \<longrightarrow> R w (others k w))"

lemma writer_acts_trans: "writer_acts u v \<Longrightarrow> writer_acts v w \<Longrightarrow> writer_acts u w"
  by (auto simp: writer_acts_def)

lemma reader_acts_trans: "reader_acts u v \<Longrightarrow> reader_acts v w \<Longrightarrow> reader_acts u w"
  by (auto simp: reader_acts_def)

text \<open>Each step of one end is an action the other one allows.\<close>

lemma reader_step: "pipe_inv w \<Longrightarrow> p_rpos w \<noteq> p_wpos w \<Longrightarrow> reader_acts w (w\<lparr>p_rpos := p_rpos w + 1\<rparr>)"
  using contents_read [of w] used_read [of w] used_pos [of w]
  by (auto simp: reader_acts_def pipe_inv_def)

lemma writer_steps:
  assumes "pipe_inv w" and "used w < BY2PIPE"
  shows "writer_acts w (w\<lparr>p_buf := (p_buf w)(unat (p_wpos w) mod BY2PIPE := b)\<rparr>)"
    and "writer_acts w (w\<lparr>p_wpos := p_wpos w + 1\<rparr>)"
proof -
  show "writer_acts w (w\<lparr>p_buf := (p_buf w)(unat (p_wpos w) mod BY2PIPE := b)\<rparr>)"
    using assms contents_store [OF assms(2)] by (simp add: writer_acts_def pipe_inv_def used_def)
  show "writer_acts w (w\<lparr>p_wpos := p_wpos w + 1\<rparr>)"
    using contents_write [OF assms(2)] used_write [OF assms(2)] assms(2) by (simp add: writer_acts_def pipe_inv_def)
qed

text \<open>Interference by other environments that keep to such a relation.\<close>

locale interference =
  fixes R :: "pworld \<Rightarrow> pworld \<Rightarrow> bool"
  assumes trans: "R u v \<Longrightarrow> R v w \<Longrightarrow> R u w"
    and inv: "R u v \<Longrightarrow> pipe_inv v"
    and clock: "R u v \<Longrightarrow> R u (v\<lparr>clock := c\<rparr>)"
begin

lemma tick: "obey R others \<Longrightarrow> pipe_inv w \<Longrightarrow> R w (tick others w)"
  by (simp add: obey_def tick_def clock)

lemma ticks3: "obey R others \<Longrightarrow> pipe_inv w \<Longrightarrow> R w (Pipe.tick others (Pipe.tick others (Pipe.tick others w)))"
  by (meson tick inv trans)

lemma closed: "pipe_closed others w = Some r \<Longrightarrow> obey R others \<Longrightarrow> pipe_inv w \<Longrightarrow> R w (snd r)"
proof (induction rule: pipe_closed_induct)
  case (step f others w r)
  let ?w = "Pipe.tick others (Pipe.tick others (Pipe.tick others w))"
  have w: "R w ?w" using step(3,4) by (rule ticks3)
  show ?case
  proof (cases "runs w = runs ?w")
    case True
    with step(2) w show ?thesis by (auto simp: Let_def)
  next
    case False
    with step(2) have "f others ?w = Some r" by (simp add: Let_def)
    from step(1) [OF this step(3) inv [OF w]] w show ?thesis by (blast intro: trans)
  qed
qed

end

interpretation wr: interference writer_acts
  by unfold_locales (auto simp: writer_acts_def)

interpretation rd: interference reader_acts
  by unfold_locales (auto simp: reader_acts_def)

section \<open>Reading and writing\<close>

lemma writer_acts_contents:
  "writer_acts w w' \<Longrightarrow> contents w' = b # bs \<Longrightarrow> contents w = [] \<or> (\<exists>cs. contents w = b # cs)"
  by (cases "contents w") (auto simp: writer_acts_def)

lemma pipe_read_fifo:
  assumes "pipe_read others n rbuf w = Some r" and "obey writer_acts others" and "pipe_inv w" and "length rbuf \<le> unat n"
  shows "\<exists>bs got. fst r = rbuf @ got \<and> contents w @ bs = got @ contents (snd r) \<and> pipe_inv (snd r) \<and> length (fst r) \<le> unat n"
  using assms
proof (induction rule: pipe_read_induct)
  case (step f others n rbuf w r)
  let ?w = "tick others w" and ?P = "\<lambda>rbuf w r. \<exists>bs got. fst r = rbuf @ got \<and> contents w @ bs = got @ contents (snd r)
      \<and> pipe_inv (snd r) \<and> length (fst r) \<le> unat n"
  have w: "writer_acts w ?w" using step(3,4) by (rule wr.tick)
  have pre: "?P rbuf u r \<Longrightarrow> writer_acts v u \<Longrightarrow> ?P rbuf v r" for u v
    by (auto simp: writer_acts_def)
  have keep: "?P rbuf w (rbuf, u)" if "writer_acts w u" for u
    using that step(5) by (auto simp: writer_acts_def)
  show ?case
  proof (cases "length rbuf < unat n")
    case False
    then have "r = (rbuf, w)" using step(2) by simp
    with step(4,5) show ?thesis by auto
  next
    case True
    show ?thesis
    proof (cases "p_rpos ?w = p_wpos ?w")
      case True
      show ?thesis
      proof (cases "length rbuf > 0")
        case True
        then have "r = (rbuf, ?w)" using step(2) \<open>length rbuf < unat n\<close> \<open>p_rpos ?w = p_wpos ?w\<close> by (simp add: Let_def)
        with keep [OF w] show ?thesis by simp
      next
        case False
        with step(2) \<open>length rbuf < unat n\<close> \<open>p_rpos ?w = p_wpos ?w\<close> obtain c w1 where
          c: "pipe_closed others ?w = Some (c, w1)" "(if c then Some (rbuf, w1) else f others n rbuf (tick others w1)) = Some r"
          by (auto simp: Let_def)
        have w1: "writer_acts w w1" using wr.closed [OF c(1) step(3) wr.inv [OF w]] w by (auto intro: wr.trans)
        show ?thesis
        proof (cases c)
          case True
          with c keep [OF w1] show ?thesis by simp
        next
          case False
          have w2: "writer_acts w (tick others w1)" using wr.tick [OF step(3) wr.inv [OF w1]] w1 by (blast intro: wr.trans)
          from False c(2) have "f others n rbuf (tick others w1) = Some r" by simp
          from pre [OF step(1) [OF this step(3) wr.inv [OF w2] step(5)] w2] show ?thesis .
        qed
      qed
    next
      case False
      let ?b = "p_buf ?w (unat (p_rpos ?w) mod BY2PIPE)" and ?u = "tick others ?w"
      let ?v = "?u\<lparr>p_rpos := p_rpos ?u + 1\<rparr>"
      from False step(2) True have f: "f others n (rbuf @ [?b]) ?v = Some r" by (simp add: Let_def)
      have u: "writer_acts ?w ?u" using wr.tick [OF step(3) wr.inv [OF w]] .
      have hd: "contents ?w = ?b # contents (?w\<lparr>p_rpos := p_rpos ?w + 1\<rparr>)"
        using contents_read [OF used_pos [OF False]] .
      with u have "0 < used ?u" by (auto simp: writer_acts_def simp flip: length_contents)
      from contents_read [OF this] u hd have cu: "contents ?u = ?b # contents ?v"
        by (auto simp: writer_acts_def)
      have "pipe_inv ?v"
        using used_read [OF \<open>0 < used ?u\<close>] wr.inv [OF u] by (simp add: pipe_inv_def)
      from step(1) [OF f step(3) this] True obtain bs got where
        r: "fst r = rbuf @ [?b] @ got" "contents ?v @ bs = got @ contents (snd r)" "pipe_inv (snd r)" "length (fst r) \<le> unat n"
        by auto
      have "?P rbuf ?u r" using r cu by (intro exI [of _ bs] exI [of _ "?b # got"]) simp
      from pre [OF pre [OF this u] w] show ?thesis .
    qed
  qed
qed

lemma not_full: "pipe_inv w \<Longrightarrow> p_wpos w - p_rpos w \<noteq> word_of_nat BY2PIPE \<Longrightarrow> used w < BY2PIPE"
proof -
  assume inv: "pipe_inv w" and ne: "p_wpos w - p_rpos w \<noteq> word_of_nat BY2PIPE"
  have "used w \<noteq> BY2PIPE"
  proof
    assume "used w = BY2PIPE"
    then have "word_of_nat (used w) = (word_of_nat BY2PIPE :: u32)" by simp
    with ne show False by (simp add: used_def)
  qed
  with inv show ?thesis by (simp add: pipe_inv_def)
qed

lemma reader_acts_used: "reader_acts w w' \<Longrightarrow> used w' \<le> used w"
proof -
  assume "reader_acts w w'"
  then obtain bs where "contents w = bs @ contents w'" by (auto simp: reader_acts_def)
  from arg_cong [OF this, of length] show ?thesis by simp
qed

lemma pipe_write_fifo:
  assumes "pipe_write others vbuf i w = Some r" and "obey reader_acts others" and "pipe_inv w" and "i \<le> length vbuf"
  shows "\<exists>got. contents w @ take (fst r - i) (drop i vbuf) = got @ contents (snd r)
    \<and> pipe_inv (snd r) \<and> i \<le> fst r \<and> fst r \<le> length vbuf"
  using assms
proof (induction rule: pipe_write_induct)
  case (step f others vbuf i w r)
  let ?w = "tick others w" and ?P = "\<lambda>i w r. \<exists>got. contents w @ take (fst r - i) (drop i vbuf) = got @ contents (snd r)
      \<and> pipe_inv (snd r) \<and> i \<le> fst r \<and> fst r \<le> length vbuf"
  have w: "reader_acts w ?w" using step(3,4) by (rule rd.tick)
  have pre: "?P i u r \<Longrightarrow> reader_acts v u \<Longrightarrow> ?P i v r" for u v
    by (auto simp: reader_acts_def)
  have keep: "?P i w (i, u)" if "reader_acts w u" for u
    using that step(5) by (auto simp: reader_acts_def)
  show ?case
  proof (cases "i < length vbuf")
    case False
    then have "r = (i, w)" using step(2) by simp
    with step(4,5) show ?thesis by auto
  next
    case True
    show ?thesis
    proof (cases "p_wpos ?w - p_rpos ?w = word_of_nat BY2PIPE")
      case full: True
      with step(2) True obtain c w1 where
        c: "pipe_closed others ?w = Some (c, w1)" "(if c then Some (i, w1) else f others vbuf i (tick others w1)) = Some r"
        by (auto simp: Let_def)
      have w1: "reader_acts w w1" using rd.closed [OF c(1) step(3) rd.inv [OF w]] w by (auto intro: rd.trans)
      show ?thesis
      proof (cases c)
        case True
        with c keep [OF w1] show ?thesis by simp
      next
        case False
        have w2: "reader_acts w (tick others w1)" using rd.tick [OF step(3) rd.inv [OF w1]] w1 by (blast intro: rd.trans)
        from False c(2) have "f others vbuf i (tick others w1) = Some r" by simp
        from pre [OF step(1) [OF this step(3) rd.inv [OF w2] step(5)] w2] show ?thesis .
      qed
    next
      case False
      let ?s = "?w\<lparr>p_buf := (p_buf ?w)(unat (p_wpos ?w) mod BY2PIPE := vbuf ! i)\<rparr>"
      let ?u = "tick others ?s"
      let ?v = "?u\<lparr>p_wpos := p_wpos ?u + 1\<rparr>"
      from False step(2) True have f: "f others vbuf (i + 1) ?v = Some r" by (simp add: Let_def)
      have lt: "used ?w < BY2PIPE" using not_full [OF rd.inv [OF w] False] .
      have s: "contents ?s = contents ?w" "pipe_inv ?s"
        using contents_store [OF lt] lt by (simp_all add: pipe_inv_def used_def)
      have u: "reader_acts ?s ?u" using rd.tick [OF step(3) s(2)] .
      have ult: "used ?u < BY2PIPE" using reader_acts_used [OF u] lt by (simp add: used_def)
      have cu: "contents ?v = contents ?u @ [vbuf ! i]"
        using contents_write [OF ult] u by (simp add: reader_acts_def)
      have "pipe_inv ?v" using used_write [OF ult] ult by (simp add: pipe_inv_def)
      from step(1) [OF f step(3) this] True obtain got where
        r: "contents ?v @ take (fst r - (i + 1)) (drop (i + 1) vbuf) = got @ contents (snd r)" "pipe_inv (snd r)"
          "i + 1 \<le> fst r" "fst r \<le> length vbuf"
        by auto
      have "take (fst r - i) (drop i vbuf) = vbuf ! i # take (fst r - (i + 1)) (drop (i + 1) vbuf)"
        using r(3) True by (simp add: take_Cons' flip: Cons_nth_drop_Suc)
      then have "?P i ?u r" using r cu by auto
      then have "?P i ?s r" using u by (auto simp: reader_acts_def)
      then have "?P i ?w r" using s(1) by simp
      from pre [OF this w] show ?thesis .
    qed
  qed
qed

section \<open>Without interference\<close>

definition quiet :: others where
  "quiet k w = w"

lemma tick_quiet: "tick quiet w = w\<lparr>clock := clock w + 1\<rparr>"
  by (simp add: tick_def quiet_def)

lemma quiet_write:
  "used w + (length vbuf - i) \<le> BY2PIPE \<Longrightarrow> i \<le> length vbuf
    \<Longrightarrow> \<exists>w'. pipe_write quiet vbuf i w = Some (length vbuf, w') \<and> contents w' = contents w @ drop i vbuf"
proof (induction "length vbuf - i" arbitrary: i w)
  case 0
  then show ?case by (subst pipe_write.simps) simp
next
  case (Suc n)
  let ?w = "w\<lparr>clock := clock w + 1\<rparr>"
  let ?s = "?w\<lparr>p_buf := (p_buf ?w)(unat (p_wpos ?w) mod BY2PIPE := vbuf ! i)\<rparr>"
  let ?u = "?s\<lparr>clock := clock w + 2\<rparr>"
  let ?v = "?u\<lparr>p_wpos := p_wpos ?u + 1\<rparr>"
  have i: "i < length vbuf" using Suc.hyps(2) by simp
  have lt: "used ?w < BY2PIPE" using Suc.prems(1) i by simp
  then have nf: "p_wpos ?w - p_rpos ?w \<noteq> word_of_nat BY2PIPE" by (auto simp: used_def BY2PIPE_def)
  have eq: "pipe_write quiet vbuf i w = pipe_write quiet vbuf (i + 1) ?v"
    by (subst pipe_write.simps) (use i nf in \<open>simp add: tick_quiet Let_def\<close>)
  have ul: "used ?u < BY2PIPE" using lt by (simp add: used_def)
  have "contents ?u = contents ?s" by (rule clock_update(1))
  then have cu: "contents ?u = contents w" using contents_store [OF lt, of "vbuf ! i"] by (simp add: contents_def used_def)
  have cv: "contents ?v = contents w @ [vbuf ! i]" using contents_write [OF ul] cu by simp
  have uv: "used ?v = used w + 1" using used_write [OF ul] by (simp add: used_def)
  have "\<exists>w'. pipe_write quiet vbuf (i + 1) ?v = Some (length vbuf, w') \<and> contents w' = contents ?v @ drop (i + 1) vbuf"
    using Suc.hyps(2) Suc.prems i uv by (intro Suc.hyps(1)) auto
  with eq cv show ?case using i by (simp add: Cons_nth_drop_Suc)
qed

lemma quiet_read:
  "contents w \<noteq> [] \<or> rbuf \<noteq> [] \<Longrightarrow> length rbuf \<le> unat n
    \<Longrightarrow> \<exists>w'. pipe_read quiet n rbuf w = Some (rbuf @ take (unat n - length rbuf) (contents w), w')
      \<and> contents w' = drop (unat n - length rbuf) (contents w)"
proof (induction "unat n - length rbuf" arbitrary: rbuf w)
  case 0
  then show ?case by (subst pipe_read.simps) simp
next
  case (Suc k)
  let ?w = "w\<lparr>clock := clock w + 1\<rparr>" and ?b = "p_buf w (unat (p_rpos w) mod BY2PIPE)"
  have lt: "length rbuf < unat n" using Suc.hyps(2) by simp
  show ?case
  proof (cases "used w = 0")
    case True
    then have "p_rpos w = p_wpos w" using used_pos [of w] by auto
    moreover have "contents w = []" using True by (simp flip: length_0_conv)
    moreover have "rbuf \<noteq> []" using Suc.prems(1) calculation(2) by simp
    ultimately show ?thesis by (subst pipe_read.simps) (use lt in \<open>simp add: tick_quiet Let_def\<close>)
  next
    case False
    then have ne: "p_rpos w \<noteq> p_wpos w" by (auto simp: used_def)
    let ?v = "w\<lparr>clock := clock w + 2, p_rpos := p_rpos w + 1\<rparr>"
    have eq: "pipe_read quiet n rbuf w = pipe_read quiet n (rbuf @ [?b]) ?v"
      by (subst pipe_read.simps) (use lt ne in \<open>simp add: tick_quiet Let_def\<close>)
    have "contents ?v = contents (w\<lparr>p_rpos := p_rpos w + 1\<rparr>)" by (rule contents_cong) simp_all
    then have cw: "contents w = ?b # contents ?v" using contents_read [of w] False by simp
    have "\<exists>w'. pipe_read quiet n (rbuf @ [?b]) ?v
        = Some ((rbuf @ [?b]) @ take (unat n - length (rbuf @ [?b])) (contents ?v), w')
        \<and> contents w' = drop (unat n - length (rbuf @ [?b])) (contents ?v)"
      using Suc.hyps(2) lt by (intro Suc.hyps(1)) auto
    moreover have "unat n - length rbuf = Suc (unat n - Suc (length rbuf))" using lt by simp
    ultimately show ?thesis using eq cw by simp
  qed
qed

section \<open>Properties\<close>


definition pw :: "u32 \<Rightarrow> u8 list \<Rightarrow> pworld" where
  "pw pos bs = \<lparr>p_rpos = pos, p_wpos = pos + word_of_nat (length bs),
     p_buf = (\<lambda>i. bs ! ((i + BY2PIPE - unat pos mod BY2PIPE) mod BY2PIPE)),
     fd_pageref = 1, pipe_pageref = 2, runs = 5, clock = 0\<rparr>"

lemma pw_used: "length bs \<le> BY2PIPE \<Longrightarrow> used (pw pos bs) = length bs"
  by (simp add: pw_def used_def unat_of_nat BY2PIPE_def)

lemma obey_quiet: "obey writer_acts quiet" "obey reader_acts quiet"
  by (simp_all add: obey_def quiet_def writer_acts_def reader_acts_def)




text \<open>
  Lemma (pipe_ends_compatible). The two ends keep to what they assume of each other: in a state that
  satisfies the invariant, the store of a byte and the advance of the write position, which
  \<open>pipe_write\<close> performs when the pipe is not full, only append to the queue, and the advance of the
  read position, which \<open>pipe_read\<close> performs when the pipe is not empty, only takes its first byte off;
  this holds at every value of the 32-bit positions, also when they wrap.
\<close>

theorem pipe_ends_compatible:
  assumes "pipe_inv w"
  shows "(p_wpos w - p_rpos w \<noteq> word_of_nat BY2PIPE \<longrightarrow>
      writer_acts w (w\<lparr>p_buf := (p_buf w)(unat (p_wpos w) mod BY2PIPE := b)\<rparr>)
      \<and> writer_acts w (w\<lparr>p_wpos := p_wpos w + 1\<rparr>))
    \<and> (p_rpos w \<noteq> p_wpos w \<longrightarrow> reader_acts w (w\<lparr>p_rpos := p_rpos w + 1\<rparr>))"
  using writer_steps [OF assms not_full [OF assms]] reader_step [OF assms] by auto

theorem pipe_ends_compatible_witness:
  "writer_acts (pw 0xFFFFFFFF [7]) ((pw 0xFFFFFFFF [7])\<lparr>p_wpos := p_wpos (pw 0xFFFFFFFF [7]) + 1\<rparr>)
    \<and> reader_acts (pw 0xFFFFFFFF [7]) ((pw 0xFFFFFFFF [7])\<lparr>p_rpos := p_rpos (pw 0xFFFFFFFF [7]) + 1\<rparr>)"
proof -
  let ?w = "pw 0xFFFFFFFF [7]"
  have "pipe_inv ?w" by (simp add: pipe_inv_def pw_used BY2PIPE_def)
  moreover have "p_wpos ?w - p_rpos ?w \<noteq> word_of_nat BY2PIPE" "p_rpos ?w \<noteq> p_wpos ?w"
    by (simp_all add: pw_def BY2PIPE_def)
  ultimately show ?thesis using pipe_ends_compatible [of ?w] by blast
qed

text \<open>
  Lemma (pipe_roundtrip). With no other environment running, writing bytes that fit into the pipe ends
  with all of them written, and a read of at least as many bytes as are then in the pipe ends and
  delivers what was there before followed by the bytes written.
\<close>

theorem pipe_roundtrip:
  assumes "used w + length vbuf \<le> BY2PIPE" and "vbuf \<noteq> []" and "used w + length vbuf \<le> unat n"
  shows "\<exists>w1 w2. pipe_write quiet vbuf 0 w = Some (length vbuf, w1)
    \<and> pipe_read quiet n [] w1 = Some (contents w @ vbuf, w2) \<and> contents w2 = []"
proof -
  from quiet_write [of w vbuf 0] assms(1) obtain w1 where
    w1: "pipe_write quiet vbuf 0 w = Some (length vbuf, w1)" "contents w1 = contents w @ vbuf"
    by auto
  with quiet_read [of w1 "[]" n] assms(2,3) show ?thesis by auto
qed

theorem pipe_roundtrip_witness:
  "\<exists>w1 w2. pipe_write quiet [1, 2] 0 (pw 0xFFFFFFFF [7]) = Some (length [1 :: u8, 2], w1)
    \<and> pipe_read quiet 10 [] w1 = Some (contents (pw 0xFFFFFFFF [7]) @ [1, 2], w2) \<and> contents w2 = []"
  by (rule pipe_roundtrip) (simp_all add: pw_used BY2PIPE_def)

text \<open>
  C37 (pipe_closed_snapshot). The retry loop of \<open>_pipe_is_closed\<close> takes a consistent snapshot: when other
  environments change the reference counts only while this one is descheduled, which increases its
  count of runs, then an answer of the loop is right for the counts at the moment it returns.
\<close>

theorem pipe_closed_snapshot:
  assumes "pipe_closed others w = Some (c, w')"
    and "\<forall>k w. runs w \<le> runs (others k w)"
    and "\<forall>k w. runs (others k w) = runs w \<longrightarrow> fd_pageref (others k w) = fd_pageref w \<and> pipe_pageref (others k w) = pipe_pageref w"
  shows "c \<longleftrightarrow> fd_pageref w' = pipe_pageref w'"
proof -
  have "fst r \<longleftrightarrow> fd_pageref (snd r) = pipe_pageref (snd r)"
    if "pipe_closed others w = Some r" "\<forall>k w. runs w \<le> runs (others k w)"
      "\<forall>k w. runs (others k w) = runs w \<longrightarrow> fd_pageref (others k w) = fd_pageref w \<and> pipe_pageref (others k w) = pipe_pageref w"
    for w r
    using that
  proof (induction rule: pipe_closed_induct)
    case (step f others w r)
    let ?a = "tick others w"
    let ?b = "tick others ?a"
    let ?c = "tick others ?b"
    show ?case
    proof (cases "runs w = runs ?c")
      case True
      have mono: "runs u \<le> runs (tick others u)" for u using step(3) by (simp add: tick_def)
      have same: "fd_pageref (tick others u) = fd_pageref u \<and> pipe_pageref (tick others u) = pipe_pageref u"
        if "runs (tick others u) = runs u" for u
        using step(4) that by (simp add: tick_def)
      from True mono [of w] mono [of ?a] mono [of ?b] have "runs ?b = runs ?a" "runs ?c = runs ?b" by auto
      then have "fd_pageref ?b = fd_pageref ?a" "fd_pageref ?c = fd_pageref ?b" "pipe_pageref ?c = pipe_pageref ?b"
        using same by simp_all
      with True step(2) show ?thesis by (auto simp: Let_def)
    next
      case False
      with step(2) have "f others ?c = Some r" by (simp add: Let_def)
      with step(1,3,4) show ?thesis by blast
    qed
  qed
  from this [OF assms] show ?thesis by simp
qed

theorem pipe_closed_snapshot_witness:
  "\<exists>w'. pipe_closed quiet (pw 0 []) = Some (False, w') \<and> (False \<longleftrightarrow> fd_pageref w' = pipe_pageref w')"
proof -
  have r: "pipe_closed quiet (pw 0 []) = Some (False, (pw 0 [])\<lparr>clock := 3\<rparr>)"
    by (subst pipe_closed.simps) (simp add: tick_quiet Let_def, simp add: pw_def)
  from pipe_closed_snapshot [OF r] r show ?thesis by (simp add: quiet_def)
qed

end
