(* ===== verification/User_Mem.thy ===== *)
theory User_Mem
  imports Strings Mmu
begin

text \<open>
  The address space of one user process, as the programs under \<open>fs\<close> and \<open>user\<close> use it: its
  memory, the two levels of its page table that it can read at \<open>UVPT\<close> (\<open>vpd\<close> and \<open>vpt\<close> of
  \<open>user/include/lib.h\<close>), and the memory system calls on its own address space. The answers of the
  kernel to requests for memory are the argument \<open>palloc\<close>: the frame it gives to the \<open>n\<close>-th request
  or \<open>None\<close> when it has no memory. An access to a page that is not mapped, or a store to a page
  without write permission, is \<open>None\<close>.
\<close>

section \<open>Definitions\<close>

record umach =
  umem :: bmem
  vpd :: "nat \<Rightarrow> u32"
  vpt :: "nat \<Rightarrow> u32"
  palloc :: "nat \<Rightarrow> u32 option"
  requests :: nat

definition va_mapped :: "u32 \<Rightarrow> 'a umach_scheme \<Rightarrow> bool" where
  "va_mapped va s \<longleftrightarrow> pte_valid (vpd s (PDX va)) \<and> pte_valid (vpt s (VPN va))"

definition va_writable :: "u32 \<Rightarrow> 'a umach_scheme \<Rightarrow> bool" where
  "va_writable va s \<longleftrightarrow> va_mapped va s \<and> vpt s (VPN va) AND PTE_D \<noteq> 0"

definition uload :: "u32 \<Rightarrow> 'a umach_scheme \<Rightarrow> u32 option" where
  "uload va s = (if va AND 3 = 0 \<and> va_mapped va s then Some (load_word (umem s) va) else None)"

definition ustore :: "u32 \<Rightarrow> u32 \<Rightarrow> 'a umach_scheme \<Rightarrow> 'a umach_scheme option" where
  "ustore va w s = (if va AND 3 = 0 \<and> va_writable va s then Some (s\<lparr>umem := store_word va w (umem s)\<rparr>) else None)"

definition uload8 :: "u32 \<Rightarrow> 'a umach_scheme \<Rightarrow> u8 option" where
  "uload8 va s = (if va_mapped va s then Some (umem s va) else None)"

definition ustore8 :: "u32 \<Rightarrow> u8 \<Rightarrow> 'a umach_scheme \<Rightarrow> 'a umach_scheme option" where
  "ustore8 va b s = (if va_writable va s then Some (s\<lparr>umem := (umem s)(va := b)\<rparr>) else None)"

primrec ustore_bytes :: "u32 \<Rightarrow> u8 list \<Rightarrow> 'a umach_scheme \<Rightarrow> 'a umach_scheme option" where
  "ustore_bytes va [] s = Some s"
| "ustore_bytes va (b # bs) s = do { s \<leftarrow> ustore8 va b s; ustore_bytes (va + 1) bs s }"

text \<open>The bytes of the page of \<open>va\<close> replaced by \<open>f\<close>, a function of the offset.\<close>

definition fill_page :: "u32 \<Rightarrow> (u32 \<Rightarrow> u8) \<Rightarrow> bmem \<Rightarrow> bmem" where
  "fill_page va f m = (\<lambda>a. if PTE_ADDR a = PTE_ADDR va then f (a AND 0xFFF) else m a)"

text \<open>The system calls on the caller's own address space; an address below \<open>UTEMP\<close> or above \<open>UTOP\<close> is refused.\<close>

definition syscall_mem_alloc :: "u32 \<Rightarrow> u32 \<Rightarrow> 'a umach_scheme \<Rightarrow> (err + unit) \<times> 'a umach_scheme" where
  "syscall_mem_alloc va perm s = (
     if va < UTEMP \<or> va \<ge> UTOP then (Inl E_INVAL, s)
     else case palloc s (requests s) of
       None \<Rightarrow> (Inl E_NO_MEM, s\<lparr>requests := requests s + 1\<rparr>)
     | Some frame \<Rightarrow> (Inr (), s\<lparr>requests := requests s + 1, umem := fill_page va (\<lambda>_. 0) (umem s),
         vpd := (vpd s)(PDX va := vpd s (PDX va) OR PTE_V), vpt := (vpt s)(VPN va := PTE_ADDR frame OR perm OR PTE_V)\<rparr>))"

text \<open>\<open>syscall_mem_map (0, va, 0, va, perm)\<close>: new permissions for a page that stays where it is.\<close>

definition syscall_mem_remap :: "u32 \<Rightarrow> u32 \<Rightarrow> 'a umach_scheme \<Rightarrow> (err + unit) \<times> 'a umach_scheme" where
  "syscall_mem_remap va perm s = (
     if va < UTEMP \<or> va \<ge> UTOP \<or> \<not> va_mapped va s then (Inl E_INVAL, s)
     else (Inr (), s\<lparr>vpt := (vpt s)(VPN va := PTE_ADDR (vpt s (VPN va)) OR perm OR PTE_V)\<rparr>))"

definition syscall_mem_unmap :: "u32 \<Rightarrow> 'a umach_scheme \<Rightarrow> (err + unit) \<times> 'a umach_scheme" where
  "syscall_mem_unmap va s = (
     if va < UTEMP \<or> va \<ge> UTOP then (Inl E_INVAL, s)
     else (Inr (), s\<lparr>vpt := (vpt s)(VPN va := 0)\<rparr>))"

text \<open>A successful result is passed on, an error is the result of the caller.\<close>

fun on_ok :: "(err + 'x) \<times> 's \<Rightarrow> ('x \<Rightarrow> 's \<Rightarrow> ((err + 'y) \<times> 's) option) \<Rightarrow> ((err + 'y) \<times> 's) option" where
  "on_ok (Inl e, s) k = Some (Inl e, s)"
| "on_ok (Inr x, s) k = k x s"

text \<open>A name held in memory: the bytes of \<open>cs\<close> and the terminator.\<close>

primrec str_matches :: "u8 list \<Rightarrow> bmem \<Rightarrow> u32 \<Rightarrow> bool" where
  "str_matches [] m a \<longleftrightarrow> m a = 0"
| "str_matches (c # cs) m a \<longleftrightarrow> m a = c \<and> str_matches cs m (a + 1)"

end
