(* ===== verification/Fs.thy ===== *)
theory Fs
  imports User_Mem
begin

text \<open>
  The file system server's block and file layers, \<open>fs/fs.c\<close>. Disk block \<open>n\<close> is cached in the page
  at \<open>DISKMAP + n * BY2BLK\<close>; a page of the cache is dirty when its entry has the bit \<open>PTE_DIRTY\<close>. The
  structures of \<open>user/include/fs.h\<close> lie in those pages: a \<open>struct File *\<close> is an address, its fields are
  read at their offsets, and so are the super block and the bitmap of free blocks, whose addresses
  are the variables \<open>super\<close> and \<open>bitmap\<close>.

  The disks are byte arrays, \<open>disk d i\<close> the byte \<open>i\<close> of disk \<open>d\<close>; the driver is modelled in \<open>Ide\<close>.
  A failed assertion or a call of \<open>user_panic\<close> is \<open>None\<close>. Path names and names are lists of bytes
  without the terminator; a path shorter than the disk prefix, past whose end the code would read,
  is \<open>None\<close>.
\<close>

section \<open>Data\<close>

record fsst = umach +
  super :: u32
  bitmap :: u32
  disk :: "u32 \<Rightarrow> u32 \<Rightarrow> u8"

definition BY2BLK :: u32 where "BY2BLK = BY2PG"
definition BIT2BLK :: u32 where "BIT2BLK = BY2BLK * 8"
definition MAXNAMELEN :: nat where "MAXNAMELEN = 128"
definition NDIRECT :: u32 where "NDIRECT = 10"
definition NINDIRECT :: u32 where "NINDIRECT = BY2BLK div 4"
definition BY2FILE :: u32 where "BY2FILE = 256"
definition FILE2BLK :: nat where "FILE2BLK = 16"
definition FTYPE_REG :: u32 where "FTYPE_REG = 0"
definition FTYPE_DIR :: u32 where "FTYPE_DIR = 1"
definition FS_MAGIC :: u32 where "FS_MAGIC = 0x68286097"
definition PTE_DIRTY :: u32 where "PTE_DIRTY = 0x2"
definition BY2SECT :: u32 where "BY2SECT = 512"
definition SECT2BLK :: u32 where "SECT2BLK = BY2BLK div BY2SECT"
definition DISKMAP :: u32 where "DISKMAP = 0x10000000"
definition DISKMAX :: u32 where "DISKMAX = 0x40000000"
definition ROOTDIR_NAMELEN :: nat where "ROOTDIR_NAMELEN = 6"

lemmas fs_defs = BY2BLK_def BIT2BLK_def NDIRECT_def NINDIRECT_def BY2FILE_def FILE2BLK_def FTYPE_REG_def
  FTYPE_DIR_def FS_MAGIC_def PTE_DIRTY_def BY2SECT_def SECT2BLK_def DISKMAP_def DISKMAX_def

text \<open>The fields of \<open>struct File\<close> and \<open>struct Super\<close>.\<close>

definition f_size :: "u32 \<Rightarrow> u32" where "f_size f = f + 128"
definition f_type :: "u32 \<Rightarrow> u32" where "f_type f = f + 132"
definition f_direct :: "u32 \<Rightarrow> u32 \<Rightarrow> u32" where "f_direct f i = f + 136 + 4 * i"
definition f_indirect :: "u32 \<Rightarrow> u32" where "f_indirect f = f + 176"
definition f_dir :: "u32 \<Rightarrow> u32" where "f_dir f = f + 180"
definition s_magic :: "u32 \<Rightarrow> u32" where "s_magic p = p"
definition s_nblocks :: "u32 \<Rightarrow> u32" where "s_nblocks p = p + 4"
definition s_root :: "u32 \<Rightarrow> u32" where "s_root p = p + 8"

lemmas file_fields = f_size_def f_type_def f_direct_def f_indirect_def f_dir_def s_magic_def s_nblocks_def s_root_def

section \<open>The block cache\<close>

definition addr2disk :: "u32 \<Rightarrow> u32 option" where
  "addr2disk addr = (if addr < DISKMAP \<or> addr \<ge> DISKMAP + DISKMAX then None else Some ((addr - DISKMAP) div BY2BLK))"

definition diskaddr :: "u32 \<Rightarrow> u32 option" where
  "diskaddr blockno = (
     let t = DISKMAP + BY2BLK * blockno
     in if t \<ge> DISKMAX + DISKMAP then None else Some t)"

definition va_is_mapped :: "u32 \<Rightarrow> fsst \<Rightarrow> bool" where
  "va_is_mapped va s \<longleftrightarrow> pte_valid (vpd s (PDX va)) \<and> pte_valid (vpt s (VPN va))"

text \<open>The null pointer is \<open>Some None\<close>.\<close>

definition block_is_mapped :: "u32 \<Rightarrow> fsst \<Rightarrow> u32 option option" where
  "block_is_mapped blockno s = do {
     va \<leftarrow> diskaddr blockno;
     Some (if va_is_mapped va s then Some va else None)
   }"

definition va_is_dirty :: "u32 \<Rightarrow> fsst \<Rightarrow> bool" where
  "va_is_dirty va s \<longleftrightarrow> vpt s (VPN va) AND PTE_DIRTY \<noteq> 0"

definition block_is_dirty :: "u32 \<Rightarrow> fsst \<Rightarrow> bool option" where
  "block_is_dirty blockno s = do {
     va \<leftarrow> diskaddr blockno;
     Some (va_is_mapped va s \<and> va_is_dirty va s)
   }"

definition dirty_block :: "u32 \<Rightarrow> fsst \<Rightarrow> ((err + unit) \<times> fsst) option" where
  "dirty_block blockno s = do {
     va \<leftarrow> diskaddr blockno;
     if \<not> va_is_mapped va s then Some (Inl E_NOT_FOUND, s)
     else if va_is_dirty va s then Some (Inr (), s)
     else Some (syscall_mem_remap va (PTE_D OR PTE_DIRTY) s)
   }"

text \<open>Transfers of \<open>nsecs\<close> sectors between a disk and memory that does not leave the page of \<open>va\<close>.\<close>

definition ide_write_blk :: "u32 \<Rightarrow> u32 \<Rightarrow> u32 \<Rightarrow> u32 \<Rightarrow> fsst \<Rightarrow> fsst option" where
  "ide_write_blk diskno secno va nsecs s = (
     if va_is_mapped va s \<and> va AND 0xFFF = 0 \<and> nsecs \<le> SECT2BLK then
       Some (s\<lparr>disk := (disk s)(diskno := (\<lambda>i. if i - secno * BY2SECT < nsecs * BY2SECT
         then umem s (va + (i - secno * BY2SECT)) else disk s diskno i))\<rparr>)
     else None)"

definition ide_read_blk :: "u32 \<Rightarrow> u32 \<Rightarrow> u32 \<Rightarrow> u32 \<Rightarrow> fsst \<Rightarrow> fsst option" where
  "ide_read_blk diskno secno va nsecs s = (
     if va_writable va s \<and> va AND 0xFFF = 0 \<and> nsecs \<le> SECT2BLK then
       Some (s\<lparr>umem := (\<lambda>a. if a - va < nsecs * BY2SECT then disk s diskno (secno * BY2SECT + (a - va)) else umem s a)\<rparr>)
     else None)"

definition write_block :: "u32 \<Rightarrow> fsst \<Rightarrow> fsst option" where
  "write_block blockno s = do {
     m \<leftarrow> block_is_mapped blockno s;
     if m = None then None
     else do {
       va \<leftarrow> diskaddr blockno;
       ide_write_blk 0 (blockno * SECT2BLK) va SECT2BLK s
     }
   }"

definition block_is_free :: "u32 \<Rightarrow> fsst \<Rightarrow> bool option" where
  "block_is_free blockno s = (
     if super s = 0 then Some False
     else do {
       n \<leftarrow> uload (s_nblocks (super s)) s;
       if blockno \<ge> n then Some False
       else do {
         w \<leftarrow> uload (bitmap s + 4 * (blockno div 32)) s;
         Some (w AND push_bit (unat (blockno mod 32)) 1 \<noteq> 0)
       }
     })"

text \<open>The result is the address of the block and whether it was loaded.\<close>

definition read_block :: "u32 \<Rightarrow> fsst \<Rightarrow> ((err + u32 \<times> bool) \<times> fsst) option" where
  "read_block blockno s = do {
     bad \<leftarrow> (if super s \<noteq> 0 then do { n \<leftarrow> uload (s_nblocks (super s)) s; Some (blockno \<ge> n) } else Some False);
     if bad then None
     else do {
       free \<leftarrow> (if bitmap s \<noteq> 0 then block_is_free blockno s else Some False);
       if free then None
       else do {
         va \<leftarrow> diskaddr blockno;
         m \<leftarrow> block_is_mapped blockno s;
         if m \<noteq> None then Some (Inr (va, False), s)
         else do {
           let (r, s) = syscall_mem_alloc va PTE_D s;
           s \<leftarrow> ide_read_blk 0 (blockno * SECT2BLK) va SECT2BLK s;
           Some (Inr (va, True), s)
         }
       }
     }
   }"

definition map_block :: "u32 \<Rightarrow> fsst \<Rightarrow> ((err + unit) \<times> fsst) option" where
  "map_block blockno s = do {
     m \<leftarrow> block_is_mapped blockno s;
     if m \<noteq> None then Some (Inr (), s)
     else do {
       va \<leftarrow> diskaddr blockno;
       Some (syscall_mem_alloc va PTE_D s)
     }
   }"

definition unmap_block :: "u32 \<Rightarrow> fsst \<Rightarrow> fsst option" where
  "unmap_block blockno s = do {
     va \<leftarrow> block_is_mapped blockno s;
     free \<leftarrow> block_is_free blockno s;
     dirty \<leftarrow> (if \<not> free then block_is_dirty blockno s else Some False);
     s \<leftarrow> (if \<not> free \<and> dirty then write_block blockno s else Some s);
     let (r, s) = syscall_mem_unmap (case va of None \<Rightarrow> 0 | Some a \<Rightarrow> a) s;
     m \<leftarrow> block_is_mapped blockno s;
     if m = None then Some s else None
   }"

section \<open>The bitmap of free blocks\<close>

definition free_block :: "u32 \<Rightarrow> fsst \<Rightarrow> fsst option" where
  "free_block blockno s = (
     if blockno = 0 then Some s
     else do {
       n \<leftarrow> uload (s_nblocks (super s)) s;
       if blockno \<ge> n then Some s
       else do {
         let p = bitmap s + 4 * (blockno div 32);
         w \<leftarrow> uload p s;
         ustore p (w OR push_bit (unat (blockno mod 32)) 1) s
       }
     })"

primrec alloc_scan :: "nat list \<Rightarrow> fsst \<Rightarrow> ((err + u32) \<times> fsst) option" where
  "alloc_scan [] s = Some (Inl E_NO_DISK, s)"
| "alloc_scan (b # bs) s = do {
     let p = bitmap s + 4 * (word_of_nat b div 32);
     w \<leftarrow> uload p s;
     if w AND push_bit (b mod 32) 1 \<noteq> 0 then do {
       s \<leftarrow> ustore p (w AND NOT (push_bit (b mod 32) 1)) s;
       s \<leftarrow> write_block (word_of_nat b div BIT2BLK + 2) s;
       Some (Inr (word_of_nat b), s)
     }
     else alloc_scan bs s
   }"

definition alloc_block_num :: "fsst \<Rightarrow> ((err + u32) \<times> fsst) option" where
  "alloc_block_num s = do {
     n \<leftarrow> uload (s_nblocks (super s)) s;
     alloc_scan [3..<unat n] s
   }"

definition alloc_block :: "fsst \<Rightarrow> ((err + u32) \<times> fsst) option" where
  "alloc_block s = do {
     p \<leftarrow> alloc_block_num s;
     on_ok p (\<lambda>bno s. do {
       (r, s) \<leftarrow> map_block bno s;
       (case r of
          Inl e \<Rightarrow> do { s \<leftarrow> free_block bno s; Some (Inl e, s) }
        | Inr _ \<Rightarrow> Some (Inr bno, s))
     })
   }"

section \<open>Start\<close>

definition read_super :: "fsst \<Rightarrow> fsst option" where
  "read_super s = do {
     (r, s) \<leftarrow> read_block 1 s;
     (case r of
        Inl _ \<Rightarrow> None
      | Inr (blk, _) \<Rightarrow> do {
          let s = s\<lparr>super := blk\<rparr>;
          m \<leftarrow> uload (s_magic (super s)) s;
          n \<leftarrow> uload (s_nblocks (super s)) s;
          if m \<noteq> FS_MAGIC then None
          else if n > DISKMAX div BY2BLK then None
          else Some s
        })
   }"

definition read_bitmap_block :: "nat \<Rightarrow> fsst \<Rightarrow> fsst option" where
  "read_bitmap_block i s = map_option snd (read_block (word_of_nat i + 2) s)"

definition assert_used :: "u32 \<Rightarrow> fsst \<Rightarrow> fsst option" where
  "assert_used blockno s = do { free \<leftarrow> block_is_free blockno s; if free then None else Some s }"

definition read_bitmap :: "fsst \<Rightarrow> fsst option" where
  "read_bitmap s = do {
     n \<leftarrow> uload (s_nblocks (super s)) s;
     let nbitmap = n div BIT2BLK + 1;
     s \<leftarrow> ofold read_bitmap_block [0..<unat nbitmap] s;
     va \<leftarrow> diskaddr 2;
     let s = s\<lparr>bitmap := va\<rparr>;
     s \<leftarrow> assert_used 0 s;
     s \<leftarrow> assert_used 1 s;
     ofold (\<lambda>i. assert_used (word_of_nat i + 2)) [0..<unat nbitmap] s
   }"

definition OOPS :: "u8 list" where
  "OOPS = [79, 79, 80, 83, 33, 10]"

definition check_write_block :: "fsst \<Rightarrow> fsst option" where
  "check_write_block s = do {
     let s = s\<lparr>super := 0\<rparr>;
     (_, s) \<leftarrow> read_block 0 s;
     d0 \<leftarrow> diskaddr 0;
     d1 \<leftarrow> diskaddr 1;
     s \<leftarrow> (if va_writable d0 s \<and> va_is_mapped d1 s
          then Some (s\<lparr>umem := fill_page d0 (\<lambda>i. umem s (d1 + i)) (umem s)\<rparr>) else None);
     s \<leftarrow> ustore_bytes d1 (OOPS @ [0]) s;
     s \<leftarrow> write_block 1 s;
     m \<leftarrow> block_is_mapped 1 s;
     if m = None then None
     else do {
       let (_, s) = syscall_mem_unmap d1 s;
       m \<leftarrow> block_is_mapped 1 s;
       if m \<noteq> None then None
       else do {
         (_, s) \<leftarrow> read_block 1 s;
         if \<not> str_matches OOPS (umem s) d1 then None
         else do {
           s \<leftarrow> (if va_writable d1 s \<and> va_is_mapped d0 s
                then Some (s\<lparr>umem := fill_page d1 (\<lambda>i. umem s (d0 + i)) (umem s)\<rparr>) else None);
           s \<leftarrow> write_block 1 s;
           Some (s\<lparr>super := d1\<rparr>)
         }
       }
     }
   }"

definition fs_init :: "fsst \<Rightarrow> fsst option" where
  "fs_init s = do {
     s \<leftarrow> read_super s;
     s \<leftarrow> check_write_block s;
     read_bitmap s
   }"

section \<open>Files\<close>

definition file_block_walk :: "u32 \<Rightarrow> u32 \<Rightarrow> bool \<Rightarrow> fsst \<Rightarrow> ((err + u32) \<times> fsst) option" where
  "file_block_walk f filebno alloc s = (
     if filebno < NDIRECT then Some (Inr (f_direct f filebno), s)
     else if filebno < NINDIRECT then do {
       ind \<leftarrow> uload (f_indirect f) s;
       p \<leftarrow> (if ind = 0 then
               if \<not> alloc then Some (Inl E_NOT_FOUND, s)
               else do {
                 p \<leftarrow> alloc_block s;
                 on_ok p (\<lambda>r s. do { s \<leftarrow> ustore (f_indirect f) r s; Some (Inr (), s) })
               }
             else Some (Inr (), s));
       on_ok p (\<lambda>_ s. do {
         ind \<leftarrow> uload (f_indirect f) s;
         p \<leftarrow> read_block ind s;
         on_ok p (\<lambda>(blk, _) s. Some (Inr (blk + 4 * filebno), s))
       })
     }
     else Some (Inl E_INVAL, s))"

definition file_map_block :: "u32 \<Rightarrow> u32 \<Rightarrow> bool \<Rightarrow> fsst \<Rightarrow> ((err + u32) \<times> fsst) option" where
  "file_map_block f filebno alloc s = do {
     p \<leftarrow> file_block_walk f filebno alloc s;
     on_ok p (\<lambda>ptr s. do {
       v \<leftarrow> uload ptr s;
       if v = 0 then
         if \<not> alloc then Some (Inl E_NOT_FOUND, s)
         else do {
           p \<leftarrow> alloc_block s;
           on_ok p (\<lambda>r s. do { s \<leftarrow> ustore ptr r s; v \<leftarrow> uload ptr s; Some (Inr v, s) })
         }
       else Some (Inr v, s)
     })
   }"

definition file_clear_block :: "u32 \<Rightarrow> u32 \<Rightarrow> fsst \<Rightarrow> ((err + unit) \<times> fsst) option" where
  "file_clear_block f filebno s = do {
     p \<leftarrow> file_block_walk f filebno False s;
     on_ok p (\<lambda>ptr s. do {
       v \<leftarrow> uload ptr s;
       if v \<noteq> 0 then do { s \<leftarrow> free_block v s; s \<leftarrow> ustore ptr 0 s; Some (Inr (), s) }
       else Some (Inr (), s)
     })
   }"

definition file_get_block :: "u32 \<Rightarrow> u32 \<Rightarrow> fsst \<Rightarrow> ((err + u32) \<times> fsst) option" where
  "file_get_block f filebno s = do {
     p \<leftarrow> file_map_block f filebno True s;
     on_ok p (\<lambda>diskbno s. do {
       p \<leftarrow> read_block diskbno s;
       on_ok p (\<lambda>(blk, isnew) s. Some (Inr blk, s))
     })
   }"

definition file_dirty :: "u32 \<Rightarrow> u32 \<Rightarrow> fsst \<Rightarrow> ((err + unit) \<times> fsst) option" where
  "file_dirty f off s = do {
     p \<leftarrow> file_map_block f (off div BY2BLK) False s;
     on_ok p (\<lambda>diskbno s. dirty_block diskbno s)
   }"

section \<open>Directories and paths\<close>

primrec dir_scan :: "u32 \<Rightarrow> u8 list \<Rightarrow> nat list \<Rightarrow> fsst \<Rightarrow> ((err + u32) \<times> fsst) option" where
  "dir_scan dir name [] s = Some (Inl E_NOT_FOUND, s)"
| "dir_scan dir name (i # is) s = do {
     p \<leftarrow> file_get_block dir (word_of_nat i) s;
     on_ok p (\<lambda>blk s.
       case find (\<lambda>j. str_matches name (umem s) (blk + BY2FILE * word_of_nat j)) [0..<FILE2BLK] of
         Some j \<Rightarrow> do {
           let f = blk + BY2FILE * word_of_nat j;
           s \<leftarrow> ustore (f_dir f) dir s;
           b \<leftarrow> addr2disk blk;
           (_, s) \<leftarrow> dirty_block b s;
           Some (Inr f, s)
         }
       | None \<Rightarrow> dir_scan dir name is s)
   }"

definition dir_lookup :: "u32 \<Rightarrow> u8 list \<Rightarrow> fsst \<Rightarrow> ((err + u32) \<times> fsst) option" where
  "dir_lookup dir name s = do {
     n \<leftarrow> uload (f_size dir) s;
     dir_scan dir name [0..<unat (n div BY2BLK)] s
   }"

primrec alloc_entry :: "u32 \<Rightarrow> nat list \<Rightarrow> fsst \<Rightarrow> ((err + u32 option) \<times> fsst) option" where
  "alloc_entry dir [] s = Some (Inr None, s)"
| "alloc_entry dir (i # is) s = do {
     p \<leftarrow> file_get_block dir (word_of_nat i) s;
     on_ok p (\<lambda>blk s.
       case find (\<lambda>j. umem s (blk + BY2FILE * word_of_nat j) = 0) [0..<FILE2BLK] of
         Some j \<Rightarrow> Some (Inr (Some (blk + BY2FILE * word_of_nat j)), s)
       | None \<Rightarrow> alloc_entry dir is s)
   }"

definition dir_alloc_file :: "u32 \<Rightarrow> fsst \<Rightarrow> ((err + u32) \<times> fsst) option" where
  "dir_alloc_file dir s = do {
     n \<leftarrow> uload (f_size dir) s;
     let nblock = n div BY2BLK;
     p \<leftarrow> alloc_entry dir [0..<unat nblock] s;
     on_ok p (\<lambda>e s. case e of
       Some f \<Rightarrow> Some (Inr f, s)
     | None \<Rightarrow> do {
         n \<leftarrow> uload (f_size dir) s;
         s \<leftarrow> ustore (f_size dir) (n + BY2BLK) s;
         file_get_block dir nblock s
       })
   }"

definition skip_slash :: "u8 list \<Rightarrow> u8 list" where
  "skip_slash = dropWhile (\<lambda>c. c = 47)"

lemma next_component_shorter:
  assumes ne: "path \<noteq> []"
  shows "length (skip_slash (dropWhile (\<lambda>c. c \<noteq> 47) path)) < length path"
proof -
  let ?d = "dropWhile (\<lambda>c. c \<noteq> 47) path"
  have le: "length (skip_slash ?d) \<le> length ?d" by (simp add: skip_slash_def length_dropWhile_le)
  show ?thesis
  proof (cases "hd path = 47")
    case True
    with ne have "?d = path" by (cases path) auto
    moreover have "length (skip_slash path) < length path"
      using ne True by (cases path) (auto simp: skip_slash_def less_Suc_eq_le length_dropWhile_le)
    ultimately show ?thesis by simp
  next
    case False
    with ne have "length ?d < length path" by (cases path) (auto simp: less_Suc_eq_le length_dropWhile_le)
    with le show ?thesis by simp
  qed
qed

text \<open>
  The loop of \<open>walk_path\<close> with the directory and the file reached so far; the result also has the
  values left in \<open>*pdir\<close> and \<open>lastelem\<close>.
\<close>

function walk_loop :: "u8 list \<Rightarrow> u32 \<Rightarrow> u32 \<Rightarrow> fsst \<Rightarrow> (((err + u32) \<times> u32 \<times> u8 list) \<times> fsst) option" where
  "walk_loop path dir file s = (
     if path = [] then Some ((Inr file, dir, []), s)
     else
       let name = takeWhile (\<lambda>c. c \<noteq> 47) path;
           path = skip_slash (dropWhile (\<lambda>c. c \<noteq> 47) path)
       in if length name \<ge> MAXNAMELEN then Some ((Inl E_BAD_PATH, 0, []), s)
          else do {
            t \<leftarrow> uload (f_type file) s;
            if t \<noteq> FTYPE_DIR then Some ((Inl E_NOT_FOUND, 0, []), s)
            else do {
              (r, s) \<leftarrow> dir_lookup file name s;
              (case r of
                 Inr file' \<Rightarrow> walk_loop path file file' s
               | Inl e \<Rightarrow> Some (if e = E_NOT_FOUND \<and> path = [] then ((Inl e, file, name), s) else ((Inl e, 0, []), s)))
            }
          })"
  by pat_completeness auto
termination
  by (relation "measure (\<lambda>(path, _). length path)") (auto intro: next_component_shorter)

definition walk_path :: "u8 list \<Rightarrow> fsst \<Rightarrow> (((err + u32) \<times> u32 \<times> u8 list) \<times> fsst) option" where
  "walk_path path s = (
     if length path < ROOTDIR_NAMELEN then None
     else walk_loop (skip_slash (drop ROOTDIR_NAMELEN path)) 0 (s_root (super s)) s)"

definition file_open :: "u8 list \<Rightarrow> fsst \<Rightarrow> ((err + u32) \<times> fsst) option" where
  "file_open path s = map_option (\<lambda>((r, _, _), s). (r, s)) (walk_path path s)"

text \<open>When no directory entry can be had the result of \<open>walk_path\<close> is returned.\<close>

definition file_create :: "u8 list \<Rightarrow> fsst \<Rightarrow> ((err + u32) \<times> fsst) option" where
  "file_create path s = do {
     ((r, dir, name), s) \<leftarrow> walk_path path s;
     (case r of
        Inr _ \<Rightarrow> Some (Inl E_FILE_EXISTS, s)
      | Inl e \<Rightarrow>
          if e \<noteq> E_NOT_FOUND \<or> dir = 0 then Some (Inl e, s)
          else do {
            (r, s) \<leftarrow> dir_alloc_file dir s;
            (case r of
               Inl _ \<Rightarrow> Some (Inl e, s)
             | Inr f \<Rightarrow> do { s \<leftarrow> ustore_bytes f (name @ [0]) s; Some (Inr f, s) })
          })
   }"

section \<open>Truncation, flushing and removal\<close>

definition clear_step :: "u32 \<Rightarrow> nat \<Rightarrow> fsst \<Rightarrow> fsst option" where
  "clear_step f bno s = map_option snd (file_clear_block f (word_of_nat bno) s)"

definition file_truncate :: "u32 \<Rightarrow> u32 \<Rightarrow> fsst \<Rightarrow> fsst option" where
  "file_truncate f newsize s = do {
     sz \<leftarrow> uload (f_size f) s;
     let old_nblocks = sz div BY2BLK + 1;
     let new_nblocks = (if newsize = 0 then 0 else newsize div BY2BLK + 1);
     s \<leftarrow> (if new_nblocks \<le> NDIRECT then do {
             s \<leftarrow> ofold (clear_step f) [unat new_nblocks..<unat old_nblocks] s;
             ind \<leftarrow> uload (f_indirect f) s;
             if ind \<noteq> 0 then do { s \<leftarrow> free_block ind s; ustore (f_indirect f) 0 s } else Some s
           }
           else ofold (clear_step f) [unat new_nblocks..<unat old_nblocks] s);
     ustore (f_size f) newsize s
   }"

definition flush_step :: "u32 \<Rightarrow> nat \<Rightarrow> fsst \<Rightarrow> fsst option" where
  "flush_step f bno s = do {
     (r, s) \<leftarrow> file_map_block f (word_of_nat bno) False s;
     (case r of
        Inl _ \<Rightarrow> Some s
      | Inr diskno \<Rightarrow> do {
          d \<leftarrow> block_is_dirty diskno s;
          if d then write_block diskno s else Some s
        })
   }"

definition file_flush :: "u32 \<Rightarrow> fsst \<Rightarrow> fsst option" where
  "file_flush f s = do {
     sz \<leftarrow> uload (f_size f) s;
     ofold (flush_step f) [0..<unat (sz div BY2BLK + 1)] s
   }"

definition flush_dir :: "u32 \<Rightarrow> fsst \<Rightarrow> fsst option" where
  "flush_dir f s = do { d \<leftarrow> uload (f_dir f) s; if d \<noteq> 0 then file_flush d s else Some s }"

definition file_set_size :: "u32 \<Rightarrow> u32 \<Rightarrow> fsst \<Rightarrow> fsst option" where
  "file_set_size f newsize s = do {
     sz \<leftarrow> uload (f_size f) s;
     s \<leftarrow> (if sz > newsize then file_truncate f newsize s else Some s);
     s \<leftarrow> ustore (f_size f) newsize s;
     flush_dir f s
   }"

definition sync_step :: "nat \<Rightarrow> fsst \<Rightarrow> fsst option" where
  "sync_step i s = do {
     d \<leftarrow> block_is_dirty (word_of_nat i) s;
     if d then write_block (word_of_nat i) s else Some s
   }"

definition fs_sync :: "fsst \<Rightarrow> fsst option" where
  "fs_sync s = do {
     n \<leftarrow> uload (s_nblocks (super s)) s;
     ofold sync_step [0..<unat n] s
   }"

definition file_close :: "u32 \<Rightarrow> fsst \<Rightarrow> fsst option" where
  "file_close f s = do { s \<leftarrow> file_flush f s; flush_dir f s }"

definition file_remove :: "u8 list \<Rightarrow> fsst \<Rightarrow> ((err + unit) \<times> fsst) option" where
  "file_remove path s = do {
     ((r, _, _), s) \<leftarrow> walk_path path s;
     (case r of
        Inl e \<Rightarrow> Some (Inl e, s)
      | Inr f \<Rightarrow> do {
          s \<leftarrow> file_truncate f 0 s;
          s \<leftarrow> ustore8 f 0 s;
          s \<leftarrow> file_flush f s;
          s \<leftarrow> flush_dir f s;
          Some (Inr (), s)
        })
   }"

end
