(* ===== verification/Ide.thy ===== *)
theory Ide
  imports Fs
begin

text \<open>
  The disk driver, \<open>fs/ide.c\<close>: sectors move through the registers and the buffer of the disk device,
  which the driver reaches with the device system calls. The device with these calls is the argument
  \<open>ops\<close>: \<open>dev_put\<close> stores bytes at a physical address, \<open>dev_get\<close> reads as many bytes as it is
  asked for, and \<open>None\<close> is an error code of the call, which the driver turns into a panic.

  \<open>disk_laws\<close> states the behaviour of the registers of \<open>include/drivers/dev_disk.h\<close>; under it the
  loops of the driver end and do the transfers that \<open>Fs\<close> uses.
\<close>

section \<open>Definitions\<close>

definition DEV_DISK_ADDRESS :: u32 where "DEV_DISK_ADDRESS = 0x13000000"
definition DEV_DISK_OFFSET :: u32 where "DEV_DISK_OFFSET = 0x0000"
definition DEV_DISK_ID :: u32 where "DEV_DISK_ID = 0x0010"
definition DEV_DISK_START_OPERATION :: u32 where "DEV_DISK_START_OPERATION = 0x0020"
definition DEV_DISK_STATUS :: u32 where "DEV_DISK_STATUS = 0x0030"
definition DEV_DISK_BUFFER :: u32 where "DEV_DISK_BUFFER = 0x4000"
definition DEV_DISK_OPERATION_READ :: u32 where "DEV_DISK_OPERATION_READ = 0"
definition DEV_DISK_OPERATION_WRITE :: u32 where "DEV_DISK_OPERATION_WRITE = 1"

lemmas disk_defs = DEV_DISK_ADDRESS_def DEV_DISK_OFFSET_def DEV_DISK_ID_def DEV_DISK_START_OPERATION_def
  DEV_DISK_STATUS_def DEV_DISK_BUFFER_def DEV_DISK_OPERATION_READ_def DEV_DISK_OPERATION_WRITE_def

record 'd disk_ops =
  dev_put :: "u32 \<Rightarrow> u8 list \<Rightarrow> 'd \<Rightarrow> 'd option"
  dev_get :: "u32 \<Rightarrow> nat \<Rightarrow> 'd \<Rightarrow> (u8 list \<times> 'd) option"

definition word_bytes :: "u32 \<Rightarrow> u8 list" where
  "word_bytes w = [ucast w, ucast (drop_bit 8 w), ucast (drop_bit 16 w), ucast (drop_bit 24 w)]"

definition peek_bytes :: "bmem \<Rightarrow> u32 \<Rightarrow> nat \<Rightarrow> u8 list" where
  "peek_bytes m a n = map (\<lambda>i. m (a + word_of_nat i)) [0..<n]"

definition poke_bytes :: "u32 \<Rightarrow> u8 list \<Rightarrow> bmem \<Rightarrow> bmem" where
  "poke_bytes va bs m = (\<lambda>a. if unat (a - va) < length bs then bs ! unat (a - va) else m a)"

text \<open>The loops, with the local variables \<open>begin\<close>, \<open>end\<close> and \<open>off\<close>; a device error or a zero status panics.\<close>

partial_function (option) ide_read_loop ::
  "'d disk_ops \<Rightarrow> u32 \<Rightarrow> u32 \<Rightarrow> u32 \<Rightarrow> u32 \<Rightarrow> u32 \<Rightarrow> bmem \<Rightarrow> 'd \<Rightarrow> (bmem \<times> 'd) option" where
  "ide_read_loop ops diskno start stop dst off m d = (
     if start + off < stop then do {
       d \<leftarrow> dev_put ops (DEV_DISK_ADDRESS + DEV_DISK_ID) (word_bytes diskno) d;
       d \<leftarrow> dev_put ops (DEV_DISK_ADDRESS + DEV_DISK_OFFSET) (word_bytes (start + off)) d;
       d \<leftarrow> dev_put ops (DEV_DISK_ADDRESS + DEV_DISK_START_OPERATION) (word_bytes DEV_DISK_OPERATION_READ) d;
       (t, d) \<leftarrow> dev_get ops (DEV_DISK_ADDRESS + DEV_DISK_STATUS) 4 d;
       if t = word_bytes 0 then None
       else do {
         (bs, d) \<leftarrow> dev_get ops (DEV_DISK_ADDRESS + DEV_DISK_BUFFER) (unat BY2SECT) d;
         ide_read_loop ops diskno start stop dst (off + BY2SECT) (poke_bytes (dst + off) bs m) d
       }
     }
     else Some (m, d))"

definition ide_read :: "'d disk_ops \<Rightarrow> u32 \<Rightarrow> u32 \<Rightarrow> u32 \<Rightarrow> u32 \<Rightarrow> bmem \<Rightarrow> 'd \<Rightarrow> (bmem \<times> 'd) option" where
  "ide_read ops diskno secno dst nsecs m d = (
     let start = secno * BY2SECT;
         stop = start + nsecs * BY2SECT
     in ide_read_loop ops diskno start stop dst 0 m d)"

partial_function (option) ide_write_loop ::
  "'d disk_ops \<Rightarrow> u32 \<Rightarrow> u32 \<Rightarrow> u32 \<Rightarrow> u32 \<Rightarrow> u32 \<Rightarrow> bmem \<Rightarrow> 'd \<Rightarrow> 'd option" where
  "ide_write_loop ops diskno start stop src off m d = (
     if start + off < stop then do {
       d \<leftarrow> dev_put ops (DEV_DISK_ADDRESS + DEV_DISK_ID) (word_bytes diskno) d;
       d \<leftarrow> dev_put ops (DEV_DISK_ADDRESS + DEV_DISK_OFFSET) (word_bytes (start + off)) d;
       d \<leftarrow> dev_put ops (DEV_DISK_ADDRESS + DEV_DISK_BUFFER) (peek_bytes m (src + off) (unat BY2SECT)) d;
       d \<leftarrow> dev_put ops (DEV_DISK_ADDRESS + DEV_DISK_START_OPERATION) (word_bytes DEV_DISK_OPERATION_WRITE) d;
       (t, d) \<leftarrow> dev_get ops (DEV_DISK_ADDRESS + DEV_DISK_STATUS) 4 d;
       if t = word_bytes 0 then None
       else ide_write_loop ops diskno start stop src (off + BY2SECT) m d
     }
     else Some d)"

definition ide_write :: "'d disk_ops \<Rightarrow> u32 \<Rightarrow> u32 \<Rightarrow> u32 \<Rightarrow> u32 \<Rightarrow> bmem \<Rightarrow> 'd \<Rightarrow> 'd option" where
  "ide_write ops diskno secno src nsecs m d = (
     let start = secno * BY2SECT;
         stop = start + nsecs * BY2SECT
     in ide_write_loop ops diskno start stop src 0 m d)"

section \<open>The device\<close>

text \<open>What the registers show of a device, and what an access does to it.\<close>

record dview =
  d_id :: u32
  d_off :: u32
  d_buf :: "u8 list"
  d_status :: u32
  d_img :: "u32 \<Rightarrow> u32 \<Rightarrow> u8"

definition load_sector :: "dview \<Rightarrow> dview" where
  "load_sector v = v\<lparr>d_buf := map (\<lambda>i. d_img v (d_id v) (d_off v + word_of_nat i)) [0..<512], d_status := 1\<rparr>"

definition store_sector :: "dview \<Rightarrow> dview" where
  "store_sector v = v\<lparr>d_img := (d_img v)(d_id v := poke_bytes (d_off v) (d_buf v) (d_img v (d_id v))), d_status := 1\<rparr>"

definition put_law :: "'d disk_ops \<Rightarrow> ('d \<Rightarrow> dview) \<Rightarrow> u32 \<Rightarrow> u8 list \<Rightarrow> (dview \<Rightarrow> dview) \<Rightarrow> bool" where
  "put_law ops st reg bs f \<longleftrightarrow> (\<forall>d. \<exists>d'. dev_put ops (DEV_DISK_ADDRESS + reg) bs d = Some d' \<and> st d' = f (st d))"

definition get_law :: "'d disk_ops \<Rightarrow> ('d \<Rightarrow> dview) \<Rightarrow> u32 \<Rightarrow> nat \<Rightarrow> (dview \<Rightarrow> u8 list) \<Rightarrow> bool" where
  "get_law ops st reg n f \<longleftrightarrow> (\<forall>d. \<exists>d'. dev_get ops (DEV_DISK_ADDRESS + reg) n d = Some (f (st d), d') \<and> st d' = st d)"

definition disk_laws :: "'d disk_ops \<Rightarrow> ('d \<Rightarrow> dview) \<Rightarrow> bool" where
  "disk_laws ops st \<longleftrightarrow>
     (\<forall>x. put_law ops st DEV_DISK_ID (word_bytes x) (\<lambda>v. v\<lparr>d_id := x\<rparr>))
     \<and> (\<forall>x. put_law ops st DEV_DISK_OFFSET (word_bytes x) (\<lambda>v. v\<lparr>d_off := x\<rparr>))
     \<and> (\<forall>bs. length bs = 512 \<longrightarrow> put_law ops st DEV_DISK_BUFFER bs (\<lambda>v. v\<lparr>d_buf := bs\<rparr>))
     \<and> put_law ops st DEV_DISK_START_OPERATION (word_bytes DEV_DISK_OPERATION_READ) load_sector
     \<and> put_law ops st DEV_DISK_START_OPERATION (word_bytes DEV_DISK_OPERATION_WRITE) store_sector
     \<and> get_law ops st DEV_DISK_STATUS 4 (\<lambda>v. word_bytes (d_status v))
     \<and> get_law ops st DEV_DISK_BUFFER 512 d_buf"

section \<open>The loops\<close>

lemma word_bytes_1: "word_bytes 1 \<noteq> word_bytes 0"
  by (simp add: word_bytes_def)

lemma unat_512 [simp]: "unat BY2SECT = 512"
  by (simp add: BY2SECT_def)

lemma sub_less_iff:
  assumes "unat off + 512 \<le> n" "n < 2 ^ 32"
  shows "unat (x - off :: u32) < 512 \<longleftrightarrow> \<not> x < off \<and> x < off + 512"
proof -
  have o: "unat (off + 512) = unat off + 512" using assms by (simp add: unat_word_ariths)
  show ?thesis
  proof (cases "x < off")
    case True
    then have "unat (x - off) = 2 ^ 32 - (unat off - unat x)"
      by (simp add: unat_sub_if' word_less_nat_alt)
    then show ?thesis using True assms by simp
  next
    case False
    then have "unat (x - off) = unat x - unat off" by (simp add: unat_sub_if' word_less_nat_alt)
    then show ?thesis using False o by (auto simp: word_less_nat_alt)
  qed
qed

lemma poke_range:
  assumes n: "unat off + 512 \<le> n" "n < 2 ^ 32" and bs: "length bs = 512"
    and "\<And>i. i < 512 \<Longrightarrow> bs ! i = f (off + word_of_nat i)"
  shows "poke_bytes (va + off) bs (\<lambda>a. if a - va < off then f (a - va) else g a)
    = (\<lambda>a. if a - va < off + BY2SECT then f (a - va) else g a)"
proof
  fix a
  have a: "a - (va + off) = a - va - off" by simp
  have le: "off < off + 512" using n by (simp add: word_less_nat_alt unat_word_ariths)
  have "bs ! unat (a - va - off) = f (a - va)" if "unat (a - va - off) < 512" using assms(4) [OF that] by simp
  then show "poke_bytes (va + off) bs (\<lambda>a. if a - va < off then f (a - va) else g a) a
    = (if a - va < off + BY2SECT then f (a - va) else g a)"
    using sub_less_iff [OF n, of "a - va"] le bs unfolding poke_bytes_def a BY2SECT_def
    by (auto simp: not_less)
qed

lemma disk_lawsD:
  assumes "disk_laws ops st"
  shows "put_law ops st DEV_DISK_ID (word_bytes x) (\<lambda>v. v\<lparr>d_id := x\<rparr>)"
    and "put_law ops st DEV_DISK_OFFSET (word_bytes x) (\<lambda>v. v\<lparr>d_off := x\<rparr>)"
    and "length bs = 512 \<Longrightarrow> put_law ops st DEV_DISK_BUFFER bs (\<lambda>v. v\<lparr>d_buf := bs\<rparr>)"
    and "put_law ops st DEV_DISK_START_OPERATION (word_bytes DEV_DISK_OPERATION_READ) load_sector"
    and "put_law ops st DEV_DISK_START_OPERATION (word_bytes DEV_DISK_OPERATION_WRITE) store_sector"
    and "get_law ops st DEV_DISK_STATUS 4 (\<lambda>v. word_bytes (d_status v))"
    and "get_law ops st DEV_DISK_BUFFER 512 d_buf"
  using assms unfolding disk_laws_def by blast+

lemma put_lawE:
  assumes "put_law ops st reg bs f"
  obtains d' where "dev_put ops (DEV_DISK_ADDRESS + reg) bs d = Some d'" "st d' = f (st d)"
  using assms by (force simp: put_law_def)

lemma get_lawE:
  assumes "get_law ops st reg n f"
  obtains d' where "dev_get ops (DEV_DISK_ADDRESS + reg) n d = Some (f (st d), d')" "st d' = st d"
  using assms by (force simp: get_law_def)

lemma loop_end:
  fixes stop :: u32
  assumes "unat start + unat off = unat stop"
  shows "\<not> start + off < stop" and "stop - start = off"
proof -
  have "start + off = stop" using assms unat_u32 [of stop] by (simp add: word_unat_eq_iff unat_word_ariths)
  then show "\<not> start + off < stop" "stop - start = off" by auto
qed

lemma loop_next:
  fixes stop :: u32
  assumes "unat start + unat off + 512 * Suc k = unat stop"
  shows "start + off < stop" and "unat off + 512 \<le> unat stop" and "unat start + unat (off + BY2SECT) + 512 * k = unat stop"
  using assms unat_u32 [of stop] by (simp_all add: word_less_nat_alt unat_word_ariths BY2SECT_def)

lemma ide_read_step:
  assumes l: "disk_laws ops st" and c: "start + off < stop"
  obtains d' where "ide_read_loop ops diskno start stop dst off m d
      = ide_read_loop ops diskno start stop dst (off + BY2SECT)
          (poke_bytes (dst + off) (map (\<lambda>i. d_img (st d) diskno (start + off + word_of_nat i)) [0..<512]) m) d'"
    and "d_img (st d') = d_img (st d)"
proof -
  note L = disk_lawsD [OF l]
  obtain d1 where d1: "dev_put ops (DEV_DISK_ADDRESS + DEV_DISK_ID) (word_bytes diskno) d = Some d1" "st d1 = (st d)\<lparr>d_id := diskno\<rparr>"
    by (rule put_lawE [OF L(1)])
  obtain d2 where d2: "dev_put ops (DEV_DISK_ADDRESS + DEV_DISK_OFFSET) (word_bytes (start + off)) d1 = Some d2" "st d2 = (st d1)\<lparr>d_off := start + off\<rparr>"
    by (rule put_lawE [OF L(2)])
  obtain d3 where d3: "dev_put ops (DEV_DISK_ADDRESS + DEV_DISK_START_OPERATION) (word_bytes DEV_DISK_OPERATION_READ) d2 = Some d3" "st d3 = load_sector (st d2)"
    by (rule put_lawE [OF L(4)])
  obtain d4 where d4: "dev_get ops (DEV_DISK_ADDRESS + DEV_DISK_STATUS) 4 d3 = Some (word_bytes (d_status (st d3)), d4)" "st d4 = st d3"
    by (rule get_lawE [OF L(6)])
  obtain d5 where d5: "dev_get ops (DEV_DISK_ADDRESS + DEV_DISK_BUFFER) 512 d4 = Some (d_buf (st d4), d5)" "st d5 = st d4"
    by (rule get_lawE [OF L(7)])
  show thesis
    by (rule that [of d5]) (use c d1 d2 d3 d4 d5 word_bytes_1 in \<open>simp_all add: ide_read_loop.simps [of ops diskno start stop dst off] load_sector_def\<close>)
qed

lemma ide_read_loop_spec:
  assumes l: "disk_laws ops st"
  shows "unat start + unat off + 512 * k = unat stop \<Longrightarrow> (\<And>x. F x = d_img (st d) diskno (start + x)) \<Longrightarrow>
    \<exists>d'. ide_read_loop ops diskno start stop dst off (\<lambda>a. if a - dst < off then F (a - dst) else m a) d
      = Some (\<lambda>a. if a - dst < stop - start then F (a - dst) else m a, d') \<and> d_img (st d') = d_img (st d)"
proof (induction k arbitrary: off d)
  case 0
  then show ?case using loop_end [of start off stop] by (auto simp: ide_read_loop.simps [of ops diskno start stop dst off])
next
  case (Suc k)
  note n = loop_next [OF Suc.prems(1)]
  let ?bs = "map (\<lambda>i. d_img (st d) diskno (start + off + word_of_nat i)) [0..<512]"
  obtain d' where d': "ide_read_loop ops diskno start stop dst off (\<lambda>a. if a - dst < off then F (a - dst) else m a) d
      = ide_read_loop ops diskno start stop dst (off + BY2SECT) (poke_bytes (dst + off) ?bs (\<lambda>a. if a - dst < off then F (a - dst) else m a)) d'"
    "d_img (st d') = d_img (st d)"
    by (rule ide_read_step [OF l n(1)])
  have "poke_bytes (dst + off) ?bs (\<lambda>a. if a - dst < off then F (a - dst) else m a)
      = (\<lambda>a. if a - dst < off + BY2SECT then F (a - dst) else m a)"
    by (rule poke_range [OF n(2)]) (use Suc.prems(2) unat_u32 [of stop] in \<open>simp_all add: ac_simps\<close>)
  then show ?case using Suc.IH [OF n(3), of d'] Suc.prems(2) d' by simp
qed

lemma ide_write_step:
  assumes l: "disk_laws ops st" and c: "start + off < stop"
  obtains d' where "ide_write_loop ops diskno start stop src off m d = ide_write_loop ops diskno start stop src (off + BY2SECT) m d'"
    and "d_img (st d') = (d_img (st d))(diskno := poke_bytes (start + off) (peek_bytes m (src + off) 512) (d_img (st d) diskno))"
proof -
  note L = disk_lawsD [OF l]
  obtain d1 where d1: "dev_put ops (DEV_DISK_ADDRESS + DEV_DISK_ID) (word_bytes diskno) d = Some d1" "st d1 = (st d)\<lparr>d_id := diskno\<rparr>"
    by (rule put_lawE [OF L(1)])
  obtain d2 where d2: "dev_put ops (DEV_DISK_ADDRESS + DEV_DISK_OFFSET) (word_bytes (start + off)) d1 = Some d2" "st d2 = (st d1)\<lparr>d_off := start + off\<rparr>"
    by (rule put_lawE [OF L(2)])
  have "length (peek_bytes m (src + off) 512) = 512" by (simp add: peek_bytes_def)
  from L(3) [OF this] obtain d3 where d3: "dev_put ops (DEV_DISK_ADDRESS + DEV_DISK_BUFFER) (peek_bytes m (src + off) 512) d2 = Some d3"
    "st d3 = (st d2)\<lparr>d_buf := peek_bytes m (src + off) 512\<rparr>"
    by (rule put_lawE)
  obtain d4 where d4: "dev_put ops (DEV_DISK_ADDRESS + DEV_DISK_START_OPERATION) (word_bytes DEV_DISK_OPERATION_WRITE) d3 = Some d4" "st d4 = store_sector (st d3)"
    by (rule put_lawE [OF L(5)])
  obtain d5 where d5: "dev_get ops (DEV_DISK_ADDRESS + DEV_DISK_STATUS) 4 d4 = Some (word_bytes (d_status (st d4)), d5)" "st d5 = st d4"
    by (rule get_lawE [OF L(6)])
  show thesis
    by (rule that [of d5]) (use c d1 d2 d3 d4 d5 word_bytes_1 in \<open>simp_all add: ide_write_loop.simps [of ops diskno start stop src off] store_sector_def\<close>)
qed

lemma ide_write_loop_spec:
  assumes l: "disk_laws ops st"
  shows "unat start + unat off + 512 * k = unat stop \<Longrightarrow>
    d_img (st d) = D(diskno := (\<lambda>i. if i - start < off then m (src + (i - start)) else D diskno i)) \<Longrightarrow>
    \<exists>d'. ide_write_loop ops diskno start stop src off m d = Some d'
      \<and> d_img (st d') = D(diskno := (\<lambda>i. if i - start < stop - start then m (src + (i - start)) else D diskno i))"
proof (induction k arbitrary: off d)
  case 0
  then show ?case using loop_end [of start off stop] by (auto simp: ide_write_loop.simps [of ops diskno start stop src off])
next
  case (Suc k)
  note n = loop_next [OF Suc.prems(1)]
  let ?bs = "peek_bytes m (src + off) 512"
  obtain d' where d': "ide_write_loop ops diskno start stop src off m d = ide_write_loop ops diskno start stop src (off + BY2SECT) m d'"
    "d_img (st d') = (d_img (st d))(diskno := poke_bytes (start + off) ?bs (d_img (st d) diskno))"
    by (rule ide_write_step [OF l n(1)])
  have "poke_bytes (start + off) ?bs (\<lambda>i. if i - start < off then m (src + (i - start)) else D diskno i)
      = (\<lambda>i. if i - start < off + BY2SECT then m (src + (i - start)) else D diskno i)"
    by (rule poke_range [OF n(2), where f = "\<lambda>x. m (src + x)"]) (use unat_u32 [of stop] in \<open>simp_all add: peek_bytes_def ac_simps\<close>)
  then have "d_img (st d') = D(diskno := (\<lambda>i. if i - start < off + BY2SECT then m (src + (i - start)) else D diskno i))"
    using d'(2) Suc.prems(2) by (simp add: fun_eq_iff)
  with Suc.IH [OF n(3), of d'] d'(1) show ?case by simp
qed

section \<open>The transfers\<close>

lemma sector_range:
  assumes "(unat secno + unat nsecs) * 512 < 2 ^ 32"
  shows "unat (secno * BY2SECT) + unat (0 :: u32) + 512 * unat nsecs = unat (secno * BY2SECT + nsecs * BY2SECT)"
proof -
  have "unat (secno * BY2SECT) = unat secno * 512" "unat (nsecs * BY2SECT) = unat nsecs * 512"
    using assms by (simp_all add: unat_word_ariths BY2SECT_def)
  then show ?thesis using assms by (simp add: unat_word_ariths)
qed

text \<open>
  C27 (ide_refines_disk). On a device that obeys the disk laws, and for sectors that lie below 4 GB, the
  loops of the driver end without a panic and are exactly the block transfers that the file system
  relies on: \<open>ide_write\<close> changes the image of the disk as \<open>ide_write_blk\<close> does, \<open>ide_read\<close> changes
  memory as \<open>ide_read_blk\<close> does and leaves the disk as it is.
\<close>

theorem ide_refines_disk:
  assumes l: "disk_laws ops st" and r: "(unat secno + unat nsecs) * 512 < 2 ^ 32"
    and s: "disk s = d_img (st d)" "va_writable va s" "va AND 0xFFF = 0" "nsecs \<le> SECT2BLK"
  shows "\<exists>d1 d2 m. ide_write ops diskno secno va nsecs (umem s) d = Some d1
    \<and> ide_write_blk diskno secno va nsecs s = Some (s\<lparr>disk := d_img (st d1)\<rparr>)
    \<and> ide_read ops diskno secno va nsecs (umem s) d = Some (m, d2)
    \<and> ide_read_blk diskno secno va nsecs s = Some (s\<lparr>umem := m\<rparr>) \<and> d_img (st d2) = d_img (st d)"
proof -
  let ?a = "secno * BY2SECT"
  let ?b = "?a + nsecs * BY2SECT"
  note k = sector_range [OF r]
  have m: "va_is_mapped va s" using s(2) by (simp add: va_writable_def va_mapped_def va_is_mapped_def)
  have z: "\<not> (x :: u32) < 0" for x by simp
  from ide_write_loop_spec [OF l k, where d = d and D = "d_img (st d)" and diskno = diskno and m = "umem s" and src = va]
  obtain d1 where d1: "ide_write_loop ops diskno ?a ?b va 0 (umem s) d = Some d1"
    "d_img (st d1) = (d_img (st d))(diskno := (\<lambda>i. if i - ?a < nsecs * BY2SECT then umem s (va + (i - ?a)) else d_img (st d) diskno i))"
    by (auto simp: z)
  from ide_read_loop_spec [OF l k, where d = d and F = "\<lambda>x. d_img (st d) diskno (?a + x)" and diskno = diskno and m = "umem s" and dst = va]
  obtain d2 where d2: "ide_read_loop ops diskno ?a ?b va 0 (umem s) d
      = Some (\<lambda>a. if a - va < nsecs * BY2SECT then d_img (st d) diskno (?a + (a - va)) else umem s a, d2)" "d_img (st d2) = d_img (st d)"
    by (auto simp: z)
  show ?thesis
    using d1 d2 s(2-4) m unfolding s(1) [symmetric] by (simp add: ide_write_def ide_read_def ide_write_blk_def ide_read_blk_def)
qed

text \<open>A device that obeys the laws: the state shown by the registers is the whole state.\<close>

definition bytes_word :: "u8 list \<Rightarrow> u32" where
  "bytes_word bs = ucast (bs ! 0) OR push_bit 8 (ucast (bs ! 1)) OR push_bit 16 (ucast (bs ! 2)) OR push_bit 24 (ucast (bs ! 3))"

definition sample_disk :: "dview disk_ops" where
  "sample_disk = \<lparr>
     dev_put = (\<lambda>a bs d.
       if a = DEV_DISK_ADDRESS + DEV_DISK_ID then Some (d\<lparr>d_id := bytes_word bs\<rparr>)
       else if a = DEV_DISK_ADDRESS + DEV_DISK_OFFSET then Some (d\<lparr>d_off := bytes_word bs\<rparr>)
       else if a = DEV_DISK_ADDRESS + DEV_DISK_BUFFER then Some (d\<lparr>d_buf := bs\<rparr>)
       else if a = DEV_DISK_ADDRESS + DEV_DISK_START_OPERATION
            then Some (if bytes_word bs = DEV_DISK_OPERATION_READ then load_sector d else store_sector d)
       else None),
     dev_get = (\<lambda>a n d.
       if a = DEV_DISK_ADDRESS + DEV_DISK_STATUS then Some (word_bytes (d_status d), d)
       else if a = DEV_DISK_ADDRESS + DEV_DISK_BUFFER then Some (d_buf d, d) else None)\<rparr>"

lemma bytes_word_bytes [simp]: "bytes_word (word_bytes w) = w"
proof (rule bit_word_eqI)
  fix n :: nat
  assume "n < LENGTH(32)"
  then consider "n < 8" | "8 \<le> n" "n < 16" | "16 \<le> n" "n < 24" | "24 \<le> n" "n < 32" by fastforce
  then show "bit (bytes_word (word_bytes w)) n = bit w n"
    by cases (auto simp: bytes_word_def word_bytes_def bit_simps less_diff_conv2)
qed

lemma sample_disk_laws: "disk_laws sample_disk (\<lambda>d. d)"
  by (simp add: disk_laws_def put_law_def get_law_def sample_disk_def disk_defs)

definition sample_state :: fsst where
  "sample_state = \<lparr>umem = (\<lambda>a. ucast a), vpd = (\<lambda>_. PTE_V), vpt = (\<lambda>_. PTE_V OR PTE_D), palloc = (\<lambda>_. None), requests = 0,
     super = 0, bitmap = 0, disk = (\<lambda>_ _. 0)\<rparr>"

definition sample_dev :: dview where
  "sample_dev = \<lparr>d_id = 0, d_off = 0, d_buf = [], d_status = 0, d_img = (\<lambda>_ _. 0)\<rparr>"

theorem ide_refines_disk_witness:
  "\<exists>d1 d2 m. ide_write sample_disk 0 8 0x10001000 8 (umem sample_state) sample_dev = Some d1
    \<and> ide_write_blk 0 8 0x10001000 8 sample_state = Some (sample_state\<lparr>disk := d_img d1\<rparr>)
    \<and> ide_read sample_disk 0 8 0x10001000 8 (umem sample_state) sample_dev = Some (m, d2)
    \<and> ide_read_blk 0 8 0x10001000 8 sample_state = Some (sample_state\<lparr>umem := m\<rparr>) \<and> d_img d2 = d_img sample_dev"
  by (rule ide_refines_disk [OF sample_disk_laws])
    (simp_all add: sample_state_def sample_dev_def va_writable_def va_mapped_def pte_valid_def PTE_V_def PTE_D_def fs_defs BY2PG_def)

end
