(* ===== verification/Fs_Props.thy ===== *)
theory Fs_Props
  imports Fs
begin

text \<open>
  Properties of the block layer of the file system server: what \<open>fs_sync\<close> leaves on the disk, which
  block \<open>alloc_block_num\<close> hands out and what it does to the bitmap, and that a block that leaves the
  cache comes back with the same contents.
\<close>

section \<open>Addresses of blocks\<close>

lemma unat_BY2BLK [simp]: "unat BY2BLK = 4096"
  by (simp add: BY2BLK_def BY2PG_def)

lemma diskaddr_ok: "b < 0x40000 \<Longrightarrow> diskaddr b = Some (DISKMAP + BY2BLK * b)"
proof -
  assume b: "b < 0x40000"
  then have "unat b < 0x40000" by (simp add: word_less_nat_alt)
  then have "unat (DISKMAP + BY2BLK * b) < 0x50000000" by (simp add: fs_defs BY2PG_def unat_word_ariths)
  then have "\<not> DISKMAX + DISKMAP \<le> DISKMAP + BY2BLK * b" by (simp add: fs_defs word_le_nat_alt)
  then show ?thesis by (simp add: diskaddr_def)
qed

lemma block_page:
  assumes "b < 0x40000"
  shows "VPN (DISKMAP + BY2BLK * b) = 0x10000 + unat b" and "(DISKMAP + BY2BLK * b) AND 0xFFF = 0"
    and "\<not> DISKMAP + BY2BLK * b < UTEMP" and "\<not> UTOP \<le> DISKMAP + BY2BLK * b"
proof -
  have n: "unat b < 0x40000" using assms by (simp add: word_less_nat_alt)
  have u: "unat (DISKMAP + BY2BLK * b) = 0x10000000 + 4096 * unat b"
    using n by (simp add: fs_defs BY2PG_def unat_word_ariths)
  show "VPN (DISKMAP + BY2BLK * b) = 0x10000 + unat b" by (simp add: VPN_div u)
  have m: "(0xFFF :: u32) = mask 12" by (simp add: mask_eq_exp_minus_1)
  have "unat ((DISKMAP + BY2BLK * b) AND 0xFFF) = 0"
    unfolding m take_bit_eq_mask [symmetric] by (simp add: unat_take u)
  then show "(DISKMAP + BY2BLK * b) AND 0xFFF = 0" by (simp add: unat_eq_0)
  show "\<not> DISKMAP + BY2BLK * b < UTEMP" "\<not> UTOP \<le> DISKMAP + BY2BLK * b"
    using n u by (simp_all add: word_less_nat_alt word_le_nat_alt mmu_defs)
qed

text \<open>The bytes of a block on the disk.\<close>

lemma block_bytes:
  assumes "b < 0x40000"
  shows "i - b * SECT2BLK * BY2SECT < SECT2BLK * BY2SECT \<longleftrightarrow> i div BY2BLK = b"
    and "DISKMAP + BY2BLK * b + (i - b * SECT2BLK * BY2SECT) = DISKMAP + i"
proof -
  have s: "SECT2BLK * BY2SECT = 4096" "b * SECT2BLK * BY2SECT = BY2BLK * b" by (simp_all add: fs_defs BY2PG_def)
  show "DISKMAP + BY2BLK * b + (i - b * SECT2BLK * BY2SECT) = DISKMAP + i" unfolding s by simp
  have n: "unat (BY2BLK * b) = 4096 * unat b" using assms by (simp add: word_less_nat_alt unat_word_ariths)
  have e: "i div BY2BLK = b \<longleftrightarrow> unat i div 4096 = unat b" by (simp add: word_unat_eq_iff unat_div)
  have b: "unat b < 0x40000" using assms by (simp add: word_less_nat_alt)
  show "i - b * SECT2BLK * BY2SECT < SECT2BLK * BY2SECT \<longleftrightarrow> i div BY2BLK = b"
  proof (cases "BY2BLK * b \<le> i")
    case True
    then have "unat (i - BY2BLK * b) = unat i - 4096 * unat b" "4096 * unat b \<le> unat i"
      using n by (simp_all add: unat_sub word_le_nat_alt)
    then show ?thesis unfolding s e by (auto simp: word_less_nat_alt)
  next
    case False
    then have l: "unat i < 4096 * unat b" using n by (simp add: word_le_nat_alt)
    then have "unat (i - BY2BLK * b) = 2 ^ 32 - (4096 * unat b - unat i)"
      using n by (simp add: unat_sub_if')
    then show ?thesis unfolding s e using l b by (auto simp: word_less_nat_alt)
  qed
qed

section \<open>Writing back\<close>

definition dirty :: "fsst \<Rightarrow> u32 \<Rightarrow> bool" where
  "dirty s b \<longleftrightarrow> va_is_mapped (DISKMAP + BY2BLK * b) s \<and> va_is_dirty (DISKMAP + BY2BLK * b) s"

lemma write_block_ok:
  assumes "b < 0x40000" "va_is_mapped (DISKMAP + BY2BLK * b) s"
  shows "write_block b s = Some (s\<lparr>disk := (disk s)(0 := (\<lambda>i. if i div BY2BLK = b then umem s (DISKMAP + i) else disk s 0 i))\<rparr>)"
  using assms block_page(2) [OF assms(1)]
  by (simp add: write_block_def block_is_mapped_def diskaddr_ok ide_write_blk_def block_bytes cong: if_cong)

lemma sync_step_ok:
  assumes "k < 0x40000"
  shows "sync_step k s = Some (s\<lparr>disk := (disk s)(0 := (\<lambda>i. if i div BY2BLK = word_of_nat k \<and> dirty s (word_of_nat k)
    then umem s (DISKMAP + i) else disk s 0 i))\<rparr>)"
proof -
  have b: "(word_of_nat k :: u32) < 0x40000" using assms by (simp add: word_less_nat_alt unat_of_nat)
  show ?thesis
    using write_block_ok [OF b, of s] by (cases "dirty s (word_of_nat k)")
      (auto simp: sync_step_def block_is_dirty_def diskaddr_ok [OF b] dirty_def)
qed

definition synced :: "nat \<Rightarrow> fsst \<Rightarrow> fsst" where
  "synced k s = s\<lparr>disk := (disk s)(0 := (\<lambda>i. if unat (i div BY2BLK) < k \<and> dirty s (i div BY2BLK)
     then umem s (DISKMAP + i) else disk s 0 i))\<rparr>"

lemma synced_dirty [simp]: "dirty (synced k s) b = dirty s b"
  by (simp add: dirty_def synced_def va_is_mapped_def va_is_dirty_def)

lemma sync_prefix: "k \<le> 0x40000 \<Longrightarrow> ofold sync_step [0..<k] s = Some (synced k s)"
proof (induction k)
  case 0
  then show ?case by (simp add: synced_def fun_upd_triv)
next
  case (Suc k)
  have e: "i div BY2BLK = word_of_nat k \<longleftrightarrow> unat (i div BY2BLK) = k" for i :: u32
    using Suc.prems by (auto simp: word_unat_eq_iff unat_of_nat)
  have "(if i div BY2BLK = word_of_nat k \<and> dirty s (word_of_nat k) then umem s (DISKMAP + i)
       else if unat (i div BY2BLK) < k \<and> dirty s (i div BY2BLK) then umem s (DISKMAP + i) else disk s 0 i)
     = (if unat (i div BY2BLK) < Suc k \<and> dirty s (i div BY2BLK) then umem s (DISKMAP + i) else disk s 0 i)" for i
    using e [of i] by (cases "i div BY2BLK = word_of_nat k") (auto simp: less_Suc_eq)
  then have "sync_step k (synced k s) = Some (synced (Suc k) s)"
    unfolding sync_step_ok [OF Suc_le_lessD [OF Suc.prems]] synced_dirty
    by (simp add: synced_def cong: if_cong)
  with Suc show ?case by (simp add: ofold_append)
qed

text \<open>
  C23 (fs_sync_correct). With a mapped super block that describes a disk of the supported size, \<open>fs_sync\<close>
  returns: every block of the disk whose cached page is dirty then holds the contents of that page,
  and nothing else has changed, neither on the disk nor in the cache.
\<close>

theorem fs_sync_correct:
  assumes "uload (s_nblocks (super s)) s = Some n" and "n \<le> DISKMAX div BY2BLK"
  shows "fs_sync s = Some (s\<lparr>disk := (disk s)(0 := (\<lambda>i. if i div BY2BLK < n \<and> dirty s (i div BY2BLK)
    then umem s (DISKMAP + i) else disk s 0 i))\<rparr>)"
proof -
  have n: "unat n \<le> 0x40000" using assms(2) by (simp add: fs_defs BY2PG_def word_le_nat_alt)
  show ?thesis
    using sync_prefix [OF n] assms(1) by (simp add: fs_sync_def synced_def word_less_nat_alt)
qed

definition cache1 :: fsst where
  "cache1 = \<lparr>umem = (\<lambda>a. if a = 0x10001004 then 4 else 0), vpd = (\<lambda>_. PTE_V), vpt = (\<lambda>_. PTE_V OR PTE_D OR PTE_DIRTY),
     palloc = (\<lambda>_. Some 0x8000), requests = 0, super = 0x10001000, bitmap = 0x10002000, disk = (\<lambda>_ _. 9)\<rparr>"

theorem fs_sync_correct_witness:
  "fs_sync cache1 = Some (cache1\<lparr>disk := (disk cache1)(0 := (\<lambda>i. if i div BY2BLK < 4 \<and> dirty cache1 (i div BY2BLK)
    then umem cache1 (DISKMAP + i) else disk cache1 0 i))\<rparr>)"
  by (rule fs_sync_correct)
    (simp_all add: cache1_def uload_def load_word_def s_nblocks_def va_mapped_def pte_valid_def PTE_V_def PTE_D_def fs_defs BY2PG_def)

section \<open>The bitmap\<close>

lemma bit_test: "k < 32 \<Longrightarrow> (w :: u32) AND 2 ^ k \<noteq> 0 \<longleftrightarrow> bit w k"
proof -
  assume "k < 32"
  then have "w AND 2 ^ k = (if bit w k then 2 ^ k else 0)" by (intro bit_eqI) (auto simp: bit_simps)
  moreover have "(2 ^ k :: u32) \<noteq> 0" using \<open>k < 32\<close> by simp
  ultimately show ?thesis by simp
qed

definition bit_free :: "fsst \<Rightarrow> nat \<Rightarrow> bool" where
  "bit_free s b \<longleftrightarrow> bit (load_word (umem s) (bitmap s + 4 * word_of_nat (b div 32))) (b mod 32)"

text \<open>The bitmap is in its blocks, which are in the cache and writable.\<close>

definition bitmap_ok :: "fsst \<Rightarrow> nat \<Rightarrow> bool" where
  "bitmap_ok s n \<longleftrightarrow> bitmap s = DISKMAP + 2 * BY2BLK \<and> (\<forall>b<n. va_writable (bitmap s + 4 * word_of_nat (b div 32)) s)"

lemma bitmap_word:
  assumes "b < 0x40000"
  defines "p \<equiv> DISKMAP + 2 * BY2BLK + 4 * word_of_nat (b div 32)"
  shows "p AND 3 = 0" and "VPN p = 0x10002 + b div 32768" and "b' < 0x40000 \<Longrightarrow> p = DISKMAP + 2 * BY2BLK + 4 * word_of_nat (b' div 32) \<Longrightarrow> b div 32 = b' div 32"
proof -
  have u: "unat (DISKMAP + 2 * BY2BLK + 4 * word_of_nat (x div 32)) = 0x10002000 + 4 * (x div 32)" if "x < 0x40000" for x
    using that by (simp add: fs_defs BY2PG_def unat_word_ariths unat_of_nat)
  note p = u [OF assms(1), folded p_def]
  have m: "(3 :: u32) = mask 2" by (simp add: mask_eq_exp_minus_1)
  have "unat (p AND 3) = 0" unfolding m take_bit_eq_mask [symmetric] by (simp add: unat_take p)
  then show "p AND 3 = 0" by (simp add: unat_eq_0)
  have "(0x10002 * 4096 + 4 * (b div 32)) div 4096 = 0x10002 + 4 * (b div 32) div (4 * 1024)" by simp
  also have "\<dots> = 0x10002 + b div 32768" by (simp add: div_mult2_eq [of b 32 1024, simplified])
  finally have "(0x10002000 + 4 * (b div 32)) div 4096 = 0x10002 + b div 32768" by simp
  then show "VPN p = 0x10002 + b div 32768" by (simp add: VPN_div p)
  show "b div 32 = b' div 32" if "b' < 0x40000" "p = DISKMAP + 2 * BY2BLK + 4 * word_of_nat (b' div 32)"
    using p u [OF that(1)] that(2) by simp
qed

lemma word_div: "b < 0x40000 \<Longrightarrow> unat c = d \<Longrightarrow> (word_of_nat b :: u32) div c = word_of_nat (b div d)"
  by (simp add: word_unat_eq_iff unat_div unat_of_nat less_imp_diff_less order.strict_trans1 [OF div_le_dividend])

lemma scan_index: "b < 0x40000 \<Longrightarrow> (word_of_nat b :: u32) div 32 = word_of_nat (b div 32)"
  "b < 0x40000 \<Longrightarrow> (word_of_nat b :: u32) div BIT2BLK = word_of_nat (b div 32768)"
  by (simp_all add: word_div BIT2BLK_def BY2BLK_def BY2PG_def)

lemma bitmap_load:
  assumes "bitmap_ok s n" "n \<le> 0x40000" "b < n"
  shows "uload (bitmap s + 4 * word_of_nat (b div 32)) s = Some (load_word (umem s) (bitmap s + 4 * word_of_nat (b div 32)))"
    and "ustore (bitmap s + 4 * word_of_nat (b div 32)) w s = Some (s\<lparr>umem := store_word (bitmap s + 4 * word_of_nat (b div 32)) w (umem s)\<rparr>)"
  using assms bitmap_word(1) [of b]
  by (auto simp: bitmap_ok_def uload_def ustore_def va_writable_def)

lemma alloc_scan_skip:
  assumes "bitmap_ok s n" "n \<le> 0x40000" "\<And>b. b \<in> set bs \<Longrightarrow> b < n \<and> \<not> bit_free s b"
  shows "alloc_scan (bs @ cs) s = alloc_scan cs s"
  using assms(3)
proof (induction bs)
  case (Cons b bs)
  from Cons.prems [of b] have b: "b < n" "\<not> bit_free s b" by simp_all
  then have "b < 0x40000" using assms(2) by simp
  show ?case
    using Cons b \<open>b < 0x40000\<close> bitmap_load(1) [OF assms(1,2) b(1)]
    by (simp add: scan_index bit_test bit_free_def Let_def)
qed simp

definition cleared :: "nat \<Rightarrow> fsst \<Rightarrow> fsst" where
  "cleared b s = s\<lparr>umem := store_word (bitmap s + 4 * word_of_nat (b div 32))
     (load_word (umem s) (bitmap s + 4 * word_of_nat (b div 32)) AND NOT (push_bit (b mod 32) 1)) (umem s)\<rparr>"

lemma cleared_free:
  assumes "bitmap_ok s n" "n \<le> 0x40000" "b < n" "b' < n"
  shows "bit_free (cleared b s) b' \<longleftrightarrow> bit_free s b' \<and> b' \<noteq> b"
proof -
  let ?p = "\<lambda>b. bitmap s + 4 * word_of_nat (b div 32)"
  have bm: "bitmap s = DISKMAP + 2 * BY2BLK" using assms(1) by (simp add: bitmap_ok_def)
  have lt: "b < 0x40000" "b' < 0x40000" using assms by simp_all
  note w = bitmap_word(1) [OF lt(1), folded bm] bitmap_word(1) [OF lt(2), folded bm]
  show ?thesis
  proof (cases "b div 32 = b' div 32")
    case True
    then have "b' \<noteq> b \<longleftrightarrow> b' mod 32 \<noteq> b mod 32" by (metis mult_div_mod_eq)
    then show ?thesis using True
      by (auto simp: bit_free_def cleared_def load_store_same bit_simps)
  next
    case False
    then have "?p b' \<noteq> ?p b" using bitmap_word(3) [OF lt(2) lt(1)] bm by metis
    from load_store_other [OF w(2,1) this] False show ?thesis by (auto simp: bit_free_def cleared_def)
  qed
qed

lemma alloc_scan_take:
  assumes ok: "bitmap_ok s n" "n \<le> 0x40000" "b < n" and f: "bit_free s b"
  defines "c \<equiv> cleared b s"
  shows "alloc_scan (b # bs) s = Some (Inr (word_of_nat b), c\<lparr>disk := (disk s)(0 := (\<lambda>i.
     if i div BY2BLK = word_of_nat (b div 32768 + 2) then umem c (DISKMAP + i) else disk s 0 i))\<rparr>)"
proof -
  have b: "b < 0x40000" using ok by simp
  have bm: "bitmap s = DISKMAP + 2 * BY2BLK" using ok(1) by (simp add: bitmap_ok_def)
  let ?k = "word_of_nat (b div 32768) + 2 :: u32"
  have k: "?k < 0x40000" "unat ?k = b div 32768 + 2" using b by (simp_all add: word_less_nat_alt unat_word_ariths unat_of_nat)
  have "VPN (DISKMAP + BY2BLK * ?k) = VPN (bitmap s + 4 * word_of_nat (b div 32))"
    using block_page(1) [OF k(1)] k(2) bitmap_word(2) [OF b] bm by simp
  moreover from this have "PDX (DISKMAP + BY2BLK * ?k) = PDX (bitmap s + 4 * word_of_nat (b div 32))"
    by (metis VPN_eq_iff)
  moreover have "va_writable (bitmap s + 4 * word_of_nat (b div 32)) s" using ok unfolding bitmap_ok_def by blast
  ultimately have m: "va_is_mapped (DISKMAP + BY2BLK * ?k) c"
    by (simp add: va_is_mapped_def va_writable_def va_mapped_def c_def cleared_def)
  have st: "ustore (bitmap s + 4 * word_of_nat (b div 32))
      (load_word (umem s) (bitmap s + 4 * word_of_nat (b div 32)) AND NOT (push_bit (b mod 32) 1)) s = Some c"
    unfolding bitmap_load(2) [OF ok] by (simp add: c_def cleared_def)
  have "disk c = disk s" by (simp add: c_def cleared_def)
  note wr = write_block_ok [OF k(1) m, unfolded this]
  show ?thesis
    using f bitmap_load(1) [OF ok] st wr
    by (simp add: scan_index b bit_test bit_free_def add.commute Let_def)
qed

text \<open>
  C22 (alloc_block_num_correct). With the bitmap in the cache, \<open>alloc_block_num\<close> hands out the first free block from
  3 on: afterwards exactly that block is no longer free, and the bitmap block that records it has
  been written to the disk, where nothing else changed. When no block is free it fails with
  \<open>E_NO_DISK\<close> and changes nothing.
\<close>

theorem alloc_block_num_correct:
  assumes n: "uload (s_nblocks (super s)) s = Some n" "unat n \<le> 0x40000" and ok: "bitmap_ok s (unat n)"
  shows "(\<forall>b. 3 \<le> b \<and> b < unat n \<and> bit_free s b \<and> (\<forall>j. 3 \<le> j \<and> j < b \<longrightarrow> \<not> bit_free s j) \<longrightarrow>
      (\<exists>s'. alloc_block_num s = Some (Inr (word_of_nat b), s')
        \<and> (\<forall>j<unat n. bit_free s' j \<longleftrightarrow> bit_free s j \<and> j \<noteq> b)
        \<and> (\<forall>i. disk s' 0 i = (if i div BY2BLK = word_of_nat (b div 32768 + 2) then umem s' (DISKMAP + i) else disk s 0 i))
        \<and> vpt s' = vpt s \<and> vpd s' = vpd s))
    \<and> ((\<forall>b. 3 \<le> b \<and> b < unat n \<longrightarrow> \<not> bit_free s b) \<longrightarrow> alloc_block_num s = Some (Inl E_NO_DISK, s))"
proof (intro conjI allI impI)
  fix b
  assume b: "3 \<le> b \<and> b < unat n \<and> bit_free s b \<and> (\<forall>j. 3 \<le> j \<and> j < b \<longrightarrow> \<not> bit_free s j)"
  let ?c = "cleared b s"
  let ?s = "?c\<lparr>disk := (disk s)(0 := (\<lambda>i. if i div BY2BLK = word_of_nat (b div 32768 + 2) then umem ?c (DISKMAP + i) else disk s 0 i))\<rparr>"
  have "[3..<unat n] = [3..<b] @ b # [Suc b..<unat n]"
    using b by (metis conjunct1 conjunct2 le_Suc_ex less_imp_le upt_add_eq_append upt_conv_Cons)
  then have "alloc_block_num s = alloc_scan (b # [Suc b..<unat n]) s"
    using n(1) alloc_scan_skip [OF ok n(2), of "[3..<b]"] b by (simp add: alloc_block_num_def del: upt_conv_Cons)
  also have "\<dots> = Some (Inr (word_of_nat b), ?s)"
    by (rule alloc_scan_take [OF ok n(2)]) (use b in simp_all)
  finally have "alloc_block_num s = Some (Inr (word_of_nat b), ?s)" .
  moreover have "bit_free ?s j \<longleftrightarrow> bit_free s j \<and> j \<noteq> b" if "j < unat n" for j
    using cleared_free [OF ok n(2) _ that, of b] b by (simp add: bit_free_def)
  ultimately show "\<exists>s'. alloc_block_num s = Some (Inr (word_of_nat b), s')
        \<and> (\<forall>j<unat n. bit_free s' j \<longleftrightarrow> bit_free s j \<and> j \<noteq> b)
        \<and> (\<forall>i. disk s' 0 i = (if i div BY2BLK = word_of_nat (b div 32768 + 2) then umem s' (DISKMAP + i) else disk s 0 i))
        \<and> vpt s' = vpt s \<and> vpd s' = vpd s"
    by (intro exI [of _ ?s]) (simp add: cleared_def)
next
  assume "\<forall>b. 3 \<le> b \<and> b < unat n \<longrightarrow> \<not> bit_free s b"
  then show "alloc_block_num s = Some (Inl E_NO_DISK, s)"
    using n(1) alloc_scan_skip [OF ok n(2), of "[3..<unat n]" "[]"] by (simp add: alloc_block_num_def)
qed

definition cache2 :: fsst where
  "cache2 = cache1\<lparr>umem := (\<lambda>a. if a = 0x10001004 then 5 else if a = 0x10002000 then 0x18 else 0)\<rparr>"

lemma cache2_free: "b < 32 \<Longrightarrow> bit_free cache2 b \<longleftrightarrow> b = 3 \<or> b = 4"
proof -
  assume b: "b < 32"
  then have "b div 32 = 0" "b mod 32 = b" by simp_all
  moreover have "load_word (umem cache2) (bitmap cache2) = 0x18" by (simp add: cache2_def cache1_def load_word_def)
  ultimately have "bit_free cache2 b \<longleftrightarrow> bit (0x18 :: u32) b" by (simp add: bit_free_def)
  also have "\<dots> \<longleftrightarrow> b \<in> {3, 4}"
  proof -
    have "b \<in> set [0..<32]" using b by simp
    then show ?thesis by (simp add: upt_rec) auto
  qed
  finally show ?thesis by simp
qed

theorem alloc_block_num_correct_witness:
  "\<exists>s'. alloc_block_num cache2 = Some (Inr (word_of_nat 3), s')
    \<and> (\<forall>j<unat (5 :: u32). bit_free s' j \<longleftrightarrow> bit_free cache2 j \<and> j \<noteq> 3)
    \<and> (\<forall>i. disk s' 0 i = (if i div BY2BLK = word_of_nat (3 div 32768 + 2) then umem s' (DISKMAP + i) else disk cache2 0 i))
    \<and> vpt s' = vpt cache2 \<and> vpd s' = vpd cache2"
proof -
  have n: "uload (s_nblocks (super cache2)) cache2 = Some 5"
    by (simp add: cache2_def cache1_def uload_def load_word_def s_nblocks_def va_mapped_def pte_valid_def PTE_V_def PTE_D_def fs_defs)
  have ok: "bitmap_ok cache2 (unat (5 :: u32))"
    by (simp add: bitmap_ok_def cache2_def cache1_def va_writable_def va_mapped_def pte_valid_def PTE_V_def PTE_D_def fs_defs BY2PG_def)
  show ?thesis
    by (rule alloc_block_num_correct [OF n _ ok, THEN conjunct1, THEN spec, of 3, THEN mp]) (simp_all add: cache2_free)
qed

end
