(* ===== verification/Fat.thy ===== *)
theory Fat
  imports Fs
begin

text \<open>
  The FAT32 file system, \<open>fs/fatfs.c\<close>, in the address space of its server. The file allocation table is the array
  \<open>fats\<close> of words at \<open>DISKMAP\<close>; cluster \<open>n\<close> is cached from \<open>cluster2addr n\<close> on, behind the table; a \<open>struct Fat32_Dir *\<close>
  is an address and its fields are read at their offsets. The parameter block of the disk and the
  variables of \<open>struct Fat32_FS\<close> are records of the fields the code uses.

  Every access goes through the refill of the TLB: a page that is not mapped is allocated first (\<open>touch\<close>), which matters here because
  the code reads and transfers past the pages it has mapped. \<open>None\<close> is a call of \<open>user_panic\<close>, a failed assertion, a
  panic of the kernel, a division by zero, a store behind the end of a local array and a loop that does not end. The function
  \<open>fatfile_cluster_walk\<close> returns a pointer to one of its local variables; the result here is the value that
  variable has, which is what its caller reads before it calls anything else.

  Output with \<open>debugf\<close> is left out.
\<close>

section \<open>Data\<close>

definition FAT32_USED :: u32 where "FAT32_USED = 0xFFFFFFFF"
definition FAT32_FREE :: u32 where "FAT32_FREE = 0"
definition ATTR_DIRECTORY :: u8 where "ATTR_DIRECTORY = 0x10"
definition FATDIRBY2FILE :: u32 where "FATDIRBY2FILE = 64"
definition MAXFATNAMELEN :: nat where "MAXFATNAMELEN = 11"

record Fat32Bpb =
  BPB_BytsPerSec :: u16
  BPB_SecPerClus :: u8
  BPB_RsvdSecCnt :: u16
  BPB_NumFATs :: u8
  BPB_TotSec32 :: u32
  BPB_FATSz32 :: u32
  BPB_RootClus :: u32
  BPB_FSInfo :: u16

record Fat32_FS =
  bytsPerSector :: u16
  secPerClus :: u8
  rsvdSecs :: u16
  numFats :: u8
  secPerFat :: u32
  rootCluster :: u32
  dataStartSector :: u32
  bytsPerCluster :: u32
  root :: u32

record fatst = umach +
  ide :: "u32 \<Rightarrow> u32 \<Rightarrow> u8"
  fat32bpb :: Fat32Bpb
  fat32fs :: Fat32_FS

text \<open>The fields of \<open>struct Fat32_Dir\<close>.\<close>

definition DIR_Attr :: "u32 \<Rightarrow> u32" where "DIR_Attr f = f + 11"
definition DIR_FstClusHI :: "u32 \<Rightarrow> u32" where "DIR_FstClusHI f = f + 20"
definition DIR_FstClusLO :: "u32 \<Rightarrow> u32" where "DIR_FstClusLO f = f + 26"
definition DIR_FileSize :: "u32 \<Rightarrow> u32" where "DIR_FileSize f = f + 28"
definition DIR_dir :: "u32 \<Rightarrow> u32" where "DIR_dir f = f + 32"

section \<open>Memory and disk\<close>

definition touch :: "u32 \<Rightarrow> fatst \<Rightarrow> fatst option" where
  "touch va s = (
     if va_mapped va s then Some s
     else if va < UTEMP \<or> USTACKTOP \<le> va \<and> va < USTACKTOP + BY2PG \<or> UENVS \<le> va then None
     else case palloc s (requests s) of
       None \<Rightarrow> None
     | Some frame \<Rightarrow> Some (s\<lparr>requests := requests s + 1, umem := fill_page va (\<lambda>_. 0) (umem s),
         vpd := (vpd s)(PDX va := vpd s (PDX va) OR PTE_V), vpt := (vpt s)(VPN va := PTE_ADDR frame OR PTE_D OR PTE_V)\<rparr>))"

definition fload :: "u32 \<Rightarrow> fatst \<Rightarrow> (u32 \<times> fatst) option" where
  "fload va s = (if va AND 3 = 0 then do { s \<leftarrow> touch va s; Some (load_word (umem s) va, s) } else None)"

definition fstore :: "u32 \<Rightarrow> u32 \<Rightarrow> fatst \<Rightarrow> fatst option" where
  "fstore va x s = (
     if va AND 3 = 0 then do { s \<leftarrow> touch va s; if va_writable va s then Some (s\<lparr>umem := store_word va x (umem s)\<rparr>) else None } else None)"

definition fload8 :: "u32 \<Rightarrow> fatst \<Rightarrow> (u8 \<times> fatst) option" where
  "fload8 va s = do { s \<leftarrow> touch va s; Some (umem s va, s) }"

definition fstore8 :: "u32 \<Rightarrow> u8 \<Rightarrow> fatst \<Rightarrow> fatst option" where
  "fstore8 va b s = do { s \<leftarrow> touch va s; if va_writable va s then Some (s\<lparr>umem := (umem s)(va := b)\<rparr>) else None }"

primrec fstore_bytes :: "u32 \<Rightarrow> u8 list \<Rightarrow> fatst \<Rightarrow> fatst option" where
  "fstore_bytes va [] s = Some s"
| "fstore_bytes va (b # bs) s = do { s \<leftarrow> fstore8 va b s; fstore_bytes (va + 1) bs s }"

definition fload16 :: "u32 \<Rightarrow> fatst \<Rightarrow> (u16 \<times> fatst) option" where
  "fload16 va s = do { (a, s) \<leftarrow> fload8 va s; (b, s) \<leftarrow> fload8 (va + 1) s; Some (ucast a OR push_bit 8 (ucast b), s) }"

definition fstore16 :: "u32 \<Rightarrow> u16 \<Rightarrow> fatst \<Rightarrow> fatst option" where
  "fstore16 va x s = fstore_bytes va [ucast x, ucast (drop_bit 8 x)] s"

text \<open>\<open>ide_read\<close> and \<open>ide_write\<close> move sectors of \<open>BY2SECT\<close> bytes one after the other.\<close>

primrec touch_range :: "u32 \<Rightarrow> nat \<Rightarrow> fatst \<Rightarrow> fatst option" where
  "touch_range va 0 s = Some s"
| "touch_range va (Suc n) s = do { s \<leftarrow> touch va s; touch_range (va + 1) n s }"

definition read_sector :: "u32 \<Rightarrow> u32 \<Rightarrow> u32 \<Rightarrow> fatst \<Rightarrow> fatst option" where
  "read_sector diskno secno dst s = do {
     s \<leftarrow> touch_range dst (unat BY2SECT) s;
     if list_all (\<lambda>i. va_writable (dst + word_of_nat i) s) [0..<unat BY2SECT]
     then Some (s\<lparr>umem := (\<lambda>a. if a - dst < BY2SECT then ide s diskno (secno * BY2SECT + (a - dst)) else umem s a)\<rparr>)
     else None
   }"

definition write_sector :: "u32 \<Rightarrow> u32 \<Rightarrow> u32 \<Rightarrow> fatst \<Rightarrow> fatst option" where
  "write_sector diskno secno src s = do {
     s \<leftarrow> touch_range src (unat BY2SECT) s;
     Some (s\<lparr>ide := (ide s)(diskno := (\<lambda>i. if i - secno * BY2SECT < BY2SECT then umem s (src + (i - secno * BY2SECT)) else ide s diskno i))\<rparr>)
   }"

definition fat_read :: "u32 \<Rightarrow> u32 \<Rightarrow> u32 \<Rightarrow> u32 \<Rightarrow> fatst \<Rightarrow> fatst option" where
  "fat_read diskno secno dst nsecs =
     ofold (\<lambda>i. read_sector diskno (secno + word_of_nat i) (dst + word_of_nat i * BY2SECT)) [0..<unat nsecs]"

definition fat_write :: "u32 \<Rightarrow> u32 \<Rightarrow> u32 \<Rightarrow> u32 \<Rightarrow> fatst \<Rightarrow> fatst option" where
  "fat_write diskno secno src nsecs =
     ofold (\<lambda>i. write_sector diskno (secno + word_of_nat i) (src + word_of_nat i * BY2SECT)) [0..<unat nsecs]"

section \<open>Clusters\<close>

definition cluster2Sec :: "u32 \<Rightarrow> fatst \<Rightarrow> u32" where
  "cluster2Sec clusNo s = (clusNo - 2) * ucast (secPerClus (fat32fs s)) + dataStartSector (fat32fs s)"

definition addr2cluster :: "u32 \<Rightarrow> fatst \<Rightarrow> u32 option" where
  "addr2cluster addr s = (
     if bytsPerCluster (fat32fs s) = 0 then None else Some ((addr - DISKMAP - PDMAP) div bytsPerCluster (fat32fs s) + 2))"

definition cluster2addr :: "u32 \<Rightarrow> fatst \<Rightarrow> u32" where
  "cluster2addr clusno s = (clusno - 2) * bytsPerCluster (fat32fs s) + (DISKMAP + PDMAP)"

definition fatva_is_dirty :: "u32 \<Rightarrow> fatst \<Rightarrow> bool" where
  "fatva_is_dirty va s \<longleftrightarrow> vpt s (VPN va) AND PTE_DIRTY \<noteq> 0"

definition fatva_is_mapped :: "u32 \<Rightarrow> fatst \<Rightarrow> bool" where
  "fatva_is_mapped va s \<longleftrightarrow> pte_valid (vpd s (PDX va)) \<and> pte_valid (vpt s (VPN va))"

text \<open>The pages of a cluster that is larger than a page.\<close>

definition cluster_pages :: "u32 \<Rightarrow> fatst \<Rightarrow> u32 list" where
  "cluster_pages va s = map (\<lambda>i. va + word_of_nat i * BY2PG) [0..<unat (bytsPerCluster (fat32fs s) div BY2PG)]"

definition cluster_is_dirty :: "u32 \<Rightarrow> fatst \<Rightarrow> bool" where
  "cluster_is_dirty clusno s = (
     let va = cluster2addr clusno s
     in if bytsPerCluster (fat32fs s) \<le> BY2PG then fatva_is_mapped va s \<and> fatva_is_dirty va s
        else list_ex (\<lambda>va. fatva_is_mapped va s \<and> fatva_is_dirty va s) (cluster_pages va s))"

primrec dirty_pages :: "u32 list \<Rightarrow> fatst \<Rightarrow> (err + unit) \<times> fatst" where
  "dirty_pages [] s = (Inr (), s)"
| "dirty_pages (va # vas) s = (
     if \<not> fatva_is_mapped va s then (Inl E_NOT_FOUND, s)
     else if fatva_is_dirty va s then dirty_pages vas s
     else case syscall_mem_remap va (PTE_D OR PTE_DIRTY) s of
       (Inl e, s) \<Rightarrow> (Inl e, s)
     | (Inr _, s) \<Rightarrow> dirty_pages vas s)"

definition dirty_cluster :: "u32 \<Rightarrow> fatst \<Rightarrow> (err + unit) \<times> fatst" where
  "dirty_cluster clusno s = (
     let va = cluster2addr clusno s
     in if bytsPerCluster (fat32fs s) \<le> BY2PG then
          if \<not> fatva_is_mapped va s then (Inl E_NOT_FOUND, s)
          else if fatva_is_dirty va s then (Inr (), s)
          else syscall_mem_remap va (PTE_D OR PTE_DIRTY) s
        else dirty_pages (cluster_pages va s) s)"

text \<open>\<open>None\<close> is the null pointer here.\<close>

definition cluster_is_mapped :: "u32 \<Rightarrow> fatst \<Rightarrow> u32 option" where
  "cluster_is_mapped clusno s = (
     let va = cluster2addr clusno s
     in if bytsPerCluster (fat32fs s) \<le> BY2PG then if fatva_is_mapped va s then Some va else None
        else if list_all (\<lambda>va. fatva_is_mapped va s) (cluster_pages va s) then Some va else None)"

definition write_cluster :: "u32 \<Rightarrow> fatst \<Rightarrow> fatst option" where
  "write_cluster clusno s = (
     if cluster_is_mapped clusno s = None then None
     else fat_write 1 (cluster2Sec clusno s) (cluster2addr clusno s) (ucast (secPerClus (fat32fs s))) s)"

text \<open>The loop of \<open>map_cluster\<close>; when page \<open>i\<close> cannot be had, the pages \<open>i\<close> down to 1 are unmapped.\<close>

primrec map_cluster_pages :: "u32 \<Rightarrow> nat list \<Rightarrow> fatst \<Rightarrow> (err + unit) \<times> fatst" where
  "map_cluster_pages start [] s = (Inr (), s)"
| "map_cluster_pages start (i # is) s = (
     let addr = start + word_of_nat i * BY2PG
     in if fatva_is_mapped addr s then map_cluster_pages start is s
        else case syscall_mem_alloc addr PTE_D s of
          (Inl e, s) \<Rightarrow> (Inl e, fold (\<lambda>j s. snd (syscall_mem_unmap (addr - word_of_nat j * BY2PG) s)) [0..<i] s)
        | (Inr _, s) \<Rightarrow> map_cluster_pages start is s)"

text \<open>\<open>ide_read\<close> is given the number of bytes of a cluster as the number of sectors.\<close>

definition map_cluster :: "u32 \<Rightarrow> fatst \<Rightarrow> ((err + unit) \<times> fatst) option" where
  "map_cluster clusno s = (
     let addr = cluster2addr clusno s;
         bytes = bytsPerCluster (fat32fs s);
         n = unat (bytes div BY2PG)
     in if bytes > BY2PG then
          (case map_cluster_pages addr [0..<n] s of
             (Inl e, s) \<Rightarrow> Some (Inl e, s)
           | (Inr _, s) \<Rightarrow> do {
               s \<leftarrow> fat_read 1 (cluster2Sec clusno s) (addr + word_of_nat n * BY2PG - bytes) bytes s;
               Some (Inr (), s)
             })
        else if fatva_is_mapped addr s then Some (Inr (), s)
        else
          (case syscall_mem_alloc addr PTE_D s of
             (Inl e, s) \<Rightarrow> Some (Inl e, snd (syscall_mem_unmap addr s))
           | (Inr _, s) \<Rightarrow> do { s \<leftarrow> fat_read 1 (cluster2Sec clusno s) addr bytes s; Some (Inr (), s) }))"

section \<open>The table\<close>

definition fat_entry :: "u32 \<Rightarrow> u32" where
  "fat_entry clusno = DISKMAP + 4 * clusno"

definition cluster_is_free :: "u32 \<Rightarrow> fatst \<Rightarrow> (bool \<times> fatst) option" where
  "cluster_is_free clusno s = do { (e, s) \<leftarrow> fload (fat_entry clusno) s; Some (e = FAT32_FREE, s) }"

definition free_cluster :: "u32 \<Rightarrow> fatst \<Rightarrow> fatst option" where
  "free_cluster clusno s = fstore (fat_entry clusno) FAT32_FREE s"

text \<open>The entries of the clusters that make up a page, linked in order.\<close>

definition link_page :: "u32 \<Rightarrow> nat \<Rightarrow> fatst \<Rightarrow> fatst option" where
  "link_page clusno n = ofold (\<lambda>i.
     fstore (fat_entry (clusno + word_of_nat i)) (if i < n - 1 then clusno + word_of_nat i + 1 else FAT32_USED)) [0..<n]"

primrec alloc_cluster_scan :: "nat list \<Rightarrow> fatst \<Rightarrow> ((err + u32) \<times> fatst) option" where
  "alloc_cluster_scan [] s = Some (Inl E_NO_DISK, s)"
| "alloc_cluster_scan (c # cs) s = do {
     (e, s) \<leftarrow> fload (fat_entry (word_of_nat c)) s;
     if e = 0 then
       let bytes = bytsPerCluster (fat32fs s)
       in if bytes \<ge> BY2PG then do { s \<leftarrow> fstore (fat_entry (word_of_nat c)) FAT32_USED s; Some (Inr (word_of_nat c), s) }
          else if bytes = 0 then None
          else do { s \<leftarrow> link_page (word_of_nat c) (unat (BY2PG div bytes)) s; Some (Inr (word_of_nat c), s) }
     else alloc_cluster_scan cs s
   }"

definition alloc_cluster_num :: "fatst \<Rightarrow> ((err + u32) \<times> fatst) option" where
  "alloc_cluster_num s = alloc_cluster_scan [2..<unat (BPB_TotSec32 (fat32bpb s))] s"

definition alloc_cluster :: "fatst \<Rightarrow> ((err + u32) \<times> fatst) option" where
  "alloc_cluster s = do {
     (r, s) \<leftarrow> alloc_cluster_num s;
     on_ok (r, s) (\<lambda>clusno s. do {
       (r, s) \<leftarrow> map_cluster clusno s;
       (case r of
          Inl e \<Rightarrow> do { s \<leftarrow> free_cluster clusno s; Some (Inl e, s) }
        | Inr _ \<Rightarrow> Some (Inr clusno, s))
     })
   }"

definition unmap_cluster :: "u32 \<Rightarrow> fatst \<Rightarrow> fatst option" where
  "unmap_cluster clusno s = do {
     let va = (case cluster_is_mapped clusno s of None \<Rightarrow> 0 | Some va \<Rightarrow> va);
     (free, s) \<leftarrow> cluster_is_free clusno s;
     s \<leftarrow> (if \<not> free \<and> cluster_is_dirty clusno s then write_cluster clusno s else Some s);
     let vas = (if bytsPerCluster (fat32fs s) > BY2PG then cluster_pages va s else [va]);
     let s = fold (\<lambda>va s. snd (syscall_mem_unmap va s)) vas s;
     if cluster_is_mapped clusno s = None then Some s else None
   }"

text \<open>The number of clusters that the code compares with.\<close>

definition max_cluster :: "fatst \<Rightarrow> u32 option" where
  "max_cluster s = (
     if secPerClus (fat32fs s) = 0 then None else Some (BPB_TotSec32 (fat32bpb s) div ucast (secPerClus (fat32fs s))))"

definition read_cluster :: "u32 \<Rightarrow> fatst \<Rightarrow> (u32 \<times> fatst) option" where
  "read_cluster clusno s = do {
     n \<leftarrow> max_cluster s;
     if clusno \<ge> n \<or> clusno < 2 then None
     else do {
       let addr = cluster2addr clusno s;
       s \<leftarrow> (if cluster_is_mapped clusno s \<noteq> None then Some s
            else fat_read 1 (cluster2Sec clusno s) addr (ucast (secPerClus (fat32fs s))) (snd (syscall_mem_alloc addr PTE_D s)));
       Some (addr, s)
     }
   }"

section \<open>Start\<close>

definition reInitFat :: "fatst \<Rightarrow> fatst option" where
  "reInitFat s = do {
     s \<leftarrow> fstore (fat_entry 1) FAT32_USED s;
     s \<leftarrow> fstore (fat_entry 0) FAT32_USED s;
     ofold (\<lambda>i. fstore (fat_entry (word_of_nat i)) FAT32_FREE) [2..<unat (BPB_TotSec32 (fat32bpb s))] s
   }"

text \<open>\<open>u_int clusno = alloc_cluster ()\<close>: an error code becomes a large number.\<close>

definition cluster_value :: "err + u32 \<Rightarrow> u32" where
  "cluster_value r = (case r of Inl e \<Rightarrow> - errno e | Inr c \<Rightarrow> c)"

definition set_first_cluster :: "u32 \<Rightarrow> u32 \<Rightarrow> fatst \<Rightarrow> fatst option" where
  "set_first_cluster f clusno s = do {
     s \<leftarrow> fstore16 (DIR_FstClusHI f) (ucast (drop_bit 16 clusno)) s;
     fstore16 (DIR_FstClusLO f) (ucast clusno) s
   }"

definition addTestFile :: "fatst \<Rightarrow> fatst option" where
  "addTestFile s = do {
     let dirs = root (fat32fs s) + FATDIRBY2FILE;
     s \<leftarrow> fstore_bytes dirs [102, 105, 108, 101, 49, 0] s;
     (r, s) \<leftarrow> alloc_cluster s;
     let clusno = cluster_value r;
     s \<leftarrow> set_first_cluster dirs clusno s;
     s \<leftarrow> fstore (DIR_FileSize dirs) BY2PG s;
     fstore_bytes (cluster2addr clusno s) (replicate 28 49 @ [0]) s
   }"

definition reInitRootDir :: "fatst \<Rightarrow> fatst option" where
  "reInitRootDir s = do {
     s \<leftarrow> reInitFat s;
     let dir = DISKMAP + PDMAP;
     s \<leftarrow> fstore_bytes dir [47, 114, 111, 111, 116, 50, 0] s;
     s \<leftarrow> fstore8 (DIR_Attr dir) ATTR_DIRECTORY s;
     s \<leftarrow> fstore (DIR_FileSize dir) 0 s;
     s \<leftarrow> fstore (fat_entry 2) 0 s;
     (r, s) \<leftarrow> alloc_cluster s;
     s \<leftarrow> set_first_cluster dir (cluster_value r) s;
     s \<leftarrow> fstore (DIR_FileSize dir) BY2PG s;
     s \<leftarrow> addTestFile s;
     fat_write 1 (dataStartSector (fat32fs s)) dir 1 s
   }"

definition initRootDir :: "fatst \<Rightarrow> fatst option" where
  "initRootDir s = do {
     let addr = cluster2addr 2 s;
     (_, s) \<leftarrow> map_cluster 2 s;
     s \<leftarrow> fat_read 1 (dataStartSector (fat32fs s)) addr 1 s;
     let s = s\<lparr>fat32fs := (fat32fs s)\<lparr>root := addr\<rparr>\<rparr>;
     (c, s) \<leftarrow> fload8 addr s;
     if c = 0 then reInitRootDir s else Some s
   }"

definition initFs :: "fatst \<Rightarrow> fatst" where
  "initFs s = (
     let b = fat32bpb s
     in s\<lparr>fat32fs := (fat32fs s)\<lparr>
          bytsPerSector := BPB_BytsPerSec b,
          dataStartSector := ucast (BPB_RsvdSecCnt b) + ucast (BPB_NumFATs b) * BPB_FATSz32 b,
          numFats := BPB_NumFATs b,
          rootCluster := BPB_RootClus b,
          rsvdSecs := BPB_RsvdSecCnt b,
          secPerClus := BPB_SecPerClus b,
          secPerFat := BPB_FATSz32 b,
          bytsPerCluster := ucast (BPB_BytsPerSec b) * ucast (BPB_SecPerClus b)\<rparr>\<rparr>)"

text \<open>The pages of the table: \<open>secCnt / blo2sec\<close> of them, a signed division.\<close>

definition fat_page_count :: "fatst \<Rightarrow> (nat \<times> u32) option" where
  "fat_page_count s = (
     if bytsPerSector (fat32fs s) = 0 then None
     else
       let blo2sec = BY2PG div ucast (bytsPerSector (fat32fs s));
           secCnt = dataStartSector (fat32fs s) - ucast (rsvdSecs (fat32fs s))
       in if blo2sec = 0 then None
          else Some (if sint secCnt < 0 then 0 else nat (sint secCnt) div unat blo2sec, blo2sec))"

definition readAndMapFat :: "fatst \<Rightarrow> fatst option" where
  "readAndMapFat s = do {
     (n, blo2sec) \<leftarrow> fat_page_count s;
     ofold (\<lambda>i s.
       let va = DISKMAP + word_of_nat i * BY2PG
       in case syscall_mem_alloc va (PTE_D OR PTE_LIBRARY) s of
            (Inl e, s) \<Rightarrow> None
          | (Inr _, s) \<Rightarrow> fat_read 1 (ucast (rsvdSecs (fat32fs s)) + word_of_nat i * blo2sec) va blo2sec s) [0..<n] s
   }"

definition writeBackFat :: "fatst \<Rightarrow> fatst option" where
  "writeBackFat s = do {
     (n, blo2sec) \<leftarrow> fat_page_count s;
     ofold (\<lambda>i s. do {
       let va = DISKMAP + word_of_nat i * BY2PG;
       s \<leftarrow> fat_write 1 (ucast (rsvdSecs (fat32fs s)) + word_of_nat i * blo2sec) va blo2sec s;
       (case syscall_mem_unmap va s of (Inl e, s) \<Rightarrow> None | (Inr _, s) \<Rightarrow> Some s)
     }) [0..<n] s
   }"

text \<open>The fields of the parameter block in sector 0. The sector of \<open>fsinfo\<close>, which nothing uses, is not read here.\<close>

definition disk16 :: "(u32 \<Rightarrow> u8) \<Rightarrow> u32 \<Rightarrow> u16" where
  "disk16 d a = ucast (d a) OR push_bit 8 (ucast (d (a + 1)))"

definition parse_bpb :: "(u32 \<Rightarrow> u8) \<Rightarrow> Fat32Bpb" where
  "parse_bpb d = \<lparr>BPB_BytsPerSec = disk16 d 11, BPB_SecPerClus = d 13, BPB_RsvdSecCnt = disk16 d 14, BPB_NumFATs = d 16,
     BPB_TotSec32 = load_word d 32, BPB_FATSz32 = load_word d 36, BPB_RootClus = load_word d 44, BPB_FSInfo = disk16 d 48\<rparr>"

definition readInfo :: "fatst \<Rightarrow> fatst option" where
  "readInfo s = do {
     let s = s\<lparr>fat32bpb := parse_bpb (ide s 1)\<rparr>;
     let s = initFs s;
     s \<leftarrow> readAndMapFat s;
     initRootDir s
   }"

section \<open>Files\<close>

definition first_cluster :: "u32 \<Rightarrow> fatst \<Rightarrow> (u32 \<times> fatst) option" where
  "first_cluster f s = do {
     (hi, s) \<leftarrow> fload16 (DIR_FstClusHI f) s;
     (lo, s) \<leftarrow> fload16 (DIR_FstClusLO f) s;
     Some (push_bit 16 (ucast hi) OR ucast lo, s)
   }"

primrec walk_chain :: "u32 \<Rightarrow> bool \<Rightarrow> u32 \<Rightarrow> nat list \<Rightarrow> u32 \<Rightarrow> fatst \<Rightarrow> ((err + u32) \<times> fatst) option" where
  "walk_chain f alloc fileclusno [] curClus s = Some (Inr curClus, s)"
| "walk_chain f alloc fileclusno (i # is) curClus s = do {
     (used, s) \<leftarrow> (if word_of_nat i < fileclusno - 1 then do { (e, s) \<leftarrow> fload (fat_entry curClus) s; Some (e = FAT32_USED, s) }
                   else Some (False, s));
     if used \<and> \<not> alloc then Some (Inl E_NOT_FOUND, s)
     else do {
       s \<leftarrow> (if used then do {
              (first, s) \<leftarrow> first_cluster f s;
              (r, s) \<leftarrow> alloc_cluster s;
              if first = 0 then do {
                s \<leftarrow> fstore16 (DIR_FstClusLO f) (ucast (cluster_value r)) s;
                fstore16 (DIR_FstClusHI f) (ucast (drop_bit 16 (cluster_value r))) s
              }
              else fstore (fat_entry curClus) (cluster_value r) s
            } else Some s);
       (e, s) \<leftarrow> fload (fat_entry curClus) s;
       walk_chain f alloc fileclusno is e s
     }
   }"

definition fatfile_cluster_walk :: "u32 \<Rightarrow> u32 \<Rightarrow> bool \<Rightarrow> fatst \<Rightarrow> ((err + u32) \<times> fatst) option" where
  "fatfile_cluster_walk f fileclusno alloc s = do {
     (curClus, s) \<leftarrow> first_cluster f s;
     walk_chain f alloc fileclusno [0..<unat fileclusno] curClus s
   }"

definition fatfile_map_cluster :: "u32 \<Rightarrow> u32 \<Rightarrow> bool \<Rightarrow> fatst \<Rightarrow> ((err + u32) \<times> fatst) option" where
  "fatfile_map_cluster f fileclusno alloc s = do {
     (r, s) \<leftarrow> fatfile_cluster_walk f fileclusno alloc s;
     on_ok (r, s) (\<lambda>clus s.
       if clus \<noteq> 0 then Some (Inr clus, s)
       else if \<not> alloc then Some (Inl E_NOT_FOUND, s)
       else do {
         (r, s) \<leftarrow> alloc_cluster s;
         on_ok (r, s) (\<lambda>clus s. do {
           (first, s) \<leftarrow> first_cluster f s;
           s \<leftarrow> (if first = 0 then set_first_cluster f clus s else Some s);
           Some (Inr clus, s)
         })
       })
   }"

definition fatread_block :: "u32 \<Rightarrow> u32 \<Rightarrow> fatst \<Rightarrow> (u32 \<times> fatst) option" where
  "fatread_block clusno inbno s = do {
     n \<leftarrow> max_cluster s;
     if clusno \<ge> n \<or> clusno < 2 then None
     else do {
       s \<leftarrow> (if cluster_is_mapped clusno s \<noteq> None then Some s else map_option snd (map_cluster clusno s));
       let blk = cluster2addr clusno s + BY2PG * inbno;
       Some (blk, snd (dirty_cluster clusno s))
     }
   }"

text \<open>A cluster of at least a page divides by \<open>bytsPerSector / BY2PG\<close>.\<close>

definition block_position :: "u32 \<Rightarrow> fatst \<Rightarrow> (u32 \<times> u32) option" where
  "block_position filebno s = (
     let bytes = bytsPerCluster (fat32fs s)
     in if bytes < BY2PG then
          if bytes = 0 then None else Some (filebno * (BY2PG div bytes), 0)
        else
          let secpages = ucast (bytsPerSector (fat32fs s)) div BY2PG
          in if secpages = 0 then None else Some (filebno div (bytes div BY2PG), filebno mod secpages))"

definition fatfile_get_block :: "u32 \<Rightarrow> u32 \<Rightarrow> fatst \<Rightarrow> ((err + u32) \<times> fatst) option" where
  "fatfile_get_block f filebno s = do {
     (fileclusno, inbno) \<leftarrow> block_position filebno s;
     (r, s) \<leftarrow> fatfile_map_cluster f fileclusno True s;
     on_ok (r, s) (\<lambda>clusno s. do { (blk, s) \<leftarrow> fatread_block clusno inbno s; Some (Inr blk, s) })
   }"

definition fatfile_get_cluster :: "u32 \<Rightarrow> u32 \<Rightarrow> fatst \<Rightarrow> ((err + u32) \<times> fatst) option" where
  "fatfile_get_cluster f fileclusno s = do {
     (r, s) \<leftarrow> fatfile_map_cluster f fileclusno True s;
     on_ok (r, s) (\<lambda>clusno s. do { (blk, s) \<leftarrow> read_cluster clusno s; Some (Inr blk, s) })
   }"

section \<open>Directories\<close>

definition dir_entries :: "u32 \<Rightarrow> fatst \<Rightarrow> u32 list" where
  "dir_entries blk s = map (\<lambda>j. blk + word_of_nat j * FATDIRBY2FILE) [0..<unat (bytsPerCluster (fat32fs s) div FATDIRBY2FILE)]"

definition dir_clusters :: "u32 \<Rightarrow> fatst \<Rightarrow> (u32 \<times> fatst) option" where
  "dir_clusters dir s = do {
     (size, s) \<leftarrow> fload (DIR_FileSize dir) s;
     if bytsPerCluster (fat32fs s) = 0 then None else Some (size div bytsPerCluster (fat32fs s), s)
   }"

primrec fatdir_scan :: "u32 \<Rightarrow> u8 list \<Rightarrow> nat list \<Rightarrow> fatst \<Rightarrow> ((err + u32) \<times> fatst) option" where
  "fatdir_scan dir name [] s = Some (Inl E_NOT_FOUND, s)"
| "fatdir_scan dir name (i # is) s = do {
     (r, s) \<leftarrow> fatfile_get_cluster dir (word_of_nat i) s;
     on_ok (r, s) (\<lambda>blk s.
       case find (str_matches name (umem s)) (dir_entries blk s) of
         None \<Rightarrow> fatdir_scan dir name is s
       | Some f \<Rightarrow> do {
           s \<leftarrow> fstore (DIR_dir f) dir s;
           c \<leftarrow> addr2cluster blk s;
           Some (Inr f, snd (dirty_cluster c s))
         })
   }"

definition fatdir_lookup :: "u32 \<Rightarrow> u8 list \<Rightarrow> fatst \<Rightarrow> ((err + u32) \<times> fatst) option" where
  "fatdir_lookup dir name s = do { (n, s) \<leftarrow> dir_clusters dir s; fatdir_scan dir name [0..<unat n] s }"

primrec fatdir_free_entry :: "u32 \<Rightarrow> nat list \<Rightarrow> fatst \<Rightarrow> ((err + u32 option) \<times> fatst) option" where
  "fatdir_free_entry dir [] s = Some (Inr None, s)"
| "fatdir_free_entry dir (i # is) s = do {
     (r, s) \<leftarrow> fatfile_get_cluster dir (word_of_nat i) s;
     on_ok (r, s) (\<lambda>blk s.
       case find (\<lambda>f. umem s f = 0) (dir_entries blk s) of
         None \<Rightarrow> fatdir_free_entry dir is s
       | Some f \<Rightarrow> Some (Inr (Some f), s))
   }"

definition fatdir_alloc_file :: "u32 \<Rightarrow> fatst \<Rightarrow> ((err + u32) \<times> fatst) option" where
  "fatdir_alloc_file dir s = do {
     (n, s) \<leftarrow> dir_clusters dir s;
     (r, s) \<leftarrow> fatdir_free_entry dir [0..<unat n] s;
     on_ok (r, s) (\<lambda>x s.
       case x of
         Some f \<Rightarrow> Some (Inr f, s)
       | None \<Rightarrow> do {
           (size, s) \<leftarrow> fload (DIR_FileSize dir) s;
           s \<leftarrow> fstore (DIR_FileSize dir) (size + (if bytsPerCluster (fat32fs s) \<ge> BY2PG then ucast (bytsPerSector (fat32fs s)) else BY2PG)) s;
           fatfile_get_cluster dir n s
         })
   }"

text \<open>The loop of \<open>fatwalk_path\<close>, as in \<open>walk_path\<close> of \<open>fs/fs.c\<close>.\<close>

function fatwalk_loop :: "u8 list \<Rightarrow> u32 \<Rightarrow> u32 \<Rightarrow> fatst \<Rightarrow> (((err + u32) \<times> u32 \<times> u8 list) \<times> fatst) option" where
  "fatwalk_loop path dir file s = (
     if path = [] then Some ((Inr file, dir, []), s)
     else
       let name = takeWhile (\<lambda>c. c \<noteq> 47) path;
           path = skip_slash (dropWhile (\<lambda>c. c \<noteq> 47) path)
       in if length name \<ge> MAXNAMELEN then Some ((Inl E_BAD_PATH, 0, []), s)
          else do {
            (attr, s) \<leftarrow> fload8 (DIR_Attr file) s;
            if attr \<noteq> ATTR_DIRECTORY then Some ((Inl E_NOT_FOUND, 0, []), s)
            else do {
              (r, s) \<leftarrow> fatdir_lookup file name s;
              (case r of
                 Inr file' \<Rightarrow> fatwalk_loop path file file' s
               | Inl e \<Rightarrow> Some (if e = E_NOT_FOUND \<and> path = [] then ((Inl e, file, name), s) else ((Inl e, 0, []), s)))
            }
          })"
  by pat_completeness auto
termination
  by (relation "measure (\<lambda>(path, _). length path)") (auto intro: next_component_shorter)

definition fatwalk_path :: "u8 list \<Rightarrow> fatst \<Rightarrow> (((err + u32) \<times> u32 \<times> u8 list) \<times> fatst) option" where
  "fatwalk_path path s = (
     if length path < ROOTDIR_NAMELEN then None
     else fatwalk_loop (skip_slash (drop ROOTDIR_NAMELEN path)) 0 (root (fat32fs s)) s)"

definition fatfile_dirty :: "u32 \<Rightarrow> u32 \<Rightarrow> fatst \<Rightarrow> ((err + unit) \<times> fatst) option" where
  "fatfile_dirty f offset s = (
     if bytsPerCluster (fat32fs s) = 0 then None
     else do {
       (r, s) \<leftarrow> fatfile_map_cluster f (offset div bytsPerCluster (fat32fs s)) False s;
       on_ok (r, s) (\<lambda>clusno s. Some (dirty_cluster clusno s))
     })"

definition fatfile_open :: "u8 list \<Rightarrow> fatst \<Rightarrow> ((err + u32) \<times> fatst) option" where
  "fatfile_open path s = map_option (\<lambda>((r, _, _), s). (r, s)) (fatwalk_path path s)"

text \<open>The last component is copied into an array of \<open>MAXFATNAMELEN\<close> bytes.\<close>

definition fatfile_create :: "u8 list \<Rightarrow> fatst \<Rightarrow> ((err + u32) \<times> fatst) option" where
  "fatfile_create path s = do {
     ((r, dir, name), s) \<leftarrow> fatwalk_path path s;
     if length name \<ge> MAXFATNAMELEN then None
     else (case r of
        Inr _ \<Rightarrow> Some (Inl E_FILE_EXISTS, s)
      | Inl e \<Rightarrow>
          if e \<noteq> E_NOT_FOUND \<or> dir = 0 then Some (Inl e, s)
          else do {
            (r, s) \<leftarrow> fatdir_alloc_file dir s;
            (case r of
               Inl _ \<Rightarrow> Some (Inl e, s)
             | Inr f \<Rightarrow> do { s \<leftarrow> fstore_bytes f (name @ [0]) s; Some (Inr f, s) })
          })
   }"

section \<open>Truncation, flushing and removal\<close>

definition next_cluster :: "nat \<Rightarrow> u32 \<times> fatst \<Rightarrow> (u32 \<times> fatst) option" where
  "next_cluster i = (\<lambda>(c, s). fload (fat_entry c) s)"

definition drop_cluster :: "nat \<Rightarrow> u32 \<times> fatst \<Rightarrow> (u32 \<times> fatst) option" where
  "drop_cluster i = (\<lambda>(c, s). do {
     (t, s) \<leftarrow> fload (fat_entry c) s;
     s \<leftarrow> fstore (fat_entry c) FAT32_FREE s;
     Some (t, s)
   })"

definition cluster_count :: "u32 \<Rightarrow> u32 \<Rightarrow> u32" where
  "cluster_count bytes sz = sz div bytes + 2 + (if sz mod bytes \<noteq> 0 then 1 else 0)"

definition fatfile_truncate :: "u32 \<Rightarrow> u32 \<Rightarrow> fatst \<Rightarrow> fatst option" where
  "fatfile_truncate f newsize s = (
     let bytes = bytsPerCluster (fat32fs s)
     in if bytes = 0 then None
        else do {
          (size, s) \<leftarrow> fload (DIR_FileSize f) s;
          let old_nclus = cluster_count bytes size;
          let new_nclus = (if newsize = 0 then 0 else cluster_count bytes newsize);
          (clusno, s) \<leftarrow> first_cluster f s;
          s \<leftarrow> (if new_nclus \<le> old_nclus then do {
                 (clusno, s) \<leftarrow> ofold next_cluster [0..<unat new_nclus] (clusno, s);
                 (t, s) \<leftarrow> fload (fat_entry clusno) s;
                 s \<leftarrow> fstore (fat_entry clusno) FAT32_USED s;
                 (_, s) \<leftarrow> ofold drop_cluster [unat new_nclus..<Suc (unat old_nclus)] (t, s);
                 Some s
               } else Some s);
          fstore (DIR_FileSize f) newsize s
        })"

text \<open>\<open>flushed\<close> is \<open>flushedClus[0..cnt-1]\<close>, an array of 128 numbers.\<close>

partial_function (option) fat_flush_loop :: "u32 \<Rightarrow> u32 list \<Rightarrow> u32 \<Rightarrow> fatst \<Rightarrow> fatst option" where
  "fat_flush_loop n flushed clusno s = do {
     let sec = ROUNDDOWN (clusno * 4) BY2PG div BY2PG;
     (flushed, s) \<leftarrow>
       (if sec \<in> set flushed then Some (flushed, s)
        else if length flushed \<ge> 128 then None
        else do {
          s \<leftarrow> fat_write 1 (ucast (rsvdSecs (fat32fs s)) + sec) (DISKMAP + sec * ucast (bytsPerSector (fat32fs s))) 1 s;
          Some (flushed @ [sec], s)
        });
     (clusno, s) \<leftarrow> fload (fat_entry clusno) s;
     if clusno > n then Some s else fat_flush_loop n flushed clusno s
   }"

definition fat_flush :: "u32 \<Rightarrow> fatst \<Rightarrow> fatst option" where
  "fat_flush f s = do {
     (clusno, s) \<leftarrow> first_cluster f s;
     if clusno = FAT32_FREE then Some s
     else do { n \<leftarrow> max_cluster s; fat_flush_loop n [] clusno s }
   }"

definition fatflush_step :: "u32 \<Rightarrow> nat \<Rightarrow> fatst \<Rightarrow> fatst option" where
  "fatflush_step f i s = do {
     (r, s) \<leftarrow> fatfile_map_cluster f (word_of_nat i) False s;
     (case r of
        Inl e \<Rightarrow> Some s
      | Inr clusno \<Rightarrow> if cluster_is_dirty clusno s then write_cluster clusno s else Some s)
   }"

definition fatfile_flush :: "u32 \<Rightarrow> fatst \<Rightarrow> fatst option" where
  "fatfile_flush f s = do {
     (size, s) \<leftarrow> fload (DIR_FileSize f) s;
     let bytes = bytsPerCluster (fat32fs s);
     if bytes = 0 then None
     else do {
       let nclus = size div bytes + (if size mod bytes \<noteq> 0 then 1 else 0);
       s \<leftarrow> ofold (fatflush_step f) [0..<unat nclus] s;
       fat_flush f s
     }
   }"

definition fatflush_dir :: "u32 \<Rightarrow> fatst \<Rightarrow> fatst option" where
  "fatflush_dir f s = do { (dir, s) \<leftarrow> fload (DIR_dir f) s; if dir \<noteq> 0 then fatfile_flush dir s else Some s }"

definition fatfile_set_size :: "u32 \<Rightarrow> u32 \<Rightarrow> fatst \<Rightarrow> fatst option" where
  "fatfile_set_size f newsize s = do {
     let bytes = bytsPerCluster (fat32fs s);
     let sz = (if bytes < BY2PG then ROUND newsize BY2PG else ROUND newsize bytes);
     (old, s) \<leftarrow> fload (DIR_FileSize f) s;
     s \<leftarrow> (if old > sz then fatfile_truncate f sz s else Some s);
     s \<leftarrow> fstore (DIR_FileSize f) sz s;
     fatflush_dir f s
   }"

definition fatsync_step :: "nat \<Rightarrow> fatst \<Rightarrow> fatst option" where
  "fatsync_step i s = (if cluster_is_dirty (word_of_nat i) s then write_cluster (word_of_nat i) s else Some s)"

definition fatfs_sync :: "fatst \<Rightarrow> fatst option" where
  "fatfs_sync s = do { n \<leftarrow> max_cluster s; ofold fatsync_step [2..<unat n] s }"

definition fatfile_close :: "u32 \<Rightarrow> fatst \<Rightarrow> fatst option" where
  "fatfile_close f s = do { s \<leftarrow> fatfile_flush f s; fatflush_dir f s }"

definition syncFat :: "fatst \<Rightarrow> fatst option" where
  "syncFat s = fat_write 1 (ucast (rsvdSecs (fat32fs s))) DISKMAP (BPB_FATSz32 (fat32bpb s)) s"

partial_function (option) free_chain :: "u32 \<Rightarrow> fatst \<Rightarrow> fatst option" where
  "free_chain cluno s = do {
     (t, s) \<leftarrow> fload (fat_entry cluno) s;
     s \<leftarrow> fstore (fat_entry cluno) FAT32_FREE s;
     if t = FAT32_USED then Some s else free_chain t s
   }"

definition deleteUpdateFat :: "u32 \<Rightarrow> fatst \<Rightarrow> fatst option" where
  "deleteUpdateFat f s = do {
     (cluno, s) \<leftarrow> first_cluster f s;
     s \<leftarrow> free_chain cluno s;
     s \<leftarrow> syncFat s;
     s \<leftarrow> fstore16 (DIR_FstClusHI f) 0 s;
     fstore16 (DIR_FstClusLO f) 0 s
   }"

definition fatfile_remove :: "u8 list \<Rightarrow> fatst \<Rightarrow> ((err + unit) \<times> fatst) option" where
  "fatfile_remove path s = do {
     ((r, _, _), s) \<leftarrow> fatwalk_path path s;
     on_ok (r, s) (\<lambda>f s. do {
       s \<leftarrow> fatfile_truncate f 0 s;
       s \<leftarrow> fstore8 f 0 s;
       s \<leftarrow> deleteUpdateFat f s;
       s \<leftarrow> fatflush_dir f s;
       Some (Inr (), s)
     })
   }"

end
