(* ===== verification/Serv.thy ===== *)
theory Serv
  imports Fs
begin

text \<open>
  The file system server's requests, \<open>fs/serv.c\<close>: the table of open files, the seven handlers and the
  dispatch of one request. A request is what \<open>ipc_recv\<close> delivers: the code, the sender, the permission
  and the contents of the page that is mapped at \<open>REQVA\<close>. A reply is appended to \<open>sent\<close>. The reference
  counts of frames, which the kernel keeps in \<open>pages\<close>, are the argument \<open>pp_ref\<close>; they tell the server
  whether a client still maps the page of a descriptor.

  A path that has no terminator in its page, and an index outside the table of open files, are \<open>None\<close>.
\<close>

section \<open>Definitions\<close>

definition MAXOPEN :: u32 where "MAXOPEN = 1024"
definition MAXFS :: u32 where "MAXFS = 2"
definition REQVA :: u32 where "REQVA = 0x0FFFF000"
definition FILEVA :: u32 where "FILEVA = 0x60000000"
definition MAXPATHLEN :: u32 where "MAXPATHLEN = 1024"
definition O_CREAT :: u32 where "O_CREAT = 0x0100"
definition O_MKDIR :: u32 where "O_MKDIR = 0x0800"
definition NORMAL_DISK :: u32 where "NORMAL_DISK = 0"
definition DEVFILE_ID :: u32 where "DEVFILE_ID = 102"

lemmas serv_defs = MAXOPEN_def MAXFS_def REQVA_def FILEVA_def MAXPATHLEN_def O_CREAT_def O_MKDIR_def

record open_file =
  o_file :: u32
  o_fileid :: u32
  o_mode :: u32
  o_ff :: u32

type_synonym reply = "u32 \<times> u32 \<times> u32 \<times> u32"

record serv =
  fsys :: fsst
  opentab :: "open_file list"
  sent :: "reply list"

text \<open>\<open>user/lib/pageref.c\<close>.\<close>

definition pageref :: "(nat \<Rightarrow> nat) \<Rightarrow> u32 \<Rightarrow> 'a umach_scheme \<Rightarrow> nat" where
  "pageref pp_ref v s = (
     if \<not> pte_valid (vpd s (PDX v)) then 0
     else let pte = vpt s (VPN v)
          in if \<not> pte_valid pte then 0 else pp_ref (PPN pte))"

definition ipc_send :: "u32 \<Rightarrow> u32 \<Rightarrow> u32 \<Rightarrow> u32 \<Rightarrow> serv \<Rightarrow> serv" where
  "ipc_send whom v srcva perm t = t\<lparr>sent := sent t @ [(whom, v, srcva, perm)]\<rparr>"

definition init_entry :: "open_file list \<Rightarrow> nat \<Rightarrow> open_file" where
  "init_entry tab i = (tab ! i)\<lparr>o_fileid := word_of_nat i, o_ff := FILEVA + word_of_nat i * BY2PG\<rparr>"

definition serve_init :: "serv \<Rightarrow> serv" where
  "serve_init t = t\<lparr>opentab := map (init_entry (opentab t)) [0..<unat MAXOPEN]\<rparr>"

text \<open>The loop of \<open>open_alloc\<close>; the result is the index of the entry and its new id.\<close>

primrec open_scan :: "(nat \<Rightarrow> nat) \<Rightarrow> nat list \<Rightarrow> serv \<Rightarrow> (err + nat \<times> u32) \<times> serv" where
  "open_scan pp_ref [] t = (Inl E_MAX_OPEN, t)"
| "open_scan pp_ref (i # is) t = (
     let o' = opentab t ! i;
         n = pageref pp_ref (o_ff o') (fsys t)
     in if n > 1 then open_scan pp_ref is t
        else
          let (r, s) = (if n = 0 then syscall_mem_alloc (o_ff o') (PTE_D OR PTE_LIBRARY) (fsys t) else (Inr (), fsys t));
              t = t\<lparr>fsys := s\<rparr>
          in case r of
               Inl e \<Rightarrow> (Inl e, t)
             | Inr _ \<Rightarrow>
                 let o' = o'\<lparr>o_fileid := o_fileid o' + MAXFS * MAXOPEN\<rparr>
                 in (Inr (i, o_fileid o'), t\<lparr>opentab := (opentab t)[i := o'],
                      fsys := s\<lparr>umem := fill_page (o_ff o') (\<lambda>_. 0) (umem s)\<rparr>\<rparr>))"

definition open_alloc :: "(nat \<Rightarrow> nat) \<Rightarrow> serv \<Rightarrow> (err + nat \<times> u32) \<times> serv" where
  "open_alloc pp_ref t = open_scan pp_ref [0..<unat MAXOPEN] t"

text \<open>
  The macro \<open>MAXOPEN_NUM\<close> stands for \<open>MAXFS * MAXOPEN\<close> without parentheses, so the index is
  \<open>fileid % MAXFS * MAXOPEN\<close>.
\<close>

definition open_lookup :: "(nat \<Rightarrow> nat) \<Rightarrow> u32 \<Rightarrow> serv \<Rightarrow> (err + nat) option" where
  "open_lookup pp_ref fileid t = (
     let i = unat (fileid mod MAXFS * MAXOPEN)
     in if i \<ge> length (opentab t) then None
        else
          let o' = opentab t ! i
          in if pageref pp_ref (o_ff o') (fsys t) = 1 \<or> o_fileid o' \<noteq> fileid then Some (Inl E_INVAL)
             else Some (Inr i))"

definition request_path :: "serv \<Rightarrow> u8 list option" where
  "request_path t = path_at (unat BY2PG) (umem (fsys t)) REQVA"

definition fail_reply :: "u32 \<Rightarrow> err \<Rightarrow> serv \<Rightarrow> serv" where
  "fail_reply envid e t = ipc_send envid (- errno e) 0 0 t"

text \<open>\<open>ff->f_file = *f\<close>: the \<open>BY2FILE\<close> bytes of a \<open>struct File\<close>, which lies inside a page.\<close>

definition copy_file :: "u32 \<Rightarrow> u32 \<Rightarrow> fsst \<Rightarrow> fsst option" where
  "copy_file dst f s = (
     if va_mapped f s then ustore_bytes dst (map (\<lambda>i. umem s (f + word_of_nat i)) [0..<unat BY2FILE]) s else None)"

text \<open>The offsets of the fields of \<open>struct Filefd\<close>.\<close>

definition fd_dev_id :: "u32 \<Rightarrow> u32" where "fd_dev_id fd = fd"
definition fd_omode :: "u32 \<Rightarrow> u32" where "fd_omode fd = fd + 8"
definition fd_disktype :: "u32 \<Rightarrow> u32" where "fd_disktype fd = fd + 12"
definition f_fileid :: "u32 \<Rightarrow> u32" where "f_fileid ff = ff + 16"
definition f_file :: "u32 \<Rightarrow> u32" where "f_file ff = ff + 20"

definition finish_open :: "u32 \<Rightarrow> nat \<Rightarrow> u32 \<Rightarrow> u32 \<Rightarrow> serv \<Rightarrow> serv option" where
  "finish_open envid i f omode t = do {
     let t = t\<lparr>opentab := (opentab t)[i := (opentab t ! i)\<lparr>o_file := f, o_mode := omode\<rparr>]\<rparr>;
     let o' = opentab t ! i;
     let ff = o_ff o';
     s \<leftarrow> copy_file (f_file ff) f (fsys t);
     s \<leftarrow> ustore (f_fileid ff) (o_fileid o') s;
     s \<leftarrow> ustore (fd_omode ff) omode s;
     s \<leftarrow> ustore (fd_dev_id ff) DEVFILE_ID s;
     s \<leftarrow> ustore (fd_disktype ff) NORMAL_DISK s;
     Some (ipc_send envid 0 ff (PTE_D OR PTE_LIBRARY) (t\<lparr>fsys := s\<rparr>))
   }"

definition serve_open :: "(nat \<Rightarrow> nat) \<Rightarrow> u32 \<Rightarrow> serv \<Rightarrow> serv option" where
  "serve_open pp_ref envid t = (
     case open_alloc pp_ref t of
       (Inl e, t) \<Rightarrow> Some (fail_reply envid e t)
     | (Inr (i, fileid), t) \<Rightarrow>
         if sint fileid < 0 then Some (ipc_send envid fileid 0 0 t)
         else do {
           omode \<leftarrow> uload (REQVA + MAXPATHLEN) (fsys t);
           path \<leftarrow> request_path t;
           (r, s) \<leftarrow> (if omode AND O_CREAT = O_CREAT \<or> omode AND O_MKDIR = O_MKDIR then file_create path (fsys t)
                     else file_open path (fsys t));
           let t = t\<lparr>fsys := s\<rparr>;
           (case r of
              Inl e \<Rightarrow> Some (fail_reply envid e t)
            | Inr f \<Rightarrow> do {
                s \<leftarrow> (if omode AND O_CREAT \<noteq> O_CREAT \<and> omode AND O_MKDIR = O_MKDIR
                     then ustore (f_type f) FTYPE_DIR (fsys t) else Some (fsys t));
                finish_open envid i f omode (t\<lparr>fsys := s\<rparr>)
              })
         })"

text \<open>The common part of the handlers that name an open file.\<close>

definition with_open :: "(nat \<Rightarrow> nat) \<Rightarrow> u32 \<Rightarrow> (u32 \<Rightarrow> serv \<Rightarrow> serv option) \<Rightarrow> serv \<Rightarrow> serv option" where
  "with_open pp_ref envid k t = do {
     fileid \<leftarrow> uload REQVA (fsys t);
     r \<leftarrow> open_lookup pp_ref fileid t;
     (case r of
        Inl e \<Rightarrow> Some (fail_reply envid e t)
      | Inr i \<Rightarrow> k (o_file (opentab t ! i)) t)
   }"

definition serve_map :: "(nat \<Rightarrow> nat) \<Rightarrow> u32 \<Rightarrow> serv \<Rightarrow> serv option" where
  "serve_map pp_ref envid = with_open pp_ref envid (\<lambda>f t. do {
     off \<leftarrow> uload (REQVA + 4) (fsys t);
     (r, s) \<leftarrow> file_get_block f (off div BY2BLK) (fsys t);
     let t = t\<lparr>fsys := s\<rparr>;
     Some (case r of
       Inl e \<Rightarrow> fail_reply envid e t
     | Inr blk \<Rightarrow> ipc_send envid 0 blk (PTE_D OR PTE_LIBRARY) t)
   })"

definition serve_set_size :: "(nat \<Rightarrow> nat) \<Rightarrow> u32 \<Rightarrow> serv \<Rightarrow> serv option" where
  "serve_set_size pp_ref envid = with_open pp_ref envid (\<lambda>f t. do {
     size \<leftarrow> uload (REQVA + 4) (fsys t);
     s \<leftarrow> file_set_size f size (fsys t);
     Some (ipc_send envid 0 0 0 (t\<lparr>fsys := s\<rparr>))
   })"

definition serve_close :: "(nat \<Rightarrow> nat) \<Rightarrow> u32 \<Rightarrow> serv \<Rightarrow> serv option" where
  "serve_close pp_ref envid = with_open pp_ref envid (\<lambda>f t. do {
     s \<leftarrow> file_close f (fsys t);
     Some (ipc_send envid 0 0 0 (t\<lparr>fsys := s\<rparr>))
   })"

definition serve_remove :: "u32 \<Rightarrow> serv \<Rightarrow> serv option" where
  "serve_remove envid t = do {
     path \<leftarrow> request_path t;
     (r, s) \<leftarrow> file_remove path (fsys t);
     let t = t\<lparr>fsys := s\<rparr>;
     Some (case r of Inl e \<Rightarrow> fail_reply envid e t | Inr _ \<Rightarrow> ipc_send envid 0 0 0 t)
   }"

definition serve_dirty :: "(nat \<Rightarrow> nat) \<Rightarrow> u32 \<Rightarrow> serv \<Rightarrow> serv option" where
  "serve_dirty pp_ref envid = with_open pp_ref envid (\<lambda>f t. do {
     off \<leftarrow> uload (REQVA + 4) (fsys t);
     (r, s) \<leftarrow> file_dirty f off (fsys t);
     let t = t\<lparr>fsys := s\<rparr>;
     Some (case r of Inl e \<Rightarrow> fail_reply envid e t | Inr _ \<Rightarrow> ipc_send envid 0 0 0 t)
   })"

definition serve_sync :: "u32 \<Rightarrow> serv \<Rightarrow> serv option" where
  "serve_sync envid t = do {
     s \<leftarrow> fs_sync (fsys t);
     Some (ipc_send envid 0 0 0 (t\<lparr>fsys := s\<rparr>))
   }"

record request =
  req_code :: u32
  req_whom :: u32
  req_perm :: u32
  req_frame :: u32
  req_page :: "u32 \<Rightarrow> u8"

definition receive :: "request \<Rightarrow> 'a umach_scheme \<Rightarrow> 'a umach_scheme" where
  "receive q s = s\<lparr>umem := fill_page REQVA (req_page q) (umem s), vpd := (vpd s)(PDX REQVA := vpd s (PDX REQVA) OR PTE_V),
     vpt := (vpt s)(VPN REQVA := PTE_ADDR (req_frame q) OR req_perm q)\<rparr>"

definition dispatch :: "(nat \<Rightarrow> nat) \<Rightarrow> u32 \<Rightarrow> u32 \<Rightarrow> serv \<Rightarrow> serv option" where
  "dispatch pp_ref req whom t = (
     if req = 1 then serve_open pp_ref whom t
     else if req = 2 then serve_map pp_ref whom t
     else if req = 3 then serve_set_size pp_ref whom t
     else if req = 4 then serve_close pp_ref whom t
     else if req = 5 then serve_dirty pp_ref whom t
     else if req = 6 then serve_remove whom t
     else if req = 7 then serve_sync whom t
     else Some t)"

text \<open>One turn of the loop of \<open>serve\<close>, which never ends.\<close>

definition serve_step :: "(nat \<Rightarrow> nat) \<Rightarrow> request \<Rightarrow> serv \<Rightarrow> serv option" where
  "serve_step pp_ref q t = (
     if \<not> pte_valid (req_perm q) then Some t
     else do {
       t \<leftarrow> dispatch pp_ref (req_code q) (req_whom q) (t\<lparr>fsys := receive q (fsys t)\<rparr>);
       Some (t\<lparr>fsys := snd (syscall_mem_unmap REQVA (fsys t))\<rparr>)
     })"

definition serve_main :: "serv \<Rightarrow> serv option" where
  "serve_main t = do {
     let t = serve_init t;
     s \<leftarrow> fs_init (fsys t);
     Some (t\<lparr>fsys := s\<rparr>)
   }"

section \<open>Replies\<close>

lemma sent_simps [simp]:
  "sent (ipc_send w v a p t) = sent t @ [(w, v, a, p)]" "sent (fail_reply w e t) = sent t @ [(w, - errno e, 0, 0)]"
  by (simp_all add: ipc_send_def fail_reply_def)

definition replied :: "u32 \<Rightarrow> serv \<Rightarrow> serv option \<Rightarrow> bool" where
  "replied w t r \<longleftrightarrow> (\<forall>t'. r = Some t' \<longrightarrow> (\<exists>v a p. sent t' = sent t @ [(w, v, a, p)]))"

lemma open_scan_sent: "open_scan pp_ref is t = (r, t') \<Longrightarrow> sent t' = sent t"
  by (induction "is" arbitrary: t) (auto simp: Let_def split: if_splits prod.splits sum.splits)

lemma finish_open_replied: "replied w t (finish_open w i f m t)"
  by (auto simp: replied_def finish_open_def Let_def)

lemma replied_cong: "sent t = sent u \<Longrightarrow> replied w t r = replied w u r"
  by (simp add: replied_def)

lemma serve_open_replied: "replied w t (serve_open pp_ref w t)"
proof (cases "open_alloc pp_ref t")
  case (Pair r u)
  then have s: "sent u = sent t" using open_scan_sent by (simp add: open_alloc_def)
  have f: "replied w t (finish_open w i f m (u\<lparr>fsys := x\<rparr>))" for i f m x
    using finish_open_replied [of w "u\<lparr>fsys := x\<rparr>" i f m] s by (simp add: replied_def)
  show ?thesis
    unfolding serve_open_def Pair using f s
    by (auto simp: replied_def Let_def split: sum.splits if_splits prod.splits)
qed

lemma with_open_replied:
  "(\<And>f. replied w t (k f t)) \<Longrightarrow> replied w t (with_open pp_ref w k t)"
  by (auto simp: with_open_def replied_def split: sum.splits)

lemma known_codes: "1 \<le> c \<Longrightarrow> c \<le> 7 \<Longrightarrow> c \<in> {1, 2, 3, 4, 5, 6, 7 :: u32}"
proof -
  assume "1 \<le> c" "c \<le> 7"
  then have "unat c \<in> {1, 2, 3, 4, 5, 6, 7}" by (auto simp: word_le_nat_alt)
  then show ?thesis by (auto simp: word_unat_eq_iff)
qed

lemma dispatch_replied: "1 \<le> c \<Longrightarrow> c \<le> 7 \<Longrightarrow> replied w t (dispatch pp_ref c w t)"
proof -
  assume "1 \<le> c" "c \<le> 7"
  then have "c \<in> {1, 2, 3, 4, 5, 6, 7}" by (rule known_codes)
  moreover have "replied w t (serve_map pp_ref w t)" "replied w t (serve_set_size pp_ref w t)"
    "replied w t (serve_close pp_ref w t)" "replied w t (serve_dirty pp_ref w t)"
    unfolding serve_map_def serve_set_size_def serve_close_def serve_dirty_def
    by (rule with_open_replied, force simp: replied_def Let_def split: sum.splits)+
  moreover have "replied w t (serve_remove w t)" "replied w t (serve_sync w t)"
    by (force simp: replied_def serve_remove_def serve_sync_def Let_def split: sum.splits)+
  ultimately show ?thesis using serve_open_replied by (auto simp: dispatch_def)
qed

text \<open>
  What the environments that send requests rely on, whichever server they talk to: a request with an argument page and a
  known code is answered once, to its sender, and nothing else is sent.
\<close>

definition answered :: "request \<Rightarrow> bool" where
  "answered q \<longleftrightarrow> pte_valid (req_perm q) \<and> 1 \<le> req_code q \<and> req_code q \<le> 7"

locale request_server =
  fixes handle :: "request \<Rightarrow> 't \<Rightarrow> 't option" and log :: "'t \<Rightarrow> reply list"
  assumes handle_log: "handle q t = Some t' \<Longrightarrow>
    if answered q then \<exists>v a p. log t' = log t @ [(req_whom q, v, a, p)] else log t' = log t"
begin

lemma run_log: "ofold handle qs t = Some t' \<Longrightarrow> \<exists>rs. log t' = log t @ rs \<and> map fst rs = map req_whom (filter answered qs)"
proof (induction qs arbitrary: t)
  case (Cons q qs)
  then obtain u where u: "handle q t = Some u" "ofold handle qs u = Some t'" by auto
  from Cons.IH [OF u(2)] obtain rs where rs: "log t' = log u @ rs" "map fst rs = map req_whom (filter answered qs)" by blast
  show ?case
  proof (cases "answered q")
    case True
    with handle_log [OF u(1)] obtain v a p where "log u = log t @ [(req_whom q, v, a, p)]" by auto
    with rs True show ?thesis by (intro exI [of _ "(req_whom q, v, a, p) # rs"]) simp
  next
    case False
    with handle_log [OF u(1)] rs show ?thesis by auto
  qed
qed simp

end

section \<open>The table of open files\<close>

definition open_wf :: "serv \<Rightarrow> bool" where
  "open_wf t \<longleftrightarrow> length (opentab t) = 1024
     \<and> (\<forall>i<1024. o_ff (opentab t ! i) = FILEVA + word_of_nat i * BY2PG \<and> unat (o_fileid (opentab t ! i)) mod 2048 = i)"

lemma serve_init_wf: "open_wf (serve_init t)"
  by (simp add: open_wf_def serve_init_def init_entry_def serv_defs unat_of_nat)

lemma open_scan_skip:
  "(\<And>j. j \<in> set js \<Longrightarrow> pageref pp_ref (o_ff (opentab t ! j)) (fsys t) > 1) \<Longrightarrow> open_scan pp_ref (js @ is) t = open_scan pp_ref is t"
  by (induction js) (simp_all add: Let_def)

lemma FILEVA_legal:
  assumes "i < 1024"
  shows "\<not> FILEVA + word_of_nat i * BY2PG < UTEMP" and "\<not> UTOP \<le> FILEVA + word_of_nat i * BY2PG"
proof -
  have "unat (FILEVA + word_of_nat i * BY2PG) = 0x60000000 + i * 4096"
    using assms by (simp add: FILEVA_def BY2PG_def unat_word_ariths unat_of_nat)
  then show "\<not> FILEVA + word_of_nat i * BY2PG < UTEMP" "\<not> UTOP \<le> FILEVA + word_of_nat i * BY2PG"
    using assms by (simp_all add: word_less_nat_alt word_le_nat_alt mmu_defs)
qed

lemma next_fileid: "unat (x + MAXFS * MAXOPEN :: u32) mod 2048 = unat x mod 2048"
proof -
  have "(a mod 2 ^ 32) mod 2048 = a mod (2048 :: nat)" for a by (rule mod_mod_cancel) simp
  from this [of "unat x + 2048"] show ?thesis by (simp add: serv_defs unat_word_ariths)
qed

lemma upt_split: "i < n \<Longrightarrow> [0..<n] = [0..<i] @ i # [Suc i..<n]"
  using upt_add_eq_append [of 0 i "n - i"] by (simp add: upt_conv_Cons)

text \<open>
  C26 (open_alloc_correct). When the first descriptor page that no client maps is that of entry \<open>i\<close>, and the
  kernel has memory for it if it is not mapped yet, \<open>open_alloc\<close> takes entry \<open>i\<close>: the entry gets an id
  that it did not have before and that determines its index, its page is cleared, all other entries
  keep their contents, and the table stays well formed.
\<close>

theorem open_alloc_correct:
  assumes wf: "open_wf t" and i: "i < 1024" "pageref pp_ref (o_ff (opentab t ! i)) (fsys t) \<le> 1"
    and first: "\<And>j. j < i \<Longrightarrow> pageref pp_ref (o_ff (opentab t ! j)) (fsys t) > 1"
    and mem: "palloc (fsys t) (requests (fsys t)) \<noteq> None"
  shows "\<exists>fileid t'. open_alloc pp_ref t = (Inr (i, fileid), t') \<and> fileid \<noteq> o_fileid (opentab t ! i) \<and> unat fileid mod 2048 = i
    \<and> opentab t' = (opentab t)[i := (opentab t ! i)\<lparr>o_fileid := fileid\<rparr>] \<and> open_wf t' \<and> sent t' = sent t
    \<and> va_mapped (o_ff (opentab t ! i)) (fsys t') \<and> (\<forall>a. PTE_ADDR a = PTE_ADDR (o_ff (opentab t ! i)) \<longrightarrow> umem (fsys t') a = 0)"
proof -
  let ?o = "opentab t ! i" and ?s = "fsys t"
  let ?id = "o_fileid ?o + MAXFS * MAXOPEN"
  have "open_scan pp_ref ([0..<i] @ i # [Suc i..<unat MAXOPEN]) t = open_scan pp_ref (i # [Suc i..<unat MAXOPEN]) t"
    by (rule open_scan_skip) (use first in simp)
  then have skip: "open_alloc pp_ref t = open_scan pp_ref (i # [Suc i..<unat MAXOPEN]) t"
    unfolding open_alloc_def using upt_split [of i "unat MAXOPEN"] i(1) by (simp only: MAXOPEN_def) simp
  have ff: "o_ff ?o = FILEVA + word_of_nat i * BY2PG" using wf i(1) by (simp add: open_wf_def)
  obtain fr where fr: "palloc ?s (requests ?s) = Some fr" using mem by blast
  have id: "?id \<noteq> o_fileid ?o" "unat ?id mod 2048 = i"
    using next_fileid [of "o_fileid ?o"] wf i(1) by (simp_all add: serv_defs open_wf_def)
  have "\<exists>s. (if pageref pp_ref (o_ff ?o) ?s = 0 then syscall_mem_alloc (o_ff ?o) (PTE_D OR PTE_LIBRARY) ?s else (Inr (), ?s)) = (Inr (), s)
      \<and> va_mapped (o_ff ?o) s"
    using fr FILEVA_legal [OF i(1)] ff i(2)
    by (auto simp: syscall_mem_alloc_def va_mapped_def pageref_def Let_def)
  then obtain s where s: "(if pageref pp_ref (o_ff ?o) ?s = 0 then syscall_mem_alloc (o_ff ?o) (PTE_D OR PTE_LIBRARY) ?s else (Inr (), ?s)) = (Inr (), s)"
    "va_mapped (o_ff ?o) s" by blast
  have len: "i < length (opentab t)" using wf i(1) by (simp add: open_wf_def)
  show ?thesis
    using s i id wf len unfolding skip
    by (auto simp: Let_def open_wf_def fill_page_def va_mapped_def nth_list_update)
qed

definition sample_fs :: fsst where
  "sample_fs = \<lparr>umem = (\<lambda>_. 5), vpd = (\<lambda>_. 0), vpt = (\<lambda>_. 0), palloc = (\<lambda>_. Some 0x8000), requests = 0,
     super = 0, bitmap = 0, disk = (\<lambda>_ _. 0)\<rparr>"

definition sample_serv :: serv where
  "sample_serv = serve_init \<lparr>fsys = sample_fs, opentab = replicate 1024 \<lparr>o_file = 0, o_fileid = 0, o_mode = 0, o_ff = 0\<rparr>, sent = []\<rparr>"

lemma sample_serv_simps: "fsys sample_serv = sample_fs" "open_wf sample_serv" "sent sample_serv = []"
  by (simp_all add: sample_serv_def serve_init_wf) (simp_all add: serve_init_def)

theorem open_alloc_correct_witness:
  "\<exists>fileid t'. open_alloc (\<lambda>_. 0) sample_serv = (Inr (0, fileid), t') \<and> fileid \<noteq> o_fileid (opentab sample_serv ! 0) \<and> unat fileid mod 2048 = 0
    \<and> opentab t' = (opentab sample_serv)[0 := (opentab sample_serv ! 0)\<lparr>o_fileid := fileid\<rparr>] \<and> open_wf t' \<and> sent t' = sent sample_serv
    \<and> va_mapped (o_ff (opentab sample_serv ! 0)) (fsys t')
    \<and> (\<forall>a. PTE_ADDR a = PTE_ADDR (o_ff (opentab sample_serv ! 0)) \<longrightarrow> umem (fsys t') a = 0)"
  by (rule open_alloc_correct) (simp_all add: sample_serv_simps sample_fs_def pageref_def pte_valid_def)

text \<open>
  C39 (open_lookup_wrong_slot). The index that \<open>open_lookup\<close> computes from an id is not the index of the
  entry: in every well-formed table the id of an open file other than the one in entry 0 is either
  refused with \<open>E_INVAL\<close> or, when it is odd, looked up one entry past the end of the table. So at most
  one file can be used at a time.
\<close>

theorem open_lookup_wrong_slot:
  assumes "open_wf t" and "0 < i" and "i < 1024"
  shows "open_lookup pp_ref (o_fileid (opentab t ! i)) t = (if odd i then None else Some (Inl E_INVAL))"
proof -
  let ?id = "o_fileid (opentab t ! i)"
  have m: "unat ?id mod 2048 = i" "unat (o_fileid (opentab t ! 0)) mod 2048 = 0" "length (opentab t) = 1024"
    using assms by (auto simp: open_wf_def)
  have "unat ?id mod 2 = i mod 2" using m(1) mod_mod_cancel [of 2 2048 "unat ?id"] by simp
  then have u: "unat (?id mod MAXFS * MAXOPEN) = i mod 2 * 1024"
    by (simp add: serv_defs unat_word_ariths unat_mod)
  have ne: "o_fileid (opentab t ! 0) \<noteq> ?id" using m(1,2) assms(2) by auto
  show ?thesis
  proof (cases "odd i")
    case True
    then show ?thesis using u m(3) by (simp add: open_lookup_def odd_iff_mod_2_eq_one)
  next
    case False
    then show ?thesis using u m(3) ne by (simp add: open_lookup_def even_iff_mod_2_eq_zero)
  qed
qed

theorem open_lookup_wrong_slot_witness:
  "open_lookup (\<lambda>_. 2) (o_fileid (opentab sample_serv ! 2)) sample_serv = (if odd (2 :: nat) then None else Some (Inl E_INVAL))"
  by (rule open_lookup_wrong_slot) (simp_all add: sample_serv_simps)

lemma serve_step_log:
  assumes "serve_step pp_ref q t = Some t'"
  shows "if answered q then \<exists>v a p. sent t' = sent t @ [(req_whom q, v, a, p)] else sent t' = sent t"
proof (cases "pte_valid (req_perm q)")
  case True
  let ?t = "t\<lparr>fsys := receive q (fsys t)\<rparr>"
  from assms True obtain u where u: "dispatch pp_ref (req_code q) (req_whom q) ?t = Some u" "sent t' = sent u"
    by (auto simp: serve_step_def)
  show ?thesis
  proof (cases "1 \<le> req_code q \<and> req_code q \<le> 7")
    case known: True
    with dispatch_replied [of "req_code q" "req_whom q" ?t pp_ref] u True show ?thesis by (simp add: replied_def answered_def)
  next
    case False
    then have "req_code q \<notin> {1, 2, 3, 4, 5, 6, 7}" by auto
    then have "u = ?t" using u(1) by (simp add: dispatch_def)
    then show ?thesis using u(2) False by (auto simp: answered_def)
  qed
qed (use assms in \<open>simp add: serve_step_def answered_def\<close>)

interpretation fsrv: request_server "serve_step pp_ref" sent for pp_ref
  by unfold_locales (rule serve_step_log)

text \<open>
  C36 (serve_answers_run). However many requests the server handles one after the other, the replies it sends go to the
  senders of the requests that have an argument page and a known code, one each and in the order of the requests;
  nobody else gets a message.
\<close>

theorem serve_answers_run:
  assumes "ofold (serve_step pp_ref) qs t = Some t'"
  shows "\<exists>rs. sent t' = sent t @ rs \<and> map fst rs = map req_whom (filter answered qs)"
  using assms by (rule fsrv.run_log)

definition sample_request :: request where
  "sample_request = \<lparr>req_code = 4, req_whom = 0x1001, req_perm = PTE_V OR PTE_D, req_frame = 0x9000, req_page = (\<lambda>_. 2)\<rparr>"

lemma sample_step: "\<exists>t'. serve_step (\<lambda>_. 2) sample_request sample_serv = Some t'"
proof -
  let ?t = "sample_serv\<lparr>fsys := receive sample_request sample_fs\<rparr>"
  have "uload REQVA (fsys ?t) = Some 0x02020202"
    by (simp add: uload_def receive_def sample_request_def sample_fs_def load_word_def fill_page_def va_mapped_def
        pte_valid_def PTE_ADDR_def PTE_V_def PTE_D_def PDX_div VPN_div REQVA_def)
  moreover have "opentab ?t ! 0 = \<lparr>o_file = 0, o_fileid = 0, o_mode = 0, o_ff = FILEVA\<rparr>" "length (opentab ?t) = 1024"
    by (simp_all add: sample_serv_def serve_init_def init_entry_def MAXOPEN_def)
  ultimately have "with_open (\<lambda>_. 2) 0x1001 k ?t = Some (fail_reply 0x1001 E_INVAL ?t)" for k
    by (simp add: with_open_def open_lookup_def serv_defs)
  then show ?thesis
    by (simp add: serve_step_def sample_serv_simps dispatch_def serve_close_def sample_request_def [THEN arg_cong, of req_code]
        sample_request_def [THEN arg_cong, of req_whom])
qed

theorem serve_answers_run_witness:
  "\<exists>t'. ofold (serve_step (\<lambda>_. 2)) [sample_request] sample_serv = Some t'
    \<and> (\<exists>rs. sent t' = sent sample_serv @ rs \<and> map fst rs = map req_whom (filter answered [sample_request]))"
proof -
  obtain t' where "serve_step (\<lambda>_. 2) sample_request sample_serv = Some t'" using sample_step by blast
  then have "ofold (serve_step (\<lambda>_. 2)) [sample_request] sample_serv = Some t'" by simp
  then show ?thesis using serve_answers_run by blast
qed

end
