(* ===== verification/Fat_Serv.thy ===== *)
theory Fat_Serv
  imports Fat Serv
begin

text \<open>
  The server of the FAT32 file system, \<open>fs/fatserv.c\<close>: its table of open files, whose ids start at 1024, the seven
  handlers and one turn of its loop. Requests, replies and the entries of the table are those of \<open>Serv\<close>.
\<close>

section \<open>Open files\<close>

record fserv =
  ffs :: fatst
  fatopentab :: "open_file list"
  fsent :: "reply list"

definition fipc_send :: "u32 \<Rightarrow> u32 \<Rightarrow> u32 \<Rightarrow> u32 \<Rightarrow> fserv \<Rightarrow> fserv" where
  "fipc_send whom v srcva perm t = t\<lparr>fsent := fsent t @ [(whom, v, srcva, perm)]\<rparr>"

definition fatinit_entry :: "open_file list \<Rightarrow> nat \<Rightarrow> open_file" where
  "fatinit_entry tab i = (tab ! i)\<lparr>o_fileid := word_of_nat i + 1024, o_ff := FILEVA + word_of_nat i * BY2PG\<rparr>"

definition fatserve_init :: "fserv \<Rightarrow> fserv" where
  "fatserve_init t = t\<lparr>fatopentab := map (fatinit_entry (fatopentab t)) [0..<unat MAXOPEN]\<rparr>"

primrec fatopen_scan :: "(nat \<Rightarrow> nat) \<Rightarrow> nat list \<Rightarrow> fserv \<Rightarrow> (err + nat \<times> u32) \<times> fserv" where
  "fatopen_scan pp_ref [] t = (Inl E_MAX_OPEN, t)"
| "fatopen_scan pp_ref (i # is) t = (
     let o' = fatopentab t ! i;
         n = pageref pp_ref (o_ff o') (ffs t)
     in if n > 1 then fatopen_scan pp_ref is t
        else
          let (r, s) = (if n = 0 then syscall_mem_alloc (o_ff o') (PTE_D OR PTE_LIBRARY) (ffs t) else (Inr (), ffs t));
              t = t\<lparr>ffs := s\<rparr>
          in case r of
               Inl e \<Rightarrow> (Inl e, t)
             | Inr _ \<Rightarrow>
                 let o' = o'\<lparr>o_fileid := o_fileid o' + MAXFS * MAXOPEN\<rparr>
                 in (Inr (i, o_fileid o'), t\<lparr>fatopentab := (fatopentab t)[i := o'],
                      ffs := s\<lparr>umem := fill_page (o_ff o') (\<lambda>_. 0) (umem s)\<rparr>\<rparr>))"

definition fatopen_alloc :: "(nat \<Rightarrow> nat) \<Rightarrow> fserv \<Rightarrow> (err + nat \<times> u32) \<times> fserv" where
  "fatopen_alloc pp_ref t = fatopen_scan pp_ref [0..<unat MAXOPEN] t"

text \<open>The index is \<open>fileid % MAXFS * MAXOPEN\<close>, as in \<open>open_lookup\<close>.\<close>

definition fatopen_lookup :: "(nat \<Rightarrow> nat) \<Rightarrow> u32 \<Rightarrow> fserv \<Rightarrow> (err + nat) option" where
  "fatopen_lookup pp_ref fileid t = (
     let i = unat (fileid mod MAXFS * MAXOPEN)
     in if i \<ge> length (fatopentab t) then None
        else
          let o' = fatopentab t ! i
          in if pageref pp_ref (o_ff o') (ffs t) = 1 \<or> o_fileid o' \<noteq> fileid then Some (Inl E_INVAL)
             else Some (Inr i))"

section \<open>Handlers\<close>

definition fatrequest_path :: "fserv \<Rightarrow> u8 list option" where
  "fatrequest_path t = path_at (unat BY2PG) (umem (ffs t)) REQVA"

definition fatfail_reply :: "u32 \<Rightarrow> err \<Rightarrow> fserv \<Rightarrow> fserv" where
  "fatfail_reply envid e t = fipc_send envid (- errno e) 0 0 t"

definition FAT32_DISK_ID :: u32 where "FAT32_DISK_ID = 1"

text \<open>\<open>ff->f_file = *f\<close> copies the \<open>FATDIRBY2FILE\<close> bytes of a directory entry, which lies inside a page.\<close>

definition copy_dir :: "u32 \<Rightarrow> u32 \<Rightarrow> fatst \<Rightarrow> fatst option" where
  "copy_dir dst f s = do {
     s \<leftarrow> touch f s;
     fstore_bytes dst (map (\<lambda>i. umem s (f + word_of_nat i)) [0..<unat FATDIRBY2FILE]) s
   }"

definition fatfinish_open :: "u32 \<Rightarrow> nat \<Rightarrow> u32 \<Rightarrow> u32 \<Rightarrow> fserv \<Rightarrow> fserv option" where
  "fatfinish_open envid i f omode t = do {
     let t = t\<lparr>fatopentab := (fatopentab t)[i := (fatopentab t ! i)\<lparr>o_mode := omode, o_file := f\<rparr>]\<rparr>;
     let o' = fatopentab t ! i;
     let ff = o_ff o';
     s \<leftarrow> copy_dir (f_file ff) f (ffs t);
     s \<leftarrow> fstore (f_fileid ff) (o_fileid o') s;
     s \<leftarrow> fstore (fd_omode ff) omode s;
     s \<leftarrow> fstore (fd_dev_id ff) DEVFILE_ID s;
     s \<leftarrow> fstore (fd_disktype ff) FAT32_DISK_ID s;
     Some (fipc_send envid 0 ff (PTE_D OR PTE_LIBRARY) (t\<lparr>ffs := s\<rparr>))
   }"

definition fatserve_open :: "(nat \<Rightarrow> nat) \<Rightarrow> u32 \<Rightarrow> fserv \<Rightarrow> fserv option" where
  "fatserve_open pp_ref envid t = (
     case fatopen_alloc pp_ref t of
       (Inl e, t) \<Rightarrow> Some (fatfail_reply envid e t)
     | (Inr (i, fileid), t) \<Rightarrow>
         if sint fileid < 0 then Some (fipc_send envid fileid 0 0 t)
         else do {
           (omode, s) \<leftarrow> fload (REQVA + MAXPATHLEN) (ffs t);
           let t = t\<lparr>ffs := s\<rparr>;
           path \<leftarrow> fatrequest_path t;
           (r, s) \<leftarrow> (if omode AND O_CREAT = O_CREAT \<or> omode AND O_MKDIR = O_MKDIR then fatfile_create path (ffs t)
                     else fatfile_open path (ffs t));
           let t = t\<lparr>ffs := s\<rparr>;
           (case r of
              Inl e \<Rightarrow> Some (fatfail_reply envid e t)
            | Inr f \<Rightarrow> do {
                s \<leftarrow> (if omode AND O_CREAT \<noteq> O_CREAT \<and> omode AND O_MKDIR = O_MKDIR
                     then fstore8 (DIR_Attr f) ATTR_DIRECTORY (ffs t) else Some (ffs t));
                fatfinish_open envid i f omode (t\<lparr>ffs := s\<rparr>)
              })
         })"

text \<open>The common part of the handlers that name an open file.\<close>

definition with_fatopen :: "(nat \<Rightarrow> nat) \<Rightarrow> u32 \<Rightarrow> (u32 \<Rightarrow> fserv \<Rightarrow> fserv option) \<Rightarrow> fserv \<Rightarrow> fserv option" where
  "with_fatopen pp_ref envid k t = do {
     (fileid, s) \<leftarrow> fload REQVA (ffs t);
     let t = t\<lparr>ffs := s\<rparr>;
     r \<leftarrow> fatopen_lookup pp_ref fileid t;
     (case r of
        Inl e \<Rightarrow> Some (fatfail_reply envid e t)
      | Inr i \<Rightarrow> k (o_file (fatopentab t ! i)) t)
   }"

definition fatserve_map :: "(nat \<Rightarrow> nat) \<Rightarrow> u32 \<Rightarrow> fserv \<Rightarrow> fserv option" where
  "fatserve_map pp_ref envid = with_fatopen pp_ref envid (\<lambda>f t. do {
     (off, s) \<leftarrow> fload (REQVA + 4) (ffs t);
     (r, s) \<leftarrow> fatfile_get_block f (off div BY2BLK) s;
     let t = t\<lparr>ffs := s\<rparr>;
     Some (case r of
       Inl e \<Rightarrow> fatfail_reply envid e t
     | Inr blk \<Rightarrow> fipc_send envid 0 blk (PTE_D OR PTE_LIBRARY) t)
   })"

definition fatserve_set_size :: "(nat \<Rightarrow> nat) \<Rightarrow> u32 \<Rightarrow> fserv \<Rightarrow> fserv option" where
  "fatserve_set_size pp_ref envid = with_fatopen pp_ref envid (\<lambda>f t. do {
     (sz, s) \<leftarrow> fload (REQVA + 4) (ffs t);
     s \<leftarrow> fatfile_set_size f sz s;
     Some (fipc_send envid 0 0 0 (t\<lparr>ffs := s\<rparr>))
   })"

definition fatserve_close :: "(nat \<Rightarrow> nat) \<Rightarrow> u32 \<Rightarrow> fserv \<Rightarrow> fserv option" where
  "fatserve_close pp_ref envid = with_fatopen pp_ref envid (\<lambda>f t. do {
     s \<leftarrow> fatfile_close f (ffs t);
     Some (fipc_send envid 0 0 0 (t\<lparr>ffs := s\<rparr>))
   })"

definition fatserve_remove :: "u32 \<Rightarrow> fserv \<Rightarrow> fserv option" where
  "fatserve_remove envid t = do {
     path \<leftarrow> fatrequest_path t;
     (r, s) \<leftarrow> fatfile_remove path (ffs t);
     let t = t\<lparr>ffs := s\<rparr>;
     Some (case r of Inl e \<Rightarrow> fatfail_reply envid e t | Inr _ \<Rightarrow> fipc_send envid 0 0 0 t)
   }"

definition fatserve_dirty :: "(nat \<Rightarrow> nat) \<Rightarrow> u32 \<Rightarrow> fserv \<Rightarrow> fserv option" where
  "fatserve_dirty pp_ref envid = with_fatopen pp_ref envid (\<lambda>f t. do {
     (off, s) \<leftarrow> fload (REQVA + 4) (ffs t);
     (r, s) \<leftarrow> fatfile_dirty f off s;
     let t = t\<lparr>ffs := s\<rparr>;
     Some (case r of Inl e \<Rightarrow> fatfail_reply envid e t | Inr _ \<Rightarrow> fipc_send envid 0 0 0 t)
   })"

definition fatserve_sync :: "u32 \<Rightarrow> fserv \<Rightarrow> fserv option" where
  "fatserve_sync envid t = do {
     s \<leftarrow> fatfs_sync (ffs t);
     Some (fipc_send envid 0 0 0 (t\<lparr>ffs := s\<rparr>))
   }"

definition fatdispatch :: "(nat \<Rightarrow> nat) \<Rightarrow> u32 \<Rightarrow> u32 \<Rightarrow> fserv \<Rightarrow> fserv option" where
  "fatdispatch pp_ref req whom t = (
     if req = 1 then fatserve_open pp_ref whom t
     else if req = 2 then fatserve_map pp_ref whom t
     else if req = 3 then fatserve_set_size pp_ref whom t
     else if req = 4 then fatserve_close pp_ref whom t
     else if req = 5 then fatserve_dirty pp_ref whom t
     else if req = 6 then fatserve_remove whom t
     else if req = 7 then fatserve_sync whom t
     else Some t)"

text \<open>One turn of the loop of \<open>fatserve\<close>, and the start of the server.\<close>

definition fatserve_step :: "(nat \<Rightarrow> nat) \<Rightarrow> request \<Rightarrow> fserv \<Rightarrow> fserv option" where
  "fatserve_step pp_ref q t = (
     if \<not> pte_valid (req_perm q) then Some t
     else do {
       t \<leftarrow> fatdispatch pp_ref (req_code q) (req_whom q) (t\<lparr>ffs := receive q (ffs t)\<rparr>);
       Some (t\<lparr>ffs := snd (syscall_mem_unmap REQVA (ffs t))\<rparr>)
     })"

definition fatserve_main :: "fserv \<Rightarrow> fserv option" where
  "fatserve_main t = do {
     let t = fatserve_init t;
     s \<leftarrow> readInfo (ffs t);
     Some (t\<lparr>ffs := s\<rparr>)
   }"

section \<open>Replies\<close>

lemma fsent_simps [simp]:
  "fsent (fipc_send w v a p t) = fsent t @ [(w, v, a, p)]" "fsent (fatfail_reply w e t) = fsent t @ [(w, - errno e, 0, 0)]"
  by (simp_all add: fipc_send_def fatfail_reply_def)

definition freplied :: "u32 \<Rightarrow> fserv \<Rightarrow> fserv option \<Rightarrow> bool" where
  "freplied w t r \<longleftrightarrow> (\<forall>t'. r = Some t' \<longrightarrow> (\<exists>v a p. fsent t' = fsent t @ [(w, v, a, p)]))"

lemma fatopen_scan_sent: "fatopen_scan pp_ref is t = (r, t') \<Longrightarrow> fsent t' = fsent t"
  by (induction "is" arbitrary: t) (auto simp: Let_def split: if_splits prod.splits sum.splits)

lemma fatfinish_open_replied: "fsent t = fsent u \<Longrightarrow> freplied w t (fatfinish_open w i f m u)"
  by (auto simp: freplied_def fatfinish_open_def Let_def)

lemma fatserve_open_replied: "freplied w t (fatserve_open pp_ref w t)"
proof (cases "fatopen_alloc pp_ref t")
  case (Pair r u)
  then have s: "fsent u = fsent t" using fatopen_scan_sent by (simp add: fatopen_alloc_def)
  have f: "freplied w t (fatfinish_open w i f m (u\<lparr>ffs := x\<rparr>))" for i f m x
    by (rule fatfinish_open_replied) (simp add: s)
  show ?thesis
    unfolding fatserve_open_def Pair using f s
    by (auto simp: freplied_def Let_def split: sum.splits if_splits prod.splits bind_splits)
qed

lemma with_fatopen_replied:
  assumes "\<And>f s. freplied w t (k f (t\<lparr>ffs := s\<rparr>))"
  shows "freplied w t (with_fatopen pp_ref w k t)"
  unfolding freplied_def
proof (intro allI impI)
  fix t'
  assume "with_fatopen pp_ref w k t = Some t'"
  then obtain fileid s r where "fatopen_lookup pp_ref fileid (t\<lparr>ffs := s\<rparr>) = Some r"
      "(case r of Inl e \<Rightarrow> Some (fatfail_reply w e (t\<lparr>ffs := s\<rparr>)) | Inr i \<Rightarrow> k (o_file (fatopentab t ! i)) (t\<lparr>ffs := s\<rparr>)) = Some t'"
    by (auto simp: with_fatopen_def Let_def split: bind_splits prod.splits)
  then show "\<exists>v a p. fsent t' = fsent t @ [(w, v, a, p)]"
    using assms unfolding freplied_def by (cases r) auto
qed

lemma fatdispatch_replied:
  assumes "c \<in> {1, 2, 3, 4, 5, 6, 7}"
  shows "freplied w t (fatdispatch pp_ref c w t)"
proof -
  have "freplied w t (fatserve_map pp_ref w t)" "freplied w t (fatserve_set_size pp_ref w t)"
    "freplied w t (fatserve_close pp_ref w t)" "freplied w t (fatserve_dirty pp_ref w t)"
    unfolding fatserve_map_def fatserve_set_size_def fatserve_close_def fatserve_dirty_def
    by (rule with_fatopen_replied, force simp: freplied_def Let_def split: sum.splits)+
  moreover have "freplied w t (fatserve_remove w t)" "freplied w t (fatserve_sync w t)"
    by (force simp: freplied_def fatserve_remove_def fatserve_sync_def Let_def split: sum.splits)+
  ultimately show ?thesis using assms fatserve_open_replied by (auto simp: fatdispatch_def)
qed

lemma fatserve_step_log:
  assumes "fatserve_step pp_ref q t = Some t'"
  shows "if answered q then \<exists>v a p. fsent t' = fsent t @ [(req_whom q, v, a, p)] else fsent t' = fsent t"
proof (cases "pte_valid (req_perm q)")
  case True
  let ?t = "t\<lparr>ffs := receive q (ffs t)\<rparr>"
  from assms True obtain u where u: "fatdispatch pp_ref (req_code q) (req_whom q) ?t = Some u" "fsent t' = fsent u"
    by (auto simp: fatserve_step_def)
  show ?thesis
  proof (cases "req_code q \<in> {1, 2, 3, 4, 5, 6, 7}")
    case known: True
    then have "answered q" using True by (auto simp: answered_def)
    with fatdispatch_replied [OF known, of "req_whom q" ?t pp_ref] u show ?thesis by (simp add: freplied_def)
  next
    case False
    then have "u = ?t" using u(1) by (simp add: fatdispatch_def)
    moreover have "\<not> answered q" using False known_codes by (auto simp: answered_def)
    ultimately show ?thesis using u(2) by simp
  qed
qed (use assms in \<open>simp add: fatserve_step_def answered_def\<close>)

interpretation fatsrv: request_server "fatserve_step pp_ref" fsent for pp_ref
  by unfold_locales (rule fatserve_step_log)

text \<open>
  Lemma (fatserve_answers_run). The server of the FAT32 file system answers as the other server does: one reply to the
  sender of each request with an argument page and a known code, in the order of the requests.
\<close>

lemma fatserve_answers_run:
  assumes "ofold (fatserve_step pp_ref) qs t = Some t'"
  shows "\<exists>rs. fsent t' = fsent t @ rs \<and> map fst rs = map req_whom (filter answered qs)"
  using assms by (rule fatsrv.run_log)

end
