(* ===== verification/Fat_Props.thy ===== *)
theory Fat_Props
  imports Fat
begin

text \<open>
  Properties of the file allocation table. The table is seen as a function \<open>fat s\<close> from cluster numbers to entries; a file is
  a chain of clusters that ends in \<open>FAT32_USED\<close>. The lemmas show what allocation, the walk along a chain and the release of a
  chain do to this function, as long as the pages of the table are mapped.
\<close>

section \<open>The table as a function\<close>

definition fat :: "fatst \<Rightarrow> nat \<Rightarrow> u32" where
  "fat s c = load_word (umem s) (fat_entry (word_of_nat c))"

definition set_fat :: "nat \<Rightarrow> u32 \<Rightarrow> fatst \<Rightarrow> fatst" where
  "set_fat c x s = s\<lparr>umem := store_word (fat_entry (word_of_nat c)) x (umem s)\<rparr>"

text \<open>The first \<open>n\<close> entries lie in mapped, writable pages before the area of the clusters.\<close>

definition fat_ready :: "nat \<Rightarrow> fatst \<Rightarrow> bool" where
  "fat_ready n s \<longleftrightarrow> n \<le> 2 ^ 20 \<and> (\<forall>c<n. va_writable (fat_entry (word_of_nat c)) s)"

lemma fat_entry_unat: "c < 2 ^ 20 \<Longrightarrow> unat (fat_entry (word_of_nat c)) = 0x10000000 + 4 * c"
  by (simp add: fat_entry_def DISKMAP_def unat_word_ariths unat_of_nat)

lemma fat_entry_aligned: "fat_entry c AND 3 = 0"
proof -
  have m: "(3 :: u32) = mask 2" by (simp add: mask_eq_exp_minus_1)
  have "4 dvd 4 * unat c mod (4 * 1073741824)" by (rule dvd_mod) simp_all
  then have "unat (fat_entry c) mod 4 = 0"
    by (simp add: fat_entry_def DISKMAP_def unat_word_ariths mod_mod_cancel mod_eq_0_iff_dvd)
  then show ?thesis unfolding m take_bit_eq_mask [symmetric] word_unat_eq_iff by (simp add: unat_take)
qed

lemma fat_entry_inj: "c < 2 ^ 20 \<Longrightarrow> d < 2 ^ 20 \<Longrightarrow> c \<noteq> d \<Longrightarrow> fat_entry (word_of_nat c) \<noteq> fat_entry (word_of_nat d)"
  using fat_entry_unat [of c] fat_entry_unat [of d] by auto

lemma fat_set_fat: "c < 2 ^ 20 \<Longrightarrow> d < 2 ^ 20 \<Longrightarrow> fat (set_fat c x s) d = (if d = c then x else fat s d)"
  using fat_entry_inj [of d c] by (auto simp: fat_def set_fat_def load_store_same load_store_other fat_entry_aligned)

lemma set_fat_fields [simp]:
  "fat32fs (set_fat c x s) = fat32fs s" "fat32bpb (set_fat c x s) = fat32bpb s" "vpt (set_fat c x s) = vpt s" "vpd (set_fat c x s) = vpd s"
  "ide (set_fat c x s) = ide s" "fat_ready n (set_fat c x s) = fat_ready n s"
  by (simp_all add: set_fat_def fat_ready_def va_writable_def va_mapped_def)

lemma fload_fat: "fat_ready n s \<Longrightarrow> c < n \<Longrightarrow> fload (fat_entry (word_of_nat c)) s = Some (fat s c, s)"
  by (simp add: fload_def touch_def fat_ready_def va_writable_def fat_entry_aligned fat_def)

lemma fstore_fat: "fat_ready n s \<Longrightarrow> c < n \<Longrightarrow> fstore (fat_entry (word_of_nat c)) x s = Some (set_fat c x s)"
  by (simp add: fstore_def touch_def fat_ready_def va_writable_def fat_entry_aligned set_fat_def)

text \<open>A state that differs in the table only, with the entries \<open>f\<close>.\<close>

definition fat_upd :: "nat \<Rightarrow> fatst \<Rightarrow> fatst \<Rightarrow> (nat \<Rightarrow> u32) \<Rightarrow> bool" where
  "fat_upd n s s' f \<longleftrightarrow> fat_ready n s' \<and> (\<forall>c<n. fat s' c = f c)
     \<and> fat32fs s' = fat32fs s \<and> fat32bpb s' = fat32bpb s \<and> vpt s' = vpt s \<and> vpd s' = vpd s \<and> ide s' = ide s"

lemma fat_upd_refl: "fat_ready n s \<Longrightarrow> fat_upd n s s (fat s)"
  by (simp add: fat_upd_def)

lemma fat_upd_set: "fat_upd n s u f \<Longrightarrow> c < n \<Longrightarrow> fat_upd n s (set_fat c x u) (f(c := x))"
proof -
  assume a: "fat_upd n s u f" "c < n"
  then have "n \<le> 2 ^ 20" by (simp add: fat_upd_def fat_ready_def)
  then have "fat (set_fat c x u) d = (f(c := x)) d" if "d < n" for d using a that by (simp add: fat_set_fat fat_upd_def)
  then show ?thesis using a(1) by (simp add: fat_upd_def)
qed

section \<open>Chains\<close>

fun chain :: "(nat \<Rightarrow> u32) \<Rightarrow> nat list \<Rightarrow> bool" where
  "chain f [] \<longleftrightarrow> False"
| "chain f [c] \<longleftrightarrow> f c = FAT32_USED"
| "chain f (c # d # cs) \<longleftrightarrow> f c = word_of_nat d \<and> chain f (d # cs)"

lemma chain_cong: "(\<And>c. c \<in> set cs \<Longrightarrow> f c = g c) \<Longrightarrow> chain f cs = chain g cs"
  by (induction f cs rule: chain.induct) auto

lemma chain_nth: "chain f cs \<Longrightarrow> i < length cs \<Longrightarrow> f (cs ! i) = (if Suc i < length cs then word_of_nat (cs ! Suc i) else FAT32_USED)"
proof (induction f cs arbitrary: i rule: chain.induct)
  case (3 f c d cs)
  then show ?case by (cases i) auto
qed auto

lemma chain_upt:
  assumes "k > 0" and "\<And>j. j < k \<Longrightarrow> f (c + j) = (if j < k - 1 then word_of_nat (c + j) + 1 else FAT32_USED)"
  shows "chain f [c..<c + k]"
  using assms
proof (induction k arbitrary: c)
  case (Suc k)
  show ?case
  proof (cases k)
    case 0
    then show ?thesis using Suc.prems(2) [of 0] by simp
  next
    case (Suc m)
    have "chain f [Suc c..<Suc c + k]"
    proof (rule Suc.IH)
      fix j
      assume "j < k"
      then show "f (Suc c + j) = (if j < k - 1 then word_of_nat (Suc c + j) + 1 else FAT32_USED)"
        using Suc.prems(2) [of "Suc j"] by auto
    qed (simp add: Suc)
    moreover have "[c..<c + Suc k] = c # Suc c # [Suc (Suc c)..<c + Suc k]" "[Suc c..<Suc c + k] = Suc c # [Suc (Suc c)..<c + Suc k]"
      using Suc by (simp_all add: upt_rec)
    moreover have "f c = word_of_nat (Suc c)" using Suc.prems(2) [of 0] Suc by simp
    ultimately show ?thesis by (metis chain.simps(3))
  qed
qed simp

lemma small_not_used: "c < 2 ^ 20 \<Longrightarrow> (word_of_nat c :: u32) \<noteq> FAT32_USED"
proof
  assume c: "c < 2 ^ 20" and "(word_of_nat c :: u32) = FAT32_USED"
  then have "unat (word_of_nat c :: u32) = unat FAT32_USED" by simp
  then show False using c by (simp add: unat_of_nat FAT32_USED_def)
qed

section \<open>Releasing a chain\<close>

lemma free_chain_frees:
  assumes "fat_upd n s u f" and "chain f cs" and "distinct cs" and "\<forall>c\<in>set cs. c < n"
  shows "\<exists>s'. free_chain (word_of_nat (hd cs)) u = Some s' \<and> fat_upd n s s' (\<lambda>c. if c \<in> set cs then FAT32_FREE else f c)"
  using assms
proof (induction cs arbitrary: u f rule: induct_list012)
  case (2 c)
  have r: "fat_ready n u" "c < n" "fat u c = FAT32_USED" using 2 by (auto simp: fat_upd_def)
  have "fat_upd n s (set_fat c FAT32_FREE u) (f(c := FAT32_FREE))" using 2 by (intro fat_upd_set) auto
  moreover have "f(c := FAT32_FREE) = (\<lambda>x. if x \<in> set [c] then FAT32_FREE else f x)" by auto
  ultimately show ?case
    using r by (subst free_chain.simps) (simp add: fload_fat [OF r(1,2)] fstore_fat [OF r(1,2)])
next
  case (3 c d cs)
  have r: "fat_ready n u" "c < n" "d < 2 ^ 20" "fat u c = word_of_nat d"
    using "3.prems" by (auto simp: fat_upd_def fat_ready_def)
  let ?f = "f(c := FAT32_FREE)"
  have u: "fat_upd n s (set_fat c FAT32_FREE u) ?f" using "3.prems" by (intro fat_upd_set) auto
  have "chain ?f (d # cs) = chain f (d # cs)" by (rule chain_cong) (use "3.prems"(3) in auto)
  then have "chain ?f (d # cs)" "distinct (d # cs)" "\<forall>c\<in>set (d # cs). c < n" using "3.prems"(2-4) by auto
  from "3.IH"(2) [OF u this] obtain s' where s': "free_chain (word_of_nat d) (set_fat c FAT32_FREE u) = Some s'"
      "fat_upd n s s' (\<lambda>x. if x \<in> set (d # cs) then FAT32_FREE else ?f x)"
    by auto
  have "(\<lambda>x. if x \<in> set (d # cs) then FAT32_FREE else ?f x) = (\<lambda>x. if x \<in> set (c # d # cs) then FAT32_FREE else f x)" by auto
  then show ?case
    using s' r(4) small_not_used [OF r(3)] by (subst free_chain.simps) (simp add: fload_fat [OF r(1,2)] fstore_fat [OF r(1,2)])
qed simp

section \<open>Allocation\<close>

lemma link_page_links:
  assumes "fat_ready n s" and "c + k \<le> n" and "m \<le> k"
  shows "\<exists>u. ofold (\<lambda>i. fstore (fat_entry (word_of_nat c + word_of_nat i)) (if i < k - 1 then word_of_nat c + word_of_nat i + 1 else FAT32_USED)) [0..<m] s = Some u
    \<and> fat_upd n s u (\<lambda>d. if c \<le> d \<and> d < c + m then if d < c + k - 1 then word_of_nat d + 1 else FAT32_USED else fat s d)"
  using assms(3)
proof (induction m)
  case 0
  then show ?case using fat_upd_refl [OF assms(1)] by (auto simp: fat_upd_def)
next
  case (Suc m)
  then obtain u where u: "ofold (\<lambda>i. fstore (fat_entry (word_of_nat c + word_of_nat i)) (if i < k - 1 then word_of_nat c + word_of_nat i + 1 else FAT32_USED)) [0..<m] s = Some u"
    "fat_upd n s u (\<lambda>d. if c \<le> d \<and> d < c + m then if d < c + k - 1 then word_of_nat d + 1 else FAT32_USED else fat s d)" (is "fat_upd n s u ?f")
    by auto
  let ?x = "if m < k - 1 then word_of_nat c + word_of_nat m + 1 else FAT32_USED"
  have r: "fat_ready n u" "c + m < n" using u(2) assms(2) Suc.prems by (simp_all add: fat_upd_def)
  have "fstore (fat_entry (word_of_nat c + word_of_nat m)) ?x u = Some (set_fat (c + m) ?x u)"
    using fstore_fat [OF r, of ?x] by simp
  then have run: "ofold (\<lambda>i. fstore (fat_entry (word_of_nat c + word_of_nat i)) (if i < k - 1 then word_of_nat c + word_of_nat i + 1 else FAT32_USED)) [0..<Suc m] s
      = Some (set_fat (c + m) ?x u)"
    using u(1) by (simp only: upt_Suc_append [OF le0] ofold_append) simp
  have "?f(c + m := ?x) = (\<lambda>d. if c \<le> d \<and> d < c + Suc m then if d < c + k - 1 then word_of_nat d + 1 else FAT32_USED else fat s d)"
    using Suc.prems by (auto simp: fun_eq_iff)
  then show ?case using fat_upd_set [OF u(2) r(2), of ?x] run by (auto simp only:)
qed

lemma link_page_chain:
  assumes "fat_ready n s" and "c + k \<le> n" and "k > 0"
  shows "\<exists>u f. link_page (word_of_nat c) k s = Some u \<and> fat_upd n s u f \<and> chain f [c..<c + k] \<and> (\<forall>d. d \<notin> {c..<c + k} \<longrightarrow> f d = fat s d)"
proof -
  let ?f = "\<lambda>d. if c \<le> d \<and> d < c + k then if d < c + k - 1 then word_of_nat d + 1 else FAT32_USED else fat s d"
  have "chain ?f [c..<c + k]" using assms(3) by (intro chain_upt) auto
  moreover have "\<forall>d. d \<notin> {c..<c + k} \<longrightarrow> ?f d = fat s d" by auto
  ultimately show ?thesis
    using link_page_links [OF assms(1,2) order_refl] unfolding link_page_def by blast
qed

text \<open>How many clusters are taken at once: those of a page.\<close>

definition per_page :: "fatst \<Rightarrow> nat" where
  "per_page s = (let bytes = bytsPerCluster (fat32fs s) in if bytes \<ge> BY2PG then 1 else unat (BY2PG div bytes))"

lemma alloc_scan_skips:
  "fat_ready n s \<Longrightarrow> \<forall>c\<in>set cs. c < n \<and> fat s c \<noteq> 0 \<Longrightarrow> alloc_cluster_scan (cs @ ds) s = alloc_cluster_scan ds s"
  by (induction cs) (auto simp: fload_fat)

lemma alloc_scan_takes:
  assumes "fat_ready n s" and "c + per_page s \<le> n" and "fat s c = 0" and "bytsPerCluster (fat32fs s) \<noteq> 0"
  shows "\<exists>u f. alloc_cluster_scan (c # cs) s = Some (Inr (word_of_nat c), u) \<and> fat_upd n s u f
    \<and> chain f [c..<c + per_page s] \<and> (\<forall>d. d \<notin> {c..<c + per_page s} \<longrightarrow> f d = fat s d)"
proof (cases "bytsPerCluster (fat32fs s) \<ge> BY2PG")
  case True
  then have k: "per_page s = 1" by (simp add: per_page_def)
  then have c: "c < n" using assms(2) by simp
  have "fat_upd n s (set_fat c FAT32_USED s) ((fat s)(c := FAT32_USED))" using fat_upd_refl [OF assms(1)] c by (rule fat_upd_set)
  moreover have "alloc_cluster_scan (c # cs) s = Some (Inr (word_of_nat c), set_fat c FAT32_USED s)"
    using True assms(3) by (simp add: fload_fat [OF assms(1) c] fstore_fat [OF assms(1) c])
  ultimately show ?thesis using k by (intro exI [of _ "set_fat c FAT32_USED s"] exI [of _ "(fat s)(c := FAT32_USED)"]) auto
next
  case False
  then have "bytsPerCluster (fat32fs s) < BY2PG" by simp
  then have "unat (bytsPerCluster (fat32fs s)) < 4096" by (simp add: word_less_nat_alt BY2PG_def)
  moreover have "0 < unat (bytsPerCluster (fat32fs s))" using assms(4) by (simp add: unat_gt_0)
  ultimately have k: "per_page s > 0" "per_page s = unat (BY2PG div bytsPerCluster (fat32fs s))"
    using False by (simp_all add: per_page_def unat_div BY2PG_def div_greater_zero_iff)
  have c: "c < n" using k(1) assms(2) by simp
  from link_page_chain [OF assms(1,2) k(1)] obtain u f where u: "link_page (word_of_nat c) (per_page s) s = Some u" "fat_upd n s u f"
    "chain f [c..<c + per_page s]" "\<forall>d. d \<notin> {c..<c + per_page s} \<longrightarrow> f d = fat s d" by blast
  have "alloc_cluster_scan (c # cs) s = Some (Inr (word_of_nat c), u)"
    using False assms(3,4) u(1) k(2) by (simp add: fload_fat [OF assms(1) c])
  then show ?thesis using u by blast
qed

text \<open>
  C31 (alloc_cluster_num_correct). \<open>alloc_cluster_num\<close> fails with \<open>E_NO_DISK\<close>, changing nothing, when no entry of the table from 2
  on is free. Otherwise it returns the first cluster \<open>c\<close> whose entry is free and makes the clusters of a page from \<open>c\<close> on a chain,
  leaving all other entries alone. Only the first of these entries is known to be free: an entry behind it that belongs to another
  file is overwritten as well.
\<close>

theorem alloc_cluster_num_correct:
  assumes r: "fat_ready (unat (BPB_TotSec32 (fat32bpb s)) + per_page s) s" and b: "bytsPerCluster (fat32fs s) \<noteq> 0"
  shows "((\<forall>c. 2 \<le> c \<and> c < unat (BPB_TotSec32 (fat32bpb s)) \<longrightarrow> fat s c \<noteq> 0) \<longrightarrow> alloc_cluster_num s = Some (Inl E_NO_DISK, s))
    \<and> (\<forall>c. 2 \<le> c \<and> c < unat (BPB_TotSec32 (fat32bpb s)) \<and> fat s c = 0 \<and> (\<forall>d. 2 \<le> d \<and> d < c \<longrightarrow> fat s d \<noteq> 0) \<longrightarrow>
         (\<exists>u f. alloc_cluster_num s = Some (Inr (word_of_nat c), u) \<and> fat_upd (unat (BPB_TotSec32 (fat32bpb s)) + per_page s) s u f
            \<and> chain f [c..<c + per_page s] \<and> (\<forall>d. d \<notin> {c..<c + per_page s} \<longrightarrow> f d = fat s d)))"
proof (intro conjI allI impI; (elim conjE)?)
  assume "\<forall>c. 2 \<le> c \<and> c < unat (BPB_TotSec32 (fat32bpb s)) \<longrightarrow> fat s c \<noteq> 0"
  then have "alloc_cluster_scan ([2..<unat (BPB_TotSec32 (fat32bpb s))] @ []) s = alloc_cluster_scan [] s"
    by (intro alloc_scan_skips [OF r]) auto
  then show "alloc_cluster_num s = Some (Inl E_NO_DISK, s)" by (simp add: alloc_cluster_num_def)
next
  fix c
  assume c: "2 \<le> c" "c < unat (BPB_TotSec32 (fat32bpb s))" "fat s c = 0" and "\<forall>d. 2 \<le> d \<and> d < c \<longrightarrow> fat s d \<noteq> 0"
  then have "alloc_cluster_scan ([2..<c] @ c # [Suc c..<unat (BPB_TotSec32 (fat32bpb s))]) s
      = alloc_cluster_scan (c # [Suc c..<unat (BPB_TotSec32 (fat32bpb s))]) s"
    by (intro alloc_scan_skips [OF r]) auto
  moreover have "[2..<c] @ c # [Suc c..<unat (BPB_TotSec32 (fat32bpb s))] = [2..<unat (BPB_TotSec32 (fat32bpb s))]"
    using c(1,2) by (metis le_Suc_ex less_imp_le_nat upt_add_eq_append upt_conv_Cons)
  ultimately have "alloc_cluster_num s = alloc_cluster_scan (c # [Suc c..<unat (BPB_TotSec32 (fat32bpb s))]) s"
    by (simp add: alloc_cluster_num_def)
  then show "\<exists>u f. alloc_cluster_num s = Some (Inr (word_of_nat c), u) \<and> fat_upd (unat (BPB_TotSec32 (fat32bpb s)) + per_page s) s u f
      \<and> chain f [c..<c + per_page s] \<and> (\<forall>d. d \<notin> {c..<c + per_page s} \<longrightarrow> f d = fat s d)"
    using alloc_scan_takes [OF r _ c(3) b] c(2) by simp
qed

section \<open>The walk along a chain\<close>

lemma walk_chain_nth:
  assumes r: "fat_ready n s" and ch: "chain (fat s) cs" and bound: "\<forall>c\<in>set cs. c < n" and m: "m \<le> length cs" "m < 2 ^ 32"
    and j: "j < m"
  shows "walk_chain f alloc (word_of_nat m) [j..<m] (word_of_nat (cs ! j)) s
    = Some (Inr (if m < length cs then word_of_nat (cs ! m) else FAT32_USED), s)"
  using j
proof (induction "m - j" arbitrary: j)
  case (Suc k)
  have c: "cs ! j < n" using Suc.prems m bound by (auto simp: nth_mem)
  have e: "fat s (cs ! j) = (if Suc j < length cs then word_of_nat (cs ! Suc j) else FAT32_USED)"
    by (rule chain_nth [OF ch]) (use Suc.prems m in simp)
  have "(word_of_nat j :: u32) < word_of_nat m - 1 \<longleftrightarrow> Suc j < m"
  proof -
    have "unat (word_of_nat m - 1 :: u32) = m - 1" using m(2) Suc.prems by (subst unat_dec) (auto simp: unat_of_nat word_of_nat_eq_0_iff)
    then show ?thesis using m(2) Suc.prems by (auto simp: word_less_nat_alt unat_of_nat)
  qed
  moreover have "fat s (cs ! j) \<noteq> FAT32_USED" if "Suc j < m"
  proof -
    have "cs ! Suc j \<in> set cs" using that m by simp
    then have "cs ! Suc j < 2 ^ 20" using bound r by (auto simp: fat_ready_def)
    then show ?thesis using e that m small_not_used by simp
  qed
  ultimately have step: "walk_chain f alloc (word_of_nat m) [j..<m] (word_of_nat (cs ! j)) s
      = walk_chain f alloc (word_of_nat m) [Suc j..<m] (fat s (cs ! j)) s"
    using Suc.prems by (auto simp: upt_conv_Cons fload_fat [OF r c])
  show ?case
  proof (cases "Suc j < m")
    case True
    then have "fat s (cs ! j) = word_of_nat (cs ! Suc j)" using e m by simp
    then show ?thesis using step Suc.hyps(1) [of "Suc j"] Suc.hyps(2) True by simp
  next
    case False
    then have "Suc j = m" using Suc.prems by simp
    then show ?thesis using step e by simp
  qed
qed simp

lemma cluster_walk_nth:
  assumes "fat_ready n s" and "chain (fat s) cs" and "\<forall>c\<in>set cs. c < n" and "m \<le> length cs" and "m < 2 ^ 32"
    and "first_cluster f s = Some (word_of_nat (hd cs), s)"
  shows "fatfile_cluster_walk f (word_of_nat m) alloc s = Some (Inr (if m < length cs then word_of_nat (cs ! m) else FAT32_USED), s)"
proof (cases "m = 0")
  case True
  moreover have "cs \<noteq> []" using assms(2) by auto
  ultimately show ?thesis using assms(6) by (simp add: fatfile_cluster_walk_def hd_conv_nth)
next
  case False
  then have "cs \<noteq> []" using assms(4) by auto
  then show ?thesis
    using walk_chain_nth [OF assms(1-5), of 0 f alloc] False assms(5,6) by (simp add: fatfile_cluster_walk_def hd_conv_nth unat_of_nat)
qed

lemma map_cluster_nth:
  assumes "fat_ready n s" and "chain (fat s) cs" and "\<forall>c\<in>set cs. 0 < c \<and> c < n" and "m \<le> length cs" and "m < 2 ^ 32"
    and "first_cluster f s = Some (word_of_nat (hd cs), s)"
  shows "fatfile_map_cluster f (word_of_nat m) alloc s = Some (Inr (if m < length cs then word_of_nat (cs ! m) else FAT32_USED), s)"
proof -
  have "fatfile_cluster_walk f (word_of_nat m) alloc s = Some (Inr (if m < length cs then word_of_nat (cs ! m) else FAT32_USED), s)"
    using assms by (intro cluster_walk_nth) auto
  moreover have "(word_of_nat (cs ! m) :: u32) \<noteq> 0" if "m < length cs"
  proof -
    have "cs ! m \<in> set cs" using that by simp
    then have "0 < cs ! m" "cs ! m < 2 ^ 20" using assms(1,3) by (auto simp: fat_ready_def)
    then show ?thesis by (simp add: word_of_nat_eq_0_iff nat_dvd_not_less)
  qed
  ultimately show ?thesis by (simp add: fatfile_map_cluster_def FAT32_USED_def)
qed

section \<open>Properties\<close>

text \<open>A small file system for the witnesses: the file at \<open>0x20000000\<close> has the clusters 2 and 3, the other entries are free.\<close>

definition small_fat :: fatst where
  "small_fat = \<lparr>umem = store_word 0x10000008 3 (store_word 0x1000000C FAT32_USED ((\<lambda>_. 0)(0x2000001A := 2))),
     vpd = (\<lambda>_. PTE_V), vpt = (\<lambda>_. PTE_V OR PTE_D), palloc = (\<lambda>_. None), requests = 0, ide = (\<lambda>_ _. 0),
     fat32bpb = \<lparr>BPB_BytsPerSec = 512, BPB_SecPerClus = 4, BPB_RsvdSecCnt = 32, BPB_NumFATs = 1, BPB_TotSec32 = 8, BPB_FATSz32 = 1,
       BPB_RootClus = 2, BPB_FSInfo = 1\<rparr>,
     fat32fs = \<lparr>bytsPerSector = 512, secPerClus = 4, rsvdSecs = 32, numFats = 1, secPerFat = 1, rootCluster = 2, dataStartSector = 33,
       bytsPerCluster = 2048, root = 0x10400000\<rparr>\<rparr>"

lemma small_fat_ready: "n \<le> 2 ^ 20 \<Longrightarrow> fat_ready n small_fat"
  by (simp add: fat_ready_def va_writable_def va_mapped_def small_fat_def pte_valid_def PTE_V_def PTE_D_def)

lemma small_fat_chain: "chain (fat small_fat) [2, 3]" "fat small_fat 4 = 0"
  by (simp_all add: fat_def small_fat_def fat_entry_def DISKMAP_def load_word_def store_word_def FAT32_USED_def)

lemma small_fat_first: "first_cluster 0x20000000 small_fat = Some (2, small_fat)"
  by (simp add: first_cluster_def fload16_def fload8_def touch_def va_mapped_def small_fat_def pte_valid_def PTE_V_def PTE_D_def
      DIR_FstClusHI_def DIR_FstClusLO_def store_word_def)

lemma small_fat_fields [simp]:
  "bytsPerCluster (fat32fs small_fat) = 2048" "BPB_TotSec32 (fat32bpb small_fat) = 8" "per_page small_fat = 2"
  by (simp_all add: small_fat_def per_page_def BY2PG_def)

theorem alloc_cluster_num_correct_witness:
  "\<exists>u f. alloc_cluster_num small_fat = Some (Inr 4, u) \<and> fat_upd 10 small_fat u f \<and> chain f [4, 5] \<and> f 2 = 3"
proof -
  have "fat small_fat d \<noteq> 0" if "2 \<le> d" "d < 4" for d
  proof -
    have "d = 2 \<or> d = 3" using that by auto
    then show ?thesis using small_fat_chain(1) by (auto simp: FAT32_USED_def)
  qed
  then have "(2 :: nat) \<le> 4 \<and> 4 < unat (BPB_TotSec32 (fat32bpb small_fat)) \<and> fat small_fat 4 = 0 \<and> (\<forall>d. 2 \<le> d \<and> d < 4 \<longrightarrow> fat small_fat d \<noteq> 0)"
    using small_fat_chain(2) by simp
  note first_free = this
  have ready: "fat_ready (unat (BPB_TotSec32 (fat32bpb small_fat)) + per_page small_fat) small_fat" by (simp add: small_fat_ready)
  have "bytsPerCluster (fat32fs small_fat) \<noteq> 0" by simp
  note mp [OF spec [OF conjunct2 [OF alloc_cluster_num_correct [OF ready this]]] first_free]
  then obtain u f where u: "alloc_cluster_num small_fat = Some (Inr (word_of_nat 4), u)"
      "fat_upd (unat (BPB_TotSec32 (fat32bpb small_fat)) + per_page small_fat) small_fat u f"
      "chain f [4..<4 + per_page small_fat]" "\<forall>d. d \<notin> {4..<4 + per_page small_fat} \<longrightarrow> f d = fat small_fat d"
    by auto
  have "[4..<6] = [4, 5 :: nat]" by (simp add: upt_rec)
  then show ?thesis using u small_fat_chain(1) by auto
qed

text \<open>
  Lemma (cluster_walk_correct). In a file whose clusters are \<open>cs\<close>, the walk to cluster \<open>m\<close> of the file finds \<open>cs ! m\<close> and changes nothing. At the end of
  the chain, \<open>m = length cs\<close>, it returns the end mark as if it were a cluster and extends nothing, even when it is called to allocate.
\<close>

theorem cluster_walk_correct:
  assumes "fat_ready n s" and "chain (fat s) cs" and "\<forall>c\<in>set cs. c < n" and "m \<le> length cs" and "m < 2 ^ 32"
    and "first_cluster f s = Some (word_of_nat (hd cs), s)"
  shows "fatfile_cluster_walk f (word_of_nat m) alloc s = Some (Inr (if m < length cs then word_of_nat (cs ! m) else FAT32_USED), s)"
  using assms by (rule cluster_walk_nth)

theorem cluster_walk_correct_witness:
  "fatfile_cluster_walk 0x20000000 (word_of_nat 1) False small_fat = Some (Inr 3, small_fat)"
  using cluster_walk_correct [OF small_fat_ready [of 4] small_fat_chain(1), of 1 "0x20000000" False] small_fat_first by simp



text \<open>
  C32 (free_chain_correct). The loop of \<open>deleteUpdateFat\<close> ends for every file whose clusters form a chain, and then exactly the
  entries of these clusters are free; all other entries, the mappings and the disk are as they were.
\<close>

theorem free_chain_correct:
  assumes "fat_ready n s" and "chain (fat s) cs" and "distinct cs" and "\<forall>c\<in>set cs. c < n"
  shows "\<exists>s'. free_chain (word_of_nat (hd cs)) s = Some s' \<and> fat_upd n s s' (\<lambda>c. if c \<in> set cs then FAT32_FREE else fat s c)"
  using free_chain_frees [OF fat_upd_refl [OF assms(1)] assms(2-4)] .

theorem free_chain_correct_witness:
  "\<exists>s'. free_chain 2 small_fat = Some s' \<and> fat s' 2 = 0 \<and> fat s' 3 = 0"
  using free_chain_correct [OF small_fat_ready [of 4] small_fat_chain(1)] by (auto simp: fat_upd_def FAT32_FREE_def)

end
