(* ===== verification/Fsformat.thy ===== *)
theory Fsformat
  imports Fs
begin

text \<open>
  The host tool that builds the disk image, \<open>tools/fsformat.c\<close>. The memory of the tool is kept as flat memory: \<open>disk[b].data\<close> is at
  \<open>BY2BLK * b\<close> and the variable \<open>super\<close> behind the last block, so that a \<open>struct File *\<close> is an address with the fields of \<open>Fs\<close>; the types of the blocks
  are kept apart. The host is little endian, and the blocks are turned around for a big endian target.

  The files and directories of the host are values: the bytes \<open>read\<close> delivers until the end, the entries \<open>readdir\<close> delivers, \<open>None\<close>
  for one that cannot be opened. A failed assertion, a call of \<open>exit\<close> and an access outside of \<open>disk\<close> or of the block of an entry is \<open>None\<close>.
\<close>

section \<open>The image\<close>

definition NBLOCK :: u32 where "NBLOCK = 1024"
definition BLOCK_FREE :: u32 where "BLOCK_FREE = 0"
definition BLOCK_BOOT :: u32 where "BLOCK_BOOT = 1"
definition BLOCK_BMAP :: u32 where "BLOCK_BMAP = 2"
definition BLOCK_SUPER :: u32 where "BLOCK_SUPER = 3"
definition BLOCK_DATA :: u32 where "BLOCK_DATA = 4"
definition BLOCK_FILE :: u32 where "BLOCK_FILE = 5"
definition BLOCK_INDEX :: u32 where "BLOCK_INDEX = 6"

record image =
  mem :: bmem
  btype :: "u32 \<Rightarrow> u32"
  nbitblock :: u32
  nextbno :: u32

definition blk :: "u32 \<Rightarrow> u32" where "blk b = BY2BLK * b"
definition super_at :: u32 where "super_at = BY2BLK * NBLOCK"
definition SIZEOF_SUPER :: nat where "SIZEOF_SUPER = 264"

definition get32 :: "u32 \<Rightarrow> image \<Rightarrow> u32" where "get32 a s = load_word (mem s) a"
definition put32 :: "u32 \<Rightarrow> u32 \<Rightarrow> image \<Rightarrow> image" where "put32 a v s = s\<lparr>mem := store_word a v (mem s)\<rparr>"
definition write_bytes :: "u32 \<Rightarrow> u8 list \<Rightarrow> image \<Rightarrow> image" where
  "write_bytes a xs s = s\<lparr>mem := (\<lambda>x. if unat (x - a) < length xs then xs ! unat (x - a) else mem s x)\<rparr>"

text \<open>The memory of the tool at its start.\<close>

definition blank :: image where
  "blank = \<lparr>mem = (\<lambda>_. 0), btype = (\<lambda>_. BLOCK_FREE), nbitblock = 0, nextbno = 0\<rparr>"

section \<open>Byte order\<close>

definition reverse :: "u32 \<Rightarrow> bmem \<Rightarrow> bmem" where
  "reverse p m = (
     let y = load_word m p
     in m(p + 3 := ucast (y AND 0xFF), p + 2 := ucast (drop_bit 8 y AND 0xFF), p + 1 := ucast (drop_bit 16 y AND 0xFF),
          p := ucast (drop_bit 24 y AND 0xFF)))"

definition reverse_all :: "u32 list \<Rightarrow> bmem \<Rightarrow> bmem" where
  "reverse_all ps m = fold reverse ps m"

text \<open>The words of a \<open>struct File\<close>, in the order of the calls.\<close>

definition file_words :: "u32 \<Rightarrow> u32 list" where
  "file_words f = [f_size f, f_type f] @ map (\<lambda>i. f_direct f (word_of_nat i)) [0..<unat NDIRECT] @ [f_indirect f]"

primrec reverse_files :: "u32 list \<Rightarrow> bmem \<Rightarrow> bmem" where
  "reverse_files [] m = m"
| "reverse_files (f # fs) m = (if m f = 0 then m else reverse_files fs (reverse_all (file_words f) m))"

definition slots :: "u32 \<Rightarrow> u32 list" where
  "slots b = map (\<lambda>i. blk b + BY2FILE * word_of_nat i) [0..<FILE2BLK]"

definition reverse_block :: "u32 \<Rightarrow> image \<Rightarrow> image" where
  "reverse_block b s = (
     let p = blk b
     in if btype s b = BLOCK_SUPER then s\<lparr>mem := reverse_all ([s_magic p, s_nblocks p] @ file_words (s_root p)) (mem s)\<rparr>
        else if btype s b = BLOCK_FILE then s\<lparr>mem := reverse_files (slots b) (mem s)\<rparr>
        else if btype s b = BLOCK_INDEX \<or> btype s b = BLOCK_BMAP then
          s\<lparr>mem := reverse_all (map (\<lambda>i. p + 4 * word_of_nat i) [0..<unat BY2BLK div 4]) (mem s)\<rparr>
        else s)"

section \<open>Start and end\<close>

definition root_name :: "u8 list" where "root_name = [47, 114, 111, 111, 116, 49]"

definition mark_bmap :: "nat \<Rightarrow> image \<Rightarrow> image" where
  "mark_bmap i s = s\<lparr>btype := (btype s)(2 + word_of_nat i := BLOCK_BMAP)\<rparr>"

definition fill_bmap :: "nat \<Rightarrow> image \<Rightarrow> image" where
  "fill_bmap i s = s\<lparr>mem := filled (blk (2 + word_of_nat i)) (unat BY2BLK) 0xFF (mem s)\<rparr>"

definition init_disk :: "image \<Rightarrow> image" where
  "init_disk s = (
     let s = s\<lparr>btype := (btype s)(0 := BLOCK_BOOT)\<rparr>;
         n = (NBLOCK + BIT2BLK - 1) div BIT2BLK;
         s = s\<lparr>nbitblock := n, nextbno := 2 + n\<rparr>;
         s = fold mark_bmap [0..<unat n] s;
         s = fold fill_bmap [0..<unat n] s;
         s = (if NBLOCK \<noteq> n * BIT2BLK then
                let diff = NBLOCK mod BIT2BLK div 8
                in s\<lparr>mem := filled (blk (2 + (n - 1)) + diff) (unat (BY2BLK - diff)) 0 (mem s)\<rparr>
              else s);
         s = s\<lparr>btype := (btype s)(1 := BLOCK_SUPER)\<rparr>;
         s = put32 (s_magic super_at) FS_MAGIC s;
         s = put32 (s_nblocks super_at) NBLOCK s;
         s = put32 (f_type (s_root super_at)) FTYPE_DIR s
     in write_bytes (s_root super_at) (root_name @ [0]) s)"

definition clear_bit :: "nat \<Rightarrow> image \<Rightarrow> image" where
  "clear_bit k s = (
     let i = word_of_nat k;
         a = blk (2 + i div BIT2BLK) + 4 * (i mod BIT2BLK div 32)
     in put32 a (get32 a s AND NOT (push_bit (k mod 32) 1)) s)"

definition flush_bitmap :: "image \<Rightarrow> image" where
  "flush_bitmap s = fold clear_bit [0..<unat (nextbno s)] s"

text \<open>The image file is what \<open>disk\<close> holds in the end.\<close>

definition finish_fs :: "bool \<Rightarrow> image \<Rightarrow> image" where
  "finish_fs reverse_endian s = (
     let s = write_bytes (blk 1) (map (\<lambda>i. mem s (super_at + word_of_nat i)) [0..<SIZEOF_SUPER]) s
     in if reverse_endian then fold (\<lambda>i. reverse_block (word_of_nat i)) [0..<1024] s else s)"

section \<open>Blocks and files\<close>

definition next_block :: "u32 \<Rightarrow> image \<Rightarrow> (u32 \<times> image) option" where
  "next_block ty s = (
     if nextbno s < NBLOCK then Some (nextbno s, s\<lparr>btype := (btype s)(nextbno s := ty), nextbno := nextbno s + 1\<rparr>)
     else None)"

definition indirect_slot :: "u32 \<Rightarrow> nat \<Rightarrow> image \<Rightarrow> u32 option" where
  "indirect_slot f i s = (if get32 (f_indirect f) s < NBLOCK then Some (blk (get32 (f_indirect f) s) + 4 * word_of_nat i) else None)"

definition save_block_link :: "u32 \<Rightarrow> nat \<Rightarrow> u32 \<Rightarrow> image \<Rightarrow> image option" where
  "save_block_link f nblk bno s = (
     if nblk \<ge> unat NINDIRECT then None
     else if nblk < unat NDIRECT then Some (put32 (f_direct f (word_of_nat nblk)) bno s)
     else do {
       s \<leftarrow> (if get32 (f_indirect f) s = 0 then do { (b, s) \<leftarrow> next_block BLOCK_INDEX s; Some (put32 (f_indirect f) b s) } else Some s);
       a \<leftarrow> indirect_slot f nblk s;
       Some (put32 a bno s)
     })"

definition make_link_block :: "u32 \<Rightarrow> nat \<Rightarrow> image \<Rightarrow> (u32 \<times> image) option" where
  "make_link_block dirf nblk s = do {
     (bno, s) \<leftarrow> next_block BLOCK_FILE s;
     s \<leftarrow> save_block_link dirf nblk bno s;
     Some (bno, put32 (f_size dirf) (get32 (f_size dirf) s + BY2BLK) s)
   }"

definition dir_bno :: "u32 \<Rightarrow> nat \<Rightarrow> image \<Rightarrow> u32 option" where
  "dir_bno dirf i s = (
     if i < unat NDIRECT then Some (get32 (f_direct dirf (word_of_nat i)) s)
     else do { a \<leftarrow> indirect_slot dirf i s; Some (get32 a s) })"

text \<open>The first unused entry of the first \<open>n\<close> blocks, if there is one.\<close>

primrec unused_file :: "u32 \<Rightarrow> nat list \<Rightarrow> image \<Rightarrow> u32 option option" where
  "unused_file dirf [] s = Some None"
| "unused_file dirf (i # is) s = do {
     bno \<leftarrow> dir_bno dirf i s;
     if bno \<ge> NBLOCK then None
     else case filter (\<lambda>f. mem s f = 0) (slots bno) of
       f # _ \<Rightarrow> Some (Some f)
     | [] \<Rightarrow> unused_file dirf is s
   }"

definition create_file :: "u32 \<Rightarrow> image \<Rightarrow> (u32 \<times> image) option" where
  "create_file dirf s = do {
     let nblk = unat (get32 (f_size dirf) s div BY2BLK);
     r \<leftarrow> unused_file dirf [0..<nblk] s;
     (case r of
        Some f \<Rightarrow> Some (f, s)
      | None \<Rightarrow> do { (bno, s) \<leftarrow> make_link_block dirf nblk s; Some (blk bno, s) })
   }"

function write_blocks :: "u32 \<Rightarrow> nat \<Rightarrow> u8 list \<Rightarrow> image \<Rightarrow> image option" where
  "write_blocks f iblk xs s = (
     if xs = [] then Some s
     else if nextbno s \<ge> NBLOCK then None
     else do {
       (b, s) \<leftarrow> next_block BLOCK_DATA (write_bytes (blk (nextbno s)) (take (unat BY2BLK) xs) s);
       s \<leftarrow> save_block_link f iblk b s;
       write_blocks f (Suc iblk) (drop (unat BY2BLK) xs) s
     })"
  by pat_completeness auto
termination
  by (relation "measure (\<lambda>(f, iblk, xs, s). length xs)") (auto simp: fs_defs BY2PG_def)

declare write_blocks.simps [simp del]

text \<open>What follows the last slash.\<close>

definition after_slash :: "u8 list \<Rightarrow> u8 list" where
  "after_slash p = rev (takeWhile (\<lambda>c. c \<noteq> 47) (rev p))"

text \<open>\<open>strcpy\<close> to \<open>f_name\<close>, which runs over the other fields when the name is too long, but not out of the block.\<close>

definition set_name :: "u32 \<Rightarrow> u8 list \<Rightarrow> image \<Rightarrow> image option" where
  "set_name f name s = (if unat (f mod BY2BLK) + length name < unat BY2BLK then Some (write_bytes f (name @ [0]) s) else None)"

definition write_file :: "u32 \<Rightarrow> u8 list \<Rightarrow> u8 list option \<Rightarrow> image \<Rightarrow> image option" where
  "write_file dirf path content s = do {
     (target, s) \<leftarrow> create_file dirf s;
     s \<leftarrow> set_name target (after_slash path) s;
     let s = put32 (f_size target) (case content of Some xs \<Rightarrow> word_of_nat (length xs) | None \<Rightarrow> - 1) s;
     let s = put32 (f_type target) FTYPE_REG s;
     write_blocks target 0 (case content of Some xs \<Rightarrow> xs | None \<Rightarrow> []) s
   }"

section \<open>Directories\<close>

datatype host = Regular "u8 list option" | Other "u8 list option" | Directory "(u8 list \<times> host) list option"

text \<open>\<open>basename\<close> of the C library.\<close>

definition base_name :: "u8 list \<Rightarrow> u8 list" where
  "base_name p = (
     let q = rev (dropWhile (\<lambda>c. c = 47) (rev p))
     in if p = [] then [46] else if q = [] then [47] else after_slash q)"

definition start_directory :: "u32 \<Rightarrow> u8 list \<Rightarrow> image \<Rightarrow> (u32 \<times> image) option" where
  "start_directory dirf path s = do {
     (pdir, s) \<leftarrow> create_file dirf s;
     let name = take (MAXNAMELEN - 1) (base_name path);
     let s = write_bytes pdir (name @ replicate (MAXNAMELEN - 1 - length name) 0) s;
     if mem s (pdir + word_of_nat (MAXNAMELEN - 1)) \<noteq> 0 then None
     else Some (pdir, put32 (f_type pdir) FTYPE_DIR s)
   }"

function write_directory :: "u32 \<Rightarrow> u8 list \<Rightarrow> (u8 list \<times> host) list option \<Rightarrow> image \<Rightarrow> image option"
  and write_entries :: "u32 \<Rightarrow> u8 list \<Rightarrow> (u8 list \<times> host) list \<Rightarrow> image \<Rightarrow> image option" where
  "write_directory dirf path None s = Some s"
| "write_directory dirf path (Some es) s = do {
     (pdir, s) \<leftarrow> start_directory dirf path s;
     write_entries pdir path es s
   }"
| "write_entries pdir path [] s = Some s"
| "write_entries pdir path ((name, h) # es) s = do {
     s \<leftarrow> (if name = [46] \<or> name = [46, 46] then Some s
           else let buf = path @ [47] @ name
                in case h of
                     Directory d \<Rightarrow> write_directory pdir buf d s
                   | Regular c \<Rightarrow> write_file pdir buf c s
                   | Other c \<Rightarrow> write_file pdir buf c s);
     write_entries pdir path es s
   }"
  by pat_completeness auto
termination
  by (relation "measure (case_sum (\<lambda>(_, _, d, _). size_option (size_list (size_prod (\<lambda>_. 0) size)) d)
        (\<lambda>(_, _, es, _). size_list (size_prod (\<lambda>_. 0) size) es))") simp_all

text \<open>The arguments after the name of the image, with what \<open>stat\<close> finds; \<open>None\<close> when there is no such file.\<close>

definition write_argument :: "u8 list \<times> host option \<Rightarrow> image \<Rightarrow> image option" where
  "write_argument arg s = (
     case arg of
       (name, Some (Directory d)) \<Rightarrow> write_directory (s_root super_at) name d s
     | (name, Some (Regular c)) \<Rightarrow> write_file (s_root super_at) name c s
     | _ \<Rightarrow> None)"

definition fsformat_main :: "bool \<Rightarrow> (u8 list \<times> host option) list \<Rightarrow> image option" where
  "fsformat_main reverse_endian args = (
     let s = init_disk blank
     in if args = [] then None
        else do {
          s \<leftarrow> ofold write_argument args s;
          Some (finish_fs reverse_endian (flush_bitmap s))
        })"

end
