(* ===== verification/Fsformat_Props.thy ===== *)
theory Fsformat_Props
  imports Fsformat
begin

text \<open>
  What the image holds: a file that has been written is read back through its links, and the bitmap marks the blocks in use.
\<close>

section \<open>Addresses\<close>

lemmas image_defs = NBLOCK_def blk_def fs_defs BY2PG_def

lemma unat_blk: "b \<le> 1024 \<Longrightarrow> unat (blk b) = 4096 * unat b"
proof -
  assume "b \<le> 1024"
  then have "unat b \<le> 1024" by (simp add: word_le_nat_alt)
  then show ?thesis by (simp add: image_defs unat_word_ariths)
qed

lemma unat_off: "unat (a :: u32) + k < 4294967296 \<Longrightarrow> unat (a + word_of_nat k) = unat a + k"
  by (simp add: unat_word_ariths unat_of_nat)

lemma unat_diff_lt:
  assumes "unat (a :: u32) + n \<le> 4294967296"
  shows "unat (x - a) < n \<longleftrightarrow> unat a \<le> unat x \<and> unat x < unat a + n"
proof (cases "a \<le> x")
  case True
  then have "unat (x - a) = unat x - unat a" "unat a \<le> unat x" by (simp_all add: unat_sub word_le_nat_alt)
  then show ?thesis using assms by auto
next
  case False
  then have lt: "unat x < unat a" by (simp add: word_le_nat_alt)
  have "unat (x - a) = 4294967296 + unat x - unat a"
    using lt unat_u32 [of a] by (simp add: unat_sub_if')
  then show ?thesis using lt assms by auto
qed

section \<open>Stores and what they leave\<close>

definition outside :: "u32 \<Rightarrow> nat \<Rightarrow> u32 \<Rightarrow> bool" where
  "outside a n x \<longleftrightarrow> unat x < unat a \<or> unat a + n \<le> unat x"

lemma put32_fields [simp]: "btype (put32 a v s) = btype s" "nextbno (put32 a v s) = nextbno s" "nbitblock (put32 a v s) = nbitblock s"
  by (simp_all add: put32_def)

lemma write_bytes_fields [simp]: "btype (write_bytes a xs s) = btype s" "nextbno (write_bytes a xs s) = nextbno s" "nbitblock (write_bytes a xs s) = nbitblock s"
  by (simp_all add: write_bytes_def)

lemma mem_put32: "unat a + 4 \<le> 4294967296 \<Longrightarrow> outside a 4 x \<Longrightarrow> mem (put32 a v s) x = mem s x"
proof -
  assume a: "unat a + 4 \<le> 4294967296" "outside a 4 x"
  have "x \<noteq> a + word_of_nat i" if "i < 4" for i
  proof
    assume "x = a + word_of_nat i"
    then have "unat x = unat a + i" using a(1) that by (simp add: unat_off)
    then show False using a(2) that by (simp add: outside_def)
  qed
  from this [of 0] this [of 1] this [of 2] this [of 3] show ?thesis by (simp add: put32_def store_word_def)
qed

lemma mem_put32_cases: "unat a + 4 \<le> 4294967296 \<Longrightarrow> mem (put32 a v s) x = mem s x \<or> unat a \<le> unat x \<and> unat x < unat a + 4"
  using mem_put32 [of a x v s] unfolding outside_def by linarith

lemma mem_write_bytes: "unat a + length xs \<le> 4294967296 \<Longrightarrow> outside a (length xs) x \<Longrightarrow> mem (write_bytes a xs s) x = mem s x"
  using unat_diff_lt [of a "length xs" x] by (auto simp: write_bytes_def outside_def)

lemma mem_write_bytes_nth: "i < length xs \<Longrightarrow> length xs < 4294967296 \<Longrightarrow> mem (write_bytes a xs s) (a + word_of_nat i) = xs ! i"
  by (simp add: write_bytes_def unat_of_nat)

lemma get32_same [simp]: "get32 a (put32 a v s) = v"
  by (simp add: get32_def put32_def load_store_same)

lemma get32_cong:
  assumes "unat a + 4 \<le> 4294967296" "\<And>x. unat a \<le> unat x \<Longrightarrow> unat x < unat a + 4 \<Longrightarrow> mem s' x = mem s x"
  shows "get32 a s' = get32 a s"
proof -
  have "mem s' (a + word_of_nat i) = mem s (a + word_of_nat i)" if "i < 4" for i
    using assms unat_off [of a i] that by simp
  from this [of 0] this [of 1] this [of 2] this [of 3] show ?thesis by (simp add: get32_def load_word_def)
qed

lemma get32_put32: "unat a + 4 \<le> 4294967296 \<Longrightarrow> unat b + 4 \<le> 4294967296 \<Longrightarrow> unat a + 4 \<le> unat b \<or> unat b + 4 \<le> unat a \<Longrightarrow> get32 a (put32 b v s) = get32 a s"
  by (rule get32_cong) (auto simp: mem_put32 outside_def)

lemma get32_write_bytes:
  "unat a + 4 \<le> 4294967296 \<Longrightarrow> unat b + length xs \<le> 4294967296 \<Longrightarrow> unat a + 4 \<le> unat b \<or> unat b + length xs \<le> unat a \<Longrightarrow>
   get32 a (write_bytes b xs s) = get32 a s"
  by (rule get32_cong) (auto simp: mem_write_bytes outside_def)

lemma get32_fields [simp]: "get32 a (s\<lparr>btype := t\<rparr>) = get32 a s" "get32 a (s\<lparr>nextbno := n\<rparr>) = get32 a s"
  by (simp_all add: get32_def)

section \<open>The links of a file\<close>

abbreviation ind :: "u32 \<Rightarrow> image \<Rightarrow> u32" where "ind f s \<equiv> get32 (f_indirect f) s"

text \<open>The block with number \<open>i\<close> of a file.\<close>

definition fblock :: "u32 \<Rightarrow> nat \<Rightarrow> image \<Rightarrow> u32" where
  "fblock f i s = (if i < 10 then get32 (f_direct f (word_of_nat i)) s else get32 (blk (ind f s) + 4 * word_of_nat i) s)"

lemma unat_fields:
  assumes "unat f + 256 \<le> 4294967296"
  shows "unat (f_indirect f) = unat f + 176" "unat (f_size f) = unat f + 128" "unat (f_type f) = unat f + 132"
    "i < 10 \<Longrightarrow> unat (f_direct f (word_of_nat i)) = unat f + 136 + 4 * i"
  using assms by (simp_all add: file_fields unat_word_ariths unat_of_nat)

lemma unat_index: "b \<le> 1023 \<Longrightarrow> i < 1024 \<Longrightarrow> unat (blk b + 4 * word_of_nat i) = 4096 * unat b + 4 * i"
proof -
  assume a: "b \<le> 1023" "i < 1024"
  then have "unat b \<le> 1023" "unat (blk b) = 4096 * unat b" using unat_blk [of b] by (simp_all add: word_le_nat_alt)
  then show ?thesis using a by (simp add: unat_word_ariths unat_of_nat)
qed

text \<open>
  A file below block \<open>n0\<close> whose first \<open>k\<close> links lead to blocks from \<open>n0\<close> on; the eleventh link needs the index block.
\<close>

definition linked :: "nat \<Rightarrow> u32 \<Rightarrow> nat \<Rightarrow> image \<Rightarrow> bool" where
  "linked n0 f k s \<longleftrightarrow> n0 \<le> unat (nextbno s) \<and> unat (nextbno s) \<le> 1024 \<and> unat f + 256 \<le> 4096 * n0
     \<and> (\<forall>i<k. n0 \<le> unat (fblock f i s) \<and> unat (fblock f i s) < unat (nextbno s) \<and> fblock f i s \<noteq> ind f s)
     \<and> (if k \<le> 10 then ind f s = 0 else n0 \<le> unat (ind f s) \<and> unat (ind f s) < unat (nextbno s))"

text \<open>Memory below the next block that is neither a link of the file nor in its index block stays.\<close>

definition in_block :: "u32 \<Rightarrow> u32 \<Rightarrow> bool" where
  "in_block b x \<longleftrightarrow> 4096 * unat b \<le> unat x \<and> unat x < 4096 * unat b + 4096"

definition keeps :: "u32 \<Rightarrow> image \<Rightarrow> image \<Rightarrow> bool" where
  "keeps f s s' \<longleftrightarrow> (\<forall>x. mem s' x = mem s x \<or> unat f + 136 \<le> unat x \<and> unat x < unat f + 180 \<or> ind f s' \<noteq> 0 \<and> in_block (ind f s') x
     \<or> 4096 * unat (nextbno s) \<le> unat x)"

definition grows :: "u32 \<Rightarrow> image \<Rightarrow> image \<Rightarrow> bool" where
  "grows f s s' \<longleftrightarrow> keeps f s s' \<and> (ind f s = 0 \<or> ind f s' = ind f s) \<and> unat (nextbno s) \<le> unat (nextbno s')"

lemma links_grow_trans: "grows f s t \<Longrightarrow> grows f t u \<Longrightarrow> grows f s u"
  unfolding grows_def keeps_def
proof (elim conjE, intro conjI allI)
  fix x
  assume a: "\<forall>x. mem t x = mem s x \<or> unat f + 136 \<le> unat x \<and> unat x < unat f + 180 \<or> ind f t \<noteq> 0 \<and> in_block (ind f t) x \<or> 4096 * unat (nextbno s) \<le> unat x"
    "\<forall>x. mem u x = mem t x \<or> unat f + 136 \<le> unat x \<and> unat x < unat f + 180 \<or> ind f u \<noteq> 0 \<and> in_block (ind f u) x \<or> 4096 * unat (nextbno t) \<le> unat x"
    "ind f t = 0 \<or> ind f u = ind f t" "unat (nextbno s) \<le> unat (nextbno t)"
  show "mem u x = mem s x \<or> unat f + 136 \<le> unat x \<and> unat x < unat f + 180 \<or> ind f u \<noteq> 0 \<and> in_block (ind f u) x \<or> 4096 * unat (nextbno s) \<le> unat x"
    using spec [OF a(1), of x] spec [OF a(2), of x] a(3,4) by (elim disjE) auto
qed auto

lemma kept_below:
  "grows f s s' \<Longrightarrow> unat f + 180 \<le> unat x \<Longrightarrow> unat x < 4096 * unat (nextbno s) \<Longrightarrow> \<not> in_block (ind f s') x \<Longrightarrow> mem s' x = mem s x"
  unfolding grows_def keeps_def by (auto dest!: spec [of _ x])

lemma save_direct: "k < 10 \<Longrightarrow> save_block_link f k b s = Some (put32 (f_direct f (word_of_nat k)) b s)"
  by (simp add: save_block_link_def image_defs)

lemma save_indirect:
  "10 \<le> k \<Longrightarrow> k < 1024 \<Longrightarrow> ind f s \<noteq> 0 \<Longrightarrow> unat (ind f s) < 1024 \<Longrightarrow>
   save_block_link f k b s = Some (put32 (blk (ind f s) + 4 * word_of_nat k) b s)"
  by (simp add: save_block_link_def indirect_slot_def NBLOCK_def fs_defs BY2PG_def word_less_nat_alt)

lemma save_indirect_new:
  "10 \<le> k \<Longrightarrow> k < 1024 \<Longrightarrow> ind f s = 0 \<Longrightarrow> unat (nextbno s) < 1024 \<Longrightarrow>
   save_block_link f k b s = Some (put32 (blk (nextbno s) + 4 * word_of_nat k) b
     (put32 (f_indirect f) (nextbno s) (s\<lparr>btype := (btype s)(nextbno s := BLOCK_INDEX), nextbno := nextbno s + 1\<rparr>)))"
  by (simp add: save_block_link_def indirect_slot_def next_block_def NBLOCK_def fs_defs BY2PG_def word_less_nat_alt)

lemma linked_range:
  assumes "linked n0 f k s"
  shows "unat f + 256 \<le> 4096 * n0" "n0 \<le> unat (nextbno s)" "unat (nextbno s) \<le> 1024" "unat f + 256 \<le> 4194304" "0 < n0"
  using assms by (auto simp: linked_def)

lemma fblock_cong:
  assumes "unat f + 256 \<le> 4194304" "i < 10 \<or> i < 1024 \<and> unat (ind f s) < 1024"
    and "ind f s' = ind f s \<or> i < 10"
    and "i < 10 \<Longrightarrow> get32 (f_direct f (word_of_nat i)) s' = get32 (f_direct f (word_of_nat i)) s"
    and "\<not> i < 10 \<Longrightarrow> get32 (blk (ind f s) + 4 * word_of_nat i) s' = get32 (blk (ind f s) + 4 * word_of_nat i) s"
  shows "fblock f i s' = fblock f i s"
  using assms by (auto simp: fblock_def)

lemma linked_Suc:
  assumes l: "linked n0 f k s" and "ind f s' = ind f s" "nextbno s' = nextbno s" and same: "\<And>i. i < k \<Longrightarrow> fblock f i s' = fblock f i s"
    and new: "fblock f k s' = b" and b: "n0 \<le> unat b" "unat b < unat (nextbno s)" "b \<noteq> ind f s" and k: "k \<noteq> 10"
  shows "linked n0 f (Suc k) s'"
proof -
  have "n0 \<le> unat (fblock f i s') \<and> unat (fblock f i s') < unat (nextbno s') \<and> fblock f i s' \<noteq> ind f s'" if "i < Suc k" for i
    using that assms(2,3) same [of i] new b l [unfolded linked_def] by (cases "i = k") auto
  moreover have "if Suc k \<le> 10 then ind f s' = 0 else n0 \<le> unat (ind f s') \<and> unat (ind f s') < unat (nextbno s')"
    using l [unfolded linked_def] assms(2,3) k by (auto split: if_splits)
  ultimately show ?thesis using l assms(3) unfolding linked_def by simp
qed

lemma link_direct:
  assumes l: "linked n0 f k s" and k: "k < 10" and b: "n0 \<le> unat b" "unat b < unat (nextbno s)"
  shows "\<exists>s'. save_block_link f k b s = Some s' \<and> linked n0 f (Suc k) s' \<and> fblock f k s' = b \<and> (\<forall>i<k. fblock f i s' = fblock f i s)
    \<and> grows f s s' \<and> nextbno s' = nextbno s"
proof -
  let ?s = "put32 (f_direct f (word_of_nat k)) b s"
  note r = linked_range [OF l]
  have u: "unat f + 256 \<le> 4294967296" using r by simp
  note f = unat_fields [OF u]
  have ind: "ind f ?s = ind f s" using f k r by (intro get32_put32) auto
  have same: "fblock f i ?s = fblock f i s" if "i < k" for i
    using that k f(4) r by (auto simp: fblock_def intro!: get32_put32)
  have new: "fblock f k ?s = b" using k by (simp add: fblock_def)
  have zero: "ind f s = 0" "b \<noteq> 0" using l k b r by (auto simp: linked_def)
  have "linked n0 f (Suc k) ?s" by (rule linked_Suc [OF l ind _ same new]) (use k b zero in auto)
  moreover have "grows f s ?s"
    using ind f(4) [OF k] k r by (auto simp: grows_def keeps_def outside_def intro!: mem_put32)
  ultimately show ?thesis using save_direct [OF k] same new by auto
qed

lemma link_indirect:
  assumes l: "linked n0 f k s" and k: "10 < k" "k < 1024" and b: "n0 \<le> unat b" "unat b < unat (nextbno s)" "b \<noteq> ind f s"
  shows "\<exists>s'. save_block_link f k b s = Some s' \<and> linked n0 f (Suc k) s' \<and> fblock f k s' = b \<and> (\<forall>i<k. fblock f i s' = fblock f i s)
    \<and> grows f s s' \<and> nextbno s' = nextbno s"
proof -
  let ?s = "put32 (blk (ind f s) + 4 * word_of_nat k) b s"
  note r = linked_range [OF l]
  have u: "unat f + 256 \<le> 4294967296" using r by simp
  note f = unat_fields [OF u]
  have i: "n0 \<le> unat (ind f s)" "unat (ind f s) < unat (nextbno s)" using l k by (auto simp: linked_def)
  then have i': "ind f s \<le> 1023" "ind f s \<noteq> 0" "unat (ind f s) < 1024" using r by (auto simp: word_le_nat_alt)
  note x = unat_index [OF i'(1)]
  have ind: "ind f ?s = ind f s" using f x [of k] k r i by (intro get32_put32) auto
  have same: "fblock f j ?s = fblock f j s" if "j < k" for j
  proof (rule fblock_cong)
    show "get32 (f_direct f (word_of_nat j)) ?s = get32 (f_direct f (word_of_nat j)) s" if "j < 10"
      using that f(4) x [of k] k r i by (intro get32_put32) auto
    show "get32 (blk (ind f s) + 4 * word_of_nat j) ?s = get32 (blk (ind f s) + 4 * word_of_nat j) s" if "\<not> j < 10"
      using \<open>j < k\<close> x [of j] x [of k] k r i by (intro get32_put32) auto
  qed (use r that k i' ind in auto)
  have new: "fblock f k ?s = b" using k ind by (simp add: fblock_def)
  have "linked n0 f (Suc k) ?s" by (rule linked_Suc [OF l ind _ same new]) (use k b in auto)
  moreover have "grows f s ?s"
    using ind i' x [of k] k r i by (auto simp: grows_def keeps_def outside_def in_block_def intro!: mem_put32)
  ultimately show ?thesis using save_indirect [of k f s b] k i' same new by auto
qed

lemma link_index:
  assumes l: "linked n0 f 10 s" and b: "n0 \<le> unat b" "unat b < unat (nextbno s)" and room: "unat (nextbno s) < 1024"
  shows "\<exists>s'. save_block_link f 10 b s = Some s' \<and> linked n0 f 11 s' \<and> fblock f 10 s' = b \<and> (\<forall>i<10. fblock f i s' = fblock f i s)
    \<and> grows f s s' \<and> nextbno s' = nextbno s + 1"
proof -
  let ?n = "nextbno s"
  let ?t = "put32 (f_indirect f) ?n (s\<lparr>btype := (btype s)(?n := BLOCK_INDEX), nextbno := ?n + 1\<rparr>)"
  let ?s = "put32 (blk ?n + 4 * word_of_nat 10) b ?t"
  note r = linked_range [OF l]
  have u: "unat f + 256 \<le> 4294967296" using r by simp
  note f = unat_fields [OF u]
  have n: "?n \<le> 1023" "?n \<noteq> 0" "unat (?n + 1) = unat ?n + 1" using r room by (auto simp: word_le_nat_alt unat_word_ariths)
  note x = unat_index [OF n(1), of 10, simplified]
  have zero: "ind f s = 0" using l by (simp add: linked_def)
  have "ind f ?s = ind f ?t" using f x r by (intro get32_put32) auto
  then have ind: "ind f ?s = ?n" by simp
  have same: "fblock f j ?s = fblock f j s" if "j < 10" for j
  proof -
    have "get32 (f_direct f (word_of_nat j)) ?s = get32 (f_direct f (word_of_nat j)) ?t" using that f(4) x r by (intro get32_put32) auto
    also have "\<dots> = get32 (f_direct f (word_of_nat j)) s" using that f r by (subst get32_put32) auto
    finally show ?thesis using that by (simp add: fblock_def)
  qed
  have new: "fblock f 10 ?s = b" using ind by (simp add: fblock_def)
  have nx: "unat (nextbno ?s) = unat ?n + 1" using n(3) by simp
  have "n0 \<le> unat (fblock f i ?s) \<and> unat (fblock f i ?s) < unat (nextbno ?s) \<and> fblock f i ?s \<noteq> ind f ?s" if "i < 11" for i
  proof (cases "i = 10")
    case True
    then show ?thesis unfolding True new ind nx using b by auto
  next
    case False
    then have i: "i < 10" using that by simp
    then have "n0 \<le> unat (fblock f i s) \<and> unat (fblock f i s) < unat ?n" using l by (simp add: linked_def)
    then show ?thesis unfolding same [OF i] ind nx by auto
  qed
  then have "linked n0 f 11 ?s" unfolding linked_def ind nx using r room by auto
  moreover have "keeps f s ?s"
    unfolding keeps_def
  proof
    fix y
    have "mem ?s y = mem ?t y \<or> in_block ?n y" using mem_put32_cases [of "blk ?n + 4 * word_of_nat 10" b ?t y] x r room
      by (auto simp: in_block_def)
    moreover have "mem ?t y = mem s y \<or> unat f + 136 \<le> unat y \<and> unat y < unat f + 180"
      using mem_put32_cases [of "f_indirect f" ?n "s\<lparr>btype := (btype s)(?n := BLOCK_INDEX), nextbno := ?n + 1\<rparr>" y] f r by auto
    ultimately show "mem ?s y = mem s y \<or> unat f + 136 \<le> unat y \<and> unat y < unat f + 180 \<or> ind f ?s \<noteq> 0 \<and> in_block (ind f ?s) y
        \<or> 4096 * unat ?n \<le> unat y"
      using ind n(2) by auto
  qed
  then have "grows f s ?s" using zero n(3) by (simp add: grows_def)
  ultimately show ?thesis using save_indirect_new [of 10 f s b] zero room same new by auto
qed

lemma link_step:
  assumes "linked n0 f k s" "k < 1024" "n0 \<le> unat b" "unat b < unat (nextbno s)" "b \<noteq> ind f s" "unat (nextbno s) + (if k = 10 then 1 else 0) \<le> 1024"
  shows "\<exists>s'. save_block_link f k b s = Some s' \<and> linked n0 f (Suc k) s' \<and> fblock f k s' = b \<and> (\<forall>i<k. fblock f i s' = fblock f i s)
    \<and> grows f s s' \<and> unat (nextbno s') = unat (nextbno s) + (if k = 10 then 1 else 0)"
proof -
  consider "k < 10" | "k = 10" | "10 < k" by linarith
  then show ?thesis
  proof cases
    case 1
    then show ?thesis using link_direct [OF assms(1) 1 assms(3,4)] by auto
  next
    case 2
    then have "unat (nextbno s + 1) = unat (nextbno s) + 1" using assms(6) by (simp add: unat_word_ariths)
    then show ?thesis using link_index [of n0 f s b] assms 2 by auto
  next
    case 3
    then show ?thesis using link_indirect [OF assms(1) 3 assms(2-5)] by auto
  qed
qed

section \<open>Writing a file\<close>

text \<open>A block of data is stored in the next block and linked.\<close>

lemma write_step:
  assumes l: "linked n0 f k s" and k: "k < 1024" and ch: "length ch \<le> 4096" and room: "unat (nextbno s) + (if k = 10 then 2 else 1) \<le> 1024"
  shows "\<exists>s'. Option.bind (next_block BLOCK_DATA (write_bytes (blk (nextbno s)) ch s)) (\<lambda>(b, s). save_block_link f k b s) = Some s'
    \<and> linked n0 f (Suc k) s' \<and> fblock f k s' = nextbno s \<and> (\<forall>i<k. fblock f i s' = fblock f i s) \<and> grows f s s'
    \<and> (\<forall>i<length ch. mem s' (blk (nextbno s) + word_of_nat i) = ch ! i) \<and> unat (nextbno s') = unat (nextbno s) + (if k = 10 then 2 else 1)"
proof -
  let ?n = "nextbno s"
  let ?t = "write_bytes (blk ?n) ch s\<lparr>btype := (btype s)(?n := BLOCK_DATA), nextbno := ?n + 1\<rparr>"
  note r = linked_range [OF l]
  have u: "unat f + 256 \<le> 4294967296" using r by simp
  note f = unat_fields [OF u]
  have n: "unat ?n < 1024" "unat (blk ?n) = 4096 * unat ?n" "unat (?n + 1) = unat ?n + 1"
    using room unat_blk [of ?n] by (auto simp: word_le_nat_alt unat_word_ariths split: if_splits)
  have low: "get32 a ?t = get32 a s" if "unat a + 4 \<le> 4096 * unat ?n" for a
    using that n ch get32_write_bytes [of a "blk ?n" ch s] by (simp add: get32_def)
  have ind: "ind f ?t = ind f s" using f r by (intro low) auto
  have same: "fblock f i ?t = fblock f i s" if "i < k" for i
  proof (rule fblock_cong)
    have i: "n0 \<le> unat (ind f s) \<and> unat (ind f s) < unat ?n" if "\<not> i < 10" using that l \<open>i < k\<close> by (auto simp: linked_def split: if_splits)
    then show "i < 10 \<or> i < 1024 \<and> unat (ind f s) < 1024" using \<open>i < k\<close> k n by (cases "i < 10") auto
    show "get32 (f_direct f (word_of_nat i)) ?t = get32 (f_direct f (word_of_nat i)) s" if "i < 10"
      using that f(4) r by (intro low) auto
    show "get32 (blk (ind f s) + 4 * word_of_nat i) ?t = get32 (blk (ind f s) + 4 * word_of_nat i) s" if "\<not> i < 10"
      using i [OF that] unat_index [of "ind f s" i] \<open>i < k\<close> k n by (intro low) (auto simp: word_le_nat_alt)
  qed (use r ind in auto)
  have t: "linked n0 f k ?t" using l same ind n unfolding linked_def by auto
  have new: "?n \<noteq> ind f ?t" using l ind n r unfolding linked_def by (auto split: if_splits)
  have kt: "keeps f s ?t" unfolding keeps_def
  proof
    fix x
    show "mem ?t x = mem s x \<or> unat f + 136 \<le> unat x \<and> unat x < unat f + 180 \<or> ind f ?t \<noteq> 0 \<and> in_block (ind f ?t) x \<or> 4096 * unat ?n \<le> unat x"
      using mem_write_bytes [of "blk ?n" ch x s] n ch by (auto simp: outside_def)
  qed
  from link_step [OF t k, of ?n] obtain s' where s': "save_block_link f k ?n ?t = Some s'" "linked n0 f (Suc k) s'" "fblock f k s' = ?n"
    "\<forall>i<k. fblock f i s' = fblock f i ?t" "grows f ?t s'" "unat (nextbno s') = unat (nextbno ?t) + (if k = 10 then 1 else 0)"
    using new n r room by (auto split: if_splits)
  have "grows f s s'" by (rule links_grow_trans [OF _ s'(5)]) (use kt ind n in \<open>simp add: grows_def\<close>)
  moreover have "mem s' (blk ?n + word_of_nat i) = ch ! i" if "i < length ch" for i
  proof -
    have x: "unat (blk ?n + word_of_nat i) = 4096 * unat ?n + i" using unat_off [of "blk ?n" i] n that ch by simp
    have "ind f s' \<noteq> ?n" using s'(2,3) unfolding linked_def by auto
    then have "\<not> in_block (ind f s') (blk ?n + word_of_nat i)"
      using x that ch by (auto simp: in_block_def word_unat_eq_iff)
    then have "mem s' (blk ?n + word_of_nat i) = mem ?t (blk ?n + word_of_nat i)"
      using kept_below [OF s'(5), of "blk ?n + word_of_nat i"] x that ch r n by simp
    then show ?thesis using mem_write_bytes_nth [OF that, of "blk ?n" s] ch by simp
  qed
  ultimately show ?thesis using s' same n room by (auto simp: next_block_def NBLOCK_def word_less_nat_alt)
qed

definition nblocks :: "u8 list \<Rightarrow> nat" where
  "nblocks xs = (length xs + 4095) div 4096"

lemma nblocks_step: "xs \<noteq> [] \<Longrightarrow> nblocks xs = Suc (nblocks (drop 4096 xs))"
proof -
  assume "xs \<noteq> []"
  then have "length xs + 4095 = 4096 + (length xs - 1)" by (cases xs) auto
  then have "nblocks xs = 1 + (length xs - 1) div 4096"
    using div_add_self1 [of "4096 :: nat" "length xs - 1"] by (simp add: nblocks_def)
  moreover have "(length xs - 1) div 4096 = nblocks (drop 4096 xs)"
  proof (cases "length xs \<le> 4096")
    case True
    then have "length xs - 1 < 4096" by linarith
    then show ?thesis using True by (simp add: nblocks_def)
  next
    case False
    then have "length xs - 1 = length (drop 4096 xs) + 4095" by simp
    then show ?thesis by (simp only: nblocks_def)
  qed
  ultimately show ?thesis by simp
qed

lemma write_blocks_step:
  "xs \<noteq> [] \<Longrightarrow> unat (nextbno s) < 1024 \<Longrightarrow>
   Option.bind (next_block BLOCK_DATA (write_bytes (blk (nextbno s)) (take 4096 xs) s)) (\<lambda>(b, s). save_block_link f k b s) = Some t \<Longrightarrow>
   write_blocks f k xs s = write_blocks f (Suc k) (drop 4096 xs) t"
  by (subst write_blocks.simps) (auto simp: NBLOCK_def fs_defs BY2PG_def word_le_nat_alt)

text \<open>The bytes behind the links, from link \<open>k\<close> on.\<close>

definition holds :: "u32 \<Rightarrow> nat \<Rightarrow> u8 list \<Rightarrow> image \<Rightarrow> bool" where
  "holds f k xs s \<longleftrightarrow> (\<forall>i<length xs. mem s (blk (fblock f (k + i div 4096) s) + word_of_nat (i mod 4096)) = xs ! i)"

lemma holds_Cons:
  assumes "\<And>i. i < length (take 4096 xs) \<Longrightarrow> mem s (blk (fblock f k s) + word_of_nat i) = xs ! i" "holds f (Suc k) (drop 4096 xs) s"
  shows "holds f k xs s"
  unfolding holds_def
proof (intro allI impI)
  fix i
  assume i: "i < length xs"
  show "mem s (blk (fblock f (k + i div 4096) s) + word_of_nat (i mod 4096)) = xs ! i"
  proof (cases "i < 4096")
    case True
    then show ?thesis using assms(1) [of i] i by simp
  next
    case False
    then have "i div 4096 = Suc ((i - 4096) div 4096)" "i mod 4096 = (i - 4096) mod 4096" by (simp_all add: le_div_geq le_mod_geq not_less)
    then show ?thesis using assms(2) [unfolded holds_def, rule_format, of "i - 4096"] i False by simp
  qed
qed

lemma write_blocks_spec:
  assumes "linked n0 f k s" "k + nblocks xs \<le> 1024" "unat (nextbno s) + nblocks xs + (if k \<le> 10 then 1 else 0) \<le> 1024"
  shows "\<exists>s'. write_blocks f k xs s = Some s' \<and> linked n0 f (k + nblocks xs) s' \<and> (\<forall>i<k. fblock f i s' = fblock f i s) \<and> grows f s s' \<and> holds f k xs s'"
  using assms
proof (induction xs arbitrary: k s rule: length_induct)
  case (1 xs)
  note l = "1.prems"(1)
  show ?case
  proof (cases "xs = []")
    case True
    then show ?thesis using l by (subst write_blocks.simps) (auto simp: nblocks_def holds_def grows_def keeps_def)
  next
    case False
    note c = nblocks_step [OF False]
    let ?n = "nextbno s"
    have room: "unat ?n + (if k = 10 then 2 else 1) \<le> 1024" "k < 1024" using "1.prems"(2,3) c by (auto split: if_splits)
    have "length (take 4096 xs) \<le> 4096" by simp
    from write_step [OF l room(2) this room(1)] obtain t where
      t: "Option.bind (next_block BLOCK_DATA (write_bytes (blk ?n) (take 4096 xs) s)) (\<lambda>(b, s). save_block_link f k b s) = Some t"
        "linked n0 f (Suc k) t" "fblock f k t = ?n" "\<forall>i<k. fblock f i t = fblock f i s" "grows f s t"
        "\<forall>i<length (take 4096 xs). mem t (blk ?n + word_of_nat i) = take 4096 xs ! i" "unat (nextbno t) = unat ?n + (if k = 10 then 2 else 1)"
      by (elim exE conjE) (rule that)
    have "\<exists>s'. write_blocks f (Suc k) (drop 4096 xs) t = Some s' \<and> linked n0 f (Suc k + nblocks (drop 4096 xs)) s'
        \<and> (\<forall>i<Suc k. fblock f i s' = fblock f i t) \<and> grows f t s' \<and> holds f (Suc k) (drop 4096 xs) s'"
    proof (rule "1.IH" [rule_format])
      show "length (drop 4096 xs) < length xs" using False by (cases xs) auto
      show "unat (nextbno t) + nblocks (drop 4096 xs) + (if Suc k \<le> 10 then 1 else 0) \<le> 1024"
        using "1.prems"(3) c t(7) by (auto split: if_splits)
    qed (use t "1.prems"(2) c in auto)
    then obtain s' where s': "write_blocks f (Suc k) (drop 4096 xs) t = Some s'" "linked n0 f (Suc k + nblocks (drop 4096 xs)) s'"
      "\<forall>i<Suc k. fblock f i s' = fblock f i t" "grows f t s'" "holds f (Suc k) (drop 4096 xs) s'" by blast
    have blk: "fblock f k s' = ?n" "ind f s' \<noteq> ?n" using s'(2,3) t(3) by (auto simp: linked_def)
    have "mem s' (blk (fblock f k s') + word_of_nat i) = xs ! i" if i: "i < length (take 4096 xs)" for i
    proof -
      note r = linked_range [OF l]
      have x: "unat (blk ?n + word_of_nat i) = 4096 * unat ?n + i"
        using unat_off [of "blk ?n" i] unat_blk [of ?n] r i by (simp add: word_le_nat_alt)
      have "\<not> in_block (ind f s') (blk ?n + word_of_nat i)" using blk(2) x i by (auto simp: in_block_def word_unat_eq_iff)
      then have "mem s' (blk ?n + word_of_nat i) = mem t (blk ?n + word_of_nat i)"
        using kept_below [OF s'(4), of "blk ?n + word_of_nat i"] x i r t(7) by simp
      then show ?thesis using t(6) i unfolding blk(1) by simp
    qed
    from this s'(5) have "holds f k xs s'" by (rule holds_Cons)
    moreover have "write_blocks f k xs s = Some s'" using write_blocks_step [OF False _ t(1)] s'(1) room(1) by (auto split: if_splits)
    ultimately show ?thesis using s' t(4,5) c links_grow_trans by auto
  qed
qed

end
