(* ===== verification/Fsformat_Image.thy ===== *)
theory Fsformat_Image
  imports Fsformat_Props
begin

text \<open>
  The invariant of the image while it is built: every link of a directory leads to a block of entries, no two files share an index block,
  unused entries and unused blocks are zero. Every operation that writes files and directories keeps it, and none of them touches the boot block, the
  super block on the disk and the bitmap.
\<close>

section \<open>The invariant\<close>

abbreviation root_file :: u32 where "root_file \<equiv> s_root super_at"

definition used :: "image \<Rightarrow> u32 \<Rightarrow> bool" where
  "used s b \<longleftrightarrow> 3 \<le> unat b \<and> unat b < unat (nextbno s)"

definition files :: "image \<Rightarrow> u32 \<Rightarrow> bool" where
  "files s f \<longleftrightarrow> f = root_file \<or> (\<exists>b i. used s b \<and> btype s b = BLOCK_FILE \<and> i < 16 \<and> f = blk b + BY2FILE * word_of_nat i)"

text \<open>The number of blocks of a directory.\<close>

definition dir_blocks :: "u32 \<Rightarrow> image \<Rightarrow> nat" where
  "dir_blocks f s = unat (get32 (f_size f) s) div 4096"

definition is_dir :: "u32 \<Rightarrow> image \<Rightarrow> bool" where
  "is_dir f s \<longleftrightarrow> get32 (f_type f) s = FTYPE_DIR"

definition in_file :: "u32 \<Rightarrow> u32 \<Rightarrow> bool" where
  "in_file f x \<longleftrightarrow> unat f \<le> unat x \<and> unat x < unat f + 256"

definition file_ok :: "image \<Rightarrow> u32 \<Rightarrow> bool" where
  "file_ok s f \<longleftrightarrow> (ind f s = 0 \<or> used s (ind f s) \<and> btype s (ind f s) = BLOCK_INDEX)
     \<and> (is_dir f s \<longrightarrow> dir_blocks f s \<le> 1024 \<and> (10 < dir_blocks f s \<longrightarrow> ind f s \<noteq> 0)
          \<and> (\<forall>i<dir_blocks f s. used s (fblock f i s) \<and> btype s (fblock f i s) = BLOCK_FILE))
     \<and> (mem s f = 0 \<longrightarrow> (\<forall>x. in_file f x \<longrightarrow> mem s x = 0))"

definition image_wf :: "image \<Rightarrow> bool" where
  "image_wf s \<longleftrightarrow> 3 \<le> unat (nextbno s) \<and> unat (nextbno s) \<le> 1024 \<and> (\<forall>f. files s f \<longrightarrow> file_ok s f)
     \<and> (\<forall>f g. files s f \<longrightarrow> files s g \<longrightarrow> ind f s \<noteq> 0 \<longrightarrow> ind f s = ind g s \<longrightarrow> f = g)
     \<and> (\<forall>x. 4096 * unat (nextbno s) \<le> unat x \<longrightarrow> unat x < 4194304 \<longrightarrow> mem s x = 0)"

text \<open>What no operation changes: blocks 0 to 2 and the first words of \<open>super\<close>.\<close>

definition fixed :: "u32 \<Rightarrow> bool" where
  "fixed x \<longleftrightarrow> unat x < 12288 \<or> 4194304 \<le> unat x \<and> unat x < 4194312"

definition extends :: "image \<Rightarrow> image \<Rightarrow> bool" where
  "extends s s' \<longleftrightarrow> unat (nextbno s) \<le> unat (nextbno s') \<and> (\<forall>b. used s b \<longrightarrow> btype s' b = btype s b) \<and> (\<forall>x. fixed x \<longrightarrow> mem s' x = mem s x)"

lemma extends_refl: "extends s s"
  by (simp add: extends_def)

lemma extends_types: "extends s s' \<Longrightarrow> unat (nextbno s) \<le> unat (nextbno s') \<and> (\<forall>b. used s b \<longrightarrow> btype s' b = btype s b)"
  by (simp add: extends_def)

lemma extends_trans: "extends s t \<Longrightarrow> extends t u \<Longrightarrow> extends s u"
  by (simp add: extends_def used_def)

lemma used_mono: "extends s s' \<Longrightarrow> used s b \<Longrightarrow> used s' b"
  by (simp add: extends_def used_def)

lemma files_mono:
  assumes "extends s s'" "files s f"
  shows "files s' f"
proof (cases "f = root_file")
  case False
  then obtain b i where b: "used s b" "btype s b = BLOCK_FILE" "i < 16" "f = blk b + BY2FILE * word_of_nat i"
    using assms(2) unfolding files_def by blast
  moreover have "used s' b" "btype s' b = btype s b" using used_mono [OF assms(1) b(1)] assms(1) b(1) by (simp_all add: extends_def)
  ultimately show ?thesis unfolding files_def by metis
qed (simp add: files_def)

section \<open>Where files are\<close>

lemma unat_root: "unat root_file = 4194312"
  by (simp add: s_root_def super_at_def image_defs)

lemma unat_slot: "unat b < 1024 \<Longrightarrow> i < 16 \<Longrightarrow> unat (blk b + BY2FILE * word_of_nat i) = 4096 * unat b + 256 * i"
  using unat_blk [of b] by (simp add: word_le_nat_alt fs_defs unat_word_ariths unat_of_nat)

lemma files_cases:
  assumes "image_wf s" "files s f"
  obtains "f = root_file" "unat f = 4194312"
  | b i where "used s b" "btype s b = BLOCK_FILE" "i < 16" "unat f = 4096 * unat b + 256 * i" "unat b < 1024"
proof (cases "f = root_file")
  case True
  then show ?thesis using that(1) unat_root by simp
next
  case False
  then obtain b i where b: "used s b" "btype s b = BLOCK_FILE" "i < 16" "f = blk b + BY2FILE * word_of_nat i"
    using assms(2) unfolding files_def by blast
  moreover have "unat b < 1024" using b(1) assms(1) unfolding used_def image_wf_def by linarith
  ultimately show ?thesis using that(2) [of b i] unat_slot [of b i] by simp
qed

lemma file_bound: "image_wf s \<Longrightarrow> files s f \<Longrightarrow> unat f + 256 \<le> 4294967296"
  by (erule files_cases) auto

lemma files_disjoint:
  assumes "image_wf s" "files s f" "files s g" "f \<noteq> g" "in_file f x"
  shows "\<not> in_file g x"
proof -
  have ne: "unat f \<noteq> unat g" using assms(4) by (simp add: word_unat_eq_iff)
  have "unat f + 256 \<le> unat g \<or> unat g + 256 \<le> unat f"
    using assms(1,2)
  proof (cases rule: files_cases)
    case 1
    from assms(1,3) show ?thesis by (cases rule: files_cases) (use 1 ne in auto)
  next
    case (2 b i)
    from assms(1,3) show ?thesis
    proof (cases rule: files_cases)
      case 1
      then show ?thesis using 2 by auto
    next
      case (2 c j)
      have "unat f = 256 * (16 * unat b + i)" "unat g = 256 * (16 * unat c + j)" using 2 \<open>unat f = 4096 * unat b + 256 * i\<close> by simp_all
      then show ?thesis using ne by (metis Suc_leI add.commute linorder_neqE_nat mult.commute mult_Suc nat_mult_le_cancel_disj)
    qed
  qed
  then show ?thesis using assms(5) by (auto simp: in_file_def)
qed

lemma in_block_inj: "in_block b x \<Longrightarrow> in_block c x \<Longrightarrow> b = c"
  by (auto simp: in_block_def word_unat_eq_iff)

lemma file_not_in_block:
  assumes "image_wf s" "files s f" "in_file f x" "unat c < 1024" "\<not> (used s c \<and> btype s c = BLOCK_FILE)"
  shows "\<not> in_block c x"
  using assms(1,2)
proof (cases rule: files_cases)
  case 1
  then show ?thesis using assms(3,4) by (auto simp: in_file_def in_block_def)
next
  case (2 b i)
  then have "in_block b x" using assms(3) by (auto simp: in_file_def in_block_def)
  then show ?thesis using in_block_inj 2 assms(5) by blast
qed

lemma wf_bounds: "image_wf s \<Longrightarrow> 3 \<le> unat (nextbno s)" "image_wf s \<Longrightarrow> unat (nextbno s) \<le> 1024"
  by (simp_all add: image_wf_def)

lemma wf_file: "image_wf s \<Longrightarrow> files s f \<Longrightarrow> file_ok s f"
  by (simp add: image_wf_def)

lemma file_not_fixed: "image_wf s \<Longrightarrow> files s f \<Longrightarrow> in_file f x \<Longrightarrow> \<not> fixed x"
  by (erule files_cases) (auto simp: in_file_def fixed_def used_def)

lemma file_below: "image_wf s \<Longrightarrow> files s f \<Longrightarrow> in_file f x \<Longrightarrow> unat x < 4096 * unat (nextbno s) \<or> 4194304 \<le> unat x"
  by (erule files_cases) (auto simp: in_file_def used_def)

lemma block_not_fixed: "3 \<le> unat b \<Longrightarrow> unat b < 1024 \<Longrightarrow> in_block b x \<Longrightarrow> \<not> fixed x"
  by (auto simp: in_block_def fixed_def)

section \<open>Changes that keep the invariant\<close>

abbreviation agree :: "(u32 \<Rightarrow> bool) \<Rightarrow> image \<Rightarrow> image \<Rightarrow> bool" where
  "agree P s s' \<equiv> \<forall>x. P x \<longrightarrow> mem s' x = mem s x"

lemma get_cong:
  assumes "image_wf s" "files s f" "agree (in_file f) s s'"
  shows "ind f s' = ind f s" "is_dir f s' = is_dir f s" "dir_blocks f s' = dir_blocks f s" "i < 10 \<Longrightarrow> fblock f i s' = fblock f i s" "mem s' f = mem s f"
proof -
  note u = unat_fields [OF file_bound [OF assms(1,2)]] and b = file_bound [OF assms(1,2)]
  show "ind f s' = ind f s" using u b by (intro get32_cong assms(3) [rule_format]) (auto simp: in_file_def)
  have "get32 (f_type f) s' = get32 (f_type f) s" using u b by (intro get32_cong assms(3) [rule_format]) (auto simp: in_file_def)
  then show "is_dir f s' = is_dir f s" by (simp add: is_dir_def)
  have "get32 (f_size f) s' = get32 (f_size f) s" using u b by (intro get32_cong assms(3) [rule_format]) (auto simp: in_file_def)
  then show "dir_blocks f s' = dir_blocks f s" by (simp add: dir_blocks_def)
  have "get32 (f_direct f (word_of_nat i)) s' = get32 (f_direct f (word_of_nat i)) s" if "i < 10"
    using u(4) [OF that] b that by (intro get32_cong assms(3) [rule_format]) (auto simp: in_file_def)
  then show "i < 10 \<Longrightarrow> fblock f i s' = fblock f i s" by (simp add: fblock_def)
  show "mem s' f = mem s f" using b by (intro assms(3) [rule_format]) (simp add: in_file_def)
qed

lemma fblock_index_cong:
  assumes "unat (ind f s) < 1024" "agree (in_block (ind f s)) s s'" "ind f s' = ind f s" "10 \<le> i" "i < 1024"
  shows "fblock f i s' = fblock f i s"
proof -
  have "get32 (blk (ind f s) + 4 * word_of_nat i) s' = get32 (blk (ind f s) + 4 * word_of_nat i) s"
    using unat_index [of "ind f s" i] assms by (intro get32_cong assms(2) [rule_format]) (auto simp: in_block_def word_le_nat_alt)
  then show ?thesis using assms(3,4) by (simp add: fblock_def)
qed

lemma ind_bound: "image_wf s \<Longrightarrow> files s f \<Longrightarrow> unat (ind f s) < 1024"
  using wf_file [of s f] wf_bounds(2) [of s] by (auto simp: file_ok_def used_def)

text \<open>A file keeps its links when its entry and its index block are not touched.\<close>

lemma file_cong:
  assumes "image_wf s" "files s f" "agree (in_file f) s s'" "ind f s \<noteq> 0 \<longrightarrow> agree (in_block (ind f s)) s s'"
    and "i < dir_blocks f s" "is_dir f s"
  shows "fblock f i s' = fblock f i s"
proof (cases "i < 10")
  case False
  have ok: "file_ok s f" using wf_file assms(1,2) .
  have "ind f s \<noteq> 0" "i < 1024" using ok assms(5,6) False by (auto simp: file_ok_def)
  then show ?thesis using fblock_index_cong [of f s s' i] ind_bound [OF assms(1,2)] assms(4) get_cong(1) [OF assms(1-3)] False by auto
qed (simp add: get_cong(4) [OF assms(1-3)])

lemma file_ok_cong:
  assumes "image_wf s" "files s f" "agree (in_file f) s s'" "ind f s \<noteq> 0 \<longrightarrow> agree (in_block (ind f s)) s s'"
    and e: "unat (nextbno s) \<le> unat (nextbno s') \<and> (\<forall>b. used s b \<longrightarrow> btype s' b = btype s b)"
  shows "file_ok s' f"
proof -
  note ok = wf_file [OF assms(1,2)]
  note g = get_cong [OF assms(1-3)]
  have t: "btype s' b = btype s b" if "used s b" for b using e that by simp
  have mono: "used s b \<Longrightarrow> used s' b" for b using e by (simp add: used_def)
  have "ind f s = 0 \<or> used s' (ind f s) \<and> btype s' (ind f s) = BLOCK_INDEX"
    using ok t mono unfolding file_ok_def by metis
  moreover have "used s' (fblock f i s) \<and> btype s' (fblock f i s) = BLOCK_FILE" if "i < dir_blocks f s" "is_dir f s" for i
    using ok that t [of "fblock f i s"] mono [of "fblock f i s"] by (auto simp: file_ok_def)
  moreover have "fblock f i s' = fblock f i s" if "i < dir_blocks f s" "is_dir f s" for i using file_cong [OF assms(1-4) that] .
  moreover have "mem s f = 0 \<longrightarrow> (\<forall>x. in_file f x \<longrightarrow> mem s' x = 0)" using ok assms(3) by (auto simp: file_ok_def)
  ultimately show ?thesis using ok unfolding file_ok_def g by simp
qed

text \<open>A change inside the entry of \<open>f\<close>.\<close>

definition local_change :: "u32 \<Rightarrow> image \<Rightarrow> image \<Rightarrow> bool" where
  "local_change f s s' \<longleftrightarrow> nextbno s' = nextbno s \<and> btype s' = btype s \<and> (\<forall>x. \<not> in_file f x \<longrightarrow> mem s' x = mem s x)"

lemma local_extends: "image_wf s \<Longrightarrow> files s f \<Longrightarrow> local_change f s s' \<Longrightarrow> extends s s'"
  using file_not_fixed by (auto simp: extends_def local_change_def)

lemma files_eq: "nextbno s' = nextbno s \<Longrightarrow> btype s' = btype s \<Longrightarrow> files s' = files s"
  by (auto simp: files_def used_def fun_eq_iff)

lemma index_not_file: "BLOCK_INDEX \<noteq> BLOCK_FILE" "BLOCK_DATA \<noteq> BLOCK_FILE" "BLOCK_DATA \<noteq> BLOCK_INDEX"
  by (simp_all add: BLOCK_INDEX_def BLOCK_FILE_def BLOCK_DATA_def)

lemma other_untouched:
  assumes "image_wf s" "files s f" "files s g" "g \<noteq> f" "local_change f s s'"
  shows "agree (in_file g) s s'" "ind g s \<noteq> 0 \<longrightarrow> agree (in_block (ind g s)) s s'"
proof -
  have "mem s' x = mem s x" if "in_file g x" for x
    using files_disjoint [OF assms(1,3,2,4) that] assms(5) by (simp add: local_change_def)
  then show "agree (in_file g) s s'" by blast
  have "mem s' x = mem s x" if "ind g s \<noteq> 0" "in_block (ind g s) x" for x
  proof -
    have "btype s (ind g s) = BLOCK_INDEX" using wf_file [OF assms(1,3)] that(1) by (simp add: file_ok_def)
    then have "\<not> in_file f x"
      using file_not_in_block [OF assms(1,2), of x "ind g s"] ind_bound [OF assms(1,3)] that(2) index_not_file(1) by auto
    then show ?thesis using assms(5) by (simp add: local_change_def)
  qed
  then show "ind g s \<noteq> 0 \<longrightarrow> agree (in_block (ind g s)) s s'" by blast
qed

lemma wf_local:
  assumes w: "image_wf s" and f: "files s f" and c: "local_change f s s'" and ok: "file_ok s' f"
    and fresh: "ind f s' \<noteq> 0 \<Longrightarrow> ind f s' = ind f s \<or> (\<forall>g. files s g \<longrightarrow> ind g s \<noteq> ind f s')"
  shows "image_wf s'"
proof -
  have e: "extends s s'" using local_extends [OF w f c] .
  have n: "nextbno s' = nextbno s" and t: "btype s' = btype s" using c by (simp_all add: local_change_def)
  have fs: "files s' = files s" by (rule files_eq [OF n t])
  have other: "file_ok s' g" if "files s g" "g \<noteq> f" for g
    by (rule file_ok_cong [OF w that(1) other_untouched [OF w f that c] extends_types [OF e]])
  have i: "ind g s' = ind g s" if "files s g" "g \<noteq> f" for g
    by (rule get_cong(1) [OF w that(1) other_untouched(1) [OF w f that c]])
  have inj: "g = h" if "files s g" "files s h" "ind g s' \<noteq> 0" "ind g s' = ind h s'" for g h
  proof (rule ccontr)
    assume "g \<noteq> h"
    have old: "\<forall>f g. files s f \<longrightarrow> files s g \<longrightarrow> ind f s \<noteq> 0 \<longrightarrow> ind f s = ind g s \<longrightarrow> f = g" using w by (simp add: image_wf_def)
    show False
      using that i [OF that(1)] i [OF that(2)] old f fresh \<open>g \<noteq> h\<close> by metis
  qed
  have zero: "mem s' x = 0" if "4096 * unat (nextbno s) \<le> unat x" "unat x < 4194304" for x
  proof -
    have "\<not> in_file f x" using file_below [OF w f, of x] that by linarith
    then have "mem s' x = mem s x" using c by (simp add: local_change_def)
    then show ?thesis using w that by (simp add: image_wf_def)
  qed
  show ?thesis unfolding image_wf_def n fs using wf_bounds [OF w] other ok inj zero by metis
qed

text \<open>A change inside the index block of \<open>f\<close>.\<close>

lemma wf_index:
  assumes w: "image_wf s" and f: "files s f" and nz: "ind f s \<noteq> 0" and c: "nextbno s' = nextbno s" "btype s' = btype s" "agree (\<lambda>x. \<not> in_block (ind f s) x) s s'"
    and ok: "is_dir f s \<longrightarrow> (\<forall>i<dir_blocks f s. fblock f i s' = fblock f i s)"
  shows "image_wf s'" "extends s s'" "\<And>g. files s g \<Longrightarrow> agree (in_file g) s s'"
proof -
  have b: "used s (ind f s)" "btype s (ind f s) = BLOCK_INDEX" using wf_file [OF w f] nz by (simp_all add: file_ok_def)
  show e: "extends s s'"
    using c block_not_fixed [of "ind f s"] b(1) ind_bound [OF w f] by (auto simp: extends_def used_def)
  have fs: "files s' = files s" by (rule files_eq [OF c(1,2)])
  have entry: "agree (in_file g) s s'" if "files s g" for g
  proof (intro allI impI)
    fix x
    assume "in_file g x"
    then have "\<not> in_block (ind f s) x" using file_not_in_block [OF w that _ ind_bound [OF w f]] b index_not_file(1) by auto
    then show "mem s' x = mem s x" using c(3) by simp
  qed
  then show "\<And>g. files s g \<Longrightarrow> agree (in_file g) s s'" by blast
  have inj: "\<forall>f g. files s f \<longrightarrow> files s g \<longrightarrow> ind f s \<noteq> 0 \<longrightarrow> ind f s = ind g s \<longrightarrow> f = g" using w by (simp add: image_wf_def)
  have i: "ind g s' = ind g s" if "files s g" for g by (rule get_cong(1) [OF w that entry [OF that]])
  have other: "file_ok s' g" if g: "files s g" "g \<noteq> f" for g
  proof (rule file_ok_cong [OF w g(1) entry [OF g(1)] _ extends_types [OF e]], intro impI allI)
    fix x
    assume x: "ind g s \<noteq> 0" "in_block (ind g s) x"
    then have "\<not> in_block (ind f s) x" using in_block_inj inj f g nz by metis
    then show "mem s' x = mem s x" using c(3) by simp
  qed
  have self: "file_ok s' f"
    using wf_file [OF w f] ok c i [OF f] get_cong [OF w f entry [OF f]] entry [OF f] unfolding file_ok_def used_def by simp
  have zero: "mem s' x = 0" if "4096 * unat (nextbno s) \<le> unat x" "unat x < 4194304" for x
  proof -
    have "\<not> in_block (ind f s) x" using b(1) that by (auto simp: used_def in_block_def)
    then show ?thesis using c(3) w that by (simp add: image_wf_def)
  qed
  have "file_ok s' g" if "files s g" for g using that other self by (cases "g = f") auto
  then show "image_wf s'" unfolding image_wf_def c(1) fs using wf_bounds [OF w] inj i zero by simp
qed

text \<open>A new block; one for entries is zero.\<close>

lemma wf_alloc:
  assumes w: "image_wf s" and n: "unat (nextbno s) < 1024" and c: "nextbno s' = nextbno s + 1" "btype s' = (btype s)(nextbno s := ty)"
    and m: "agree (\<lambda>x. \<not> in_block (nextbno s) x) s s'" and ty: "ty = BLOCK_FILE \<longrightarrow> mem s' = mem s"
  shows "image_wf s'" "extends s s'" "used s' (nextbno s)" "unat (nextbno s') = unat (nextbno s) + 1"
    "\<And>f. files s f \<Longrightarrow> agree (in_file f) s s'"
proof -
  let ?n = "nextbno s"
  have n': "unat (nextbno s') = unat ?n + 1" using n c by (simp add: unat_word_ariths)
  then show "unat (nextbno s') = unat ?n + 1" .
  have fresh: "\<not> used s ?n" by (simp add: used_def)
  show e: "extends s s'"
    using n' c m block_not_fixed [of ?n] wf_bounds [OF w] n fresh by (auto simp: extends_def)
  show "used s' ?n" using n' wf_bounds [OF w] by (simp add: used_def)
  have old: "agree (in_file f) s s'" if "files s f" for f
    using m file_not_in_block [OF w that _ n] fresh by blast
  then show "\<And>f. files s f \<Longrightarrow> agree (in_file f) s s'" by blast
  have oldi: "ind f s \<noteq> 0 \<longrightarrow> agree (in_block (ind f s)) s s'" if "files s f" for f
    using m in_block_inj wf_file [OF w that] fresh unfolding file_ok_def by metis
  have zero: "mem s' x = 0" if "4096 * unat (nextbno s') \<le> unat x" "unat x < 4194304" for x
  proof -
    have "\<not> in_block ?n x" using that n' by (auto simp: in_block_def)
    then have "mem s' x = mem s x" using m by simp
    then show ?thesis using w that n' by (simp add: image_wf_def)
  qed
  have new: "(\<forall>x. in_file f x \<longrightarrow> mem s' x = 0) \<and> unat f + 256 \<le> 4294967296" if "files s' f" "\<not> files s f" for f
  proof -
    from that obtain b i where b: "used s' b" "btype s' b = BLOCK_FILE" "i < 16" "f = blk b + BY2FILE * word_of_nat i" "\<not> (used s b \<and> btype s b = BLOCK_FILE)"
      unfolding files_def by blast
    have "b = ?n"
    proof (rule ccontr)
      assume "b \<noteq> ?n"
      then have "used s b" using b(1) n' by (auto simp: used_def word_unat_eq_iff less_Suc_eq)
      then show False using b(2,5) c(2) \<open>b \<noteq> ?n\<close> by simp
    qed
    then have "ty = BLOCK_FILE" "unat f = 4096 * unat ?n + 256 * i" using b c(2) unat_slot [of b i] n by simp_all
    then show ?thesis using ty w b(3) n by (auto simp: in_file_def image_wf_def)
  qed
  have newok: "file_ok s' f \<and> ind f s' = 0" if "files s' f" "\<not> files s f" for f
  proof -
    note z = new [OF that]
    then have b: "unat f + 256 \<le> 4294967296" by simp
    have word: "get32 a s' = 0" if "unat f \<le> unat a" "unat a + 4 \<le> unat f + 256" for a
    proof -
      have "mem s' (a + word_of_nat i) = 0" if "i < 4" for i
        using z unat_off [of a i] that \<open>unat f \<le> unat a\<close> \<open>unat a + 4 \<le> unat f + 256\<close> by (auto simp: in_file_def)
      from this [of 0] this [of 1] this [of 2] this [of 3] show ?thesis by (simp add: get32_def load_word_def)
    qed
    have "ind f s' = 0" "get32 (f_type f) s' = 0" using unat_fields [OF b] by (auto intro!: word)
    then show ?thesis using z by (simp add: file_ok_def is_dir_def FTYPE_DIR_def)
  qed
  have ok: "file_ok s' f" if "files s' f" for f
    using that newok file_ok_cong [OF w _ old oldi extends_types [OF e]] by blast
  have i: "ind f s' = ind f s" if "files s f" for f by (rule get_cong(1) [OF w that old [OF that]])
  have "f = g" if "files s' f" "files s' g" "ind f s' \<noteq> 0" "ind f s' = ind g s'" for f g
  proof -
    have "files s f" "files s g" using newok that by metis+
    then show ?thesis using w that(3,4) i unfolding image_wf_def by metis
  qed
  then show "image_wf s'" using ok zero n' wf_bounds [OF w] n unfolding image_wf_def by auto
qed

section \<open>Links\<close>

text \<open>A store to a word of the entry of \<open>f\<close>.\<close>

lemma put_local:
  assumes "unat f + 256 \<le> 4294967296" "unat f \<le> unat a" "unat a + 4 \<le> unat f + 256"
  shows "local_change f s (put32 a v s)"
proof -
  have "mem (put32 a v s) x = mem s x" if "\<not> in_file f x" for x
    using mem_put32_cases [of a v s x] assms that by (auto simp: in_file_def)
  then show ?thesis by (simp add: local_change_def)
qed

text \<open>
  What linking a block leaves of the entry: its name, size and type, and the links before \<open>k\<close>.
\<close>

definition same_entry :: "u32 \<Rightarrow> image \<Rightarrow> image \<Rightarrow> bool" where
  "same_entry f s s' \<longleftrightarrow> is_dir f s' = is_dir f s \<and> dir_blocks f s' = dir_blocks f s \<and> mem s' f = mem s f"

lemma same_entry_trans: "same_entry f s t \<Longrightarrow> same_entry f t u \<Longrightarrow> same_entry f s u"
  by (simp add: same_entry_def)

lemma link_direct_wf:
  fixes b :: u32
  assumes w: "image_wf s" and f: "files s f" "mem s f \<noteq> 0" and k: "k < 10" "is_dir f s \<longrightarrow> k = dir_blocks f s"
  defines "s' \<equiv> put32 (f_direct f (word_of_nat k)) b s"
  shows "image_wf s'" "extends s s'" "same_entry f s s'" "fblock f k s' = b" "local_change f s s'"
    "\<forall>i<k. fblock f i s' = fblock f i s" "ind f s' = ind f s"
proof -
  have u: "unat f + 256 \<le> 4294967296" using file_bound [OF w f(1)] .
  note a = unat_fields [OF u] unat_fields(4) [OF u k(1)]
  have other: "get32 c s' = get32 c s" if "unat c + 4 \<le> unat f + 256" "unat c + 4 \<le> unat f + 136 + 4 * k \<or> unat f + 140 + 4 * k \<le> unat c" for c
    unfolding s'_def using that a u k by (intro get32_put32) auto
  have ind: "ind f s' = ind f s" by (rule other) (use a k in auto)
  then show "ind f s' = ind f s" .
  have ty: "is_dir f s' = is_dir f s" using other [of "f_type f"] a by (simp add: is_dir_def)
  have sz: "dir_blocks f s' = dir_blocks f s" using other [of "f_size f"] a by (simp add: dir_blocks_def)
  have mf: "mem s' f = mem s f" unfolding s'_def using a(5) u k(1) by (intro mem_put32) (auto simp: outside_def)
  show "same_entry f s s'" using ty sz mf by (simp add: same_entry_def)
  have same: "fblock f i s' = fblock f i s" if "i < k" for i
    using other [of "f_direct f (word_of_nat i)"] unat_fields(4) [OF u, of i] that k by (simp add: fblock_def)
  then show "\<forall>i<k. fblock f i s' = fblock f i s" by blast
  show "fblock f k s' = b" using k by (simp add: fblock_def s'_def)
  show loc: "local_change f s s'" unfolding s'_def using put_local [OF u] a k by auto
  then show "extends s s'" by (rule local_extends [OF w f(1)])
  have "file_ok s' f"
    using wf_file [OF w f(1)] same k f(2) loc unfolding file_ok_def ind ty sz mf by (auto simp: local_change_def used_def)
  then show "image_wf s'" by (rule wf_local [OF w f(1) loc]) (use ind in simp)
qed

lemma link_index_wf:
  fixes b :: u32
  assumes w: "image_wf s" and f: "files s f" and nz: "ind f s \<noteq> 0" and k: "10 \<le> k" "k < 1024" "is_dir f s \<longrightarrow> k = dir_blocks f s"
  defines "s' \<equiv> put32 (blk (ind f s) + 4 * word_of_nat k) b s"
  shows "image_wf s'" "extends s s'" "same_entry f s s'" "fblock f k s' = b" "ind f s' = ind f s" "\<And>g. files s g \<Longrightarrow> agree (in_file g) s s'"
proof -
  let ?a = "blk (ind f s) + 4 * word_of_nat k"
  have ib: "unat (ind f s) < 1024" using ind_bound [OF w f] .
  have a: "unat ?a = 4096 * unat (ind f s) + 4 * k" using unat_index [of "ind f s" k] ib k by (simp add: word_le_nat_alt)
  have m: "agree (\<lambda>x. \<not> in_block (ind f s) x) s s'"
  proof (intro allI impI)
    fix x
    assume "\<not> in_block (ind f s) x"
    then show "mem s' x = mem s x" using mem_put32_cases [of ?a b s x] a k ib unfolding s'_def by (auto simp: in_block_def)
  qed
  have direct: "agree (in_file f) s s'"
    using m file_not_in_block [OF w f _ ib] wf_file [OF w f] nz index_not_file(1) unfolding file_ok_def by metis
  note g = get_cong [OF w f direct]
  have same: "fblock f i s' = fblock f i s" if "i < k" for i
  proof (cases "i < 10")
    case False
    have i: "unat (blk (ind f s) + 4 * word_of_nat i) = 4096 * unat (ind f s) + 4 * i"
      using unat_index [of "ind f s" i] ib k that by (simp add: word_le_nat_alt)
    have "get32 (blk (ind f s) + 4 * word_of_nat i) s' = get32 (blk (ind f s) + 4 * word_of_nat i) s"
      unfolding s'_def using i a that ib k by (intro get32_put32) auto
    then show ?thesis using False g(1) by (simp add: fblock_def)
  qed (rule g(4))
  show "fblock f k s' = b" using k g(1) by (simp add: fblock_def s'_def)
  show "same_entry f s s'" using g by (simp add: same_entry_def)
  have n: "nextbno s' = nextbno s" "btype s' = btype s" by (simp_all add: s'_def)
  have links: "is_dir f s \<longrightarrow> (\<forall>i<dir_blocks f s. fblock f i s' = fblock f i s)" using same k(3) by auto
  show "image_wf s'" "extends s s'" "\<And>g. files s g \<Longrightarrow> agree (in_file g) s s'" using wf_index [OF w f nz n m links] by blast+
  show "ind f s' = ind f s" by (rule g(1))
qed

lemma files_alloc:
  assumes "unat (nextbno s) < 1024" "nextbno s' = nextbno s + 1" "btype s' = (btype s)(nextbno s := ty)" "ty \<noteq> BLOCK_FILE" "files s' g"
  shows "files s g"
proof (cases "g = root_file")
  case False
  then obtain b i where b: "used s' b" "btype s' b = BLOCK_FILE" "i < 16" "g = blk b + BY2FILE * word_of_nat i"
    using assms(5) unfolding files_def by blast
  have ne: "b \<noteq> nextbno s" using b(2) assms(3,4) by auto
  have "unat (nextbno s') = unat (nextbno s) + 1" using assms(1,2) by (simp add: unat_word_ariths)
  then have "used s b" using b(1) ne by (auto simp: used_def word_unat_eq_iff)
  moreover have "btype s b = BLOCK_FILE" using b(2) ne assms(3) by simp
  ultimately show ?thesis using b(3,4) unfolding files_def by blast
qed (simp add: files_def)

lemma save_block_link_wf:
  assumes w: "image_wf s" and f: "files s f" "mem s f \<noteq> 0" and k: "is_dir f s \<longrightarrow> k = dir_blocks f s" and r: "save_block_link f k b s = Some s'"
  shows "image_wf s' \<and> extends s s' \<and> same_entry f s s' \<and> fblock f k s' = b \<and> k < 1024 \<and> (10 \<le> k \<longrightarrow> ind f s' \<noteq> 0)
    \<and> (\<forall>g. files s g \<longrightarrow> g \<noteq> f \<longrightarrow> agree (in_file g) s s')"
proof -
  have k': "k < 1024" using r by (auto simp: save_block_link_def image_defs split: if_splits)
  consider "k < 10" | "10 \<le> k" "ind f s \<noteq> 0" | "10 \<le> k" "ind f s = 0" by linarith
  then show ?thesis
  proof cases
    case 1
    have "\<forall>g. files s g \<longrightarrow> g \<noteq> f \<longrightarrow> agree (in_file g) s (put32 (f_direct f (word_of_nat k)) b s)"
      using other_untouched(1) [OF w f(1) _ _ link_direct_wf(5) [OF w f 1 k, of b]] by blast
    then show ?thesis using r 1 save_direct [OF 1, of f b s] link_direct_wf [OF w f 1 k, of b] k' by simp
  next
    case 2
    have "s' = put32 (blk (ind f s) + 4 * word_of_nat k) b s" using r save_indirect [OF 2(1) k' 2(2) ind_bound [OF w f(1)], of b] by simp
    then show ?thesis using link_index_wf [OF w f(1) 2(2,1) k' k, where b = b] k' 2(2) by simp
  next
    case 3
    let ?n = "nextbno s"
    let ?t = "s\<lparr>btype := (btype s)(?n := BLOCK_INDEX), nextbno := ?n + 1\<rparr>"
    let ?u = "put32 (f_indirect f) ?n ?t"
    have n: "unat ?n < 1024"
      using r 3 k' by (auto simp: save_block_link_def next_block_def NBLOCK_def image_defs word_less_nat_alt split: if_splits)
    note al = wf_alloc [OF w n, of ?t BLOCK_INDEX, simplified, unfolded index_not_file, simplified]
    have t: "image_wf ?t" "extends s ?t" "used ?t ?n" using al by simp_all
    have ft: "files ?t f" using files_mono [OF t(2) f(1)] .
    have u: "unat f + 256 \<le> 4294967296" using file_bound [OF w f(1)] .
    note a = unat_fields [OF u]
    have loc: "local_change f ?t ?u" using put_local [OF u] a by auto
    have other: "get32 c ?u = get32 c s" if "unat c + 4 \<le> unat f + 176" for c
      using get32_put32 [of c "f_indirect f" ?n ?t] that a u by simp
    have ty: "is_dir f ?u = is_dir f s" using other [of "f_type f"] a by (simp add: is_dir_def)
    have sz: "dir_blocks f ?u = dir_blocks f s" using other [of "f_size f"] a by (simp add: dir_blocks_def)
    have mf: "mem ?u f = mem s f" using mem_put32 [of "f_indirect f" f ?n ?t] a u by (simp add: outside_def)
    have ten: "is_dir f s \<Longrightarrow> dir_blocks f s = 10" using wf_file [OF w f(1)] 3 k by (auto simp: file_ok_def)
    have same: "fblock f i ?u = fblock f i s" if "i < 10" for i
      using other [of "f_direct f (word_of_nat i)"] a(4) [OF that] that by (simp add: fblock_def)
    have nz: "?n \<noteq> 0" using wf_bounds(1) [OF w] by auto
    have "file_ok ?u f"
      using wf_file [OF w f(1)] f(2) t(2,3) ten same used_mono [OF t(2)] unfolding file_ok_def ty sz mf
      by (auto simp: extends_def used_def)
    then have wu: "image_wf ?u"
    proof (rule wf_local [OF t(1) ft loc])
      have "ind g ?t \<noteq> ?n" if "files ?t g" for g
      proof -
        have "files s g" by (rule files_alloc [OF n _ _ index_not_file(1) that]) simp_all
        then show ?thesis using wf_file [OF w \<open>files s g\<close>] nz by (auto simp: file_ok_def used_def)
      qed
      then show "ind f ?u = ind f ?t \<or> (\<forall>g. files ?t g \<longrightarrow> ind g ?t \<noteq> ind f ?u)" by simp
    qed
    have eu: "extends s ?u" using extends_trans [OF t(2) local_extends [OF t(1) ft loc]] .
    have fu: "files ?u f" using files_mono [OF eu f(1)] .
    have "ind f ?u \<noteq> 0" using nz by simp
    from link_index_wf [OF wu fu this 3(1) k', where b = b] k ty sz
    have s': "image_wf s'" "extends ?u s'" "same_entry f ?u s'" "fblock f k s' = b" "ind f s' = ?n" "\<And>g. files ?u g \<Longrightarrow> agree (in_file g) ?u s'"
      using r save_indirect_new [OF 3(1) k' 3(2) n, of b] by simp_all
    have "agree (in_file g) s s'" if "files s g" "g \<noteq> f" for g
      using other_untouched(1) [OF t(1) ft files_mono [OF t(2) that(1)] that(2) loc] s'(6) [OF files_mono [OF eu that(1)]] by simp
    then show ?thesis using s' extends_trans [OF eu] ty sz mf k' nz by (simp add: same_entry_def)
  qed
qed

section \<open>Directories\<close>

lemma next_block_some:
  "next_block ty s = Some (b, s') \<longleftrightarrow> unat (nextbno s) < 1024 \<and> b = nextbno s \<and> s' = s\<lparr>btype := (btype s)(nextbno s := ty), nextbno := nextbno s + 1\<rparr>"
  by (auto simp: next_block_def NBLOCK_def word_less_nat_alt)

text \<open>A directory that can take entries.\<close>

definition dir_in :: "image \<Rightarrow> u32 \<Rightarrow> bool" where
  "dir_in s f \<longleftrightarrow> files s f \<and> is_dir f s \<and> mem s f \<noteq> 0"

lemma zero_word: "unat f + 256 \<le> 4294967296 \<Longrightarrow> \<forall>x. in_file f x \<longrightarrow> mem s x = 0 \<Longrightarrow> unat f \<le> unat a \<Longrightarrow> unat a + 4 \<le> unat f + 256 \<Longrightarrow> get32 a s = 0"
proof -
  assume z: "unat f + 256 \<le> 4294967296" "\<forall>x. in_file f x \<longrightarrow> mem s x = 0" "unat f \<le> unat a" "unat a + 4 \<le> unat f + 256"
  have "mem s (a + word_of_nat i) = 0" if "i < 4" for i
    using z unat_off [of a i] that by (auto simp: in_file_def)
  from this [of 0] this [of 1] this [of 2] this [of 3] show ?thesis by (simp add: get32_def load_word_def)
qed

lemma make_link_block_wf:
  assumes w: "image_wf s" and d: "dir_in s f" and k: "k = dir_blocks f s" and r: "make_link_block f k s = Some (b, s')"
  shows "image_wf s' \<and> extends s s' \<and> dir_in s' f \<and> used s' b \<and> btype s' b = BLOCK_FILE \<and> mem s' (blk b) = 0
    \<and> (\<forall>g. files s g \<longrightarrow> g \<noteq> f \<longrightarrow> agree (in_file g) s s')"
proof -
  let ?n = "nextbno s"
  let ?t = "s\<lparr>btype := (btype s)(?n := BLOCK_FILE), nextbno := ?n + 1\<rparr>"
  obtain u where u: "b = ?n" "unat ?n < 1024" "save_block_link f k ?n ?t = Some u" "s' = put32 (f_size f) (get32 (f_size f) u + BY2BLK) u"
    using r by (auto simp: make_link_block_def next_block_some)
  note al = wf_alloc [OF w u(2), of ?t BLOCK_FILE, simplified]
  have f: "files s f" "is_dir f s" "mem s f \<noteq> 0" using d by (auto simp: dir_in_def)
  have ft: "files ?t f" using files_mono [OF al(2) f(1)] .
  have same: "is_dir f ?t = is_dir f s" "dir_blocks f ?t = dir_blocks f s" by (simp_all add: is_dir_def dir_blocks_def)
  have "image_wf u \<and> extends ?t u \<and> same_entry f ?t u \<and> fblock f k u = ?n \<and> k < 1024 \<and> (10 \<le> k \<longrightarrow> ind f u \<noteq> 0)
      \<and> (\<forall>g. files ?t g \<longrightarrow> g \<noteq> f \<longrightarrow> agree (in_file g) ?t u)"
    by (rule save_block_link_wf [OF al(1) ft _ _ u(3)]) (use f(3) k same in auto)
  then have su: "image_wf u" "extends ?t u" "same_entry f ?t u" "fblock f k u = ?n" "k < 1024" "10 \<le> k \<longrightarrow> ind f u \<noteq> 0"
    "\<forall>g. files ?t g \<longrightarrow> g \<noteq> f \<longrightarrow> agree (in_file g) ?t u" by blast+
  have fu: "files u f" using files_mono [OF su(2) ft] .
  have bd: "unat f + 256 \<le> 4294967296" using file_bound [OF w f(1)] .
  note a = unat_fields [OF bd]
  have loc: "local_change f u s'" unfolding u(4) using put_local [OF bd] a by auto
  have other: "get32 c s' = get32 c u" if "unat c + 4 \<le> unat f + 256" "unat f + 132 \<le> unat c" for c
    unfolding u(4) using that a bd by (intro get32_put32) auto
  have size: "dir_blocks f u = k" "is_dir f u" "mem u f = mem s f" using su(3) same k f(2) by (auto simp: same_entry_def)
  have "unat (get32 (f_size f) u + BY2BLK) = unat (get32 (f_size f) u) + 4096"
  proof -
    have "unat (get32 (f_size f) u) < 4096 * 1024" using size(1) su(5) unfolding dir_blocks_def by (metis div_less_iff_less_mult mult.commute zero_less_numeral)
    then show ?thesis by (simp add: unat_word_ariths fs_defs BY2PG_def)
  qed
  then have sz: "dir_blocks f s' = Suc k" using size(1) unfolding dir_blocks_def u(4) by simp
  have ind: "ind f s' = ind f u" using a by (intro other) auto
  have ty: "is_dir f s'" using other [of "f_type f"] a size(2) by (simp add: is_dir_def)
  have mf: "mem s' f = mem u f" unfolding u(4) using a bd by (intro mem_put32) (auto simp: outside_def)
  have idx: "agree (in_block (ind f u)) u s'" if "ind f u \<noteq> 0"
    using that loc file_not_in_block [OF su(1) fu _ ind_bound [OF su(1) fu]] wf_file [OF su(1) fu] index_not_file(1)
    unfolding local_change_def file_ok_def by metis
  have links: "fblock f i s' = fblock f i u" if "i \<le> k" for i
  proof (cases "i < 10")
    case True
    then show ?thesis using other [of "f_direct f (word_of_nat i)"] a(4) [OF True] by (simp add: fblock_def)
  next
    case False
    then have "ind f u \<noteq> 0" using that su(6) by auto
    then show ?thesis using fblock_index_cong [OF ind_bound [OF su(1) fu] idx ind, of i] False that su(5) by auto
  qed
  have nt: "used u ?n" "btype u ?n = BLOCK_FILE" using al(3) used_mono [OF su(2)] su(2) by (auto simp: extends_def)
  have nu: "nextbno s' = nextbno u" "btype s' = btype u" using loc by (simp_all add: local_change_def)
  have "file_ok s' f"
  proof -
    have ok: "file_ok u f" using wf_file [OF su(1) fu] .
    have "used s' (fblock f i s') \<and> btype s' (fblock f i s') = BLOCK_FILE" if "i < Suc k" for i
      using that links [of i] ok nt su(4) size nu by (cases "i = k") (auto simp: file_ok_def used_def)
    then show ?thesis using ok su(5,6) ty f(3) mf size(3) nu unfolding file_ok_def ind sz by (auto simp: used_def)
  qed
  then have w': "image_wf s'" by (rule wf_local [OF su(1) fu loc]) (use ind in simp)
  have e: "extends s s'" using extends_trans [OF extends_trans [OF al(2) su(2)] local_extends [OF su(1) fu loc]] .
  have rest: "agree (in_file g) ?t s'" if "files ?t g" "g \<noteq> f" for g
    using su(7) that other_untouched(1) [OF su(1) fu files_mono [OF su(2) that(1)] that(2) loc] by simp
  have z: "mem ?t (blk ?n) = 0" using w u(2) unat_blk [of ?n] by (simp add: image_wf_def word_le_nat_alt)
  have new: "files ?t (blk ?n)" unfolding files_def using al(3) by (intro disjI2 exI [of _ ?n] exI [of _ 0]) simp
  have "in_file (blk ?n) (blk ?n)" by (simp add: in_file_def)
  moreover have "blk ?n \<noteq> f" using z f(3) by auto
  ultimately have "mem s' (blk ?n) = 0" using rest [OF new] z by simp
  moreover have "agree (in_file g) s s'" if "files s g" "g \<noteq> f" for g using rest [OF files_mono [OF al(2) that(1)] that(2)] by simp
  ultimately show ?thesis using w' e ty mf f size(3) files_mono [OF e f(1)] nt nu u(1) by (simp add: dir_in_def used_def)
qed

definition slot_in :: "image \<Rightarrow> u32 \<Rightarrow> bool" where
  "slot_in s f \<longleftrightarrow> (\<exists>b i. used s b \<and> btype s b = BLOCK_FILE \<and> i < 16 \<and> f = blk b + BY2FILE * word_of_nat i)"

lemma slot_files: "slot_in s f \<Longrightarrow> files s f"
  by (simp add: slot_in_def files_def)

lemma dir_bno_fblock: "dir_bno f i s = Some b \<Longrightarrow> b = fblock f i s"
  by (auto simp: dir_bno_def fblock_def indirect_slot_def NDIRECT_def split: if_splits)

lemma unused_file_slot:
  "unused_file d is s = Some (Some f) \<Longrightarrow> image_wf s \<Longrightarrow> dir_in s d \<Longrightarrow> \<forall>i\<in>set is. i < dir_blocks d s \<Longrightarrow> slot_in s f \<and> mem s f = 0"
proof (induction "is")
  case (Cons i "is")
  from Cons.prems(1) obtain b where b: "dir_bno d i s = Some b"
    "(case filter (\<lambda>f. mem s f = 0) (slots b) of f # _ \<Rightarrow> Some (Some f) | [] \<Rightarrow> unused_file d is s) = Some (Some f)"
    by (auto split: if_splits)
  have "used s b" "btype s b = BLOCK_FILE"
    using dir_bno_fblock [OF b(1)] wf_file [of s d] Cons.prems by (auto simp: dir_in_def file_ok_def)
  show ?case
  proof (cases "filter (\<lambda>f. mem s f = 0) (slots b)")
    case Nil
    then show ?thesis using b(2) Cons by simp
  next
    case (Cons g gs)
    then have "f = g" using b(2) by simp
    have "g \<in> set (filter (\<lambda>f. mem s f = 0) (slots b))" using Cons by simp
    then obtain j where "mem s f = 0" "j < 16" "f = blk b + BY2FILE * word_of_nat j" using \<open>f = g\<close> by (auto simp: slots_def FILE2BLK_def)
    then show ?thesis using \<open>used s b\<close> \<open>btype s b = BLOCK_FILE\<close> unfolding slot_in_def by blast
  qed
qed simp

definition dirs_kept :: "image \<Rightarrow> image \<Rightarrow> bool" where
  "dirs_kept s s' \<longleftrightarrow> (\<forall>d. dir_in s d \<longrightarrow> dir_in s' d)"

lemma dirs_kept_trans: "dirs_kept s t \<Longrightarrow> dirs_kept t u \<Longrightarrow> dirs_kept s u"
  by (simp add: dirs_kept_def)

lemma dir_in_cong: "image_wf s \<Longrightarrow> extends s s' \<Longrightarrow> dir_in s d \<Longrightarrow> agree (in_file d) s s' \<Longrightarrow> dir_in s' d"
  using get_cong [of s d s'] files_mono by (auto simp: dir_in_def)

lemma dirs_keptI:
  assumes "image_wf s" "extends s s'" "\<forall>g. files s g \<longrightarrow> g \<noteq> f \<longrightarrow> agree (in_file g) s s'" "dir_in s f \<longrightarrow> dir_in s' f"
  shows "dirs_kept s s'"
  unfolding dirs_kept_def
proof (intro allI impI)
  fix d
  assume d: "dir_in s d"
  show "dir_in s' d"
  proof (cases "d = f")
    case False
    then have "agree (in_file d) s s'" using d assms(3) unfolding dir_in_def by blast
    then show ?thesis by (rule dir_in_cong [OF assms(1,2) d])
  qed (use d assms(4) in blast)
qed

text \<open>What every operation keeps.\<close>

definition grown :: "image \<Rightarrow> image \<Rightarrow> bool" where
  "grown s s' \<longleftrightarrow> image_wf s' \<and> extends s s' \<and> dirs_kept s s'"

lemma grown_trans: "grown s t \<Longrightarrow> grown t u \<Longrightarrow> grown s u"
  by (auto simp: grown_def intro: extends_trans dirs_kept_trans)

lemma grown_refl: "image_wf s \<Longrightarrow> grown s s"
  by (simp add: grown_def extends_refl dirs_kept_def)

lemma create_file_wf:
  assumes w: "image_wf s" and d: "dir_in s d" and r: "create_file d s = Some (f, s')"
  shows "grown s s' \<and> slot_in s' f \<and> mem s' f = 0"
proof -
  let ?n = "unat (get32 (f_size d) s div BY2BLK)"
  have n: "?n = dir_blocks d s" by (simp add: dir_blocks_def unat_div fs_defs BY2PG_def)
  obtain o' where o: "unused_file d [0..<?n] s = Some o'"
    "(case o' of Some f \<Rightarrow> Some (f, s) | None \<Rightarrow> do { (bno, s) \<leftarrow> make_link_block d ?n s; Some (blk bno, s) }) = Some (f, s')"
    using r by (auto simp: create_file_def Let_def)
  show ?thesis
  proof (cases o')
    case (Some g)
    then have "s' = s" "g = f" using o(2) by simp_all
    then show ?thesis using unused_file_slot [of d "[0..<?n]" s f] o(1) Some w d n grown_refl by simp
  next
    case None
    then obtain b where b: "make_link_block d ?n s = Some (b, s')" "f = blk b" using o(2) by auto
    note m = make_link_block_wf [OF w d n b(1)]
    have "slot_in s' f" unfolding slot_in_def using m b(2) by (intro exI [of _ b] exI [of _ 0]) simp
    moreover have "dirs_kept s s'" by (rule dirs_keptI [OF w, of s' d]) (use m in auto)
    ultimately show ?thesis using m b(2) by (simp add: grown_def)
  qed
qed

section \<open>Files and directories\<close>

text \<open>A change of an entry that is then in use and has no directory blocks.\<close>

lemma grown_entry:
  assumes w: "image_wf s" and f: "files s f" and c: "local_change f s s'" and new: "mem s' f \<noteq> 0" "is_dir f s' \<longrightarrow> dir_blocks f s' = 0" "ind f s' = ind f s"
    and d: "dir_in s f \<longrightarrow> dir_in s' f"
  shows "grown s s'"
proof -
  have "file_ok s' f" using wf_file [OF w f] c new unfolding file_ok_def local_change_def used_def by auto
  then have "image_wf s'" by (rule wf_local [OF w f c]) (use new(3) in simp)
  moreover have e: "extends s s'" by (rule local_extends [OF w f c])
  moreover have "dirs_kept s s'" by (rule dirs_keptI [OF w e _ d]) (use other_untouched(1) [OF w f _ _ c] in blast)
  ultimately show ?thesis by (simp add: grown_def)
qed

lemma write_bytes_local: "unat f + 256 \<le> 4294967296 \<Longrightarrow> length xs \<le> 128 \<Longrightarrow> local_change f s (write_bytes f xs s)"
  using mem_write_bytes [of f xs _ s] by (auto simp: local_change_def in_file_def outside_def not_less not_le)

lemma write_blocks_wf:
  "write_blocks f k xs s = Some s' \<Longrightarrow> image_wf s \<Longrightarrow> files s f \<Longrightarrow> mem s f \<noteq> 0 \<Longrightarrow> \<not> is_dir f s \<Longrightarrow> grown s s'"
proof (induction xs arbitrary: k s rule: length_induct)
  case (1 xs)
  note prems = "1.prems"
  show ?case
  proof (cases "xs = []")
    case True
    then show ?thesis using prems(1,2) by (simp add: write_blocks.simps grown_refl)
  next
    case False
    let ?n = "nextbno s" and ?x = "write_bytes (blk (nextbno s)) (take 4096 xs) s"
    let ?t = "?x\<lparr>btype := (btype s)(?n := BLOCK_DATA), nextbno := ?n + 1\<rparr>"
    obtain u where u: "unat ?n < 1024" "save_block_link f k ?n ?t = Some u" "write_blocks f (Suc k) (drop 4096 xs) u = Some s'"
      using prems(1) False by (subst (asm) write_blocks.simps) (auto simp: next_block_some fs_defs BY2PG_def split: if_splits)
    have m: "agree (\<lambda>x. \<not> in_block ?n x) s ?t"
      using mem_write_bytes [of "blk ?n" "take 4096 xs" _ s] unat_blk [of ?n] u(1) by (auto simp: in_block_def outside_def word_le_nat_alt min_def)
    have al: "image_wf ?t" "extends s ?t" "\<And>g. files s g \<Longrightarrow> agree (in_file g) s ?t"
      using wf_alloc [OF prems(2) u(1) _ _ m, of BLOCK_DATA] index_not_file(2) by simp_all
    note g = get_cong [OF prems(2,3) al(3) [OF prems(3)]]
    have ft: "files ?t f" using files_mono [OF al(2) prems(3)] .
    have su: "image_wf u \<and> extends ?t u \<and> same_entry f ?t u \<and> fblock f k u = ?n \<and> k < 1024 \<and> (10 \<le> k \<longrightarrow> ind f u \<noteq> 0)
      \<and> (\<forall>g. files ?t g \<longrightarrow> g \<noteq> f \<longrightarrow> agree (in_file g) ?t u)"
      by (rule save_block_link_wf [OF al(1) ft _ _ u(2)]) (use g(2,5) prems(4,5) in simp_all)
    have "dirs_kept s ?t" by (rule dirs_keptI [OF prems(2) al(2), of f]) (use al(3) prems(5) in \<open>auto simp: dir_in_def\<close>)
    moreover have "dirs_kept ?t u" by (rule dirs_keptI [OF al(1), of u f]) (use su g(2) prems(5) in \<open>auto simp: dir_in_def\<close>)
    ultimately have su': "grown s u" using su extends_trans [OF al(2)] dirs_kept_trans unfolding grown_def by blast
    have "grown u s'"
    proof (rule "1.IH" [rule_format, OF _ u(3)])
      show "length (drop 4096 xs) < length xs" using False by (cases xs) auto
      show "files u f" using files_mono su ft by blast
    qed (use su g(2,5) prems(4,5) in \<open>auto simp: same_entry_def\<close>)
    then show ?thesis using su' grown_trans by blast
  qed
qed

definition good_name :: "u8 list \<Rightarrow> bool" where
  "good_name n \<longleftrightarrow> n \<noteq> [] \<and> 0 \<notin> set n \<and> 47 \<notin> set n \<and> length n < 128"

lemma hd_nonzero: "xs \<noteq> [] \<Longrightarrow> 0 \<notin> set xs \<Longrightarrow> hd xs \<noteq> (0 :: u8)"
  by (cases xs) auto

text \<open>An entry just taken: a name is stored, the other fields are zero.\<close>

lemma name_entry:
  assumes w: "image_wf s" and f: "slot_in s f" "mem s f = 0" and xs: "length xs \<le> 128" "xs \<noteq> []" "hd xs \<noteq> 0"
  defines "s' \<equiv> write_bytes f xs s"
  shows "grown s s'" "files s' f" "mem s' f \<noteq> 0" "get32 (f_size f) s' = 0" "get32 (f_type f) s' = 0" "ind f s' = 0"
    "\<And>a. unat f + 128 \<le> unat a \<Longrightarrow> unat a < unat f + 256 \<Longrightarrow> mem s' a = 0"
proof -
  have ff: "files s f" using slot_files [OF f(1)] .
  have u: "unat f + 256 \<le> 4294967296" using file_bound [OF w ff] .
  note a = unat_fields [OF u]
  have z: "\<forall>x. in_file f x \<longrightarrow> mem s x = 0" using wf_file [OF w ff] f(2) by (simp add: file_ok_def)
  have word: "get32 c s' = 0" if "unat f + 128 \<le> unat c" "unat c + 4 \<le> unat f + 256" for c
    unfolding s'_def using get32_write_bytes [of c f xs s] zero_word [OF u z, of c] that xs u by simp
  show "get32 (f_size f) s' = 0" "ind f s' = 0" using a by (auto intro!: word)
  show ty: "get32 (f_type f) s' = 0" using a by (auto intro!: word)
  have ind: "ind f s = 0" using zero_word [OF u z] a by auto
  show nz: "mem s' f \<noteq> 0" unfolding s'_def using xs by (simp add: write_bytes_def hd_conv_nth)
  have loc: "local_change f s s'" unfolding s'_def by (rule write_bytes_local [OF u xs(1)])
  show "mem s' c = 0" if "unat f + 128 \<le> unat c" "unat c < unat f + 256" for c
    unfolding s'_def using mem_write_bytes [of f xs c s] z that xs u by (auto simp: outside_def in_file_def)
  show g: "grown s s'"
    by (rule grown_entry [OF w ff loc nz]) (use ty ind \<open>ind f s' = 0\<close> f(2) in \<open>auto simp: is_dir_def FTYPE_DIR_def dir_in_def\<close>)
  then show "files s' f" using files_mono [OF _ ff] by (simp add: grown_def)
qed

lemma write_file_wf:
  assumes w: "image_wf s" and d: "dir_in s d" and n: "good_name (after_slash path)" and r: "write_file d path c s = Some s'"
  shows "grown s s'"
proof -
  let ?name = "after_slash path @ [0]"
  from r obtain f s1 where f: "create_file d s = Some (f, s1)" by (auto simp: write_file_def)
  let ?a = "write_bytes f ?name s1"
  let ?b = "put32 (f_size f) (case c of Some xs \<Rightarrow> word_of_nat (length xs) | None \<Rightarrow> - 1) ?a"
  let ?c = "put32 (f_type f) FTYPE_REG ?b"
  have wb: "write_blocks f 0 (case c of Some xs \<Rightarrow> xs | None \<Rightarrow> []) ?c = Some s'"
    using r f by (auto simp: write_file_def set_name_def Let_def split: if_splits)
  have c: "grown s s1" "slot_in s1 f" "mem s1 f = 0" using create_file_wf [OF w d f] by auto
  have w1: "image_wf s1" using c(1) by (simp add: grown_def)
  have nm: "length ?name \<le> 128" "?name \<noteq> []" "hd ?name \<noteq> 0" using n hd_nonzero [of "after_slash path"] by (auto simp: good_name_def hd_append)
  note na = name_entry [OF w1 c(2,3) nm]
  have wa: "image_wf ?a" using na(1) by (simp add: grown_def)
  have u: "unat f + 256 \<le> 4294967296" using file_bound [OF wa na(2)] .
  note a = unat_fields [OF u]
  have gb: "get32 (f_type f) ?b = 0" "ind f ?b = 0" using na(5,6) a u by (simp_all add: get32_put32)
  have mb: "mem ?b f = mem ?a f" using a u by (intro mem_put32) (auto simp: outside_def)
  have lb: "local_change f ?a ?b" using put_local [OF u] a by auto
  have b: "grown ?a ?b"
    by (rule grown_entry [OF wa na(2) lb]) (use gb mb na in \<open>auto simp: is_dir_def FTYPE_DIR_def dir_in_def\<close>)
  have fb: "files ?b f" using files_mono [OF _ na(2)] b by (simp add: grown_def)
  have wb': "image_wf ?b" using b by (simp add: grown_def)
  have ic: "ind f ?c = 0" using gb a u by (simp add: get32_put32)
  have mc: "mem ?c f = mem ?b f" using a u by (intro mem_put32) (auto simp: outside_def)
  have nd: "\<not> is_dir f ?c" by (simp add: is_dir_def FTYPE_DIR_def FTYPE_REG_def)
  have lc: "local_change f ?b ?c" using put_local [OF u] a by auto
  have cc: "grown ?b ?c"
    by (rule grown_entry [OF wb' fb lc]) (use gb ic mb mc nd na in \<open>auto simp: is_dir_def FTYPE_DIR_def dir_in_def\<close>)
  have fc: "files ?c f" using files_mono [OF _ fb] cc by (simp add: grown_def)
  have wc: "image_wf ?c" using cc by (simp add: grown_def)
  have nz: "mem ?c f \<noteq> 0" unfolding mc mb by (rule na(3))
  have "grown ?c s'" by (rule write_blocks_wf [OF wb wc fc nz nd])
  then show ?thesis using grown_trans c(1) na(1) b cc by blast
qed

lemma start_directory_wf:
  assumes w: "image_wf s" and d: "dir_in s d" and n: "base_name path \<noteq> []" "0 \<notin> set (base_name path)" and r: "start_directory d path s = Some (f, s')"
  shows "grown s s' \<and> dir_in s' f"
proof -
  let ?n = "take 127 (base_name path)"
  let ?name = "?n @ replicate (127 - length ?n) 0"
  from r obtain s1 where f: "create_file d s = Some (f, s1)" "s' = put32 (f_type f) FTYPE_DIR (write_bytes f ?name s1)"
    by (auto simp: start_directory_def Let_def MAXNAMELEN_def split: if_splits)
  let ?a = "write_bytes f ?name s1"
  have c: "grown s s1" "slot_in s1 f" "mem s1 f = 0" using create_file_wf [OF w d f(1)] by auto
  have w1: "image_wf s1" using c(1) by (simp add: grown_def)
  have nm: "length ?name \<le> 128" "?name \<noteq> []" "hd ?name \<noteq> 0"
    using n hd_nonzero [of "base_name path"] by (auto simp: hd_append)
  note na = name_entry [OF w1 c(2,3) nm]
  have wa: "image_wf ?a" using na(1) by (simp add: grown_def)
  have u: "unat f + 256 \<le> 4294967296" using file_bound [OF wa na(2)] .
  note a = unat_fields [OF u]
  have g: "get32 (f_size f) s' = 0" "ind f s' = 0" "is_dir f s'" unfolding f(2) using na(4,6) a u by (simp_all add: get32_put32 is_dir_def)
  have m: "mem s' f = mem ?a f" unfolding f(2) using a u by (intro mem_put32) (auto simp: outside_def)
  have l: "local_change f ?a s'" unfolding f(2) using put_local [OF u] a by auto
  have b: "grown ?a s'"
    by (rule grown_entry [OF wa na(2) l]) (use g m na in \<open>auto simp: is_dir_def FTYPE_DIR_def dir_in_def dir_blocks_def\<close>)
  have "files s' f" using files_mono [OF _ na(2)] b by (simp add: grown_def)
  moreover have "mem s' f \<noteq> 0" unfolding m by (rule na(3))
  ultimately have "dir_in s' f" using g(3) by (simp add: dir_in_def)
  then show ?thesis using grown_trans c(1) na(1) b by blast
qed

primrec good :: "host \<Rightarrow> bool" where
  "good (Regular c) \<longleftrightarrow> True"
| "good (Other c) \<longleftrightarrow> True"
| "good (Directory d) \<longleftrightarrow> (case map_option (map (map_prod (\<lambda>n. n) good)) d of None \<Rightarrow> True | Some es \<Rightarrow> \<forall>(n, g)\<in>set es. good_name n \<and> g)"

lemma after_slash_name: "47 \<notin> set n \<Longrightarrow> after_slash (p @ 47 # n) = n"
  unfolding after_slash_def rev_append rev.simps append.assoc by (subst takeWhile_append2) auto

lemma dropWhile_last: "n \<noteq> [] \<Longrightarrow> 47 \<notin> set n \<Longrightarrow> dropWhile (\<lambda>c. c = 47) (rev n @ xs) = rev n @ xs"
  by (cases n rule: rev_cases) auto

lemma base_name_name: "good_name n \<Longrightarrow> base_name (p @ 47 # n) = n"
  using dropWhile_last [of n "47 # rev p"] by (simp add: good_name_def base_name_def Let_def after_slash_name)

lemma base_name_nonempty: "base_name p \<noteq> []"
proof -
  let ?q = "dropWhile (\<lambda>c. c = 47) (rev p)"
  have "after_slash (rev ?q) \<noteq> []" if "?q \<noteq> []"
    using that hd_dropWhile [OF that] by (cases ?q) (auto simp: after_slash_def)
  then show ?thesis by (simp add: base_name_def Let_def)
qed

lemma base_name_chars: "0 \<notin> set p \<Longrightarrow> 0 \<notin> set (base_name p)"
  by (auto simp: base_name_def Let_def after_slash_def dest!: set_takeWhileD set_dropWhileD)

lemma good_entry: "good (Directory (Some es)) \<Longrightarrow> (n, h) \<in> set es \<Longrightarrow> good_name n \<and> good h"
  by force

lemma good_rest: "good (Directory (Some (e # es))) \<Longrightarrow> good (Directory (Some es))"
  by auto

lemma write_directory_wf:
  "write_directory d path h s = Some s' \<Longrightarrow> image_wf s \<Longrightarrow> dir_in s d \<Longrightarrow> good (Directory h) \<Longrightarrow> 0 \<notin> set (base_name path) \<Longrightarrow> grown s s'"
  "write_entries d path es s = Some s' \<Longrightarrow> image_wf s \<Longrightarrow> dir_in s d \<Longrightarrow> good (Directory (Some es)) \<Longrightarrow> grown s s'"
proof (induction d path h s and d path es s arbitrary: s' and s' rule: write_directory_write_entries.induct)
  case (1 d path s)
  then show ?case by (simp add: grown_refl)
next
  case (2 d path es s)
  from "2.prems"(1) obtain f t where t: "start_directory d path s = Some (f, t)" "write_entries f path es t = Some s'" by auto
  have "grown s t" "dir_in t f" using start_directory_wf [OF "2.prems"(2,3) base_name_nonempty "2.prems"(5) t(1)] by auto
  moreover have "grown t s'" by (rule "2.IH" [OF t(1) _ t(2)]) (use \<open>grown s t\<close> \<open>dir_in t f\<close> "2.prems"(4) in \<open>auto simp: grown_def\<close>)
  ultimately show ?case using grown_trans by blast
next
  case (3 d path s)
  then show ?case by (simp add: grown_refl)
next
  case (4 d path name h es s)
  have g: "good_name name" "good h" "good (Directory (Some es))" using good_entry [OF "4.prems"(4), of name h] good_rest [OF "4.prems"(4)] by auto
  let ?buf = "path @ [47] @ name"
  obtain t where t: "(if name = [46] \<or> name = [46, 46] then Some s
      else let buf = ?buf in case h of Directory d' \<Rightarrow> write_directory d buf d' s | Regular c \<Rightarrow> write_file d buf c s | Other c \<Rightarrow> write_file d buf c s) = Some t"
      "write_entries d path es t = Some s'"
    using "4.prems"(1) unfolding write_entries.simps by (rule bind_SomeE)
  have name: "after_slash ?buf = name" "base_name ?buf = name" "0 \<notin> set name"
    using g(1) after_slash_name [of name path] base_name_name [of name path] by (simp_all add: good_name_def)
  have "grown s t"
  proof (cases "name = [46] \<or> name = [46, 46]")
    case True
    then show ?thesis using t(1) "4.prems"(2) grown_refl by simp
  next
    case False
    show ?thesis
    proof (cases h)
      case (Directory d')
      then show ?thesis using "4.IH"(1) [OF False refl Directory, of t] t(1) False "4.prems"(2,3) g(2) name by simp
    qed (use t(1) False write_file_wf [OF "4.prems"(2,3), of ?buf _ t] g(1) name in auto)
  qed
  moreover have "grown t s'"
    by (rule "4.IH"(2) [OF t(1,2)]) (use \<open>grown s t\<close> "4.prems"(3) g(3) in \<open>auto simp: grown_def dirs_kept_def\<close>)
  ultimately show ?case using grown_trans by blast
qed

end
