(* ===== verification/Fsformat_Final.thy ===== *)
theory Fsformat_Final
  imports Fsformat_Image
begin

text \<open>
  The tool as a whole: the invariant of the image holds after \<open>init_disk\<close>, so that the finished image has it and its bitmap marks exactly the blocks in use, and
  a file that has been written is read back.
\<close>

section \<open>The start\<close>

definition first_image :: image where
  "first_image = \<lparr>mem = filled (blk 2 + 128) 3968 0 (filled (blk 2) 4096 0xFF (\<lambda>_. 0)),
     btype = (\<lambda>_. BLOCK_FREE)(0 := BLOCK_BOOT, 2 := BLOCK_BMAP, 1 := BLOCK_SUPER), nbitblock = 1, nextbno = 3\<rparr>"

lemma init_disk_blank:
  "init_disk blank = write_bytes root_file (root_name @ [0]) (put32 (f_type root_file) FTYPE_DIR (put32 (s_nblocks super_at) NBLOCK (put32 (s_magic super_at) FS_MAGIC first_image)))"
proof -
  have c: "(NBLOCK + BIT2BLK - 1) div BIT2BLK = 1" "NBLOCK \<noteq> 1 * BIT2BLK" "NBLOCK \<noteq> BIT2BLK" "NBLOCK mod BIT2BLK div 8 = 128" "unat BY2BLK = 4096" "unat (BY2BLK - 128) = 3968"
    by (simp_all add: image_defs)
  show ?thesis
    unfolding init_disk_def Let_def c by (simp add: blank_def first_image_def mark_bmap_def fill_bmap_def c)
qed

lemma first_mem: "mem first_image x = (if 8192 \<le> unat x \<and> unat x < 8320 then 255 else 0)"
proof -
  have b: "unat (blk 2) = 8192" "unat (blk 2 + 128) = 8320" by (simp_all add: image_defs)
  show ?thesis using unat_diff_lt [of "blk 2" 4096 x] unat_diff_lt [of "blk 2 + 128" 3968 x] b
    by (auto simp: first_image_def filled_def)
qed

lemma super_addresses:
  "unat (s_magic super_at) = 4194304" "unat (s_nblocks super_at) = 4194308" "unat (f_type root_file) = 4194444" "unat (f_size root_file) = 4194440"
  "unat (f_indirect root_file) = 4194488"
  by (simp_all add: file_fields super_at_def image_defs)

lemma init_low: "unat x < 4194304 \<Longrightarrow> mem (init_disk blank) x = mem first_image x"
  using unat_root super_addresses by (simp add: init_disk_blank mem_write_bytes mem_put32 outside_def root_name_def)

lemma init_root:
  "get32 (s_magic super_at) (init_disk blank) = FS_MAGIC" "get32 (s_nblocks super_at) (init_disk blank) = NBLOCK"
  "get32 (f_type root_file) (init_disk blank) = FTYPE_DIR" "get32 (f_size root_file) (init_disk blank) = 0" "ind root_file (init_disk blank) = 0"
  "mem (init_disk blank) root_file = 47"
proof -
  have z: "get32 a first_image = 0" if "4194304 \<le> unat a" "unat a < 4294967000" for a
  proof -
    have "mem first_image (a + word_of_nat i) = 0" if "i < 4" for i
      using first_mem [of "a + word_of_nat i"] unat_off [of a i] that \<open>4194304 \<le> unat a\<close> \<open>unat a < 4294967000\<close> by simp
    from this [of 0] this [of 1] this [of 2] this [of 3] show ?thesis by (simp add: get32_def load_word_def)
  qed
  show "get32 (s_magic super_at) (init_disk blank) = FS_MAGIC" "get32 (s_nblocks super_at) (init_disk blank) = NBLOCK"
    "get32 (f_type root_file) (init_disk blank) = FTYPE_DIR" "get32 (f_size root_file) (init_disk blank) = 0" "ind root_file (init_disk blank) = 0"
    using unat_root super_addresses by (simp_all add: init_disk_blank get32_write_bytes get32_put32 root_name_def z)
  show "mem (init_disk blank) root_file = 47" by (simp add: init_disk_blank write_bytes_def root_name_def)
qed

lemma init_wf: "image_wf (init_disk blank)" "dir_in (init_disk blank) root_file"
proof -
  let ?s = "init_disk blank"
  have n: "nextbno ?s = 3" by (simp add: init_disk_blank first_image_def)
  have f: "files ?s f \<longleftrightarrow> f = root_file" for f using n by (auto simp: files_def used_def)
  have ok: "file_ok ?s root_file" using init_root by (simp add: file_ok_def dir_blocks_def)
  show "image_wf ?s" using n f ok init_low by (auto simp: image_wf_def first_mem)
  show "dir_in ?s root_file" using f init_root by (simp add: dir_in_def is_dir_def)
qed

section \<open>The finished image\<close>

text \<open>The bit of block \<open>i\<close>.\<close>

definition bitmap_bit :: "nat \<Rightarrow> image \<Rightarrow> bool" where
  "bitmap_bit i s \<longleftrightarrow> bit (get32 (blk 2 + 4 * word_of_nat (i div 32)) s) (i mod 32)"

lemma unat_bitmap: "i < 1024 \<Longrightarrow> unat (blk 2 + 4 * word_of_nat (i div 32)) = 8192 + 4 * (i div 32)"
  using unat_index [of 2 "i div 32"] by simp

lemma clear_bit_word:
  assumes "k < 1024"
  shows "clear_bit k s = (let a = blk 2 + 4 * word_of_nat (k div 32) in put32 a (get32 a s AND NOT (push_bit (k mod 32) 1)) s)"
proof -
  have u: "unat (word_of_nat k :: u32) = k" "unat BIT2BLK = 32768" using assms by (simp_all add: unat_of_nat fs_defs BY2PG_def)
  have "unat (word_of_nat k div BIT2BLK) = 0" using assms u by (simp add: unat_div)
  then have d: "word_of_nat k div BIT2BLK = 0" by (simp add: word_unat_eq_iff)
  have "unat (word_of_nat k mod BIT2BLK div 32) = unat (word_of_nat (k div 32) :: u32)"
    using assms u by (simp add: unat_div unat_mod unat_of_nat)
  then have "word_of_nat k mod BIT2BLK div 32 = (word_of_nat (k div 32) :: u32)" by (simp only: word_unat_eq_iff)
  then show ?thesis using d by (simp add: clear_bit_def Let_def)
qed

lemma bitmap_clear: "i < 1024 \<Longrightarrow> k < 1024 \<Longrightarrow> bitmap_bit i (clear_bit k s) \<longleftrightarrow> bitmap_bit i s \<and> i \<noteq> k"
proof -
  assume a: "i < 1024" "k < 1024"
  show ?thesis
  proof (cases "i div 32 = k div 32")
    case True
    then have "i mod 32 = k mod 32 \<longleftrightarrow> i = k" by (metis div_mult_mod_eq)
    then show ?thesis using True a by (auto simp: clear_bit_word bitmap_bit_def Let_def bit_simps)
  next
    case False
    then have "get32 (blk 2 + 4 * word_of_nat (i div 32)) (clear_bit k s) = get32 (blk 2 + 4 * word_of_nat (i div 32)) s"
      unfolding clear_bit_word [OF a(2)] Let_def using unat_bitmap [OF a(1)] unat_bitmap [OF a(2)] a by (intro get32_put32) auto
    then show ?thesis using False by (auto simp: bitmap_bit_def)
  qed
qed

lemma clear_bits:
  assumes "n \<le> 1024"
  shows "(\<forall>i<1024. bitmap_bit i (fold clear_bit [0..<n] s) \<longleftrightarrow> bitmap_bit i s \<and> n \<le> i)
    \<and> (\<forall>x. unat x < 8192 \<or> 12288 \<le> unat x \<longrightarrow> mem (fold clear_bit [0..<n] s) x = mem s x)
    \<and> nextbno (fold clear_bit [0..<n] s) = nextbno s \<and> btype (fold clear_bit [0..<n] s) = btype s"
  using assms
proof (induction n)
  case (Suc n)
  let ?t = "fold clear_bit [0..<n] s"
  have k: "n < 1024" using Suc.prems by simp
  have f: "fold clear_bit [0..<Suc n] s = clear_bit n ?t" by simp
  have "mem (clear_bit n ?t) x = mem ?t x" if "unat x < 8192 \<or> 12288 \<le> unat x" for x
    unfolding clear_bit_word [OF k] Let_def using unat_bitmap [OF k] k that by (intro mem_put32) (auto simp: outside_def)
  moreover have "nextbno (clear_bit n ?t) = nextbno ?t" "btype (clear_bit n ?t) = btype ?t" by (simp_all add: clear_bit_def Let_def)
  ultimately show ?case unfolding f using Suc bitmap_clear [OF _ k, of _ ?t] by auto
qed simp

lemma init_bits: "i < 1024 \<Longrightarrow> bitmap_bit i (init_disk blank)"
proof -
  assume i: "i < 1024"
  let ?a = "blk 2 + 4 * word_of_nat (i div 32)"
  have "i div 32 < 32" using i by (simp add: div_less_iff_less_mult)
  then have "mem (init_disk blank) (?a + word_of_nat j) = 255" if "j < 4" for j
    using unat_off [of ?a j] unat_bitmap [OF i] i that by (simp add: init_low first_mem)
  from this [of 0] this [of 1] this [of 2] this [of 3] have "get32 ?a (init_disk blank) = - 1" by (simp add: get32_def load_word_def)
  then show ?thesis by (simp add: bitmap_bit_def)
qed

lemma wf_low:
  assumes w: "image_wf t" and c: "nextbno s = nextbno t" "btype s = btype t" "agree (\<lambda>x. 12288 \<le> unat x) t s"
  shows "image_wf s"
proof -
  have fs: "files s = files t" by (rule files_eq [OF c(1,2)])
  have entry: "agree (in_file f) t s" if "files t f" for f
    using file_not_fixed [OF w that] c(3) unfolding fixed_def by (meson not_less)
  have index: "ind f t \<noteq> 0 \<longrightarrow> agree (in_block (ind f t)) t s" if "files t f" for f
  proof (intro impI allI)
    fix x
    assume "ind f t \<noteq> 0" "in_block (ind f t) x"
    then have "12288 \<le> unat x" using wf_file [OF w that] by (auto simp: file_ok_def used_def in_block_def)
    then show "mem s x = mem t x" using c(3) by simp
  qed
  have ok: "file_ok s f" if "files t f" for f by (rule file_ok_cong [OF w that entry [OF that] index [OF that]]) (simp add: c)
  have i: "ind f s = ind f t" if "files t f" for f by (rule get_cong(1) [OF w that entry [OF that]])
  have zero: "mem s x = 0" if "4096 * unat (nextbno t) \<le> unat x" "unat x < 4194304" for x
  proof -
    have "12288 \<le> unat x" using that wf_bounds(1) [OF w] by linarith
    then show ?thesis using c(3) w that by (simp add: image_wf_def)
  qed
  show ?thesis unfolding image_wf_def fs c(1) using wf_bounds [OF w] ok i zero w unfolding image_wf_def by auto
qed

definition good_arg :: "u8 list \<times> host option \<Rightarrow> bool" where
  "good_arg a \<longleftrightarrow> (case a of
       (name, Some (Regular c)) \<Rightarrow> good_name (after_slash name)
     | (name, Some (Directory d)) \<Rightarrow> 0 \<notin> set name \<and> good (Directory d)
     | _ \<Rightarrow> True)"

lemma write_argument_wf:
  assumes "write_argument a s = Some s'" "image_wf s" "dir_in s root_file" "good_arg a"
  shows "grown s s'"
proof -
  obtain name h where a: "a = (name, Some h)" "\<not> (\<exists>c. h = Other c)" using assms(1) by (auto simp: write_argument_def split: prod.splits option.splits host.splits)
  show ?thesis
  proof (cases h)
    case (Regular c)
    then show ?thesis using assms a write_file_wf [OF assms(2,3), of name c s'] by (simp add: write_argument_def good_arg_def)
  next
    case (Directory d)
    then show ?thesis using assms a write_directory_wf(1) [of root_file name d s s'] base_name_chars [of name] by (simp add: write_argument_def good_arg_def)
  qed (use a in blast)
qed

lemma arguments_wf: "ofold write_argument args s = Some s' \<Longrightarrow> image_wf s \<Longrightarrow> dir_in s root_file \<Longrightarrow> \<forall>a\<in>set args. good_arg a \<Longrightarrow> grown s s'"
proof (induction args arbitrary: s)
  case Nil
  then show ?case by (simp add: grown_refl)
next
  case (Cons a args)
  from Cons.prems(1) obtain t where t: "write_argument a s = Some t" "ofold write_argument args t = Some s'" by auto
  have "grown s t" using write_argument_wf [OF t(1) Cons.prems(2,3)] Cons.prems(4) by simp
  moreover have "grown t s'" by (rule Cons.IH [OF t(2)]) (use \<open>grown s t\<close> Cons.prems in \<open>auto simp: grown_def dirs_kept_def\<close>)
  ultimately show ?case using grown_trans by blast
qed

lemma get32_copy:
  assumes "j + 4 \<le> 264" "a = blk 1 + word_of_nat j"
  shows "get32 a (write_bytes (blk 1) (map (\<lambda>i. mem s (super_at + word_of_nat i)) [0..<SIZEOF_SUPER]) s) = get32 (super_at + word_of_nat j) s"
proof -
  let ?xs = "map (\<lambda>i. mem s (super_at + word_of_nat i)) [0..<SIZEOF_SUPER]"
  have "mem (write_bytes (blk 1) ?xs s) (blk 1 + word_of_nat (j + k)) = mem s (super_at + word_of_nat (j + k))" if "k < 4" for k
    using mem_write_bytes_nth [of "j + k" ?xs "blk 1" s] that assms(1) by (simp add: SIZEOF_SUPER_def)
  from this [of 0] this [of 1] this [of 2] this [of 3] show ?thesis
    using assms(2) by (simp add: get32_def load_word_def add_ac)
qed

lemma image_built:
  assumes "fsformat_main False args = Some s" and "\<forall>a\<in>set args. good_arg a"
  shows "image_wf s \<and> (\<forall>i<1024. bitmap_bit i s \<longleftrightarrow> unat (nextbno s) \<le> i) \<and> get32 (s_magic (blk 1)) s = FS_MAGIC \<and> get32 (s_nblocks (blk 1)) s = NBLOCK"
proof -
  from assms(1) obtain t where t: "ofold write_argument args (init_disk blank) = Some t" "s = finish_fs False (flush_bitmap t)"
    by (auto simp: fsformat_main_def Let_def split: if_splits)
  have g: "image_wf t" "extends (init_disk blank) t" using arguments_wf [OF t(1) init_wf assms(2)] by (simp_all add: grown_def)
  let ?u = "flush_bitmap t" and ?xs = "map (\<lambda>i. mem (flush_bitmap t) (super_at + word_of_nat i)) [0..<SIZEOF_SUPER]"
  note c = clear_bits [OF wf_bounds(2) [OF g(1)], of t, folded flush_bitmap_def]
  have s: "s = write_bytes (blk 1) ?xs ?u" using t(2) by (simp add: finish_fs_def Let_def)
  have b1: "unat (blk 1) = 4096" by (simp add: image_defs)
  have rest: "mem s x = mem ?u x" if "4360 \<le> unat x" for x
    unfolding s using that b1 by (intro mem_write_bytes) (auto simp: outside_def SIZEOF_SUPER_def)
  have n: "nextbno s = nextbno t" "btype s = btype t" using c s by simp_all
  have w: "image_wf s" by (rule wf_low [OF g(1) n]) (use rest c in auto)
  have fixed: "get32 a t = get32 a (init_disk blank)" if "\<And>x. unat a \<le> unat x \<Longrightarrow> unat x < unat a + 4 \<Longrightarrow> fixed x" "unat a + 4 \<le> 4294967296" for a
    using that g(2) by (intro get32_cong) (auto simp: extends_def)
  have "bitmap_bit i s \<longleftrightarrow> unat (nextbno s) \<le> i" if i: "i < 1024" for i
  proof -
    let ?a = "blk 2 + 4 * word_of_nat (i div 32)"
    have d: "i div 32 < 32" using i by (simp add: div_less_iff_less_mult)
    have "get32 ?a s = get32 ?a ?u" by (rule get32_cong) (use unat_bitmap [OF i] rest d in auto)
    then have "bitmap_bit i s \<longleftrightarrow> bitmap_bit i t \<and> unat (nextbno t) \<le> i" using c i by (simp add: bitmap_bit_def)
    moreover have "get32 ?a t = get32 ?a (init_disk blank)" by (rule fixed) (use unat_bitmap [OF i] d in \<open>auto simp: fixed_def\<close>)
    then have "bitmap_bit i t" using init_bits [OF i] by (simp add: bitmap_bit_def)
    ultimately show ?thesis using n by simp
  qed
  moreover have "get32 (s_magic (blk 1)) s = FS_MAGIC"
  proof -
    have "get32 (s_magic (blk 1)) s = get32 (s_magic super_at) ?u" unfolding s using get32_copy [of 0 "s_magic (blk 1)" ?u] by (simp add: s_magic_def)
    also have "\<dots> = get32 (s_magic super_at) t" using super_addresses(1) c by (intro get32_cong) auto
    also have "\<dots> = FS_MAGIC" using fixed [of "s_magic super_at"] super_addresses(1) init_root(1) by (simp add: fixed_def)
    finally show ?thesis .
  qed
  moreover have "get32 (s_nblocks (blk 1)) s = NBLOCK"
  proof -
    have "get32 (s_nblocks (blk 1)) s = get32 (s_nblocks super_at) ?u" unfolding s using get32_copy [of 4 "s_nblocks (blk 1)" ?u] by (simp add: s_nblocks_def)
    also have "\<dots> = get32 (s_nblocks super_at) t" using super_addresses(2) c by (intro get32_cong) auto
    also have "\<dots> = NBLOCK" using fixed [of "s_nblocks super_at"] super_addresses(2) init_root(2) by (simp add: fixed_def)
    finally show ?thesis .
  qed
  ultimately show ?thesis using w by simp
qed

text \<open>
  C19 (image_correct): the image that \<open>fsformat\<close> writes is well formed, its bitmap marks exactly the blocks below the next free one as used, and its super block
  has the magic number and the size of the disk.
\<close>

theorem image_correct:
  assumes "fsformat_main False args = Some s" and "\<forall>a\<in>set args. good_arg a"
  shows "image_wf s \<and> (\<forall>i<1024. bitmap_bit i s \<longleftrightarrow> unat (nextbno s) \<le> i) \<and> get32 (s_magic (blk 1)) s = FS_MAGIC \<and> get32 (s_nblocks (blk 1)) s = NBLOCK"
  using assms by (rule image_built)

section \<open>Reading back\<close>

lemma slot_bound: "image_wf s \<Longrightarrow> slot_in s f \<Longrightarrow> unat f + 256 \<le> 4096 * unat (nextbno s) \<and> unat f mod 4096 + 256 \<le> 4096"
proof -
  assume w: "image_wf s" "slot_in s f"
  then obtain b i where b: "used s b" "i < 16" "f = blk b + BY2FILE * word_of_nat i" by (auto simp: slot_in_def)
  moreover have "unat b < 1024" using b(1) wf_bounds(2) [OF w(1)] by (simp add: used_def)
  ultimately have "unat f = 4096 * unat b + 256 * i" "unat b < unat (nextbno s)" using unat_slot by (auto simp: used_def)
  moreover have "(4096 * unat b + 256 * i) mod 4096 = 256 * i" using b(2) by simp
  ultimately show ?thesis using b(2) by simp
qed

lemma cstr_bytes:
  "unat a + length xs < 4294967296 \<Longrightarrow> 0 \<notin> set xs \<Longrightarrow> (\<And>i. i \<le> length xs \<Longrightarrow> m (a + word_of_nat i) = (xs @ [0]) ! i) \<Longrightarrow> cstr m a xs"
proof (induction xs arbitrary: a)
  case Nil
  then show ?case using Nil.prems(3) [of 0] by simp
next
  case (Cons x xs)
  have "cstr m (a + 1) xs"
  proof (rule Cons.IH)
    show "unat (a + 1) + length xs < 4294967296" using Cons.prems(1) by (simp add: unat_word_ariths)
    show "m (a + 1 + word_of_nat i) = (xs @ [0]) ! i" if "i \<le> length xs" for i using Cons.prems(3) [of "Suc i"] that by (simp add: add_ac)
  qed (use Cons.prems(2) in simp)
  then show ?case using Cons.prems(2) Cons.prems(3) [of 0] by auto
qed

lemma kept_entry:
  assumes "grows f s s'" "linked n0 f k s'" "unat x < unat f + 136 \<or> unat f + 180 \<le> unat x" "unat x < 4096 * n0" "n0 \<le> unat (nextbno s)"
  shows "mem s' x = mem s x"
proof -
  have "ind f s' \<noteq> 0 \<longrightarrow> n0 \<le> unat (ind f s')" using assms(2) by (auto simp: linked_def split: if_splits)
  then have "\<not> (ind f s' \<noteq> 0 \<and> in_block (ind f s') x)" using assms(4) by (auto simp: in_block_def)
  then show ?thesis using assms(1) [unfolded grows_def keeps_def] assms(3-5) by (auto dest!: spec [of _ x])
qed

text \<open>The entry as \<open>write_file\<close> leaves it before the blocks are written.\<close>

definition file_entry :: "u32 \<Rightarrow> u8 list \<Rightarrow> u8 list \<Rightarrow> image \<Rightarrow> image" where
  "file_entry f name xs s = put32 (f_type f) FTYPE_REG (put32 (f_size f) (word_of_nat (length xs)) (write_bytes f (name @ [0]) s))"

lemma file_entry_fields:
  assumes u: "unat f + 256 \<le> 4294967296" and n: "length name < 128"
  shows "get32 (f_size f) (file_entry f name xs s) = word_of_nat (length xs)" "get32 (f_type f) (file_entry f name xs s) = FTYPE_REG"
    "ind f (file_entry f name xs s) = ind f s" "nextbno (file_entry f name xs s) = nextbno s"
    "i \<le> length name \<Longrightarrow> mem (file_entry f name xs s) (f + word_of_nat i) = (name @ [0]) ! i"
    "\<not> in_file f x \<Longrightarrow> mem (file_entry f name xs s) x = mem s x"
proof -
  note a = unat_fields [OF u]
  show "get32 (f_size f) (file_entry f name xs s) = word_of_nat (length xs)" "get32 (f_type f) (file_entry f name xs s) = FTYPE_REG"
    "ind f (file_entry f name xs s) = ind f s" "nextbno (file_entry f name xs s) = nextbno s"
    using a u n by (simp_all add: file_entry_def get32_put32 get32_write_bytes)
  show "mem (file_entry f name xs s) (f + word_of_nat i) = (name @ [0]) ! i" if "i \<le> length name"
    using mem_write_bytes_nth [of i "name @ [0]" f s] unat_off [of f i] a u n that by (simp add: file_entry_def mem_put32 outside_def)
  show "mem (file_entry f name xs s) x = mem s x" if "\<not> in_file f x"
    using that a u n by (auto simp: file_entry_def mem_put32 mem_write_bytes outside_def in_file_def)
qed

lemma write_file_spec:
  assumes w: "image_wf s" and d: "dir_in s d" and f: "create_file d s = Some (f, s1)" and n: "good_name (after_slash path)"
    and room: "unat (nextbno s1) + nblocks xs + 1 \<le> 1024"
  shows "\<exists>s'. write_file d path (Some xs) s = Some s' \<and> image_wf s' \<and> cstr (mem s') f (after_slash path) \<and> get32 (f_size f) s' = word_of_nat (length xs)
    \<and> get32 (f_type f) s' = FTYPE_REG \<and> holds f 0 xs s' \<and> (\<forall>x. unat x < 4096 * unat (nextbno s1) \<longrightarrow> \<not> in_file f x \<longrightarrow> mem s' x = mem s1 x)"
proof -
  let ?name = "after_slash path" and ?n = "unat (nextbno s1)"
  let ?c = "file_entry f ?name xs s1"
  have c: "image_wf s1" "slot_in s1 f" "mem s1 f = 0" using create_file_wf [OF w d f] by (auto simp: grown_def)
  have b: "unat f + 256 \<le> 4096 * ?n" "unat f mod 4096 + 256 \<le> 4096" using slot_bound [OF c(1,2)] by auto
  have u: "unat f + 256 \<le> 4294967296" using file_bound [OF c(1) slot_files [OF c(2)]] .
  have len: "length ?name < 128" "0 \<notin> set ?name" using n by (auto simp: good_name_def)
  note e = file_entry_fields [OF u len(1), where xs = xs and s = s1] and a = unat_fields [OF u]
  have "ind f s1 = 0" using zero_word [OF u] wf_file [OF c(1) slot_files [OF c(2)]] c(3) a by (simp add: file_ok_def)
  then have l: "linked ?n f 0 ?c" using e(3,4) b(1) wf_bounds(2) [OF c(1)] by (simp add: linked_def)
  from write_blocks_spec [OF l, of xs] obtain s' where s': "write_blocks f 0 xs ?c = Some s'" "linked ?n f (nblocks xs) s'" "grows f ?c s'" "holds f 0 xs s'"
    using room e(4) by auto
  have "set_name f ?name s1 = Some (write_bytes f (?name @ [0]) s1)"
    using b(2) len(1) by (simp add: set_name_def unat_mod fs_defs BY2PG_def)
  then have r: "write_file d path (Some xs) s = Some s'" using f s'(1) by (simp add: write_file_def file_entry_def Let_def)
  have keep: "mem s' x = mem ?c x" if "unat x < unat f + 136 \<or> unat f + 180 \<le> unat x" "unat x < 4096 * ?n" for x
    by (rule kept_entry [OF s'(3,2) that]) (simp add: e(4))
  have "cstr (mem s') f ?name"
  proof (rule cstr_bytes [OF _ len(2)])
    show "mem s' (f + word_of_nat i) = (?name @ [0]) ! i" if "i \<le> length ?name" for i
      using keep [of "f + word_of_nat i"] unat_off [of f i] e(5) [OF that] that len(1) b(1) u by simp
  qed (use u len in simp)
  moreover have "get32 (f_size f) s' = get32 (f_size f) ?c" "get32 (f_type f) s' = get32 (f_type f) ?c"
    using keep a u b(1) by (auto intro!: get32_cong)
  moreover have "mem s' x = mem s1 x" if "unat x < 4096 * ?n" "\<not> in_file f x" for x
    using keep [of x] that e(6) [OF that(2)] by (auto simp: in_file_def)
  moreover have "image_wf s'" using write_file_wf [OF w d n r] by (simp add: grown_def)
  ultimately show ?thesis using r e(1,2) s'(4) by (intro exI [of _ s']) simp
qed

text \<open>
  C20 (write_file_reads_back): a file written to a directory of a well-formed image that has room for it is found in the entry that \<open>create_file\<close>
  takes: name, size and type, and its bytes in the blocks that its links lead to. Nothing else below the new blocks changes.
\<close>

theorem write_file_reads_back:
  assumes "image_wf s" and "dir_in s d" and "create_file d s = Some (f, s1)" and "good_name (after_slash path)"
    and "unat (nextbno s1) + nblocks xs + 1 \<le> 1024"
  shows "\<exists>s'. write_file d path (Some xs) s = Some s' \<and> image_wf s' \<and> cstr (mem s') f (after_slash path) \<and> get32 (f_size f) s' = word_of_nat (length xs)
    \<and> get32 (f_type f) s' = FTYPE_REG \<and> holds f 0 xs s' \<and> (\<forall>x. unat x < 4096 * unat (nextbno s1) \<longrightarrow> \<not> in_file f x \<longrightarrow> mem s' x = mem s1 x)"
  using assms by (rule write_file_spec)

text \<open>The first file of the root directory.\<close>

lemma first_file: "\<exists>s1. create_file root_file (init_disk blank) = Some (blk 3, s1) \<and> nextbno s1 = 4"
proof -
  have n: "nextbno (init_disk blank) = 3" by (simp add: init_disk_blank first_image_def)
  then show ?thesis
    using init_root(4) by (simp add: create_file_def make_link_block_def next_block_def save_block_link_def NBLOCK_def fs_defs BY2PG_def Let_def)
qed

theorem write_file_reads_back_witness:
  "\<exists>s'. write_file root_file [47, 97] (Some [1, 2, 3]) (init_disk blank) = Some s' \<and> cstr (mem s') (blk 3) [97] \<and> holds (blk 3) 0 [1, 2, 3] s'"
proof -
  obtain s1 where s1: "create_file root_file (init_disk blank) = Some (blk 3, s1)" "nextbno s1 = 4" using first_file by blast
  have "after_slash [47, 97] = [97]" by (simp add: after_slash_def)
  then show ?thesis
    using write_file_reads_back [OF init_wf s1(1), of "[47, 97]" "[1, 2, 3]"] s1(2) by (auto simp: good_name_def nblocks_def)
qed

lemma one_file_image: "\<exists>s. fsformat_main False [([97], Some (Regular (Some [1, 2, 3])))] = Some s"
proof -
  obtain s1 where s1: "create_file root_file (init_disk blank) = Some (blk 3, s1)" "nextbno s1 = 4" using first_file by blast
  have g: "good_name (after_slash [97])" by (simp add: after_slash_def good_name_def)
  obtain t where "write_file root_file [97] (Some [1, 2, 3]) (init_disk blank) = Some t"
    using write_file_spec [OF init_wf s1(1) g, of "[1, 2, 3]"] s1(2) by (auto simp: nblocks_def)
  then show ?thesis by (simp add: fsformat_main_def write_argument_def)
qed

theorem image_correct_witness:
  "\<exists>s. fsformat_main False [([97], Some (Regular (Some [1, 2, 3])))] = Some s \<and> (\<forall>i<1024. bitmap_bit i s \<longleftrightarrow> unat (nextbno s) \<le> i)"
proof -
  obtain s where s: "fsformat_main False [([97], Some (Regular (Some [1, 2, 3])))] = Some s" using one_file_image by blast
  then show ?thesis using image_correct [OF s] by (simp add: good_arg_def after_slash_def good_name_def)
qed

end
