(* ===== verification/Fs_Image.thy ===== *)
theory Fs_Image
  imports Fs_Props Fsformat_Final
begin

text \<open>
  The file system server on the image of \<open>fsformat\<close>: \<open>fs_init\<close> accepts the image, leaves the disk as it is, although \<open>check_write_block\<close> writes to it, and
  the server sees exactly the blocks behind the last used one as free.
\<close>

section \<open>Pages of the cache\<close>

definition D :: "u32 \<Rightarrow> u32" where "D b = DISKMAP + BY2BLK * b"

lemma cache_unat: "unat b < 1024 \<Longrightarrow> i < 4096 \<Longrightarrow> unat (D b + word_of_nat i) = 268435456 + 4096 * unat b + i"
  by (simp add: D_def fs_defs BY2PG_def unat_word_ariths unat_of_nat)

lemma cache_page:
  assumes "unat b < 1024" "i < 4096"
  shows "VPN (D b + word_of_nat i) = 65536 + unat b" "PDX (D b + word_of_nat i) = 64" "PTE_ADDR (D b + word_of_nat i) = D b"
    "(D b + word_of_nat i) AND 0xFFF = word_of_nat i"
proof -
  note u = cache_unat [OF assms]
  show "VPN (D b + word_of_nat i) = 65536 + unat b" using assms(2) by (simp add: VPN_div u)
  show "PDX (D b + word_of_nat i) = 64" using assms by (simp add: PDX_div u)
  have "(268435456 + 4096 * unat b + i) div 4096 = 65536 + unat b" using assms(2) by simp
  then have "unat (PTE_ADDR (D b + word_of_nat i)) = unat (D b)" using cache_unat [of b 0] assms by (simp add: unat_PTE_ADDR u)
  then show "PTE_ADDR (D b + word_of_nat i) = D b" by (simp only: word_unat_eq_iff)
  have m: "(0xFFF :: u32) = mask 12" by (simp add: mask_eq_exp_minus_1)
  have "268435456 + 4096 * unat b + i = i + 4096 * (65536 + unat b)" by simp
  then have "(268435456 + 4096 * unat b + i) mod 4096 = i" using assms(2) by (simp only: mod_mult_self2) simp
  then have "unat ((D b + word_of_nat i) AND 0xFFF) = i" unfolding m take_bit_eq_mask [symmetric] using assms by (simp add: unat_take u)
  then show "(D b + word_of_nat i) AND 0xFFF = word_of_nat i" using assms(2) by (auto simp: word_unat_eq_iff unat_of_nat)
qed

lemmas cache_page0 = cache_page [where i = 0, simplified]

definition present :: "u32 \<Rightarrow> fsst \<Rightarrow> bool" where
  "present b s \<longleftrightarrow> pte_valid (vpd s 64) \<and> pte_valid (vpt s (65536 + unat b)) \<and> vpt s (65536 + unat b) AND PTE_D \<noteq> 0"

lemma present_page:
  assumes "present b s" "unat b < 1024" "i < 4096"
  shows "va_mapped (D b + word_of_nat i) s" "va_writable (D b + word_of_nat i) s" "va_is_mapped (D b + word_of_nat i) s"
  using assms cache_page [OF assms(2,3)] by (simp_all add: present_def va_mapped_def va_writable_def va_is_mapped_def)

lemma D_inj: "unat b < 1024 \<Longrightarrow> unat c < 1024 \<Longrightarrow> D b = D c \<longleftrightarrow> b = c"
  using cache_unat [of b 0] cache_unat [of c 0] by (auto simp: word_unat_eq_iff)

lemma cache_other: "unat b < 1024 \<Longrightarrow> unat c < 1024 \<Longrightarrow> i < 4096 \<Longrightarrow> b \<noteq> c \<Longrightarrow> PTE_ADDR (D c + word_of_nat i) \<noteq> D b"
  using D_inj [of b c] by (auto simp: cache_page(3))

text \<open>The byte \<open>i\<close> of a cached page.\<close>

abbreviation page :: "u32 \<Rightarrow> fsst \<Rightarrow> nat \<Rightarrow> u8" where
  "page b s i \<equiv> umem s (D b + word_of_nat i)"

section \<open>Reading blocks\<close>

text \<open>
  A block that is not in the cache is loaded: it is then present with the contents of the disk, and the other pages are as before.
\<close>

definition loads :: "u32 \<Rightarrow> fsst \<Rightarrow> fsst \<Rightarrow> bool" where
  "loads b s s' \<longleftrightarrow> super s' = super s \<and> bitmap s' = bitmap s \<and> disk s' = disk s \<and> palloc s' = palloc s \<and> present b s'
     \<and> (\<forall>i<4096. page b s' i = disk s 0 (blk b + word_of_nat i)) \<and> (\<forall>a. PTE_ADDR a \<noteq> D b \<longrightarrow> umem s' a = umem s a)
     \<and> (\<forall>c. c \<noteq> 65536 + unat b \<longrightarrow> vpt s' c = vpt s c)"

lemma cache_diff: "unat b < 1024 \<Longrightarrow> a - D b < 4096 \<longleftrightarrow> PTE_ADDR a = D b"
proof -
  assume b: "unat b < 1024"
  have u: "unat (D b) = 268435456 + 4096 * unat b" using cache_unat [OF b, of 0] by simp
  have "a - D b < 4096 \<longleftrightarrow> unat (D b) \<le> unat a \<and> unat a < unat (D b) + 4096"
    using unat_diff_lt [of "D b" 4096 a] b u by (simp add: word_less_nat_alt)
  also have "\<dots> \<longleftrightarrow> unat a div 4096 = 65536 + unat b" using u by auto
  also have "\<dots> \<longleftrightarrow> unat (PTE_ADDR a) = unat (D b)" using u by (auto simp: unat_PTE_ADDR)
  finally show ?thesis by (simp only: word_unat_eq_iff)
qed

lemma load_block:
  assumes b: "unat b < 1024" and c: "super s = 0 \<or> uload (s_nblocks (super s)) s = Some NBLOCK" "bitmap s = 0"
    and n: "vpt s (65536 + unat b) = 0" and p: "palloc s (requests s) = Some fr"
  shows "\<exists>s'. read_block b s = Some (Inr (D b, True), s') \<and> loads b s s'"
proof -
  have b': "b < 0x40000" using b by (simp add: word_less_nat_alt)
  note pg = block_page [OF b', folded D_def] and cp = cache_page0 [OF b]
  have nm: "\<not> va_is_mapped (D b) s" using n cp by (simp add: va_is_mapped_def)
  define t where "t = snd (syscall_mem_alloc (D b) PTE_D s)"
  let ?s = "t\<lparr>umem := (\<lambda>a. if a - D b < 4096 then disk s 0 (b * SECT2BLK * BY2SECT + (a - D b)) else umem t a)\<rparr>"
  have t: "syscall_mem_alloc (D b) PTE_D s = (Inr (), t)" "super t = super s" "bitmap t = bitmap s" "disk t = disk s" "palloc t = palloc s"
    "umem t = fill_page (D b) (\<lambda>_. 0) (umem s)" "vpd t = (vpd s)(64 := vpd s 64 OR PTE_V)" "vpt t = (vpt s)(65536 + unat b := PTE_ADDR fr OR PTE_D OR PTE_V)"
    using pg p cp by (simp_all add: t_def syscall_mem_alloc_def)
  have d: "(PTE_ADDR fr OR PTE_D OR PTE_V) AND PTE_D \<noteq> 0"
  proof
    assume "(PTE_ADDR fr OR PTE_D OR PTE_V) AND PTE_D = 0"
    then have "bit ((PTE_ADDR fr OR PTE_D OR PTE_V) AND PTE_D) 10 = False" by simp
    then show False by (simp add: bit_simps PTE_D_def) 
  qed
  have pr: "present b t" using t(7,8) d by (simp add: present_def)
  have sz: "SECT2BLK * BY2SECT = 4096" "SECT2BLK \<le> SECT2BLK" by (simp_all add: fs_defs BY2PG_def)
  have rd: "ide_read_blk 0 (b * SECT2BLK) (D b) SECT2BLK t = Some ?s"
    using present_page(2) [OF pr b, of 0] pg(2) t(4) by (simp add: ide_read_blk_def sz cong: if_cong)
  have bad: "(if super s \<noteq> 0 then do { n \<leftarrow> uload (s_nblocks (super s)) s; Some (b \<ge> n) } else Some False) = Some False"
    using c(1) b by (auto simp: NBLOCK_def word_le_nat_alt)
  have r: "read_block b s = Some (Inr (D b, True), ?s)"
    unfolding read_block_def bad using c(2) nm rd t(1) diskaddr_ok [OF b', folded D_def] by (simp add: block_is_mapped_def)
  have "present b ?s" using pr by (simp add: present_def)
  moreover have "page b ?s i = disk s 0 (blk b + word_of_nat i)" if "i < 4096" for i
  proof -
    have "(word_of_nat i :: u32) < 4096" using that by (simp add: word_less_nat_alt unat_of_nat)
    then show ?thesis by (simp add: blk_def fs_defs BY2PG_def mult.commute)
  qed
  moreover have "umem ?s a = umem s a" if "PTE_ADDR a \<noteq> D b" for a
    using that cache_diff [OF b, of a] cp(3) t(6) by (simp add: fill_page_def)
  ultimately have "loads b s ?s" using t by (simp add: loads_def)
  then show ?thesis using r by blast
qed

lemma loads_other:
  assumes "loads b s s'" "unat b < 1024" "unat c < 1024" "c \<noteq> b"
  shows "i < 4096 \<Longrightarrow> page c s' i = page c s i" "present c s \<Longrightarrow> present c s'" "vpt s' (65536 + unat c) = vpt s (65536 + unat c)"
proof -
  have ne: "unat c \<noteq> unat b" using assms(4) by (simp add: word_unat_eq_iff)
  show "page c s' i = page c s i" if "i < 4096"
    using assms(1) cache_other [OF assms(2,3) that assms(4) [symmetric]] by (simp add: loads_def)
  show v: "vpt s' (65536 + unat c) = vpt s (65536 + unat c)" using assms(1) ne by (simp add: loads_def)
  show "present c s'" if "present c s" using that v assms(1) by (simp add: present_def loads_def)
qed

text \<open>Words of a present page.\<close>

lemma uload_page:
  assumes "present b s" "unat b < 1024" "i < 1024"
  shows "uload (D b + word_of_nat (4 * i)) s = Some (load_word (umem s) (D b + word_of_nat (4 * i)))"
proof -
  have i: "4 * i < 4096" using assms(3) by simp
  have m: "(3 :: u32) = mask 2" by (simp add: mask_eq_exp_minus_1)
  have "unat (D b + word_of_nat (4 * i)) = 4 * (67108864 + 1024 * unat b + i)" using cache_unat [OF assms(2) i] by simp
  then have "unat ((D b + word_of_nat (4 * i)) AND 3) = 0" unfolding m take_bit_eq_mask [symmetric] by (simp add: unat_take)
  then show ?thesis using present_page(1) [OF assms(1,2) i] by (simp add: uload_def unat_eq_0)
qed

lemma load_word_page:
  assumes "\<forall>i<4096. page b s i = d (blk b + word_of_nat i)" "i < 1024"
  shows "load_word (umem s) (D b + word_of_nat (4 * i)) = load_word d (blk b + word_of_nat (4 * i))"
proof -
  have "page b s (4 * i + k) = d (blk b + word_of_nat (4 * i + k))" if "k < 4" for k
    using assms(1) [rule_format, of "4 * i + k"] assms(2) that by linarith
  from this [of 0] this [of 1] this [of 2] this [of 3] show ?thesis by (simp add: load_word_def add_ac)
qed

section \<open>The write test\<close>

lemma fill_page_copy:
  assumes "unat b < 1024" "unat c < 1024" "i < 4096"
  shows "fill_page (D b) f m (D b + word_of_nat i) = f (word_of_nat i)" "c \<noteq> b \<Longrightarrow> fill_page (D b) f m (D c + word_of_nat i) = m (D c + word_of_nat i)"
  using assms cache_page [OF assms(1,3)] cache_page0 [OF assms(1)] cache_other [OF assms(1,2,3)] by (simp_all add: fill_page_def)

lemma store_bytes_page:
  assumes "present b s" "unat b < 1024" "k + length bs \<le> 4096"
  shows "\<exists>m. ustore_bytes (D b + word_of_nat k) bs s = Some (s\<lparr>umem := m\<rparr>) \<and> (\<forall>i<length bs. m (D b + word_of_nat (k + i)) = bs ! i)
    \<and> (\<forall>a. (\<forall>i<length bs. a \<noteq> D b + word_of_nat (k + i)) \<longrightarrow> m a = umem s a)"
  using assms
proof (induction bs arbitrary: k s)
  case Nil
  then show ?case by (intro exI [of _ "umem s"]) simp
next
  case (Cons x bs)
  let ?s = "s\<lparr>umem := (umem s)(D b + word_of_nat k := x)\<rparr>"
  have w: "ustore8 (D b + word_of_nat k) x s = Some ?s" using present_page(2) [OF Cons.prems(1,2), of k] Cons.prems(3) by (simp add: ustore8_def)
  have "present b ?s" using Cons.prems(1) by (simp add: present_def)
  then obtain m where m: "ustore_bytes (D b + word_of_nat (Suc k)) bs ?s = Some (?s\<lparr>umem := m\<rparr>)" "\<forall>i<length bs. m (D b + word_of_nat (Suc k + i)) = bs ! i"
    "\<forall>a. (\<forall>i<length bs. a \<noteq> D b + word_of_nat (Suc k + i)) \<longrightarrow> m a = umem ?s a"
    using Cons.IH [of ?s "Suc k"] Cons.prems(2,3) by auto
  have ne: "D b + word_of_nat k \<noteq> D b + word_of_nat (Suc k + i)" if "i < length bs" for i
    using cache_unat [OF Cons.prems(2), of k] cache_unat [OF Cons.prems(2), of "Suc k + i"] that Cons.prems(3) by (auto simp: word_unat_eq_iff)
  have first: "m (D b + word_of_nat k) = x" using m(3) ne by simp
  show ?case
  proof (intro exI [of _ m] conjI allI impI)
    show "ustore_bytes (D b + word_of_nat k) (x # bs) s = Some (s\<lparr>umem := m\<rparr>)" using w m(1) by (simp add: add_ac)
    show "m (D b + word_of_nat (k + i)) = (x # bs) ! i" if "i < length (x # bs)" for i
      using that first m(2) by (cases i) auto
    show "m a = umem s a" if "\<forall>i<length (x # bs). a \<noteq> D b + word_of_nat (k + i)" for a
    proof -
      have "a \<noteq> D b + word_of_nat k" using that by (auto dest: spec [of _ 0])
      moreover have "a \<noteq> D b + word_of_nat (Suc k + i)" if "i < length bs" for i
        using \<open>\<forall>i<length (x # bs). a \<noteq> D b + word_of_nat (k + i)\<close> that by (auto dest: spec [of _ "Suc i"])
      ultimately show ?thesis using m(3) by simp
    qed
  qed
qed

text \<open>Writing a present page back.\<close>

lemma write_back:
  assumes "present b s" "unat b < 1024"
  shows "write_block b s = Some (s\<lparr>disk := (disk s)(0 := (\<lambda>i. if i div BY2BLK = b then umem s (DISKMAP + i) else disk s 0 i))\<rparr>)"
proof -
  have b: "b < 0x40000" using assms(2) by (simp add: word_less_nat_alt)
  show ?thesis using write_block_ok [OF b, of s] present_page(3) [OF assms, of 0] by (simp add: D_def)
qed

lemma block_byte:
  assumes "unat b < 1024" "i < 4096"
  shows "(blk b + word_of_nat i) div BY2BLK = b" "DISKMAP + (blk b + word_of_nat i) = D b + word_of_nat i"
proof -
  have "unat (blk b + word_of_nat i) = 4096 * unat b + i"
    using unat_blk [of b] unat_off [of "blk b" i] assms by (simp add: word_le_nat_alt)
  moreover have "(4096 * unat b + i) div 4096 = unat b" using assms(2) by simp
  ultimately show "(blk b + word_of_nat i) div BY2BLK = b" by (simp add: word_unat_eq_iff unat_div)
  show "DISKMAP + (blk b + word_of_nat i) = D b + word_of_nat i" by (simp add: D_def blk_def)
qed

lemma div_block: "x div BY2BLK = b \<Longrightarrow> unat b < 1024 \<Longrightarrow> \<exists>i<4096. x = blk b + word_of_nat i"
proof -
  assume a: "x div BY2BLK = b" "unat b < 1024"
  then have d: "unat x div 4096 = unat b" by (metis unat_BY2BLK unat_div)
  let ?i = "unat x mod 4096"
  have i: "?i < 4096" by simp
  have "unat (blk b + word_of_nat ?i) = 4096 * unat b + ?i"
    using unat_blk [of b] unat_off [of "blk b" ?i] a(2) i by (simp add: word_le_nat_alt)
  also have "\<dots> = unat x" using d by (metis mult_div_mod_eq)
  finally show ?thesis using i by (metis word_unat_eq_iff)
qed

lemma str_matches_nth: "(\<And>i. i \<le> length cs \<Longrightarrow> m (a + word_of_nat i) = (cs @ [0]) ! i) \<Longrightarrow> str_matches cs m a"
proof (induction cs arbitrary: a)
  case Nil
  then show ?case using Nil [of 0] by simp
next
  case (Cons c cs)
  have "str_matches cs m (a + 1)"
    by (rule Cons.IH) (use Cons.prems [of "Suc _"] in \<open>simp add: add_ac\<close>)
  then show ?case using Cons.prems [of 0] by simp
qed

lemma disk01: "diskaddr 0 = Some (D 0)" "diskaddr 1 = Some (D 1)" "diskaddr 2 = Some (D 2)"
  by (simp_all add: diskaddr_ok D_def)

lemma mapped_block: "unat b < 1024 \<Longrightarrow> block_is_mapped b s = Some (if va_is_mapped (D b) s then Some (D b) else None)"
proof -
  assume "unat b < 1024"
  then have "b < 0x40000" by (simp add: word_less_nat_alt)
  then show ?thesis by (simp add: block_is_mapped_def diskaddr_ok D_def)
qed

text \<open>
  The first half of the test: block 0 is loaded, its page takes the contents of block 1, and the page of block 1 gets the test string and is written.
\<close>

lemma test_string_written:
  assumes s: "bitmap s = 0" "super s = 0" "present 1 s" "vpt s 65536 = 0" "\<forall>n. palloc s n \<noteq> None" "\<forall>i<4096. page 1 s i = disk s 0 (blk 1 + word_of_nat i)"
  shows "\<exists>s1 m t. read_block 0 s = Some (Inr (D 0, True), s1) \<and> va_writable (D 0) s1 \<and> va_is_mapped (D 1) s1
    \<and> ustore_bytes (D 1) (OOPS @ [0]) (s1\<lparr>umem := fill_page (D 0) (\<lambda>i. umem s1 (D 1 + i)) (umem s1)\<rparr>) = Some (s1\<lparr>umem := m\<rparr>)
    \<and> write_block 1 (s1\<lparr>umem := m\<rparr>) = Some t \<and> present 0 t \<and> present 1 t \<and> bitmap t = 0 \<and> super t = 0 \<and> palloc t = palloc s
    \<and> (\<forall>i<4096. page 0 t i = disk s 0 (blk 1 + word_of_nat i)) \<and> (\<forall>i<4096. page 1 t i = disk t 0 (blk 1 + word_of_nat i))
    \<and> (\<forall>i<7. page 1 t i = (OOPS @ [0]) ! i) \<and> (\<forall>x. x div BY2BLK \<noteq> 1 \<longrightarrow> disk t 0 x = disk s 0 x) \<and> (\<forall>d. d \<noteq> 0 \<longrightarrow> disk t d = disk s d)
    \<and> (\<forall>c. c \<noteq> 65536 \<longrightarrow> vpt t c = vpt s c)"
proof -
  obtain fr where "palloc s (requests s) = Some fr" using s(5) by blast
  then obtain s1 where s1: "read_block 0 s = Some (Inr (D 0, True), s1)" "loads 0 s s1" using load_block [of 0 s fr] s by auto
  note l = s1(2) [unfolded loads_def] and o = loads_other [OF s1(2), of 1]
  have p: "present 0 s1" "present 1 s1" using l o(2) s(3) by simp_all
  let ?f = "fill_page (D 0) (\<lambda>i. umem s1 (D 1 + i)) (umem s1)"
  let ?s2 = "s1\<lparr>umem := ?f\<rparr>"
  have p2: "present 1 ?s2" using p(2) by (simp add: present_def)
  from store_bytes_page [OF p2, of 0 "OOPS @ [0]"] obtain m where m: "ustore_bytes (D 1) (OOPS @ [0]) ?s2 = Some (s1\<lparr>umem := m\<rparr>)"
    "\<forall>i<7. m (D 1 + word_of_nat i) = (OOPS @ [0]) ! i" "\<forall>a. (\<forall>i<7. a \<noteq> D 1 + word_of_nat i) \<longrightarrow> m a = ?f a"
    by (auto simp: OOPS_def)
  let ?s3 = "s1\<lparr>umem := m\<rparr>"
  let ?t = "?s3\<lparr>disk := (disk s1)(0 := (\<lambda>i. if i div BY2BLK = 1 then m (DISKMAP + i) else disk s1 0 i))\<rparr>"
  have p3: "present 1 ?s3" "present 0 ?s3" using p by (simp_all add: present_def)
  have w: "write_block 1 ?s3 = Some ?t" using write_back [OF p3(1)] by (simp cong: if_cong)
  have page0: "m (D 0 + word_of_nat i) = disk s 0 (blk 1 + word_of_nat i)" if i: "i < 4096" for i
  proof -
    have "D 0 + word_of_nat i \<noteq> D 1 + word_of_nat j" if "j < 7" for j
      using cache_unat [of 0 i] cache_unat [of 1 j] i that by (auto simp: word_unat_eq_iff)
    then have "m (D 0 + word_of_nat i) = ?f (D 0 + word_of_nat i)" using m(3) by blast
    also have "\<dots> = page 1 s1 i" using fill_page_copy(1) [of 0 0 i] i by simp
    also have "\<dots> = page 1 s i" using o(1) [of i] i by simp
    finally show ?thesis using s(6) i by simp
  qed
  have page1: "page 1 ?t i = disk ?t 0 (blk 1 + word_of_nat i)" if "i < 4096" for i using that by (simp add: block_byte)
  have t: "present 0 ?t" "present 1 ?t" using p3 by (simp_all add: present_def)
  show ?thesis
    by (intro exI [of _ s1] exI [of _ m] exI [of _ ?t])
      (use s1 l o p m w t page0 page1 s present_page(2) [OF p(1), of 0] present_page(3) [OF p(2), of 0] in auto)
qed

lemma check_write_block_ok:
  assumes s: "bitmap s = 0" "present 1 s" "vpt s 65536 = 0" "\<forall>n. palloc s n \<noteq> None" "\<forall>i<4096. page 1 s i = disk s 0 (blk 1 + word_of_nat i)"
  shows "\<exists>s'. check_write_block s = Some s' \<and> super s' = D 1 \<and> bitmap s' = 0 \<and> disk s' = disk s \<and> palloc s' = palloc s \<and> present 1 s'
    \<and> (\<forall>i<4096. page 1 s' i = disk s 0 (blk 1 + word_of_nat i)) \<and> (\<forall>c. c \<noteq> 65536 \<longrightarrow> c \<noteq> 65537 \<longrightarrow> vpt s' c = vpt s c)"
proof -
  let ?s = "s\<lparr>super := 0\<rparr>"
  have s0: "bitmap ?s = 0" "super ?s = 0" "present 1 ?s" "vpt ?s 65536 = 0" "\<forall>n. palloc ?s n \<noteq> None"
    "\<forall>i<4096. page 1 ?s i = disk ?s 0 (blk 1 + word_of_nat i)" using s by (simp_all add: present_def)
  from test_string_written [OF s0] obtain s1 m t where t: "read_block 0 ?s = Some (Inr (D 0, True), s1)" "va_writable (D 0) s1" "va_is_mapped (D 1) s1"
    "ustore_bytes (D 1) (OOPS @ [0]) (s1\<lparr>umem := fill_page (D 0) (\<lambda>i. umem s1 (D 1 + i)) (umem s1)\<rparr>) = Some (s1\<lparr>umem := m\<rparr>)"
    "write_block 1 (s1\<lparr>umem := m\<rparr>) = Some t" "present 0 t" "present 1 t" "bitmap t = 0" "super t = 0" "palloc t = palloc s"
    "\<forall>i<4096. page 0 t i = disk s 0 (blk 1 + word_of_nat i)" "\<forall>i<4096. page 1 t i = disk t 0 (blk 1 + word_of_nat i)"
    "\<forall>i<7. page 1 t i = (OOPS @ [0]) ! i" "\<forall>x. x div BY2BLK \<noteq> 1 \<longrightarrow> disk t 0 x = disk s 0 x" "\<forall>d. d \<noteq> 0 \<longrightarrow> disk t d = disk s d"
    "\<forall>c. c \<noteq> 65536 \<longrightarrow> vpt t c = vpt s c"
    by (elim exE conjE) (rule that; simp)
  let ?u = "t\<lparr>vpt := (vpt t)(65537 := 0)\<rparr>"
  have m1: "block_is_mapped 1 t = Some (Some (D 1))" using mapped_block [of 1 t] present_page(3) [OF t(7), of 0] by simp
  have un: "syscall_mem_unmap (D 1) t = (Inr (), ?u)"
    using block_page(3,4) [of 1, folded D_def] cache_page0(1) [of 1] by (simp add: syscall_mem_unmap_def)
  have "\<not> va_is_mapped (D 1) ?u" using cache_page0(1) [of 1] by (simp add: va_is_mapped_def)
  then have mu: "block_is_mapped 1 ?u = Some None" using mapped_block [of 1 ?u] by simp
  obtain fr where fr: "palloc ?u (requests ?u) = Some fr" using s(4) t(10) by auto
  from load_block [of 1 ?u fr] fr t(8,9) obtain v where v: "read_block 1 ?u = Some (Inr (D 1, True), v)" "loads 1 ?u v" by auto
  note l = v(2) [unfolded loads_def] and o = loads_other [OF v(2), of 0]
  have p1: "page 1 v i = page 1 t i" if "i < 4096" for i using l t(12) that by simp
  have pv: "present 1 v" "present 0 v" using l o(2) t(6) by (simp_all add: present_def)
  have str: "str_matches OOPS (umem v) (D 1)"
  proof (rule str_matches_nth)
    show "umem v (D 1 + word_of_nat i) = (OOPS @ [0]) ! i" if "i \<le> length OOPS" for i
      using p1 [of i] t(13) that by (simp add: OOPS_def)
  qed
  let ?g = "fill_page (D 1) (\<lambda>i. umem v (D 0 + i)) (umem v)"
  let ?w = "v\<lparr>umem := ?g\<rparr>"
  let ?z = "?w\<lparr>disk := (disk v)(0 := (\<lambda>i. if i div BY2BLK = 1 then ?g (DISKMAP + i) else disk v 0 i))\<rparr>"
  have pw: "present 1 ?w" using pv(1) by (simp add: present_def)
  have wr: "write_block 1 ?w = Some ?z" using write_back [OF pw] by (simp cong: if_cong)
  have g: "?g (D 1 + word_of_nat i) = disk s 0 (blk 1 + word_of_nat i)" if i: "i < 4096" for i
    using fill_page_copy(1) [of 1 1 i] o(1) [of i] t(11) i by simp
  have dz: "disk ?z = disk s"
  proof (intro ext)
    fix d x
    show "disk ?z d x = disk s d x"
    proof (cases "d = 0 \<and> x div BY2BLK = 1")
      case True
      then obtain i where i: "i < 4096" "x = blk 1 + word_of_nat i" using div_block [of x 1] by auto
      have "disk ?z d x = ?g (DISKMAP + x)" using True by simp
      also have "\<dots> = ?g (D 1 + word_of_nat i)" unfolding i(2) using i(1) by (subst block_byte(2)) simp_all
      finally show ?thesis using g [OF i(1)] True i(2) by simp
    next
      case False
      then show ?thesis using l t(14,15) by auto
    qed
  qed
  have "check_write_block s = Some (?z\<lparr>super := D 1\<rparr>)"
    unfolding check_write_block_def
    using t(1-5) m1 un mu v(1) str wr disk01 present_page(2) [OF pv(1), of 0] present_page(3) [OF pv(2), of 0] by (simp add: Let_def)
  moreover have "present 1 (?z\<lparr>super := D 1\<rparr>)" using pv(1) by (simp add: present_def)
  ultimately show ?thesis
    by (intro exI [of _ "?z\<lparr>super := D 1\<rparr>"]) (use l t(8,10,16) dz g in simp)
qed

section \<open>The start of the server\<close>

text \<open>The disk holds the image.\<close>

definition disk_holds :: "image \<Rightarrow> fsst \<Rightarrow> bool" where
  "disk_holds img s \<longleftrightarrow> (\<forall>x. unat x < 4194304 \<longrightarrow> disk s 0 x = mem img x)"

lemma image_word:
  assumes "disk_holds img s" "\<forall>i<4096. page b t i = disk s 0 (blk b + word_of_nat i)" "unat b < 1024" "i < 1024"
  shows "load_word (umem t) (D b + word_of_nat (4 * i)) = get32 (blk b + word_of_nat (4 * i)) img"
proof -
  have "unat (blk b + word_of_nat (4 * i + k)) < 4194304" if "k < 4" for k
    using unat_blk [of b] unat_off [of "blk b" "4 * i + k"] assms(3,4) that by (simp add: word_le_nat_alt)
  then have "disk s 0 (blk b + word_of_nat (4 * i + k)) = mem img (blk b + word_of_nat (4 * i + k))" if "k < 4" for k
    using assms(1) that by (simp add: disk_holds_def)
  from this [of 0] this [of 1] this [of 2] this [of 3]
  have "load_word (disk s 0) (blk b + word_of_nat (4 * i)) = get32 (blk b + word_of_nat (4 * i)) img"
    by (simp add: load_word_def get32_def add_ac)
  then show ?thesis using load_word_page [OF assms(2,4)] by simp
qed

text \<open>The server after its start: both pages it keeps are those of the disk.\<close>

lemma free_bit:
  assumes s: "super s = D 1" "present 1 s" "bitmap s = D 2" "present 2 s" and d: "disk_holds img t"
    and p: "\<forall>i<4096. page 1 s i = disk t 0 (blk 1 + word_of_nat i)" "\<forall>i<4096. page 2 s i = disk t 0 (blk 2 + word_of_nat i)"
    and n: "get32 (s_nblocks (blk 1)) img = NBLOCK" and b: "unat b < 1024"
  shows "block_is_free b s = Some (bitmap_bit (unat b) img)"
proof -
  have nz: "D 1 \<noteq> 0" using cache_unat [of 1 0] by auto
  have "uload (s_nblocks (D 1)) s = Some NBLOCK"
    using uload_page [OF s(2), of 1] image_word [OF d p(1), of 1] n by (simp add: s_nblocks_def)
  moreover have "uload (D 2 + 4 * (b div 32)) s = Some (get32 (blk 2 + 4 * word_of_nat (unat b div 32)) img)"
  proof -
    have i: "unat b div 32 < 1024" using b by simp
    have "unat (b div 32) = unat (word_of_nat (unat b div 32) :: u32)" using b by (simp add: unat_div unat_of_nat)
    then have "b div 32 = word_of_nat (unat b div 32)" by (simp only: word_unat_eq_iff)
    then show ?thesis using uload_page [OF s(4) _ i] image_word [OF d p(2) _ i] by simp
  qed
  moreover have "\<not> NBLOCK \<le> b" using b by (simp add: NBLOCK_def word_le_nat_alt)
  moreover have "unat (b mod 32) = unat b mod 32" by (simp add: unat_mod)
  ultimately show ?thesis using s(1,3) nz by (simp add: block_is_free_def bitmap_bit_def bit_iff_and_push_bit_not_eq_0)
qed

lemma read_super_ok:
  assumes "super s = 0" "bitmap s = 0" "vpt s 65537 = 0" "\<forall>n. palloc s n \<noteq> None" and d: "disk_holds img s"
    and i: "get32 (s_magic (blk 1)) img = FS_MAGIC" "get32 (s_nblocks (blk 1)) img = NBLOCK"
  shows "\<exists>s'. read_super s = Some (s'\<lparr>super := D 1\<rparr>) \<and> loads 1 s s'"
proof -
  obtain fr where "palloc s (requests s) = Some fr" using assms(4) by blast
  then obtain s' where s': "read_block 1 s = Some (Inr (D 1, True), s')" "loads 1 s s'" using load_block [of 1 s fr] assms by auto
  have p: "present 1 (s'\<lparr>super := D 1\<rparr>)" "\<forall>i<4096. page 1 (s'\<lparr>super := D 1\<rparr>) i = disk s 0 (blk 1 + word_of_nat i)"
    using s'(2) by (simp_all add: loads_def present_def)
  have "uload (s_magic (D 1)) (s'\<lparr>super := D 1\<rparr>) = Some FS_MAGIC" "uload (s_nblocks (D 1)) (s'\<lparr>super := D 1\<rparr>) = Some NBLOCK"
    using uload_page [OF p(1), of 0] uload_page [OF p(1), of 1] image_word [OF d p(2), of 0] image_word [OF d p(2), of 1] i
    by (simp_all add: s_magic_def s_nblocks_def)
  then have "read_super s = Some (s'\<lparr>super := D 1\<rparr>)" using s'(1) by (simp add: read_super_def Let_def NBLOCK_def fs_defs BY2PG_def)
  then show ?thesis using s'(2) by blast
qed

lemma read_bitmap_ok:
  assumes s: "super s = D 1" "bitmap s = 0" "present 1 s" "vpt s 65538 = 0" "\<forall>n. palloc s n \<noteq> None"
    and p: "\<forall>i<4096. page 1 s i = disk s 0 (blk 1 + word_of_nat i)" and d: "disk_holds img s"
    and i: "get32 (s_nblocks (blk 1)) img = NBLOCK" "\<not> bitmap_bit 0 img" "\<not> bitmap_bit 1 img" "\<not> bitmap_bit 2 img"
  shows "\<exists>s'. read_bitmap s = Some s' \<and> disk s' = disk s \<and> (\<forall>b. unat b < 1024 \<longrightarrow> block_is_free b s' = Some (bitmap_bit (unat b) img))"
proof -
  have n: "uload (s_nblocks (super s)) s = Some NBLOCK"
    using uload_page [OF s(3), of 1] image_word [OF d p, of 1] i(1) s(1) by (simp add: s_nblocks_def)
  obtain fr where "palloc s (requests s) = Some fr" using s(5) by blast
  then obtain s1 where s1: "read_block 2 s = Some (Inr (D 2, True), s1)" "loads 2 s s1" using load_block [of 2 s fr] s n by auto
  let ?s = "s1\<lparr>bitmap := D 2\<rparr>"
  note l = s1(2) [unfolded loads_def] and o = loads_other [OF s1(2), of 1]
  have t: "super ?s = D 1" "present 1 ?s" "bitmap ?s = D 2" "present 2 ?s" using l o(2) s(1,3) by (simp_all add: present_def)
  have p1: "\<forall>i<4096. page 1 ?s i = disk s 0 (blk 1 + word_of_nat i)" using o(1) p by simp
  have p2: "\<forall>i<4096. page 2 ?s i = disk s 0 (blk 2 + word_of_nat i)" using l by simp
  note f = free_bit [OF t d p1 p2 i(1)]
  have u: "assert_used b ?s = Some ?s" if "unat b < 1024" "\<not> bitmap_bit (unat b) img" for b
    using f [OF that(1)] that(2) by (simp add: assert_used_def)
  have c: "unat (NBLOCK div BIT2BLK + 1) = 1" by (simp add: image_defs)
  have "read_bitmap s = Some ?s"
    unfolding read_bitmap_def using n s1(1) u [of 0] u [of 1] u [of 2] i(2-4) disk01(3) by (simp add: c read_bitmap_block_def Let_def)
  then show ?thesis using f l by auto
qed

text \<open>
  C21 (fs_boots): the file system server, started with an empty cache on a disk that holds an image built by \<open>fsformat\<close>, accepts the image, leaves the disk
  unchanged, and then takes exactly the blocks from the next free one on for free.
\<close>

theorem fs_boots:
  assumes img: "fsformat_main False args = Some img" "\<forall>a\<in>set args. good_arg a" and d: "disk_holds img s"
    and s: "super s = 0" "bitmap s = 0" "\<forall>c\<in>{65536, 65537, 65538}. vpt s c = 0" "\<forall>n. palloc s n \<noteq> None"
  shows "\<exists>s'. fs_init s = Some s' \<and> disk s' = disk s \<and> (\<forall>b. unat b < 1024 \<longrightarrow> block_is_free b s' = Some (nextbno img \<le> b))"
proof -
  note b = image_built [OF img]
  have i: "get32 (s_magic (blk 1)) img = FS_MAGIC" "get32 (s_nblocks (blk 1)) img = NBLOCK" "\<not> bitmap_bit 0 img" "\<not> bitmap_bit 1 img" "\<not> bitmap_bit 2 img"
    using b wf_bounds(1) [of img] by auto
  from read_super_ok [OF s(1,2) _ s(4) d i(1,2)] s(3) obtain s1 where s1: "read_super s = Some (s1\<lparr>super := D 1\<rparr>)" "loads 1 s s1" by auto
  note l = s1(2) [unfolded loads_def]
  let ?s1 = "s1\<lparr>super := D 1\<rparr>"
  have "bitmap ?s1 = 0" "present 1 ?s1" "vpt ?s1 65536 = 0" "\<forall>n. palloc ?s1 n \<noteq> None" "\<forall>i<4096. page 1 ?s1 i = disk ?s1 0 (blk 1 + word_of_nat i)"
    using l s by (simp_all add: present_def)
  from check_write_block_ok [OF this] obtain s2 where s2: "check_write_block ?s1 = Some s2" "super s2 = D 1" "bitmap s2 = 0" "disk s2 = disk s"
    "palloc s2 = palloc s" "present 1 s2" "\<forall>i<4096. page 1 s2 i = disk s 0 (blk 1 + word_of_nat i)" "vpt s2 65538 = 0"
    using l s(3) by auto
  have "\<exists>s'. read_bitmap s2 = Some s' \<and> disk s' = disk s2 \<and> (\<forall>b. unat b < 1024 \<longrightarrow> block_is_free b s' = Some (bitmap_bit (unat b) img))"
    by (rule read_bitmap_ok [OF s2(2,3,6,8)]) (use s2 s(4) d i in \<open>simp_all add: disk_holds_def\<close>)
  then show ?thesis using s1(1) s2(1,4) b by (auto simp: fs_init_def word_le_nat_alt)
qed

text \<open>An image with one file on the disk of a server.\<close>

definition boot_state :: "image \<Rightarrow> fsst" where
  "boot_state img = \<lparr>umem = (\<lambda>_. 0), vpd = (\<lambda>_. 0), vpt = (\<lambda>_. 0), palloc = (\<lambda>n. Some (4096 * word_of_nat n)), requests = 0, super = 0, bitmap = 0,
     disk = (\<lambda>_. mem img)\<rparr>"

theorem fs_boots_witness:
  "\<exists>img s'. fsformat_main False [([97], Some (Regular (Some [1, 2, 3])))] = Some img \<and> fs_init (boot_state img) = Some s'
     \<and> (\<forall>b. unat b < 1024 \<longrightarrow> block_is_free b s' = Some (nextbno img \<le> b))"
proof -
  obtain img where img: "fsformat_main False [([97], Some (Regular (Some [1, 2, 3])))] = Some img" using one_file_image by blast
  have "good_arg ([97], Some (Regular (Some [1, 2, 3])))" by (simp add: good_arg_def after_slash_def good_name_def)
  then show ?thesis using fs_boots [OF img, of "boot_state img"] img by (auto simp: boot_state_def disk_holds_def)
qed

end
