(* ===== verification/Programs.thy ===== *)
theory Programs
  imports Shell User_Print
begin

text \<open>
  Programs on top of the library: \<open>user/echo.c\<close>, \<open>user/cat.c\<close>, \<open>user/num.c\<close>, \<open>user/ls.c\<close>, the start of the shell in \<open>user/sh.c\<close>, and the parser of
  command lines they share, \<open>include/args.h\<close>. The state is the memory of the environments with what lies behind descriptor 1 beside it;
  writing some characters to descriptor 1 is the argument \<open>p_stdout\<close>, as for \<open>fprintf\<close>. Arguments are strings without their terminator; global arrays and
  variables of a function that are filled by the library have their address as an argument. \<open>None\<close> is as for files; it includes every
  \<open>user_panic\<close> of the programs.

  The locale \<open>byte_stream\<close> states what a program relies on when it reads a descriptor to its end and writes to another; it is interpreted on
  \<open>read\<close> of an open file and on the console, and gives what \<open>cat\<close> and \<open>num\<close> print.
\<close>

section \<open>Definitions\<close>

type_synonym 's io = "'s \<times> uworld"

record 's program =
  p_me :: u32
  p_srv :: server
  p_fsbuf :: u32
  p_devs :: "dev list"
  p_stdout :: "string \<Rightarrow> 's io \<Rightarrow> (int \<times> 's io) option"

definition on_mem :: "(uworld \<Rightarrow> ('a \<times> uworld) option) \<Rightarrow> 's io \<Rightarrow> ('a \<times> 's io) option" where
  "on_mem f = (\<lambda>(s, w). do { (r, w) \<leftarrow> f w; Some (r, (s, w)) })"

definition printf :: "'s program \<Rightarrow> string \<Rightarrow> arg list \<Rightarrow> 's io \<Rightarrow> 's io option" where
  "printf E fmt ap q = map_option snd (vfprintf (p_stdout E) fmt ap q)"

definition arg_bytes :: "string \<Rightarrow> u8 list" where
  "arg_bytes s = map of_char s"

definition chars_at :: "u32 \<Rightarrow> u32 \<Rightarrow> nat \<Rightarrow> uworld \<Rightarrow> string option" where
  "chars_at me va n w = map_option (map (\<lambda>b. char_of (unat b))) (those (map (\<lambda>i. view me (va + word_of_nat i) w) [0..<n]))"

partial_function (option) string_at :: "u32 \<Rightarrow> u32 \<Rightarrow> uworld \<Rightarrow> string option" where
  "string_at me va w = do {
     b \<leftarrow> view me va w;
     if b = 0 then Some [] else do { s \<leftarrow> string_at me (va + 1) w; Some (char_of (unat b) # s) }
   }"

text \<open>
  \<open>ARGBEGIN\<close> to \<open>ARGEND\<close> on the arguments behind the name of the program: \<open>opt\<close> is the \<open>switch\<close> on an option, \<open>None\<close> where it calls \<open>usage\<close>. The pointer
  behind the last argument ends the loop as any argument that is no option does.
\<close>

fun argbegin :: "(char \<Rightarrow> 'o \<Rightarrow> 'o option) \<Rightarrow> string list \<Rightarrow> 'o \<Rightarrow> ('o \<times> string list) option" where
  "argbegin opt [] fl = Some (fl, [])"
| "argbegin opt (a # as) fl = (
     if a \<noteq> [] \<and> hd a = CHR ''-'' \<and> tl a \<noteq> [] then
       if tl a = ''-'' then Some (fl, as)
       else do { fl \<leftarrow> ofold opt (tl a) fl; argbegin opt as fl }
     else Some (fl, a # as))"

subsection \<open>echo\<close>

definition echo_arg :: "'s program \<Rightarrow> string list \<Rightarrow> nat \<Rightarrow> 's io \<Rightarrow> 's io option" where
  "echo_arg E argv i q = do {
     q \<leftarrow> (if i > 1 then printf E '' '' [] q else Some q);
     printf E ''%s'' [ArgStr (argv ! i)] q
   }"

definition echo_main :: "'s program \<Rightarrow> string list \<Rightarrow> 's io \<Rightarrow> 's io option" where
  "echo_main E argv q = (
     let nflag = length argv > 1 \<and> argv ! 1 = ''-n'';
         argv = (if nflag then tl argv else argv)
     in do {
       q \<leftarrow> ofold (echo_arg E argv) [1..<length argv] q;
       if \<not> nflag then printf E [CHR 0x0A] [] q else Some q
     })"

subsection \<open>cat and num\<close>

text \<open>\<open>read\<close> of up to \<open>n\<close> bytes to \<open>buf\<close>: its result and the characters that are then in the buffer.\<close>

definition read_buf :: "'s program \<Rightarrow> int \<Rightarrow> u32 \<Rightarrow> nat \<Rightarrow> 's io \<Rightarrow> ((int \<times> string) \<times> 's io) option" where
  "read_buf E f buf n q = do {
     (r, q) \<leftarrow> on_mem (read (p_devs E) (p_me E) f buf (word_of_nat n)) q;
     cs \<leftarrow> chars_at (p_me E) buf (nat r) (snd q);
     Some ((r, cs), q)
   }"

partial_function (option) cat_loop ::
  "('q \<Rightarrow> ((int \<times> string) \<times> 'q) option) \<Rightarrow> (string \<Rightarrow> 'q \<Rightarrow> (int \<times> 'q) option) \<Rightarrow> 'q \<Rightarrow> 'q option" where
  "cat_loop rd wr q = do {
     ((n, cs), q) \<leftarrow> rd q;
     if n > 0 then do { (r, q) \<leftarrow> wr cs q; if r \<noteq> n then None else cat_loop rd wr q }
     else if n < 0 then None
     else Some q
   }"

definition cat :: "'s program \<Rightarrow> u32 \<Rightarrow> int \<Rightarrow> 's io \<Rightarrow> 's io option" where
  "cat E buf f q = cat_loop (read_buf E f buf 8192) (p_stdout E) q"

text \<open>\<open>open\<close> of an argument, the work on the descriptor and \<open>close\<close>.\<close>

definition with_file :: "'s program \<Rightarrow> (int \<Rightarrow> 's io \<Rightarrow> ('a \<times> 's io) option) \<Rightarrow> string \<Rightarrow> 's io \<Rightarrow> ('a \<times> 's io) option" where
  "with_file E work a q = do {
     (f, q) \<leftarrow> on_mem (open_path (p_srv E) (p_me E) (p_fsbuf E) (arg_bytes a) O_RDONLY) q;
     if f < 0 then None
     else do {
       (x, q) \<leftarrow> work f q;
       (_, q) \<leftarrow> on_mem (close (p_devs E) (p_me E) f) q;
       Some (x, q)
     }
   }"

definition cat_main :: "'s program \<Rightarrow> u32 \<Rightarrow> string list \<Rightarrow> 's io \<Rightarrow> 's io option" where
  "cat_main E buf argv q = (
     if length argv = 1 then cat E buf 0 q
     else ofold (\<lambda>a q. map_option snd (with_file E (\<lambda>f q. do { q \<leftarrow> cat E buf f q; Some ((), q) }) a q)) (tl argv) q)"

text \<open>The globals \<open>bol\<close> and \<open>line\<close> are threaded through.\<close>

partial_function (option) num_loop ::
  "('q \<Rightarrow> ((int \<times> string) \<times> 'q) option) \<Rightarrow> (string \<Rightarrow> 'q \<Rightarrow> (int \<times> 'q) option) \<Rightarrow> bool \<Rightarrow> u32 \<Rightarrow> 'q \<Rightarrow> ((bool \<times> u32) \<times> 'q) option" where
  "num_loop rd wr bol line q = do {
     ((n, cs), q) \<leftarrow> rd q;
     if n > 0 then do {
       let line = (if bol then line + 1 else line);
       (_, q) \<leftarrow> (if bol then vfprintf wr ''%5d '' [ArgInt line] q else Some (0, q));
       (r, q) \<leftarrow> vfprintf wr ''%c'' [ArgInt (of_char (hd cs))] q;
       if r \<noteq> 1 then None else num_loop rd wr (hd cs = CHR 0x0A) line q
     }
     else if n < 0 then None
     else Some ((bol, line), q)
   }"

definition num :: "'s program \<Rightarrow> u32 \<Rightarrow> bool \<times> u32 \<Rightarrow> int \<Rightarrow> 's io \<Rightarrow> ((bool \<times> u32) \<times> 's io) option" where
  "num E c g f q = num_loop (read_buf E f c 1) (p_stdout E) (fst g) (snd g) q"

definition num_main :: "'s program \<Rightarrow> u32 \<Rightarrow> string list \<Rightarrow> 's io \<Rightarrow> 's io option" where
  "num_main E c argv q = map_option snd (
     if length argv = 1 then num E c (True, 0) 0 q
     else ofold (\<lambda>a (g, q). with_file E (num E c g) a q) (tl argv) ((True, 0), q))"

subsection \<open>ls\<close>

definition ls_opt :: "char \<Rightarrow> (char \<Rightarrow> u32) \<Rightarrow> (char \<Rightarrow> u32) option" where
  "ls_opt c flag = (if c = CHR ''d'' \<or> c = CHR ''F'' \<or> c = CHR ''l'' then Some (flag(c := flag c + 1)) else None)"

definition ls1 :: "'s program \<Rightarrow> (char \<Rightarrow> u32) \<Rightarrow> string option \<Rightarrow> bool \<Rightarrow> u32 \<Rightarrow> string \<Rightarrow> 's io \<Rightarrow> 's io option" where
  "ls1 E flag prefix isdir sz name q = do {
     q \<leftarrow> (if flag (CHR ''l'') \<noteq> 0
          then printf E ''%11d %c '' [ArgInt sz, ArgInt (of_char (if isdir then CHR ''d'' else CHR ''-''))] q else Some q);
     q \<leftarrow> (case prefix of
            None \<Rightarrow> Some q
          | Some p \<Rightarrow> printf E ''%s%s'' [ArgStr p, ArgStr (if p \<noteq> [] \<and> last p \<noteq> CHR ''/'' then ''/'' else [])] q);
     q \<leftarrow> printf E ''%s'' [ArgStr name] q;
     q \<leftarrow> (if flag (CHR ''F'') \<noteq> 0 \<and> isdir then printf E ''/'' [] q else Some q);
     printf E '' '' [] q
   }"

text \<open>\<open>f\<close> is the address of a \<open>struct File\<close> of 256 bytes with the size at 128 and the type, 1 for a directory, at 132.\<close>

partial_function (option) lsdir_loop :: "'s program \<Rightarrow> (char \<Rightarrow> u32) \<Rightarrow> u32 \<Rightarrow> int \<Rightarrow> string \<Rightarrow> 's io \<Rightarrow> 's io option" where
  "lsdir_loop E flag f fd prefix q = do {
     (n, q) \<leftarrow> on_mem (readn (p_devs E) (p_me E) fd f 256) q;
     if n = 256 then do {
       b \<leftarrow> view (p_me E) f (snd q);
       q \<leftarrow> (if b \<noteq> 0 then do {
              name \<leftarrow> string_at (p_me E) f (snd q);
              sz \<leftarrow> get32 (p_me E) (f + 128) (snd q);
              type \<leftarrow> get32 (p_me E) (f + 132) (snd q);
              ls1 E flag (Some prefix) (type = 1) sz name q
            }
            else Some q);
       lsdir_loop E flag f fd prefix q
     }
     else if n > 0 then None
     else if n < 0 then None
     else Some q
   }"

definition lsdir :: "'s program \<Rightarrow> (char \<Rightarrow> u32) \<Rightarrow> u32 \<Rightarrow> string \<Rightarrow> string \<Rightarrow> 's io \<Rightarrow> 's io option" where
  "lsdir E flag f path prefix q = do {
     (fd, q) \<leftarrow> on_mem (open_path (p_srv E) (p_me E) (p_fsbuf E) (arg_bytes path) O_RDONLY) q;
     if fd < 0 then None else lsdir_loop E flag f fd prefix q
   }"

text \<open>\<open>st\<close> is the address of a \<open>struct Stat\<close>, \<open>dev_ptr\<close> as for \<open>fstat\<close>.\<close>

definition ls :: "'s program \<Rightarrow> (u32 \<Rightarrow> u32) \<Rightarrow> (char \<Rightarrow> u32) \<Rightarrow> u32 \<Rightarrow> u32 \<Rightarrow> string \<Rightarrow> string \<Rightarrow> 's io \<Rightarrow> 's io option" where
  "ls E dev_ptr flag st f path prefix q = do {
     (r, q) \<leftarrow> on_mem (stat (p_srv E) (p_devs E) dev_ptr (p_me E) (p_fsbuf E) (arg_bytes path) st) q;
     if r < 0 then None
     else do {
       sz \<leftarrow> get32 (p_me E) (st + 128) (snd q);
       isdir \<leftarrow> get32 (p_me E) (st + 132) (snd q);
       if isdir \<noteq> 0 \<and> flag (CHR ''d'') = 0 then lsdir E flag f path prefix q
       else ls1 E flag None (isdir \<noteq> 0) sz path q
     }
   }"

text \<open>The result is \<open>False\<close> after the message of \<open>usage\<close>, which ends the program.\<close>

definition ls_main :: "'s program \<Rightarrow> (u32 \<Rightarrow> u32) \<Rightarrow> u32 \<Rightarrow> u32 \<Rightarrow> string list \<Rightarrow> 's io \<Rightarrow> (bool \<times> 's io) option" where
  "ls_main E dev_ptr st f argv q = (
     case argbegin ls_opt (tl argv) (\<lambda>_. 0) of
       None \<Rightarrow> do { q \<leftarrow> printf E (''usage: ls [-dFl] [file...]'' @ [CHR 0x0A]) [] q; Some (False, q) }
     | Some (flag, argv) \<Rightarrow> do {
         q \<leftarrow> (if argv = [] then ls E dev_ptr flag st f ''/'' [] q
              else ofold (\<lambda>a. ls E dev_ptr flag st f a a) argv q);
         q \<leftarrow> printf E [CHR 0x0A] [] q;
         Some (True, q)
       })"

subsection \<open>The start of the shell\<close>

text \<open>
  \<open>main\<close> of the shell up to its loop, output apart: \<open>interactive\<close>, \<open>echocmds\<close> and descriptor 0. A command file is opened by the name in \<open>argv[1]\<close>, but \<open>argv\<close>
  has been advanced to the first argument that is no option: with one argument left \<open>argv[1]\<close> is the pointer behind the last argument, and \<open>past\<close> is the string there.
\<close>

definition sh_opt :: "char \<Rightarrow> bool \<times> bool \<Rightarrow> (bool \<times> bool) option" where
  "sh_opt c = (\<lambda>(interactive, echocmds).
     if c = CHR ''i'' then Some (True, echocmds) else if c = CHR ''x'' then Some (interactive, True) else None)"

datatype sh_start = Usage shell | Started bool bool shell

definition sh_main_start :: "shell_env \<Rightarrow> u32 \<Rightarrow> string \<Rightarrow> string list \<Rightarrow> shell \<Rightarrow> sh_start option" where
  "sh_main_start E me past argv sh = do {
     (interactive, sh) \<leftarrow> on_world (\<lambda>w. map_option (\<lambda>r. (r, w)) (iscons me 0 w)) sh;
     (case argbegin sh_opt (tl argv) (interactive \<noteq> 0, False) of
        None \<Rightarrow> do { sh \<leftarrow> sh_exit E me sh; Some (Usage sh) }
      | Some ((i, x), argv) \<Rightarrow>
          if length argv > 1 then do { sh \<leftarrow> sh_exit E me sh; Some (Usage sh) }
          else if length argv = 1 then do {
            (_, sh) \<leftarrow> on_world (close (devs E me) me 0) sh;
            (r, sh) \<leftarrow> on_world (open_path (srv E) me (fsbuf E) (arg_bytes past) O_RDONLY) sh;
            if r \<noteq> 0 then None else Some (Started i x sh)
          }
          else Some (Started i x sh))
   }"

section \<open>Formats\<close>

lemma printed_formats:
  "vprintfmt ''%s'' [ArgStr s] = Some [s]"
  "vprintfmt ''%c'' [ArgInt n] = Some [[char_of (unat n)]]"
  "c \<noteq> CHR ''%'' \<Longrightarrow> vprintfmt [c] [] = Some [[c]]"
  by (simp_all add: get_spec_def convert_def print_str_def print_char_def is_digit_def ch_def)

lemma char_of_unat: "char_of (unat (of_char c :: 'a :: len word)) = c" if "8 \<le> LENGTH('a)"
proof -
  have "(of_char c :: 'a word) = word_of_nat (of_char c)" by (simp only: of_nat_of_char)
  moreover have "(of_char c :: nat) < 2 ^ LENGTH('a)" 
    by (rule less_le_trans [OF nat_of_char_less_256]) (use that power_increasing [of 8 "LENGTH('a)" "2 :: nat"] in simp)
  ultimately show ?thesis by (simp only: unat_of_nat mod_less char_of_char)
qed

text \<open>The label of a line: its number in decimal, with blanks in front to a width of five, and a blank.\<close>

definition line_label :: "nat \<Rightarrow> string" where
  "line_label k = (let ds = rev (num_digits False 10 k) in replicate (5 - length ds) (CHR '' '') @ ds @ '' '')"

lemma printed_label:
  assumes "k < 2 ^ 31"
  shows "\<exists>outs. vprintfmt ''%5d '' [ArgInt (word_of_nat k)] = Some outs \<and> concat outs = line_label k"
proof -
  have u: "unat (word_of_nat k :: u32) = k" using assms by (simp add: unat_of_nat)
  have "sint (word_of_nat k :: u32) = int k" using sint_small [of "int k"] assms by simp
  then show ?thesis
    by (simp add: get_spec_def convert_def is_digit_def ch_def print_num_eq num_text_def line_label_def Let_def u)
qed

lemma line_label_length: "k < 2 ^ 31 \<Longrightarrow> length (line_label k) < 50"
  using num_digits_length [of 10 k 31 False] by (simp add: line_label_def Let_def)

section \<open>Reading to the end\<close>

text \<open>
  What a program relies on: a read delivers the next characters, as many as the buffer takes, and nothing only at the end; a write shows all characters and
  leaves alone what is still to be read. \<open>inv\<close> is the condition that keeps it so.
\<close>

locale byte_stream =
  fixes rd :: "'q \<Rightarrow> ((int \<times> string) \<times> 'q) option" and wr :: "string \<Rightarrow> 'q \<Rightarrow> (int \<times> 'q) option"
    and inv :: "'q \<Rightarrow> bool" and rest :: "'q \<Rightarrow> string" and shown :: "'q \<Rightarrow> string" and cap :: nat
  assumes cap: "inv q \<Longrightarrow> 0 < cap"
    and rd: "inv q \<Longrightarrow> \<exists>q'. rd q = Some ((int (length (take cap (rest q))), take cap (rest q)), q')
      \<and> inv q' \<and> rest q' = drop cap (rest q) \<and> shown q' = shown q"
    and wr: "inv q \<Longrightarrow> \<exists>q'. wr s q = Some (int (length s), q') \<and> inv q' \<and> rest q' = rest q \<and> shown q' = shown q @ s"
begin

lemma cat_loop_copies:
  "inv q \<Longrightarrow> \<exists>q'. cat_loop rd wr q = Some q' \<and> inv q' \<and> rest q' = [] \<and> shown q' = shown q @ rest q"
proof (induction "length (rest q)" arbitrary: q rule: less_induct)
  case less
  from rd [OF less.prems] obtain q1 where q1: "rd q = Some ((int (length (take cap (rest q))), take cap (rest q)), q1)"
    "inv q1" "rest q1 = drop cap (rest q)" "shown q1 = shown q" by blast
  show ?case
  proof (cases "rest q = []")
    case True
    then show ?thesis using q1 by (subst cat_loop.simps) simp
  next
    case False
    from wr [OF q1(2), of "take cap (rest q)"] obtain q2 where q2: "wr (take cap (rest q)) q1 = Some (int (length (take cap (rest q))), q2)"
      "inv q2" "rest q2 = rest q1" "shown q2 = shown q1 @ take cap (rest q)" by blast
    have "length (rest q2) < length (rest q)" using q2(3) q1(3) False cap [OF less.prems] by simp
    from less.hyps [OF this q2(2)] obtain q3 where
      "cat_loop rd wr q2 = Some q3" "inv q3" "rest q3 = []" "shown q3 = shown q2 @ rest q2" by blast
    then show ?thesis using q1 q2 False cap [OF less.prems] by (subst cat_loop.simps) auto
  qed
qed

lemma prints:
  assumes "vprintfmt fmt ap = Some outs" and "inv q" and "length (concat outs) < 2 ^ 31"
  shows "\<exists>q'. vfprintf wr fmt ap q = Some (int (length (concat outs)), q') \<and> inv q' \<and> rest q' = rest q \<and> shown q' = shown q @ concat outs"
proof -
  have "\<exists>q'. ofold (print_output wr) outs (int k, q) = Some (int (k + length (concat outs)), q') \<and> inv q' \<and> rest q' = rest q \<and> shown q' = shown q @ concat outs"
    if "k + length (concat outs) < 2 ^ 31" for k
    using assms(2) that
  proof (induction outs arbitrary: k q)
    case (Cons s outs)
    from wr [OF Cons.prems(1), of s] obtain q1 where q1: "wr s q = Some (int (length s), q1)" "inv q1" "rest q1 = rest q" "shown q1 = shown q @ s" by blast
    have "print_output wr s (int k, q) = Some (int (k + length s), q1)"
      using q1(1) Cons.prems(2) sint_small [of "int k + int (length s)"] by (simp add: print_output_def)
    then show ?case using Cons.IH [OF q1(2), of "k + length s"] Cons.prems(2) q1(3,4) by (auto simp: add.assoc)
  qed simp
  from this [of 0] assms(1,3) show ?thesis by (simp add: vfprintf_def)
qed

end

section \<open>Numbered lines\<close>

text \<open>The lines of a text, each with the newline that ends it.\<close>

fun text_lines :: "string \<Rightarrow> string list" where
  "text_lines [] = []"
| "text_lines (c # cs) = (
     if c = CHR 0x0A then [c] # text_lines cs
     else case text_lines cs of [] \<Rightarrow> [[c]] | l # xs \<Rightarrow> (c # l) # xs)"

definition number_lines :: "nat \<Rightarrow> string list \<Rightarrow> string" where
  "number_lines k xs = concat (map (\<lambda>(i, l). line_label i @ l) (enumerate k xs))"

lemma number_lines_simps [simp]:
  "number_lines k [] = []" "number_lines k (l # xs) = line_label k @ l @ number_lines (Suc k) xs"
  by (simp_all add: number_lines_def)

text \<open>What is printed from the middle of a line on, and at the beginning of one, after \<open>k\<close> lines.\<close>

definition numbered :: "bool \<Rightarrow> nat \<Rightarrow> string \<Rightarrow> string" where
  "numbered bol k cs = (
     if bol then number_lines (Suc k) (text_lines cs)
     else case text_lines cs of [] \<Rightarrow> [] | l # xs \<Rightarrow> l @ number_lines (Suc k) xs)"

definition lines_after :: "bool \<Rightarrow> nat \<Rightarrow> string \<Rightarrow> nat" where
  "lines_after bol k cs = k + length (text_lines cs) - (if bol \<or> cs = [] then 0 else 1)"

lemma text_lines_length: "length (text_lines cs) \<le> length cs" "text_lines cs = [] \<longleftrightarrow> cs = []" "concat (text_lines cs) = cs"
  by (induction cs) (auto split: list.splits)

lemma numbered_Cons:
  "numbered bol k (c # cs) = (if bol then line_label (Suc k) else []) @ c # numbered (c = CHR 0x0A) (if bol then Suc k else k) cs"
  by (auto simp: numbered_def split: list.splits)

lemma lines_after_Cons:
  "lines_after bol k (c # cs) = lines_after (c = CHR 0x0A) (if bol then Suc k else k) cs"
  using text_lines_length(2) [of cs] by (auto simp: lines_after_def split: list.splits)

context byte_stream
begin

lemma num_loop_numbers:
  assumes "cap = 1"
  shows "inv q \<Longrightarrow> k + length (rest q) < 2 ^ 31 \<Longrightarrow>
    \<exists>bol' q'. num_loop rd wr bol (word_of_nat k) q = Some ((bol', word_of_nat (lines_after bol k (rest q))), q')
      \<and> inv q' \<and> rest q' = [] \<and> shown q' = shown q @ numbered bol k (rest q)"
proof (induction "length (rest q)" arbitrary: q k bol rule: less_induct)
  case less
  from rd [OF less.prems(1)] obtain q1 where q1: "rd q = Some ((int (length (take cap (rest q))), take cap (rest q)), q1)"
    "inv q1" "rest q1 = drop cap (rest q)" "shown q1 = shown q" by blast
  show ?case
  proof (cases "rest q")
    case Nil
    then show ?thesis using q1 by (subst num_loop.simps) (simp add: numbered_def lines_after_def)
  next
    case (Cons c cs)
    define k1 where "k1 = (if bol then Suc k else k)"
    have k1: "(if bol then word_of_nat k + 1 else word_of_nat k) = (word_of_nat k1 :: u32)" by (simp add: k1_def add.commute)
    have lk: "k1 < 2 ^ 31" "k1 + length cs < 2 ^ 31" using less.prems(2) Cons by (auto simp: k1_def)
    from printed_label [OF lk(1)] obtain outs where outs: "vprintfmt ''%5d '' [ArgInt (word_of_nat k1)] = Some outs" "concat outs = line_label k1" by blast
    have "length (concat outs) < 2 ^ 31" using line_label_length [OF lk(1)] outs(2) by simp
    from prints [OF outs(1) q1(2) this] obtain q2 where q2: "(if bol then vfprintf wr ''%5d '' [ArgInt (word_of_nat k1)] q1 else Some (0, q1)) = Some (if bol then int (length (line_label k1)) else 0, q2)"
      "inv q2" "rest q2 = rest q1" "shown q2 = shown q1 @ (if bol then line_label k1 else [])"
      using q1(2) by (cases bol) (auto simp: outs(2))
    have "vprintfmt ''%c'' [ArgInt (of_char c)] = Some [[c]]" by (simp only: printed_formats) (simp add: char_of_unat)
    from prints [OF this q2(2)] obtain q3 where q3: "vfprintf wr ''%c'' [ArgInt (of_char c)] q2 = Some (1, q3)"
      "inv q3" "rest q3 = rest q2" "shown q3 = shown q2 @ [c]" by auto
    have r: "rest q3 = cs" using q3(3) q2(3) q1(3) Cons assms by simp
    from less.hyps [of q3 k1 "c = CHR 0x0A"] q3(2) r lk(2) Cons obtain bol' q4 where
      "num_loop rd wr (c = CHR 0x0A) (word_of_nat k1) q3 = Some ((bol', word_of_nat (lines_after (c = CHR 0x0A) k1 cs)), q4)"
      "inv q4" "rest q4 = []" "shown q4 = shown q3 @ numbered (c = CHR 0x0A) k1 cs" by auto
    then show ?thesis using q1 q2 q3 Cons assms k1
      by (subst num_loop.simps) (simp add: numbered_Cons lines_after_Cons k1_def [symmetric] Let_def, simp add: k1_def)
  qed
qed

end

end
