(* ===== verification/Program_Props.thy ===== *)
theory Program_Props
  imports Programs
begin

text \<open>
  Programs on open files: \<open>read\<close> of a descriptor of a file delivers the bytes from the offset on and advances it, and so \<open>cat\<close> and \<open>num\<close>, which rely on nothing else, print
  the contents of the file. The console is a sink that accepts everything.
\<close>

section \<open>The words of a descriptor\<close>

abbreviation fdp :: "nat \<Rightarrow> u32" where "fdp k \<equiv> INDEX2FD (int k)"

lemma fd_pa:
  assumes "k < 32" "j < 4096"
  shows "unat (pa_of me (fdp k + word_of_nat j) w) mod 4096 = j"
proof -
  have m: "(0xFFF :: u32) = mask 12" by (simp add: mask_eq_exp_minus_1)
  have "pa_of me (fdp k + word_of_nat j) w AND 0xFFF = (fdp k + word_of_nat j) AND 0xFFF" by (simp add: pa_of_def)
  then have "take_bit 12 (pa_of me (fdp k + word_of_nat j) w) = take_bit 12 (fdp k + word_of_nat j)" by (simp only: m take_bit_eq_mask)
  then have "unat (pa_of me (fdp k + word_of_nat j) w) mod 4096 = unat (fdp k + word_of_nat j) mod 4096" unfolding word_unat_eq_iff by (simp add: unat_take)
  also have "unat (fdp k + word_of_nat j) = j + 4096 * (392192 + k)" using assms unat_INDEX2FD [OF assms(1)] by (simp add: unat_word_ariths unat_of_nat)
  finally show ?thesis using assms(2) by (simp only: mod_mult_self2) simp
qed

lemma fd_aligned:
  assumes "k < 32" "j < 4096" "j mod 4 = 0"
  shows "(fdp k + word_of_nat j) AND 3 = 0"
proof -
  have "unat (fdp k + word_of_nat j) = 4 * (392192 * 1024 + 1024 * k) + j" using assms unat_INDEX2FD [OF assms(1)] by (simp add: unat_word_ariths unat_of_nat)
  then show ?thesis using assms(3) by (simp only: aligned_iff mod_mult_self4)
qed

lemma fd_word:
  assumes "k < 32" "j < 4096" "j mod 4 = 0"
  shows "get32 me (fdp k + word_of_nat j) w = (if is_mapped me (fdp k) w then Some (load_word (phys w) (pa_of me (fdp k + word_of_nat j) w)) else None)"
  using fd_aligned [OF assms] same_page_mapped [OF fd_fields_page [OF assms(1,2)], of me w] by (simp add: get32_def)

text \<open>Storing the offset of a descriptor.\<close>

definition with_offset :: "u32 \<Rightarrow> nat \<Rightarrow> u32 \<Rightarrow> uworld \<Rightarrow> uworld" where
  "with_offset me k x w = w\<lparr>phys := store_word (pa_of me (fdp k + 4) w) x (phys w)\<rparr>"

lemma with_offset_words:
  assumes "k < 32" "j < 4096" "j mod 4 = 0" "j \<noteq> 4"
  shows "get32 me (fdp k + word_of_nat j) (with_offset me k x w) = get32 me (fdp k + word_of_nat j) w"
proof -
  have "pa_of me (fdp k + word_of_nat j) w \<noteq> pa_of me (fdp k + 4) w"
    using fd_pa [OF assms(1,2), of me w] fd_pa [OF assms(1), of 4 me w] assms(4) by auto
  then show ?thesis unfolding fd_word [OF assms(1-3)] with_offset_def
    using fd_aligned [OF assms(1-3)] fd_aligned [OF assms(1), of 4] by (simp add: load_store_other pa_aligned)
qed

lemma with_offset_info: "k < 32 \<Longrightarrow> getInfoFromFd me (fdp k) (with_offset me k x w) = getInfoFromFd me (fdp k) w"
  using with_offset_words [of k 12 me x w] with_offset_words [of k 16 me x w] with_offset_words [of k 48 me x w] with_offset_words [of k 148 me x w]
  by (simp add: getInfoFromFd_def getInfoFromFileFd_def getInfoFromFatFileFd_def ff_defs add.assoc cong: if_cong)

lemma with_offset_other:
  assumes "k < 32" "PTE_ADDR a \<noteq> PTE_ADDR (uptab w me (VPN (fdp k)))"
  shows "phys (with_offset me k x w) a = phys w a"
proof -
  have "a \<noteq> pa_of me (fdp k + 4) w + word_of_nat j" if "j < 4" for j
    using pa_of_frame [of "fdp k + 4" j me w] that fd_aligned [OF assms(1), of 4] fd_fields_page [OF assms(1), of 4] assms(2) by auto
  from this [of 0] this [of 1] this [of 2] this [of 3] show ?thesis by (simp add: with_offset_def store_word_def)
qed

lemma with_offset_same: "k < 32 \<Longrightarrow> is_mapped me (fdp k) w \<Longrightarrow> get32 me (fdp k + 4) (with_offset me k x w) = Some x"
  using fd_word [of k 4 me "with_offset me k x w"] by (simp add: with_offset_def load_store_same)

section \<open>Reading an open file\<close>

text \<open>The offset, the size and the characters that are still to be read.\<close>

definition file_pos :: "u32 \<Rightarrow> nat \<Rightarrow> uworld \<Rightarrow> nat" where
  "file_pos me k w = unat (load_word (phys w) (pa_of me (fdp k + 4) w))"

definition file_size :: "u32 \<Rightarrow> nat \<Rightarrow> uworld \<Rightarrow> nat" where
  "file_size me k w = (case getInfoFromFd me (fdp k) w of None \<Rightarrow> 0 | Some (sz, _) \<Rightarrow> unat sz)"

definition file_char :: "u32 \<Rightarrow> nat \<Rightarrow> uworld \<Rightarrow> nat \<Rightarrow> char" where
  "file_char me k w i = char_of (unat (phys w (pa_of me (fd2data (fdp k) + word_of_nat i) w)))"

definition unread :: "u32 \<Rightarrow> nat \<Rightarrow> uworld \<Rightarrow> string" where
  "unread me k w = map (file_char me k w) [file_pos me k w..<file_size me k w]"

text \<open>
  Descriptor \<open>k\<close> is an open file and may be read to the \<open>n\<close> bytes at \<open>buf\<close>: its pages are mapped, and the buffer, the contents of the file and the
  descriptor lie apart in physical memory.
\<close>

definition apart :: "u32 \<Rightarrow> nat \<Rightarrow> u32 \<Rightarrow> nat \<Rightarrow> uworld \<Rightarrow> bool" where
  "apart me k buf n w \<longleftrightarrow>
     (let data = pas me (fd2data (fdp k)) (file_size me k w) w
      in data \<inter> pas me buf n w = {} \<and> (\<forall>a\<in>data \<union> pas me buf n w. PTE_ADDR a \<noteq> PTE_ADDR (uptab w me (VPN (fdp k)))))"

definition open_at :: "dev list \<Rightarrow> u32 \<Rightarrow> nat \<Rightarrow> uworld \<Rightarrow> bool" where
  "open_at tab me k w \<longleftrightarrow> k < 32
     \<and> (case dev_lookup tab DEVFILE_ID of Inl _ \<Rightarrow> False | Inr d \<Rightarrow> dev_read d = file_read me)
     \<and> is_mapped me (fdp k) w \<and> uptab w me (VPN (fdp k)) AND PTE_D \<noteq> 0
     \<and> get32 me (fdp k) w = Some DEVFILE_ID
     \<and> (case get32 me (fd_omode_of (fdp k)) w of None \<Rightarrow> False | Some m \<Rightarrow> m AND O_ACCMODE \<noteq> O_WRONLY)
     \<and> getInfoFromFd me (fdp k) w \<noteq> None \<and> file_pos me k w \<le> file_size me k w \<and> file_size me k w \<le> unat MAXFILESIZE
     \<and> readable me (fd2data (fdp k)) (file_size me k w) w"

definition may_read :: "dev list \<Rightarrow> u32 \<Rightarrow> nat \<Rightarrow> u32 \<Rightarrow> nat \<Rightarrow> uworld \<Rightarrow> bool" where
  "may_read tab me k buf n w \<longleftrightarrow>
     open_at tab me k w \<and> 0 < n \<and> n < 2 ^ 30 \<and> unat buf + n < 2 ^ 32 \<and> writable me buf n w \<and> apart me k buf n w"

lemma sub_range:
  assumes "i + m \<le> n"
  shows "readable me va n w \<Longrightarrow> readable me (va + word_of_nat i) m w" "pas me (va + word_of_nat i) m w \<subseteq> pas me va n w"
    "writable me va n w \<Longrightarrow> writable me va (i + m) w"
proof -
  have s: "va + word_of_nat i + word_of_nat j = va + word_of_nat (i + j)" for j by (simp add: add.assoc)
  show "readable me va n w \<Longrightarrow> readable me (va + word_of_nat i) m w" using assms unfolding readable_def s by (simp del: of_nat_add)
  have "pa_of me (va + word_of_nat (i + j)) w \<in> pas me va n w" if "j < m" for j using that assms by (intro pas_mem) simp
  then show "pas me (va + word_of_nat i) m w \<subseteq> pas me va n w" unfolding pas_def [of me "va + word_of_nat i"] s by blast
  show "writable me va n w \<Longrightarrow> writable me va (i + m) w" using assms unfolding writable_def readable_def by (auto intro: inj_on_subset)
qed

text \<open>\<open>file_read\<close> copies what there is, up to the number asked for, and changes the buffer only.\<close>

lemma file_read_ok:
  assumes r: "may_read tab me k buf n w" and m: "m = min n (file_size me k w - file_pos me k w)"
  shows "\<exists>p. file_read me (fdp k) buf (word_of_nat n) (word_of_nat (file_pos me k w)) w = Some (int m, w\<lparr>phys := p\<rparr>)
    \<and> (\<forall>i<m. p (pa_of me (buf + word_of_nat i) w) = phys w (pa_of me (fd2data (fdp k) + word_of_nat (file_pos me k w + i)) w))
    \<and> (\<forall>a. a \<notin> pas me buf n w \<longrightarrow> p a = phys w a)"
proof -
  let ?o = "file_pos me k w" and ?z = "file_size me k w" and ?d = "fd2data (fdp k)"
  from r obtain sz fileid where i: "getInfoFromFd me (fdp k) w = Some (sz, fileid)" "?z = unat sz"
    by (auto simp: may_read_def open_at_def file_size_def)
  have b: "?o \<le> ?z" "?z \<le> 4194304" "n < 2 ^ 30" "unat buf + n < 2 ^ 32" "m \<le> n" "?o + m \<le> ?z"
    using r by (auto simp: may_read_def open_at_def MAXFILESIZE_def BY2PG_def m)
  have u: "unat (word_of_nat ?o :: u32) = ?o" "unat (word_of_nat n :: u32) = n" "unat (word_of_nat m :: u32) = m"
    using b by (simp_all add: unat_of_nat)
  have n': "(if word_of_nat ?o + word_of_nat n > sz then sz - word_of_nat ?o else word_of_nat n) = (word_of_nat m :: u32)"
    using b i(2) u m by (auto simp: word_unat_eq_iff word_less_nat_alt unat_word_ariths unat_sub_if_size min_def)
  have "sint (word_of_nat m :: u32) = int m" using sint_small [of "int m"] b by simp
  moreover have "\<not> word_of_nat ?o > sz" using b(1) i(2) u by (simp add: word_less_nat_alt)
  moreover have "u_memcpy me buf (?d + word_of_nat ?o) (word_of_nat m) w = copy_up me buf (?d + word_of_nat ?o) m w"
    using memcpy_copy_up [of buf "word_of_nat m" me] b u by simp
  ultimately have f: "file_read me (fdp k) buf (word_of_nat n) (word_of_nat ?o) w = map_option (Pair (int m)) (copy_up me buf (?d + word_of_nat ?o) m w)"
    by (simp add: file_read_def i(1) n' Let_def map_option_case split: option.split)
  have "readable me (?d + word_of_nat ?o) m w" "writable me buf m w" "pas me (?d + word_of_nat ?o) m w \<inter> pas me buf m w = {}"
    using r b sub_range(1,2) [OF b(6), of me ?d w] sub_range(3) [of 0 m n me buf w] sub_range(2) [of 0 m n me buf w]
    by (auto simp: may_read_def open_at_def apart_def Let_def)
  from copy_up_ok [OF this] obtain p where p: "copy_up me buf (?d + word_of_nat ?o) m w = Some (w\<lparr>phys := p\<rparr>)"
    "\<forall>i<m. p (pa_of me (buf + word_of_nat i) w) = phys w (pa_of me (?d + word_of_nat ?o + word_of_nat i) w)"
    "\<forall>a. a \<notin> pas me buf m w \<longrightarrow> p a = phys w a" by blast
  then show ?thesis using f sub_range(2) [of 0 m n me buf w] b(5) by (auto simp: add.assoc)
qed

text \<open>After the copy and the new offset the file is as before, with fewer characters to read.\<close>

lemma advanced:
  assumes r: "may_read tab me k buf n w" and m: "m = min n (file_size me k w - file_pos me k w)"
    and p: "\<forall>a. a \<notin> pas me buf n w \<longrightarrow> p a = phys w a"
  defines "w' \<equiv> with_offset me k (word_of_nat (file_pos me k w + m)) (w\<lparr>phys := p\<rparr>)"
  shows "may_read tab me k buf n w'" "unread me k w' = drop n (unread me k w)"
    "\<forall>a\<in>pas me buf n w. phys w' a = p a"
proof -
  have k: "k < 32" using r by (simp add: may_read_def open_at_def)
  have fr: "p a = phys w a" if "PTE_ADDR a = PTE_ADDR (uptab w me (VPN (fdp k)))" for a
    using r p that by (auto simp: may_read_def apart_def Let_def)
  have w': "w' = w\<lparr>phys := phys w'\<rparr>" by (simp add: w'_def with_offset_def)
  have words: "get32 me (fdp k + word_of_nat j) w' = get32 me (fdp k + word_of_nat j) w" if "j < 4096" "j mod 4 = 0" "j \<noteq> 4" for j
    unfolding w'_def with_offset_words [OF k that] by (rule get32_frame) (simp add: fr fd_fields_page [OF k that(1)])
  have info: "getInfoFromFd me (fdp k) w' = getInfoFromFd me (fdp k) w"
    unfolding w'_def with_offset_info [OF k] by (rule info_frame [OF k fr])
  then have sz: "file_size me k w' = file_size me k w" by (simp add: file_size_def)
  have b: "file_pos me k w + m \<le> file_size me k w" "file_size me k w \<le> 4194304"
    using r by (auto simp: may_read_def open_at_def MAXFILESIZE_def BY2PG_def m)
  have pos: "file_pos me k w' = file_pos me k w + m"
    using b by (simp add: file_pos_def w'_def with_offset_def load_store_same unat_of_nat unat_word_ariths)
  have keep: "phys w' a = p a" if "PTE_ADDR a \<noteq> PTE_ADDR (uptab w me (VPN (fdp k)))" for a
    unfolding w'_def using with_offset_other [OF k, of a "w\<lparr>phys := p\<rparr>" me] that by simp
  show "\<forall>a\<in>pas me buf n w. phys w' a = p a" using r keep by (simp add: may_read_def apart_def Let_def)
  have data: "phys w' a = phys w a" if "a \<in> pas me (fd2data (fdp k)) (file_size me k w) w" for a
    using r that keep p by (auto simp: may_read_def apart_def Let_def)
  have same: "is_mapped me a w' = is_mapped me a w" "uptab w' = uptab w" "pa_of me a w' = pa_of me a w" "pas me a j w' = pas me a j w"
    "readable me a j w' = readable me a j w" "writable me a j w' = writable me a j w" for a j
    by (simp_all add: w'_def with_offset_def)
  show "may_read tab me k buf n w'"
    using r words [of 0] words [of 8] info sz pos b same unfolding may_read_def open_at_def apart_def by (simp add: fd_omode_of_def)
  have "map (file_char me k w') [file_pos me k w + m..<file_size me k w] = map (file_char me k w) [file_pos me k w + m..<file_size me k w]"
    using data by (auto simp: file_char_def same pas_def)
  moreover have "drop n [file_pos me k w..<file_size me k w] = [file_pos me k w + m..<file_size me k w]" by (simp add: m min_def)
  ultimately show "unread me k w' = drop n (unread me k w)" by (simp add: unread_def sz pos drop_map)
qed

lemma read_file_device:
  assumes "open_at tab me k w"
  shows "read tab me (int k) buf n w = do {
    (r, w) \<leftarrow> file_read me (fdp k) buf n (word_of_nat (file_pos me k w)) w;
    w \<leftarrow> advance me (fdp k) r w;
    Some (r, w)
  }"
proof -
  have k: "k < 32" "is_mapped me (fdp k) w" using assms by (simp_all add: open_at_def)
  then have "fd_lookup me (int k) w = Inr (fdp k)" by (simp add: fd_lookup_def MAXFD_def Let_def va_div is_mapped_def)
  moreover have "get32 me (fd_offset_of (fdp k)) w = Some (word_of_nat (file_pos me k w))"
    using fd_word [OF k(1), of 4 me w] k(2) by (simp add: fd_offset_of_def file_pos_def)
  ultimately show ?thesis using assms
    by (auto simp: read_def fd_dev_def open_at_def split: sum.splits option.splits)
qed

lemma advance_offset:
  assumes "k < 32" "is_mapped me (fdp k) w" "uptab w me (VPN (fdp k)) AND PTE_D \<noteq> 0"
  shows "advance me (fdp k) (int m) w = Some (with_offset me k (word_of_nat (file_pos me k w + m)) w)"
proof (cases "m = 0")
  case True
  have "store_word (pa_of me (fdp k + 4) w) (load_word (phys w) (pa_of me (fdp k + 4) w)) (phys w) = phys w"
    by (simp add: store_load_word)
  then show ?thesis using True by (simp add: advance_def with_offset_def file_pos_def)
next
  case False
  have "get32 me (fdp k + 4) w = Some (word_of_nat (file_pos me k w))"
    using fd_word [OF assms(1), of 4 me w] assms(2) by (simp add: file_pos_def)
  moreover have "is_mapped me (fdp k + 4) w" "VPN (fdp k + 4) = VPN (fdp k)" "(fdp k + 4) AND 3 = 0"
    using same_page_mapped [of "fdp k + 4" "fdp k" me w] fd_fields_page [OF assms(1), of 4] fd_aligned [OF assms(1), of 4] assms(2) by simp_all
  ultimately show ?thesis using False assms(3) by (simp add: advance_def fd_offset_of_def put32_def with_offset_def)
qed

lemma those_map: "(\<And>x. x \<in> set xs \<Longrightarrow> f x = Some (g x)) \<Longrightarrow> those (map f xs) = Some (map g xs)"
  by (induction xs) simp_all

lemma read_ok:
  assumes r: "may_read tab me k buf n w"
  shows "\<exists>w'. read tab me (int k) buf (word_of_nat n) w = Some (int (length (take n (unread me k w))), w')
    \<and> chars_at me buf (length (take n (unread me k w))) w' = Some (take n (unread me k w))
    \<and> may_read tab me k buf n w' \<and> unread me k w' = drop n (unread me k w)"
proof -
  define m where "m = min n (file_size me k w - file_pos me k w)"
  have len: "length (take n (unread me k w)) = m" by (simp add: unread_def m_def)
  from file_read_ok [OF r m_def] obtain p where p: "file_read me (fdp k) buf (word_of_nat n) (word_of_nat (file_pos me k w)) w = Some (int m, w\<lparr>phys := p\<rparr>)"
    "\<forall>i<m. p (pa_of me (buf + word_of_nat i) w) = phys w (pa_of me (fd2data (fdp k) + word_of_nat (file_pos me k w + i)) w)"
    "\<forall>a. a \<notin> pas me buf n w \<longrightarrow> p a = phys w a" by blast
  let ?w' = "with_offset me k (word_of_nat (file_pos me k w + m)) (w\<lparr>phys := p\<rparr>)"
  note adv = advanced [OF r m_def p(3)]
  have o: "open_at tab me k w" "k < 32" "is_mapped me (fdp k) w" "uptab w me (VPN (fdp k)) AND PTE_D \<noteq> 0" "writable me buf n w"
    using r by (simp_all add: may_read_def open_at_def)
  have "get32 me (fdp k + word_of_nat 4) (w\<lparr>phys := p\<rparr>) = get32 me (fdp k + word_of_nat 4) w"
    using r p(3) fd_fields_page [OF o(2), of 4] by (intro get32_frame) (auto simp: may_read_def apart_def Let_def)
  then have "file_pos me k (w\<lparr>phys := p\<rparr>) = file_pos me k w"
    using o(3) fd_word [OF o(2), of 4 me w] fd_word [OF o(2), of 4 me "w\<lparr>phys := p\<rparr>"] by (simp add: file_pos_def)
  then have "advance me (fdp k) (int m) (w\<lparr>phys := p\<rparr>) = Some ?w'"
    using advance_offset [of k me "w\<lparr>phys := p\<rparr>" m] o(2-4) by simp
  then have "read tab me (int k) buf (word_of_nat n) w = Some (int m, ?w')"
    using read_file_device [OF o(1)] p(1) by simp
  moreover have "chars_at me buf m ?w' = Some (take n (unread me k w))"
  proof -
    have "view me (buf + word_of_nat i) ?w' = Some (phys w (pa_of me (fd2data (fdp k) + word_of_nat (file_pos me k w + i)) w))" if "i < m" for i
    proof -
      have i: "i < n" using that by (simp add: m_def)
      then have "view me (buf + word_of_nat i) ?w' = Some (phys ?w' (pa_of me (buf + word_of_nat i) w))"
        using o(5) by (simp add: view_def with_offset_def writable_def readable_def)
      also have "phys ?w' (pa_of me (buf + word_of_nat i) w) = p (pa_of me (buf + word_of_nat i) w)" using adv(3) pas_mem [OF i] by blast
      finally show ?thesis using p(2) that by simp
    qed
    then have "chars_at me buf m ?w' = Some (map (\<lambda>i. file_char me k w (file_pos me k w + i)) [0..<m])"
      unfolding chars_at_def by (subst those_map [where g = "\<lambda>i. phys w (pa_of me (fd2data (fdp k) + word_of_nat (file_pos me k w + i)) w)"]) (simp_all add: file_char_def)
    also have "map (\<lambda>i. file_char me k w (file_pos me k w + i)) [0..<m] = map (file_char me k w) [file_pos me k w..<file_pos me k w + m]"
      by (rule nth_equalityI) simp_all
    also have "\<dots> = take n (unread me k w)"
      using len by (intro nth_equalityI) (auto simp: unread_def m_def)
    finally show ?thesis .
  qed
  ultimately show ?thesis using adv len by auto
qed

section \<open>Programs\<close>

text \<open>The console behind descriptor 1: it shows everything.\<close>

definition console :: "string \<Rightarrow> string io \<Rightarrow> (int \<times> string io) option" where
  "console s = (\<lambda>(out, w). Some (int (length s), (out @ s, w)))"

interpretation fin: byte_stream "read_buf E (int k) buf n" "p_stdout E"
  "\<lambda>q. p_stdout E = console \<and> may_read (p_devs E) (p_me E) k buf n (snd q)" "\<lambda>q. unread (p_me E) k (snd q)" fst n
  for E :: "string program" and k buf n
proof
  fix q :: "string io"
  assume i: "p_stdout E = console \<and> may_read (p_devs E) (p_me E) k buf n (snd q)"
  then show "0 < n" by (simp add: may_read_def)
  from i read_ok [of "p_devs E" "p_me E" k buf n "snd q"] show "\<exists>q'. read_buf E (int k) buf n q =
      Some ((int (length (take n (unread (p_me E) k (snd q)))), take n (unread (p_me E) k (snd q))), q') \<and>
      (p_stdout E = console \<and> may_read (p_devs E) (p_me E) k buf n (snd q')) \<and> unread (p_me E) k (snd q') = drop n (unread (p_me E) k (snd q)) \<and> fst q' = fst q"
    by (cases q) (auto simp: read_buf_def on_mem_def)
qed (auto simp: console_def split: prod.splits)

interpretation con: byte_stream "\<lambda>q. Some ((0, []), q)" console "\<lambda>q. snd q = w" "\<lambda>_. []" fst 1 for w
  by unfold_locales (auto simp: console_def)

text \<open>
  Lemma (cat_copies): \<open>cat\<close> on an open file returns, and it has printed what was still to be read of the file.
\<close>

theorem cat_copies:
  assumes "may_read (p_devs E) (p_me E) k buf 8192 w" and "p_stdout E = console"
  shows "\<exists>w'. cat E buf (int k) (out, w) = Some (out @ unread (p_me E) k w, w') \<and> unread (p_me E) k w' = []"
  using fin.cat_loop_copies [of E k buf 8192 "(out, w)"] assms by (auto simp: cat_def)

text \<open>
  C17 (num_numbers_lines): \<open>num\<close> on an open file of at most \<open>MAXFILESIZE\<close> bytes returns and has printed every line of what was still to be read, in order, each with its number, from 1 on, in front of it;
  the last line counts whether or not a newline ends it. The global \<open>line\<close> is the number of lines.
\<close>

theorem num_numbers_lines:
  assumes "may_read (p_devs E) (p_me E) k c 1 w" and "p_stdout E = console"
  shows "\<exists>bol w'. num E c (True, 0) (int k) (out, w) =
    Some ((bol, word_of_nat (length (text_lines (unread (p_me E) k w)))), (out @ number_lines 1 (text_lines (unread (p_me E) k w)), w'))"
proof -
  have "file_size (p_me E) k w \<le> 4194304"
    using assms(1) by (simp add: may_read_def open_at_def MAXFILESIZE_def BY2PG_def)
  then have "length (unread (p_me E) k w) < 2 ^ 31" by (simp add: unread_def)
  then show ?thesis using fin.num_loop_numbers [of 1 E k c "(out, w)" 0 True] assms by (auto simp: num_def numbered_def lines_after_def)
qed

text \<open>A file of three bytes at descriptor 0: the descriptor in frame 7, the contents in frame 8, the variable in frame 9.\<close>

definition three_bytes :: uworld where
  "three_bytes = \<lparr>phys = (\<lambda>a. if a = 0x7000 then 102 else if a = 0x7000 + 148 then 3
       else if a = 0x8000 then 97 else if a = 0x8001 then 10 else if a = 0x8002 then 98 else 0), updir = (\<lambda>_ _. PTE_V),
     uptab = (\<lambda>_ v. if v = 0x5FC00 then 0x7000 OR PTE_V OR PTE_D else if v = 0x60000 then 0x8000 OR PTE_V OR PTE_D
       else if v = 0x500 then 0x9000 OR PTE_V OR PTE_D else 0),
     procs = {1}, palloc = (\<lambda>_. None), requests = 0\<rparr>"

definition reader :: "string program" where
  "reader = \<lparr>p_me = 1, p_srv = (\<lambda>_ _ _ _. None), p_fsbuf = 0, p_devs = [devfile (\<lambda>_ _ _ _. None) 1 0], p_stdout = console\<rparr>"

lemmas three_bytes_eval = is_mapped_def three_bytes_def pa_of_def VPN_div pte_valid_def PTE_V_def PTE_D_def PTE_ADDR_def

lemma below_three: "i < 3 \<longleftrightarrow> i = 0 \<or> i = 1 \<or> i = (2 :: nat)" "{..<3 :: nat} = {0, 1, 2}"
  by auto

lemma three_bytes_pas: "pas 1 0x60000000 3 three_bytes = {0x8000, 0x8001, 0x8002}" "pas 1 0x500100 (Suc 0) three_bytes = {0x9100}"
  by (simp_all add: pas_def lessThan_Suc below_three three_bytes_eval)

lemma three_bytes_ranges: "readable 1 0x60000000 3 three_bytes" "writable 1 0x500100 1 three_bytes"
  by (simp_all add: readable_def writable_def below_three lessThan_Suc) (auto simp: three_bytes_eval)

lemma three_bytes_info: "getInfoFromFd 1 0x5FC00000 three_bytes = Some (3, 0)"
  by (simp add: getInfoFromFd_def getInfoFromFileFd_def ff_defs get32_def three_bytes_eval load_word_def NORMAL_DISK_def)

lemma three_bytes_file: "file_size 1 0 three_bytes = 3" "file_pos 1 0 three_bytes = 0" "unread 1 0 three_bytes = [CHR ''a'', CHR 0x0A, CHR ''b'']"
proof -
  show z: "file_size 1 0 three_bytes = 3" by (simp add: file_size_def one_file_addr three_bytes_info)
  show p: "file_pos 1 0 three_bytes = 0" by (simp add: file_pos_def one_file_addr three_bytes_eval load_word_def)
  have "[0..<3] = [0, 1, 2 :: nat]" by code_simp
  then show "unread 1 0 three_bytes = [CHR ''a'', CHR 0x0A, CHR ''b'']"
    by (simp add: unread_def z p file_char_def one_file_addr) (simp add: three_bytes_eval, code_simp)
qed

lemma three_bytes_read: "may_read [devfile (\<lambda>_ _ _ _. None) 1 0] 1 0 0x500100 1 three_bytes"
proof -
  have "open_at [devfile (\<lambda>_ _ _ _. None) 1 0] 1 0 three_bytes"
    using three_bytes_ranges(1) three_bytes_file three_bytes_info
    by (simp add: open_at_def one_file_addr dev_lookup_def devfile_def fd_omode_of_def MAXFILESIZE_def BY2PG_def)
      (simp add: get32_def three_bytes_eval load_word_def DEVFILE_ID_def O_WRONLY_def)
  moreover have "apart 1 0 0x500100 1 three_bytes"
    by (simp add: apart_def three_bytes_file one_file_addr three_bytes_pas) (simp add: three_bytes_eval)
  ultimately show ?thesis using three_bytes_ranges(2) by (simp add: may_read_def)
qed

theorem num_numbers_lines_witness:
  "\<exists>bol w'. num reader 0x500100 (True, 0) (int 0) ([], three_bytes) = Some ((bol, 2), (''    1 a'' @ [CHR 0x0A] @ ''    2 b'', w'))"
proof -
  have "line_label (Suc 0) = ''    1 ''" "line_label (Suc (Suc 0)) = ''    2 ''" by code_simp+
  then show ?thesis
    using num_numbers_lines [of reader 0 "0x500100" three_bytes "[]"] three_bytes_read three_bytes_file(3) by (simp add: reader_def)
qed

text \<open>Strings with a blank between each two.\<close>

fun spaced :: "string list \<Rightarrow> string" where
  "spaced [] = []"
| "spaced [a] = a"
| "spaced (a # as) = a @ '' '' @ spaced as"

lemma spaced_snoc: "spaced (xs @ [a]) = (if xs = [] then a else spaced xs @ '' '' @ a)"
  by (induction xs rule: spaced.induct) auto

lemma console_printf:
  assumes "p_stdout E = console" "vprintfmt fmt ap = Some outs" "length (concat outs) < 2 ^ 31"
  shows "printf E fmt ap (out, w) = Some (out @ concat outs, w)"
  using con.prints [OF assms(2), of "(out, w)" w] assms(1,3) by (auto simp: printf_def)

lemma echo_args:
  assumes E: "p_stdout E = console" and "\<forall>a\<in>set as. length a < 2 ^ 31" and "j \<le> length as"
  shows "ofold (echo_arg E (p # as)) [1..<Suc j] (out, w) = Some (out @ spaced (take j as), w)"
  using assms(3)
proof (induction j)
  case (Suc j)
  have a: "length (as ! j) < 2 ^ 31" using assms(2) Suc.prems by simp
  have "echo_arg E (p # as) (Suc j) (o', w) = Some (o' @ (if 0 < j then '' '' else []) @ as ! j, w)" for o'
    using console_printf [OF E, of "''%s''" "[ArgStr (as ! j)]" "[as ! j]"] console_printf [OF E, of "'' ''" "[]" "['' '']"] a
    by (simp only: echo_arg_def printed_formats) auto
  then show ?case using Suc by (simp add: ofold_append take_Suc_conv_app_nth spaced_snoc) auto
qed simp

text \<open>
  Lemma (echo_prints): \<open>echo\<close> prints its arguments with a blank between each two, and a newline at the end unless the first of them is \<open>-n\<close>, which is left out.
\<close>

theorem echo_prints:
  assumes "p_stdout E = console" and "\<forall>a\<in>set as. length a < 2 ^ 31"
  shows "echo_main E (p # as) (out, w) =
    Some (out @ (if as \<noteq> [] \<and> hd as = ''-n'' then spaced (tl as) else spaced as @ [CHR 0x0A]), w)"
proof -
  have nl: "printf E [CHR 0x0A] [] (o', w) = Some (o' @ [CHR 0x0A], w)" for o'
    using console_printf [OF assms(1), of "[CHR 0x0A]" "[]" "[[CHR 0x0A]]"] by simp
  show ?thesis
  proof (cases "as \<noteq> [] \<and> hd as = ''-n''")
    case True
    then obtain bs where "as = ''-n'' # bs" by (cases as) auto
    then show ?thesis using echo_args [OF assms(1), of bs "length bs" "''-n''"] assms(2) by (simp add: echo_main_def)
  next
    case False
    then have "(length (p # as) > 1 \<and> (p # as) ! 1 = ''-n'') = False" by (cases as) auto
    then show ?thesis unfolding echo_main_def if_not_P [OF False] using echo_args [OF assms, of "length as" p] nl
      by (simp only: Let_def if_False if_True not_False_eq_True) (simp del: upt_Suc)
  qed
qed

end
