(* ===== verification/Pipe_Fd.thy ===== *)
theory Pipe_Fd
  imports Fd Pipe
begin

text \<open>
  \<open>pipe_is_closed\<close> of \<open>user/lib/pipe.c\<close>: the lookup of a descriptor in the memory of the running environment, followed by the closed test on the
  shared state \<open>w\<close> of the pipe behind that descriptor.
\<close>

definition pipe_is_closed :: "others \<Rightarrow> u32 \<Rightarrow> int \<Rightarrow> uworld \<Rightarrow> pworld \<Rightarrow> (int \<times> pworld) option" where
  "pipe_is_closed others me fdnum u w = (
     case fd_lookup me fdnum u of
       Inl e \<Rightarrow> Some (eret e, w)
     | Inr fd \<Rightarrow> do { (c, w) \<leftarrow> pipe_closed others w; Some (if c then 1 else 0, w) })"

text \<open>
  With nobody else running the test returns in one round: \<open>- E_INVAL\<close> for a number that is too large or a page that is not mapped, and otherwise whether the two counts agree.
\<close>

lemma pipe_is_closed_alone:
  "map_option fst (pipe_is_closed (\<lambda>_ w. w) me fdnum u w) =
    Some (if fdnum \<ge> MAXFD \<or> \<not> pte_valid (uptab u me (VPN (INDEX2FD fdnum))) then eret E_INVAL
      else if fd_pageref w = pipe_pageref w then 1 else 0)"
proof -
  have "pipe_closed (\<lambda>_ w. w) w = Some (fd_pageref w = pipe_pageref w, w\<lparr>clock := clock w + 3\<rparr>)"
    by (subst pipe_closed.simps) (simp add: tick_def Let_def)
  then show ?thesis by (auto simp: pipe_is_closed_def fd_lookup_def Let_def va_div)
qed

end
