(* ===== verification/Spec2Isabelle.thy ===== *)
theory Spec2Isabelle
  imports Spawn_Load Shell_Props Syscall_Props Env_Mem Env_Ids Pmap_Props Fork File User_Print Pipe Ide Fs_Props Fat_Serv Fat_Props Fs_Image Program_Props Pipe_Fd
begin

text \<open>
  \<^bold>\<open>The MOS kernel, its file server and its user library.\<close> The program is a small operating system
  for a 32-bit MIPS machine. The kernel (\<open>kern\<close>, \<open>lib\<close>, \<open>include\<close>) manages 64 MB of physical memory, two-level
  page tables, environments (processes) and a scheduler, and offers eighteen system calls. On them
  stand a user library (\<open>user/lib\<close>) with copy-on-write \<open>fork\<close>, pipes, file descriptors, a console, open files and the loading of
  programs, a shell (\<open>user/sh.c\<close>), and two file servers (\<open>fs\<close>), environments of their own that answer requests by messages and drive
  the disk through system calls, one for the file system of MOS and one for FAT32. A tool of the host, \<open>tools/fsformat.c\<close>, builds the
  image of the disk. All file names below are relative to \<open>src\<close>.

  \<^bold>\<open>Conventions.\<close> Machine integers are words of their width, so that every sum and shift wraps as in C.
  Stateful code is a function from the state to a result and the new state. \<open>None\<close> stands for what
  does not come back: a call of \<open>panic\<close> or \<open>user_panic\<close>, a failed assertion, a null dereference, or a
  loop that does not end. An error code of the source is a value of the sum type, \<open>Inl e\<close> with the
  constructor of \<open>err\<close> (theory \<open>Prelude\<close>), or the negative number itself where the code passes it on as a word.
  Most loops end and are structural recursions or functions with a termination proof. Loops that wait
  for someone else (reading a pipe, the console, the retry of the closed test, the refill of the TLB)
  are either \<open>partial_function (option)\<close> or recursions over an explicit sequence of what the others do; the
  statements about them say when they return.

  \<^bold>\<open>The theories of the kernel.\<close>
  \<^item> \<open>Prelude\<close>: word types, error codes, rounding, shared lemmas.
  \<^item> \<open>Queue_Lists\<close> (\<open>include/queue.h\<close>): the list macros on a store of link fields. The locales \<open>intrusive_list\<close> and
    \<open>intrusive_queue\<close> state what they promise as operations on the list of elements; they are
    interpreted on the macros, and the allocators and the scheduler use the facts of the interpretation.
  \<^item> \<open>Mmu\<close> (\<open>include/mmu.h\<close>, \<open>include/pmap.h\<close>): address fields, segments, \<open>PADDR\<close>, \<open>KADDR\<close>, pages as indices.
  \<^item> \<open>Pmap\<close> (\<open>kern/pmap.c\<close>, \<open>kern/tlb_asm.S\<close>): the record of the machine memory and all operations on pages and page
    tables. \<open>Pmap_Inv\<close> has the invariant \<open>mem_inv\<close> (which pages are free, mapped, tables or directories, and
    that the reference counts say so) and the abstract address space; \<open>Pmap_Spec\<close> and \<open>Pmap_Dirs\<close> prove what each
    routine does to it; \<open>Pmap_Props\<close> has the resulting properties of allocation, insertion, lookup and
    removal, including that no stale TLB entry survives.
  \<^item> \<open>Tlbex\<close> (\<open>kern/tlbex.c\<close>): refill with passive allocation, which ends after at most one allocation, and the entry
    of the user handler for writes to copy-on-write pages.
  \<^item> \<open>Strings\<close> (\<open>lib/string.c\<close>): byte and word loops against reference definitions on byte lists.
  \<^item> \<open>Elf\<close> (\<open>lib/elfloader.c\<close>) and \<open>Print\<close> (\<open>lib/print.c\<close>, \<open>kern/printk.c\<close>): the loader over an abstract page mapper and the
    formatter over the sequence of pieces it hands to its callback.
  \<^item> \<open>Env\<close> (\<open>kern/env.c\<close>): environments, ids, address space ids, loading, destruction and the context switch;
    \<open>Env_Ids\<close> and \<open>Env_Mem\<close> prove that ids are unique until the counter wraps, that stale ids are rejected,
    and that creation and destruction give and release exactly the pages of an address space.
  \<^item> \<open>Sched\<close> (\<open>kern/sched.c\<close>): \<open>schedule\<close> with its static counter; time slices, round robin, the saved context.
  \<^item> \<open>Syscall\<close> (\<open>kern/syscall_all.c\<close>, \<open>kern/genex.S\<close>): all handlers, the dispatch and the trap entry. \<open>Kernel_Inv\<close> states the
    invariant of the whole kernel; \<open>Syscall_Props\<close> proves by rule induction over the step relation
    \<open>kcall\<close> that sequences of system calls keep it, that the memory calls do not panic, and that messages arrive.

  \<^bold>\<open>The theories of the user side.\<close> They take the memory system calls at the level of address spaces, without the
  kernel's free list; which frame the kernel hands out at the \<open>n\<close>-th request, or that there is none, is
  the field \<open>palloc\<close>, arbitrary in every statement.
  \<^item> \<open>User_Mem\<close>: the address space of one process. \<open>User_Space\<close>: the address spaces of all environments over shared frames.
  \<^item> \<open>Fork\<close> (\<open>user/lib/fork.c\<close>): \<open>cow_entry\<close>, \<open>duppage\<close>, \<open>fork\<close>; the child starts with the memory of the parent, and memory
    shared copy-on-write refines private memory.
  \<^item> \<open>Pipe\<close> (\<open>user/lib/pipe.c\<close>, \<open>user/lib/pageref.c\<close>): the ring buffer and the loops at both ends, each running with arbitrary
    steps of the other end between its own; the locale \<open>interference\<close> states what an end may rely on and
    is interpreted on the acts of the writer and of the reader. Bytes arrive in order, none lost.
  \<^item> \<open>Fd\<close> (\<open>user/lib/fd.c\<close>, \<open>user/lib/console.c\<close>, creation of pipes): descriptors are pages, \<open>dup\<close> shares them. The device
    tables are an argument.
  \<^item> \<open>File\<close> (\<open>user/lib/file.c\<close>, \<open>user/lib/fsipc.c\<close>, \<open>user/lib/ipc.c\<close>): the device of open files and the requests to a file server, which is an
    argument. Every page of a file that \<open>open\<close> returns is mapped, and what is written is read back.
  \<^item> \<open>User_Print\<close> (\<open>user/lib/debugf.c\<close>, \<open>user/lib/fprintf.c\<close>): the sinks of the formatter of \<open>Print\<close>; buffering loses and reorders nothing.
  \<^item> \<open>Spawn\<close> (\<open>user/lib/spawn.c\<close>, \<open>user/lib/wait.c\<close>, \<open>user/lib/libos.c\<close>): loading a program into a child, over \<open>File\<close> and the loader of \<open>Elf\<close>.
    \<open>Spawn_Props\<close> shows the layout of the stack and the sharing of library pages, \<open>Spawn_Load\<close> what the pages of a loaded
    segment hold in the child.
  \<^item> \<open>Shell\<close> (\<open>user/sh.c\<close>): tokenizer, parser, execution and line editor, over \<open>Spawn\<close>. \<open>Shell_Props\<close> compares the tokenizer with a lexer on
    lists, shows which program a line of words runs with which arguments, and what the line editor returns.
  \<^item> \<open>Programs\<close> (\<open>user/echo.c\<close>, \<open>user/cat.c\<close>, \<open>user/num.c\<close>, \<open>user/ls.c\<close>, \<open>include/args.h\<close>, the start of \<open>user/sh.c\<close>): programs on the library. The locale \<open>byte_stream\<close> states what a
    program relies on when it reads a descriptor to its end; \<open>Program_Props\<close> interprets it on \<open>read\<close> of an open file and on the console, and shows what
    \<open>echo\<close>, \<open>cat\<close> and \<open>num\<close> print. \<open>Pipe_Fd\<close> has the closed test of a descriptor.

  \<^bold>\<open>The theories of the file systems.\<close>
  \<^item> \<open>Fs\<close> (\<open>fs/fs.c\<close>): block cache, bitmap, files, directories and paths in the memory of the server; \<open>Fs_Props\<close> shows what
    \<open>fs_sync\<close> leaves on the disk and which block the allocator hands out.
  \<^item> \<open>Ide\<close> (\<open>fs/ide.c\<close>): the register-level driver over a device, a parameter of which the laws \<open>disk_laws\<close> are
    assumed; the driver refines the block transfers \<open>Fs\<close> uses.
  \<^item> \<open>Serv\<close> (\<open>fs/serv.c\<close>): the table of open files, the handlers and one turn of the endless loop; a message to the client
    is the value of the turn. The reference counts of the shared pages are the argument \<open>pp_ref\<close>. The locale \<open>request_server\<close> states what a turn
    owes to the sender of a request and lifts it to runs; both servers are instances of it.
  \<^item> \<open>Fat\<close> (\<open>fs/fatfs.c\<close>) and \<open>Fat_Serv\<close> (\<open>fs/fatserv.c\<close>): the FAT32 file system and its server. \<open>Fat_Props\<close> views the table as a function and files as
    chains: allocation, the walk along a chain and its release.
  \<^item> \<open>Fsformat\<close> (\<open>tools/fsformat.c\<close>): the image builder on a little endian host, its memory flat, the files of the host given as values.
    \<open>Fsformat_Props\<close> follows the links of a file, \<open>Fsformat_Image\<close> has the invariant of the image, which every operation keeps, and \<open>Fsformat_Final\<close> the
    results for the whole tool: the finished image is well formed, its bitmap marks the blocks in use, files read back.
  \<^item> \<open>Fs_Image\<close>: tool and server together. The server started on an image of the tool accepts it and sees the unused blocks as free.

  \<^bold>\<open>Hypotheses that the code relies on and does not check.\<close> Reference counts are 16 bits wide and must not reach
  their limit; permissions given to the mapping calls are the twelve low bits of an entry; the
  list of environments holds exactly the runnable ones. They are hypotheses of the statements that need
  them, each with a concrete state where they hold; where the code breaks when they fail, a statement says so
  (\<open>env_free_unqueued_panics\<close>, \<open>env_alloc_no_asid_leaks\<close>, \<open>dev_range_wraps\<close>, \<open>open_lookup_wrong_slot\<close>).

  \<^bold>\<open>Not modelled.\<close> Boot and exception entry in assembly and \<open>init/init.c\<close>: they set up registers and call functions that are
  modelled. The self checks of the kernel and the test programs: they are tests, not logic of the system. The stubs around the trap instruction
  (\<open>user/lib/syscall_lib.c\<close>): the calls appear as operations of the kernel or of the address spaces. What the shell prints itself, the programs \<open>init\<close>, \<open>icode\<close>, \<open>halt\<close> and \<open>idle\<close>,
  which are sequences of calls, and the ELF tools of the build.
\<close>

end
